(* ===== verification/Prelude.thy ===== *)
theory Prelude
  imports Main "HOL-Library.AList" "HOL-Library.Char_ord" "HOL-Library.List_Lexorder"
    "HOL-Library.Code_Target_Nat"
begin

text \<open>
  What every component of the development shares: the collections of rewrite rules the proofs
  draw on, and facts on lists, stable filtering and association lists that no component owns.

  Go's \<^verbatim>\<open>string\<close> is a sequence of bytes, and so is \<^typ>\<open>string\<close> here: one
  \<^typ>\<open>char\<close> is one byte, and \<open>\<le>\<close> on strings (from List_Lexorder and Char_ord) is the
  bytewise order of \<^verbatim>\<open>sort.Strings\<close>. A Go slice is a list, with nil and an empty slice
  identified except where the code tells them apart. A Go map is an association list with distinct
  keys: \<^const>\<open>map_of\<close> reads it and \<^const>\<open>AList.update\<close> stores into it.
\<close>

named_theorems go_eval \<open>equations that evaluate the library models on closed arguments\<close>
named_theorems record_ops \<open>definitions of the small record updates and accessors\<close>

section \<open>Lists\<close>

lemma filter_notin_empty [simp]: "filter (\<lambda>x. x \<notin> set xs) xs = []"
  by (induction xs) (auto simp: filter_empty_conv)

lemma set_filter_subset [intro]: "set (filter P xs) \<subseteq> set xs"
  by auto

lemma distinct_snoc [simp]: "distinct (xs @ [x]) \<longleftrightarrow> distinct xs \<and> x \<notin> set xs"
  by auto

lemma distinct_single: "distinct xs \<Longrightarrow> set xs = {x} \<Longrightarrow> xs = [x]"
  by (cases xs; cases "tl xs") auto

section \<open>Go maps as association lists\<close>

text \<open>The keys of a Go map are distinct, and every store keeps them so.\<close>

abbreviation keys :: "('k \<times> 'v) list \<Rightarrow> 'k list" where
  "keys m \<equiv> map fst m"

abbreviation go_map :: "('k \<times> 'v) list \<Rightarrow> bool" where
  "go_map m \<equiv> distinct (keys m)"

lemma go_map_update [simp, intro]: "go_map m \<Longrightarrow> go_map (AList.update k v m)"
  by (rule distinct_update)

lemma map_of_update [simp]: "map_of (AList.update k v m) = (map_of m)(k \<mapsto> v)"
  by (simp add: update_conv')

lemma keys_update_mem [simp]: "map_of m k = Some v \<Longrightarrow> keys (AList.update k w m) = keys m"
  by (induction m) (auto split: if_splits)

lemma map_of_mem_keys: "map_of m k = Some v \<Longrightarrow> k \<in> set (keys m)"
  by (metis map_of_eq_None_iff list.set_map option.distinct(1))

lemma mem_keys_map_of: "k \<in> set (keys m) \<Longrightarrow> \<exists>v. map_of m k = Some v"
  by (metis map_of_eq_None_iff list.set_map not_None_eq)

end
