(* ===== verification/Go_Text.thy ===== *)
theory Go_Text
  imports Prelude
begin

text \<open>
  The part of Go's \<^verbatim>\<open>strings\<close>, \<^verbatim>\<open>unicode/utf8\<close> and \<^verbatim>\<open>strconv\<close> packages that the program
  uses, on byte strings: UTF-8 decoding, trimming, cutting, case folding and decimal numbers.
\<close>

section \<open>Bytes and runes\<close>

definition byte :: "char \<Rightarrow> nat" where
  "byte c = of_char c"

definition is_cont :: "nat \<Rightarrow> bool" where
  "is_cont b \<longleftrightarrow> 128 \<le> b \<and> b < 192"

text \<open>
  \<open>rune_tail a s\<close> is how many bytes of \<open>s\<close> belong to the code point that the byte \<open>a\<close> starts:
  0 for ASCII and for a byte that starts no well-formed sequence, which decodes to U+FFFD on its
  own. The second byte's bounds exclude overlong forms, surrogates and values past U+10FFFF.
\<close>

fun second_ok :: "nat \<Rightarrow> nat \<Rightarrow> bool" where
  "second_ok a b =
     (if a = 224 then 160 \<le> b \<and> b < 192
      else if a = 237 then 128 \<le> b \<and> b < 160
      else if a = 240 then 144 \<le> b \<and> b < 192
      else if a = 244 then 128 \<le> b \<and> b < 144
      else is_cont b)"

definition rune_tail :: "char \<Rightarrow> string \<Rightarrow> nat" where
  "rune_tail c s =
     (let a = byte c in
      if 194 \<le> a \<and> a < 224 then
        (case s of c1 # _ \<Rightarrow> if is_cont (byte c1) then 1 else 0 | _ \<Rightarrow> 0)
      else if 224 \<le> a \<and> a < 240 then
        (case s of c1 # c2 # _ \<Rightarrow>
           if second_ok a (byte c1) \<and> is_cont (byte c2) then 2 else 0 | _ \<Rightarrow> 0)
      else if 240 \<le> a \<and> a < 245 then
        (case s of c1 # c2 # c3 # _ \<Rightarrow>
           if second_ok a (byte c1) \<and> is_cont (byte c2) \<and> is_cont (byte c3) then 3 else 0 | _ \<Rightarrow> 0)
      else 0)"

definition rune_value :: "char \<Rightarrow> string \<Rightarrow> nat" where
  "rune_value c s =
     (let a = byte c in
      case map byte s of
        [] \<Rightarrow> if a < 128 then a else 65533
      | [b1] \<Rightarrow> (a mod 32) * 64 + b1 mod 64
      | [b1, b2] \<Rightarrow> (a mod 16) * 4096 + (b1 mod 64) * 64 + b2 mod 64
      | b1 # b2 # b3 # _ \<Rightarrow>
          (a mod 8) * 262144 + (b1 mod 64) * 4096 + (b2 mod 64) * 64 + b3 mod 64)"

text \<open>A string as Go's \<^verbatim>\<open>range\<close> reads it: code points, each with the bytes it was read from.\<close>

type_synonym rune = "nat \<times> string"

function runes :: "string \<Rightarrow> rune list" where
  "runes [] = []"
| "runes (c # s) =
     (let n = rune_tail c s in (rune_value c (take n s), c # take n s) # runes (drop n s))"
  by pat_completeness auto
termination
  by (relation "measure length") auto

definition unrunes :: "rune list \<Rightarrow> string" where
  "unrunes rs = concat (map snd rs)"

lemma unrunes_simps [simp]:
  "unrunes [] = []" "unrunes (r # rs) = snd r @ unrunes rs" "unrunes (rs @ rs') = unrunes rs @ unrunes rs'"
  by (simp_all add: unrunes_def)

lemma unrunes_runes [simp]: "unrunes (runes s) = s"
  by (induction s rule: runes.induct) (simp_all add: Let_def)

definition rune_ok :: "rune \<Rightarrow> bool" where
  "rune_ok r \<longleftrightarrow> fst r < 128 \<or> 1 < length (snd r)"

definition valid_utf8 :: "string \<Rightarrow> bool" where
  "valid_utf8 s \<longleftrightarrow> list_all rune_ok (runes s)"

definition rune_count :: "string \<Rightarrow> nat" where
  "rune_count s = length (runes s)"

text \<open>\<^verbatim>\<open>strings.ToValidUTF8(s, "")\<close>: the bytes that decode to nothing leave.\<close>

definition to_valid_utf8 :: "string \<Rightarrow> string" where
  "to_valid_utf8 s = unrunes (filter rune_ok (runes s))"

definition is_space_rune :: "nat \<Rightarrow> bool" where
  "is_space_rune r \<longleftrightarrow>
     (9 \<le> r \<and> r \<le> 13) \<or> r = 32 \<or> r = 133 \<or> r = 160 \<or> r = 5760 \<or> (8192 \<le> r \<and> r \<le> 8202)
     \<or> r = 8232 \<or> r = 8233 \<or> r = 8239 \<or> r = 8287 \<or> r = 12288"

definition trim_ends :: "('a \<Rightarrow> bool) \<Rightarrow> 'a list \<Rightarrow> 'a list" where
  "trim_ends P xs = rev (dropWhile P (rev (dropWhile P xs)))"

definition trim_space :: "string \<Rightarrow> string" where
  "trim_space s = unrunes (trim_ends (\<lambda>r. is_space_rune (fst r)) (runes s))"

definition trim_blanks :: "string \<Rightarrow> string" where
  "trim_blanks s = trim_ends (\<lambda>c. c = CHR '' '') s"

definition trim_right_blanks :: "string \<Rightarrow> string" where
  "trim_right_blanks s = rev (dropWhile (\<lambda>c. c = CHR '' '') (rev s))"

section \<open>Cutting and splitting\<close>

text \<open>\<^verbatim>\<open>strings.Cut\<close> at a one-byte separator: \<^const>\<open>None\<close> where it is not found.\<close>

fun cut :: "char \<Rightarrow> string \<Rightarrow> (string \<times> string) option" where
  "cut sep [] = None"
| "cut sep (c # s) = (if c = sep then Some ([], s)
     else map_option (\<lambda>(a, b). (c # a, b)) (cut sep s))"

fun split_on :: "char \<Rightarrow> string \<Rightarrow> string list" where
  "split_on sep [] = [[]]"
| "split_on sep (c # s) =
     (if c = sep then [] # split_on sep s
      else (case split_on sep s of [] \<Rightarrow> [[c]] | w # ws \<Rightarrow> (c # w) # ws))"

fun join_with :: "string \<Rightarrow> string list \<Rightarrow> string" where
  "join_with sep [] = []"
| "join_with sep [w] = w"
| "join_with sep (w # ws) = w @ sep @ join_with sep ws"

definition has_suffix :: "string \<Rightarrow> string \<Rightarrow> bool" where
  "has_suffix s suf \<longleftrightarrow> length suf \<le> length s \<and> drop (length s - length suf) s = suf"

definition trim_suffix :: "string \<Rightarrow> string \<Rightarrow> string" where
  "trim_suffix s suf = (if has_suffix s suf then take (length s - length suf) s else s)"

lemma cut_Some: "cut sep s = Some (a, b) \<longleftrightarrow> s = a @ sep # b \<and> sep \<notin> set a"
proof (induction s arbitrary: a)
  case Nil
  show ?case by simp
next
  case (Cons c s)
  show ?case by (cases a) (auto simp: Cons.IH split: option.splits)
qed

lemma cut_None: "cut sep s = None \<longleftrightarrow> sep \<notin> set s"
  by (induction s) auto

lemma split_on_nonempty [simp]: "split_on sep s \<noteq> []"
  by (induction s) (auto split: list.splits)

lemma split_on_no_sep: "sep \<notin> set s \<Longrightarrow> split_on sep s = [s]"
  by (induction s) auto

lemma split_on_append: "sep \<notin> set a \<Longrightarrow> split_on sep (a @ sep # b) = a # split_on sep b"
  by (induction a) auto

lemma trim_suffix_append [simp]: "trim_suffix (s @ suf) suf = s"
  by (simp add: trim_suffix_def has_suffix_def)

section \<open>Case\<close>

text \<open>
  \<^verbatim>\<open>strings.EqualFold\<close> under Unicode simple folding. Every call in the program compares with an
  ASCII constant, and the only code points beyond ASCII that fold into ASCII are the long s
  (U+017F) and the Kelvin sign (U+212A); the other orbits are left out.
\<close>

definition fold_rune :: "nat \<Rightarrow> nat" where
  "fold_rune r = (if 65 \<le> r \<and> r \<le> 90 then r + 32 else if r = 383 then 115
                  else if r = 8490 then 107 else r)"

definition equal_fold :: "string \<Rightarrow> string \<Rightarrow> bool" where
  "equal_fold s t \<longleftrightarrow> map (fold_rune \<circ> fst) (runes s) = map (fold_rune \<circ> fst) (runes t)"

text \<open>
  \<^verbatim>\<open>strings.ToLower\<close> on ASCII letters; upper-case letters beyond ASCII, which no protocol,
  security or network name of Xray has, are kept.
\<close>

definition lower_byte :: "char \<Rightarrow> char" where
  "lower_byte c = (if 65 \<le> byte c \<and> byte c \<le> 90 then char_of (byte c + 32) else c)"

definition to_lower :: "string \<Rightarrow> string" where
  "to_lower s = map lower_byte s"

lemma equal_fold_refl [simp]: "equal_fold s s"
  by (simp add: equal_fold_def)

lemma equal_fold_sym: "equal_fold s t \<Longrightarrow> equal_fold t s"
  by (simp add: equal_fold_def)

lemma equal_fold_trans: "equal_fold s t \<Longrightarrow> equal_fold t u \<Longrightarrow> equal_fold s u"
  by (simp add: equal_fold_def)

lemma byte_char_of [simp]: "byte (char_of n) = n mod 256"
  by (simp add: byte_def)

lemma byte_less [simp]: "byte c < 256"
  unfolding byte_def by (metis of_char_mod_256 mod_less_divisor zero_less_numeral)

lemma byte_inject [simp]: "byte c = byte d \<longleftrightarrow> c = d"
  by (simp add: byte_def of_char_eq_iff)

lemma lower_byte_idem [simp]: "lower_byte (lower_byte c) = lower_byte c"
  by (auto simp: lower_byte_def)

lemma to_lower_idem [simp]: "to_lower (to_lower s) = to_lower s"
  by (simp add: to_lower_def)

section \<open>Decimal numbers\<close>

definition is_digit :: "char \<Rightarrow> bool" where
  "is_digit c \<longleftrightarrow> 48 \<le> byte c \<and> byte c \<le> 57"

definition digit_value :: "char \<Rightarrow> nat" where
  "digit_value c = byte c - 48"

definition digit_char :: "nat \<Rightarrow> char" where
  "digit_char d = char_of (48 + d)"

fun show_nat :: "nat \<Rightarrow> string" where
  "show_nat n = (if n < 10 then [digit_char n] else show_nat (n div 10) @ [digit_char (n mod 10)])"

declare show_nat.simps [simp del]

definition show_int :: "int \<Rightarrow> string" where
  "show_int n = (if n < 0 then CHR ''-'' # show_nat (nat (- n)) else show_nat (nat n))"

definition nat_of_digits :: "string \<Rightarrow> nat" where
  "nat_of_digits s = foldl (\<lambda>n c. 10 * n + digit_value c) 0 s"

text \<open>A non-empty run of ASCII digits and nothing else.\<close>

definition parse_nat :: "string \<Rightarrow> nat option" where
  "parse_nat s = (if s \<noteq> [] \<and> list_all is_digit s then Some (nat_of_digits s) else None)"

lemma digit_char_props [simp]:
  assumes "d < 10"
  shows "is_digit (digit_char d)" and "digit_value (digit_char d) = d"
  using assms by (auto simp: is_digit_def digit_char_def digit_value_def)

lemma byte_digit_char: "d < 10 \<Longrightarrow> byte (digit_char d) = 48 + d"
  by (simp add: digit_char_def)

lemma digit_char_eq: "d < 10 \<Longrightarrow> digit_char d = c \<longleftrightarrow> byte c = 48 + d"
  by (metis byte_digit_char byte_inject)

lemma nat_of_digits_snoc [simp]:
  "nat_of_digits (s @ [c]) = 10 * nat_of_digits s + digit_value c"
  by (simp add: nat_of_digits_def)

lemma nat_of_digits_Nil [simp]: "nat_of_digits [] = 0"
  by (simp add: nat_of_digits_def)

lemma nat_of_digits_single [simp]: "nat_of_digits [c] = digit_value c"
  by (simp add: nat_of_digits_def)

lemma show_nat_digits: "list_all is_digit (show_nat n)"
proof (induction n rule: show_nat.induct)
  case (1 n)
  then show ?case
    by (cases "n < 10") (simp_all add: show_nat.simps [of n])
qed

lemma show_nat_nonempty [simp]: "show_nat n \<noteq> []"
  by (subst show_nat.simps) simp

lemma nat_of_digits_show [simp]: "nat_of_digits (show_nat n) = n"
proof (induction n rule: show_nat.induct)
  case (1 n)
  then show ?case
    by (cases "n < 10") (simp_all add: show_nat.simps [of n])
qed

lemma parse_show_nat [simp]: "parse_nat (show_nat n) = Some n"
  by (simp add: parse_nat_def show_nat_digits)

lemma show_nat_inject [simp]: "show_nat m = show_nat n \<longleftrightarrow> m = n"
  by (metis nat_of_digits_show)

lemma not_in_show_nat: "\<not> is_digit c \<Longrightarrow> c \<notin> set (show_nat n)"
  using show_nat_digits [of n] by (auto simp: list_all_iff)

text \<open>A number printed in decimal starts with 0 only when it is 0.\<close>

lemma hd_show_nat: "hd (show_nat n) = digit_char 0 \<Longrightarrow> n = 0"
proof (induction n rule: show_nat.induct)
  case (1 n)
  show ?case
  proof (cases "n < 10")
    case True
    with 1 show ?thesis
      by (metis show_nat.simps list.sel(1) digit_char_props(2) zero_less_numeral)
  next
    case False
    with 1 have "n div 10 = 0"
      by (auto simp: show_nat.simps [of n])
    with False show ?thesis by simp
  qed
qed

text \<open>Strings of ASCII bytes decode byte by byte, and trimming sees only their ASCII spaces.\<close>

lemma runes_ascii: "list_all (\<lambda>c. byte c < 128) s \<Longrightarrow> runes s = map (\<lambda>c. (byte c, [c])) s"
  by (induction s) (auto simp: rune_tail_def rune_value_def)

lemma trim_ends_id: "xs = [] \<or> \<not> P (hd xs) \<and> \<not> P (last xs) \<Longrightarrow> trim_ends P xs = xs"
proof -
  assume ends: "xs = [] \<or> \<not> P (hd xs) \<and> \<not> P (last xs)"
  then have "dropWhile P xs = xs" by (cases xs) auto
  moreover from ends have "dropWhile P (rev xs) = rev xs"
    by (cases xs rule: rev_cases) auto
  ultimately show ?thesis by (simp add: trim_ends_def)
qed

lemma trim_space_no_space:
  assumes "list_all (\<lambda>c. 32 < byte c \<and> byte c < 128) s"
  shows "trim_space s = s"
proof -
  from assms have "list_all (\<lambda>c. byte c < 128) s" by (auto simp: list_all_iff)
  then have r: "runes s = map (\<lambda>c. (byte c, [c])) s" by (rule runes_ascii)
  have ns: "\<not> is_space_rune (byte c)" if "c \<in> set s" for c
    using assms that by (force simp: list_all_iff is_space_rune_def)
  have "trim_ends (\<lambda>r. is_space_rune (fst r)) (runes s) = runes s"
    by (rule trim_ends_id) (cases "s = []", auto simp: r hd_map last_map ns)
  then show ?thesis by (simp add: trim_space_def)
qed

end
