(* ===== verification/Go_Json.thy ===== *)
theory Go_Json
  imports Go_Text "HOL-Library.Multiset"
begin

text \<open>
  Go's \<^verbatim>\<open>encoding/json\<close>: the values it reads, the parser (its nesting limit of 10000
  included), the decoding of an object into a map - the last of equal keys wins - or into a struct -
  keys match exactly or fold to the field's name - and the encoder, which sorts a map's keys and
  escapes HTML characters. A number keeps the text it was written in; what a \<^verbatim>\<open>float64\<close>
  makes of that text is in Go_Float.
\<close>

datatype json =
    JNull
  | JBool bool
  | JNum string
  | JStr string
  | JArr "json list"
  | JObj "(string \<times> json) list"

section \<open>Scanning\<close>

definition is_ws :: "char \<Rightarrow> bool" where
  "is_ws c \<longleftrightarrow> byte c \<in> {32, 9, 10, 13}"

definition skip_ws :: "string \<Rightarrow> string" where
  "skip_ws s = dropWhile is_ws s"

lemma skip_ws_length: "length (skip_ws s) \<le> length s"
  by (simp add: skip_ws_def length_dropWhile_le)

lemma skip_ws_Cons: "skip_ws s = c # r \<Longrightarrow> length r < length s"
  using skip_ws_length [of s] by simp

definition hex_value :: "char \<Rightarrow> nat option" where
  "hex_value c =
     (let b = byte c in
      if 48 \<le> b \<and> b \<le> 57 then Some (b - 48)
      else if 97 \<le> b \<and> b \<le> 102 then Some (b - 87)
      else if 65 \<le> b \<and> b \<le> 70 then Some (b - 55)
      else None)"

fun hex4 :: "string \<Rightarrow> nat option" where
  "hex4 (a # b # c # d # _) =
     (case (hex_value a, hex_value b, hex_value c, hex_value d) of
        (Some w, Some x, Some y, Some z) \<Rightarrow> Some (((w * 16 + x) * 16 + y) * 16 + z)
      | _ \<Rightarrow> None)"
| "hex4 _ = None"

text \<open>The bytes of a string literal up to its closing quote, escapes checked but kept.\<close>

fun scan_string :: "string \<Rightarrow> (string \<times> string) option" where
  "scan_string [] = None"
| "scan_string (c # s) =
     (if byte c = 34 then Some ([], s)
      else if byte c < 32 then None
      else if byte c = 92 then
        (case s of
           [] \<Rightarrow> None
         | e # t \<Rightarrow>
             if byte e \<in> {34, 92, 47, 98, 102, 110, 114, 116} \<or> (byte e = 117 \<and> hex4 t \<noteq> None)
             then map_option (\<lambda>(a, r). (c # e # a, r)) (scan_string t)
             else None)
      else map_option (\<lambda>(a, r). (c # a, r)) (scan_string s))"

lemma scan_string_length: "scan_string s = Some (a, r) \<Longrightarrow> length r < length s"
proof (induction s arbitrary: a r rule: scan_string.induct)
  case 1
  then show ?case by simp
next
  case (2 c s)
  show ?case
  proof (cases "byte c = 34 \<or> byte c < 32 \<or> byte c \<noteq> 92")
    case True
    with 2 show ?thesis by (fastforce split: if_splits)
  next
    case False
    with 2 show ?thesis by (fastforce split: list.splits if_splits)
  qed
qed

definition encode_rune :: "nat \<Rightarrow> string" where
  "encode_rune r = map char_of
     (if r < 128 then [r]
      else if r < 2048 then [192 + r div 64, 128 + r mod 64]
      else if r < 65536 then [224 + r div 4096, 128 + (r div 64) mod 64, 128 + r mod 64]
      else [240 + r div 262144, 128 + (r div 4096) mod 64, 128 + (r div 64) mod 64, 128 + r mod 64])"

definition escaped_char :: "char \<Rightarrow> char" where
  "escaped_char e =
     (let b = byte e in
      char_of (if b = 98 then 8 else if b = 102 then 12 else if b = 110 then 10
               else if b = 114 then 13 else if b = 116 then 9 else b))"

text \<open>
  A code unit \<open>u\<close> of an escape with the text after it: a surrogate pair is one code point, a lone
  surrogate U+FFFD. The number is how many further bytes the escape took.
\<close>

definition unit_rune :: "nat \<Rightarrow> string \<Rightarrow> nat \<times> nat" where
  "unit_rune u t =
     (if u < 55296 \<or> 57344 \<le> u then (u, 0)
      else if 56320 \<le> u then (65533, 0)
      else
        (case t of
           c # e # h \<Rightarrow>
             (case hex4 h of
                Some v \<Rightarrow>
                  if byte c = 92 \<and> byte e = 117 \<and> 56320 \<le> v \<and> v < 57344
                  then (65536 + (u - 55296) * 1024 + (v - 56320), 6) else (65533, 0)
              | None \<Rightarrow> (65533, 0))
         | _ \<Rightarrow> (65533, 0)))"

function unquote :: "string \<Rightarrow> string" where
  "unquote [] = []"
| "unquote (c # s) =
     (if byte c = 92 then
        (case s of
           [] \<Rightarrow> []
         | e # t \<Rightarrow>
             if byte e = 117 then
               (case hex4 t of
                  None \<Rightarrow> []
                | Some u \<Rightarrow>
                    let (r, n) = unit_rune u (drop 4 t)
                    in encode_rune r @ unquote (drop (4 + n) t))
             else escaped_char e # unquote t)
      else
        let n = rune_tail c s
        in (if byte c < 128 \<or> 0 < n then c # take n s else encode_rune 65533)
           @ unquote (drop n s))"
  by pat_completeness auto
termination
  by (relation "measure length") auto

definition scan_digits :: "string \<Rightarrow> string \<times> string" where
  "scan_digits s = (takeWhile is_digit s, dropWhile is_digit s)"

text \<open>A number literal: sign, integer part without a leading zero, fraction, exponent.\<close>

definition scan_int :: "string \<Rightarrow> (string \<times> string) option" where
  "scan_int s =
     (case s of
        [] \<Rightarrow> None
      | c # r \<Rightarrow>
          if byte c = 48 then Some ([c], r)
          else if is_digit c then Some (scan_digits s)
          else None)"

definition scan_frac :: "string \<Rightarrow> (string \<times> string) option" where
  "scan_frac s =
     (case s of
        c # r \<Rightarrow>
          if c = CHR ''.'' then
            (let (ds, t) = scan_digits r in if ds = [] then None else Some (c # ds, t))
          else Some ([], s)
      | [] \<Rightarrow> Some ([], s))"

definition scan_exp :: "string \<Rightarrow> (string \<times> string) option" where
  "scan_exp s =
     (case s of
        c # r \<Rightarrow>
          if c = CHR ''e'' \<or> c = CHR ''E'' then
            (let (sg, r') = (case r of d # q \<Rightarrow> if d = CHR ''+'' \<or> d = CHR ''-'' then ([d], q) else ([], r)
                             | [] \<Rightarrow> ([], r));
                 (ds, t) = scan_digits r'
             in if ds = [] then None else Some (c # sg @ ds, t))
          else Some ([], s)
      | [] \<Rightarrow> Some ([], s))"

definition scan_number :: "string \<Rightarrow> (string \<times> string) option" where
  "scan_number s =
     (let (sg, s0) = (case s of c # r \<Rightarrow> if c = CHR ''-'' then ([c], r) else ([], s) | [] \<Rightarrow> ([], s)) in
      case scan_int s0 of
        None \<Rightarrow> None
      | Some (i, s1) \<Rightarrow>
          (case scan_frac s1 of
             None \<Rightarrow> None
           | Some (f, s2) \<Rightarrow>
               (case scan_exp s2 of
                  None \<Rightarrow> None
                | Some (e, s3) \<Rightarrow> Some (sg @ i @ f @ e, s3))))"

fun strip_prefix :: "string \<Rightarrow> string \<Rightarrow> string option" where
  "strip_prefix [] s = Some s"
| "strip_prefix (p # ps) (c # s) = (if p = c then strip_prefix ps s else None)"
| "strip_prefix (p # ps) [] = None"

section \<open>Parsing\<close>

text \<open>
  \<open>parse_value d s\<close> reads one value, with \<open>d\<close> levels of nesting left. The length guards make the
  recursion well-founded without fuel; they never fail, since every reader consumes its input.
\<close>

function parse_value :: "nat \<Rightarrow> string \<Rightarrow> (json \<times> string) option"
  and parse_elems :: "nat \<Rightarrow> string \<Rightarrow> (json list \<times> string) option"
  and parse_members :: "nat \<Rightarrow> string \<Rightarrow> ((string \<times> json) list \<times> string) option"
where
  "parse_value d s =
     (case skip_ws s of
        [] \<Rightarrow> None
      | c # r \<Rightarrow>
          if byte c = 34 then map_option (\<lambda>(t, r'). (JStr (unquote t), r')) (scan_string r)
          else if byte c = 123 then
            (case d of
               0 \<Rightarrow> None
             | Suc d' \<Rightarrow>
                 (case skip_ws r of
                    c' # r' \<Rightarrow> if byte c' = 125 then Some (JObj [], r')
                               else map_option (\<lambda>(ms, q). (JObj ms, q)) (parse_members d' r)
                  | [] \<Rightarrow> None))
          else if byte c = 91 then
            (case d of
               0 \<Rightarrow> None
             | Suc d' \<Rightarrow>
                 (case skip_ws r of
                    c' # r' \<Rightarrow> if byte c' = 93 then Some (JArr [], r')
                               else map_option (\<lambda>(vs, q). (JArr vs, q)) (parse_elems d' r)
                  | [] \<Rightarrow> None))
          else if byte c = 116 then map_option (\<lambda>q. (JBool True, q)) (strip_prefix ''rue'' r)
          else if byte c = 102 then map_option (\<lambda>q. (JBool False, q)) (strip_prefix ''alse'' r)
          else if byte c = 110 then map_option (\<lambda>q. (JNull, q)) (strip_prefix ''ull'' r)
          else map_option (\<lambda>(n, q). (JNum n, q)) (scan_number (c # r)))"
| "parse_elems d s =
     (case parse_value d s of
        None \<Rightarrow> None
      | Some (v, s1) \<Rightarrow>
          (case skip_ws s1 of
             [] \<Rightarrow> None
           | c # r \<Rightarrow>
               if byte c = 93 then Some ([v], r)
               else if byte c = 44 \<and> length r < length s
               then map_option (\<lambda>(vs, q). (v # vs, q)) (parse_elems d r)
               else None))"
| "parse_members d s =
     (case skip_ws s of
        [] \<Rightarrow> None
      | c # r \<Rightarrow>
          if byte c \<noteq> 34 then None
          else
            (case scan_string r of
               None \<Rightarrow> None
             | Some (k, r1) \<Rightarrow>
                 (case skip_ws r1 of
                    [] \<Rightarrow> None
                  | c1 # r2 \<Rightarrow>
                      if byte c1 \<noteq> 58 \<or> length s \<le> length r2 then None
                      else
                        (case parse_value d r2 of
                           None \<Rightarrow> None
                         | Some (v, r3) \<Rightarrow>
                             (case skip_ws r3 of
                                [] \<Rightarrow> None
                              | c2 # r4 \<Rightarrow>
                                  if byte c2 = 125 then Some ([(unquote k, v)], r4)
                                  else if byte c2 = 44 \<and> length r4 < length s
                                  then map_option (\<lambda>(ms, q). ((unquote k, v) # ms, q)) (parse_members d r4)
                                  else None)))))"
  by pat_completeness auto
termination
  by (relation "measure (case_sum (\<lambda>(d, s). 2 * length s)
        (case_sum (\<lambda>(d, s). 2 * length s + 1) (\<lambda>(d, s). 2 * length s + 1)))")
    (auto dest!: skip_ws_Cons)

declare parse_value.simps [simp del] parse_elems.simps [simp del] parse_members.simps [simp del]

definition max_nesting :: nat where
  "max_nesting = 10000"

text \<open>\<^verbatim>\<open>json.Unmarshal\<close> takes one value and nothing behind it, a decoder the first value.\<close>

definition parse_json :: "string \<Rightarrow> json option" where
  "parse_json s =
     (case parse_value max_nesting s of
        Some (v, r) \<Rightarrow> if skip_ws r = [] then Some v else None
      | None \<Rightarrow> None)"

definition decode_first :: "string \<Rightarrow> json option" where
  "decode_first s = map_option fst (parse_value max_nesting s)"

section \<open>Decoding into maps and structs\<close>

text \<open>
  Into a \<^verbatim>\<open>map[string]interface{}\<close>, nested ones included: of equal keys the last wins.
\<close>

definition store_entries :: "(string \<times> 'a) list \<Rightarrow> (string \<times> 'a) list" where
  "store_entries kvs = foldl (\<lambda>m kv. AList.update (fst kv) (snd kv) m) [] kvs"

primrec to_maps :: "json \<Rightarrow> json" where
  "to_maps JNull = JNull"
| "to_maps (JBool b) = JBool b"
| "to_maps (JNum n) = JNum n"
| "to_maps (JStr s) = JStr s"
| "to_maps (JArr vs) = JArr (map to_maps vs)"
| "to_maps (JObj kvs) = JObj (store_entries (map (map_prod id to_maps) kvs))"

text \<open>
  Into a struct: every key that folds to a field's name sets it, in order; null leaves it; a value
  of another type is an error (\<^const>\<open>None\<close>) of the whole call.
\<close>

fun string_field :: "string \<Rightarrow> (string \<times> json) list \<Rightarrow> string \<Rightarrow> string option" where
  "string_field name [] cur = Some cur"
| "string_field name ((k, v) # kvs) cur =
     (if equal_fold k name then
        (case v of
           JStr t \<Rightarrow> string_field name kvs t
         | JNull \<Rightarrow> string_field name kvs cur
         | _ \<Rightarrow> None)
      else string_field name kvs cur)"

text \<open>A field that is a struct itself: the members of every object given for it, in order.\<close>

fun struct_field :: "string \<Rightarrow> (string \<times> json) list \<Rightarrow> (string \<times> json) list option" where
  "struct_field name [] = Some []"
| "struct_field name ((k, v) # kvs) =
     (if equal_fold k name then
        (case v of
           JObj ms \<Rightarrow> map_option (\<lambda>rest. ms @ rest) (struct_field name kvs)
         | JNull \<Rightarrow> struct_field name kvs
         | _ \<Rightarrow> None)
      else struct_field name kvs)"

lemma go_map_store [simp]: "go_map (store_entries kvs)"
proof -
  have "go_map m \<Longrightarrow> go_map (foldl (\<lambda>m kv. AList.update (fst kv) (snd kv) m) m kvs)" for m :: "(string \<times> 'a) list"
    by (induction kvs arbitrary: m) auto
  then show ?thesis by (simp add: store_entries_def)
qed

section \<open>Encoding\<close>

definition hex_digit :: "nat \<Rightarrow> char" where
  "hex_digit n = char_of (if n < 10 then 48 + n else 87 + n)"

definition escape_unit :: "nat \<Rightarrow> string" where
  "escape_unit n =
     [CHR 0x5C, CHR ''u'', hex_digit (n div 4096 mod 16), hex_digit (n div 256 mod 16),
      hex_digit (n div 16 mod 16), hex_digit (n mod 16)]"

definition quote_rune :: "rune \<Rightarrow> string" where
  "quote_rune r =
     (let n = fst r in
      if \<not> rune_ok r then escape_unit 65533
      else if n = 34 \<or> n = 92 then CHR 0x5C # snd r
      else if n = 8 then [CHR 0x5C, CHR ''b'']
      else if n = 12 then [CHR 0x5C, CHR ''f'']
      else if n = 10 then [CHR 0x5C, CHR ''n'']
      else if n = 13 then [CHR 0x5C, CHR ''r'']
      else if n = 9 then [CHR 0x5C, CHR ''t'']
      else if n < 32 \<or> n = 60 \<or> n = 62 \<or> n = 38 \<or> n = 8232 \<or> n = 8233 then escape_unit n
      else snd r)"

definition quote_string :: "string \<Rightarrow> string" where
  "quote_string s = CHR 0x22 # concat (map quote_rune (runes s)) @ [CHR 0x22]"

text \<open>
  \<^verbatim>\<open>json.Marshal\<close> of decoded values: \<open>num\<close> writes a number, \<^verbatim>\<open>json.Number\<close> as it
  is and a \<^verbatim>\<open>float64\<close> in its shortest form.
\<close>

primrec print_json :: "(string \<Rightarrow> string) \<Rightarrow> json \<Rightarrow> string" where
  "print_json num JNull = ''null''"
| "print_json num (JBool b) = (if b then ''true'' else ''false'')"
| "print_json num (JNum n) = num n"
| "print_json num (JStr s) = quote_string s"
| "print_json num (JArr vs) = CHR 0x5B # join_with '','' (map (print_json num) vs) @ [CHR 0x5D]"
| "print_json num (JObj kvs) =
     CHR 0x7B #
     join_with '','' (map (\<lambda>kt. quote_string (fst kt) @ CHR 0x3A # snd kt)
       (sort_key fst (map (map_prod id (print_json num)) kvs)))
     @ [CHR 0x7D]"

primrec json_numbers :: "json \<Rightarrow> string list" where
  "json_numbers JNull = []"
| "json_numbers (JBool b) = []"
| "json_numbers (JNum n) = [n]"
| "json_numbers (JStr s) = []"
| "json_numbers (JArr vs) = concat (map json_numbers vs)"
| "json_numbers (JObj kvs) = concat (map snd (map (map_prod id json_numbers) kvs))"

text \<open>Objects with the same entries in another order print alike.\<close>

lemma sort_key_perm:
  assumes "mset xs = mset ys" and "distinct (map f xs)"
  shows "sort_key f xs = sort_key f ys"
proof (rule map_sorted_distinct_set_unique)
  have seteq: "set xs = set ys" using assms(1) by (metis set_mset_mset)
  then show "inj_on f (set (sort_key f xs) \<union> set (sort_key f ys))"
    using assms(2) by (simp add: distinct_map)
  have "distinct ys" using mset_eq_imp_distinct_iff [OF assms(1)] assms(2) by (simp add: distinct_map)
  then show "distinct (map f (sort_key f xs))" "distinct (map f (sort_key f ys))"
    using assms(2) seteq by (simp_all add: distinct_map)
  show "set (sort_key f xs) = set (sort_key f ys)" using seteq by simp
qed simp_all

lemma print_json_object_perm:
  assumes "mset kvs = mset kvs'" and "go_map kvs"
  shows "print_json num (JObj kvs) = print_json num (JObj kvs')"
proof -
  let ?p = "map (map_prod id (print_json num))"
  have "mset (?p kvs) = mset (?p kvs')"
    using assms(1) by (metis mset_map)
  moreover have "distinct (map fst (?p kvs))"
    using assms(2) by (simp add: comp_def)
  ultimately have "sort_key fst (?p kvs) = sort_key fst (?p kvs')"
    by (rule sort_key_perm)
  then show ?thesis by simp
qed

end
