(* ===== verification/Go_Float.thy ===== *)
theory Go_Float
  imports Go_Text
begin

text \<open>
  What decoding a JSON number into a \<^verbatim>\<open>float64\<close> and encoding it again makes of its text:
  the nearest double (ties to even), printed with the fewest digits that read back as that double,
  the way \<^verbatim>\<open>encoding/json\<close> prints it. A double is a pair \<open>(m, e)\<close> for \<open>m * 2 ^ e\<close>.
\<close>

section \<open>Reading\<close>

definition int_of_digits :: "string \<Rightarrow> int" where
  "int_of_digits s = foldl (\<lambda>n c. 10 * n + int (digit_value c)) 0 s"

text \<open>Sign, mantissa and decimal exponent of a number literal of Go_Json.\<close>

definition number_parts :: "string \<Rightarrow> bool \<times> int \<times> int" where
  "number_parts s =
     (let (neg, body) = (case s of c # r \<Rightarrow> if c = CHR ''-'' then (True, r) else (False, s) | [] \<Rightarrow> (False, s));
          mant = takeWhile (\<lambda>c. c \<noteq> CHR ''e'' \<and> c \<noteq> CHR ''E'') body;
          expo = drop (Suc (length mant)) body;
          ex = (case expo of
                  [] \<Rightarrow> 0
                | c # r \<Rightarrow> if c = CHR ''-'' then - int_of_digits r
                           else if c = CHR ''+'' then int_of_digits r else int_of_digits expo);
          (whole, frac) = (case cut CHR ''.'' mant of Some parts \<Rightarrow> parts | None \<Rightarrow> (mant, []))
      in (neg, int_of_digits (whole @ frac), ex - int (length frac)))"

function bits :: "int \<Rightarrow> int" where
  "bits n = (if n \<le> 0 then 0 else 1 + bits (n div 2))"
  by pat_completeness auto
termination
  by (relation "measure nat") auto

declare bits.simps [simp del]

definition round_half_even :: "int \<Rightarrow> int \<Rightarrow> int" where
  "round_half_even p q =
     (let d = p div q; r = p mod q in
      if 2 * r < q then d else if q < 2 * r then d + 1 else if even d then d else d + 1)"

text \<open>The ratio \<open>p / q\<close> times \<open>2 ^ j\<close> or \<open>10 ^ j\<close> for a signed \<open>j\<close>.\<close>

definition scale :: "int \<Rightarrow> int \<Rightarrow> int \<times> int \<Rightarrow> int \<times> int" where
  "scale b j = (\<lambda>(p, q). if 0 \<le> j then (p * b ^ nat j, q) else (p, q * b ^ nat (- j)))"

definition to_double :: "int \<Rightarrow> int \<Rightarrow> (int \<times> int) option" where
  "to_double mant ex =
     (if mant = 0 then Some (0, 0)
      else
        let (p, q) = scale 10 ex (mant, 1);
            k0 = bits p - bits q;
            (p0, q0) = scale 2 (- k0) (p, q);
            k = (if q0 \<le> p0 then k0 else k0 - 1);
            e = max (k - 52) (- 1074);
            (p1, q1) = scale 2 (- e) (p, q);
            m = round_half_even p1 q1;
            (m', e') = (if m = 2 ^ 53 then (2 ^ 52, e + 1) else (m, e))
        in if m' = 0 then Some (0, 0) else if 971 < e' then None else Some (m', e'))"

section \<open>Printing\<close>

function dec_exp :: "int \<Rightarrow> int \<Rightarrow> int" where
  "dec_exp p q =
     (if p \<le> 0 then 0
      else if q \<le> p then int (length (show_nat (nat (p div q))))
      else dec_exp (10 * p) q - 1)"
  by pat_completeness auto
termination
  by (relation "measure (\<lambda>(p, q). nat (q - p))") auto

declare dec_exp.simps [simp del]

text \<open>
  \<open>shortest k n (m, e)\<close>: the decimal of \<open>17 - k\<close> or more digits nearest to the double among those
  that read back as it, as digits and decimal exponent; \<open>x\<close> is the number of its integer digits.
\<close>

fun shortest :: "nat \<Rightarrow> int \<Rightarrow> int \<times> int \<Rightarrow> int \<times> int" where
  "shortest k x (m, e) =
     (let n = 17 - int k;
          (p, q) = scale 10 (n - x) (scale 2 e (m, 1));
          lo = p div q;
          lo_ok = (to_double lo (x - n) = Some (m, e));
          hi_ok = (to_double (lo + 1) (x - n) = Some (m, e));
          nearer_hi = (q < 2 * (p mod q))
      in if lo_ok \<and> (\<not> hi_ok \<or> \<not> nearer_hi) then (lo, x - n)
         else if hi_ok then (lo + 1, x - n)
         else (case k of 0 \<Rightarrow> (lo, x - n) | Suc k' \<Rightarrow> shortest k' x (m, e)))"

declare shortest.simps [simp del]

definition drop_zeros :: "string \<Rightarrow> string" where
  "drop_zeros s = rev (dropWhile (\<lambda>c. c = CHR ''0'') (rev s))"

text \<open>\<open>ds\<close> with the decimal point after \<open>dp\<close> digits, in the two formats the encoder chooses from.\<close>

definition format_digits :: "string \<Rightarrow> int \<Rightarrow> string" where
  "format_digits ds dp =
     (if dp < -5 \<or> 22 \<le> dp then
        (let x = dp - 1; ax = show_nat (nat \<bar>x\<bar>) in
         take 1 ds @ (if length ds = 1 then [] else CHR ''.'' # drop 1 ds) @ ''e''
         @ (if x < 0 then ''-'' else ''+'') @ ax)
      else if dp \<le> 0 then ''0.'' @ replicate (nat (- dp)) CHR ''0'' @ ds
      else if int (length ds) \<le> dp then ds @ replicate (nat dp - length ds) CHR ''0''
      else take (nat dp) ds @ CHR ''.'' # drop (nat dp) ds)"

definition print_double :: "bool \<Rightarrow> int \<times> int \<Rightarrow> string" where
  "print_double neg d =
     (let body = (if fst d = 0 then ''0''
        else let (p, q) = scale 2 (snd d) (fst d, 1);
                 x = dec_exp p q;
                 (ds, ex) = shortest 16 x d;
                 txt = show_nat (nat ds)
             in format_digits (drop_zeros txt) (int (length txt) + ex))
      in if neg then CHR ''-'' # body else body)"

text \<open>\<^const>\<open>None\<close> where the number is past the largest double, which fails the decoding.\<close>

definition float_text :: "string \<Rightarrow> string option" where
  "float_text s =
     (let (neg, mant, ex) = number_parts s in map_option (print_double neg) (to_double mant ex))"

text \<open>The double a literal reads as, truncated towards zero: \<^verbatim>\<open>int(v)\<close>.\<close>

definition float_trunc :: "string \<Rightarrow> int option" where
  "float_trunc s =
     (let (neg, mant, ex) = number_parts s in
      map_option (\<lambda>d. let (p, q) = scale 2 (snd d) (fst d, 1); n = p div q in if neg then - n else n)
        (to_double mant ex))"

definition float_positive :: "string \<Rightarrow> bool" where
  "float_positive s =
     (let (neg, mant, ex) = number_parts s in
      case to_double mant ex of Some (m, _) \<Rightarrow> \<not> neg \<and> 0 < m | None \<Rightarrow> False)"

end
