(* ===== verification/Go_Net.thy ===== *)
theory Go_Net
  imports Go_Text "HOL-Library.Word"
begin

unbundle bit_operations_syntax

text \<open>
  IP addresses as Go's \<^verbatim>\<open>net\<close> package keeps them: a \<^verbatim>\<open>net.IP\<close> is a slice of 4 or
  16 bytes. The parsers follow \<^verbatim>\<open>net/netip\<close>, which \<^verbatim>\<open>net.ParseIP\<close> and
  \<^verbatim>\<open>net.ParseCIDR\<close> call.
\<close>

type_synonym go_ip = "8 word list"

section \<open>IPv4\<close>

text \<open>One field: decimal, no leading zero, at most 255.\<close>

definition parse_octet :: "string \<Rightarrow> 8 word option" where
  "parse_octet s =
     (case parse_nat s of
        None \<Rightarrow> None
      | Some n \<Rightarrow> if (1 < length s \<and> hd s = CHR ''0'') \<or> 255 < n then None
                  else Some (word_of_nat n))"

definition parse_ipv4 :: "string \<Rightarrow> go_ip option" where
  "parse_ipv4 s =
     (case map parse_octet (split_on CHR ''.'' s) of
        [Some a, Some b, Some c, Some d] \<Rightarrow> Some [a, b, c, d]
      | _ \<Rightarrow> None)"

definition show_ipv4 :: "go_ip \<Rightarrow> string" where
  "show_ipv4 ip = join_with ''.'' (map (\<lambda>b. show_nat (unat b)) ip)"

text \<open>
  \<^verbatim>\<open>net.CIDRMask(n, 32)\<close> and \<^verbatim>\<open>IP.Mask\<close>: the first \<open>n\<close> bits of the four bytes stay.
\<close>

fun cidr_mask :: "nat \<Rightarrow> nat \<Rightarrow> go_ip" where
  "cidr_mask n 0 = []"
| "cidr_mask n (Suc k) =
     (if 8 \<le> n then 255 # cidr_mask (n - 8) k
      else NOT (drop_bit n 255) # cidr_mask 0 k)"

definition mask_ip :: "go_ip \<Rightarrow> go_ip \<Rightarrow> go_ip" where
  "mask_ip m ip = map2 (AND) ip m"

lemma length_cidr_mask [simp]: "length (cidr_mask n k) = k"
  by (induction n k rule: cidr_mask.induct) simp_all

lemma map2_and_idem: "map2 (AND) (map2 (AND) xs ms) ms = map2 (AND) xs (ms :: 'a::len word list)"
  by (induction xs ms rule: list_induct2') simp_all

lemma mask_ip_idem [simp]: "mask_ip m (mask_ip m ip) = mask_ip m ip"
  by (simp add: mask_ip_def map2_and_idem)

text \<open>\<^verbatim>\<open>net.ParseCIDR\<close> on IPv4: the network (masked address and prefix length).\<close>

definition parse_prefix :: "string \<Rightarrow> nat option" where
  "parse_prefix s = (case parse_nat s of Some n \<Rightarrow> if n \<le> 32 then Some n else None | None \<Rightarrow> None)"

definition parse_cidr4 :: "string \<Rightarrow> (go_ip \<times> nat) option" where
  "parse_cidr4 s =
     (case cut CHR ''/'' s of
        None \<Rightarrow> None
      | Some (addr, prefix) \<Rightarrow>
          (case (parse_ipv4 addr, parse_prefix prefix) of
             (Some ip, Some n) \<Rightarrow> Some (mask_ip (cidr_mask n 4) ip, n)
           | _ \<Rightarrow> None))"

definition show_cidr4 :: "go_ip \<times> nat \<Rightarrow> string" where
  "show_cidr4 = (\<lambda>(ip, n). show_ipv4 ip @ ''/'' @ show_nat n)"

lemma unat_word8_less [simp]: "unat (b :: 8 word) < 256"
  using unsigned_less [of b, where 'a = nat] by simp

lemma four_bytes:
  assumes "length ip = 4"
  obtains a b c d where "ip = [a, b, c, d]"
  using assms by (auto simp: length_Suc_conv numeral_eq_Suc)

text \<open>Printable ASCII other than the space: what no trimming touches.\<close>

definition printable :: "char \<Rightarrow> bool" where
  "printable c \<longleftrightarrow> 32 < byte c \<and> byte c < 128"

lemma parse_octet_show [simp]: "parse_octet (show_nat (unat (b :: 8 word))) = Some b"
proof -
  let ?s = "show_nat (unat b)"
  have "\<not> (1 < length ?s \<and> hd ?s = CHR ''0'')"
  proof
    assume lead: "1 < length ?s \<and> hd ?s = CHR ''0''"
    have "byte (digit_char 0) = byte CHR ''0''" by (simp add: digit_char_def byte_def)
    then have "digit_char 0 = CHR ''0''" by simp
    with lead have "unat b = 0" by (metis hd_show_nat)
    with lead show False by (subst (asm) show_nat.simps) simp
  qed
  moreover have "\<not> 255 < unat b" using unat_word8_less [of b] by linarith
  ultimately show ?thesis by (simp add: parse_octet_def)
qed

lemma sep_not_digit [simp]:
  "CHR ''.'' \<notin> set (show_nat n)" "CHR ''/'' \<notin> set (show_nat n)" "CHR '':'' \<notin> set (show_nat n)"
  by (rule not_in_show_nat, simp add: is_digit_def byte_def)+

lemma parse_show_ipv4: "length ip = 4 \<Longrightarrow> parse_ipv4 (show_ipv4 ip) = Some ip"
  by (elim four_bytes) (simp add: parse_ipv4_def show_ipv4_def split_on_append split_on_no_sep)

lemma parse_ipv4_length: "parse_ipv4 s = Some ip \<Longrightarrow> length ip = 4"
  by (auto simp: parse_ipv4_def split: list.splits option.splits)

lemma length_mask_ip4 [simp]: "length ip = 4 \<Longrightarrow> length (mask_ip (cidr_mask n 4) ip) = 4"
  by (simp add: mask_ip_def)

lemma parse_cidr4_length: "parse_cidr4 s = Some (ip, n) \<Longrightarrow> length ip = 4 \<and> n \<le> 32"
  by (auto simp: parse_cidr4_def parse_prefix_def dest!: parse_ipv4_length
      split: option.splits prod.splits if_splits)

lemma slash_notin_show_ipv4: "length ip = 4 \<Longrightarrow> CHR ''/'' \<notin> set (show_ipv4 ip)"
  by (elim four_bytes) (simp add: show_ipv4_def)

lemma colon_notin_show_ipv4: "length ip = 4 \<Longrightarrow> CHR '':'' \<notin> set (show_ipv4 ip)"
  by (elim four_bytes) (simp add: show_ipv4_def)

lemma parse_show_cidr4:
  assumes "parse_cidr4 s = Some (ip, n)"
  shows "parse_cidr4 (show_cidr4 (ip, n)) = Some (ip, n)"
proof -
  from assms obtain addr p raw where c: "cut CHR ''/'' s = Some (addr, p)"
    and raw: "parse_ipv4 addr = Some raw" and n: "parse_prefix p = Some n"
    and ip: "ip = mask_ip (cidr_mask n 4) raw"
    by (auto simp: parse_cidr4_def split: option.splits prod.splits)
  have len: "length ip = 4" using assms parse_cidr4_length by blast
  have "n \<le> 32" using assms parse_cidr4_length by blast
  have "cut CHR ''/'' (show_cidr4 (ip, n)) = Some (show_ipv4 ip, show_nat n)"
    by (simp add: cut_Some show_cidr4_def slash_notin_show_ipv4 len)
  then show ?thesis
    using len \<open>n \<le> 32\<close> ip by (simp add: parse_cidr4_def parse_show_ipv4 parse_prefix_def)
qed

text \<open>Both printed forms are plain ASCII without spaces.\<close>

lemma digits_printable: "list_all printable (show_nat n)"
  using show_nat_digits [of n] by (auto simp: list_all_iff is_digit_def printable_def)

lemma separators_printable [simp]: "printable CHR ''.''" "printable CHR ''/''"
  by (simp_all add: printable_def byte_def)

lemma show_ipv4_printable: "length ip = 4 \<Longrightarrow> list_all printable (show_ipv4 ip)"
  by (elim four_bytes) (simp add: show_ipv4_def digits_printable)

lemma show_cidr4_printable: "length ip = 4 \<Longrightarrow> list_all printable (show_cidr4 (ip, n))"
  by (simp add: show_cidr4_def show_ipv4_printable digits_printable)

lemma trim_space_printable: "list_all printable s \<Longrightarrow> trim_space s = s"
  by (rule trim_space_no_space) (auto simp: list_all_iff printable_def)

end
