(* ===== verification/Client_Addr.thy ===== *)
theory Client_Addr
  imports Go_Net
begin

text \<open>
  Client addresses (\<^verbatim>\<open>vpnconfig/validate.go\<close> and the address helpers of
  \<^verbatim>\<open>vpnconfig/failover.go\<close>): the validator every stored address passes, the key two
  spellings of one address share, and the test for what Tunnel Director can carry.
\<close>

section \<open>The validator\<close>

text \<open>
  \<^verbatim>\<open>NormalizeClientAddr\<close>; \<^const>\<open>None\<close> is \<^verbatim>\<open>ErrInvalidClientAddr\<close>. Colons are
  refused first, so only the IPv4 side of Go's parsers is reached and the \<^verbatim>\<open>To4()\<close> guards
  never fail.
\<close>

definition normalize_client_addr :: "string \<Rightarrow> string option" where
  "normalize_client_addr raw =
     (let s = trim_space raw in
      if s = [] \<or> CHR '':'' \<in> set s then None
      else if CHR ''/'' \<in> set s then
        map_option (\<lambda>net. trim_suffix (show_cidr4 net) ''/32'') (parse_cidr4 s)
      else map_option show_ipv4 (parse_ipv4 s))"

text \<open>\<^verbatim>\<open>addrKey\<close>: what the validator refuses compares as written.\<close>

definition addr_key :: "string \<Rightarrow> string" where
  "addr_key s = (case normalize_client_addr s of Some n \<Rightarrow> n | None \<Rightarrow> s)"

definition without_addr :: "string list \<Rightarrow> string \<Rightarrow> string list" where
  "without_addr xs addr = filter (\<lambda>s. addr_key s \<noteq> addr_key addr) xs"

text \<open>
  \<^verbatim>\<open>TDCarries\<close>: an address or CIDR as iptables reads it, whose address lies in RFC 1918.
\<close>

definition td_carries :: "string \<Rightarrow> bool" where
  "td_carries addr =
     (if addr = [] \<or> addr \<noteq> trim_space addr then False
      else if normalize_client_addr addr = None then False
      else
        let (host, prefix) = (case cut CHR ''/'' addr of None \<Rightarrow> (addr, None)
                              | Some (h, p) \<Rightarrow> (h, Some p))
        in if (case prefix of Some p \<Rightarrow> 1 < length p \<and> hd p = CHR ''0'' | None \<Rightarrow> False) then False
           else (case parse_ipv4 host of
                   Some [a, b, _, _] \<Rightarrow>
                     a = 10 \<or> (a = 172 \<and> 16 \<le> b \<and> b \<le> 31) \<or> (a = 192 \<and> b = 168)
                 | _ \<Rightarrow> False))"

section \<open>Normal forms\<close>

lemma cidr_32_mask: "cidr_mask 32 4 = [255, 255, 255, 255]"
  by (simp add: numeral_eq_Suc)

lemma show_nat_32: "show_nat 32 = ''32''"
proof -
  have "list_all is_digit ''32''" "nat_of_digits ''32'' = 32"
    by (simp_all add: is_digit_def nat_of_digits_def digit_value_def byte_def)
  have "digit_char 3 = CHR ''3''" "digit_char 2 = CHR ''2''"
    by (simp_all add: digit_char_eq byte_def)
  then show ?thesis by (simp add: show_nat.simps)
qed

lemma byte_and_255: "(x :: 8 word) AND 255 = x"
proof -
  have "(255 :: 8 word) = - 1" by simp
  then show ?thesis by (metis and.right_neutral)
qed

lemma show_cidr4_suffix_32:
  assumes "length ip = 4" and "n \<le> 32" and "n \<noteq> 32"
  shows "trim_suffix (show_cidr4 (ip, n)) ''/32'' = show_cidr4 (ip, n)"
proof -
  have "\<not> has_suffix (show_cidr4 (ip, n)) ''/32''"
  proof
    assume "has_suffix (show_cidr4 (ip, n)) ''/32''"
    then obtain pre where pre: "show_cidr4 (ip, n) = pre @ ''/32''"
      unfolding has_suffix_def by (metis append_take_drop_id)
    have c: "cut CHR ''/'' (show_cidr4 (ip, n)) = Some (show_ipv4 ip, show_nat n)"
      by (simp add: cut_Some show_cidr4_def slash_notin_show_ipv4 assms)
    have "CHR ''/'' \<notin> set pre"
    proof
      assume "CHR ''/'' \<in> set pre"
      then obtain a b where "pre = a @ CHR ''/'' # b" "CHR ''/'' \<notin> set a"
        by (metis split_list_first)
      with pre have "cut CHR ''/'' (show_cidr4 (ip, n)) = Some (a, b @ ''/32'')"
        by (simp add: cut_Some)
      with c have "show_nat n = b @ ''/32''" by simp
      then have "CHR ''/'' \<in> set (show_nat n)" by simp
      then show False by simp
    qed
    then have "cut CHR ''/'' (show_cidr4 (ip, n)) = Some (pre, ''32'')"
      by (simp add: pre cut_Some)
    with c have "show_nat n = ''32''" by simp
    with show_nat_32 have "n = 32" by (metis show_nat_inject)
    with assms(3) show False by simp
  qed
  then show ?thesis by (simp add: trim_suffix_def)
qed


text \<open>
  A normal form is an address, or a network whose prefix is below 32: what the validator returns,
  and a value it returns unchanged.
\<close>

definition addr_normal :: "string \<Rightarrow> bool" where
  "addr_normal s \<longleftrightarrow> normalize_client_addr s = Some s"

lemma normalize_ipv4: "length ip = 4 \<Longrightarrow> normalize_client_addr (show_ipv4 ip) = Some (show_ipv4 ip)"
proof -
  assume len: "length ip = 4"
  then have "show_ipv4 ip \<noteq> []" by (elim four_bytes) (simp add: show_ipv4_def)
  with len show ?thesis
    by (simp add: normalize_client_addr_def trim_space_printable show_ipv4_printable
        colon_notin_show_ipv4 slash_notin_show_ipv4 parse_show_ipv4)
qed

lemma normalize_cidr4:
  assumes "parse_cidr4 s = Some (ip, n)" and "n \<noteq> 32"
  shows "normalize_client_addr (show_cidr4 (ip, n)) = Some (show_cidr4 (ip, n))"
proof -
  from assms(1) have len: "length ip = 4" and n: "n \<le> 32"
    by (auto dest: parse_cidr4_length)
  have "CHR '':'' \<notin> set (show_cidr4 (ip, n))" "CHR ''/'' \<in> set (show_cidr4 (ip, n))"
    by (simp_all add: show_cidr4_def colon_notin_show_ipv4 len)
  moreover have "show_cidr4 (ip, n) \<noteq> []" by (simp add: show_cidr4_def)
  ultimately show ?thesis
    using parse_show_cidr4 [OF assms(1)] show_cidr4_suffix_32 [OF len n assms(2)]
    by (simp add: normalize_client_addr_def trim_space_printable show_cidr4_printable len)
qed

text \<open>What the validator returns it returns again: one spelling for each address or network.\<close>

lemma normalize_client_addr_idem:
  assumes "normalize_client_addr s = Some t"
  shows "normalize_client_addr t = Some t"
proof (cases "CHR ''/'' \<in> set (trim_space s)")
  case False
  with assms obtain ip where "parse_ipv4 (trim_space s) = Some ip" "t = show_ipv4 ip"
    by (auto simp: normalize_client_addr_def Let_def split: if_splits)
  then show ?thesis by (simp add: normalize_ipv4 parse_ipv4_length)
next
  case True
  with assms obtain ip n where c: "parse_cidr4 (trim_space s) = Some (ip, n)"
    and t: "t = trim_suffix (show_cidr4 (ip, n)) ''/32''"
    by (auto simp: normalize_client_addr_def Let_def split: if_splits)
  from c have len: "length ip = 4" and n: "n \<le> 32" by (auto dest: parse_cidr4_length)
  show ?thesis
  proof (cases "n = 32")
    case True
    have "show_cidr4 (ip, n) = show_ipv4 ip @ ''/32''"
      by (simp add: show_cidr4_def True show_nat_32)
    then show ?thesis using t len by (metis normalize_ipv4 trim_suffix_append)
  next
    case False
    then show ?thesis
      using t c by (simp add: show_cidr4_suffix_32 [OF len n False] normalize_cidr4)
  qed
qed

lemma addr_key_idem [simp]: "addr_key (addr_key s) = addr_key s"
  by (auto simp: addr_key_def normalize_client_addr_idem split: option.splits)

lemma addr_key_normal: "addr_normal s \<Longrightarrow> addr_key s = s"
  by (simp add: addr_normal_def addr_key_def)

text \<open>What Tunnel Director carries is valid, so its key is a normal form.\<close>

lemma td_carries_valid: "td_carries a \<Longrightarrow> \<exists>n. normalize_client_addr a = Some n"
  by (auto simp: td_carries_def split: if_splits)

lemma td_carries_key: "td_carries a \<Longrightarrow> addr_normal (addr_key a)"
  using td_carries_valid [of a]
  by (auto simp: addr_key_def addr_normal_def normalize_client_addr_idem)


section \<open>The property of the validator\<close>

text \<open>
  The validator is idempotent and two spellings of one address share one key: what it returns it
  returns unchanged, and an accepted spelling has the key of its normal form.
\<close>

theorem client_addr_canonical:
  assumes "normalize_client_addr raw = Some n"
  shows "normalize_client_addr n = Some n \<and> addr_key raw = n \<and> addr_key n = addr_key raw \<and>
    without_addr [raw, n] n = []"
  using assms normalize_client_addr_idem [OF assms] by (simp add: addr_key_def without_addr_def)

theorem client_addr_canonical_witness:
  "normalize_client_addr '' 192.168.50.10/24 '' = Some ''192.168.50.0/24'' \<and>
   normalize_client_addr ''192.168.50.0/24'' = Some ''192.168.50.0/24''"
proof -
  have "normalize_client_addr '' 192.168.50.10/24 '' = Some ''192.168.50.0/24''" by code_simp
  with client_addr_canonical [OF this] show ?thesis by simp
qed

end
