(* ===== verification/Config_Model.thy ===== *)
theory Config_Model
  imports Go_Json Go_Float Client_Addr "HOL-Library.Multiset"
begin

text \<open>
  The data of \<^verbatim>\<open>vpnconfig/vpnconfig.go\<close>: \<^verbatim>\<open>vpn-director.json\<close> and the
  servers of a subscription as records with the code's fields, and the readers of the configuration
  that need no more than these.

  A pointer that may be nil is an option. The pointer to the whole configuration is never nil here:
  the functions that guard against a nil configuration return their zero value or do nothing then.
\<close>

section \<open>Servers\<close>

text \<open>\<^verbatim>\<open>Server\<close>: \<open>sv_outbound\<close> is the raw JSON text, empty for a record without one.\<close>

record server =
  sv_address :: string
  sv_port :: int
  sv_uuid :: string
  sv_name :: string
  sv_ips :: "string list"
  sv_outbound :: string
  sv_security :: string
  sv_network :: string
  sv_flow :: string
  sv_sni :: string
  sv_fingerprint :: string
  sv_public_key :: string
  sv_short_id :: string
  sv_alpn :: "string list"
  sv_subscription :: string

text \<open>A server with the fields an import writes and no others.\<close>

definition plain_server :: "string \<Rightarrow> string \<Rightarrow> int \<Rightarrow> string list \<Rightarrow> string \<Rightarrow> server" where
  "plain_server name address port ips outbound =
     \<lparr>sv_address = address, sv_port = port, sv_uuid = [], sv_name = name, sv_ips = ips,
      sv_outbound = outbound, sv_security = [], sv_network = [], sv_flow = [], sv_sni = [],
      sv_fingerprint = [], sv_public_key = [], sv_short_id = [], sv_alpn = [], sv_subscription = []\<rparr>"

text \<open>\<^verbatim>\<open>ServerIPs\<close>: the loop with its \<^verbatim>\<open>seen\<close> set, then the sort.\<close>

fun gather_ips :: "string set \<Rightarrow> string list \<Rightarrow> string list" where
  "gather_ips seen [] = []"
| "gather_ips seen (ip # ips) =
     (if ip \<noteq> [] \<and> ip \<notin> seen then ip # gather_ips (insert ip seen) ips else gather_ips seen ips)"

definition server_ips :: "server list \<Rightarrow> string list" where
  "server_ips servers = sort (gather_ips {} (concat (map sv_ips servers)))"

lemma set_gather_ips: "set (gather_ips seen ips) = {ip \<in> set ips. ip \<noteq> [] \<and> ip \<notin> seen}"
  by (induction ips arbitrary: seen) auto

lemma distinct_gather_ips: "distinct (gather_ips seen ips)"
  by (induction ips arbitrary: seen) (auto simp: set_gather_ips)

lemma set_server_ips:
  "set (server_ips servers) = {ip. ip \<noteq> [] \<and> (\<exists>s \<in> set servers. ip \<in> set (sv_ips s))}"
  by (auto simp: server_ips_def set_gather_ips)

lemma sorted_server_ips: "sorted (server_ips servers)" "distinct (server_ips servers)"
  by (simp_all add: server_ips_def distinct_gather_ips)

text \<open>The list depends only on which addresses the servers have, not on their order.\<close>

lemma server_ips_cong:
  assumes "\<Union> (set ` sv_ips ` set xs) = \<Union> (set ` sv_ips ` set ys)"
  shows "server_ips xs = server_ips ys"
proof (rule sorted_distinct_set_unique)
  have eq: "set (server_ips zs) = \<Union> (set ` sv_ips ` set zs) - {[]}" for zs
    by (auto simp: set_server_ips)
  show "set (server_ips xs) = set (server_ips ys)" by (simp only: eq assms)
qed (simp_all add: sorted_server_ips)

section \<open>The configuration\<close>

record active_server =
  as_name :: string
  as_address :: string
  as_port :: int
  as_subscription :: string
  as_seq :: int
  as_identity :: string
  as_group :: string

text \<open>\<open>fo_added\<close> keeps Go's nil list (\<^const>\<open>None\<close>, a record of an older release) apart from [].\<close>

record failover =
  fo_tunnel :: string
  fo_clients :: "string list"
  fo_added :: "string list option"
  fo_committed :: bool

record pending_restore =
  pr_snapshot :: "failover option"
  pr_restored :: "string list"
  pr_active :: "active_server option"

record tunnel =
  tn_clients :: "string list"
  tn_exclude :: "string list"
  tn_gateway :: string

record xray_config =
  x_clients :: "string list"
  x_servers :: "string list"
  x_exclude_ips :: "string list"
  x_exclude_sets :: "string list"
  x_active :: "active_server option"
  x_failover :: "failover option"
  x_pending :: "pending_restore option"
  x_preferred :: "active_server option"

record monitor_config =
  mc_enabled :: "bool option"
  mc_interval :: string
  mc_dead_interval_max :: string
  mc_concurrency :: int
  mc_log_level :: string
  mc_subscription_refresh :: string
  mc_concurrency_set :: bool

record webui_config =
  wu_port :: int
  wu_cert_file :: string
  wu_key_file :: string
  wu_jwt_secret :: string
  wu_log_level :: string

record vpn_config =
  cfg_data_dir :: string
  cfg_webui :: webui_config
  cfg_monitor :: "monitor_config option"
  cfg_paused :: "string list"
  cfg_interfaces :: "string list"
  cfg_tunnels :: "(string \<times> tunnel) list"
  cfg_xray :: xray_config
  cfg_advanced :: "(string \<times> json) list"

text \<open>Updates of the nested parts.\<close>

definition upd_xray :: "(xray_config \<Rightarrow> xray_config) \<Rightarrow> vpn_config \<Rightarrow> vpn_config" where
  [record_ops]: "upd_xray f cfg = cfg\<lparr>cfg_xray := f (cfg_xray cfg)\<rparr>"

definition set_tunnel :: "string \<Rightarrow> tunnel \<Rightarrow> vpn_config \<Rightarrow> vpn_config" where
  [record_ops]: "set_tunnel k t cfg = cfg\<lparr>cfg_tunnels := AList.update k t (cfg_tunnels cfg)\<rparr>"

definition tunnel_of :: "vpn_config \<Rightarrow> string \<Rightarrow> tunnel option" where
  [record_ops]: "tunnel_of cfg k = map_of (cfg_tunnels cfg) k"

abbreviation xray_clients :: "vpn_config \<Rightarrow> string list" where
  "xray_clients cfg \<equiv> x_clients (cfg_xray cfg)"

abbreviation failover_of :: "vpn_config \<Rightarrow> failover option" where
  "failover_of cfg \<equiv> x_failover (cfg_xray cfg)"

text \<open>The clients of a tunnel, none for a key the map does not have.\<close>

definition tunnel_clients :: "vpn_config \<Rightarrow> string \<Rightarrow> string list" where
  "tunnel_clients cfg k = (case tunnel_of cfg k of Some t \<Rightarrow> tn_clients t | None \<Rightarrow> [])"

lemma tunnel_of_set_tunnel [simp]: "tunnel_of (set_tunnel k t cfg) j = (if j = k then Some t else tunnel_of cfg j)"
  by (simp add: record_ops)

lemma tunnel_clients_set_tunnel [simp]:
  "tunnel_clients (set_tunnel k t cfg) j = (if j = k then tn_clients t else tunnel_clients cfg j)"
  by (simp add: tunnel_clients_def)

lemma set_tunnel_frame [simp]:
  "cfg_xray (set_tunnel k t cfg) = cfg_xray cfg" "cfg_paused (set_tunnel k t cfg) = cfg_paused cfg"
  by (simp_all add: record_ops)

lemma upd_xray_frame [simp]:
  "cfg_xray (upd_xray f cfg) = f (cfg_xray cfg)" "cfg_paused (upd_xray f cfg) = cfg_paused cfg"
  "cfg_tunnels (upd_xray f cfg) = cfg_tunnels cfg" "tunnel_of (upd_xray f cfg) k = tunnel_of cfg k"
  "tunnel_clients (upd_xray f cfg) k = tunnel_clients cfg k"
  by (simp_all add: record_ops tunnel_clients_def)

lemma keys_set_tunnel:
  "tunnel_of cfg k = Some t \<Longrightarrow> keys (cfg_tunnels (set_tunnel k u cfg)) = keys (cfg_tunnels cfg)"
  by (simp add: record_ops)

section \<open>The monitor section in JSON\<close>

text \<open>
  The wire form of the section: \<^verbatim>\<open>UnmarshalJSON\<close> reads \<open>concurrency\<close> into a pointer, so an
  explicit zero is told from a missing key, and \<^verbatim>\<open>MarshalJSON\<close> writes it back.
\<close>

record monitor_wire =
  mw_enabled :: "bool option"
  mw_interval :: string
  mw_dead_interval_max :: string
  mw_log_level :: string
  mw_subscription_refresh :: string
  mw_concurrency :: "int option"

definition has_concurrency :: "monitor_config \<Rightarrow> bool" where
  "has_concurrency c \<longleftrightarrow> mc_concurrency_set c \<or> mc_concurrency c \<noteq> 0"

definition unmarshal_monitor :: "monitor_wire \<Rightarrow> monitor_config" where
  "unmarshal_monitor w =
     (let c = \<lparr>mc_enabled = mw_enabled w, mc_interval = mw_interval w,
               mc_dead_interval_max = mw_dead_interval_max w, mc_concurrency = 0,
               mc_log_level = mw_log_level w,
               mc_subscription_refresh = mw_subscription_refresh w, mc_concurrency_set = False\<rparr>
      in case mw_concurrency w of
           None \<Rightarrow> c
         | Some n \<Rightarrow> c\<lparr>mc_concurrency := n, mc_concurrency_set := True\<rparr>)"

definition marshal_monitor :: "monitor_config \<Rightarrow> monitor_wire" where
  "marshal_monitor c =
     \<lparr>mw_enabled = mc_enabled c, mw_interval = mc_interval c,
      mw_dead_interval_max = mc_dead_interval_max c, mw_log_level = mc_log_level c,
      mw_subscription_refresh = mc_subscription_refresh c,
      mw_concurrency = (if has_concurrency c then Some (mc_concurrency c) else None)\<rparr>"

lemma marshal_unmarshal_monitor: "marshal_monitor (unmarshal_monitor w) = w"
  by (cases "mw_concurrency w") (simp_all add: marshal_monitor_def unmarshal_monitor_def has_concurrency_def)

section \<open>The platform document\<close>

record platform_tunnel =
  pt_id :: string
  pt_iface :: string
  pt_type :: string
  pt_connected :: bool
  pt_description :: string

definition has_tunnel :: "platform_tunnel list \<Rightarrow> string \<Rightarrow> bool" where
  "has_tunnel tunnels i \<longleftrightarrow> list_ex (\<lambda>t. pt_id t = i) tunnels"

definition has_firmware_tunnels :: "platform_tunnel list \<Rightarrow> bool" where
  "has_firmware_tunnels tunnels \<longleftrightarrow> list_ex (\<lambda>t. pt_type t \<noteq> ''interface'') tunnels"

section \<open>Clients\<close>

record client_info =
  ci_ip :: string
  ci_route :: string
  ci_paused :: bool

definition collect_clients :: "vpn_config \<Rightarrow> client_info list" where
  "collect_clients cfg =
     map (\<lambda>ip. \<lparr>ci_ip = ip, ci_route = ''xray'', ci_paused = ip \<in> set (cfg_paused cfg)\<rparr>) (xray_clients cfg)
     @ concat (map (\<lambda>name.
         map (\<lambda>ip. \<lparr>ci_ip = ip, ci_route = name, ci_paused = ip \<in> set (cfg_paused cfg)\<rparr>)
           (tunnel_clients cfg name))
         (sort (keys (cfg_tunnels cfg))))"

text \<open>\<^verbatim>\<open>XrayInboundPorts\<close>: 0 stands for a port the template keeps.\<close>

definition read_port :: "(string \<times> json) list \<Rightarrow> string \<Rightarrow> int" where
  "read_port xray key =
     (case map_of xray key of
        Some (JNum n) \<Rightarrow>
          if float_positive n then (case float_trunc n of Some v \<Rightarrow> v | None \<Rightarrow> 0) else 0
      | _ \<Rightarrow> 0)"

definition xray_inbound_ports :: "vpn_config \<Rightarrow> int \<times> int" where
  "xray_inbound_ports cfg =
     (case map_of (cfg_advanced cfg) ''xray'' of
        Some (JObj xray) \<Rightarrow> (read_port xray ''tproxy_port'', read_port xray ''socks_port'')
      | _ \<Rightarrow> (0, 0))"

text \<open>\<^verbatim>\<open>RepointPausedClients\<close>: \<open>addr_key\<close> is the loop's key of either list.\<close>

fun stored_spellings :: "client_info list \<Rightarrow> (string \<times> string) list \<Rightarrow> (string \<times> string) list" where
  "stored_spellings [] m = m"
| "stored_spellings (c # cs) m =
     (let k = addr_key (ci_ip c) in
      stored_spellings cs (if map_of m k = None then (k, ci_ip c) # m else m))"

fun repoint_loop :: "(string \<times> string) list \<Rightarrow> string set \<Rightarrow> string list \<Rightarrow> string list" where
  "repoint_loop stored seen [] = []"
| "repoint_loop stored seen (p # ps) =
     (let entry = (case map_of stored (addr_key p) of Some s \<Rightarrow> s | None \<Rightarrow> p) in
      if entry \<in> seen then repoint_loop stored seen ps
      else entry # repoint_loop stored (insert entry seen) ps)"

definition repoint_paused_clients :: "string list \<Rightarrow> client_info list \<Rightarrow> string list" where
  "repoint_paused_clients paused clients = repoint_loop (stored_spellings clients []) {} paused"


section \<open>An example configuration\<close>

text \<open>Two clients on XRAY, one of them outside RFC 1918, one paused, and a tunnel with a client of its own.\<close>

definition example_xray :: xray_config where
  "example_xray =
     \<lparr>x_clients = [''192.168.1.10'', ''192.168.1.11/32'', ''8.8.8.8'', ''192.168.1.12''], x_servers = [],
      x_exclude_ips = [], x_exclude_sets = [''ru''], x_active = None, x_failover = None, x_pending = None,
      x_preferred = None\<rparr>"

definition example_config :: vpn_config where
  "example_config =
     \<lparr>cfg_data_dir = [], cfg_webui = \<lparr>wu_port = 0, wu_cert_file = [], wu_key_file = [], wu_jwt_secret = [],
        wu_log_level = []\<rparr>, cfg_monitor = None, cfg_paused = [''192.168.1.12''], cfg_interfaces = [],
      cfg_tunnels = [(''wgc1'', \<lparr>tn_clients = [''192.168.1.20''], tn_exclude = [], tn_gateway = []\<rparr>)],
      cfg_xray = example_xray, cfg_advanced = []\<rparr>"

end
