(* ===== verification/Failover.thy ===== *)
theory Failover
  imports Config_Model
begin

text \<open>
  The XRAY client failover (\<^verbatim>\<open>vpnconfig/failover.go\<close>): which clients a failover moves to a
  Tunnel Director exit and how they come back. The operations are functions on the configuration
  with the code's early returns; the lemmas show that none of them leaves a client on no route at
  all, that the record stays one a restore can undo, and that a restore undoes a stage.
\<close>

section \<open>Reading the configuration\<close>

definition is_paused :: "vpn_config \<Rightarrow> string \<Rightarrow> bool" where
  "is_paused cfg ip \<longleftrightarrow> ip \<in> set (cfg_paused cfg)"

definition effective_xray_clients :: "vpn_config \<Rightarrow> string list" where
  "effective_xray_clients cfg = filter (\<lambda>ip. \<not> is_paused cfg ip) (xray_clients cfg)"

definition carriable_xray_clients :: "vpn_config \<Rightarrow> string list" where
  "carriable_xray_clients cfg = filter td_carries (effective_xray_clients cfg)"

definition snapshot_on_tunnel :: "vpn_config \<Rightarrow> string list" where
  "snapshot_on_tunnel cfg =
     (case failover_of cfg of
        None \<Rightarrow> []
      | Some fo \<Rightarrow>
          (case tunnel_of cfg (fo_tunnel fo) of
             None \<Rightarrow> []
           | Some tun \<Rightarrow> filter (\<lambda>ip. ip \<in> set (tn_clients tun)) (fo_clients fo)))"

definition failover_staged :: "vpn_config \<Rightarrow> bool" where
  "failover_staged cfg \<longleftrightarrow> failover_of cfg \<noteq> None \<and>
     list_ex (\<lambda>ip. \<not> is_paused cfg ip \<and> ip \<in> set (snapshot_on_tunnel cfg)) (xray_clients cfg)"

definition failover_committed :: "vpn_config \<Rightarrow> bool" where
  "failover_committed cfg \<longleftrightarrow>
     (case failover_of cfg of
        None \<Rightarrow> False
      | Some fo \<Rightarrow> fo_committed fo \<or> (snapshot_on_tunnel cfg \<noteq> [] \<and> \<not> failover_staged cfg))"

definition failover_carries :: "vpn_config \<Rightarrow> bool" where
  "failover_carries cfg \<longleftrightarrow> failover_of cfg \<noteq> None \<and>
     list_ex (\<lambda>ip. \<not> is_paused cfg ip) (snapshot_on_tunnel cfg)"

definition xray_clients_outside_failover :: "vpn_config \<Rightarrow> string list" where
  "xray_clients_outside_failover cfg =
     (case failover_of cfg of
        None \<Rightarrow> []
      | Some fo \<Rightarrow>
          (case tunnel_of cfg (fo_tunnel fo) of
             None \<Rightarrow> []
           | Some tun \<Rightarrow>
               filter (\<lambda>ip. \<not> (ip \<in> set (fo_clients fo) \<and> ip \<in> set (tn_clients tun)))
                 (carriable_xray_clients cfg)))"

definition armed :: "vpn_config \<Rightarrow> int \<Rightarrow> bool" where
  "armed cfg subscriptions \<longleftrightarrow>
     failover_of cfg \<noteq> None \<or> x_pending (cfg_xray cfg) \<noteq> None \<or>
     (0 < subscriptions \<and> effective_xray_clients cfg \<noteq> [])"

section \<open>Tunnel Director exits\<close>

text \<open>\<open>byID\<close> is a map filled in list order: the last tunnel with an id is the one it holds.\<close>

definition td_exits :: "vpn_config \<Rightarrow> platform_tunnel list \<Rightarrow> string list" where
  "td_exits cfg plat =
     sort (map fst (filter
       (\<lambda>(k, tun). k \<noteq> ''main'' \<and> tn_clients tun \<noteq> [] \<and>
          (case map_of (rev (map (\<lambda>t. (pt_id t, t)) plat)) k of
             None \<Rightarrow> False
           | Some pt \<Rightarrow> pt_connected pt \<and> pt_iface pt \<noteq> []))
       (cfg_tunnels cfg)))"

definition first_td_exit :: "vpn_config \<Rightarrow> platform_tunnel list \<Rightarrow> string" where
  "first_td_exit cfg plat = (case td_exits cfg plat of [] \<Rightarrow> [] | i # _ \<Rightarrow> i)"

definition failover_td_exit :: "vpn_config \<Rightarrow> platform_tunnel list \<Rightarrow> string" where
  "failover_td_exit cfg plat =
     (let ids = td_exits cfg plat in
      case failover_of cfg of
        Some fo \<Rightarrow> if fo_tunnel fo \<in> set ids then fo_tunnel fo else first_td_exit cfg plat
      | None \<Rightarrow> first_td_exit cfg plat)"

definition next_td_exit :: "vpn_config \<Rightarrow> platform_tunnel list \<Rightarrow> string set \<Rightarrow> string" where
  "next_td_exit cfg plat tried =
     (case filter (\<lambda>i. i \<notin> tried) (td_exits cfg plat) of [] \<Rightarrow> [] | i # _ \<Rightarrow> i)"

section \<open>Staging and committing\<close>

text \<open>The append loop both stage and extend run: a list grows by what it does not hold yet.\<close>

fun append_missing :: "string list \<Rightarrow> string list \<Rightarrow> string list" where
  "append_missing xs [] = xs"
| "append_missing xs (y # ys) = append_missing (if y \<in> set xs then xs else xs @ [y]) ys"

text \<open>The addresses that loop appended, in its order: \<^verbatim>\<open>added\<close> of the stage.\<close>

fun newly :: "string list \<Rightarrow> string list \<Rightarrow> string list" where
  "newly xs [] = []"
| "newly xs (y # ys) = (if y \<in> set xs then newly xs ys else y # newly (xs @ [y]) ys)"

definition stage_xray_clients :: "vpn_config \<Rightarrow> string \<Rightarrow> vpn_config" where
  "stage_xray_clients cfg k =
     (if k = [] \<or> failover_of cfg \<noteq> None then cfg
      else case tunnel_of cfg k of
        None \<Rightarrow> cfg
      | Some tun \<Rightarrow>
          (let dropped = carriable_xray_clients cfg;
               added = newly (tn_clients tun) dropped
           in if dropped = [] then cfg
              else upd_xray (\<lambda>x. x\<lparr>x_failover := Some \<lparr>fo_tunnel = k, fo_clients = dropped,
                       fo_added = Some added, fo_committed = False\<rparr>\<rparr>)
                     (set_tunnel k (tun\<lparr>tn_clients := append_missing (tn_clients tun) dropped\<rparr>) cfg)))"

definition commit_xray_failover :: "vpn_config \<Rightarrow> vpn_config" where
  "commit_xray_failover cfg =
     (case failover_of cfg of
        None \<Rightarrow> cfg
      | Some fo \<Rightarrow>
          upd_xray (\<lambda>x. x\<lparr>x_failover := Some (fo\<lparr>fo_committed := True\<rparr>),
             x_clients := filter (\<lambda>ip. is_paused cfg ip \<or> ip \<notin> set (snapshot_on_tunnel cfg)) (x_clients x)\<rparr>) cfg)"

definition move_xray_clients :: "vpn_config \<Rightarrow> string \<Rightarrow> vpn_config" where
  "move_xray_clients cfg k = commit_xray_failover (stage_xray_clients cfg k)"

text \<open>One round of the loop of \<^verbatim>\<open>ExtendXrayFailover\<close>.\<close>

definition extend_one :: "string \<Rightarrow> failover \<times> tunnel \<Rightarrow> failover \<times> tunnel" where
  "extend_one ip ft =
     (let (fo, tun) = ft;
          on = ip \<in> set (tn_clients tun);
          tun' = (if on then tun else tun\<lparr>tn_clients := tn_clients tun @ [ip]\<rparr>);
          fo' = (if on then fo
                 else fo\<lparr>fo_added := map_option
                        (\<lambda>as. if ip \<in> set as then as else as @ [ip]) (fo_added fo)\<rparr>)
      in (if ip \<in> set (fo_clients fo') then fo' else fo'\<lparr>fo_clients := fo_clients fo' @ [ip]\<rparr>, tun'))"

definition extend_xray_failover :: "vpn_config \<Rightarrow> vpn_config \<times> bool" where
  "extend_xray_failover cfg =
     (let outside = xray_clients_outside_failover cfg in
      if outside = [] then (cfg, False)
      else case failover_of cfg of
        None \<Rightarrow> (cfg, False)
      | Some fo \<Rightarrow>
          (case tunnel_of cfg (fo_tunnel fo) of
             None \<Rightarrow> (cfg, False)
           | Some tun \<Rightarrow>
               (let (fo', tun') = fold extend_one outside (fo, tun)
                in (upd_xray (\<lambda>x. x\<lparr>x_failover := Some fo'\<rparr>) (set_tunnel (fo_tunnel fo) tun' cfg), True))))"

section \<open>Detaching, restoring and re-applying\<close>

definition detach_record :: "string \<Rightarrow> failover \<Rightarrow> failover" where
  "detach_record addr fo =
     fo\<lparr>fo_clients := without_addr (fo_clients fo) addr,
        fo_added := map_option (\<lambda>as. without_addr as addr) (fo_added fo)\<rparr>"

definition detach_pending :: "string \<Rightarrow> pending_restore \<Rightarrow> pending_restore" where
  "detach_pending addr p =
     p\<lparr>pr_snapshot := map_option (detach_record addr) (pr_snapshot p),
       pr_restored := without_addr (pr_restored p) addr\<rparr>"

definition detach_failover_client :: "vpn_config \<Rightarrow> string \<Rightarrow> vpn_config" where
  "detach_failover_client cfg addr =
     upd_xray (\<lambda>x. x\<lparr>x_failover := map_option (detach_record addr) (x_failover x),
                    x_pending := map_option (detach_pending addr) (x_pending x)\<rparr>) cfg"

text \<open>The addresses a restore takes off the tunnel: an older record without \<open>Added\<close> takes all.\<close>

definition restore_drops :: "failover \<Rightarrow> string list \<Rightarrow> string list" where
  "restore_drops fo restored = (case fo_added fo of None \<Rightarrow> restored | Some as \<Rightarrow> as)"

definition restore_xray_clients :: "vpn_config \<Rightarrow> vpn_config \<times> string list" where
  "restore_xray_clients cfg =
     (case failover_of cfg of
        None \<Rightarrow> (cfg, [])
      | Some fo \<Rightarrow>
          (let back = snapshot_on_tunnel cfg;
               cfg1 = upd_xray (\<lambda>x. x\<lparr>x_clients := append_missing (x_clients x) back\<rparr>) cfg;
               cfg2 = (case tunnel_of cfg (fo_tunnel fo) of
                         None \<Rightarrow> cfg1
                       | Some tun \<Rightarrow>
                           set_tunnel (fo_tunnel fo)
                             (tun\<lparr>tn_clients := filter (\<lambda>ip. ip \<notin> set (restore_drops fo back)) (tn_clients tun)\<rparr>)
                             cfg1)
           in (upd_xray (\<lambda>x. x\<lparr>x_failover := None\<rparr>) cfg2, back)))"

definition apply_failover_snapshot :: "vpn_config \<Rightarrow> failover \<Rightarrow> vpn_config" where
  "apply_failover_snapshot cfg fo =
     (if fo_tunnel fo = [] then cfg
      else case tunnel_of cfg (fo_tunnel fo) of
        None \<Rightarrow> cfg
      | Some tun \<Rightarrow>
          (let clients = filter (\<lambda>ip. ip \<noteq> []) (fo_clients fo);
               tun' = tun\<lparr>tn_clients := append_missing (tn_clients tun) clients\<rparr>
           in upd_xray (\<lambda>x. x\<lparr>x_clients := (if fo_committed fo
                               then filter (\<lambda>ip. ip \<notin> set clients) (x_clients x) else x_clients x),
                              x_failover := Some \<lparr>fo_tunnel = fo_tunnel fo, fo_clients = clients,
                                fo_added = fo_added fo, fo_committed = fo_committed fo\<rparr>\<rparr>)
                (set_tunnel (fo_tunnel fo) tun' cfg)))"

definition ensure_failover_staged :: "vpn_config \<Rightarrow> vpn_config" where
  "ensure_failover_staged cfg =
     (case failover_of cfg of
        None \<Rightarrow> cfg
      | Some fo \<Rightarrow>
          upd_xray (\<lambda>x. x\<lparr>x_failover := Some (fo\<lparr>fo_committed := failover_committed cfg\<rparr>),
             x_clients := append_missing (x_clients x)
               (filter (\<lambda>ip. \<not> is_paused cfg ip) (snapshot_on_tunnel cfg))\<rparr>) cfg)"

section \<open>Facts on the loops\<close>

lemma append_missing_newly: "append_missing xs ys = xs @ newly xs ys"
  by (induction xs ys rule: append_missing.induct) simp_all

lemma set_newly: "set (newly xs ys) = set ys - set xs"
  by (induction xs ys rule: newly.induct) auto

lemma distinct_newly: "distinct (newly xs ys)"
  by (induction xs ys rule: newly.induct) (auto simp: set_newly)

lemma set_append_missing [simp]: "set (append_missing xs ys) = set xs \<union> set ys"
  by (auto simp: append_missing_newly set_newly)

lemma append_missing_undo: "filter (\<lambda>x. x \<notin> set (newly xs ys)) (append_missing xs ys) = xs"
proof -
  have "filter (\<lambda>x. x \<notin> set (newly xs ys)) xs = xs" by (rule filter_True) (auto simp: set_newly)
  then show ?thesis by (simp add: append_missing_newly)
qed

lemma distinct_append_missing: "distinct xs \<Longrightarrow> distinct (append_missing xs ys)"
  by (auto simp: append_missing_newly set_newly distinct_newly)

lemma append_missing_id: "set ys \<subseteq> set xs \<Longrightarrow> append_missing xs ys = xs"
  by (induction xs ys rule: append_missing.induct) auto

lemma snapshot_on_tunnelI:
  "failover_of cfg = Some fo \<Longrightarrow> tunnel_of cfg (fo_tunnel fo) = Some tun \<Longrightarrow>
     snapshot_on_tunnel cfg = filter (\<lambda>ip. ip \<in> set (tn_clients tun)) (fo_clients fo)"
  by (simp add: snapshot_on_tunnel_def)

lemma snapshot_on_tunnel_covered:
  "ip \<in> set (snapshot_on_tunnel cfg) \<Longrightarrow> failover_of cfg = Some fo \<Longrightarrow>
     ip \<in> set (tunnel_clients cfg (fo_tunnel fo)) \<and> ip \<in> set (fo_clients fo)"
  by (auto simp: snapshot_on_tunnel_def tunnel_clients_def split: option.splits)

lemma mem_carriable: "ip \<in> set (carriable_xray_clients cfg) \<longleftrightarrow>
    ip \<in> set (xray_clients cfg) \<and> \<not> is_paused cfg ip \<and> td_carries ip"
  by (auto simp: carriable_xray_clients_def effective_xray_clients_def)

section \<open>The contract of an operation on the failover\<close>

text \<open>
  An address is covered while some route lists it: XRAY or a tunnel. A record is undoable when a
  restore takes off the tunnel nothing it does not put back on XRAY.
\<close>

definition covered :: "vpn_config \<Rightarrow> string \<Rightarrow> bool" where
  "covered cfg a \<longleftrightarrow> a \<in> set (xray_clients cfg) \<or> (\<exists>k. a \<in> set (tunnel_clients cfg k))"

definition sound_record :: "failover \<Rightarrow> bool" where
  "sound_record fo \<longleftrightarrow> (case fo_added fo of None \<Rightarrow> True | Some as \<Rightarrow> set as \<subseteq> set (fo_clients fo))"

definition undoable :: "vpn_config \<Rightarrow> bool" where
  "undoable cfg \<longleftrightarrow> (case failover_of cfg of None \<Rightarrow> True | Some fo \<Rightarrow> sound_record fo)"

locale failover_op =
  fixes run :: "vpn_config \<Rightarrow> vpn_config"
  assumes keeps_undoable: "undoable cfg \<Longrightarrow> undoable (run cfg)"
    and keeps_covered: "undoable cfg \<Longrightarrow> covered cfg a \<Longrightarrow> covered (run cfg) a"
    and keeps_paused: "cfg_paused (run cfg) = cfg_paused cfg"
    and keeps_keys: "keys (cfg_tunnels (run cfg)) = keys (cfg_tunnels cfg)"
begin

lemma repeated: "undoable cfg \<Longrightarrow> covered cfg a \<Longrightarrow> undoable ((run ^^ n) cfg) \<and> covered ((run ^^ n) cfg) a"
  by (induction n) (auto simp: keeps_undoable keeps_covered)

lemma repeated_keys: "keys (cfg_tunnels ((run ^^ n) cfg)) = keys (cfg_tunnels cfg)"
  by (induction n) (simp_all add: keeps_keys)

end

lemma failover_op_comp:
  assumes "failover_op f" and "failover_op g"
  shows "failover_op (\<lambda>cfg. g (f cfg))"
  using assms by (simp add: failover_op_def)

section \<open>The operations meet the contract\<close>

lemma extend_one_facts:
  assumes "extend_one ip (fo, tun) = (fo', tun')" and "sound_record fo"
  shows "sound_record fo'" "set (tn_clients tun') = insert ip (set (tn_clients tun))"
    "set (fo_clients fo') = insert ip (set (fo_clients fo))" "fo_tunnel fo' = fo_tunnel fo"
    "fo_committed fo' = fo_committed fo"
  using assms
  unfolding extend_one_def Let_def sound_record_def
  by (cases "fo_added fo"; cases "ip \<in> set (tn_clients tun)"; cases "ip \<in> set (fo_clients fo)"; force)+

lemma extend_fold_facts:
  "fold extend_one ips (fo, tun) = (fo', tun') \<Longrightarrow> sound_record fo \<Longrightarrow>
     sound_record fo' \<and> set (tn_clients tun') = set ips \<union> set (tn_clients tun)
     \<and> set (fo_clients fo') = set ips \<union> set (fo_clients fo) \<and> fo_tunnel fo' = fo_tunnel fo
     \<and> fo_committed fo' = fo_committed fo"
proof (induction ips arbitrary: fo tun)
  case (Cons ip ips)
  obtain fo1 tun1 where e: "extend_one ip (fo, tun) = (fo1, tun1)" by (cases "extend_one ip (fo, tun)")
  note one = extend_one_facts [OF e Cons.prems(2)]
  from Cons.prems(1) have "fold extend_one ips (fo1, tun1) = (fo', tun')" by (simp add: e)
  from Cons.IH [OF this one(1)] one show ?case by auto
qed simp

text \<open>Each operation either returns the configuration unchanged or has one shape of result.\<close>

lemma stage_cases:
  obtains (same) "stage_xray_clients cfg k = cfg"
  | (staged) tun where "failover_of cfg = None" "tunnel_of cfg k = Some tun" "carriable_xray_clients cfg \<noteq> []"
      "stage_xray_clients cfg k =
         upd_xray (\<lambda>x. x\<lparr>x_failover := Some \<lparr>fo_tunnel = k, fo_clients = carriable_xray_clients cfg,
             fo_added = Some (newly (tn_clients tun) (carriable_xray_clients cfg)), fo_committed = False\<rparr>\<rparr>)
           (set_tunnel k (tun\<lparr>tn_clients := append_missing (tn_clients tun) (carriable_xray_clients cfg)\<rparr>) cfg)"
  by (cases "k = [] \<or> failover_of cfg \<noteq> None"; cases "tunnel_of cfg k"; cases "carriable_xray_clients cfg = []")
     (auto simp: stage_xray_clients_def Let_def)

lemma extend_cases:
  obtains (same) "extend_xray_failover cfg = (cfg, False)"
  | (extended) fo tun fo' tun' where "failover_of cfg = Some fo" "tunnel_of cfg (fo_tunnel fo) = Some tun"
      "fold extend_one (xray_clients_outside_failover cfg) (fo, tun) = (fo', tun')"
      "extend_xray_failover cfg =
         (upd_xray (\<lambda>x. x\<lparr>x_failover := Some fo'\<rparr>) (set_tunnel (fo_tunnel fo) tun' cfg), True)"
proof (cases "xray_clients_outside_failover cfg = []")
  case True
  then show ?thesis by (intro same) (simp add: extend_xray_failover_def)
next
  case False
  then obtain fo tun where ft: "failover_of cfg = Some fo" "tunnel_of cfg (fo_tunnel fo) = Some tun"
    by (auto simp: xray_clients_outside_failover_def split: option.splits)
  obtain fo' tun' where "fold extend_one (xray_clients_outside_failover cfg) (fo, tun) = (fo', tun')"
    by (cases "fold extend_one (xray_clients_outside_failover cfg) (fo, tun)")
  with False ft show ?thesis by (intro extended) (simp_all add: extend_xray_failover_def)
qed

lemma restore_cases:
  obtains (same) "failover_of cfg = None" "restore_xray_clients cfg = (cfg, [])"
  | (gone) fo where "failover_of cfg = Some fo" "tunnel_of cfg (fo_tunnel fo) = None"
      "restore_xray_clients cfg = (upd_xray (\<lambda>x. x\<lparr>x_failover := None\<rparr>) cfg, [])"
  | (restored) fo tun where "failover_of cfg = Some fo" "tunnel_of cfg (fo_tunnel fo) = Some tun"
      "restore_xray_clients cfg =
         (upd_xray (\<lambda>x. x\<lparr>x_clients := append_missing (x_clients x) (snapshot_on_tunnel cfg), x_failover := None\<rparr>)
            (set_tunnel (fo_tunnel fo)
              (tun\<lparr>tn_clients := filter (\<lambda>ip. ip \<notin> set (restore_drops fo (snapshot_on_tunnel cfg))) (tn_clients tun)\<rparr>)
              cfg),
          snapshot_on_tunnel cfg)"
proof (cases "failover_of cfg")
  case None
  then show ?thesis by (intro same) (simp_all add: restore_xray_clients_def)
next
  case (Some fo)
  show ?thesis
  proof (cases "tunnel_of cfg (fo_tunnel fo)")
    case None
    with Some have "snapshot_on_tunnel cfg = []" by (simp add: snapshot_on_tunnel_def)
    with Some None show ?thesis
      by (intro gone) (simp_all add: restore_xray_clients_def record_ops Let_def)
  next
    case (Some tun)
    with \<open>failover_of cfg = Some fo\<close> show ?thesis
      by (intro restored) (simp_all add: restore_xray_clients_def record_ops Let_def)
  qed
qed

lemma coveredE:
  assumes "covered cfg a"
  obtains "a \<in> set (xray_clients cfg)" | k where "a \<in> set (tunnel_clients cfg k)"
  using assms by (auto simp: covered_def)

lemma covered_mono:
  assumes "covered cfg a" "set (xray_clients cfg) \<subseteq> set (xray_clients cfg')"
    and "\<And>k. set (tunnel_clients cfg k) \<subseteq> set (tunnel_clients cfg' k)"
  shows "covered cfg' a"
  using assms unfolding covered_def by blast

lemma tunnel_clientsI: "tunnel_of cfg k = Some tun \<Longrightarrow> tunnel_clients cfg k = tn_clients tun"
  by (simp add: tunnel_clients_def)

interpretation stage: failover_op "\<lambda>cfg. stage_xray_clients cfg k"
proof
  show "undoable (stage_xray_clients cfg k)" if "undoable cfg" for cfg
    by (cases rule: stage_cases [of cfg k]) (use that in \<open>auto simp: undoable_def sound_record_def set_newly\<close>)
  show "covered (stage_xray_clients cfg k) a" if "covered cfg a" for cfg a
    by (cases rule: stage_cases [of cfg k])
       (use that in \<open>auto intro!: covered_mono [OF that] simp: tunnel_clientsI\<close>)
  show "cfg_paused (stage_xray_clients cfg k) = cfg_paused cfg" for cfg
    by (cases rule: stage_cases [of cfg k]) simp_all
  show "keys (cfg_tunnels (stage_xray_clients cfg k)) = keys (cfg_tunnels cfg)" for cfg
    by (cases rule: stage_cases [of cfg k]) (simp_all add: keys_set_tunnel)
qed

interpretation commit: failover_op commit_xray_failover
proof
  show "undoable (commit_xray_failover cfg)" if "undoable cfg" for cfg
    using that by (auto simp: commit_xray_failover_def undoable_def sound_record_def split: option.splits)
  show "covered (commit_xray_failover cfg) a" if "covered cfg a" for cfg a
    using that
    by (auto simp: commit_xray_failover_def covered_def split: option.splits dest: snapshot_on_tunnel_covered)
qed (simp_all add: commit_xray_failover_def split: option.splits)

interpretation ensure: failover_op ensure_failover_staged
proof
  show "undoable (ensure_failover_staged cfg)" if "undoable cfg" for cfg
    using that by (auto simp: ensure_failover_staged_def undoable_def sound_record_def split: option.splits)
  show "covered (ensure_failover_staged cfg) a" if "covered cfg a" for cfg a
    using that by (auto simp: ensure_failover_staged_def covered_def split: option.splits)
qed (simp_all add: ensure_failover_staged_def split: option.splits)

interpretation extend: failover_op "\<lambda>cfg. fst (extend_xray_failover cfg)"
proof
  show "undoable (fst (extend_xray_failover cfg))" if "undoable cfg" for cfg
    by (cases rule: extend_cases [of cfg]) (use that in \<open>auto simp: undoable_def dest: extend_fold_facts\<close>)
  show "covered (fst (extend_xray_failover cfg)) a" if "undoable cfg" "covered cfg a" for cfg a
  proof (cases rule: extend_cases [of cfg])
    case (extended fo tun fo' tun')
    with that(1) have "sound_record fo" by (simp add: undoable_def)
    with extended(3) have "set (tn_clients tun) \<subseteq> set (tn_clients tun')" by (auto dest: extend_fold_facts)
    then have "set (tunnel_clients cfg j) \<subseteq> set (tunnel_clients (fst (extend_xray_failover cfg)) j)" for j
      using extended(2) by (simp add: extended(4) tunnel_clientsI)
    then show ?thesis by (intro covered_mono [OF that(2)]) (simp_all add: extended(4))
  qed (use that in simp)
  show "cfg_paused (fst (extend_xray_failover cfg)) = cfg_paused cfg" for cfg
    by (cases rule: extend_cases [of cfg]) simp_all
  show "keys (cfg_tunnels (fst (extend_xray_failover cfg))) = keys (cfg_tunnels cfg)" for cfg
    by (cases rule: extend_cases [of cfg]) (simp_all add: keys_set_tunnel)
qed

lemma restore_covers:
  assumes "undoable cfg" "covered cfg a"
  shows "covered (fst (restore_xray_clients cfg)) a"
proof (cases rule: restore_cases [of cfg])
  case (gone fo)
  then show ?thesis using assms(2) by (auto intro: covered_mono)
next
  case (restored fo tun)
  have onto: "set (snapshot_on_tunnel cfg) = set (fo_clients fo) \<inter> set (tn_clients tun)"
    by (auto simp: snapshot_on_tunnelI [OF restored(1,2)])
  have drops: "x \<in> set (restore_drops fo (snapshot_on_tunnel cfg)) \<Longrightarrow> x \<in> set (fo_clients fo)" for x
    using assms(1) restored(1) onto
    by (auto simp: undoable_def sound_record_def restore_drops_def split: option.splits)
  from assms(2) show ?thesis
  proof (cases rule: coveredE)
    case 1
    then show ?thesis by (simp add: covered_def restored(3))
  next
    case (2 k)
    show ?thesis
    proof (cases "a \<in> set (xray_clients cfg) \<or> a \<in> set (snapshot_on_tunnel cfg)")
      case True
      then show ?thesis by (auto simp: covered_def restored(3))
    next
      case False
      with 2 drops onto have "a \<in> set (tunnel_clients (fst (restore_xray_clients cfg)) k)"
        by (auto simp: restored tunnel_clientsI)
      then show ?thesis unfolding covered_def by blast
    qed
  qed
qed (use assms in simp)

interpretation restore: failover_op "\<lambda>cfg. fst (restore_xray_clients cfg)"
proof
  show "undoable (fst (restore_xray_clients cfg))" if "undoable cfg" for cfg
    by (cases rule: restore_cases [of cfg]) (use that in \<open>auto simp: undoable_def\<close>)
  show "cfg_paused (fst (restore_xray_clients cfg)) = cfg_paused cfg" for cfg
    by (cases rule: restore_cases [of cfg]) simp_all
  show "keys (cfg_tunnels (fst (restore_xray_clients cfg))) = keys (cfg_tunnels cfg)" for cfg
    by (cases rule: restore_cases [of cfg]) (simp_all add: keys_set_tunnel)
qed (rule restore_covers)

lemma failover_op_reapply:
  assumes "sound_record fo" and "\<And>as. fo_added fo = Some as \<Longrightarrow> [] \<notin> set as"
  shows "failover_op (\<lambda>cfg. apply_failover_snapshot cfg fo)"
proof
  let ?c = "filter (\<lambda>ip. ip \<noteq> []) (fo_clients fo)"
  fix cfg
  show "undoable (apply_failover_snapshot cfg fo)" if "undoable cfg"
  proof -
    have "set as \<subseteq> set ?c" if "fo_added fo = Some as" for as
      using assms(1) assms(2) [OF that] that by (auto simp: sound_record_def)
    then have "sound_record \<lparr>fo_tunnel = fo_tunnel fo, fo_clients = ?c, fo_added = fo_added fo,
        fo_committed = fo_committed fo\<rparr>" by (simp add: sound_record_def split: option.splits)
    with that show ?thesis
      by (auto simp: apply_failover_snapshot_def undoable_def Let_def split: option.split)
  qed
  show "cfg_paused (apply_failover_snapshot cfg fo) = cfg_paused cfg"
    by (auto simp: apply_failover_snapshot_def Let_def split: option.split)
  show "keys (cfg_tunnels (apply_failover_snapshot cfg fo)) = keys (cfg_tunnels cfg)"
    by (auto simp: apply_failover_snapshot_def Let_def keys_set_tunnel [simplified] split: option.split)
  fix a assume cov: "covered cfg a"
  show "covered (apply_failover_snapshot cfg fo) a"
  proof (cases "fo_tunnel fo = [] \<or> tunnel_of cfg (fo_tunnel fo) = None")
    case True
    with cov show ?thesis by (auto simp: apply_failover_snapshot_def)
  next
    case False
    then obtain tun where tun: "tunnel_of cfg (fo_tunnel fo) = Some tun" by blast
    with False have t: "set (tunnel_clients (apply_failover_snapshot cfg fo) k) =
        set (tunnel_clients cfg k) \<union> (if k = fo_tunnel fo then set ?c else {})" for k
      by (auto simp: apply_failover_snapshot_def Let_def tunnel_clientsI)
    have x: "set (xray_clients cfg) \<subseteq> set (xray_clients (apply_failover_snapshot cfg fo)) \<union> set ?c"
      using False tun by (auto simp: apply_failover_snapshot_def Let_def)
    from cov show ?thesis
    proof (cases rule: coveredE)
      case 1
      with x t [of "fo_tunnel fo"] show ?thesis unfolding covered_def by auto
    next
      case (2 k)
      with t [of k] show ?thesis unfolding covered_def by blast
    qed
  qed
qed

interpretation move: failover_op "\<lambda>cfg. move_xray_clients cfg k"
  unfolding move_xray_clients_def
  by (rule failover_op_comp) unfold_locales


section \<open>What the operations achieve\<close>

lemma failover_of_commit: "failover_of (commit_xray_failover cfg) = map_option (\<lambda>fo. fo\<lparr>fo_committed := True\<rparr>) (failover_of cfg)"
  by (simp add: commit_xray_failover_def split: option.splits)

lemma tunnel_of_commit [simp]: "tunnel_of (commit_xray_failover cfg) k = tunnel_of cfg k"
  by (simp add: commit_xray_failover_def split: option.splits)

lemma is_paused_frame [simp]:
  "is_paused (upd_xray f cfg) ip = is_paused cfg ip" "is_paused (set_tunnel k t cfg) ip = is_paused cfg ip"
  by (simp_all add: is_paused_def)

lemma snapshot_commit [simp]: "snapshot_on_tunnel (commit_xray_failover cfg) = snapshot_on_tunnel cfg"
  by (simp add: snapshot_on_tunnel_def failover_of_commit split: option.splits)

lemma commit_clients:
  "failover_of cfg \<noteq> None \<Longrightarrow> xray_clients (commit_xray_failover cfg) =
     filter (\<lambda>ip. is_paused cfg ip \<or> ip \<notin> set (snapshot_on_tunnel cfg)) (xray_clients cfg)"
  by (auto simp: commit_xray_failover_def)

lemma commit_not_staged: "\<not> failover_staged (commit_xray_failover cfg)"
proof (cases "failover_of cfg")
  case (Some fo)
  have "is_paused (commit_xray_failover cfg) ip = is_paused cfg ip" for ip
    by (simp add: is_paused_def commit.keeps_paused)
  with Some show ?thesis
    by (auto simp: failover_staged_def list_ex_iff commit_clients)
qed (simp add: failover_staged_def failover_of_commit)

lemma stage_some:
  assumes "failover_of cfg = None" "tunnel_of cfg k = Some tun" "k \<noteq> []" "carriable_xray_clients cfg \<noteq> []"
  shows "stage_xray_clients cfg k =
    upd_xray (\<lambda>x. x\<lparr>x_failover := Some \<lparr>fo_tunnel = k, fo_clients = carriable_xray_clients cfg,
        fo_added = Some (newly (tn_clients tun) (carriable_xray_clients cfg)), fo_committed = False\<rparr>\<rparr>)
      (set_tunnel k (tun\<lparr>tn_clients := append_missing (tn_clients tun) (carriable_xray_clients cfg)\<rparr>) cfg)"
  using assms by (simp add: stage_xray_clients_def Let_def)

lemma stage_snapshot:
  assumes "failover_of cfg = None" "tunnel_of cfg k = Some tun" "k \<noteq> []" "carriable_xray_clients cfg \<noteq> []"
  shows "snapshot_on_tunnel (stage_xray_clients cfg k) = carriable_xray_clients cfg"
proof -
  have "filter (\<lambda>ip. ip \<in> set (append_missing (tn_clients tun) (carriable_xray_clients cfg)))
      (carriable_xray_clients cfg) = carriable_xray_clients cfg"
    by (rule filter_True) simp
  then show ?thesis by (simp add: stage_some [OF assms] snapshot_on_tunnel_def)
qed

text \<open>After a move every client Tunnel Director can carry is on the tunnel and off XRAY.\<close>

lemma move_carries:
  assumes "failover_of cfg = None" "tunnel_of cfg k = Some tun" "k \<noteq> []"
  shows "set (carriable_xray_clients cfg) \<subseteq> set (tunnel_clients (move_xray_clients cfg k) k)"
    and "carriable_xray_clients (move_xray_clients cfg k) = []"
    and "set (xray_clients (move_xray_clients cfg k)) = set (xray_clients cfg) - set (carriable_xray_clients cfg)"
proof -
  let ?s = "stage_xray_clients cfg k" and ?c = "carriable_xray_clients cfg"
  show "set ?c \<subseteq> set (tunnel_clients (move_xray_clients cfg k) k)"
    by (cases "?c = []") (simp_all add: move_xray_clients_def tunnel_clients_def stage_some assms)
  show x: "set (xray_clients (move_xray_clients cfg k)) = set (xray_clients cfg) - set ?c"
  proof (cases "?c = []")
    case True
    then show ?thesis
      by (simp add: move_xray_clients_def stage_xray_clients_def assms commit_xray_failover_def)
  next
    case False
    note st = stage_some [OF assms False]
    have "failover_of ?s \<noteq> None" by (simp add: st)
    from commit_clients [OF this] show ?thesis
      by (auto simp: move_xray_clients_def stage_snapshot [OF assms False])
        (auto simp: st mem_carriable)
  qed
  have "is_paused (move_xray_clients cfg k) = is_paused cfg"
    by (simp add: is_paused_def fun_eq_iff move.keeps_paused)
  with x have "ip \<notin> set (carriable_xray_clients (move_xray_clients cfg k))" for ip
    by (auto simp: mem_carriable)
  then show "carriable_xray_clients (move_xray_clients cfg k) = []" by (metis list.set_intros(1) neq_Nil_conv)
qed

text \<open>A restore undoes a stage, committed or not: tunnels as they were, XRAY with the same clients.\<close>

lemma restore_undoes:
  assumes "failover_of cfg = None" "tunnel_of cfg k = Some tun" "k \<noteq> []" "carriable_xray_clients cfg \<noteq> []"
    and run: "run = stage_xray_clients cfg k \<or> run = move_xray_clients cfg k"
  shows "failover_of (fst (restore_xray_clients run)) = None"
    and "tunnel_of (fst (restore_xray_clients run)) j = tunnel_of cfg j"
    and "set (xray_clients (fst (restore_xray_clients run))) = set (xray_clients cfg)"
    and "snd (restore_xray_clients run) = carriable_xray_clients cfg"
proof -
  note st = stage_some [OF assms(1-4)] and snap = stage_snapshot [OF assms(1-4)]
  let ?c = "carriable_xray_clients cfg"
  obtain fo where fo: "failover_of run = Some fo" "fo_tunnel fo = k" "fo_added fo = Some (newly (tn_clients tun) ?c)"
    using run by (auto simp: move_xray_clients_def failover_of_commit st)
  have tun: "tunnel_of run i = (if i = k then Some (tun\<lparr>tn_clients := append_missing (tn_clients tun) ?c\<rparr>)
      else tunnel_of cfg i)" for i
    using run by (auto simp: move_xray_clients_def st)
  have sn: "snapshot_on_tunnel run = ?c" using run snap by (auto simp: move_xray_clients_def)
  have x: "set (xray_clients run) \<union> set ?c = set (xray_clients cfg)"
  proof -
    have "set ?c \<subseteq> set (xray_clients cfg)" by (auto simp: mem_carriable)
    with run move_carries(3) [OF assms(1-3)] show ?thesis by (auto simp: st)
  qed
  have res: "restore_xray_clients run =
      (upd_xray (\<lambda>x. x\<lparr>x_clients := append_missing (x_clients x) ?c, x_failover := None\<rparr>)
         (set_tunnel k tun run), ?c)"
    using fo tun [of k]
    by (cases rule: restore_cases [of run])
      (auto simp: sn restore_drops_def append_missing_undo)
  show "failover_of (fst (restore_xray_clients run)) = None" by (simp add: res)
  show "tunnel_of (fst (restore_xray_clients run)) j = tunnel_of cfg j"
    using assms(2) by (simp add: res tun)
  show "set (xray_clients (fst (restore_xray_clients run))) = set (xray_clients cfg)"
    by (simp add: res x)
  show "snd (restore_xray_clients run) = ?c" by (simp add: res)
qed

text \<open>An extension leaves nobody outside, and a second one has nothing to do.\<close>

lemma extend_complete:
  assumes "undoable cfg"
  shows "xray_clients_outside_failover (fst (extend_xray_failover cfg)) = []"
proof (cases rule: extend_cases [of cfg])
  case same
  show ?thesis
  proof (cases "xray_clients_outside_failover cfg = []")
    case False
    then obtain fo tun where "failover_of cfg = Some fo" "tunnel_of cfg (fo_tunnel fo) = Some tun"
      by (auto simp: xray_clients_outside_failover_def split: option.splits)
    with False same show ?thesis by (simp add: extend_xray_failover_def case_prod_unfold Let_def)
  qed (simp add: same)
next
  case (extended fo tun fo' tun')
  from assms extended(1) have "sound_record fo" by (simp add: undoable_def)
  note facts = extend_fold_facts [OF extended(3) this]
  have out: "xray_clients_outside_failover cfg =
      filter (\<lambda>ip. \<not> (ip \<in> set (fo_clients fo) \<and> ip \<in> set (tn_clients tun))) (carriable_xray_clients cfg)"
    by (simp add: xray_clients_outside_failover_def extended(1,2))
  have "carriable_xray_clients (fst (extend_xray_failover cfg)) = carriable_xray_clients cfg"
    by (simp add: carriable_xray_clients_def effective_xray_clients_def extended(4))
  moreover have "ip \<in> set (fo_clients fo') \<and> ip \<in> set (tn_clients tun')" if "ip \<in> set (carriable_xray_clients cfg)" for ip
    using facts that by (auto simp: out)
  moreover have "failover_of (fst (extend_xray_failover cfg)) = Some fo'"
    "tunnel_of (fst (extend_xray_failover cfg)) (fo_tunnel fo') = Some tun'"
    using facts by (simp_all add: extended(4))
  ultimately show ?thesis
    by (simp add: xray_clients_outside_failover_def filter_empty_conv)
qed

text \<open>Before a restore drops the tunnel, its unpaused clients are on XRAY again and the record says committed.\<close>

lemma ensure_staged:
  assumes "failover_of cfg = Some fo"
  shows "failover_of (ensure_failover_staged cfg) = Some (fo\<lparr>fo_committed := failover_committed cfg\<rparr>)"
    and "tunnel_of (ensure_failover_staged cfg) k = tunnel_of cfg k"
    and "failover_carries cfg \<Longrightarrow> failover_staged (ensure_failover_staged cfg)"
proof -
  show fo: "failover_of (ensure_failover_staged cfg) = Some (fo\<lparr>fo_committed := failover_committed cfg\<rparr>)"
    and tun: "\<And>k. tunnel_of (ensure_failover_staged cfg) k = tunnel_of cfg k"
    by (simp_all add: ensure_failover_staged_def assms)
  have "snapshot_on_tunnel (ensure_failover_staged cfg) = snapshot_on_tunnel cfg"
    by (simp add: snapshot_on_tunnel_def fo tun assms split: option.splits)
  moreover have "is_paused (ensure_failover_staged cfg) = is_paused cfg"
    by (simp add: is_paused_def fun_eq_iff ensure.keeps_paused)
  ultimately show "failover_staged (ensure_failover_staged cfg)" if "failover_carries cfg"
    using that by (auto simp: failover_staged_def failover_carries_def list_ex_iff fo
        ensure_failover_staged_def assms)
qed

section \<open>The exits a failover moves through\<close>

lemma next_td_exit_new:
  "next_td_exit cfg plat tried \<noteq> [] \<Longrightarrow>
     next_td_exit cfg plat tried \<in> set (td_exits cfg plat) \<and> next_td_exit cfg plat tried \<notin> tried"
  by (auto simp: next_td_exit_def split: list.splits dest: filter_eq_ConsD)

lemma td_exits_usable:
  "i \<in> set (td_exits cfg plat) \<Longrightarrow> i \<noteq> ''main'' \<and> i \<in> set (keys (cfg_tunnels cfg))"
  by (auto simp: td_exits_def)

lemma sorted_td_exits: "sorted (td_exits cfg plat)"
  by (simp add: td_exits_def)


section \<open>The properties of the failover\<close>

text \<open>
  A move to an exit takes every client Tunnel Director can carry off XRAY and onto the tunnel, and
  leaves every other client where it was.
\<close>

theorem move_takes_all_carriable:
  assumes "failover_of cfg = None" and "tunnel_of cfg k = Some tun" and "k \<noteq> []"
  shows "set (carriable_xray_clients cfg) \<subseteq> set (tunnel_clients (move_xray_clients cfg k) k) \<and>
    carriable_xray_clients (move_xray_clients cfg k) = [] \<and>
    set (xray_clients (move_xray_clients cfg k)) = set (xray_clients cfg) - set (carriable_xray_clients cfg) \<and>
    (\<forall>j. j \<noteq> k \<longrightarrow> tunnel_clients (move_xray_clients cfg k) j = tunnel_clients cfg j)"
proof -
  have "tunnel_clients (move_xray_clients cfg k) j = tunnel_clients cfg j" if "j \<noteq> k" for j
    by (cases "carriable_xray_clients cfg = []")
       (simp_all add: move_xray_clients_def tunnel_clients_def stage_some [OF assms] that
         stage_xray_clients_def assms Let_def)
  with move_carries [OF assms] show ?thesis by blast
qed

theorem move_takes_all_carriable_witness:
  "xray_clients (move_xray_clients example_config ''wgc1'') = [''8.8.8.8'', ''192.168.1.12''] \<and>
   ''192.168.1.10'' \<in> set (tunnel_clients (move_xray_clients example_config ''wgc1'') ''wgc1'')"
proof -
  let ?t = "\<lparr>tn_clients = [''192.168.1.20''], tn_exclude = [], tn_gateway = []\<rparr>"
  have h: "failover_of example_config = None" "tunnel_of example_config ''wgc1'' = Some ?t" by code_simp+
  have c: "carriable_xray_clients example_config = [''192.168.1.10'', ''192.168.1.11/32'']" by code_simp
  have x: "xray_clients (move_xray_clients example_config ''wgc1'') = [''8.8.8.8'', ''192.168.1.12'']" by code_simp
  from move_takes_all_carriable [OF h] x show ?thesis by (simp add: c)
qed

text \<open>
  C9: A restore undoes a stage, committed or not: every tunnel as it was before, XRAY with the same
  clients, no record left, and the moved clients as its answer.
\<close>

theorem restore_undoes_stage:
  assumes "failover_of cfg = None" and "tunnel_of cfg k = Some tun" and "k \<noteq> []"
    and "carriable_xray_clients cfg \<noteq> []"
    and "run = stage_xray_clients cfg k \<or> run = move_xray_clients cfg k"
  shows "failover_of (fst (restore_xray_clients run)) = None \<and>
    (\<forall>j. tunnel_of (fst (restore_xray_clients run)) j = tunnel_of cfg j) \<and>
    set (xray_clients (fst (restore_xray_clients run))) = set (xray_clients cfg) \<and>
    snd (restore_xray_clients run) = carriable_xray_clients cfg"
  using restore_undoes [OF assms] by blast

theorem restore_undoes_stage_witness:
  "tunnel_of (fst (restore_xray_clients (move_xray_clients example_config ''wgc1''))) ''wgc1''
     = Some \<lparr>tn_clients = [''192.168.1.20''], tn_exclude = [], tn_gateway = []\<rparr>"
proof -
  let ?t = "\<lparr>tn_clients = [''192.168.1.20''], tn_exclude = [], tn_gateway = []\<rparr>"
  have h: "failover_of example_config = None" "tunnel_of example_config ''wgc1'' = Some ?t" by code_simp+
  have "carriable_xray_clients example_config \<noteq> []" by code_simp
  from restore_undoes_stage [OF h _ this, of "move_xray_clients example_config ''wgc1''"] show ?thesis
    by (simp add: h(2))
qed

text \<open>
  An extension leaves no client outside the failover, so a second one reports that it has nothing
  to do; it takes nobody off XRAY.
\<close>

theorem extension_complete:
  assumes "undoable cfg"
  shows "xray_clients_outside_failover (fst (extend_xray_failover cfg)) = [] \<and>
    extend_xray_failover (fst (extend_xray_failover cfg)) = (fst (extend_xray_failover cfg), False) \<and>
    xray_clients (fst (extend_xray_failover cfg)) = xray_clients cfg"
proof -
  have out: "xray_clients_outside_failover (fst (extend_xray_failover cfg)) = []"
    by (rule extend_complete [OF assms])
  then have "extend_xray_failover (fst (extend_xray_failover cfg)) = (fst (extend_xray_failover cfg), False)"
    by (subst extend_xray_failover_def) simp
  moreover have "xray_clients (fst (extend_xray_failover cfg)) = xray_clients cfg"
    by (cases rule: extend_cases [of cfg]) simp_all
  ultimately show ?thesis using out by blast
qed

theorem extension_complete_witness:
  "xray_clients_outside_failover (fst (extend_xray_failover (stage_xray_clients example_config ''wgc1''))) = []"
proof -
  have "undoable (stage_xray_clients example_config ''wgc1'')" by code_simp
  from extension_complete [OF this] show ?thesis by simp
qed

text \<open>
  Before a restore takes the tunnel away, EnsureFailoverStaged puts the unpaused snapshot clients
  back on XRAY, leaves every tunnel alone, and writes down whether the failover had been committed.
\<close>

theorem ensure_staged_before_restore:
  assumes "failover_of cfg = Some fo"
  shows "failover_of (ensure_failover_staged cfg) = Some (fo\<lparr>fo_committed := failover_committed cfg\<rparr>) \<and>
    failover_committed (ensure_failover_staged cfg) = failover_committed cfg \<and>
    (\<forall>k. tunnel_of (ensure_failover_staged cfg) k = tunnel_of cfg k) \<and>
    (failover_carries cfg \<longrightarrow> failover_staged (ensure_failover_staged cfg)) \<and>
    (\<forall>ip \<in> set (snapshot_on_tunnel cfg). \<not> is_paused cfg ip \<longrightarrow> ip \<in> set (xray_clients (ensure_failover_staged cfg)))"
proof -
  note e = ensure_staged [OF assms]
  have x: "xray_clients (ensure_failover_staged cfg) = append_missing (xray_clients cfg)
      (filter (\<lambda>ip. \<not> is_paused cfg ip) (snapshot_on_tunnel cfg))"
    by (simp add: ensure_failover_staged_def assms)
  have snap: "snapshot_on_tunnel (ensure_failover_staged cfg) = snapshot_on_tunnel cfg"
    by (simp add: snapshot_on_tunnel_def e(1,2) assms split: option.splits)
  have p: "is_paused (ensure_failover_staged cfg) = is_paused cfg"
    by (simp add: is_paused_def fun_eq_iff ensure.keeps_paused)
  have "failover_committed (ensure_failover_staged cfg) = failover_committed cfg"
  proof (cases "failover_committed cfg")
    case True
    then show ?thesis by (simp add: failover_committed_def [of "ensure_failover_staged cfg"] e(1))
  next
    case False
    then have "fo_committed fo = False" "snapshot_on_tunnel cfg = [] \<or> failover_staged cfg"
      by (auto simp: failover_committed_def assms)
    moreover have "failover_staged (ensure_failover_staged cfg)" if "failover_staged cfg"
      using that by (auto simp: failover_staged_def list_ex_iff e(1) snap p x)
    ultimately show ?thesis using False
      by (auto simp: failover_committed_def [of "ensure_failover_staged cfg"] e(1) snap)
  qed
  with e x show ?thesis by simp
qed

theorem ensure_staged_before_restore_witness:
  "''192.168.1.10'' \<in> set (xray_clients (ensure_failover_staged (move_xray_clients example_config ''wgc1'')))"
proof -
  let ?m = "move_xray_clients example_config ''wgc1''"
  have "failover_of ?m \<noteq> None" by code_simp
  then obtain fo where fo: "failover_of ?m = Some fo" by blast
  have "''192.168.1.10'' \<in> set (snapshot_on_tunnel ?m)" "\<not> is_paused ?m ''192.168.1.10''" by code_simp+
  with ensure_staged_before_restore [OF fo] show ?thesis by blast
qed

end
