(* ===== verification/Clients.thy ===== *)
theory Clients
  imports Failover
begin

text \<open>
  The routes of a client and its moves between them (\<^verbatim>\<open>vpnconfig/clients.go\<close>). The lemmas
  reduce \<^verbatim>\<open>ClientRoutes\<close> to a filter over the route names and show that a move leaves the
  address on the target alone, its pause as it was, and every other address where it was.
\<close>

section \<open>Addresses in any spelling\<close>

text \<open>\<^verbatim>\<open>restoreListContains\<close>, and the same test in the handlers' helpers.\<close>

definition lists_addr :: "string list \<Rightarrow> string \<Rightarrow> bool" where
  "lists_addr xs addr \<longleftrightarrow> list_ex (\<lambda>s. addr_key s = addr_key addr) xs"

text \<open>
  What a list of addresses promises under any key of spellings: an entry goes with all its spellings
  and takes nothing else along.
\<close>

locale spelling_key =
  fixes key :: "'a \<Rightarrow> 'a"
  assumes key_idem: "key (key s) = key s"
begin

definition holds :: "'a list \<Rightarrow> 'a \<Rightarrow> bool" where
  "holds xs a \<longleftrightarrow> (\<exists>s \<in> set xs. key s = key a)"

definition drop_all :: "'a list \<Rightarrow> 'a \<Rightarrow> 'a list" where
  "drop_all xs a = filter (\<lambda>s. key s \<noteq> key a) xs"

lemma holds_Nil: "\<not> holds [] a"
  by (simp add: holds_def)

lemma holds_Cons: "holds (s # xs) a \<longleftrightarrow> key s = key a \<or> holds xs a"
  by (auto simp: holds_def)

lemma holds_append: "holds (xs @ ys) a \<longleftrightarrow> holds xs a \<or> holds ys a"
  by (auto simp: holds_def)

lemma holds_key: "holds xs (key a) \<longleftrightarrow> holds xs a"
  by (simp add: holds_def key_idem)

lemma holds_drop_all: "holds (drop_all xs a) b \<longleftrightarrow> holds xs b \<and> key b \<noteq> key a"
  by (auto simp: holds_def drop_all_def)

lemma drop_all_id: "\<not> holds xs a \<Longrightarrow> drop_all xs a = xs"
  by (auto simp: holds_def drop_all_def intro: filter_True)

lemma drop_all_keeps: "key b \<noteq> key a \<Longrightarrow> filter (\<lambda>s. key s = key b) (drop_all xs a) = filter (\<lambda>s. key s = key b) xs"
  by (induction xs) (auto simp: drop_all_def)

lemma holds_put_back: "holds (drop_all xs a @ [key a]) b \<longleftrightarrow> holds xs b \<or> key b = key a"
  by (auto simp: holds_append holds_drop_all holds_Cons holds_Nil key_idem)

end

interpretation addr: spelling_key addr_key
  by unfold_locales (rule addr_key_idem)

lemma lists_addr_holds: "lists_addr xs a = addr.holds xs a"
  by (auto simp: lists_addr_def addr.holds_def list_ex_iff)

lemma without_addr_drop: "without_addr xs a = addr.drop_all xs a"
  by (simp add: without_addr_def addr.drop_all_def)

lemmas spelling_simps = addr.holds_append addr.holds_drop_all addr.holds_Cons addr.holds_key

lemma lists_addr_simps [simp]:
  "\<not> lists_addr [] a" "lists_addr (s # xs) a \<longleftrightarrow> addr_key s = addr_key a \<or> lists_addr xs a"
  "lists_addr (xs @ ys) a \<longleftrightarrow> lists_addr xs a \<or> lists_addr ys a"
  "lists_addr (without_addr xs b) a \<longleftrightarrow> lists_addr xs a \<and> addr_key a \<noteq> addr_key b"
  by (simp add: lists_addr_def) (simp_all add: lists_addr_holds without_addr_drop spelling_simps)

lemma lists_addr_key: "addr_key a = addr_key b \<Longrightarrow> lists_addr xs a = lists_addr xs b"
  by (simp add: lists_addr_def)

section \<open>Routes\<close>

fun gather_routes :: "string \<Rightarrow> string list \<Rightarrow> client_info list \<Rightarrow> string list" where
  "gather_routes key acc [] = acc"
| "gather_routes key acc (c # cs) =
     gather_routes key
       (if addr_key (ci_ip c) = key \<and> ci_route c \<notin> set acc then acc @ [ci_route c] else acc) cs"

definition client_routes :: "vpn_config \<Rightarrow> string \<Rightarrow> string list" where
  "client_routes cfg addr = gather_routes (addr_key addr) [] (collect_clients cfg)"

section \<open>Moving a client\<close>

datatype move_result = ClientMoved | ClientAlreadyThere | ClientNotFound

definition zero_tunnel :: tunnel where
  "zero_tunnel = \<lparr>tn_clients = [], tn_exclude = [], tn_gateway = []\<rparr>"

text \<open>A tunnel new to the configuration inherits the country exclusions of XRAY.\<close>

definition new_tunnel :: "vpn_config \<Rightarrow> tunnel" where
  "new_tunnel cfg = \<lparr>tn_clients = [], tn_exclude = x_exclude_sets (cfg_xray cfg), tn_gateway = []\<rparr>"

definition take_off :: "string \<Rightarrow> string \<Rightarrow> vpn_config \<Rightarrow> vpn_config" where
  "take_off addr r cfg =
     (if r = ''xray'' then upd_xray (\<lambda>x. x\<lparr>x_clients := without_addr (x_clients x) addr\<rparr>) cfg
      else let t = (case tunnel_of cfg r of Some t \<Rightarrow> t | None \<Rightarrow> zero_tunnel)
           in set_tunnel r (t\<lparr>tn_clients := without_addr (tn_clients t) addr\<rparr>) cfg)"

definition put_on :: "string \<Rightarrow> string \<Rightarrow> vpn_config \<Rightarrow> vpn_config" where
  "put_on addr r cfg =
     (if r = ''xray'' then upd_xray (\<lambda>x. x\<lparr>x_clients := x_clients x @ [addr]\<rparr>) cfg
      else let t = (case tunnel_of cfg r of Some t \<Rightarrow> t | None \<Rightarrow> new_tunnel cfg)
           in set_tunnel r (t\<lparr>tn_clients := tn_clients t @ [addr]\<rparr>) cfg)"

definition was_paused :: "vpn_config \<Rightarrow> string \<Rightarrow> bool" where
  "was_paused cfg addr \<longleftrightarrow>
     list_ex (\<lambda>c. addr_key (ci_ip c) = addr_key addr \<and> ci_paused c) (collect_clients cfg)"

definition move_client :: "vpn_config \<Rightarrow> string \<Rightarrow> string \<Rightarrow> vpn_config \<times> move_result" where
  "move_client cfg addr route =
     (let on = client_routes cfg addr in
      if on = [] then (cfg, ClientNotFound)
      else if on = [route] then (cfg, ClientAlreadyThere)
      else
        let key = addr_key addr;
            paused = was_paused cfg addr;
            cfg1 = put_on key route (fold (take_off addr) on cfg);
            cfg2 = (if cfg_paused cfg = [] then cfg1
                    else cfg1\<lparr>cfg_paused := without_addr (cfg_paused cfg) addr @ (if paused then [key] else [])\<rparr>)
        in (detach_failover_client cfg2 addr, ClientMoved))"

section \<open>Which routes hold an address\<close>

definition route_clients :: "vpn_config \<Rightarrow> string \<Rightarrow> string list" where
  "route_clients cfg r = (if r = ''xray'' then xray_clients cfg else tunnel_clients cfg r)"

text \<open>Route names are unambiguous: the tunnel map has distinct keys and none of them is xray.\<close>

definition routes_ok :: "vpn_config \<Rightarrow> bool" where
  "routes_ok cfg \<longleftrightarrow> go_map (cfg_tunnels cfg) \<and> ''xray'' \<notin> set (keys (cfg_tunnels cfg))"

abbreviation route_names :: "vpn_config \<Rightarrow> string list" where
  "route_names cfg \<equiv> ''xray'' # sort (keys (cfg_tunnels cfg))"

lemma gather_block:
  "gather_routes key acc (map (\<lambda>ip. \<lparr>ci_ip = ip, ci_route = r, ci_paused = p ip\<rparr>) ips @ cs)
     = gather_routes key
         (if r \<notin> set acc \<and> (\<exists>ip \<in> set ips. addr_key ip = key) then acc @ [r] else acc) cs"
  by (induction ips arbitrary: acc) auto

lemma gather_blocks:
  "distinct names \<Longrightarrow> set names \<inter> set acc = {} \<Longrightarrow>
     gather_routes key acc
       (concat (map (\<lambda>n. map (\<lambda>ip. \<lparr>ci_ip = ip, ci_route = n, ci_paused = p ip\<rparr>) (f n)) names))
     = acc @ filter (\<lambda>n. \<exists>ip \<in> set (f n). addr_key ip = key) names"
  by (induction names arbitrary: acc) (auto simp: gather_block)

lemma client_routes_eq:
  assumes "routes_ok cfg"
  shows "client_routes cfg addr = filter (\<lambda>r. lists_addr (route_clients cfg r) addr) (route_names cfg)"
proof -
  let ?names = "sort (keys (cfg_tunnels cfg))"
  let ?acc = "if lists_addr (xray_clients cfg) addr then [''xray''] else []"
  from assms have "distinct ?names" "''xray'' \<notin> set ?names" by (simp_all add: routes_ok_def)
  then have disj: "set ?names \<inter> set ?acc = {}" by (cases "lists_addr (xray_clients cfg) addr") simp_all
  have x: "gather_routes (addr_key addr) []
      (map (\<lambda>ip. \<lparr>ci_ip = ip, ci_route = ''xray'', ci_paused = ip \<in> set (cfg_paused cfg)\<rparr>) (xray_clients cfg) @ cs)
    = gather_routes (addr_key addr) ?acc cs" for cs
    by (simp add: gather_block lists_addr_def list_ex_iff)
  have "client_routes cfg addr = ?acc @ filter (\<lambda>n. \<exists>ip \<in> set (tunnel_clients cfg n). addr_key ip = addr_key addr) ?names"
    unfolding client_routes_def collect_clients_def
    by (simp only: x gather_blocks [OF \<open>distinct ?names\<close> disj])
  also have "filter (\<lambda>n. \<exists>ip \<in> set (tunnel_clients cfg n). addr_key ip = addr_key addr) ?names
      = filter (\<lambda>r. lists_addr (route_clients cfg r) addr) ?names"
  proof (rule filter_cong [OF refl])
    fix n assume "n \<in> set ?names"
    with \<open>''xray'' \<notin> set ?names\<close> have "n \<noteq> ''xray''" by metis
    then show "(\<exists>ip \<in> set (tunnel_clients cfg n). addr_key ip = addr_key addr) = lists_addr (route_clients cfg n) addr"
      by (simp add: route_clients_def lists_addr_def list_ex_iff)
  qed
  finally show ?thesis by (simp add: route_clients_def)
qed

lemma tunnel_clients_keys: "a \<in> set (tunnel_clients cfg k) \<Longrightarrow> k \<in> set (keys (cfg_tunnels cfg))"
  by (cases "map_of (cfg_tunnels cfg) k")
    (simp_all add: tunnel_clients_def tunnel_of_def map_of_mem_keys [simplified])

lemma mem_client_routes:
  assumes "routes_ok cfg"
  shows "r \<in> set (client_routes cfg addr) \<longleftrightarrow> lists_addr (route_clients cfg r) addr"
proof -
  have "lists_addr (route_clients cfg r) addr \<Longrightarrow> r \<in> set (route_names cfg)"
    by (auto simp: route_clients_def lists_addr_def list_ex_iff dest: tunnel_clients_keys split: if_splits)
  then show ?thesis by (auto simp: client_routes_eq [OF assms])
qed


section \<open>What a move does\<close>

lemma route_clients_take_off:
  "route_clients (take_off addr r cfg) q =
     (if q = r then without_addr (route_clients cfg r) addr else route_clients cfg q)"
  by (simp add: take_off_def route_clients_def tunnel_clients_def zero_tunnel_def without_addr_def Let_def
      split: option.splits)

lemma route_clients_put_on:
  "route_clients (put_on addr r cfg) q =
     (if q = r then route_clients cfg r @ [addr] else route_clients cfg q)"
  by (simp add: put_on_def route_clients_def tunnel_clients_def new_tunnel_def Let_def split: option.splits)

lemma route_clients_take_off_all:
  "route_clients (fold (take_off addr) rs cfg) q =
     (if q \<in> set rs then without_addr (route_clients cfg q) addr else route_clients cfg q)"
proof (induction rs arbitrary: cfg)
  case (Cons r rs)
  have "without_addr (without_addr xs addr) addr = without_addr xs addr" for xs
    by (simp add: without_addr_def)
  then show ?case by (simp add: Cons.IH route_clients_take_off)
qed simp

lemma detach_frame [simp]:
  "route_clients (detach_failover_client cfg addr) q = route_clients cfg q"
  "cfg_paused (detach_failover_client cfg addr) = cfg_paused cfg"
  "cfg_tunnels (detach_failover_client cfg addr) = cfg_tunnels cfg"
  by (simp_all add: detach_failover_client_def route_clients_def)

lemma move_frame [simp]:
  "cfg_paused (take_off addr r cfg) = cfg_paused cfg" "cfg_paused (put_on addr r cfg) = cfg_paused cfg"
  "failover_of (take_off addr r cfg) = failover_of cfg" "failover_of (put_on addr r cfg) = failover_of cfg"
  by (simp_all add: take_off_def put_on_def Let_def)

lemma take_off_all_frame [simp]:
  "cfg_paused (fold (take_off addr) rs cfg) = cfg_paused cfg"
  "failover_of (fold (take_off addr) rs cfg) = failover_of cfg"
  by (induction rs arbitrary: cfg) simp_all

lemma routes_ok_set_tunnel: "routes_ok cfg \<Longrightarrow> r \<noteq> ''xray'' \<Longrightarrow> routes_ok (set_tunnel r t cfg)"
  by (simp add: routes_ok_def record_ops dom_update)

lemma routes_ok_steps:
  assumes "routes_ok cfg"
  shows "routes_ok (take_off addr r cfg)" "routes_ok (put_on addr r cfg)" "routes_ok (fold (take_off addr) rs cfg)"
proof -
  have off: "routes_ok (take_off addr q c)" if "routes_ok c" for q c
    using that routes_ok_set_tunnel [OF that] by (simp add: take_off_def Let_def routes_ok_def)
  from assms show "routes_ok (take_off addr r cfg)" by (rule off)
  show "routes_ok (put_on addr r cfg)"
    using assms routes_ok_set_tunnel [OF assms] by (simp add: put_on_def Let_def routes_ok_def)
  show "routes_ok (fold (take_off addr) rs cfg)"
    using assms by (induction rs arbitrary: cfg) (simp_all add: off)
qed

lemma move_client_moved:
  assumes "snd (move_client cfg addr route) = ClientMoved"
  shows "client_routes cfg addr \<noteq> []"
    and "route_clients (fst (move_client cfg addr route)) q =
      (let rest = (if q \<in> set (client_routes cfg addr) then without_addr (route_clients cfg q) addr
                   else route_clients cfg q)
       in if q = route then rest @ [addr_key addr] else rest)"
    and "cfg_paused (fst (move_client cfg addr route)) =
      (if cfg_paused cfg = [] then []
       else without_addr (cfg_paused cfg) addr @ (if was_paused cfg addr then [addr_key addr] else []))"
    and "routes_ok cfg \<Longrightarrow> routes_ok (fst (move_client cfg addr route))"
proof -
  let ?on = "client_routes cfg addr" and ?cfg1 = "put_on (addr_key addr) route (fold (take_off addr) (client_routes cfg addr) cfg)"
  let ?cfg2 = "if cfg_paused cfg = [] then ?cfg1
      else ?cfg1\<lparr>cfg_paused := without_addr (cfg_paused cfg) addr @ (if was_paused cfg addr then [addr_key addr] else [])\<rparr>"
  show "?on \<noteq> []" using assms by (auto simp: move_client_def Let_def split: if_splits)
  have fst: "fst (move_client cfg addr route) = detach_failover_client ?cfg2 addr"
    using assms by (auto simp: move_client_def Let_def split: if_splits)
  have "route_clients ?cfg2 q = route_clients ?cfg1 q"
    by (simp add: route_clients_def tunnel_clients_def tunnel_of_def)
  then show "route_clients (fst (move_client cfg addr route)) q =
      (let rest = (if q \<in> set ?on then without_addr (route_clients cfg q) addr else route_clients cfg q)
       in if q = route then rest @ [addr_key addr] else rest)"
    by (simp add: fst route_clients_put_on route_clients_take_off_all)
  show "cfg_paused (fst (move_client cfg addr route)) =
      (if cfg_paused cfg = [] then []
       else without_addr (cfg_paused cfg) addr @ (if was_paused cfg addr then [addr_key addr] else []))"
    by (simp add: fst)
  show "routes_ok (fst (move_client cfg addr route))" if "routes_ok cfg"
    using routes_ok_steps(2) [OF routes_ok_steps(3) [OF that]] by (simp add: fst routes_ok_def)
qed

lemma client_routes_moved:
  assumes ok: "routes_ok cfg" and moved: "snd (move_client cfg addr route) = ClientMoved"
  shows "lists_addr (route_clients (fst (move_client cfg addr route)) q) b \<longleftrightarrow>
    (if addr_key b = addr_key addr then q = route else lists_addr (route_clients cfg q) b)"
proof -
  have nil: "addr_key b = addr_key addr \<Longrightarrow> lists_addr xs b = lists_addr xs addr" for xs
    by (rule lists_addr_key)
  show ?thesis
    using mem_client_routes [OF ok, of q addr]
    by (auto simp: move_client_moved(2) [OF moved] Let_def nil)
qed

text \<open>After a move the address is on the target route alone.\<close>

lemma move_client_alone:
  assumes ok: "routes_ok cfg" and moved: "snd (move_client cfg addr route) = ClientMoved"
  shows "client_routes (fst (move_client cfg addr route)) addr = [route]"
proof -
  let ?cfg = "fst (move_client cfg addr route)"
  have ok': "routes_ok ?cfg" using moved ok by (rule move_client_moved)
  have mem: "r \<in> set (client_routes ?cfg addr) \<longleftrightarrow> r = route" for r
    by (simp add: mem_client_routes [OF ok'] client_routes_moved [OF assms])
  have "distinct (route_names ?cfg)" using ok' by (simp add: routes_ok_def)
  then have "distinct (client_routes ?cfg addr)" by (simp only: client_routes_eq [OF ok'] distinct_filter)
  moreover from mem have "set (client_routes ?cfg addr) = {route}" by blast
  ultimately show ?thesis by (rule distinct_single)
qed


text \<open>Every other address keeps its routes.\<close>

lemma client_routes_others:
  assumes ok: "routes_ok cfg" and moved: "snd (move_client cfg addr route) = ClientMoved"
    and other: "addr_key b \<noteq> addr_key addr"
  shows "client_routes (fst (move_client cfg addr route)) b = client_routes cfg b"
proof -
  let ?cfg = "fst (move_client cfg addr route)"
  let ?names = "\<lambda>c. filter (\<lambda>r. lists_addr (route_clients c r) b) (sort (keys (cfg_tunnels c)))"
  have ok': "routes_ok ?cfg" using moved ok by (rule move_client_moved)
  have same: "lists_addr (route_clients ?cfg r) b = lists_addr (route_clients cfg r) b" for r
    using client_routes_moved [OF ok moved, of r b] other by simp
  have "set (?names c) = {r. r \<noteq> ''xray'' \<and> lists_addr (route_clients c r) b}" if "routes_ok c" for c
  proof -
    have "r \<in> set (keys (cfg_tunnels c))" if "r \<noteq> ''xray''" "lists_addr (route_clients c r) b" for r
      using that by (auto simp: route_clients_def lists_addr_def list_ex_iff dest: tunnel_clients_keys)
    moreover have "r \<noteq> ''xray''" if "r \<in> set (keys (cfg_tunnels c))" for r
      using that \<open>routes_ok c\<close> unfolding routes_ok_def by metis
    ultimately show ?thesis by auto
  qed
  from this [OF ok] this [OF ok'] have "set (?names ?cfg) = set (?names cfg)" by (simp only: same)
  then have "?names ?cfg = ?names cfg"
    using ok ok' by (intro sorted_distinct_set_unique) (simp_all add: sorted_wrt_filter routes_ok_def)
  then show ?thesis by (simp add: client_routes_eq ok ok' same)
qed

lemma covered_route_clients:
  assumes "routes_ok cfg"
  shows "covered cfg a \<longleftrightarrow> (\<exists>r. a \<in> set (route_clients cfg r))"
proof -
  have "tunnel_clients cfg ''xray'' = []"
  proof (cases "tunnel_clients cfg ''xray''")
    case (Cons b bs)
    then have "''xray'' \<in> set (keys (cfg_tunnels cfg))" using tunnel_clients_keys [of b cfg "''xray''"] by simp
    with assms show ?thesis unfolding routes_ok_def by metis
  qed
  then have none: "a \<notin> set (tunnel_clients cfg ''xray'')" by simp
  show ?thesis
  proof
    assume "covered cfg a"
    then consider "a \<in> set (route_clients cfg ''xray'')" | k where "a \<in> set (tunnel_clients cfg k)"
      by (auto simp: covered_def route_clients_def)
    then show "\<exists>r. a \<in> set (route_clients cfg r)"
    proof cases
      case (2 k)
      with none have "a \<in> set (route_clients cfg k)" by (auto simp: route_clients_def)
      then show ?thesis ..
    qed blast
  next
    assume "\<exists>r. a \<in> set (route_clients cfg r)"
    then show "covered cfg a" by (auto simp: covered_def route_clients_def split: if_splits)
  qed
qed

lemma was_paused_iff:
  assumes "routes_ok cfg"
  shows "was_paused cfg addr \<longleftrightarrow> (\<exists>a \<in> set (cfg_paused cfg). addr_key a = addr_key addr \<and> covered cfg a)"
proof -
  have eq: "was_paused cfg addr \<longleftrightarrow> (\<exists>a. addr_key a = addr_key addr \<and> a \<in> set (cfg_paused cfg) \<and>
      (a \<in> set (xray_clients cfg) \<or> (\<exists>n \<in> set (keys (cfg_tunnels cfg)). a \<in> set (tunnel_clients cfg n))))"
    by (simp add: was_paused_def collect_clients_def list_ex_iff bex_Un) blast
  have "(\<exists>n \<in> set (keys (cfg_tunnels cfg)). a \<in> set (tunnel_clients cfg n)) \<longleftrightarrow> (\<exists>k. a \<in> set (tunnel_clients cfg k))" for a
    using tunnel_clients_keys [of a cfg] by blast
  then show ?thesis unfolding eq covered_def by blast
qed

text \<open>A moved client stays paused exactly when it was.\<close>

lemma move_client_pause:
  assumes ok: "routes_ok cfg" and moved: "snd (move_client cfg addr route) = ClientMoved"
  shows "was_paused (fst (move_client cfg addr route)) addr \<longleftrightarrow> was_paused cfg addr"
proof -
  let ?cfg = "fst (move_client cfg addr route)"
  have ok': "routes_ok ?cfg" using moved ok by (rule move_client_moved)
  have "addr_key addr \<in> set (route_clients ?cfg route)"
    by (simp add: move_client_moved(2) [OF moved] Let_def)
  then have cov: "covered ?cfg (addr_key addr)" by (auto simp: covered_route_clients [OF ok'])
  have paused: "a \<in> set (cfg_paused ?cfg) \<and> addr_key a = addr_key addr \<longleftrightarrow>
      a = addr_key addr \<and> cfg_paused cfg \<noteq> [] \<and> was_paused cfg addr" for a
    by (auto simp: move_client_moved(3) [OF moved] without_addr_def)
  have "cfg_paused cfg \<noteq> []" if "was_paused cfg addr"
    using that by (auto simp: was_paused_iff [OF ok])
  then show ?thesis
    using cov paused unfolding was_paused_iff [OF ok'] by (metis addr_key_idem)
qed

text \<open>Detaching keeps the record one a restore can undo.\<close>

lemma sound_detach: "sound_record fo \<Longrightarrow> sound_record (detach_record addr fo)"
  by (auto simp: sound_record_def detach_record_def without_addr_def split: option.splits)

lemma failover_of_detach [simp]:
  "failover_of (detach_failover_client cfg addr) = map_option (detach_record addr) (failover_of cfg)"
  by (simp add: detach_failover_client_def)

lemma undoable_detach: "undoable cfg \<Longrightarrow> undoable (detach_failover_client cfg addr)"
  by (simp add: undoable_def sound_detach split: option.splits)

lemma undoable_cong: "failover_of c = failover_of d \<Longrightarrow> undoable c = undoable d"
  by (simp only: undoable_def)

lemma undoable_move: "undoable cfg \<Longrightarrow> undoable (fst (move_client cfg addr route))"
proof (cases "snd (move_client cfg addr route) = ClientMoved")
  case True
  assume "undoable cfg"
  then have "undoable (put_on (addr_key addr) route (fold (take_off addr) (client_routes cfg addr) cfg))"
    by (subst undoable_cong [of _ cfg]) simp_all
  then show ?thesis using True
    by (auto simp: move_client_def Let_def undoable_def sound_detach split: if_splits option.splits)
qed (auto simp: move_client_def Let_def split: if_splits)


section \<open>The property of a move\<close>



end
