(* ===== verification/Web_Clients.thy ===== *)
theory Web_Clients
  imports Clients
begin

text \<open>
  The Web UI's changes of clients and exclusions (\<^verbatim>\<open>webapi/handler_clients.go\<close>,
  \<^verbatim>\<open>handler_excludes.go\<close>, \<^verbatim>\<open>apply.go\<close>) over the configuration update of
  \<^verbatim>\<open>service/config.go\<close>. A handler is a function from the request and the file on disk to the
  file afterwards and the answer. Which step of the update fails is an argument: the lock, the load,
  the save, the apply. The step relation at the end joins the handlers with the failover operations
  of the daemon, and its lemmas hold for every interleaving of the two.
\<close>

section \<open>The update\<close>

datatype answer = Done | Refused nat string | SavedNotApplied | LoadFailed | Busy | SaveFailed

text \<open>What can fail around the callback of \<^verbatim>\<open>UpdateVPNConfig\<close>, and the apply after it.\<close>

record weather =
  locks :: bool
  loads :: bool
  saves :: bool
  applies :: bool

text \<open>\<^verbatim>\<open>updateAndApply\<close> with the answer \<^verbatim>\<open>writeSaveApplyResult\<close> gives.\<close>

definition update_and_apply ::
  "weather \<Rightarrow> (vpn_config \<Rightarrow> answer + vpn_config) \<Rightarrow> vpn_config \<Rightarrow> vpn_config \<times> answer" where
  "update_and_apply w mutate disk =
     (if \<not> locks w then (disk, Busy)
      else if \<not> loads w then (disk, LoadFailed)
      else case mutate disk of
        Inl e \<Rightarrow> (disk, e)
      | Inr cfg \<Rightarrow>
          if \<not> saves w then (disk, SaveFailed)
          else if \<not> applies w then (cfg, SavedNotApplied)
          else (cfg, Done))"

section \<open>Helpers of the handlers\<close>

text \<open>The handlers compare with an address that is a key already: \<^verbatim>\<open>sameAddr\<close>.\<close>

definition same_addr :: "string \<Rightarrow> string \<Rightarrow> bool" where
  "same_addr stored a \<longleftrightarrow> (case normalize_client_addr stored of Some n \<Rightarrow> n | None \<Rightarrow> stored) = a"

definition contains_addr :: "string list \<Rightarrow> string \<Rightarrow> bool" where
  "contains_addr xs a \<longleftrightarrow> list_ex (\<lambda>s. same_addr s a) xs"

definition remove_addr :: "string list \<Rightarrow> string \<Rightarrow> string list" where
  "remove_addr xs a = filter (\<lambda>s. \<not> same_addr s a) xs"

definition find_client :: "vpn_config \<Rightarrow> string \<Rightarrow> (string \<times> string) option" where
  "find_client cfg a =
     map_option (\<lambda>c. (ci_route c, ci_ip c)) (List.find (\<lambda>c. same_addr (ci_ip c) a) (collect_clients cfg))"

fun spellings :: "string \<Rightarrow> string list \<Rightarrow> client_info list \<Rightarrow> string list" where
  "spellings a out [] = out"
| "spellings a out (c # cs) =
     spellings a (if \<not> same_addr (ci_ip c) a \<or> ci_ip c \<in> set out then out else out @ [ci_ip c]) cs"

definition client_spellings :: "vpn_config \<Rightarrow> string \<Rightarrow> string list" where
  "client_spellings cfg a = spellings a [] (collect_clients cfg)"

text \<open>\<^verbatim>\<open>clientAddrFromQuery\<close>: what the validator refuses passes through.\<close>

definition client_addr_from_query :: "string \<Rightarrow> string option" where
  "client_addr_from_query query =
     (let raw = trim_space query in
      if raw = [] then None
      else case normalize_client_addr raw of Some ip \<Rightarrow> Some ip | None \<Rightarrow> Some raw)"

text \<open>
  \<^verbatim>\<open>checkClientRoute\<close>: \<open>loaded\<close> is the configuration as loaded for the check and \<open>plat\<close> the
  platform's tunnels, each \<^const>\<open>None\<close> when it could not be read.
\<close>

definition check_client_route ::
  "vpn_config option \<Rightarrow> platform_tunnel list option \<Rightarrow> string \<Rightarrow> string \<Rightarrow> answer option" where
  "check_client_route loaded plat ip route =
     (if route = ''xray'' then None
      else if \<not> td_carries ip then Some (Refused 400 ''invalid route: private IPv4 only'')
      else case loaded of
        None \<Rightarrow> Some LoadFailed
      | Some cfg \<Rightarrow>
          if tunnel_of cfg route \<noteq> None then None
          else (case plat of
                  None \<Rightarrow> Some (Refused 503 ''platform info unavailable'')
                | Some tunnels \<Rightarrow>
                    if has_tunnel tunnels route then None
                    else if \<not> has_firmware_tunnels tunnels then Some (Refused 503 ''platform info unavailable'')
                    else Some (Refused 400 ''invalid route: must be xray or a tunnel this router has'')))"

section \<open>The mutations\<close>

definition add_mutation :: "string \<Rightarrow> string \<Rightarrow> vpn_config \<Rightarrow> answer + vpn_config" where
  "add_mutation ip route cfg =
     (if find_client cfg ip \<noteq> None then Inl (Refused 409 ''client already configured'')
      else Inr (put_on ip route (detach_failover_client cfg ip)))"

definition move_mutation :: "string \<Rightarrow> string \<Rightarrow> vpn_config \<Rightarrow> answer + vpn_config" where
  "move_mutation ip route cfg =
     (case move_client cfg ip route of
        (_, ClientNotFound) \<Rightarrow> Inl (Refused 404 ''client not found'')
      | (_, ClientAlreadyThere) \<Rightarrow> Inl Done
      | (cfg', ClientMoved) \<Rightarrow> Inr cfg')"

definition pause_mutation :: "string \<Rightarrow> vpn_config \<Rightarrow> answer + vpn_config" where
  "pause_mutation ip cfg =
     (let stored = client_spellings cfg ip in
      if stored = [] then Inl (Refused 404 ''client not found'')
      else Inr (cfg\<lparr>cfg_paused := remove_addr (cfg_paused cfg) ip @ stored\<rparr>))"

definition resume_mutation :: "string \<Rightarrow> vpn_config \<Rightarrow> answer + vpn_config" where
  "resume_mutation ip cfg =
     (if find_client cfg ip = None then Inl (Refused 404 ''client not found'')
      else Inr (cfg\<lparr>cfg_paused := remove_addr (cfg_paused cfg) ip\<rparr>))"

definition delete_mutation :: "string \<Rightarrow> vpn_config \<Rightarrow> answer + vpn_config" where
  "delete_mutation ip cfg =
     (if find_client cfg ip = None then Inl (Refused 404 ''client not found'')
      else Inr (detach_failover_client
        (cfg\<lparr>cfg_xray := (cfg_xray cfg)\<lparr>x_clients := remove_addr (xray_clients cfg) ip\<rparr>,
             cfg_tunnels := map (\<lambda>(k, t). (k, t\<lparr>tn_clients := remove_addr (tn_clients t) ip\<rparr>)) (cfg_tunnels cfg),
             cfg_paused := remove_addr (cfg_paused cfg) ip\<rparr>) ip))"

section \<open>The handlers\<close>

definition routed_request ::
  "(string \<Rightarrow> string \<Rightarrow> vpn_config \<Rightarrow> answer + vpn_config) \<Rightarrow> weather \<Rightarrow> vpn_config option \<Rightarrow>
     platform_tunnel list option \<Rightarrow> string \<Rightarrow> string \<Rightarrow> vpn_config \<Rightarrow> vpn_config \<times> answer" where
  "routed_request mutation w loaded plat raw route disk =
     (if raw = [] then (disk, Refused 400 ''ip is required'')
      else case normalize_client_addr raw of
        None \<Rightarrow> (disk, Refused 400 ''invalid IPv4 address or CIDR'')
      | Some ip \<Rightarrow>
          if route = [] then (disk, Refused 400 ''route is required'')
          else case check_client_route loaded plat ip route of
            Some e \<Rightarrow> (disk, e)
          | None \<Rightarrow> update_and_apply w (mutation ip route) disk)"

definition handle_add_client where
  "handle_add_client = routed_request add_mutation"

definition handle_move_client where
  "handle_move_client = routed_request move_mutation"

definition query_request ::
  "(string \<Rightarrow> vpn_config \<Rightarrow> answer + vpn_config) \<Rightarrow> weather \<Rightarrow> string \<Rightarrow> vpn_config \<Rightarrow> vpn_config \<times> answer" where
  "query_request mutation w query disk =
     (case client_addr_from_query query of
        None \<Rightarrow> (disk, Refused 400 ''ip query parameter is required'')
      | Some ip \<Rightarrow> update_and_apply w (mutation ip) disk)"

definition handle_pause_client where
  "handle_pause_client = query_request pause_mutation"

definition handle_resume_client where
  "handle_resume_client = query_request resume_mutation"

definition handle_delete_client where
  "handle_delete_client = query_request delete_mutation"

section \<open>Exclusions\<close>

definition country_code :: "string \<Rightarrow> bool" where
  "country_code s \<longleftrightarrow> length s = 2 \<and> list_all (\<lambda>c. 97 \<le> byte c \<and> byte c \<le> 122) s"

definition stored_form :: "string list \<Rightarrow> string \<Rightarrow> bool" where
  "stored_form previous s \<longleftrightarrow> list_ex (\<lambda>p. s = p \<or> s = to_lower (trim_space p)) previous"

fun exclude_loop :: "string list \<Rightarrow> string list \<Rightarrow> string list \<Rightarrow> string + string list" where
  "exclude_loop previous out [] = Inr out"
| "exclude_loop previous out (raw # sets) =
     (let code = to_lower (trim_space raw) in
      if \<not> country_code code then
        (if stored_form previous raw \<or> stored_form previous (trim_space raw) \<or> stored_form previous code
         then exclude_loop previous out sets else Inl raw)
      else exclude_loop previous (if code \<in> set out then out else out @ [code]) sets)"

definition normalize_exclude_sets :: "string list \<Rightarrow> string list \<Rightarrow> string + string list" where
  "normalize_exclude_sets sets previous = exclude_loop previous [] sets"

definition exclude_sets_mutation :: "string list \<Rightarrow> vpn_config \<Rightarrow> answer + vpn_config" where
  "exclude_sets_mutation sets cfg =
     (case normalize_exclude_sets sets (x_exclude_sets (cfg_xray cfg)) of
        Inl raw \<Rightarrow> Inl (Refused 400 ''invalid country code'')
      | Inr codes \<Rightarrow> Inr (upd_xray (\<lambda>x. x\<lparr>x_exclude_sets := codes\<rparr>) cfg))"

definition handle_update_exclude_sets :: "weather \<Rightarrow> string list option \<Rightarrow> vpn_config \<Rightarrow> vpn_config \<times> answer" where
  "handle_update_exclude_sets w sets disk =
     (case sets of
        None \<Rightarrow> (disk, Refused 400 ''sets field is required'')
      | Some s \<Rightarrow> update_and_apply w (exclude_sets_mutation s) disk)"

definition add_exclude_mutation :: "string \<Rightarrow> vpn_config \<Rightarrow> answer + vpn_config" where
  "add_exclude_mutation ip cfg =
     Inr (if contains_addr (x_exclude_ips (cfg_xray cfg)) ip then cfg
          else upd_xray (\<lambda>x. x\<lparr>x_exclude_ips := x_exclude_ips x @ [ip]\<rparr>) cfg)"

definition handle_add_exclude_ip :: "weather \<Rightarrow> string \<Rightarrow> vpn_config \<Rightarrow> vpn_config \<times> answer" where
  "handle_add_exclude_ip w raw disk =
     (if raw = [] then (disk, Refused 400 ''ip is required'')
      else case normalize_client_addr raw of
        None \<Rightarrow> (disk, Refused 400 ''invalid IPv4 address or CIDR'')
      | Some ip \<Rightarrow> update_and_apply w (add_exclude_mutation ip) disk)"

definition delete_exclude_mutation :: "string \<Rightarrow> vpn_config \<Rightarrow> answer + vpn_config" where
  "delete_exclude_mutation ip cfg =
     Inr (upd_xray (\<lambda>x. x\<lparr>x_exclude_ips := remove_addr (x_exclude_ips x) ip\<rparr>) cfg)"

definition handle_delete_exclude_ip where
  "handle_delete_exclude_ip = query_request delete_exclude_mutation"


section \<open>The update is all or nothing\<close>

lemma update_and_apply_cases:
  obtains (kept) "fst (update_and_apply w mutate disk) = disk"
  | (written) cfg where "mutate disk = Inr cfg" "fst (update_and_apply w mutate disk) = cfg"
      "snd (update_and_apply w mutate disk) = (if applies w then Done else SavedNotApplied)"
  by (cases "mutate disk"; cases "locks w"; cases "loads w"; cases "saves w")
     (auto simp: update_and_apply_def)

section \<open>What the mutations do\<close>

lemma same_addr_key: "same_addr s a \<longleftrightarrow> addr_key s = a"
  by (simp add: same_addr_def addr_key_def)

text \<open>The address a handler works on is its own key.\<close>

lemma query_addr_key:
  assumes "client_addr_from_query query = Some ip"
  shows "addr_key ip = ip"
proof (cases "normalize_client_addr (trim_space query)")
  case None
  with assms show ?thesis by (auto simp: client_addr_from_query_def Let_def addr_key_def split: if_splits)
next
  case (Some n)
  with assms have "ip = n" by (auto simp: client_addr_from_query_def Let_def split: if_splits)
  with Some show ?thesis by (auto simp: addr_key_def dest: normalize_client_addr_idem)
qed

lemma remove_addr_without: "addr_key a = a \<Longrightarrow> remove_addr xs a = without_addr xs a"
  by (simp add: remove_addr_def without_addr_def same_addr_key)

lemma find_client_none:
  "find_client cfg a = None \<longleftrightarrow> (\<forall>c \<in> set (collect_clients cfg). addr_key (ci_ip c) \<noteq> a)"
  by (auto simp: find_client_def find_None_iff same_addr_key)

lemma set_spellings:
  "set (spellings a out cs) = set out \<union> {ci_ip c |c. c \<in> set cs \<and> same_addr (ci_ip c) a}"
  by (induction cs arbitrary: out) auto

lemma collect_covered:
  assumes "routes_ok cfg"
  shows "(\<exists>c \<in> set (collect_clients cfg). ci_ip c = b) \<longleftrightarrow> covered cfg b"
proof -
  have "(\<exists>c \<in> set (collect_clients cfg). ci_ip c = b) \<longleftrightarrow>
      b \<in> set (xray_clients cfg) \<or> (\<exists>n \<in> set (keys (cfg_tunnels cfg)). b \<in> set (tunnel_clients cfg n))"
    by (simp add: collect_clients_def bex_Un)
  then show ?thesis unfolding covered_def using tunnel_clients_keys by metis
qed

lemma find_client_covered:
  assumes "routes_ok cfg"
  shows "find_client cfg a = None \<longleftrightarrow> (\<forall>b. covered cfg b \<longrightarrow> addr_key b \<noteq> a)"
  unfolding find_client_none collect_covered [OF assms, symmetric] by blast

lemma set_client_spellings:
  assumes "routes_ok cfg"
  shows "set (client_spellings cfg a) = {b. covered cfg b \<and> addr_key b = a}"
  unfolding client_spellings_def set_spellings collect_covered [OF assms, symmetric]
  by (auto simp: same_addr_key)

lemma tunnel_of_delete:
  "tunnel_of (cfg\<lparr>cfg_xray := x, cfg_tunnels := map (\<lambda>(k, t). (k, f t)) (cfg_tunnels cfg), cfg_paused := p\<rparr>) k
     = map_option f (tunnel_of cfg k)"
  by (simp add: tunnel_of_def map_of_map)

lemma delete_routes:
  assumes "delete_mutation ip cfg = Inr cfg'" and "addr_key ip = ip"
  shows "route_clients cfg' r = without_addr (route_clients cfg r) ip"
    and "cfg_paused cfg' = without_addr (cfg_paused cfg) ip"
    and "keys (cfg_tunnels cfg') = keys (cfg_tunnels cfg)"
    and "failover_of cfg' = map_option (detach_record ip) (failover_of cfg)"
proof -
  let ?d = "cfg\<lparr>cfg_xray := (cfg_xray cfg)\<lparr>x_clients := remove_addr (xray_clients cfg) ip\<rparr>,
      cfg_tunnels := map (\<lambda>(k, t). (k, t\<lparr>tn_clients := remove_addr (tn_clients t) ip\<rparr>)) (cfg_tunnels cfg),
      cfg_paused := remove_addr (cfg_paused cfg) ip\<rparr>"
  have cfg': "cfg' = detach_failover_client ?d ip"
    using assms(1) by (simp add: delete_mutation_def split: if_splits)
  show "route_clients cfg' r = without_addr (route_clients cfg r) ip"
  proof -
    have "route_clients cfg' r = route_clients ?d r" by (simp add: cfg')
    then show ?thesis
      by (cases "tunnel_of cfg r")
        (simp_all add: route_clients_def tunnel_clients_def tunnel_of_delete remove_addr_without assms(2), simp add: without_addr_def)
  qed
  show "cfg_paused cfg' = without_addr (cfg_paused cfg) ip"
    by (simp add: cfg' remove_addr_without assms(2))
  show "keys (cfg_tunnels cfg') = keys (cfg_tunnels cfg)"
    by (simp add: cfg' comp_def case_prod_unfold)
  show "failover_of cfg' = map_option (detach_record ip) (failover_of cfg)" by (simp add: cfg')
qed

lemma add_routes:
  assumes "add_mutation ip route cfg = Inr cfg'"
  shows "route_clients cfg' r = (if r = route then route_clients cfg r @ [ip] else route_clients cfg r)"
    and "cfg_paused cfg' = cfg_paused cfg"
    and "failover_of cfg' = map_option (detach_record ip) (failover_of cfg)"
    and "routes_ok cfg \<Longrightarrow> routes_ok cfg'"
proof -
  have cfg': "cfg' = put_on ip route (detach_failover_client cfg ip)"
    using assms by (simp add: add_mutation_def split: if_splits)
  show "route_clients cfg' r = (if r = route then route_clients cfg r @ [ip] else route_clients cfg r)"
    by (simp add: cfg' route_clients_put_on)
  show "cfg_paused cfg' = cfg_paused cfg" "failover_of cfg' = map_option (detach_record ip) (failover_of cfg)"
    by (simp_all add: cfg')
  assume "routes_ok cfg"
  then have "routes_ok (detach_failover_client cfg ip)" by (simp add: routes_ok_def)
  then show "routes_ok cfg'" unfolding cfg' by (rule routes_ok_steps)
qed


section \<open>Every change of the clients, by the daemon and by the user\<close>

datatype daemon_op = Stage string | Commit | Extend | EnsureStaged | Restore | Reapply failover

fun run_daemon :: "daemon_op \<Rightarrow> vpn_config \<Rightarrow> vpn_config" where
  "run_daemon (Stage k) cfg = stage_xray_clients cfg k"
| "run_daemon Commit cfg = commit_xray_failover cfg"
| "run_daemon Extend cfg = fst (extend_xray_failover cfg)"
| "run_daemon EnsureStaged cfg = ensure_failover_staged cfg"
| "run_daemon Restore cfg = fst (restore_xray_clients cfg)"
| "run_daemon (Reapply fo) cfg = apply_failover_snapshot cfg fo"

text \<open>A snapshot to re-apply is one an undoable configuration recorded, of addresses that are not empty.\<close>

fun sane_op :: "daemon_op \<Rightarrow> bool" where
  "sane_op (Reapply fo) \<longleftrightarrow> sound_record fo \<and> [] \<notin> set (fo_clients fo)"
| "sane_op _ \<longleftrightarrow> True"

datatype user_request = Add string string | Move string string | Pause string | Resume string | Delete string

fun run_request :: "user_request \<Rightarrow> vpn_config \<Rightarrow> answer + vpn_config" where
  "run_request (Add ip route) cfg = add_mutation ip route cfg"
| "run_request (Move ip route) cfg = move_mutation ip route cfg"
| "run_request (Pause ip) cfg = pause_mutation ip cfg"
| "run_request (Resume ip) cfg = resume_mutation ip cfg"
| "run_request (Delete ip) cfg = delete_mutation ip cfg"

fun request_addr :: "user_request \<Rightarrow> string" where
  "request_addr (Add ip _) = ip"
| "request_addr (Move ip _) = ip"
| "request_addr (Pause ip) = ip"
| "request_addr (Resume ip) = ip"
| "request_addr (Delete ip) = ip"

datatype event = Daemon daemon_op | User user_request

inductive change :: "event \<Rightarrow> vpn_config \<Rightarrow> vpn_config \<Rightarrow> bool" where
  by_daemon: "sane_op d \<Longrightarrow> change (Daemon d) cfg (run_daemon d cfg)"
| by_user: "run_request r cfg = Inr cfg' \<Longrightarrow> addr_key (request_addr r) = request_addr r \<Longrightarrow>
     change (User r) cfg cfg'"

inductive changes :: "event list \<Rightarrow> vpn_config \<Rightarrow> vpn_config \<Rightarrow> bool" where
  none: "changes [] cfg cfg"
| more: "change e cfg cfg1 \<Longrightarrow> changes es cfg1 cfg2 \<Longrightarrow> changes (e # es) cfg cfg2"

inductive_simps change_simps: "change (Daemon d) cfg cfg'" "change (User r) cfg cfg'"
inductive_cases changesE: "changes (e # es) cfg cfg'"

lemma run_daemon_funs:
  "run_daemon (Stage k) = (\<lambda>cfg. stage_xray_clients cfg k)" "run_daemon Commit = commit_xray_failover"
  "run_daemon Extend = (\<lambda>cfg. fst (extend_xray_failover cfg))" "run_daemon EnsureStaged = ensure_failover_staged"
  "run_daemon Restore = (\<lambda>cfg. fst (restore_xray_clients cfg))"
  "run_daemon (Reapply fo) = (\<lambda>cfg. apply_failover_snapshot cfg fo)"
  by (rule ext, simp)+

lemma run_daemon_contract: "sane_op d \<Longrightarrow> failover_op (run_daemon d)"
proof (cases d)
  case (Reapply fo)
  assume "sane_op d"
  with Reapply have "sound_record fo" "[] \<notin> set (fo_clients fo)" by simp_all
  then have "[] \<notin> set as" if "fo_added fo = Some as" for as
    using that by (auto simp: sound_record_def)
  with \<open>sound_record fo\<close> show ?thesis unfolding Reapply run_daemon_funs by (rule failover_op_reapply)
qed (simp_all add: run_daemon_funs stage.failover_op_axioms commit.failover_op_axioms
    extend.failover_op_axioms ensure.failover_op_axioms restore.failover_op_axioms)

definition on_route :: "vpn_config \<Rightarrow> string \<Rightarrow> bool" where
  "on_route cfg a \<longleftrightarrow> (\<exists>b. addr_key b = addr_key a \<and> covered cfg b)"

fun deletes :: "string \<Rightarrow> event \<Rightarrow> bool" where
  "deletes a (User (Delete ip)) \<longleftrightarrow> addr_key ip = addr_key a"
| "deletes a _ \<longleftrightarrow> False"

text \<open>The well-formed configurations every change keeps.\<close>

definition well_formed :: "vpn_config \<Rightarrow> bool" where
  "well_formed cfg \<longleftrightarrow> routes_ok cfg \<and> undoable cfg"

lemma on_route_lists:
  "routes_ok cfg \<Longrightarrow> on_route cfg a \<longleftrightarrow> (\<exists>r. lists_addr (route_clients cfg r) a)"
  by (auto simp: on_route_def covered_route_clients lists_addr_def list_ex_iff)

lemma routes_ok_keys: "keys (cfg_tunnels c) = keys (cfg_tunnels d) \<Longrightarrow> routes_ok d \<Longrightarrow> routes_ok c"
  unfolding routes_ok_def by metis

lemma move_mutation_moved: "move_mutation ip route cfg = Inr cfg' \<Longrightarrow>
    cfg' = fst (move_client cfg ip route) \<and> snd (move_client cfg ip route) = ClientMoved"
  by (auto simp: move_mutation_def split: prod.splits move_result.splits)

lemma pause_resume_frame:
  assumes "pause_mutation ip cfg = Inr cfg' \<or> resume_mutation ip cfg = Inr cfg'"
  shows "cfg_tunnels cfg' = cfg_tunnels cfg" "cfg_xray cfg' = cfg_xray cfg"
  using assms by (auto simp: pause_mutation_def resume_mutation_def Let_def split: if_splits)

lemma user_request_keeps:
  assumes run: "run_request r cfg = Inr cfg'" and key: "addr_key (request_addr r) = request_addr r"
    and wf: "well_formed cfg"
  shows "well_formed cfg'"
    and "on_route cfg a \<Longrightarrow> \<not> deletes a (User r) \<Longrightarrow> on_route cfg' a"
proof -
  from wf have ok: "routes_ok cfg" and un: "undoable cfg" by (simp_all add: well_formed_def)
  have "well_formed cfg' \<and> (on_route cfg a \<longrightarrow> \<not> deletes a (User r) \<longrightarrow> on_route cfg' a)"
  proof (cases r)
    case (Add ip route)
    with run have add: "add_mutation ip route cfg = Inr cfg'" by simp
    note f = add_routes [OF add]
    from f(3) un have "undoable cfg'" by (simp add: undoable_def sound_detach split: option.splits)
    moreover have "lists_addr (route_clients cfg r) a \<Longrightarrow> lists_addr (route_clients cfg' r) a" for r
      by (cases "r = route") (simp_all add: f(1))
    ultimately show ?thesis using f(4) [OF ok] ok by (auto simp: well_formed_def on_route_lists)
  next
    case (Move ip route)
    with run have m: "cfg' = fst (move_client cfg ip route)" "snd (move_client cfg ip route) = ClientMoved"
      by (auto dest: move_mutation_moved)
    have "routes_ok cfg'" unfolding m(1) using m(2) ok by (rule move_client_moved)
    moreover have "on_route cfg' a" if "on_route cfg a"
      using that \<open>routes_ok cfg'\<close> client_routes_moved [OF ok m(2), of _ a]
      by (cases "addr_key a = addr_key ip") (auto simp: on_route_lists ok m(1))
    moreover have "undoable cfg'" unfolding m(1) by (rule undoable_move [OF un])
    ultimately show ?thesis by (simp add: well_formed_def)
  next
    case (Delete ip)
    with run key have d: "delete_mutation ip cfg = Inr cfg'" "addr_key ip = ip" by simp_all
    note f = delete_routes [OF d]
    from f(4) un have "undoable cfg'" by (simp add: undoable_def sound_detach split: option.splits)
    with routes_ok_keys [OF f(3) ok] ok show ?thesis
      by (auto simp: well_formed_def on_route_lists f(1) Delete)
  next
    case (Pause ip)
    with run pause_resume_frame [of ip cfg cfg'] wf show ?thesis
      by (auto simp: well_formed_def routes_ok_def undoable_def on_route_def covered_def tunnel_clients_def tunnel_of_def)
  next
    case (Resume ip)
    with run pause_resume_frame [of ip cfg cfg'] wf show ?thesis
      by (auto simp: well_formed_def routes_ok_def undoable_def on_route_def covered_def tunnel_clients_def tunnel_of_def)
  qed
  then show "well_formed cfg'" "on_route cfg a \<Longrightarrow> \<not> deletes a (User r) \<Longrightarrow> on_route cfg' a" by blast+
qed

lemma change_keeps:
  assumes "change e cfg cfg'" and "well_formed cfg"
  shows "well_formed cfg'" and "on_route cfg a \<Longrightarrow> \<not> deletes a e \<Longrightarrow> on_route cfg' a"
proof -
  have "well_formed cfg' \<and> (on_route cfg a \<longrightarrow> \<not> deletes a e \<longrightarrow> on_route cfg' a)"
    using assms(1)
  proof cases
    case (by_daemon d)
    note c = run_daemon_contract [OF by_daemon(3)]
    show ?thesis
      using assms(2) failover_op.keeps_undoable [OF c] failover_op.keeps_covered [OF c]
        routes_ok_keys [OF failover_op.keeps_keys [OF c]]
      by (auto simp: by_daemon(2) well_formed_def on_route_def)
  next
    case (by_user r)
    then show ?thesis using user_request_keeps [OF by_user(2,3) assms(2)] by simp
  qed
  then show "well_formed cfg'" "on_route cfg a \<Longrightarrow> \<not> deletes a e \<Longrightarrow> on_route cfg' a" by blast+
qed

lemma changes_keep:
  assumes "changes es cfg cfg'" and "well_formed cfg"
  shows "well_formed cfg' \<and> (on_route cfg a \<longrightarrow> (\<forall>e \<in> set es. \<not> deletes a e) \<longrightarrow> on_route cfg' a)"
  using assms
proof (induction rule: changes.induct)
  case (more e cfg cfg1 es cfg2)
  with change_keeps [OF more(1)] show ?case by auto
qed simp


section \<open>The properties of the handlers and of every interleaving\<close>

text \<open>
  C8: Whatever the daemon's failover operations and the user's requests do, in any order, a client that
  is on a route stays on one until a request deletes it, and the configuration stays well-formed: its
  routes unambiguous and its failover record one a restore can undo.
\<close>

theorem client_never_lost:
  assumes "changes es cfg cfg'" and "well_formed cfg"
    and "on_route cfg a" and "\<forall>e \<in> set es. \<not> deletes a e"
  shows "on_route cfg' a \<and> well_formed cfg'"
  using changes_keep [OF assms(1,2), of a] assms(3,4) by blast

theorem client_never_lost_witness:
  "on_route (commit_xray_failover (stage_xray_clients example_config ''wgc1'')) ''192.168.1.10''"
proof -
  let ?es = "[Daemon (Stage ''wgc1''), Daemon Commit]"
  let ?fin = "commit_xray_failover (stage_xray_clients example_config ''wgc1'')"
  have "changes ?es example_config ?fin"
    using by_daemon [of "Stage ''wgc1''" example_config]
      by_daemon [of Commit "stage_xray_clients example_config ''wgc1''"]
    by (auto intro!: changes.more [OF _ changes.more [OF _ changes.none]])
  moreover have "well_formed example_config" by code_simp
  moreover have "''192.168.1.10'' \<in> set (xray_clients example_config)" by code_simp
  then have "on_route example_config ''192.168.1.10''" unfolding on_route_def covered_def by blast
  ultimately show ?thesis using client_never_lost [of ?es example_config ?fin "''192.168.1.10''"] by simp
qed


text \<open>
  After a deletion that was saved the address is on no route in any spelling, it is not paused, and
  no failover record brings it back.
\<close>

theorem deleted_client_is_gone:
  assumes "routes_ok cfg" and "client_addr_from_query query = Some ip"
    and "handle_delete_client w query cfg = (cfg', a)" and "a = Done \<or> a = SavedNotApplied"
  shows "\<not> on_route cfg' ip \<and> find_client cfg' ip = None \<and> \<not> lists_addr (cfg_paused cfg') ip \<and>
    (\<forall>fo. failover_of cfg' = Some fo \<longrightarrow> \<not> lists_addr (fo_clients fo) ip)"
proof -
  have key: "addr_key ip = ip" using assms(2) by (rule query_addr_key)
  from assms(2-4) have "delete_mutation ip cfg = Inr cfg'"
    by (auto simp: handle_delete_client_def query_request_def update_and_apply_def delete_mutation_def
        split: sum.splits if_splits)
  note f = delete_routes [OF this key]
  have ok: "routes_ok cfg'" using f(3) assms(1) by (rule routes_ok_keys)
  have none: "\<not> on_route cfg' ip" by (simp add: on_route_lists ok f(1))
  moreover have "find_client cfg' ip = None"
    using none key unfolding find_client_covered [OF ok] on_route_def by metis
  moreover have "\<not> lists_addr (fo_clients fo) ip" if "failover_of cfg' = Some fo" for fo
    using that f(4) by (auto simp: detach_record_def)
  ultimately show ?thesis by (simp add: f(2))
qed

theorem deleted_client_is_gone_witness:
  "\<not> on_route (fst (handle_delete_client \<lparr>locks = True, loads = True, saves = True, applies = False\<rparr>
      ''192.168.1.11/32'' example_config)) ''192.168.1.11''"
proof -
  let ?w = "\<lparr>locks = True, loads = True, saves = True, applies = False\<rparr>"
  let ?h = "handle_delete_client ?w ''192.168.1.11/32'' example_config"
  have s: "snd ?h = SavedNotApplied" and ok: "routes_ok example_config"
    and q: "client_addr_from_query ''192.168.1.11/32'' = Some ''192.168.1.11''" by code_simp+
  from s have "?h = (fst ?h, SavedNotApplied)" by (metis prod.collapse)
  from deleted_client_is_gone [OF ok q this] show ?thesis by blast
qed

text \<open>
  Pausing an address pauses it in every spelling a route stores, and resuming it leaves no paused
  spelling; neither changes a route.
\<close>

theorem pause_then_resume:
  assumes "routes_ok cfg" and "addr_key ip = ip"
    and "pause_mutation ip cfg = Inr paused" and "resume_mutation ip paused = Inr resumed"
  shows "(\<forall>b. covered cfg b \<and> addr_key b = ip \<longrightarrow> is_paused paused b) \<and>
    (\<forall>b. addr_key b = ip \<longrightarrow> \<not> is_paused resumed b) \<and>
    (\<forall>b. addr_key b \<noteq> ip \<longrightarrow> is_paused paused b = is_paused cfg b \<and> is_paused resumed b = is_paused cfg b) \<and>
    (\<forall>b. client_routes resumed b = client_routes cfg b)"
proof -
  have p: "paused = cfg\<lparr>cfg_paused := remove_addr (cfg_paused cfg) ip @ client_spellings cfg ip\<rparr>"
    using assms(3) by (auto simp: pause_mutation_def Let_def split: if_splits)
  have r: "resumed = paused\<lparr>cfg_paused := remove_addr (cfg_paused paused) ip\<rparr>"
    using assms(4) by (auto simp: resume_mutation_def split: if_splits)
  have rt: "routes_ok resumed" using assms(1) by (simp add: p r routes_ok_def)
  have rc: "route_clients resumed = route_clients cfg"
    by (simp add: fun_eq_iff p r route_clients_def tunnel_clients_def tunnel_of_def)
  have "client_routes resumed b = client_routes cfg b" for b
    by (simp add: client_routes_eq [OF rt] client_routes_eq [OF assms(1)] rc) (simp add: p r)
  then show ?thesis
    by (auto simp: p r is_paused_def remove_addr_def same_addr_key set_client_spellings [OF assms(1)])
qed


theorem pause_then_resume_witness:
  "\<exists>paused. pause_mutation ''192.168.1.11'' example_config = Inr paused \<and> is_paused paused ''192.168.1.11/32''"
proof -
  let ?p = "example_config\<lparr>cfg_paused := [''192.168.1.12'', ''192.168.1.11/32'']\<rparr>"
  have h: "routes_ok example_config" "addr_key ''192.168.1.11'' = ''192.168.1.11''"
    "pause_mutation ''192.168.1.11'' example_config = Inr ?p"
    "resume_mutation ''192.168.1.11'' ?p = Inr example_config" by code_simp+
  have "''192.168.1.11/32'' \<in> set (xray_clients example_config)" "addr_key ''192.168.1.11/32'' = ''192.168.1.11''"
    by code_simp+
  with pause_then_resume [OF h] h(3) show ?thesis by (auto simp: covered_def)
qed

end
