(* ===== verification/Sha256.thy ===== *)
theory Sha256
  imports Go_Text "HOL-Library.Word"
begin

unbundle bit_operations_syntax

text \<open>
  SHA-256 (FIPS 180-4), \<^verbatim>\<open>crypto/sha256\<close>, with \<^verbatim>\<open>encoding/hex\<close>: identity marks,
  endpoint keys and server fingerprints are prefixes of its digests.
\<close>

type_synonym u32 = "32 word"

text \<open>
  The constants by the standard's own definition, so there is no table to trust: the first 32 bits of
  the fractional parts of the cube roots of the first 64 primes. An integer root is found bit by bit.
\<close>

definition first_primes :: "nat list" where
  "first_primes = filter (\<lambda>n. list_all (\<lambda>d. n mod d \<noteq> 0) [2..<n]) [2..<312]"

definition int_root :: "nat \<Rightarrow> nat \<Rightarrow> nat" where
  "int_root k n = foldl (\<lambda>r b. if (r + 2 ^ b) ^ k \<le> n then r + 2 ^ b else r) 0 (rev [0..<40])"

definition root_bits :: "nat \<Rightarrow> nat \<Rightarrow> u32" where
  "root_bits k p = word_of_nat (int_root k (p * 2 ^ (32 * k)))"

definition round_constants :: "u32 list" where
  "round_constants = map (root_bits 3) first_primes"

record hash_state =
  ha :: u32
  hb :: u32
  hc :: u32
  hd4 :: u32
  he :: u32
  hf :: u32
  hg :: u32
  hh :: u32

text \<open>The initial value comes from the square roots of the first eight primes in the same way.\<close>

definition initial_hash :: hash_state where
  "initial_hash =
     (let h = (\<lambda>i. root_bits 2 (first_primes ! i)) in
      \<lparr>ha = h 0, hb = h 1, hc = h 2, hd4 = h 3, he = h 4, hf = h 5, hg = h 6, hh = h 7\<rparr>)"

definition rotr :: "nat \<Rightarrow> u32 \<Rightarrow> u32" where
  "rotr n x = (drop_bit n x) OR (push_bit (32 - n) x)"

definition hash_round :: "hash_state \<Rightarrow> u32 \<times> u32 \<Rightarrow> hash_state" where
  "hash_round s kw =
     (let s1 = rotr 6 (he s) XOR rotr 11 (he s) XOR rotr 25 (he s);
          ch = (he s AND hf s) XOR (NOT (he s) AND hg s);
          t1 = hh s + s1 + ch + fst kw + snd kw;
          s0 = rotr 2 (ha s) XOR rotr 13 (ha s) XOR rotr 22 (ha s);
          maj = (ha s AND hb s) XOR (ha s AND hc s) XOR (hb s AND hc s);
          t2 = s0 + maj
      in \<lparr>ha = t1 + t2, hb = ha s, hc = hb s, hd4 = hc s, he = hd4 s + t1, hf = he s, hg = hf s, hh = hg s\<rparr>)"

text \<open>The message schedule, the newest word first.\<close>

fun schedule :: "nat \<Rightarrow> u32 list \<Rightarrow> u32 list" where
  "schedule 0 ws = ws"
| "schedule (Suc n) ws =
     (let w15 = ws ! 14; w2 = ws ! 1;
          s0 = rotr 7 w15 XOR rotr 18 w15 XOR drop_bit 3 w15;
          s1 = rotr 17 w2 XOR rotr 19 w2 XOR drop_bit 10 w2
      in schedule n ((ws ! 15 + s0 + ws ! 6 + s1) # ws))"

fun words_of_bytes :: "nat list \<Rightarrow> u32 list" where
  "words_of_bytes (a # b # c # d # bs) =
     of_nat (((a * 256 + b) * 256 + c) * 256 + d) # words_of_bytes bs"
| "words_of_bytes _ = []"

definition hash_block :: "hash_state \<Rightarrow> nat list \<Rightarrow> hash_state" where
  "hash_block s block =
     (let ws = rev (schedule 48 (rev (words_of_bytes block)));
          t = foldl hash_round s (zip round_constants ws)
      in \<lparr>ha = ha s + ha t, hb = hb s + hb t, hc = hc s + hc t, hd4 = hd4 s + hd4 t,
          he = he s + he t, hf = hf s + hf t, hg = hg s + hg t, hh = hh s + hh t\<rparr>)"

function hash_blocks :: "hash_state \<Rightarrow> nat list \<Rightarrow> hash_state" where
  "hash_blocks s bs =
     (if bs = [] then s else hash_blocks (hash_block s (take 64 bs)) (drop 64 bs))"
  by pat_completeness auto
termination
  by (relation "measure (\<lambda>(s, bs). length bs)") auto

declare hash_blocks.simps [simp del]

definition pad_message :: "string \<Rightarrow> nat list" where
  "pad_message s =
     (let n = length s; l = 8 * n in
      map byte s @ 128 # replicate ((119 - n mod 64) mod 64) 0
      @ map (\<lambda>i. l div 256 ^ i mod 256) [7, 6, 5, 4, 3, 2, 1, 0])"

definition hex_of_nibble :: "nat \<Rightarrow> char" where
  "hex_of_nibble n = char_of (if n < 10 then 48 + n else 87 + n)"

definition hex_word :: "u32 \<Rightarrow> string" where
  "hex_word w = map (\<lambda>i. hex_of_nibble (unat w div 16 ^ i mod 16)) [7, 6, 5, 4, 3, 2, 1, 0]"

text \<open>The digest in lowercase hex, 64 digits.\<close>

definition sha256_hex :: "string \<Rightarrow> string" where
  "sha256_hex m =
     (let s = hash_blocks initial_hash (pad_message m) in
      concat (map hex_word [ha s, hb s, hc s, hd4 s, he s, hf s, hg s, hh s]))"

lemma length_sha256_hex [simp]: "length (sha256_hex m) = 64"
  by (simp add: sha256_hex_def hex_word_def Let_def)

end
