(* ===== verification/Outbound.thy ===== *)
theory Outbound
  imports Config_Model Sha256
begin

text \<open>
  What a stored outbound says of its server (\<^verbatim>\<open>vpnconfig/outbound.go\<close>,
  \<^verbatim>\<open>group.go\<close>, \<^verbatim>\<open>identity.go\<close>): its protocol and label, its group, its two
  identities and the mark made of the looser one, and the pairing of a fresh list with a stored one.
\<close>

section \<open>Reading an outbound\<close>

text \<open>\<^verbatim>\<open>DecodeOutbound\<close>: numbers stay as written; anything but an object is an error.\<close>

definition decode_outbound :: "string \<Rightarrow> (string \<times> json) list option" where
  "decode_outbound raw =
     (case map_option to_maps (decode_first raw) of Some (JObj ob) \<Rightarrow> Some ob | _ \<Rightarrow> None)"

fun as_object :: "json option \<Rightarrow> (string \<times> json) list option" where
  "as_object (Some (JObj m)) = Some m"
| "as_object _ = None"

fun as_text :: "json option \<Rightarrow> string" where
  "as_text (Some (JStr s)) = s"
| "as_text _ = []"

text \<open>\<^verbatim>\<open>OutboundTarget\<close>: the key of the list that holds the target, by protocol.\<close>

definition target_key :: "(string \<times> json) list \<Rightarrow> string" where
  "target_key ob =
     (let p = map_of ob ''protocol'' in
      if p = Some (JStr ''vless'') \<or> p = Some (JStr ''vmess'') then ''vnext''
      else if p = Some (JStr ''trojan'') \<or> p = Some (JStr ''shadowsocks'') then ''servers''
      else [])"

definition outbound_target :: "(string \<times> json) list \<Rightarrow> (string \<times> json) list option" where
  "outbound_target ob =
     (case as_object (map_of ob ''settings'') of
        None \<Rightarrow> None
      | Some settings \<Rightarrow>
          (case map_of settings (target_key ob) of
             Some (JArr (first # _)) \<Rightarrow> as_object (Some first)
           | _ \<Rightarrow> Some settings))"

definition protocol_of :: "server \<Rightarrow> string" where
  "protocol_of s =
     (if sv_outbound s = [] then ''vless''
      else case decode_outbound (sv_outbound s) of
             None \<Rightarrow> []
           | Some ob \<Rightarrow> as_text (map_of ob ''protocol''))"

text \<open>\<open>dot\<close> is the UTF-8 of U+00B7.\<close>

definition dot :: string where
  "dot = [CHR 0xC2, CHR 0xB7]"

definition protocol_label :: "string \<Rightarrow> string \<Rightarrow> string \<Rightarrow> string" where
  "protocol_label protocol network security =
     (if protocol = [] then ''?''
      else if protocol = ''shadowsocks'' then ''ss''
      else if protocol = ''hysteria'' then ''hysteria2''
      else join_with dot
        (protocol #
         (if network \<noteq> [] \<and> network \<noteq> ''tcp'' \<and> network \<noteq> ''raw'' then [network] else [])
         @ (if security \<noteq> [] \<and> security \<noteq> ''none'' then [security] else [])))"

text \<open>
  \<^verbatim>\<open>json.Unmarshal\<close> of an outbound into a struct: the members of the object, none for null.
\<close>

definition struct_members :: "string \<Rightarrow> (string \<times> json) list option" where
  "struct_members raw =
     (case parse_json raw of
        Some (JObj kvs) \<Rightarrow> Some kvs
      | Some JNull \<Rightarrow> Some []
      | _ \<Rightarrow> None)"

definition label_of :: "server \<Rightarrow> string" where
  "label_of s =
     (if sv_outbound s = [] then
        protocol_label ''vless'' (sv_network s) (if sv_security s = [] then ''tls'' else sv_security s)
      else if decode_outbound (sv_outbound s) = None then ''?''
      else case struct_members (sv_outbound s) of
             None \<Rightarrow> ''?''
           | Some kvs \<Rightarrow>
               (case (string_field ''protocol'' kvs [], struct_field ''streamSettings'' kvs) of
                  (Some p, Some ss) \<Rightarrow>
                    (case (string_field ''network'' ss [], string_field ''security'' ss []) of
                       (Some n, Some sec) \<Rightarrow> protocol_label p n sec
                     | _ \<Rightarrow> ''?'')
                | _ \<Rightarrow> ''?''))"

definition group_of :: "server \<Rightarrow> string" where
  "group_of s =
     (if sv_outbound s = [] then []
      else case struct_members (sv_outbound s) of
             None \<Rightarrow> []
           | Some kvs \<Rightarrow>
               (case (string_field ''protocol'' kvs [],
                      Option.bind (struct_field ''streamSettings'' kvs) (\<lambda>ss. string_field ''security'' ss [])) of
                  (Some p, Some sec) \<Rightarrow>
                    if p = [] then []
                    else if to_lower sec = [] \<or> to_lower sec = ''none'' then to_lower p
                    else to_lower p @ ''+'' @ to_lower sec
                | _ \<Rightarrow> []))"

section \<open>Identities\<close>

definition reality_picks :: "string list" where
  "reality_picks = [''serverName'', ''shortId'', ''spiderX'']"

definition upgrade_picks :: "string list" where
  "upgrade_picks = [''host'', ''path'']"

definition drop_keys :: "string list \<Rightarrow> (string \<times> json) list \<Rightarrow> (string \<times> json) list" where
  "drop_keys names obj = filter (\<lambda>kv. \<not> list_ex (equal_fold (fst kv)) names) obj"

text \<open>One entry of wsSettings or httpupgradeSettings without the Host of its headers.\<close>

definition drop_host_entry :: "string \<times> json \<Rightarrow> (string \<times> json) list" where
  "drop_host_entry kv =
     (case snd kv of
        JObj headers \<Rightarrow>
          if equal_fold (fst kv) ''headers'' then
            (let h = drop_keys [''Host''] headers in if h = [] then [] else [(fst kv, JObj h)])
          else [kv]
      | _ \<Rightarrow> [kv])"

definition drop_upgrade_picks :: "(string \<times> json) list \<Rightarrow> (string \<times> json) list" where
  "drop_upgrade_picks settings = concat (map drop_host_entry (drop_keys upgrade_picks settings))"

definition strip_picks :: "bool \<Rightarrow> string \<Rightarrow> json \<Rightarrow> json" where
  "strip_picks loose k v =
     (case v of
        JObj obj \<Rightarrow>
          if equal_fold k ''realitySettings'' then JObj (drop_keys reality_picks obj)
          else if loose \<and> (equal_fold k ''wsSettings'' \<or> equal_fold k ''httpupgradeSettings'')
          then JObj (drop_upgrade_picks obj)
          else v
      | _ \<Rightarrow> v)"

primrec weight :: "json \<Rightarrow> nat" where
  "weight JNull = 1"
| "weight (JBool b) = 1"
| "weight (JNum n) = 1"
| "weight (JStr s) = 1"
| "weight (JArr vs) = Suc (sum_list (map weight vs))"
| "weight (JObj kvs) = Suc (sum_list (map snd (map (map_prod id weight) kvs)))"

lemma weight_obj: "weight (JObj kvs) = Suc (sum_list (map (weight \<circ> snd) kvs))"
  by (simp add: comp_def)

lemma weight_drop_keys: "weight (JObj (drop_keys names kvs)) \<le> weight (JObj kvs)"
  unfolding weight_obj drop_keys_def by (induction kvs) auto

lemma weight_drop_host: "sum_list (map (weight \<circ> snd) (drop_host_entry kv)) \<le> weight (snd kv)"
  using weight_drop_keys
  by (auto simp: drop_host_entry_def Let_def weight_obj simp del: weight.simps(6) split: json.splits)

lemma weight_drop_upgrade: "weight (JObj (drop_upgrade_picks kvs)) \<le> weight (JObj kvs)"
proof -
  have "sum_list (map (weight \<circ> snd) (concat (map drop_host_entry xs))) \<le> sum_list (map (weight \<circ> snd) xs)" for xs
  proof (induction xs)
    case (Cons kv xs)
    then show ?case using weight_drop_host [of kv] by (simp add: comp_def)
  qed simp
  then show ?thesis
    unfolding drop_upgrade_picks_def weight_obj
    using weight_drop_keys [of upgrade_picks kvs] unfolding weight_obj by (meson Suc_le_mono le_trans)
qed

lemma weight_strip: "weight (strip_picks loose k v) \<le> weight v"
  using weight_drop_keys weight_drop_upgrade by (auto simp: strip_picks_def split: json.splits)

lemma weight_member: "(k, v) \<in> set kvs \<Longrightarrow> weight v < weight (JObj kvs)"
proof -
  assume "(k, v) \<in> set kvs"
  then have "weight v \<in> set (map (weight \<circ> snd) kvs)" by force
  then have "weight v \<le> sum_list (map (weight \<circ> snd) kvs)" by (rule member_le_sum_list) simp
  then show ?thesis unfolding weight_obj by simp
qed

lemma weight_elem: "v \<in> set vs \<Longrightarrow> weight v < weight (JArr vs)"
proof -
  assume "v \<in> set vs"
  then have "weight v \<in> set (map weight vs)" by simp
  then have "weight v \<le> sum_list (map weight vs)" by (rule member_le_sum_list) simp
  then show ?thesis by simp
qed

text \<open>\<^verbatim>\<open>dropPicks\<close>: strip an object's picks, then go into what is left of it.\<close>

function drop_picks :: "bool \<Rightarrow> json \<Rightarrow> json" where
  "drop_picks loose v =
     (case v of
        JObj kvs \<Rightarrow> JObj (map (\<lambda>kv. (fst kv, drop_picks loose (strip_picks loose (fst kv) (snd kv)))) kvs)
      | JArr vs \<Rightarrow> JArr (map (drop_picks loose) vs)
      | _ \<Rightarrow> v)"
  by pat_completeness auto
termination
proof (relation "measure (\<lambda>(loose, v). weight v)")
  fix loose v kvs kv
  assume "v = JObj kvs" and "kv \<in> set kvs"
  then have "weight (strip_picks loose (fst kv) (snd kv)) < weight v"
    using weight_strip [of loose "fst kv" "snd kv"] weight_member [of "fst kv" "snd kv" kvs] by simp
  then show "((loose, strip_picks loose (fst kv) (snd kv)), loose, v) \<in> measure (\<lambda>(loose, v). weight v)"
    by simp
qed (use weight_elem in auto)

declare drop_picks.simps [simp del]

text \<open>
  \<^verbatim>\<open>identity\<close>: numbers are decoded as \<^verbatim>\<open>float64\<close>, so one out of range fails the
  decoding, and the rest print in their shortest form.
\<close>

definition number_text :: "string \<Rightarrow> string" where
  "number_text n = (case float_text n of Some t \<Rightarrow> t | None \<Rightarrow> [])"

definition identity :: "bool \<Rightarrow> server \<Rightarrow> string" where
  "identity loose s =
     (if sv_outbound s = [] then []
      else case parse_json (sv_outbound s) of
             Some (JObj kvs) \<Rightarrow>
               if list_ex (\<lambda>n. float_text n = None) (json_numbers (JObj kvs)) then []
               else print_json number_text (drop_picks loose (to_maps (JObj kvs)))
           | _ \<Rightarrow> [])"

definition server_identity :: "server \<Rightarrow> string" where
  "server_identity s = identity False s"

definition loose_identity :: "server \<Rightarrow> string" where
  "loose_identity s = identity True s"

definition identity_mark :: "server \<Rightarrow> string" where
  "identity_mark s =
     (let i = loose_identity s in if i = [] then [] else take 16 (sha256_hex i))"

definition server_fingerprint :: "server \<Rightarrow> string" where
  "server_fingerprint s =
     take 8 (sha256_hex (sv_subscription s @ ''|'' @ sv_name s @ ''|'' @ sv_address s @ ''|'' @ show_int (sv_port s)))"

section \<open>What an identity has left\<close>

text \<open>
  The entry \<open>(k, v)\<close> of an object holds no pick: the specification \<^const>\<open>drop_picks\<close> meets at
  every depth.
\<close>

definition free_of :: "string list \<Rightarrow> (string \<times> json) list \<Rightarrow> bool" where
  "free_of names obj \<longleftrightarrow> (\<forall>k \<in> set (keys obj). \<forall>n \<in> set names. \<not> equal_fold k n)"

definition headers_ok :: "(string \<times> json) list \<Rightarrow> bool" where
  "headers_ok obj \<longleftrightarrow>
     (\<forall>h hs. (h, JObj hs) \<in> set obj \<longrightarrow> equal_fold h ''headers'' \<longrightarrow> hs \<noteq> [] \<and> free_of [''Host''] hs)"

definition pick_free :: "bool \<Rightarrow> string \<Rightarrow> json \<Rightarrow> bool" where
  "pick_free loose k v \<longleftrightarrow>
     (\<forall>obj. v = JObj obj \<longrightarrow>
        (equal_fold k ''realitySettings'' \<longrightarrow> free_of reality_picks obj) \<and>
        (loose \<and> (equal_fold k ''wsSettings'' \<or> equal_fold k ''httpupgradeSettings'') \<longrightarrow>
           free_of upgrade_picks obj \<and> headers_ok obj))"

inductive clean :: "bool \<Rightarrow> json \<Rightarrow> bool" for loose where
  scalar: "(\<nexists>kvs. v = JObj kvs) \<Longrightarrow> (\<nexists>vs. v = JArr vs) \<Longrightarrow> clean loose v"
| array: "(\<And>v. v \<in> set vs \<Longrightarrow> clean loose v) \<Longrightarrow> clean loose (JArr vs)"
| object: "(\<And>k v. (k, v) \<in> set kvs \<Longrightarrow> pick_free loose k v \<and> clean loose v) \<Longrightarrow> clean loose (JObj kvs)"

lemma free_of_keys: "keys a = keys b \<Longrightarrow> free_of names a = free_of names b"
  by (simp only: free_of_def)

lemma free_of_subset: "set (keys a) \<subseteq> set (keys b) \<Longrightarrow> free_of names b \<Longrightarrow> free_of names a"
  unfolding free_of_def by blast

lemma free_of_drop_keys [simp]: "free_of names (drop_keys names obj)"
  by (auto simp: free_of_def drop_keys_def list_ex_iff)

lemma drop_keys_free: "free_of names obj \<Longrightarrow> drop_keys names obj = obj"
  by (auto simp: free_of_def drop_keys_def list_ex_iff intro!: filter_True)

lemma drop_host_entry_cases:
  "(h, v) \<in> set (drop_host_entry kv) \<Longrightarrow> h = fst kv \<and>
     (v = snd kv \<and> \<not> ((\<exists>hs. v = JObj hs) \<and> equal_fold h ''headers'')
      \<or> (\<exists>hs. v = JObj hs \<and> hs \<noteq> [] \<and> free_of [''Host''] hs))"
  by (auto simp: drop_host_entry_def Let_def split: json.splits if_splits)

lemma drop_upgrade_free: "free_of upgrade_picks (drop_upgrade_picks obj)"
proof -
  have "set (keys (drop_upgrade_picks obj)) \<subseteq> set (keys (drop_keys upgrade_picks obj))"
    by (force simp: drop_upgrade_picks_def dest: drop_host_entry_cases)
  then show ?thesis by (rule free_of_subset) simp
qed

lemma drop_upgrade_headers: "headers_ok (drop_upgrade_picks obj)"
  unfolding headers_ok_def
proof (intro allI impI)
  fix h hs
  assume "(h, JObj hs) \<in> set (drop_upgrade_picks obj)" and "equal_fold h ''headers''"
  moreover from this obtain kv where "(h, JObj hs) \<in> set (drop_host_entry kv)"
    by (auto simp: drop_upgrade_picks_def)
  ultimately show "hs \<noteq> [] \<and> free_of [''Host''] hs"
    by (auto dest: drop_host_entry_cases)
qed

lemma drop_upgrade_id: "free_of upgrade_picks obj \<Longrightarrow> headers_ok obj \<Longrightarrow> drop_upgrade_picks obj = obj"
proof -
  assume free: "free_of upgrade_picks obj" and "headers_ok obj"
  then have "drop_host_entry kv = [kv]" if "kv \<in> set obj" for kv
    using that
    by (cases kv) (force simp: drop_host_entry_def headers_ok_def drop_keys_free split: json.splits)
  then have "map drop_host_entry obj = map (\<lambda>kv. [kv]) obj" by simp
  then have "concat (map drop_host_entry obj) = concat (map (\<lambda>kv. [kv]) obj)" by (rule arg_cong)
  then show ?thesis by (simp add: drop_upgrade_picks_def drop_keys_free [OF free])
qed

lemma closed_folds:
  "\<not> equal_fold ''wsSettings'' ''realitySettings''" "\<not> equal_fold ''httpupgradeSettings'' ''realitySettings''"
  "\<not> equal_fold ''headers'' ''realitySettings''" "\<not> equal_fold ''headers'' ''wsSettings''"
  "\<not> equal_fold ''headers'' ''httpupgradeSettings''"
  by code_simp+

lemma fold_distinct:
  "equal_fold k ''realitySettings'' \<Longrightarrow> \<not> equal_fold k ''wsSettings'' \<and> \<not> equal_fold k ''httpupgradeSettings''"
  "equal_fold k ''headers'' \<Longrightarrow> \<not> equal_fold k ''realitySettings'' \<and> \<not> equal_fold k ''wsSettings''
     \<and> \<not> equal_fold k ''httpupgradeSettings''"
  using closed_folds by (meson equal_fold_sym equal_fold_trans)+

lemma pick_free_strip: "pick_free loose k (strip_picks loose k v)"
  using fold_distinct
  by (auto simp: pick_free_def strip_picks_def drop_upgrade_free drop_upgrade_headers split: json.splits)

lemma strip_pick_free: "pick_free loose k v \<Longrightarrow> strip_picks loose k v = v"
  by (auto simp: pick_free_def strip_picks_def drop_keys_free drop_upgrade_id split: json.splits)

lemma drop_picks_obj [simp]:
  "drop_picks loose (JObj kvs) = JObj (map (\<lambda>kv. (fst kv, drop_picks loose (strip_picks loose (fst kv) (snd kv)))) kvs)"
  by (simp add: drop_picks.simps)

lemma drop_picks_arr [simp]: "drop_picks loose (JArr vs) = JArr (map (drop_picks loose) vs)"
  by (simp add: drop_picks.simps)

lemma drop_picks_objD: "drop_picks loose v = JObj hs \<Longrightarrow> \<exists>kvs. v = JObj kvs \<and> keys hs = keys kvs"
  by (cases v) (auto simp: drop_picks.simps)

text \<open>Going into an object keeps its keys, so what \<^const>\<open>strip_picks\<close> took stays away.\<close>

lemma pick_free_drop_picks: "pick_free loose k v \<Longrightarrow> pick_free loose k (drop_picks loose v)"
proof -
  assume pf: "pick_free loose k v"
  have "headers_ok obj \<Longrightarrow> headers_ok
      (map (\<lambda>kv. (fst kv, drop_picks loose (strip_picks loose (fst kv) (snd kv)))) obj)" for obj
    unfolding headers_ok_def
  proof (intro allI impI)
    fix h hs
    assume ok: "\<forall>h hs. (h, JObj hs) \<in> set obj \<longrightarrow> equal_fold h ''headers'' \<longrightarrow> hs \<noteq> [] \<and> free_of [''Host''] hs"
      and mem: "(h, JObj hs) \<in> set (map (\<lambda>kv. (fst kv, drop_picks loose (strip_picks loose (fst kv) (snd kv)))) obj)"
      and fold: "equal_fold h ''headers''"
    from mem obtain w where w: "(h, w) \<in> set obj" and eq: "drop_picks loose (strip_picks loose h w) = JObj hs"
      by force
    have "strip_picks loose h w = w"
      using fold_distinct(2) [OF fold] by (auto simp: strip_picks_def split: json.splits)
    with eq obtain ks where "w = JObj ks" "keys hs = keys ks" by (auto dest: drop_picks_objD)
    with ok w fold show "hs \<noteq> [] \<and> free_of [''Host''] hs" by (force simp: free_of_def)
  qed
  moreover have "free_of names (map (\<lambda>kv. (fst kv, drop_picks loose (strip_picks loose (fst kv) (snd kv)))) obj)
      = free_of names obj" for names obj
    by (rule free_of_keys) (simp add: comp_def)
  ultimately show ?thesis
    using pf by (cases v) (auto simp: pick_free_def drop_picks.simps)
qed

text \<open>Every identity is free of picks at every depth, and dropping them again changes nothing.\<close>

lemma clean_drop_picks: "clean loose (drop_picks loose v)"
proof (induction loose v rule: drop_picks.induct)
  case (1 loose v)
  show ?case
  proof (cases v)
    case (JObj kvs)
    show ?thesis unfolding JObj drop_picks_obj
    proof (rule clean.object)
      fix k w
      assume "(k, w) \<in> set (map (\<lambda>kv. (fst kv, drop_picks loose (strip_picks loose (fst kv) (snd kv)))) kvs)"
      then obtain u where u: "(k, u) \<in> set kvs" and w: "w = drop_picks loose (strip_picks loose k u)"
        by auto
      from "1.IH"(2) [OF JObj u] show "pick_free loose k w \<and> clean loose w"
        unfolding w by (simp add: pick_free_drop_picks pick_free_strip)
    qed
  next
    case (JArr vs)
    show ?thesis unfolding JArr drop_picks_arr
      by (rule clean.array) (use "1.IH"(1) [OF JArr] in auto)
  qed (auto simp: drop_picks.simps intro: clean.scalar)
qed

lemma drop_picks_clean: "clean loose v \<Longrightarrow> drop_picks loose v = v"
proof (induction rule: clean.induct)
  case (scalar v)
  then show ?case by (cases v) (auto simp: drop_picks.simps)
next
  case (array vs)
  then show ?case by (simp add: map_idI)
next
  case (object kvs)
  then have "(fst kv, drop_picks loose (strip_picks loose (fst kv) (snd kv))) = kv" if "kv \<in> set kvs" for kv
    using that by (cases kv) (auto simp: strip_pick_free)
  then show ?case by (simp add: map_idI)
qed

lemma drop_picks_idem: "drop_picks loose (drop_picks loose v) = drop_picks loose v"
  by (rule drop_picks_clean) (rule clean_drop_picks)


section \<open>The property of the identities\<close>

text \<open>
  Dropping the picks leaves none at any depth of the document, for the strict and for the loose
  identity, and is the identity function on documents without picks; so it can be repeated freely.
\<close>

theorem picks_dropped:
  "clean loose (drop_picks loose v) \<and> drop_picks loose (drop_picks loose v) = drop_picks loose v"
  by (simp add: clean_drop_picks drop_picks_idem)

end
