(* ===== verification/Selection.thy ===== *)
theory Selection
  imports Outbound
begin

text \<open>
  The selection record (\<^verbatim>\<open>vpnconfig/vpnconfig.go\<close>): how \<^verbatim>\<open>active_server\<close> and
  \<^verbatim>\<open>preferred_server\<close> are written, and which listed server a record names. The lemmas show
  that a walk of any length keeps the user's choice, and which index a record resolves to.
\<close>

section \<open>Writing the record\<close>

definition new_active_server :: "server \<Rightarrow> active_server" where
  "new_active_server s =
     \<lparr>as_name = sv_name s, as_address = sv_address s, as_port = sv_port s,
      as_subscription = sv_subscription s, as_seq = 0,
      as_identity = identity_mark s, as_group = group_of s\<rparr>"

definition active_seq :: "active_server option \<Rightarrow> int" where
  "active_seq a = (case a of None \<Rightarrow> 0 | Some r \<Rightarrow> as_seq r)"

definition record_active_server :: "active_server option \<Rightarrow> server \<Rightarrow> active_server" where
  "record_active_server prev s = (new_active_server s)\<lparr>as_seq := active_seq prev + 1\<rparr>"

definition same_choice :: "active_server option \<Rightarrow> server \<Rightarrow> bool" where
  "same_choice a s =
     (case a of
        None \<Rightarrow> False
      | Some r \<Rightarrow> as_subscription r = sv_subscription s \<and> as_name r = sv_name s \<and>
          (as_group r = [] \<or> group_of s = as_group r))"

definition same_choice_record :: "active_server option \<Rightarrow> active_server option \<Rightarrow> bool" where
  "same_choice_record a b =
     (case (a, b) of
        (Some r, Some t) \<Rightarrow> as_subscription r = as_subscription t \<and> as_name r = as_name t \<and>
          (as_group r = [] \<or> as_group t = as_group r)
      | _ \<Rightarrow> False)"

definition record_walked_server :: "xray_config \<Rightarrow> server \<Rightarrow> xray_config" where
  "record_walked_server x s =
     (let y = (if x_preferred x \<noteq> None \<and> same_choice (x_preferred x) s
               then x\<lparr>x_preferred := None\<rparr>
               else if x_preferred x = None \<and> x_active x \<noteq> None \<and> \<not> same_choice (x_active x) s
               then x\<lparr>x_preferred := map_option (\<lambda>a. a\<lparr>as_seq := 0\<rparr>) (x_active x)\<rparr>
               else x)
      in y\<lparr>x_active := Some (record_active_server (x_active y) s)\<rparr>)"

section \<open>Finding the recorded server\<close>

definition record_names :: "active_server \<Rightarrow> server \<Rightarrow> bool" where
  "record_names a s \<longleftrightarrow> sv_name s = as_name a \<and> sv_address s = as_address a \<and> sv_port s = as_port a
     \<and> (as_group a = [] \<or> group_of s = as_group a)"

definition mark_agrees :: "active_server \<Rightarrow> server \<Rightarrow> bool" where
  "mark_agrees a s \<longleftrightarrow> as_identity a = [] \<or> identity_mark s = as_identity a"

fun recorded_loop :: "active_server \<Rightarrow> nat \<Rightarrow> nat option \<Rightarrow> server list \<Rightarrow> nat option" where
  "recorded_loop a i first [] = first"
| "recorded_loop a i first (s # ss) =
     (if \<not> record_names a s then recorded_loop a (Suc i) first ss
      else if mark_agrees a s then Some i
      else recorded_loop a (Suc i) (if first = None then Some i else first) ss)"

definition recorded_index :: "active_server option \<Rightarrow> server list \<Rightarrow> nat option" where
  "recorded_index a servers =
     (case a of None \<Rightarrow> None | Some r \<Rightarrow> recorded_loop r 0 None servers)"

section \<open>The choice a walk keeps\<close>

text \<open>
  The server the user chose: \<^verbatim>\<open>preferred_server\<close> where it is set, \<^verbatim>\<open>active_server\<close>
  otherwise. A record without a group knows no kind, so the kind counts once it is known.
\<close>

definition choice_of :: "xray_config \<Rightarrow> active_server option" where
  "choice_of x = (case x_preferred x of Some p \<Rightarrow> Some p | None \<Rightarrow> x_active x)"

definition same_pick :: "active_server \<Rightarrow> active_server \<Rightarrow> bool" where
  "same_pick a b \<longleftrightarrow> as_subscription a = as_subscription b \<and> as_name a = as_name b \<and>
     (as_group a = [] \<or> as_group b = as_group a)"

lemma same_pick_refl [simp]: "same_pick a a"
  by (simp add: same_pick_def)

lemma same_pick_trans: "same_pick a b \<Longrightarrow> same_pick b c \<Longrightarrow> same_pick a c"
  by (auto simp: same_pick_def)

lemma record_active_simps [simp]:
  "as_name (record_active_server p s) = sv_name s"
  "as_address (record_active_server p s) = sv_address s"
  "as_port (record_active_server p s) = sv_port s"
  "as_subscription (record_active_server p s) = sv_subscription s"
  "as_group (record_active_server p s) = group_of s"
  "as_identity (record_active_server p s) = identity_mark s"
  "as_seq (record_active_server p s) = active_seq p + 1"
  by (simp_all add: record_active_server_def new_active_server_def)

lemma same_choice_active: "same_choice (Some a) s \<longleftrightarrow> same_pick a (record_active_server p s)"
  by (auto simp: same_choice_def same_pick_def)

lemma same_choice_record_pick: "same_choice_record (Some a) (Some b) \<longleftrightarrow> same_pick a b"
  by (simp add: same_choice_record_def same_pick_def)

text \<open>One recorded step keeps the choice, and moves the counter by one.\<close>

lemma record_walked_choice:
  assumes "choice_of x = Some c"
  shows "\<exists>d. choice_of (record_walked_server x s) = Some d \<and> same_pick c d"
proof (cases "x_preferred x")
  case None
  with assms show ?thesis
    by (auto simp: choice_of_def record_walked_server_def Let_def same_choice_def same_pick_def)
next
  case (Some p)
  with assms show ?thesis
    by (auto simp: choice_of_def record_walked_server_def Let_def same_choice_def same_pick_def)
qed

lemma record_walked_active:
  "x_active (record_walked_server x s) = Some (record_active_server (x_active x) s)"
  by (simp add: record_walked_server_def Let_def)

lemma record_walked_preferred:
  "x_preferred (record_walked_server x s) = Some p \<Longrightarrow> \<not> same_choice (Some p) s"
  by (auto simp: record_walked_server_def Let_def same_choice_def split: if_splits)

lemma record_walked_frame:
  "x_clients (record_walked_server x s) = x_clients x"
  "x_servers (record_walked_server x s) = x_servers x"
  "x_failover (record_walked_server x s) = x_failover x"
  "x_pending (record_walked_server x s) = x_pending x"
  "x_exclude_sets (record_walked_server x s) = x_exclude_sets x"
  by (simp_all add: record_walked_server_def Let_def)

lemma walk_keeps_pick:
  assumes "choice_of x = Some c"
  shows "\<exists>d. choice_of (foldl record_walked_server x ss) = Some d \<and> same_pick c d"
  using assms
proof (induction ss arbitrary: x c)
  case (Cons s ss)
  then obtain d where d: "choice_of (record_walked_server x s) = Some d" "same_pick c d"
    using record_walked_choice by blast
  with Cons.IH obtain e where "choice_of (foldl record_walked_server (record_walked_server x s) ss) = Some e"
      "same_pick d e" by blast
  with d show ?case by (auto intro: same_pick_trans)
qed auto

lemma walk_seq:
  "active_seq (x_active (foldl record_walked_server x ss)) = active_seq (x_active x) + int (length ss)"
proof (induction ss arbitrary: x)
  case (Cons s ss)
  then show ?case by (simp add: record_walked_active active_seq_def)
qed simp

section \<open>The index a record resolves to\<close>

lemma recorded_loop_first:
  "(\<And>s. s \<in> set ss \<Longrightarrow> \<not> (record_names a s \<and> mark_agrees a s)) \<Longrightarrow>
     recorded_loop a i (Some n) ss = Some n"
  by (induction ss arbitrary: i) auto

lemma recorded_loop_marked:
  assumes "n < length ss" and "record_names a (ss ! n)" and "mark_agrees a (ss ! n)"
    and "\<And>m. m < n \<Longrightarrow> \<not> (record_names a (ss ! m) \<and> mark_agrees a (ss ! m))"
  shows "recorded_loop a i first ss = Some (i + n)"
  using assms
proof (induction ss arbitrary: i first n)
  case (Cons s ss)
  show ?case
  proof (cases n)
    case (Suc m)
    have step: "\<not> (record_names a (ss ! k) \<and> mark_agrees a (ss ! k))" if "k < m" for k
      using Cons.prems(4) [of "Suc k"] that Suc by simp
    have "\<not> (record_names a s \<and> mark_agrees a s)" using Cons.prems(4) [of 0] Suc by simp
    with Cons.IH [OF _ _ _ step] Cons.prems Suc show ?thesis by auto
  qed (use Cons.prems in simp)
qed simp

lemma recorded_loop_unmarked:
  assumes "\<And>s. s \<in> set ss \<Longrightarrow> \<not> (record_names a s \<and> mark_agrees a s)"
  shows "recorded_loop a i None ss =
    (if \<exists>s \<in> set ss. record_names a s
     then Some (i + (LEAST n. n < length ss \<and> record_names a (ss ! n))) else None)"
  using assms
proof (induction ss arbitrary: i)
  case (Cons s ss)
  show ?case
  proof (cases "record_names a s")
    case True
    then have "(LEAST n. n < length (s # ss) \<and> record_names a ((s # ss) ! n)) = 0"
      by (intro Least_equality) simp_all
    with True Cons.prems show ?thesis by (auto simp: recorded_loop_first)
  next
    case False
    have "(LEAST n. n < length (s # ss) \<and> record_names a ((s # ss) ! n))
        = Suc (LEAST n. n < length ss \<and> record_names a (ss ! n))" if "\<exists>t \<in> set ss. record_names a t"
    proof -
      from that obtain n where "n < length ss \<and> record_names a (ss ! n)" by (auto simp: in_set_conv_nth)
      then have "Suc n < length (s # ss) \<and> record_names a ((s # ss) ! Suc n)" by simp
      from Least_Suc [where P = "\<lambda>n. n < length (s # ss) \<and> record_names a ((s # ss) ! n)", OF this] False
      show ?thesis by simp
    qed
    with False Cons show ?thesis by simp
  qed
qed simp

text \<open>What the search returns names the record; a marked server wins wherever one is listed.\<close>

lemma recorded_loop_sound:
  assumes "recorded_loop a i first ss = Some n"
  shows "first = Some n \<or> (i \<le> n \<and> n < i + length ss \<and> record_names a (ss ! (n - i)))"
  using assms
proof (induction ss arbitrary: i first)
  case (Cons s ss)
  show ?case
  proof (cases "record_names a s \<and> mark_agrees a s")
    case True
    with Cons.prems show ?thesis by simp
  next
    case False
    define f where "f = (if record_names a s \<and> first = None then Some i else first)"
    from False Cons.prems have "recorded_loop a (Suc i) f ss = Some n"
      by (auto simp: f_def split: if_splits)
    from Cons.IH [OF this] show ?thesis
    proof
      assume "f = Some n"
      then show ?thesis by (auto simp: f_def split: if_splits)
    next
      assume *: "Suc i \<le> n \<and> n < Suc i + length ss \<and> record_names a (ss ! (n - Suc i))"
      then have "(s # ss) ! (n - i) = ss ! (n - Suc i)" by (simp add: nth_Cons')
      with * show ?thesis by simp
    qed
  qed
qed simp

lemma recorded_index_marked:
  assumes "recorded_index (Some a) servers = Some n"
    and "\<exists>s \<in> set servers. record_names a s \<and> mark_agrees a s"
  shows "mark_agrees a (servers ! n)"
proof -
  define m where "m = (LEAST m. m < length servers \<and> record_names a (servers ! m) \<and> mark_agrees a (servers ! m))"
  from assms(2) obtain k where "k < length servers \<and> record_names a (servers ! k) \<and> mark_agrees a (servers ! k)"
    by (auto simp: in_set_conv_nth)
  then have m: "m < length servers \<and> record_names a (servers ! m) \<and> mark_agrees a (servers ! m)"
    unfolding m_def by (rule LeastI)
  have "\<not> (record_names a (servers ! j) \<and> mark_agrees a (servers ! j))" if "j < m" for j
    using not_less_Least [OF that [unfolded m_def]] that m by simp
  with m have "recorded_loop a 0 None servers = Some (0 + m)" by (intro recorded_loop_marked) auto
  with assms(1) m show ?thesis by (simp add: recorded_index_def)
qed

lemma recorded_index_none:
  "recorded_index (Some a) servers = None \<longleftrightarrow> (\<forall>s \<in> set servers. \<not> record_names a s)"
proof -
  have "recorded_loop a i first ss = None \<longleftrightarrow> first = None \<and> (\<forall>s \<in> set ss. \<not> record_names a s)" for i first ss
    by (induction ss arbitrary: i first) auto
  then show ?thesis by (simp add: recorded_index_def)
qed

text \<open>A record just written finds its own server.\<close>

lemma recorded_index_own:
  assumes "s \<in> set servers"
  shows "\<exists>n < length servers. recorded_index (Some (record_active_server p s)) servers = Some n
    \<and> sv_name (servers ! n) = sv_name s \<and> sv_address (servers ! n) = sv_address s
    \<and> sv_port (servers ! n) = sv_port s
    \<and> (group_of s \<noteq> [] \<longrightarrow> group_of (servers ! n) = group_of s)
    \<and> (identity_mark s \<noteq> [] \<longrightarrow> identity_mark (servers ! n) = identity_mark s)"
proof -
  let ?a = "record_active_server p s"
  have own: "record_names ?a s \<and> mark_agrees ?a s" by (simp add: record_names_def mark_agrees_def)
  with assms have "recorded_index (Some ?a) servers \<noteq> None" by (auto simp: recorded_index_none)
  then obtain n where n: "recorded_index (Some ?a) servers = Some n" by blast
  then have "n < length servers \<and> record_names ?a (servers ! n)"
    using recorded_loop_sound [of ?a 0 None servers n] by (simp add: recorded_index_def)
  moreover have "mark_agrees ?a (servers ! n)"
    using recorded_index_marked [OF n] own assms by blast
  ultimately show ?thesis using n by (auto simp: record_names_def mark_agrees_def)
qed


section \<open>The properties of the record\<close>

text \<open>
  C29: A walk of any length over any servers keeps the user's choice: its subscription and name, and its
  kind once the record knows one; every recorded server moves the write counter by one.
\<close>

theorem walk_keeps_choice:
  assumes "choice_of x = Some c"
  shows "\<exists>d. choice_of (foldl record_walked_server x servers) = Some d \<and>
    as_subscription d = as_subscription c \<and> as_name d = as_name c \<and>
    (as_group c \<noteq> [] \<longrightarrow> as_group d = as_group c) \<and>
    active_seq (x_active (foldl record_walked_server x servers)) = active_seq (x_active x) + int (length servers)"
  using walk_keeps_pick [OF assms, of servers] by (auto simp: walk_seq same_pick_def)

text \<open>
  A record resolves to a server of its list that has its name, address, port and kind, to none
  exactly when the list has no such server, and to one with its mark wherever such a one is listed.
\<close>

theorem recorded_index_correct:
  "case recorded_index (Some a) servers of
     None \<Rightarrow> \<forall>s \<in> set servers. \<not> record_names a s
   | Some n \<Rightarrow> n < length servers \<and> record_names a (servers ! n) \<and>
       ((\<exists>s \<in> set servers. record_names a s \<and> mark_agrees a s) \<longrightarrow> mark_agrees a (servers ! n))"
  using recorded_index_none [of a servers] recorded_index_marked [of a servers]
    recorded_loop_sound [of a 0 None servers]
  by (auto simp: recorded_index_def split: option.splits)


theorem walk_keeps_choice_witness:
  "\<exists>d. choice_of (foldl record_walked_server
      (example_xray\<lparr>x_active := Some (new_active_server (plain_server ''A'' ''a.example'' 443 [] []))\<rparr>)
      [plain_server ''B'' ''b.example'' 443 [] [], plain_server ''C'' ''c.example'' 443 [] []]) = Some d
    \<and> as_name d = ''A''"
proof -
  let ?a = "new_active_server (plain_server ''A'' ''a.example'' 443 [] [])"
  have "choice_of (example_xray\<lparr>x_active := Some ?a\<rparr>) = Some ?a"
    by (simp add: choice_of_def example_xray_def)
  moreover have "as_name ?a = ''A''" by (simp add: new_active_server_def plain_server_def)
  ultimately show ?thesis
    using walk_keeps_choice [of "example_xray\<lparr>x_active := Some ?a\<rparr>" ?a
      "[plain_server ''B'' ''b.example'' 443 [] [], plain_server ''C'' ''c.example'' 443 [] []]"]
    by (metis (no_types))
qed

text \<open>The second of two servers of one name, which is the one the record's address names.\<close>

theorem recorded_index_correct_witness:
  "let a = new_active_server (plain_server ''B'' ''b.example'' 443 [] []);
       servers = [plain_server ''A'' ''a.example'' 443 [] [], plain_server ''B'' ''b.example'' 443 [] []] in
     \<exists>n. recorded_index (Some a) servers = Some n \<and> n < length servers \<and> record_names a (servers ! n)"
proof -
  let ?b = "plain_server ''B'' ''b.example'' 443 [] []"
  let ?a = "new_active_server ?b"
  let ?servers = "[plain_server ''A'' ''a.example'' 443 [] [], ?b]"
  have "record_names ?a ?b" by (simp add: record_names_def new_active_server_def plain_server_def)
  then show ?thesis
    using recorded_index_correct [where a = ?a and servers = ?servers] by (auto simp: Let_def split: option.splits)
qed

end
