(* ===== verification/Pairing.thy ===== *)
theory Pairing
  imports Outbound
begin

text \<open>
  \<^verbatim>\<open>pairServers\<close> (\<^verbatim>\<open>vpnconfig/identity.go\<close>): which stored server each server of a fresh list
  is. The index -1 of the code is \<^const>\<open>None\<close>.
\<close>

section \<open>The strict pass\<close>

text \<open>The queues of stored indices by identity, and their consumption in fresh order.\<close>

definition strict_queues :: "server list \<Rightarrow> string \<Rightarrow> nat list" where
  "strict_queues stored i =
     (if i = [] then [] else filter (\<lambda>j. server_identity (stored ! j) = i) [0..<length stored])"

fun strict_pass :: "(string \<Rightarrow> nat list) \<Rightarrow> server list \<Rightarrow> nat option list" where
  "strict_pass q [] = []"
| "strict_pass q (f # fs) =
     (let i = server_identity f in
      case (if i = [] then [] else q i) of
        [] \<Rightarrow> None # strict_pass q fs
      | j # js \<Rightarrow> Some j # strict_pass (q(i := js)) fs)"

section \<open>The loose pass\<close>

text \<open>Names the strict pass left unpaired, of servers with an identity.\<close>

definition left_names :: "server list \<Rightarrow> nat option list \<Rightarrow> string set" where
  "left_names fresh pairs =
     set (map (sv_name \<circ> fst)
       (filter (\<lambda>(f, p). p = None \<and> server_identity f \<noteq> []) (zip fresh pairs)))"

definition holders :: "string set \<Rightarrow> server list \<Rightarrow> string \<times> string \<Rightarrow> nat list" where
  "holders left servers key =
     filter (\<lambda>i. sv_name (servers ! i) \<in> left \<and> loose_identity (servers ! i) \<noteq> [] \<and>
                 (sv_name (servers ! i), loose_identity (servers ! i)) = key)
       [0..<length servers]"

definition loose_key :: "server \<Rightarrow> string \<times> string" where
  "loose_key s = (sv_name s, loose_identity s)"

definition loose_pair ::
  "server list \<Rightarrow> server list \<Rightarrow> string set \<Rightarrow> nat option list \<Rightarrow> nat \<Rightarrow> nat option" where
  "loose_pair stored fresh left pairs i =
     (case pairs ! i of
        Some j \<Rightarrow> Some j
      | None \<Rightarrow>
          if holders left fresh (loose_key (fresh ! i)) = [i] then
            (case holders left stored (loose_key (fresh ! i)) of
               [j] \<Rightarrow> if Some j \<in> set pairs then None else Some j
             | _ \<Rightarrow> None)
          else None)"

definition pair_servers :: "server list \<Rightarrow> server list \<Rightarrow> nat option list" where
  "pair_servers stored fresh =
     (let pairs = strict_pass (strict_queues stored) fresh;
          left = left_names fresh pairs
      in if left = {} then pairs
         else map (loose_pair stored fresh left pairs) [0..<length fresh])"

section \<open>What a pairing is\<close>

lemma strict_pass_skip:
  "server_identity f = [] \<or> q (server_identity f) = [] \<Longrightarrow> strict_pass q (f # fs) = None # strict_pass q fs"
  by (auto simp: Let_def)

lemma strict_pass_take:
  "server_identity f \<noteq> [] \<Longrightarrow> q (server_identity f) = j # js \<Longrightarrow>
     strict_pass q (f # fs) = Some j # strict_pass (q(server_identity f := js)) fs"
  by (simp add: Let_def)

declare strict_pass.simps(2) [simp del]

lemma strict_pass_cases:
  obtains (skip) "server_identity f = [] \<or> q (server_identity f) = []"
      "strict_pass q (f # fs) = None # strict_pass q fs"
  | (take) j js where "server_identity f \<noteq> []" "q (server_identity f) = j # js"
      "strict_pass q (f # fs) = Some j # strict_pass (q(server_identity f := js)) fs"
  using strict_pass_skip strict_pass_take by (metis list.exhaust)

lemma length_strict_pass [simp]: "length (strict_pass q fs) = length fs"
proof (induction fs arbitrary: q)
  case (Cons f fs)
  then show ?case by (cases rule: strict_pass_cases [of f q fs]) simp_all
qed simp

lemma length_pair_servers [simp]: "length (pair_servers stored fresh) = length fresh"
  by (simp add: pair_servers_def Let_def)

text \<open>Queues over disjoint index sets, as the strict pass keeps them.\<close>

definition queues_ok :: "server list \<Rightarrow> (string \<Rightarrow> nat list) \<Rightarrow> bool" where
  "queues_ok stored q \<longleftrightarrow>
     (\<forall>i. distinct (q i) \<and> (\<forall>j \<in> set (q i). j < length stored \<and> server_identity (stored ! j) = i \<and> i \<noteq> []))"

lemma queues_ok_init: "queues_ok stored (strict_queues stored)"
  by (auto simp: queues_ok_def strict_queues_def)

lemma queues_okD:
  assumes "queues_ok stored q" and "q i = j # js"
  shows "j < length stored" and "server_identity (stored ! j) = i" and "j \<notin> set js"
    and "queues_ok stored (q(i := js))"
proof -
  from assms have i: "distinct (j # js)"
      "\<forall>k \<in> set (j # js). k < length stored \<and> server_identity (stored ! k) = i \<and> i \<noteq> []"
    unfolding queues_ok_def by metis+
  then show "j < length stored" "server_identity (stored ! j) = i" "j \<notin> set js" by simp_all
  from assms(1) i show "queues_ok stored (q(i := js))" by (simp add: queues_ok_def)
qed

lemma strict_pass_sound:
  assumes "queues_ok stored q" and "n < length fs" and "strict_pass q fs ! n = Some j"
  shows "j < length stored \<and> server_identity (stored ! j) = server_identity (fs ! n)
    \<and> server_identity (fs ! n) \<noteq> []"
  using assms
proof (induction fs arbitrary: q n)
  case Nil
  then show ?case by simp
next
  case (Cons f fs)
  show ?case
  proof (cases rule: strict_pass_cases [of f q fs])
    case skip
    with Cons show ?thesis by (cases n) simp_all
  next
    case (take k ks)
    with Cons queues_okD [OF Cons.prems(1) take(2)] show ?thesis by (cases n) simp_all
  qed
qed

text \<open>An index that left its queue is not handed out again.\<close>

lemma strict_pass_members: "Some j \<in> set (strict_pass q fs) \<Longrightarrow> \<exists>i. j \<in> set (q i)"
proof (induction fs arbitrary: q)
  case (Cons f fs)
  show ?case
  proof (cases rule: strict_pass_cases [of f q fs])
    case skip
    with Cons show ?thesis by simp
  next
    case (take k ks)
    show ?thesis
    proof (cases "j = k")
      case True
      with take(2) show ?thesis by (metis list.set_intros(1))
    next
      case False
      with take Cons.prems have "Some j \<in> set (strict_pass (q(server_identity f := ks)) fs)" by simp
      with Cons.IH obtain i where "j \<in> set ((q(server_identity f := ks)) i)" by blast
      with take(2) show ?thesis by (metis fun_upd_apply list.set_intros(2))
    qed
  qed
qed simp

definition somes :: "'a option list \<Rightarrow> 'a list" where
  "somes ps = map the (filter (\<lambda>p. p \<noteq> None) ps)"

lemma somes_simps [simp]: "somes [] = []" "somes (None # ps) = somes ps" "somes (Some x # ps) = x # somes ps"
  by (simp_all add: somes_def)

lemma set_somes: "x \<in> set (somes ps) \<longleftrightarrow> Some x \<in> set ps"
proof (induction ps)
  case (Cons p ps)
  then show ?case by (cases p) auto
qed simp

lemma strict_pass_distinct: "queues_ok stored q \<Longrightarrow> distinct (somes (strict_pass q fs))"
proof (induction fs arbitrary: q)
  case (Cons f fs)
  show ?case
  proof (cases rule: strict_pass_cases [of f q fs])
    case skip
    with Cons show ?thesis by simp
  next
    case (take k ks)
    note ok = queues_okD [OF Cons.prems take(2)]
    have "k \<notin> set (somes (strict_pass (q(server_identity f := ks)) fs))"
    proof
      assume "k \<in> set (somes (strict_pass (q(server_identity f := ks)) fs))"
      then obtain i where i: "k \<in> set ((q(server_identity f := ks)) i)"
        using strict_pass_members [of k "q(server_identity f := ks)" fs]
        by (auto simp: set_somes simp del: fun_upd_apply)
      with ok(4) have "server_identity (stored ! k) = i" unfolding queues_ok_def by blast
      with ok i show False by simp
    qed
    with Cons.IH [OF ok(4)] show ?thesis by (simp only: take(3) somes_simps distinct.simps simp_thms)
  qed
qed simp

section \<open>The whole pairing\<close>

lemma somes_inj:
  "distinct (somes ps) \<Longrightarrow> i < length ps \<Longrightarrow> k < length ps \<Longrightarrow> ps ! i = Some j \<Longrightarrow> ps ! k = Some j \<Longrightarrow> i = k"
proof (induction ps arbitrary: i k)
  case (Cons p ps)
  show ?case
  proof (cases p)
    case None
    with Cons show ?thesis by (cases i; cases k) simp_all
  next
    case (Some x)
    with Cons.prems have "Some x \<notin> set ps" by (simp add: set_somes)
    with Some Cons show ?thesis
      by (cases i; cases k) (auto dest: nth_mem)
  qed
qed simp

lemma nth_pair_servers:
  assumes "i < length fresh"
  shows "pair_servers stored fresh ! i =
    (let pairs = strict_pass (strict_queues stored) fresh; left = left_names fresh pairs
     in if left = {} then pairs ! i else loose_pair stored fresh left pairs i)"
  using assms by (simp add: pair_servers_def Let_def)

lemma holders_single:
  assumes "holders left servers key = [i]"
  shows "i < length servers" and "loose_key (servers ! i) = key" and "snd key \<noteq> []"
    and "k < length servers \<Longrightarrow> loose_key (servers ! k) = key \<Longrightarrow> k = i"
proof -
  have mem: "k \<in> set (holders left servers key) \<longleftrightarrow> k < length servers \<and> sv_name (servers ! k) \<in> left
      \<and> loose_identity (servers ! k) \<noteq> [] \<and> loose_key (servers ! k) = key" for k
    by (auto simp: holders_def loose_key_def)
  from mem [of i] assms show i: "i < length servers" "loose_key (servers ! i) = key" "snd key \<noteq> []"
    by (auto simp: loose_key_def)
  from mem [of i] assms have "fst key \<in> left" by (auto simp: loose_key_def)
  with i(3) show "k < length servers \<Longrightarrow> loose_key (servers ! k) = key \<Longrightarrow> k = i"
    using mem [of k] assms by (auto simp: loose_key_def)
qed

text \<open>A pair: by the strict pass, or by a name and loose identity that each list has once.\<close>

lemma pair_servers_cases:
  assumes "i < length fresh" and "pair_servers stored fresh ! i = Some j"
  obtains (strict) "strict_pass (strict_queues stored) fresh ! i = Some j"
  | (loose) "strict_pass (strict_queues stored) fresh ! i = None"
      "Some j \<notin> set (strict_pass (strict_queues stored) fresh)"
      "j < length stored" "loose_key (stored ! j) = loose_key (fresh ! i)" "loose_identity (fresh ! i) \<noteq> []"
      "\<And>k. k < length stored \<Longrightarrow> loose_key (stored ! k) = loose_key (fresh ! i) \<Longrightarrow> k = j"
      "\<And>k. k < length fresh \<Longrightarrow> loose_key (fresh ! k) = loose_key (fresh ! i) \<Longrightarrow> k = i"
proof -
  let ?pairs = "strict_pass (strict_queues stored) fresh"
  let ?left = "left_names fresh ?pairs"
  let ?key = "loose_key (fresh ! i)"
  consider "?pairs ! i = Some j"
    | "?pairs ! i = None" "holders ?left fresh ?key = [i]" "holders ?left stored ?key = [j]" "Some j \<notin> set ?pairs"
    using assms by (auto simp: nth_pair_servers loose_pair_def Let_def split: option.splits if_splits list.splits)
  then show ?thesis
  proof cases
    case 1
    then show ?thesis by (rule strict)
  next
    case 2
    note f = holders_single [OF 2(2)] and s = holders_single [OF 2(3)]
    have "loose_identity (fresh ! i) \<noteq> []" using f(3) by (simp add: loose_key_def)
    from loose [OF 2(1) 2(4) s(1) s(2) this s(4) f(4)] show ?thesis .
  qed
qed

lemma pair_servers_bound:
  assumes "i < length fresh" "pair_servers stored fresh ! i = Some j"
  shows "j < length stored"
  using assms
proof (cases rule: pair_servers_cases)
  case strict
  with strict_pass_sound [OF queues_ok_init assms(1)] show ?thesis by blast
qed

text \<open>No stored server is the pair of two fresh ones.\<close>

lemma pair_servers_inj:
  assumes "i < length fresh" "k < length fresh"
    and "pair_servers stored fresh ! i = Some j" "pair_servers stored fresh ! k = Some j"
  shows "i = k"
proof -
  let ?pairs = "strict_pass (strict_queues stored) fresh"
  have uniq: "i = k" if "?pairs ! i = Some j" "?pairs ! k = Some j"
    using somes_inj [OF strict_pass_distinct [OF queues_ok_init]] that assms by simp
  have mem: "?pairs ! n = Some j \<Longrightarrow> n < length fresh \<Longrightarrow> Some j \<in> set ?pairs" for n
    by (metis length_strict_pass nth_mem)
  show ?thesis
    using assms(1,3)
  proof (cases rule: pair_servers_cases)
    case strict
    from assms(2,4) show ?thesis
    proof (cases rule: pair_servers_cases)
      case loose
      with strict mem [of i] assms(1) show ?thesis by blast
    next
      assume "?pairs ! k = Some j"
      with strict show ?thesis by (rule uniq)
    qed
  next
    case loose
    note i_loose = loose
    from assms(2,4) show ?thesis
    proof (cases rule: pair_servers_cases)
      case strict
      with i_loose mem [of k] assms(2) show ?thesis by blast
    next
      case loose
      from i_loose(4) loose(4) have "loose_key (fresh ! k) = loose_key (fresh ! i)" by (simp only:)
      then show ?thesis using i_loose(7) [OF assms(2)] by (simp only:)
    qed
  qed
qed

lemma pair_servers_distinct: "distinct (somes (pair_servers stored fresh))"
proof -
  have *: "distinct (somes ps)"
    if "\<And>i k j. i < length ps \<Longrightarrow> k < length ps \<Longrightarrow> ps ! i = Some j \<Longrightarrow> ps ! k = Some j \<Longrightarrow> i = k"
    for ps :: "nat option list"
    using that
  proof (induction ps)
    case (Cons p ps)
    have tl: "distinct (somes ps)"
      by (rule Cons.IH) (metis Cons.prems Suc_less_eq Suc_inject length_Cons nth_Cons_Suc)
    show ?case
    proof (cases p)
      case (Some x)
      have "Some x \<notin> set ps"
      proof
        assume "Some x \<in> set ps"
        then obtain n where "n < length ps" "ps ! n = Some x" by (auto simp: in_set_conv_nth)
        with Cons.prems [of 0 "Suc n" x] Some show False by simp
      qed
      with tl Some show ?thesis by (simp add: set_somes)
    qed (use tl in simp)
  qed simp
  show ?thesis by (rule *) (metis length_pair_servers pair_servers_inj)
qed


section \<open>The property of the pairing\<close>

text \<open>
  C32: The pairing is a partial injection: one entry per fresh server, each naming a stored server, no
  stored server twice, and a pair agrees in its strict identity or in its name and loose identity, which
  are then unique in either list.
\<close>

theorem pairing_sound:
  assumes "i < length fresh" and "pair_servers stored fresh ! i = Some j"
  shows "j < length stored \<and> (\<forall>k < length fresh. pair_servers stored fresh ! k = Some j \<longrightarrow> k = i) \<and>
    (server_identity (stored ! j) = server_identity (fresh ! i) \<and> server_identity (fresh ! i) \<noteq> [] \<or>
     loose_key (stored ! j) = loose_key (fresh ! i) \<and> loose_identity (fresh ! i) \<noteq> [] \<and>
     (\<forall>k < length stored. loose_key (stored ! k) = loose_key (fresh ! i) \<longrightarrow> k = j) \<and>
     (\<forall>k < length fresh. loose_key (fresh ! k) = loose_key (fresh ! i) \<longrightarrow> k = i))"
  using assms(1) assms(2)
proof (cases rule: pair_servers_cases)
  case strict
  with strict_pass_sound [OF queues_ok_init assms(1)] pair_servers_bound [OF assms] pair_servers_inj [OF _ assms(1) _ assms(2)]
  show ?thesis by blast
next
  case loose
  with pair_servers_bound [OF assms] pair_servers_inj [OF _ assms(1) _ assms(2)] show ?thesis by blast
qed


theorem pairing_sound_witness:
  "pair_servers [plain_server ''A'' ''a.example'' 443 [] ''{\"protocol\":\"vless\"}'']
     [plain_server ''B'' ''a.example'' 443 [] ''{\"protocol\":\"vless\"}''] ! 0 = Some 0 \<and> (0 :: nat) < 1"
proof -
  let ?stored = "[plain_server ''A'' ''a.example'' 443 [] ''{\"protocol\":\"vless\"}'']"
  let ?fresh = "[plain_server ''B'' ''a.example'' 443 [] ''{\"protocol\":\"vless\"}'']"
  have p: "pair_servers ?stored ?fresh ! 0 = Some 0" by code_simp
  have "0 < length ?fresh" by simp
  from pairing_sound [OF this p] p show ?thesis by simp
qed

end
