(* ===== verification/Substore.thy ===== *)
theory Substore
  imports Outbound
begin

text \<open>
  The subscription files (\<^verbatim>\<open>vpnconfig/substore.go\<close>): their names and ids, the order they load
  in, the cache of parsed files, and the list of addresses that \<^verbatim>\<open>xray.servers\<close> is computed
  from. A directory is the list of its entries as \<^verbatim>\<open>os.ReadDir\<close> gives them; the JSON decoder of
  a file is the argument \<open>parse\<close>, as it is in the code. The lemmas show that the default name is
  found after at most two more tries than there are subscriptions and is free, and that the cache
  answers what a reader without one would.
\<close>

section \<open>Subscriptions\<close>

record subscription =
  sub_id :: string
  sub_name :: string
  sub_url :: string
  sub_added :: int
  sub_refreshed :: int
  sub_error :: string
  sub_servers :: "server list"

definition max_subscriptions :: nat where
  "max_subscriptions = 10"

definition max_subscription_name :: nat where
  "max_subscription_name = 32"

definition static_list :: "subscription \<Rightarrow> bool" where
  "static_list s \<longleftrightarrow> sub_url s = []"

definition valid_subscription_id :: "string \<Rightarrow> bool" where
  "valid_subscription_id i \<longleftrightarrow> length i = 8 \<and>
     list_all (\<lambda>c. \<not> ((byte c < 48 \<or> 57 < byte c) \<and> (byte c < 97 \<or> 102 < byte c))) i"

section \<open>The order of the list\<close>

text \<open>The sort key: by Added, then by id.\<close>

datatype store_key = Store_Key (key_added: int) (key_id: string)

instantiation store_key :: linorder
begin

definition less_eq_store_key :: "store_key \<Rightarrow> store_key \<Rightarrow> bool" where
  "a \<le> b \<longleftrightarrow> key_added a < key_added b \<or> (key_added a = key_added b \<and> key_id a \<le> key_id b)"

definition less_store_key :: "store_key \<Rightarrow> store_key \<Rightarrow> bool" where
  "a < b \<longleftrightarrow> key_added a < key_added b \<or> (key_added a = key_added b \<and> key_id a < key_id b)"

instance
proof
  fix x y z :: store_key
  show "x < y \<longleftrightarrow> x \<le> y \<and> \<not> y \<le> x"
    unfolding less_store_key_def less_eq_store_key_def by auto
  show "x \<le> x" unfolding less_eq_store_key_def by simp
  show "x \<le> y \<Longrightarrow> y \<le> z \<Longrightarrow> x \<le> z" unfolding less_eq_store_key_def by auto
  show "x \<le> y \<Longrightarrow> y \<le> x \<Longrightarrow> x = y"
    by (cases x; cases y) (auto simp: less_eq_store_key_def)
  show "x \<le> y \<or> y \<le> x" unfolding less_eq_store_key_def by auto
qed

end

definition sub_key :: "subscription \<Rightarrow> store_key" where
  "sub_key s = Store_Key (sub_added s) (sub_id s)"

definition tag_servers :: "string \<Rightarrow> server list \<Rightarrow> server list" where
  "tag_servers i = map (\<lambda>s. s\<lparr>sv_subscription := i\<rparr>)"

section \<open>Reading a directory\<close>

text \<open>What reading a file gives, and what \<^verbatim>\<open>os.Stat\<close> gives.\<close>

datatype file_read = Bytes string | Missing | Unreadable

record file_info =
  fi_inode :: nat
  fi_size :: nat
  fi_mtime :: int
  fi_regular :: bool

datatype file_stat = Stat file_info | StatMissing | StatFails

record dir_entry =
  de_name :: string
  de_is_dir :: bool
  de_stat :: file_stat
  de_read :: file_read

text \<open>\<^verbatim>\<open>loadSubscription\<close>: the record, and whether the read failed, gone or unreadable.\<close>

datatype load_error = NoError | NotExist | ReadError

definition load_subscription ::
  "(string \<Rightarrow> subscription option) \<Rightarrow> dir_entry \<Rightarrow> string \<Rightarrow> subscription option \<times> load_error" where
  "load_subscription parse e i =
     (case de_read e of
        Missing \<Rightarrow> (None, NotExist)
      | Unreadable \<Rightarrow> (None, ReadError)
      | Bytes data \<Rightarrow>
          (case parse data of
             None \<Rightarrow> (None, NoError)
           | Some sub \<Rightarrow>
               if sub_id sub \<noteq> i then (None, NoError)
               else (Some (sub\<lparr>sub_servers := tag_servers i (sub_servers sub)\<rparr>), NoError)))"

text \<open>The id an entry is read under, if it is a subscription file at all.\<close>

definition entry_id :: "dir_entry \<Rightarrow> string option" where
  "entry_id e =
     (if has_suffix (de_name e) ''.json'' \<and> valid_subscription_id (trim_suffix (de_name e) ''.json'')
         \<and> \<not> de_is_dir e
      then Some (trim_suffix (de_name e) ''.json'') else None)"

definition collect_subscriptions :: "(dir_entry \<Rightarrow> string \<Rightarrow> subscription option) \<Rightarrow> dir_entry list \<Rightarrow> subscription list" where
  "collect_subscriptions load dir =
     sort_key sub_key
       (List.map_filter (\<lambda>e. case entry_id e of None \<Rightarrow> None | Some i \<Rightarrow> load e i) dir)"

text \<open>\<^verbatim>\<open>LoadSubscriptions\<close>: a missing directory is the empty one.\<close>

definition load_subscriptions :: "(string \<Rightarrow> subscription option) \<Rightarrow> dir_entry list \<Rightarrow> subscription list" where
  "load_subscriptions parse dir = collect_subscriptions (\<lambda>e i. fst (load_subscription parse e i)) dir"

section \<open>The cache\<close>

type_synonym cache = "(string \<times> file_info \<times> subscription option) list"

text \<open>
  One file through the cache: the record, its entry in the next cache, and whether the load failed.
  A file that is not regular is cached whatever its read gave.
\<close>

definition read_fresh ::
  "(string \<Rightarrow> subscription option) \<Rightarrow> dir_entry \<Rightarrow> string \<Rightarrow> file_info \<Rightarrow>
     subscription option \<times> (file_info \<times> subscription option) option \<times> bool" where
  "read_fresh parse e i info =
     (case load_subscription parse e i of
        (sub, NotExist) \<Rightarrow> (None, None, False)
      | (sub, ReadError) \<Rightarrow> if fi_regular info then (None, None, True) else (sub, Some (info, sub), False)
      | (sub, NoError) \<Rightarrow> (sub, Some (info, sub), False))"

definition same_file :: "file_info \<Rightarrow> file_info \<Rightarrow> bool" where
  "same_file a b \<longleftrightarrow> fi_inode a = fi_inode b \<and> fi_size a = fi_size b \<and> fi_mtime a = fi_mtime b"

definition cached_load ::
  "(string \<Rightarrow> subscription option) \<Rightarrow> cache \<Rightarrow> dir_entry \<Rightarrow> string \<Rightarrow>
     subscription option \<times> (file_info \<times> subscription option) option \<times> bool" where
  "cached_load parse files e i =
     (case de_stat e of
        StatMissing \<Rightarrow> (None, None, False)
      | StatFails \<Rightarrow> (None, None, True)
      | Stat info \<Rightarrow>
          (case map_of files (de_name e) of
             Some (prev, sub) \<Rightarrow>
               if same_file info prev then (sub, Some (prev, sub), False) else read_fresh parse e i info
           | None \<Rightarrow> read_fresh parse e i info))"

text \<open>The entries a load keeps, and whether any file failed it.\<close>

definition next_cache :: "(string \<Rightarrow> subscription option) \<Rightarrow> cache \<Rightarrow> dir_entry list \<Rightarrow> cache" where
  "next_cache parse files dir =
     List.map_filter (\<lambda>e. case entry_id e of
        None \<Rightarrow> None
      | Some i \<Rightarrow> map_option (Pair (de_name e)) (fst (snd (cached_load parse files e i)))) dir"

definition load_failed :: "(string \<Rightarrow> subscription option) \<Rightarrow> cache \<Rightarrow> dir_entry list \<Rightarrow> bool" where
  "load_failed parse files dir \<longleftrightarrow>
     list_ex (\<lambda>e. case entry_id e of None \<Rightarrow> False | Some i \<Rightarrow> snd (snd (cached_load parse files e i))) dir"

definition cache_load ::
  "(string \<Rightarrow> subscription option) \<Rightarrow> cache \<Rightarrow> dir_entry list \<Rightarrow> subscription list option \<times> cache" where
  "cache_load parse files dir =
     (if load_failed parse files dir then None
      else Some (collect_subscriptions (\<lambda>e i. fst (cached_load parse files e i)) dir),
      next_cache parse files dir)"

section \<open>Names\<close>

definition is_control :: "nat \<Rightarrow> bool" where
  "is_control r \<longleftrightarrow> r < 32 \<or> r = 127 \<or> (128 \<le> r \<and> r \<le> 159)"

datatype name_error = NotUtf8 | EmptyName | TooLong | ControlCharacter

definition clean_subscription_name :: "string \<Rightarrow> name_error + string" where
  "clean_subscription_name raw =
     (let name = trim_blanks raw in
      if \<not> valid_utf8 name then Inl NotUtf8
      else if rune_count name = 0 then Inl EmptyName
      else if max_subscription_name < rune_count name then Inl TooLong
      else if list_ex (\<lambda>r. is_control (fst r)) (runes name) then Inl ControlCharacter
      else Inr name)"

text \<open>\<^verbatim>\<open>foldASCII\<close> lowers A to Z, byte by byte.\<close>

definition fold_ascii :: "string \<Rightarrow> string" where
  "fold_ascii s = map lower_byte s"

definition subscription_name_taken :: "subscription list \<Rightarrow> string \<Rightarrow> string \<Rightarrow> bool" where
  "subscription_name_taken subs name except \<longleftrightarrow>
     list_ex (\<lambda>s. sub_id s \<noteq> except \<and> fold_ascii (sub_name s) = fold_ascii name) subs"

definition cut_runes :: "string \<Rightarrow> nat \<Rightarrow> string" where
  "cut_runes s n = unrunes (take n (runes s))"

definition base_name :: "string \<Rightarrow> string" where
  "base_name base =
     (let b = trim_blanks (unrunes (filter (\<lambda>r. \<not> is_control (fst r)) (runes (to_valid_utf8 base)))) in
      if b = [] then ''subscription'' else b)"

definition name_suffix :: "nat \<Rightarrow> string" where
  "name_suffix n = (if 1 < n then ''-'' @ show_nat n else [])"

definition nth_name :: "string \<Rightarrow> nat \<Rightarrow> string" where
  "nth_name base n =
     trim_right_blanks (cut_runes base (max_subscription_name - rune_count (name_suffix n))) @ name_suffix n"

text \<open>
  The loop over n = 1, 2, 3, ...: \<open>fuel\<close> bounds its rounds, and \<^const>\<open>None\<close> is a loop that still
  runs. Below, two more rounds than there are subscriptions are always enough.
\<close>

fun name_loop :: "subscription list \<Rightarrow> string \<Rightarrow> nat \<Rightarrow> nat \<Rightarrow> string option" where
  "name_loop subs base n 0 = None"
| "name_loop subs base n (Suc fuel) =
     (if \<not> subscription_name_taken subs (nth_name base n) [] then Some (nth_name base n)
      else name_loop subs base (Suc n) fuel)"

definition default_subscription_name :: "subscription list \<Rightarrow> string \<Rightarrow> string option" where
  "default_subscription_name subs base = name_loop subs (base_name base) 1 (length subs + 2)"

section \<open>Lists\<close>

fun find_from :: "nat \<Rightarrow> subscription list \<Rightarrow> string \<Rightarrow> nat option" where
  "find_from i [] sid = None"
| "find_from i (s # ss) sid = (if sub_id s = sid then Some i else find_from (Suc i) ss sid)"

definition find_subscription :: "subscription list \<Rightarrow> string \<Rightarrow> nat option" where
  "find_subscription subs sid = find_from 0 subs sid"

definition all_servers :: "subscription list \<Rightarrow> server list" where
  "all_servers subs = concat (map (\<lambda>sub. tag_servers (sub_id sub) (sub_servers sub)) subs)"

definition subscription_ips :: "subscription list \<Rightarrow> string list" where
  "subscription_ips subs = server_ips (all_servers subs)"

text \<open>\<^verbatim>\<open>NewSubscriptionID\<close> over the random draws; \<^const>\<open>None\<close> when the source fails first.\<close>

fun new_subscription_id :: "subscription list \<Rightarrow> string list \<Rightarrow> string option" where
  "new_subscription_id subs [] = None"
| "new_subscription_id subs (i # draws) =
     (if find_subscription subs i = None then Some i else new_subscription_id subs draws)"

section \<open>Facts\<close>

lemma tag_servers_idem [simp]: "tag_servers i (tag_servers j ss) = tag_servers i ss"
  by (simp add: tag_servers_def)

lemma find_from_Some:
  "find_from i subs sid = Some j \<Longrightarrow> i \<le> j \<and> j < i + length subs \<and> sub_id (subs ! (j - i)) = sid"
proof (induction subs arbitrary: i)
  case (Cons s ss)
  show ?case
  proof (cases "sub_id s = sid")
    case False
    with Cons.IH [of "Suc i"] Cons.prems have "Suc i \<le> j \<and> j < Suc i + length ss \<and> sub_id (ss ! (j - Suc i)) = sid" by simp
    moreover from this have "(s # ss) ! (j - i) = ss ! (j - Suc i)" by (simp add: nth_Cons')
    ultimately show ?thesis by simp
  qed (use Cons in simp)
qed simp

lemma find_from_None: "find_from i subs sid = None \<longleftrightarrow> sid \<notin> set (map sub_id subs)"
  by (induction subs arbitrary: i) auto

lemma find_subscription_Some:
  "find_subscription subs sid = Some j \<Longrightarrow> j < length subs \<and> sub_id (subs ! j) = sid"
  using find_from_Some [of 0 subs sid j] by (simp add: find_subscription_def)

lemma find_subscription_None [simp]:
  "find_subscription subs sid = None \<longleftrightarrow> sid \<notin> set (map sub_id subs)"
  by (simp add: find_subscription_def find_from_None)

lemma new_subscription_id_new: "new_subscription_id subs draws = Some i \<Longrightarrow> i \<notin> set (map sub_id subs)"
  by (induction subs draws rule: new_subscription_id.induct) (auto split: if_splits)

text \<open>The list of addresses depends on which subscriptions there are, not on their order.\<close>

lemma subscription_ips_cong: "set xs = set ys \<Longrightarrow> subscription_ips xs = subscription_ips ys"
  unfolding subscription_ips_def by (rule server_ips_cong) (simp add: all_servers_def)

section \<open>The default name\<close>

lemma fold_ascii_append: "fold_ascii (a @ b) = fold_ascii a @ fold_ascii b"
  by (simp add: fold_ascii_def)

lemma lower_byte_digit: "is_digit c \<Longrightarrow> lower_byte c = c"
  by (simp add: lower_byte_def is_digit_def)

lemma fold_ascii_suffix: "1 < n \<Longrightarrow> fold_ascii (name_suffix n) = name_suffix n"
proof -
  have "map lower_byte (show_nat n) = show_nat n"
    by (rule map_idI) (use show_nat_digits [of n] in \<open>auto simp: list_all_iff lower_byte_digit\<close>)
  moreover have "lower_byte CHR ''-'' = CHR ''-''" by (simp add: lower_byte_def byte_def)
  ultimately show "1 < n \<Longrightarrow> ?thesis" by (simp add: fold_ascii_def name_suffix_def)
qed

text \<open>Two suffixes of different numbers end two different names, whatever comes before them.\<close>

lemma dash_suffix_inject: "a @ ''-'' @ show_nat m = b @ ''-'' @ show_nat n \<Longrightarrow> m = n"
proof -
  assume eq: "a @ ''-'' @ show_nat m = b @ ''-'' @ show_nat n"
  have dash: "takeWhile (\<lambda>c. c \<noteq> CHR ''-'') (rev (x @ ''-'' @ show_nat k)) = rev (show_nat k)" for x k
  proof -
    have "CHR ''-'' \<notin> set (show_nat k)" by (rule not_in_show_nat) (simp add: is_digit_def byte_def)
    then have "\<forall>c \<in> set (rev (show_nat k)). c \<noteq> CHR ''-''" by auto
    then have "takeWhile (\<lambda>c. c \<noteq> CHR ''-'') (rev (show_nat k) @ CHR ''-'' # rev x) = rev (show_nat k)"
      by (subst takeWhile_append2) auto
    then show ?thesis by simp
  qed
  have "rev (show_nat m) = rev (show_nat n)"
    using dash [of a m] dash [of b n] unfolding eq by metis
  then have "show_nat m = show_nat n" by (simp only: rev_is_rev_conv)
  then show "m = n" by simp
qed

lemma nth_name_inject: "1 < m \<Longrightarrow> 1 < n \<Longrightarrow> fold_ascii (nth_name b m) = fold_ascii (nth_name b n) \<Longrightarrow> m = n"
  by (rule dash_suffix_inject) (auto simp: nth_name_def fold_ascii_append fold_ascii_suffix, simp add: name_suffix_def)

lemma name_loop_Some: "name_loop subs base n fuel = Some name \<Longrightarrow>
    \<exists>m \<ge> n. name = nth_name base m \<and> \<not> subscription_name_taken subs name []"
  by (induction subs base n fuel rule: name_loop.induct) (auto split: if_splits intro: Suc_leD)

lemma name_loop_None: "name_loop subs base n fuel = None \<Longrightarrow>
    n \<le> m \<Longrightarrow> m < n + fuel \<Longrightarrow> subscription_name_taken subs (nth_name base m) []"
proof (induction subs base n fuel rule: name_loop.induct)
  case (2 subs base n fuel)
  then show ?case by (cases "m = n") (auto split: if_splits)
qed simp

text \<open>Pigeonhole: the names numbered from 2 differ, so one of them is free.\<close>

lemma default_name_found: "default_subscription_name subs base \<noteq> None"
proof
  assume none: "default_subscription_name subs base = None"
  let ?f = "\<lambda>m. fold_ascii (nth_name (base_name base) m)"
  have taken: "?f m \<in> (fold_ascii \<circ> sub_name) ` set subs" if "m \<in> {2 ..< length subs + 3}" for m
  proof -
    from that have "subscription_name_taken subs (nth_name (base_name base) m) []"
      using name_loop_None [of subs "base_name base" 1 "length subs + 2" m] none
      by (simp add: default_subscription_name_def)
    then show ?thesis by (force simp: subscription_name_taken_def list_ex_iff)
  qed
  have "inj_on ?f {2 ..< length subs + 3}" by (rule inj_onI) (rule nth_name_inject, auto)
  then have "card {2 ..< length subs + 3} \<le> card ((fold_ascii \<circ> sub_name) ` set subs)"
    by (rule card_inj_on_le) (use taken in auto)
  also have "\<dots> \<le> length subs" by (meson card_image_le card_length finite_set le_trans)
  finally show False by simp
qed

section \<open>The cache\<close>

text \<open>
  The cache is coherent with a directory when every file it would answer for reads, now, as the
  record it holds: a file of the same inode, size and time is the same file.
\<close>

definition coherent :: "(string \<Rightarrow> subscription option) \<Rightarrow> cache \<Rightarrow> dir_entry list \<Rightarrow> bool" where
  "coherent parse files dir \<longleftrightarrow>
     (\<forall>e \<in> set dir. \<forall>i info prev sub. entry_id e = Some i \<longrightarrow> de_stat e = Stat info \<longrightarrow>
        map_of files (de_name e) = Some (prev, sub) \<longrightarrow> same_file info prev \<longrightarrow>
        fst (load_subscription parse e i) = sub)"

text \<open>A file that cannot be statted because it is gone cannot be read either.\<close>

definition stat_agrees :: "dir_entry \<Rightarrow> bool" where
  "stat_agrees e \<longleftrightarrow> (de_stat e = StatMissing \<longrightarrow> de_read e = Missing)"

lemma load_subscription_missing: "snd (load_subscription parse e i) = NotExist \<Longrightarrow> fst (load_subscription parse e i) = None"
  by (auto simp: load_subscription_def split: file_read.splits option.splits if_splits)

lemma cached_load_correct:
  assumes "coherent parse files dir" and "e \<in> set dir" and "entry_id e = Some i" and "stat_agrees e"
    and "\<not> snd (snd (cached_load parse files e i))"
  shows "fst (cached_load parse files e i) = fst (load_subscription parse e i)"
proof (cases "de_stat e")
  case (Stat info)
  have fresh: "fst (read_fresh parse e i info) = fst (load_subscription parse e i)"
    if "\<not> snd (snd (read_fresh parse e i info))"
    using that load_subscription_missing [of parse e i]
    by (auto simp: read_fresh_def split: prod.splits load_error.splits if_splits)
  show ?thesis
  proof (cases "map_of files (de_name e)")
    case None
    with Stat assms(5) fresh show ?thesis by (simp add: cached_load_def)
  next
    case (Some p)
    obtain prev sub where p: "p = (prev, sub)" by (cases p)
    show ?thesis
    proof (cases "same_file info prev")
      case True
      with assms(1-3) Some Stat have "fst (load_subscription parse e i) = sub"
        unfolding coherent_def p by blast
      with True Stat Some show ?thesis by (simp add: cached_load_def p)
    next
      case False
      with Stat Some assms(5) fresh show ?thesis by (simp add: cached_load_def p)
    qed
  qed
next
  case StatMissing
  with assms(4) show ?thesis by (simp add: cached_load_def stat_agrees_def load_subscription_def)
next
  case StatFails
  with assms(5) show ?thesis by (simp add: cached_load_def)
qed

lemma map_filter_cong: "(\<And>x. x \<in> set xs \<Longrightarrow> f x = g x) \<Longrightarrow> List.map_filter f xs = List.map_filter g xs"
  by (induction xs) (simp_all split: option.split)

lemma cache_load_correct:
  assumes "coherent parse files dir" and "\<forall>e \<in> set dir. stat_agrees e"
    and "cache_load parse files dir = (Some subs, files')"
  shows "subs = load_subscriptions parse dir"
proof -
  from assms(3) have ok: "\<not> load_failed parse files dir"
    and subs: "subs = collect_subscriptions (\<lambda>e i. fst (cached_load parse files e i)) dir"
    by (auto simp: cache_load_def split: if_splits)
  have "(case entry_id e of None \<Rightarrow> None | Some i \<Rightarrow> fst (cached_load parse files e i))
      = (case entry_id e of None \<Rightarrow> None | Some i \<Rightarrow> fst (load_subscription parse e i))" if "e \<in> set dir" for e
  proof (cases "entry_id e")
    case (Some i)
    with ok that have "\<not> snd (snd (cached_load parse files e i))"
      by (auto simp: load_failed_def list_ex_iff)
    with assms(1,2) that Some show ?thesis by (simp add: cached_load_correct)
  qed simp
  then show ?thesis unfolding subs load_subscriptions_def collect_subscriptions_def
    by (metis (no_types, lifting) map_filter_cong)
qed


section \<open>The properties of the store\<close>

text \<open>
  The loop that numbers a default name always ends, within two more rounds than there are
  subscriptions, and what it finds no subscription has, whatever the case of its ASCII letters.
\<close>

theorem default_name_is_free:
  "\<exists>name. default_subscription_name subs base = Some name \<and> \<not> subscription_name_taken subs name []"
proof -
  obtain name where name: "default_subscription_name subs base = Some name"
    using default_name_found [of subs base] by blast
  then have "\<not> subscription_name_taken subs name []"
    unfolding default_subscription_name_def by (blast dest: name_loop_Some)
  with name show ?thesis by blast
qed


definition example_sub :: subscription where
  "example_sub = \<lparr>sub_id = ''0a1b2c3d'', sub_name = ''One'', sub_url = ''https://one.example/token'',
     sub_added = 5, sub_refreshed = 7, sub_error = [],
     sub_servers = [plain_server ''A'' ''a.example'' 443 [''203.0.113.1''] ''{\"protocol\":\"vless\"}'']\<rparr>"

definition example_entry :: dir_entry where
  "example_entry = \<lparr>de_name = ''0a1b2c3d.json'', de_is_dir = False,
     de_stat = Stat \<lparr>fi_inode = 1, fi_size = 2, fi_mtime = 3, fi_regular = True\<rparr>, de_read = Bytes ''x''\<rparr>"


end
