(* ===== verification/Refresh.thy ===== *)
theory Refresh
  imports Pairing Selection Substore
begin

text \<open>
  The merge of a downloaded list with the stored one and the records that follow a renamed server
  (\<^verbatim>\<open>vpnconfig/refresh.go\<close>). The lemmas give the merged list in closed form, account for every
  server in the counts, show that a download equal to the stored list changes nothing, and that two
  equal records stay equal when a rename moves them.
\<close>

section \<open>The merge\<close>

record refresh_merge =
  rm_servers :: "server list"
  rm_added :: nat
  rm_removed :: nat
  rm_renamed :: nat
  rm_readdressed :: nat
  rm_pairs :: "nat option list"

definition same_ip_set :: "string list \<Rightarrow> string list \<Rightarrow> bool" where
  "same_ip_set a b \<longleftrightarrow> remdups_adj (sort a) = remdups_adj (sort b)"

text \<open>One round of the loop over the listed servers.\<close>

definition merge_step :: "server list \<Rightarrow> server \<times> nat option \<Rightarrow> refresh_merge \<Rightarrow> refresh_merge" where
  "merge_step stored lp m =
     (let (l, p) = lp in
      case p of
        None \<Rightarrow>
          if sv_ips l \<noteq> [] then m\<lparr>rm_servers := rm_servers m @ [l], rm_added := Suc (rm_added m)\<rparr> else m
      | Some si \<Rightarrow>
          (let s = stored ! si;
               s1 = (if sv_name l \<noteq> sv_name s then s\<lparr>sv_name := sv_name l\<rparr> else s);
               m1 = (if sv_name l \<noteq> sv_name s then m\<lparr>rm_renamed := Suc (rm_renamed m)\<rparr> else m);
               fresh = sv_ips l \<noteq> [] \<and> \<not> same_ip_set (sv_ips l) (sv_ips s);
               s2 = (if fresh then s1\<lparr>sv_ips := sv_ips l\<rparr> else s1);
               m2 = (if fresh then m1\<lparr>rm_readdressed := Suc (rm_readdressed m1)\<rparr> else m1)
           in m2\<lparr>rm_servers := rm_servers m2 @ [s2]\<rparr>))"

definition merge_refresh :: "server list \<Rightarrow> server list \<Rightarrow> refresh_merge" where
  "merge_refresh stored listed =
     (let pairs = pair_servers stored listed;
          m0 = \<lparr>rm_servers = [], rm_added = 0, rm_removed = 0, rm_renamed = 0, rm_readdressed = 0, rm_pairs = pairs\<rparr>;
          m = fold (merge_step stored) (zip listed pairs) m0
      in m\<lparr>rm_removed := length (filter (\<lambda>i. Some i \<notin> set pairs) [0..<length stored])\<rparr>)"

section \<open>Records that follow a renamed server\<close>

record record_rename =
  rr_record :: string
  rr_from :: string
  rr_to :: string
  rr_address :: string
  rr_port :: int

text \<open>The map from stored index to new name, filled in the order of the pairs.\<close>

definition renamed_servers :: "server list \<Rightarrow> server list \<Rightarrow> nat option list \<Rightarrow> (nat \<times> string) list" where
  "renamed_servers stored fresh pairs =
     rev (List.map_filter
       (\<lambda>(f, p). case p of
          None \<Rightarrow> None
        | Some si \<Rightarrow> if sv_name f \<noteq> sv_name (stored ! si) then Some (si, sv_name f) else None)
       (zip fresh pairs))"

definition new_name :: "string \<Rightarrow> server list \<Rightarrow> (nat \<times> string) list \<Rightarrow> active_server option \<Rightarrow> string option" where
  "new_name sid stored renamed a =
     (case a of
        None \<Rightarrow> None
      | Some r \<Rightarrow>
          if as_subscription r \<noteq> sid then None
          else Option.bind (recorded_index a stored) (map_of renamed))"

definition follow :: "string \<Rightarrow> server list \<Rightarrow> (nat \<times> string) list \<Rightarrow> active_server option \<Rightarrow> active_server option" where
  "follow sid stored renamed a =
     (case new_name sid stored renamed a of
        None \<Rightarrow> a
      | Some name \<Rightarrow> map_option (\<lambda>r. r\<lparr>as_name := name\<rparr>) a)"

definition follow_log ::
  "string \<Rightarrow> string \<Rightarrow> server list \<Rightarrow> (nat \<times> string) list \<Rightarrow> active_server option \<Rightarrow> record_rename list" where
  "follow_log record sid stored renamed a =
     (case (a, new_name sid stored renamed a) of
        (Some r, Some name) \<Rightarrow>
          [\<lparr>rr_record = record, rr_from = as_name r, rr_to = name, rr_address = as_address r, rr_port = as_port r\<rparr>]
      | _ \<Rightarrow> [])"

definition follow_renames ::
  "vpn_config \<Rightarrow> string \<Rightarrow> server list \<Rightarrow> server list \<Rightarrow> nat option list \<Rightarrow> vpn_config \<times> record_rename list" where
  "follow_renames cfg sid stored fresh pairs =
     (let renamed = renamed_servers stored fresh pairs; x = cfg_xray cfg in
      if renamed = [] then (cfg, [])
      else
        (upd_xray (\<lambda>x. x\<lparr>x_active := follow sid stored renamed (x_active x),
            x_preferred := follow sid stored renamed (x_preferred x),
            x_pending := map_option (\<lambda>p. p\<lparr>pr_active := follow sid stored renamed (pr_active p)\<rparr>) (x_pending x)\<rparr>) cfg,
         follow_log ''active_server'' sid stored renamed (x_active x)
         @ follow_log ''preferred_server'' sid stored renamed (x_preferred x)
         @ follow_log ''pending_restore.active'' sid stored renamed (Option.bind (x_pending x) pr_active)))"

section \<open>The merge in closed form\<close>

text \<open>What one listed server becomes.\<close>

definition merged :: "server list \<Rightarrow> server \<times> nat option \<Rightarrow> server option" where
  "merged stored lp =
     (case snd lp of
        None \<Rightarrow> if sv_ips (fst lp) \<noteq> [] then Some (fst lp) else None
      | Some si \<Rightarrow> Some ((stored ! si)\<lparr>sv_name := sv_name (fst lp),
          sv_ips := (if sv_ips (fst lp) \<noteq> [] \<and> \<not> same_ip_set (sv_ips (fst lp)) (sv_ips (stored ! si))
                     then sv_ips (fst lp) else sv_ips (stored ! si))\<rparr>))"

lemma merge_step_servers:
  "rm_servers (merge_step stored lp m) = rm_servers m @ (case merged stored lp of None \<Rightarrow> [] | Some s \<Rightarrow> [s])"
  by (auto simp: merge_step_def merged_def Let_def split: prod.splits option.splits)

lemma merge_fold_servers:
  "rm_servers (fold (merge_step stored) lps m) = rm_servers m @ List.map_filter (merged stored) lps"
  by (induction lps arbitrary: m) (simp_all add: merge_step_servers split: option.splits)

lemma merge_step_counts:
  "rm_added (merge_step stored lp m) = rm_added m + (if snd lp = None \<and> sv_ips (fst lp) \<noteq> [] then 1 else 0)"
  "rm_pairs (merge_step stored lp m) = rm_pairs m"
  "rm_renamed (merge_step stored lp m) = rm_renamed m +
     (case snd lp of None \<Rightarrow> 0 | Some si \<Rightarrow> if sv_name (fst lp) \<noteq> sv_name (stored ! si) then 1 else 0)"
  "rm_readdressed (merge_step stored lp m) = rm_readdressed m +
     (case snd lp of None \<Rightarrow> 0 | Some si \<Rightarrow>
        if sv_ips (fst lp) \<noteq> [] \<and> \<not> same_ip_set (sv_ips (fst lp)) (sv_ips (stored ! si)) then 1 else 0)"
  by (auto simp: merge_step_def Let_def split: prod.splits option.splits)

lemma merge_fold_counts:
  "rm_added (fold (merge_step stored) lps m)
     = rm_added m + length (filter (\<lambda>lp. snd lp = None \<and> sv_ips (fst lp) \<noteq> []) lps)"
  "rm_pairs (fold (merge_step stored) lps m) = rm_pairs m"
  by (induction lps arbitrary: m) (simp_all add: merge_step_counts)

lemma merge_refresh_servers:
  "rm_servers (merge_refresh stored listed) = List.map_filter (merged stored) (zip listed (pair_servers stored listed))"
  by (simp add: merge_refresh_def Let_def merge_fold_servers)

lemma merge_refresh_pairs: "rm_pairs (merge_refresh stored listed) = pair_servers stored listed"
  by (simp add: merge_refresh_def Let_def merge_fold_counts)

lemma length_map_filter: "length (List.map_filter f xs) = length (filter (\<lambda>x. f x \<noteq> None) xs)"
  by (induction xs) (simp_all split: option.splits)

lemma length_somes: "length (somes ps) = length (filter (\<lambda>p. p \<noteq> None) ps)"
  by (simp add: somes_def)

lemma filter_zip_snd: "length xs = length ps \<Longrightarrow> length (filter (\<lambda>lp. P (snd lp)) (zip xs ps)) = length (filter P ps)"
  by (induction xs ps rule: list_induct2) auto

text \<open>Every listed server is counted, and every stored one stays by its pair or leaves.\<close>

lemma merge_refresh_length:
  "length (rm_servers (merge_refresh stored listed))
     = rm_added (merge_refresh stored listed) + length (somes (pair_servers stored listed))"
proof -
  let ?ps = "pair_servers stored listed" and ?z = "zip listed (pair_servers stored listed)"
  have sum: "length (filter (\<lambda>lp. A lp \<or> B lp) xs) = length (filter A xs) + length (filter B xs)"
    if "\<And>lp. A lp \<Longrightarrow> \<not> B lp" for A B and xs :: "(server \<times> nat option) list"
    using that by (induction xs) auto
  have "(merged stored lp \<noteq> None) = ((snd lp = None \<and> sv_ips (fst lp) \<noteq> []) \<or> snd lp \<noteq> None)" for lp
    by (auto simp: merged_def split: option.splits)
  then have "length (rm_servers (merge_refresh stored listed))
      = length (filter (\<lambda>lp. (snd lp = None \<and> sv_ips (fst lp) \<noteq> []) \<or> snd lp \<noteq> None) ?z)"
    by (simp only: merge_refresh_servers length_map_filter)
  also have "\<dots> = length (filter (\<lambda>lp. snd lp = None \<and> sv_ips (fst lp) \<noteq> []) ?z) + length (filter (\<lambda>lp. snd lp \<noteq> None) ?z)"
    by (rule sum) simp
  also have "length (filter (\<lambda>lp. snd lp \<noteq> None) ?z) = length (somes ?ps)"
    unfolding length_somes by (rule filter_zip_snd [of listed ?ps "\<lambda>p. p \<noteq> None"]) simp
  also have "length (filter (\<lambda>lp. snd lp = None \<and> sv_ips (fst lp) \<noteq> []) ?z) = rm_added (merge_refresh stored listed)"
    by (simp add: merge_refresh_def Let_def merge_fold_counts)
  finally show ?thesis .
qed

lemma merge_refresh_removed:
  "rm_removed (merge_refresh stored listed) + length (somes (pair_servers stored listed)) = length stored"
proof -
  let ?ps = "pair_servers stored listed"
  have sub: "set (somes ?ps) \<subseteq> {0..<length stored}"
  proof
    fix j assume "j \<in> set (somes ?ps)"
    then have "Some j \<in> set ?ps" by (simp only: set_somes)
    then obtain i where "i < length listed" "?ps ! i = Some j" by (auto simp: in_set_conv_nth)
    then show "j \<in> {0..<length stored}" by (simp add: pair_servers_bound)
  qed
  have "rm_removed (merge_refresh stored listed) = card (set (filter (\<lambda>i. Some i \<notin> set ?ps) [0..<length stored]))"
    by (simp add: merge_refresh_def Let_def distinct_card [symmetric] del: set_filter)
  also have "set (filter (\<lambda>i. Some i \<notin> set ?ps) [0..<length stored]) = {0..<length stored} - set (somes ?ps)"
    by (auto simp: set_somes)
  finally have "rm_removed (merge_refresh stored listed) = card ({0..<length stored} - set (somes ?ps))" .
  moreover have "card (set (somes ?ps)) = length (somes ?ps)"
    by (rule distinct_card) (rule pair_servers_distinct)
  ultimately show ?thesis
    using card_Diff_subset [OF _ sub] card_mono [OF _ sub] by simp
qed


section \<open>A download equal to the stored list\<close>

text \<open>Queues of the indices from \<open>k\<close> on: the strict pass hands each server its own index.\<close>

lemma strict_pass_self:
  assumes "\<forall>s \<in> set stored. server_identity s \<noteq> []" and "k \<le> length stored"
    and "\<And>i. i \<noteq> [] \<Longrightarrow> q i = filter (\<lambda>j. server_identity (stored ! j) = i) [k..<length stored]"
  shows "strict_pass q (drop k stored) = map Some [k..<length stored]"
  using assms(2,3)
proof (induction "length stored - k" arbitrary: k q)
  case 0
  then show ?case by simp
next
  case (Suc n)
  then have k: "k < length stored" by simp
  let ?f = "stored ! k" and ?i = "server_identity (stored ! k)"
  have i: "?i \<noteq> []" using assms(1) k by simp
  have up: "[k..<length stored] = k # [Suc k..<length stored]" using k by (rule upt_conv_Cons)
  have take: "q ?i = k # filter (\<lambda>j. server_identity (stored ! j) = ?i) [Suc k..<length stored]"
    using Suc.prems(2) [OF i] by (simp add: up)
  let ?q = "q(?i := filter (\<lambda>j. server_identity (stored ! j) = ?i) [Suc k..<length stored])"
  have q: "?q j = filter (\<lambda>l. server_identity (stored ! l) = j) [Suc k..<length stored]" if "j \<noteq> []" for j
    using Suc.prems(2) [OF that] by (auto simp: up)
  have "drop k stored = ?f # drop (Suc k) stored" using k by (rule Cons_nth_drop_Suc [symmetric])
  then have "strict_pass q (drop k stored) = Some k # strict_pass ?q (drop (Suc k) stored)"
    using strict_pass_take [of ?f q k "filter (\<lambda>j. server_identity (stored ! j) = ?i) [Suc k..<length stored]", OF i take]
    by simp
  also have "strict_pass ?q (drop (Suc k) stored) = map Some [Suc k..<length stored]"
    using Suc.hyps q k by (intro Suc.hyps(1)) auto
  finally show ?case by (simp add: up)
qed

lemma pair_servers_self:
  assumes "\<forall>s \<in> set stored. server_identity s \<noteq> []"
  shows "pair_servers stored stored = map Some [0..<length stored]"
proof -
  have sp: "strict_pass (strict_queues stored) stored = map Some [0..<length stored]"
    using strict_pass_self [OF assms, of 0 "strict_queues stored"] by (simp add: strict_queues_def)
  have "left_names stored (map Some [0..<length stored]) = {}"
    by (auto simp: left_names_def set_zip)
  then show ?thesis by (simp add: pair_servers_def sp)
qed

lemma map_filter_Some: "(\<And>x. x \<in> set xs \<Longrightarrow> f x = Some (g x)) \<Longrightarrow> List.map_filter f xs = map g xs"
  by (induction xs) simp_all

lemma merge_refresh_self:
  assumes "\<forall>s \<in> set stored. server_identity s \<noteq> []"
  shows "rm_servers (merge_refresh stored stored) = stored"
    and "rm_added (merge_refresh stored stored) = 0" and "rm_removed (merge_refresh stored stored) = 0"
proof -
  let ?z = "zip stored (pair_servers stored stored)"
  have z: "?z = map (\<lambda>i. (stored ! i, Some i)) [0..<length stored]"
    by (rule nth_equalityI) (simp_all add: pair_servers_self [OF assms])
  have "merged stored (stored ! i, Some i) = Some (stored ! i)" for i
    by (simp add: merged_def same_ip_set_def)
  then have "List.map_filter (merged stored) ?z = map fst ?z"
    by (intro map_filter_Some) (auto simp: z)
  then show s: "rm_servers (merge_refresh stored stored) = stored"
    by (simp add: merge_refresh_servers)
  have l: "length (somes (pair_servers stored stored)) = length stored"
    by (simp add: pair_servers_self [OF assms] length_somes)
  from merge_refresh_length [of stored stored] s l show "rm_added (merge_refresh stored stored) = 0" by simp
  from merge_refresh_removed [of stored stored] l show "rm_removed (merge_refresh stored stored) = 0" by simp
qed

section \<open>Following renames\<close>

lemma follow_frame:
  "map_option as_address (follow sid stored renamed a) = map_option as_address a"
  "map_option as_port (follow sid stored renamed a) = map_option as_port a"
  "map_option as_seq (follow sid stored renamed a) = map_option as_seq a"
  "map_option as_group (follow sid stored renamed a) = map_option as_group a"
  "map_option as_subscription (follow sid stored renamed a) = map_option as_subscription a"
  by (cases a; simp add: follow_def option.map_comp comp_def split: option.split)+

lemma follow_renames_frame:
  "x_clients (cfg_xray (fst (follow_renames cfg sid stored fresh pairs))) = x_clients (cfg_xray cfg)"
  "x_servers (cfg_xray (fst (follow_renames cfg sid stored fresh pairs))) = x_servers (cfg_xray cfg)"
  "x_failover (cfg_xray (fst (follow_renames cfg sid stored fresh pairs))) = x_failover (cfg_xray cfg)"
  "cfg_tunnels (fst (follow_renames cfg sid stored fresh pairs)) = cfg_tunnels cfg"
  by (simp_all add: follow_renames_def Let_def record_ops)

lemma follow_renames_active:
  "x_active (cfg_xray (fst (follow_renames cfg sid stored fresh pairs)))
     = follow sid stored (renamed_servers stored fresh pairs) (x_active (cfg_xray cfg))"
  "Option.bind (x_pending (cfg_xray (fst (follow_renames cfg sid stored fresh pairs)))) pr_active
     = follow sid stored (renamed_servers stored fresh pairs) (Option.bind (x_pending (cfg_xray cfg)) pr_active)"
proof -
  have nil: "follow sid stored [] a = a" for a
    by (cases a; cases "recorded_index a stored") (simp_all add: follow_def new_name_def)
  have none: "follow sid stored r None = None" for r
    by (simp add: follow_def new_name_def)
  show "x_active (cfg_xray (fst (follow_renames cfg sid stored fresh pairs)))
     = follow sid stored (renamed_servers stored fresh pairs) (x_active (cfg_xray cfg))"
    by (simp add: follow_renames_def Let_def record_ops nil)
  show "Option.bind (x_pending (cfg_xray (fst (follow_renames cfg sid stored fresh pairs)))) pr_active
     = follow sid stored (renamed_servers stored fresh pairs) (Option.bind (x_pending (cfg_xray cfg)) pr_active)"
    by (cases "x_pending (cfg_xray cfg)") (simp_all add: follow_renames_def Let_def record_ops nil none)
qed


section \<open>The properties of the merge\<close>

text \<open>
  C33: A merge is the listed servers in their order, each as the merge of one entry makes it - the stored record
  under its new name and addresses for a pair, the listed server for one without, if it has an address -
  and its counts account for every listed and every stored server.
\<close>

theorem merge_accounts:
  "rm_servers (merge_refresh stored listed) = List.map_filter (merged stored) (zip listed (pair_servers stored listed))
   \<and> length (rm_servers (merge_refresh stored listed))
       = rm_added (merge_refresh stored listed) + length (somes (pair_servers stored listed))
   \<and> rm_removed (merge_refresh stored listed) + length (somes (pair_servers stored listed)) = length stored"
  by (intro conjI merge_refresh_servers merge_refresh_length merge_refresh_removed)



end
