(* ===== verification/Subops.thy ===== *)
theory Subops
  imports Refresh
begin

text \<open>
  The operations on subscriptions (\<^verbatim>\<open>vpnconfig/subops.go\<close>, \<^verbatim>\<open>publish.go\<close> and
  \<^verbatim>\<open>PublishRefresh\<close> of \<^verbatim>\<open>refresh.go\<close>). A store is the configuration with the
  subscription files; an operation is a body run by a locked update, which writes the configuration
  only when the body succeeded, while the files the body saved stay. The update is an interface with
  two providers, the configuration service and the watch's guarded one. The lemmas show that
  \<^verbatim>\<open>xray.servers\<close> is the address list of the files after every success, and what is left where
  after every failure.
\<close>

section \<open>Stores, results and errors\<close>

type_synonym store = "vpn_config \<times> subscription list"

datatype op_error =
  EmptyLink | NameRefused name_error | NameTaken | LimitReached | StaticList | Gone | Superseded
  | NoServerResolved | NothingToWrite | SaveFailed | LoadFailed | NoRandom | UpdateFailed | Refused
  | ServersSaved op_error

text \<open>What the body of an operation leaves in the variables it captures.\<close>

record op_result =
  or_sub :: "subscription option"
  or_before :: "subscription option"
  or_existed :: bool
  or_saved :: bool
  or_changed :: bool
  or_active_was_in :: bool
  or_cleared :: bool
  or_merge :: "refresh_merge option"
  or_followed :: "record_rename list"

definition no_result :: op_result where
  "no_result = \<lparr>or_sub = None, or_before = None, or_existed = False, or_saved = False, or_changed = False,
     or_active_was_in = False, or_cleared = False, or_merge = None, or_followed = []\<rparr>"

type_synonym body = "store \<Rightarrow> op_result \<times> store \<times> op_error option"
type_synonym updater = "body \<Rightarrow> store \<Rightarrow> op_result \<times> store \<times> op_error option"

section \<open>The files\<close>

text \<open>Which call on the files fails.\<close>

record file_faults =
  ff_load :: bool
  ff_save :: bool
  ff_delete :: bool

definition tagged :: "subscription \<Rightarrow> subscription" where
  "tagged s = s\<lparr>sub_servers := tag_servers (sub_id s) (sub_servers s)\<rparr>"

definition load_files :: "subscription list \<Rightarrow> subscription list" where
  "load_files files = sort_key sub_key (map tagged files)"

definition save_file :: "subscription \<Rightarrow> subscription list \<Rightarrow> subscription list" where
  "save_file sub files = filter (\<lambda>s. sub_id s \<noteq> sub_id sub) files @ [sub]"

definition delete_file :: "string \<Rightarrow> subscription list \<Rightarrow> subscription list" where
  "delete_file sid files = filter (\<lambda>s. sub_id s \<noteq> sid) files"

section \<open>The locked update\<close>

text \<open>Which part of \<^verbatim>\<open>UpdateVPNConfig\<close> fails: the lock or the load, or the save.\<close>

record update_faults =
  uf_begin :: bool
  uf_save :: bool

definition locked_update :: "update_faults \<Rightarrow> updater" where
  "locked_update u body s =
     (if uf_begin u then (no_result, s, Some UpdateFailed)
      else case body s of
        (r, s', Some e) \<Rightarrow> (r, (fst s, snd s'), Some e)
      | (r, s', None) \<Rightarrow>
          if uf_save u then (r, (fst s, snd s'), Some UpdateFailed) else (r, s', None))"

text \<open>\<^verbatim>\<open>updateFor\<close> of the watch: a mutation refused under the lock writes nothing.\<close>

definition guarded_update :: "bool \<Rightarrow> updater \<Rightarrow> updater" where
  "guarded_update refused update body = update (\<lambda>s. if refused then (no_result, s, Some Refused) else body s)"

locale config_update =
  fixes update :: updater
  assumes update_outcome:
    "update body s = (r, s', e) \<Longrightarrow>
       (r = no_result \<and> s' = s \<and> (e = Some UpdateFailed \<or> e = Some Refused))
       \<or> (\<exists>t x. body s = (r, t, x) \<and>
            (case x of
               Some err \<Rightarrow> e = Some err \<and> s' = (fst s, snd t)
             | None \<Rightarrow> (e = None \<and> s' = t) \<or> (e = Some UpdateFailed \<and> s' = (fst s, snd t))))"
begin

text \<open>The configuration changes only with a success, and then as the body left it.\<close>

lemma config_kept: "update body s = (r, s', Some e) \<Longrightarrow> fst s' = fst s"
  using update_outcome by (fastforce split: option.splits)

lemma success: "update body s = (r, s', None) \<Longrightarrow> body s = (r, s', None)"
  using update_outcome by (fastforce split: option.splits)

lemma failure:
  assumes "update body s = (r, s', Some e)"
  obtains (never_ran) "r = no_result" "s' = s" "e = UpdateFailed \<or> e = Refused"
  | (body_failed) t where "body s = (r, t, Some e)" "s' = (fst s, snd t)"
  | (not_saved) t where "body s = (r, t, None)" "s' = (fst s, snd t)" "e = UpdateFailed"
  using update_outcome [OF assms] by (fastforce split: option.splits)

text \<open>A body that keeps the files keeps the store in every failure.\<close>

lemma failure_unchanged:
  assumes "update body s = (r, s', Some e)" and "\<And>r t x. body s = (r, t, x) \<Longrightarrow> snd t = snd s"
  shows "s' = s"
  using assms(1)
proof (cases rule: failure)
  case (body_failed t)
  then show ?thesis using assms(2) [OF body_failed(1)] by (simp add: prod_eq_iff)
next
  case (not_saved t)
  then show ?thesis using assms(2) [OF not_saved(1)] by (simp add: prod_eq_iff)
qed

end

interpretation service: config_update "locked_update u"
  by unfold_locales (auto simp: locked_update_def split: prod.splits option.splits if_splits)

interpretation watch: config_update "guarded_update refused (locked_update u)"
proof
  fix body s r s' e
  assume run: "guarded_update refused (locked_update u) body s = (r, s', e)"
  show "(r = no_result \<and> s' = s \<and> (e = Some UpdateFailed \<or> e = Some Refused))
       \<or> (\<exists>t x. body s = (r, t, x) \<and>
            (case x of
               Some err \<Rightarrow> e = Some err \<and> s' = (fst s, snd t)
             | None \<Rightarrow> (e = None \<and> s' = t) \<or> (e = Some UpdateFailed \<and> s' = (fst s, snd t))))"
  proof (cases refused)
    case True
    with run show ?thesis by (auto simp: guarded_update_def locked_update_def split: if_splits)
  next
    case False
    with run have "locked_update u body s = (r, s', e)" by (simp add: guarded_update_def)
    then show ?thesis by (rule service.update_outcome)
  qed
qed

section \<open>Adding\<close>

text \<open>Time is counted in nanoseconds and kept in whole seconds.\<close>

definition stamp :: "int \<Rightarrow> int" where
  "stamp t = t - t mod 1000000000"

fun link_from :: "nat \<Rightarrow> subscription list \<Rightarrow> string \<Rightarrow> nat option" where
  "link_from i [] url = None"
| "link_from i (s # ss) url = (if sub_url s = url then Some i else link_from (Suc i) ss url)"

definition add_new ::
  "subscription list \<Rightarrow> string \<Rightarrow> string \<Rightarrow> string list \<Rightarrow> string \<Rightarrow> int \<Rightarrow> op_error + subscription" where
  "add_new subs host name draws url now =
     (if max_subscriptions \<le> length subs then Inl LimitReached
      else if name \<noteq> [] \<and> subscription_name_taken subs name [] then Inl NameTaken
      else case (if name = [] then default_subscription_name subs host else Some name) of
        None \<Rightarrow> Inl NoRandom
      | Some n \<Rightarrow>
          (case new_subscription_id subs draws of
             None \<Rightarrow> Inl NoRandom
           | Some i \<Rightarrow> Inr \<lparr>sub_id = i, sub_name = n, sub_url = url, sub_added = stamp now, sub_refreshed = 0,
               sub_error = [], sub_servers = []\<rparr>))"

definition add_existing :: "subscription list \<Rightarrow> string \<Rightarrow> subscription \<Rightarrow> op_error + subscription" where
  "add_existing subs name sub =
     (if name \<noteq> [] \<and> name \<noteq> sub_name sub then
        (if subscription_name_taken subs name (sub_id sub) then Inl NameTaken
         else Inr (sub\<lparr>sub_name := name\<rparr>))
      else Inr sub)"

text \<open>
  The body of \<^verbatim>\<open>AddSubscription\<close>. \<open>host\<close> is the host name of the link, \<open>draws\<close> the random ids
  the generator gives and \<open>now\<close> the time.
\<close>

definition add_body ::
  "file_faults \<Rightarrow> string \<Rightarrow> string list \<Rightarrow> int \<Rightarrow> string \<Rightarrow> string \<Rightarrow> server list \<Rightarrow> body" where
  "add_body ff host draws now url name servers s =
     (let (cfg, files) = s; subs = load_files files; found = link_from 0 subs url;
          r0 = no_result\<lparr>or_existed := found \<noteq> None\<rparr>
      in if ff_load ff then (no_result, s, Some LoadFailed)
      else case (case found of Some i \<Rightarrow> add_existing subs name (subs ! i) | None \<Rightarrow> add_new subs host name draws url now) of
        Inl e \<Rightarrow> (r0, s, Some e)
      | Inr sub0 \<Rightarrow>
          (let stored = sub_servers sub0;
               sub = sub0\<lparr>sub_servers := servers, sub_refreshed := stamp now, sub_error := []\<rparr>
           in if ff_save ff \<or> \<not> valid_subscription_id (sub_id sub) then (r0, s, Some SaveFailed)
              else
                (let subs' = (case found of None \<Rightarrow> subs @ [sub] | Some i \<Rightarrow> subs[i := sub]);
                     cfg1 = upd_xray (\<lambda>x. x\<lparr>x_servers := subscription_ips subs'\<rparr>) cfg;
                     cfg2 = (if found = None then cfg1
                             else fst (follow_renames cfg1 (sub_id sub) stored servers (pair_servers stored servers)))
                 in (r0\<lparr>or_sub := Some sub, or_saved := True\<rparr>, (cfg2, save_file sub files), None))))"

definition mark_saved :: "op_result \<times> store \<times> op_error option \<Rightarrow> op_result \<times> store \<times> op_error option" where
  "mark_saved out =
     (case out of
        (r, s, Some e) \<Rightarrow> if or_saved r then (r, s, Some (ServersSaved e)) else (r\<lparr>or_sub := None\<rparr>, s, Some e)
      | (r, s, None) \<Rightarrow> (r, s, None))"

definition add_subscription ::
  "updater \<Rightarrow> file_faults \<Rightarrow> string \<Rightarrow> string list \<Rightarrow> int \<Rightarrow> string \<Rightarrow> string \<Rightarrow> server list \<Rightarrow> store
     \<Rightarrow> op_result \<times> store \<times> op_error option" where
  "add_subscription update ff host draws now url name servers s =
     (if url = [] then (no_result, s, Some EmptyLink)
      else case (if name = [] then Inr [] else clean_subscription_name name) of
        Inl e \<Rightarrow> (no_result, s, Some (NameRefused e))
      | Inr n \<Rightarrow> mark_saved (update (add_body ff host draws now url n servers) s))"

section \<open>Refreshing\<close>

definition refresh_body ::
  "file_faults \<Rightarrow> int \<Rightarrow> bool \<Rightarrow> string \<Rightarrow> string \<Rightarrow> server list \<Rightarrow> body" where
  "refresh_body ff now follows sid url servers s =
     (let (cfg, files) = s; subs = load_files files in
      if ff_load ff then (no_result, s, Some LoadFailed)
      else case find_subscription subs sid of
        None \<Rightarrow> (no_result, s, Some Gone)
      | Some i \<Rightarrow>
          if sub_url (subs ! i) \<noteq> url then (no_result, s, Some Gone)
          else
            (let stored = sub_servers (subs ! i);
                 sub = (subs ! i)\<lparr>sub_servers := servers, sub_refreshed := stamp now, sub_error := []\<rparr>
             in if ff_save ff \<or> \<not> valid_subscription_id (sub_id sub) then (no_result, s, Some SaveFailed)
                else
                  (let cfg1 = upd_xray (\<lambda>x. x\<lparr>x_servers := subscription_ips (subs[i := sub])\<rparr>) cfg;
                       cfg2 = (if follows
                               then fst (follow_renames cfg1 sid stored servers (pair_servers stored servers)) else cfg1)
                   in (no_result\<lparr>or_sub := Some sub, or_saved := True\<rparr>, (cfg2, save_file sub files), None))))"

definition refresh_subscription ::
  "updater \<Rightarrow> file_faults \<Rightarrow> int \<Rightarrow> bool \<Rightarrow> string \<Rightarrow> string \<Rightarrow> server list \<Rightarrow> store
     \<Rightarrow> op_result \<times> store \<times> op_error option" where
  "refresh_subscription update ff now follows sid url servers s =
     (if url = [] then (no_result, s, Some StaticList)
      else mark_saved (update (refresh_body ff now follows sid url servers) s))"

definition record_error_body :: "file_faults \<Rightarrow> string \<Rightarrow> string \<Rightarrow> int \<Rightarrow> string \<Rightarrow> body" where
  "record_error_body ff sid url since msg s =
     (let (cfg, files) = s; subs = load_files files in
      if ff_load ff then (no_result, s, Some LoadFailed)
      else case find_subscription subs sid of
        None \<Rightarrow> (no_result, s, Some Gone)
      | Some i \<Rightarrow>
          if sub_url (subs ! i) \<noteq> url then (no_result, s, Some Gone)
          else if sub_refreshed (subs ! i) \<noteq> since \<or> sub_error (subs ! i) = msg
          then (no_result, s, Some NothingToWrite)
          else if ff_save ff \<or> \<not> valid_subscription_id (sub_id (subs ! i)) then (no_result, s, Some SaveFailed)
          else (no_result\<lparr>or_changed := True\<rparr>, (cfg, save_file ((subs ! i)\<lparr>sub_error := msg\<rparr>) files), None))"

definition record_subscription_error ::
  "updater \<Rightarrow> file_faults \<Rightarrow> string \<Rightarrow> string \<Rightarrow> int \<Rightarrow> string \<Rightarrow> store \<Rightarrow> bool \<times> store \<times> op_error option" where
  "record_subscription_error update ff sid url since msg s =
     (case update (record_error_body ff sid url since msg) s of
        (r, s', e) \<Rightarrow> if e = Some NothingToWrite then (False, s', None) else (or_changed r, s', e))"

section \<open>Renaming and deleting\<close>

definition rename_body :: "file_faults \<Rightarrow> string \<Rightarrow> string \<Rightarrow> body" where
  "rename_body ff sid name s =
     (let (cfg, files) = s; subs = load_files files in
      if ff_load ff then (no_result, s, Some LoadFailed)
      else case find_subscription subs sid of
        None \<Rightarrow> (no_result, s, Some Gone)
      | Some i \<Rightarrow>
          if subscription_name_taken subs name sid then (no_result, s, Some NameTaken)
          else
            (let sub = (subs ! i)\<lparr>sub_name := name\<rparr>; r = no_result\<lparr>or_sub := Some sub\<rparr>
             in if ff_save ff \<or> \<not> valid_subscription_id (sub_id sub) then (r, s, Some SaveFailed)
                else (r, (cfg, save_file sub files), None)))"

definition rename_subscription ::
  "updater \<Rightarrow> file_faults \<Rightarrow> string \<Rightarrow> string \<Rightarrow> store \<Rightarrow> op_result \<times> store \<times> op_error option" where
  "rename_subscription update ff sid raw s =
     (case clean_subscription_name raw of
        Inl e \<Rightarrow> (no_result, s, Some (NameRefused e))
      | Inr name \<Rightarrow> update (rename_body ff sid name) s)"

definition delete_body :: "file_faults \<Rightarrow> string \<Rightarrow> body" where
  "delete_body ff sid s =
     (let (cfg, files) = s; subs = load_files files in
      if ff_load ff then (no_result, s, Some LoadFailed)
      else case find_subscription subs sid of
        None \<Rightarrow> (no_result, s, Some Gone)
      | Some i \<Rightarrow>
          (let rest = take i subs @ drop (Suc i) subs; x = cfg_xray cfg in
           if ff_delete ff \<or> \<not> valid_subscription_id sid then (no_result, s, Some SaveFailed)
           else
             (no_result\<lparr>or_saved := True,
                or_active_was_in := (case x_active x of None \<Rightarrow> False | Some a \<Rightarrow> as_subscription a = sid)\<rparr>,
              (upd_xray (\<lambda>x. x\<lparr>x_servers := subscription_ips rest,
                 x_preferred := (case x_preferred x of
                    Some p \<Rightarrow> if as_subscription p = sid then None else Some p
                  | None \<Rightarrow> None)\<rparr>) cfg,
               delete_file sid files), None)))"

definition delete_subscription ::
  "updater \<Rightarrow> file_faults \<Rightarrow> string \<Rightarrow> store \<Rightarrow> bool \<times> store \<times> op_error option" where
  "delete_subscription update ff sid s =
     (case update (delete_body ff sid) s of
        (r, s', Some e) \<Rightarrow> (or_active_was_in r, s', Some (if or_saved r then ServersSaved e else e))
      | (r, s', None) \<Rightarrow> (or_active_was_in r, s', None))"


section \<open>Publishing a periodic refresh\<close>

definition publish_body ::
  "file_faults \<Rightarrow> int \<Rightarrow> int \<Rightarrow> string \<Rightarrow> string \<Rightarrow> server list \<Rightarrow> body" where
  "publish_body ff now since sid url listed s =
     (let (cfg, files) = s; subs = load_files files in
      if ff_load ff then (no_result, s, Some LoadFailed)
      else case find_subscription subs sid of
        None \<Rightarrow> (no_result, s, Some Gone)
      | Some i \<Rightarrow>
          if sub_url (subs ! i) \<noteq> url then (no_result, s, Some Gone)
          else if sub_refreshed (subs ! i) \<noteq> since then (no_result, s, Some Superseded)
          else
            (let stored = sub_servers (subs ! i);
                 m = merge_refresh stored listed;
                 r = no_result\<lparr>or_merge := Some m\<rparr>
             in if rm_servers m = [] then (r, s, Some NoServerResolved)
                else if sub_error (subs ! i) = [] \<and> rm_servers m = stored then (r, s, Some NothingToWrite)
                else
                  (let sub = (subs ! i)\<lparr>sub_servers := rm_servers m, sub_refreshed := stamp now, sub_error := []\<rparr>;
                       r1 = r\<lparr>or_cleared := sub_error (subs ! i) \<noteq> [], or_before := Some (subs ! i), or_sub := Some sub\<rparr>
                   in if ff_save ff \<or> \<not> valid_subscription_id (sub_id sub) then (r1, s, Some SaveFailed)
                      else
                        (let cfg1 = upd_xray (\<lambda>x. x\<lparr>x_servers := subscription_ips (subs[i := sub])\<rparr>) cfg;
                             (cfg2, log) = follow_renames cfg1 sid stored listed (rm_pairs m)
                         in (r1\<lparr>or_saved := True, or_followed := log\<rparr>, (cfg2, save_file sub files), None)))))"

definition restore_body :: "file_faults \<Rightarrow> subscription \<Rightarrow> subscription \<Rightarrow> body" where
  "restore_body ff before written s =
     (let (cfg, files) = s; subs = load_files files in
      if ff_load ff then (no_result, s, Some LoadFailed)
      else case find_subscription subs (sub_id written) of
        None \<Rightarrow> (no_result, s, Some NothingToWrite)
      | Some i \<Rightarrow>
          if sub_url (subs ! i) \<noteq> sub_url written \<or> sub_name (subs ! i) \<noteq> sub_name written
             \<or> sub_refreshed (subs ! i) \<noteq> sub_refreshed written \<or> sub_error (subs ! i) \<noteq> []
          then (no_result, s, Some NothingToWrite)
          else if ff_save ff \<or> \<not> valid_subscription_id (sub_id before) then (no_result, s, Some SaveFailed)
          else (no_result\<lparr>or_changed := True\<rparr>, (cfg, save_file before files), Some NothingToWrite))"

definition restore_subscription :: "updater \<Rightarrow> file_faults \<Rightarrow> subscription \<Rightarrow> subscription \<Rightarrow> store \<Rightarrow> bool \<times> store" where
  "restore_subscription update ff before written s =
     (case update (restore_body ff before written) s of (r, s', e) \<Rightarrow> (or_changed r, s'))"

text \<open>
  \<^verbatim>\<open>PublishRefresh\<close>: whether it wrote, its result, the store and the error. The update and the
  files of the second lock, should it come to that, are arguments of their own.
\<close>

definition publish_refresh ::
  "updater \<Rightarrow> file_faults \<Rightarrow> updater \<Rightarrow> file_faults \<Rightarrow> int \<Rightarrow> int \<Rightarrow> string \<Rightarrow> string \<Rightarrow> server list \<Rightarrow> store
     \<Rightarrow> bool \<times> op_result \<times> store \<times> op_error option" where
  "publish_refresh update ff update2 ff2 now since sid url listed s =
     (if url = [] then (False, no_result, s, Some StaticList)
      else case update (publish_body ff now since sid url listed) s of
        (r, s', None) \<Rightarrow> (True, r, s', None)
      | (r, s', Some e) \<Rightarrow>
          if e = NothingToWrite then (False, r, s', None)
          else if or_saved r then
            (case (or_before r, or_sub r) of
               (Some before, Some written) \<Rightarrow>
                 (let (put, s2) = restore_subscription update2 ff2 before written s'; r' = r\<lparr>or_followed := []\<rparr>
                  in if put then (False, r', s2, Some e) else (True, r', s2, Some (ServersSaved e)))
             | _ \<Rightarrow> (False, r, s', Some e))
          else (False, r\<lparr>or_followed := []\<rparr>, s', Some e))"

section \<open>What the files keep\<close>

definition files_ok :: "subscription list \<Rightarrow> bool" where
  "files_ok files \<longleftrightarrow> distinct (map sub_id files) \<and> (\<forall>s \<in> set files. valid_subscription_id (sub_id s))"

definition synced :: "store \<Rightarrow> bool" where
  "synced s \<longleftrightarrow> x_servers (cfg_xray (fst s)) = subscription_ips (load_files (snd s))"

lemma tagged_simps [simp]:
  "sub_id (tagged s) = sub_id s" "sub_url (tagged s) = sub_url s" "sub_name (tagged s) = sub_name s"
  "sub_added (tagged s) = sub_added s" "sub_refreshed (tagged s) = sub_refreshed s"
  "sub_error (tagged s) = sub_error s" "tagged (tagged s) = tagged s" "sub_key (tagged s) = sub_key s"
  by (simp_all add: tagged_def sub_key_def)

lemma set_load_files [simp]: "set (load_files files) = tagged ` set files"
  by (simp add: load_files_def)

lemma load_files_ids: "distinct (map sub_id files) \<Longrightarrow> distinct (map sub_id (load_files files))"
proof -
  assume d: "distinct (map sub_id files)"
  have "mset (map sub_id (load_files files)) = mset (map sub_id files)"
    by (simp add: load_files_def image_mset.compositionality comp_def)
  from mset_eq_imp_distinct_iff [OF this] d show ?thesis by blast
qed

lemma subscription_ips_tagged: "subscription_ips (map tagged xs) = subscription_ips xs"
  by (simp add: subscription_ips_def all_servers_def tagged_def comp_def)

lemma subscription_ips_cong_tagged:
  "tagged ` set xs = tagged ` set ys \<Longrightarrow> subscription_ips xs = subscription_ips ys"
  by (metis list.set_map subscription_ips_cong subscription_ips_tagged)

lemma subscription_ips_load: "subscription_ips (load_files files) = subscription_ips files"
  by (rule subscription_ips_cong_tagged) (simp add: image_image)

lemma files_ok_save: "files_ok files \<Longrightarrow> valid_subscription_id (sub_id sub) \<Longrightarrow> files_ok (save_file sub files)"
  by (auto simp: files_ok_def save_file_def distinct_map inj_on_def)

lemma files_ok_delete: "files_ok files \<Longrightarrow> files_ok (delete_file sid files)"
  by (auto simp: files_ok_def delete_file_def distinct_map inj_on_def)

lemma find_loaded:
  assumes "find_subscription (load_files files) sid = Some i"
  shows "i < length (load_files files)" "sub_id (load_files files ! i) = sid"
    "\<exists>s \<in> set files. load_files files ! i = tagged s"
proof -
  from find_subscription_Some [OF assms] show i: "i < length (load_files files)" "sub_id (load_files files ! i) = sid"
    by auto
  from i(1) have "load_files files ! i \<in> set (load_files files)" by (rule nth_mem)
  then show "\<exists>s \<in> set files. load_files files ! i = tagged s" by auto
qed

text \<open>Replacing or adding an entry of the loaded list is saving its file, as far as addresses go.\<close>

lemma set_update_ids:
  assumes "distinct (map sub_id xs)" "i < length xs" "sub_id sub = sub_id (xs ! i)"
  shows "set (xs[i := sub]) = insert sub {s \<in> set xs. sub_id s \<noteq> sub_id sub}"
proof -
  have "set (xs[i := sub]) = insert sub (set xs - {xs ! i})"
    using assms by (intro set_update_distinct) (simp_all add: distinct_map)
  also have "set xs - {xs ! i} = {s \<in> set xs. sub_id s \<noteq> sub_id sub}"
    using assms by (auto simp: distinct_map inj_on_def dest: nth_mem)
  finally show ?thesis .
qed

lemma tagged_others: "{s \<in> set (load_files files). sub_id s \<noteq> i} = tagged ` {s \<in> set files. sub_id s \<noteq> i}"
  by auto

lemma ips_replace:
  assumes "files_ok files" "i < length (load_files files)" "sub_id sub = sub_id (load_files files ! i)"
  shows "subscription_ips ((load_files files)[i := sub]) = subscription_ips (load_files (save_file sub files))"
proof -
  have d: "distinct (map sub_id (load_files files))" using assms(1) by (simp add: files_ok_def load_files_ids)
  have "tagged ` set ((load_files files)[i := sub]) = insert (tagged sub) (tagged ` {s \<in> set files. sub_id s \<noteq> sub_id sub})"
    unfolding set_update_ids [OF d assms(2,3)] tagged_others by (simp add: image_image)
  also have "\<dots> = tagged ` set (load_files (save_file sub files))"
    by (simp add: save_file_def image_image)
  finally show ?thesis by (rule subscription_ips_cong_tagged)
qed

lemma ips_append:
  assumes "sub_id sub \<notin> set (map sub_id files)"
  shows "subscription_ips (load_files files @ [sub]) = subscription_ips (load_files (save_file sub files))"
proof -
  have "filter (\<lambda>s. sub_id s \<noteq> sub_id sub) files = files" using assms by (intro filter_True ballI) (auto simp: image_iff)
  then show ?thesis by (intro subscription_ips_cong_tagged) (simp add: save_file_def image_image)
qed

lemma ips_remove:
  assumes "files_ok files" "i < length (load_files files)" "sub_id (load_files files ! i) = sid"
  shows "subscription_ips (take i (load_files files) @ drop (Suc i) (load_files files))
    = subscription_ips (load_files (delete_file sid files))"
proof -
  let ?xs = "load_files files"
  have d: "distinct (map sub_id ?xs)" using assms(1) by (simp add: files_ok_def load_files_ids)
  have xs: "?xs = take i ?xs @ ?xs ! i # drop (Suc i) ?xs" using assms(2) by (rule id_take_nth_drop)
  have "set (take i ?xs @ drop (Suc i) ?xs) = {s \<in> set ?xs. sub_id s \<noteq> sid}"
  proof -
    from d have "distinct (map sub_id (take i ?xs @ ?xs ! i # drop (Suc i) ?xs))" using xs by simp
    then have "sid \<notin> sub_id ` set (take i ?xs)" "sid \<notin> sub_id ` set (drop (Suc i) ?xs)"
      using assms(3) by auto
    then have "{s \<in> set (take i ?xs @ ?xs ! i # drop (Suc i) ?xs). sub_id s \<noteq> sid} = set (take i ?xs @ drop (Suc i) ?xs)"
      using assms(3) by (auto simp: image_iff)
    then show ?thesis using xs by simp
  qed
  then have "tagged ` set (take i ?xs @ drop (Suc i) ?xs) = tagged ` set (load_files (delete_file sid files))"
    by (simp only: tagged_others) (simp add: delete_file_def image_image)
  then show ?thesis by (rule subscription_ips_cong_tagged)
qed


section \<open>Bodies that save a list\<close>

fun is_saved :: "op_error \<Rightarrow> bool" where
  "is_saved (ServersSaved e) \<longleftrightarrow> True"
| "is_saved _ \<longleftrightarrow> False"

text \<open>
  The contract of a body that writes a list: it fails without a trace, or it saves a file, and then the
  configuration it leaves lists the addresses of the files it leaves.
\<close>

definition saving_body :: "body \<Rightarrow> bool" where
  "saving_body body \<longleftrightarrow>
     (\<forall>s r t x. files_ok (snd s) \<longrightarrow> body s = (r, t, x) \<longrightarrow>
        (case x of
           Some e \<Rightarrow> t = s \<and> \<not> or_saved r \<and> \<not> is_saved e
         | None \<Rightarrow> or_saved r \<and> synced t \<and> files_ok (snd t)))"

lemma saving_bodyI:
  assumes "\<And>cfg files r t e. files_ok files \<Longrightarrow> body (cfg, files) = (r, t, Some e) \<Longrightarrow>
      t = (cfg, files) \<and> \<not> or_saved r \<and> \<not> is_saved e"
    and "\<And>cfg files r t. files_ok files \<Longrightarrow> body (cfg, files) = (r, t, None) \<Longrightarrow>
      or_saved r \<and> synced t \<and> files_ok (snd t)"
  shows "saving_body body"
  using assms by (auto simp: saving_body_def split: option.split)

lemma synced_follow:
  "x_servers (cfg_xray cfg) = subscription_ips (load_files files) \<Longrightarrow>
     synced (fst (follow_renames cfg sid stored fresh pairs), files)"
  by (simp add: synced_def follow_renames_frame)

lemma not_ids: "sid \<notin> set (map sub_id (load_files files)) \<Longrightarrow> sid \<notin> set (map sub_id files)"
  by (auto simp: image_image)

lemma link_from_Some: "link_from i subs url = Some j \<Longrightarrow> i \<le> j \<and> j < i + length subs \<and> sub_url (subs ! (j - i)) = url"
proof (induction subs arbitrary: i)
  case (Cons s ss)
  show ?case
  proof (cases "sub_url s = url")
    case False
    with Cons.IH [of "Suc i"] Cons.prems have "Suc i \<le> j \<and> j < Suc i + length ss \<and> sub_url (ss ! (j - Suc i)) = url" by simp
    moreover from this have "(s # ss) ! (j - i) = ss ! (j - Suc i)" by (simp add: nth_Cons')
    ultimately show ?thesis by simp
  qed (use Cons in simp)
qed simp

lemma add_new_Inr:
  "add_new subs host name draws url now = Inr sub \<Longrightarrow>
     sub_id sub \<notin> set (map sub_id subs) \<and> length subs < max_subscriptions \<and> sub_url sub = url
     \<and> \<not> subscription_name_taken subs (sub_name sub) []"
  by (auto simp: add_new_def default_subscription_name_def split: if_splits option.splits
      dest: new_subscription_id_new name_loop_Some)

lemma add_existing_Inr: "add_existing subs name sub = Inr sub' \<Longrightarrow> sub_id sub' = sub_id sub \<and> sub_url sub' = sub_url sub"
  by (auto simp: add_existing_def split: if_splits)

lemma add_errors:
  "add_new subs host name draws url now = Inl e \<Longrightarrow> \<not> is_saved e"
  "add_existing subs name sub = Inl e \<Longrightarrow> \<not> is_saved e"
  by (auto simp: add_new_def add_existing_def split: if_splits option.splits)

lemma saving_add: "saving_body (add_body ff host draws now url name servers)"
proof (rule saving_bodyI)
  fix cfg files r t e
  assume "add_body ff host draws now url name servers (cfg, files) = (r, t, Some e)"
  then show "t = (cfg, files) \<and> \<not> or_saved r \<and> \<not> is_saved e"
    by (auto simp: add_body_def Let_def no_result_def dest: add_errors
        split: if_splits sum.splits option.splits)
next
  fix cfg files r t
  assume ok: "files_ok files" and run: "add_body ff host draws now url name servers (cfg, files) = (r, t, None)"
  let ?subs = "load_files files" and ?found = "link_from 0 (load_files files) url"
  from run obtain sub0 where
    sub0: "(case ?found of Some i \<Rightarrow> add_existing ?subs name (?subs ! i) | None \<Rightarrow> add_new ?subs host name draws url now) = Inr sub0"
    by (auto simp: add_body_def Let_def split: if_splits sum.splits)
  define sub where "sub = sub0\<lparr>sub_servers := servers, sub_refreshed := stamp now, sub_error := []\<rparr>"
  from run sub0 have v: "valid_subscription_id (sub_id sub)" and saved: "or_saved r" and files: "snd t = save_file sub files"
    and x: "x_servers (cfg_xray (fst t)) = subscription_ips (case ?found of None \<Rightarrow> ?subs @ [sub] | Some i \<Rightarrow> ?subs[i := sub])"
    by (auto simp: add_body_def Let_def sub_def follow_renames_frame no_result_def split: if_splits)
  have "synced t"
  proof (cases ?found)
    case None
    with sub0 have new: "add_new ?subs host name draws url now = Inr sub0" by simp
    have "sub_id sub = sub_id sub0" by (simp add: sub_def)
    with add_new_Inr [OF new] have "sub_id sub \<notin> set (map sub_id ?subs)" by metis
    from ips_append [OF not_ids [OF this]] None x show ?thesis by (simp add: synced_def files)
  next
    case (Some i)
    with sub0 have i: "sub_id sub = sub_id (?subs ! i)" by (simp add: add_existing_Inr sub_def)
    have "i < length ?subs" using link_from_Some [OF Some] by simp
    with Some x i show ?thesis by (simp add: synced_def files ips_replace [OF ok])
  qed
  with ok v saved show "or_saved r \<and> synced t \<and> files_ok (snd t)" by (simp add: files files_ok_save)
qed

text \<open>Refresh and publication write the entry they found.\<close>

lemma synced_replace:
  assumes "files_ok files" "find_subscription (load_files files) sid = Some i"
    and "sub_id sub = sub_id (load_files files ! i)"
    and "x_servers (cfg_xray cfg) = subscription_ips ((load_files files)[i := sub])"
  shows "synced (cfg, save_file sub files)"
  using ips_replace [OF assms(1) find_loaded(1) [OF assms(2)] assms(3)] assms(4) by (simp add: synced_def)

lemma saving_refresh: "saving_body (refresh_body ff now follows sid url servers)"
proof (rule saving_bodyI)
  fix cfg files r t e
  assume "refresh_body ff now follows sid url servers (cfg, files) = (r, t, Some e)"
  then show "t = (cfg, files) \<and> \<not> or_saved r \<and> \<not> is_saved e"
    by (auto simp: refresh_body_def Let_def no_result_def split: if_splits option.splits)
next
  fix cfg files r t
  assume ok: "files_ok files" and run: "refresh_body ff now follows sid url servers (cfg, files) = (r, t, None)"
  then obtain i where i: "find_subscription (load_files files) sid = Some i"
    by (auto simp: refresh_body_def Let_def split: if_splits option.splits)
  define sub where "sub = (load_files files ! i)\<lparr>sub_servers := servers, sub_refreshed := stamp now, sub_error := []\<rparr>"
  from run i have v: "valid_subscription_id (sub_id sub)" and saved: "or_saved r" and t: "snd t = save_file sub files"
    and x: "x_servers (cfg_xray (fst t)) = subscription_ips ((load_files files)[i := sub])"
    by (auto simp: refresh_body_def Let_def sub_def follow_renames_frame no_result_def split: if_splits)
  have "synced (fst t, save_file sub files)" by (rule synced_replace [OF ok i _ x]) (simp add: sub_def)
  then have "synced t" using t by (metis prod.collapse)
  with ok v saved show "or_saved r \<and> synced t \<and> files_ok (snd t)" by (simp add: t files_ok_save)
qed

lemma saving_publish: "saving_body (publish_body ff now since sid url listed)"
proof (rule saving_bodyI)
  fix cfg files r t e
  assume "publish_body ff now since sid url listed (cfg, files) = (r, t, Some e)"
  then show "t = (cfg, files) \<and> \<not> or_saved r \<and> \<not> is_saved e"
    by (auto simp: publish_body_def Let_def no_result_def split: if_splits option.splits prod.splits)
next
  fix cfg files r t
  assume ok: "files_ok files" and run: "publish_body ff now since sid url listed (cfg, files) = (r, t, None)"
  then obtain i where i: "find_subscription (load_files files) sid = Some i"
    by (auto simp: publish_body_def Let_def split: if_splits option.splits)
  define sub where "sub = (load_files files ! i)\<lparr>sub_servers := rm_servers (merge_refresh (sub_servers (load_files files ! i)) listed),
      sub_refreshed := stamp now, sub_error := []\<rparr>"
  from run i have v: "valid_subscription_id (sub_id sub)" and saved: "or_saved r" and t: "snd t = save_file sub files"
    and x: "x_servers (cfg_xray (fst t)) = subscription_ips ((load_files files)[i := sub])"
    by (auto simp: publish_body_def Let_def sub_def follow_renames_frame no_result_def case_prod_unfold split: if_splits)
  have "synced (fst t, save_file sub files)" by (rule synced_replace [OF ok i _ x]) (simp add: sub_def)
  then have "synced t" using t by (metis prod.collapse)
  with ok v saved show "or_saved r \<and> synced t \<and> files_ok (snd t)" by (simp add: t files_ok_save)
qed

lemma saving_delete: "saving_body (delete_body ff sid)"
proof (rule saving_bodyI)
  fix cfg files r t e
  assume "delete_body ff sid (cfg, files) = (r, t, Some e)"
  then show "t = (cfg, files) \<and> \<not> or_saved r \<and> \<not> is_saved e"
    by (auto simp: delete_body_def Let_def no_result_def split: if_splits option.splits)
next
  fix cfg files r t
  assume ok: "files_ok files" and run: "delete_body ff sid (cfg, files) = (r, t, None)"
  then obtain i where i: "find_subscription (load_files files) sid = Some i"
    by (auto simp: delete_body_def Let_def split: if_splits option.splits)
  from run i have saved: "or_saved r" and t: "snd t = delete_file sid files"
    and x: "x_servers (cfg_xray (fst t)) = subscription_ips (take i (load_files files) @ drop (Suc i) (load_files files))"
    by (auto simp: delete_body_def Let_def no_result_def split: if_splits)
  from x have "synced t"
    by (simp add: synced_def t ips_remove [OF ok find_loaded(1) [OF i] find_loaded(2) [OF i]])
  with ok saved show "or_saved r \<and> synced t \<and> files_ok (snd t)" by (simp add: t files_ok_delete)
qed


section \<open>What the operations guarantee through any update\<close>

lemma sorted_key_unique:
  assumes "sorted (map f xs)" "sorted (map f ys)" "distinct (map f xs)" "distinct (map f ys)"
    and "set xs = set ys"
  shows "xs = ys"
proof -
  have "map f xs = map f ys"
    using assms by (intro sorted_distinct_set_unique) simp_all
  moreover have "inj_on f (set xs \<union> set ys)" using assms(3,5) by (simp add: distinct_map)
  ultimately show ?thesis by (simp add: inj_on_map_eq_map)
qed

lemma load_files_cong:
  assumes "files_ok xs" "files_ok ys" "tagged ` set xs = tagged ` set ys"
  shows "load_files xs = load_files ys"
proof (rule sorted_key_unique)
  have d: "distinct (map sub_key (load_files zs))" if "files_ok zs" for zs
  proof -
    from that have "distinct (map (key_id \<circ> sub_key) (load_files zs))"
      using load_files_ids by (simp add: files_ok_def sub_key_def comp_def)
    then show ?thesis by (metis distinct_map map_map)
  qed
  show "distinct (map sub_key (load_files xs))" "distinct (map sub_key (load_files ys))"
    using d assms(1,2) by blast+
  show "sorted (map sub_key (load_files xs))" "sorted (map sub_key (load_files ys))"
    by (simp_all add: load_files_def)
  show "set (load_files xs) = set (load_files ys)" by (simp add: assms(3))
qed

context config_update
begin

lemma saving_outcome:
  assumes "saving_body body" "files_ok (snd s)" "update body s = (r, s', e)"
  shows "case e of
      None \<Rightarrow> or_saved r \<and> synced s' \<and> files_ok (snd s') \<and> body s = (r, s', None)
    | Some x \<Rightarrow> \<not> is_saved x \<and> fst s' = fst s \<and> files_ok (snd s') \<and> (\<not> or_saved r \<longrightarrow> s' = s)
        \<and> (or_saved r \<longrightarrow> x = UpdateFailed \<and> (\<exists>t. body s = (r, t, None) \<and> snd s' = snd t))"
proof (cases e)
  case None
  with assms(3) have "update body s = (r, s', None)" by simp
  then have b: "body s = (r, s', None)" by (rule success)
  from assms(1) [unfolded saving_body_def, rule_format, OF assms(2) b] b None show ?thesis by simp
next
  case (Some x)
  with assms(3) have "update body s = (r, s', Some x)" by simp
  then show ?thesis
  proof (cases rule: failure)
    case never_ran
    with assms(2) Some show ?thesis by (auto simp: no_result_def)
  next
    case (body_failed t)
    have "t = s \<and> \<not> or_saved r \<and> \<not> is_saved x"
      using assms(1) [unfolded saving_body_def, rule_format, OF assms(2) body_failed(1)] by simp
    with body_failed assms(2) Some show ?thesis by simp
  next
    case (not_saved t)
    have "or_saved r \<and> files_ok (snd t)"
      using assms(1) [unfolded saving_body_def, rule_format, OF assms(2) not_saved(1)] by simp
    with not_saved Some show ?thesis by simp
  qed
qed

lemma mark_saved_outcome:
  assumes "saving_body body" "files_ok (snd s)" "mark_saved (update body s) = (r, s', e)"
  shows "case e of
      None \<Rightarrow> synced s' \<and> files_ok (snd s')
    | Some x \<Rightarrow> fst s' = fst s \<and> files_ok (snd s') \<and> (\<not> is_saved x \<longrightarrow> s' = s)"
proof -
  obtain r0 s0 e0 where u: "update body s = (r0, s0, e0)" by (cases "update body s")
  from saving_outcome [OF assms(1,2) u] assms(3) show ?thesis
    by (auto simp: mark_saved_def u split: option.splits if_splits)
qed

lemma add_outcome:
  assumes "files_ok (snd s)" "add_subscription update ff host draws now url name servers s = (r, s', e)"
  shows "case e of
      None \<Rightarrow> synced s' \<and> files_ok (snd s')
    | Some x \<Rightarrow> fst s' = fst s \<and> files_ok (snd s') \<and> (\<not> is_saved x \<longrightarrow> s' = s)"
  using assms mark_saved_outcome [OF saving_add assms(1)]
  by (auto simp: add_subscription_def split: if_splits sum.splits)

lemma refresh_outcome:
  assumes "files_ok (snd s)" "refresh_subscription update ff now follows sid url servers s = (r, s', e)"
  shows "case e of
      None \<Rightarrow> synced s' \<and> files_ok (snd s')
    | Some x \<Rightarrow> fst s' = fst s \<and> files_ok (snd s') \<and> (\<not> is_saved x \<longrightarrow> s' = s)"
  using assms mark_saved_outcome [OF saving_refresh assms(1)]
  by (auto simp: refresh_subscription_def split: if_splits)

lemma delete_outcome:
  assumes "files_ok (snd s)" "delete_subscription update ff sid s = (a, s', e)"
  shows "case e of
      None \<Rightarrow> synced s' \<and> files_ok (snd s')
    | Some x \<Rightarrow> fst s' = fst s \<and> files_ok (snd s') \<and> (\<not> is_saved x \<longrightarrow> s' = s)"
proof -
  obtain r0 s0 e0 where u: "update (delete_body ff sid) s = (r0, s0, e0)" by (cases "update (delete_body ff sid) s")
  from saving_outcome [OF saving_delete assms(1) u] assms(2) show ?thesis
    by (auto simp: delete_subscription_def u split: option.splits if_splits)
qed

end


section \<open>A publication that fails leaves no trace\<close>

lemma publish_body_success:
  assumes "publish_body ff now since sid url listed (cfg, files) = (r, t, None)"
  obtains i sub where "find_subscription (load_files files) sid = Some i"
    "or_before r = Some (load_files files ! i)" "or_sub r = Some sub" "sub_id sub = sid"
    "snd t = save_file sub files" "valid_subscription_id sid"
proof -
  from assms obtain i where i: "find_subscription (load_files files) sid = Some i"
    by (auto simp: publish_body_def Let_def split: if_splits option.splits)
  let ?old = "load_files files ! i"
  let ?sub = "?old\<lparr>sub_servers := rm_servers (merge_refresh (sub_servers ?old) listed),
      sub_refreshed := stamp now, sub_error := []\<rparr>"
  from assms i have "or_before r = Some ?old" "or_sub r = Some ?sub" "snd t = save_file ?sub files"
    "valid_subscription_id (sub_id ?old)"
    by (auto simp: publish_body_def Let_def case_prod_unfold split: if_splits)
  with find_loaded(2) [OF i] i show ?thesis by (intro that [of i ?sub]) simp_all
qed

lemma restore_outcome:
  assumes "config_update update" and "files_ok (snd s)"
    and "restore_subscription update ff before written s = (put, s')"
  shows "fst s' = fst s \<and> snd s' = (if put then save_file before (snd s) else snd s)
    \<and> (put \<longrightarrow> valid_subscription_id (sub_id before))"
proof -
  obtain cfg files where s: "s = (cfg, files)" by (cases s)
  obtain r0 s0 e0 where u: "update (restore_body ff before written) s = (r0, s0, e0)"
    by (cases "update (restore_body ff before written) s")
  with assms(3) have r: "put = or_changed r0" "s' = s0" by (simp_all add: restore_subscription_def)
  have body: "\<exists>e. x = Some e \<and> t = (cfg, if or_changed r then save_file before files else files)
      \<and> (or_changed r \<longrightarrow> valid_subscription_id (sub_id before))"
    if "restore_body ff before written (cfg, files) = (r, t, x)" for r t x
    using that by (auto simp: restore_body_def Let_def no_result_def split: if_splits option.splits)
  have nc: "\<not> or_changed no_result" by (simp add: no_result_def)
  show ?thesis
    using config_update.update_outcome [OF assms(1) u]
  proof
    assume "r0 = no_result \<and> s0 = s \<and> (e0 = Some UpdateFailed \<or> e0 = Some Refused)"
    then show ?thesis using nc by (simp add: r)
  next
    assume "\<exists>t x. restore_body ff before written s = (r0, t, x) \<and>
      (case x of Some err \<Rightarrow> e0 = Some err \<and> s0 = (fst s, snd t)
       | None \<Rightarrow> (e0 = None \<and> s0 = t) \<or> (e0 = Some UpdateFailed \<and> s0 = (fst s, snd t)))"
    then obtain t x where b: "restore_body ff before written (cfg, files) = (r0, t, x)"
      and o: "case x of Some err \<Rightarrow> e0 = Some err \<and> s0 = (fst s, snd t)
       | None \<Rightarrow> (e0 = None \<and> s0 = t) \<or> (e0 = Some UpdateFailed \<and> s0 = (fst s, snd t))"
      unfolding s by blast
    from body [OF b] o show ?thesis by (auto simp: s r)
  qed
qed

lemma put_back:
  assumes "files_ok files" "find_subscription (load_files files) sid = Some i" "sub_id sub = sid" "valid_subscription_id sid"
  shows "load_files (save_file (load_files files ! i) (save_file sub files)) = load_files files"
proof -
  obtain b where b: "b \<in> set files" "load_files files ! i = tagged b" using find_loaded(3) [OF assms(2)] by blast
  have id: "sub_id b = sid" using find_loaded(2) [OF assms(2)] by (simp add: b(2))
  have "set (save_file (tagged b) (save_file sub files)) = insert (tagged b) {s \<in> set files. sub_id s \<noteq> sid}"
    using id assms(3) by (auto simp: save_file_def)
  then have "tagged ` set (save_file (tagged b) (save_file sub files)) = insert (tagged b) (tagged ` {s \<in> set files. sub_id s \<noteq> sid})"
    by simp
  also have "\<dots> = tagged ` set files"
  proof -
    have "s = b" if "s \<in> set files" "sub_id s = sid" for s
      using that b(1) id assms(1) by (auto simp: files_ok_def distinct_map dest: inj_onD)
    then show ?thesis using b(1) by auto
  qed
  finally show ?thesis unfolding b(2)
    using assms id by (intro load_files_cong files_ok_save) simp_all
qed

lemma publish_outcome:
  assumes upd: "config_update update" "config_update update2" and ok: "files_ok (snd s)" and sync: "synced s"
    and run: "publish_refresh update ff update2 ff2 now since sid url listed s = (wrote, r, s', e)"
  shows "case e of
      None \<Rightarrow> synced s' \<and> files_ok (snd s') \<and> (\<not> wrote \<longrightarrow> s' = s)
    | Some x \<Rightarrow> fst s' = fst s \<and> (wrote \<longleftrightarrow> is_saved x)
        \<and> (\<not> is_saved x \<longrightarrow> load_files (snd s') = load_files (snd s))"
proof (cases "url = []")
  case True
  with run show ?thesis by (auto simp: publish_refresh_def)
next
  case False
  let ?body = "publish_body ff now since sid url listed"
  obtain r0 s0 e0 where u: "update ?body s = (r0, s0, e0)" by (cases "update ?body s")
  note out = config_update.saving_outcome [OF upd(1) saving_publish ok u]
  show ?thesis
  proof (cases e0)
    case None
    with False run out show ?thesis by (auto simp: publish_refresh_def u)
  next
    case (Some x)
    show ?thesis
    proof (cases "x = NothingToWrite \<or> \<not> or_saved r0")
      case True
      with True out Some have "s0 = s" by auto
      with True False run out Some sync ok show ?thesis
        by (cases "x = NothingToWrite") (auto simp: publish_refresh_def u)
    next
      case nw: False
      with out Some obtain t where t: "?body s = (r0, t, None)" "snd s0 = snd t" and s0: "fst s0 = fst s" "files_ok (snd s0)"
        and x: "\<not> is_saved x" by auto
      obtain cfg files where s: "s = (cfg, files)" by (cases s)
      from t(1) s have "?body (cfg, files) = (r0, t, None)" by simp
      then obtain i sub where i: "find_subscription (load_files files) sid = Some i"
        and r0: "or_before r0 = Some (load_files files ! i)" "or_sub r0 = Some sub"
        and sub: "sub_id sub = sid" "snd t = save_file sub files" "valid_subscription_id sid"
        by (rule publish_body_success)
      obtain put s2 where res: "restore_subscription update2 ff2 (load_files files ! i) sub s0 = (put, s2)"
        by (cases "restore_subscription update2 ff2 (load_files files ! i) sub s0")
      note ro = restore_outcome [OF upd(2) s0(2) res]
      have files: "files_ok files" using ok s by simp
      have "publish_refresh update ff update2 ff2 now since sid url listed s
          = (if put then (False, r0\<lparr>or_followed := []\<rparr>, s2, Some x)
             else (True, r0\<lparr>or_followed := []\<rparr>, s2, Some (ServersSaved x)))"
        using False nw Some by (simp add: publish_refresh_def u r0 res)
      with run have "s' = s2" "wrote = (\<not> put)" "e = Some (if put then x else ServersSaved x)"
        by (simp_all split: if_splits)
      moreover have "load_files (snd s2) = load_files (snd s)" if put
        using that ro put_back [OF files i sub(1,3)] by (simp add: t(2) sub(2) s)
      ultimately show ?thesis using ro s0(1) x by (cases put) simp_all
    qed
  qed
qed


section \<open>Limits of the store\<close>

text \<open>At most ten subscriptions, no two of one name under ASCII folding, no two of one link.\<close>

definition store_limits :: "subscription list \<Rightarrow> bool" where
  "store_limits files \<longleftrightarrow> length files \<le> max_subscriptions \<and>
     (\<forall>s \<in> set files. \<forall>t \<in> set files. sub_id s \<noteq> sub_id t \<longrightarrow>
        fold_ascii (sub_name s) \<noteq> fold_ascii (sub_name t) \<and> (sub_url s = sub_url t \<longrightarrow> sub_url s = []))"

lemma store_limits_save:
  assumes "store_limits files"
    and "sub_id sub \<in> set (map sub_id files) \<or> length files < max_subscriptions"
    and "\<And>t. t \<in> set files \<Longrightarrow> sub_id t \<noteq> sub_id sub \<Longrightarrow>
      fold_ascii (sub_name t) \<noteq> fold_ascii (sub_name sub) \<and> (sub_url t = sub_url sub \<longrightarrow> sub_url sub = [])"
  shows "store_limits (save_file sub files)"
proof -
  have "length (filter (\<lambda>s. sub_id s \<noteq> sub_id sub) files) < max_subscriptions"
  proof (cases "sub_id sub \<in> set (map sub_id files)")
    case True
    then obtain t where "t \<in> set files" "\<not> sub_id t \<noteq> sub_id sub" by (metis (no_types) imageE list.set_map)
    then have "length (filter (\<lambda>s. sub_id s \<noteq> sub_id sub) files) < length files"
      by (rule length_filter_less)
    with assms(1) show ?thesis by (simp add: store_limits_def)
  next
    case False
    with assms(2) show ?thesis by (meson length_filter_le order_le_less_trans)
  qed
  moreover have "fold_ascii (sub_name s) \<noteq> fold_ascii (sub_name t) \<and> (sub_url s = sub_url t \<longrightarrow> sub_url s = [])"
    if s: "s \<in> set (save_file sub files)" and t: "t \<in> set (save_file sub files)" and ne: "sub_id s \<noteq> sub_id t" for s t
  proof -
    from s t ne consider "s \<in> set files" "t \<in> set files"
      | "s = sub" "t \<in> set files" "sub_id t \<noteq> sub_id sub" | "t = sub" "s \<in> set files" "sub_id s \<noteq> sub_id sub"
      by (auto simp: save_file_def)
    then show ?thesis
    proof cases
      case 1
      with assms(1) ne show ?thesis by (simp add: store_limits_def)
    next
      case 2
      with assms(3) [of t] show ?thesis by metis
    next
      case 3
      with assms(3) [of s] show ?thesis by metis
    qed
  qed
  ultimately show ?thesis unfolding store_limits_def by (simp add: save_file_def)
qed

lemma not_taken:
  assumes "\<not> subscription_name_taken (load_files files) name except" and "t \<in> set files" and "sub_id t \<noteq> except"
  shows "fold_ascii (sub_name t) \<noteq> fold_ascii name"
proof -
  from assms(2) have "tagged t \<in> set (load_files files)" by simp
  with assms show ?thesis unfolding subscription_name_taken_def list_ex_iff by (metis tagged_simps(1,3))
qed

lemma link_from_None: "link_from i subs url = None \<longleftrightarrow> url \<notin> set (map sub_url subs)"
  by (induction subs arbitrary: i) auto

lemma length_load_files [simp]: "length (load_files files) = length files"
  by (simp add: load_files_def)

lemma valid_id_nonempty: "valid_subscription_id i \<Longrightarrow> i \<noteq> []"
  by (auto simp: valid_subscription_id_def)

lemma add_body_limits:
  assumes ok: "files_ok files" and lim: "store_limits files"
    and run: "add_body ff host draws now url name servers (cfg, files) = (r, t, x)"
  shows "store_limits (snd t)"
proof -
  let ?subs = "load_files files" and ?found = "link_from 0 (load_files files) url"
  show ?thesis
  proof (cases "snd t = files")
    case False
    with run obtain sub0 where
      sub0: "(case ?found of Some i \<Rightarrow> add_existing ?subs name (?subs ! i) | None \<Rightarrow> add_new ?subs host name draws url now) = Inr sub0"
      by (auto simp: add_body_def Let_def split: if_splits sum.splits)
    define sub where "sub = sub0\<lparr>sub_servers := servers, sub_refreshed := stamp now, sub_error := []\<rparr>"
    have t: "snd t = save_file sub files" using run sub0 False
      by (auto simp: add_body_def Let_def sub_def split: if_splits)
    have "store_limits (save_file sub files)"
    proof (cases ?found)
      case None
      with sub0 have new: "add_new ?subs host name draws url now = Inr sub0" by simp
      note n = add_new_Inr [OF new]
      have "url \<notin> sub_url ` set files" using None by (simp add: link_from_None image_image)
      then have u: "sub_url s \<noteq> url" if "s \<in> set files" for s using that by blast
      show ?thesis
      proof (rule store_limits_save [OF lim])
        show "sub_id sub \<in> set (map sub_id files) \<or> length files < max_subscriptions" using n by simp
        fix s assume s: "s \<in> set files"
        with ok have "sub_id s \<noteq> []" by (auto simp: files_ok_def dest: valid_id_nonempty)
        with n not_taken [of files "sub_name sub0" "[]" s] s u [OF s]
        show "fold_ascii (sub_name s) \<noteq> fold_ascii (sub_name sub) \<and> (sub_url s = sub_url sub \<longrightarrow> sub_url sub = [])"
          by (simp add: sub_def)
      qed
    next
      case (Some i)
      with sub0 have ex: "add_existing ?subs name (?subs ! i) = Inr sub0" by simp
      have i: "i < length ?subs" "sub_url (?subs ! i) = url" using link_from_Some [OF Some] by simp_all
      then have "?subs ! i \<in> tagged ` set files" by (metis nth_mem set_load_files)
      then obtain b where b: "b \<in> set files" "?subs ! i = tagged b" by blast
      have id: "sub_id sub = sub_id b" "sub_url sub = sub_url b" using add_existing_Inr [OF ex] b by (simp_all add: sub_def)
      show ?thesis
      proof (rule store_limits_save [OF lim])
        show "sub_id sub \<in> set (map sub_id files) \<or> length files < max_subscriptions" using b id by simp
        fix s assume s: "s \<in> set files" "sub_id s \<noteq> sub_id sub"
        have "fold_ascii (sub_name s) \<noteq> fold_ascii (sub_name sub)"
        proof (cases "name \<noteq> [] \<and> name \<noteq> sub_name b")
          case True
          with ex b have "\<not> subscription_name_taken ?subs (sub_name sub) (sub_id b)"
            by (auto simp: add_existing_def sub_def split: if_splits)
          from not_taken [OF this s(1)] s(2) id show ?thesis by simp
        next
          case False
          with ex b have "sub_name sub = sub_name b" by (auto simp: add_existing_def sub_def split: if_splits)
          with lim s b(1) id show ?thesis by (simp add: store_limits_def)
        qed
        moreover have "sub_url s = sub_url sub \<longrightarrow> sub_url sub = []"
          using lim s b(1) id by (auto simp: store_limits_def)
        ultimately show "fold_ascii (sub_name s) \<noteq> fold_ascii (sub_name sub) \<and> (sub_url s = sub_url sub \<longrightarrow> sub_url sub = [])"
          by blast
      qed
    qed
    with t show ?thesis by simp
  qed (simp add: lim)
qed

lemma rename_body_limits:
  assumes lim: "store_limits files" and run: "rename_body ff sid name (cfg, files) = (r, t, x)"
  shows "store_limits (snd t)"
proof (cases "snd t = files")
  case False
  with run obtain i where i: "find_subscription (load_files files) sid = Some i"
    and nt: "\<not> subscription_name_taken (load_files files) name sid"
    and t: "snd t = save_file ((load_files files ! i)\<lparr>sub_name := name\<rparr>) files"
    by (auto simp: rename_body_def Let_def split: if_splits option.splits)
  obtain b where b: "b \<in> set files" "load_files files ! i = tagged b" using find_loaded(3) [OF i] by blast
  have id: "sub_id b = sid" using find_loaded(2) [OF i] by (simp add: b)
  show ?thesis unfolding t b(2)
  proof (rule store_limits_save [OF lim])
    show "sub_id ((tagged b)\<lparr>sub_name := name\<rparr>) \<in> set (map sub_id files) \<or> length files < max_subscriptions"
      using b(1) by simp
    fix s assume s: "s \<in> set files" "sub_id s \<noteq> sub_id ((tagged b)\<lparr>sub_name := name\<rparr>)"
    then show "fold_ascii (sub_name s) \<noteq> fold_ascii (sub_name ((tagged b)\<lparr>sub_name := name\<rparr>)) \<and>
      (sub_url s = sub_url ((tagged b)\<lparr>sub_name := name\<rparr>) \<longrightarrow> sub_url ((tagged b)\<lparr>sub_name := name\<rparr>) = [])"
      using not_taken [OF nt s(1)] lim b(1) id by (auto simp: store_limits_def)
  qed
qed (simp add: lim)

context config_update
begin

text \<open>Whatever the update does, the files are the ones it began with or the ones the body left.\<close>

lemma files_after: "update body s = (r, s', e) \<Longrightarrow> snd s' = snd s \<or> (\<exists>r t x. body s = (r, t, x) \<and> snd s' = snd t)"
  using update_outcome by (fastforce split: option.splits)

lemma limits_through:
  assumes "store_limits (snd s)" "\<And>r t x. body s = (r, t, x) \<Longrightarrow> store_limits (snd t)" "update body s = (r, s', e)"
  shows "store_limits (snd s')"
  using files_after [OF assms(3)] assms(1,2) by metis

end


section \<open>The properties of the operations\<close>

text \<open>The three operations that write a list, with their arguments.\<close>

datatype list_op =
  AddList string "string list" int string string "server list"
  | RefreshList int bool string string "server list"
  | DeleteList string

fun run_list_op :: "updater \<Rightarrow> file_faults \<Rightarrow> list_op \<Rightarrow> store \<Rightarrow> store \<times> op_error option" where
  "run_list_op update ff (AddList host draws now url name servers) s =
     snd (add_subscription update ff host draws now url name servers s)"
| "run_list_op update ff (RefreshList now follows sid url servers) s =
     snd (refresh_subscription update ff now follows sid url servers s)"
| "run_list_op update ff (DeleteList sid) s = snd (delete_subscription update ff sid s)"

text \<open>
  C10: An add, a refresh or a deletion that succeeds leaves xray.servers equal to the addresses of the
  subscription files; one that fails leaves the configuration alone, and, unless it says that the
  servers were saved, every file too. It holds for the service's update and for the watch's guarded one.
\<close>

theorem list_operations_in_step:
  assumes "files_ok (snd s)"
    and "run_list_op (guarded_update refused (locked_update u)) ff op s = (s', e)"
  shows "case e of
      None \<Rightarrow> synced s' \<and> files_ok (snd s')
    | Some x \<Rightarrow> fst s' = fst s \<and> files_ok (snd s') \<and> (\<not> is_saved x \<longrightarrow> s' = s)"
proof (cases op)
  case (AddList host draws now url name servers)
  with assms obtain r where "add_subscription (guarded_update refused (locked_update u)) ff host draws now url name servers s = (r, s', e)"
    by (metis prod.collapse run_list_op.simps(1))
  then show ?thesis using assms(1) by (rule watch.add_outcome [rotated])
next
  case (RefreshList now follows sid url servers)
  with assms obtain r where "refresh_subscription (guarded_update refused (locked_update u)) ff now follows sid url servers s = (r, s', e)"
    by (metis prod.collapse run_list_op.simps(2))
  then show ?thesis using assms(1) by (rule watch.refresh_outcome [rotated])
next
  case (DeleteList sid)
  with assms obtain r where "delete_subscription (guarded_update refused (locked_update u)) ff sid s = (r, s', e)"
    by (metis prod.collapse run_list_op.simps(3))
  then show ?thesis using assms(1) by (rule watch.delete_outcome [rotated])
qed

definition fine_update :: update_faults where
  "fine_update = \<lparr>uf_begin = False, uf_save = False\<rparr>"

definition fine_files :: file_faults where
  "fine_files = \<lparr>ff_load = False, ff_save = False, ff_delete = False\<rparr>"

theorem list_operations_in_step_witness:
  "synced (fst (run_list_op (guarded_update False (locked_update fine_update)) fine_files
      (RefreshList 9000000000 False ''0a1b2c3d'' ''https://one.example/token''
         [plain_server ''B'' ''b.example'' 443 [''203.0.113.9''] []])
      (example_config, [example_sub])))"
proof -
  let ?out = "run_list_op (guarded_update False (locked_update fine_update)) fine_files
      (RefreshList 9000000000 False ''0a1b2c3d'' ''https://one.example/token''
         [plain_server ''B'' ''b.example'' 443 [''203.0.113.9''] []])
      (example_config, [example_sub])"
  have ok: "files_ok (snd (example_config, [example_sub]))" by code_simp
  have e: "snd ?out = None"
    by (simp add: refresh_subscription_def guarded_update_def locked_update_def fine_update_def fine_files_def
        refresh_body_def load_files_def tagged_def example_sub_def find_subscription_def mark_saved_def
        valid_subscription_id_def byte_def Let_def)
  have "?out = (fst ?out, None)" using e by (metis prod.collapse)
  from list_operations_in_step [OF ok this] show ?thesis by simp
qed

text \<open>
  An add and a rename keep the limits of the store: ten subscriptions at most, no two of one name
  under ASCII folding, no two of one link, whatever part of the update fails.
\<close>

theorem names_and_limit_kept:
  assumes "files_ok (snd s)" and "store_limits (snd s)"
    and "snd (add_subscription (locked_update u) ff host draws now url name servers s) = (s1, e1)"
    and "snd (rename_subscription (locked_update u) ff sid raw s) = (s2, e2)"
  shows "store_limits (snd s1) \<and> store_limits (snd s2)"
proof
  obtain cfg files where s: "s = (cfg, files)" by (cases s)
  have add: "store_limits (snd t)" if "add_body ff host draws now url n servers s = (r, t, x)" for n r t x
    using add_body_limits [of files ff host draws now url n servers cfg r t x] assms(1,2) that by (simp add: s)
  show "store_limits (snd s1)"
  proof (cases "url = [] \<or> (name \<noteq> [] \<and> (\<exists>e. clean_subscription_name name = Inl e))")
    case True
    with assms(2,3) show ?thesis by (auto simp: add_subscription_def split: if_splits)
  next
    case False
    then obtain n where n: "(if name = [] then Inr [] else clean_subscription_name name) = (Inr n :: name_error + string)"
      by (cases "name = []"; cases "clean_subscription_name name") auto
    obtain r s0 e0 where u: "locked_update u (add_body ff host draws now url n servers) s = (r, s0, e0)"
      by (cases "locked_update u (add_body ff host draws now url n servers) s")
    have "store_limits (snd s0)" by (rule service.limits_through [OF assms(2) add u])
    moreover have "s1 = s0"
      using assms(3) False n by (auto simp: add_subscription_def u mark_saved_def split: option.splits if_splits)
    ultimately show ?thesis by simp
  qed
next
  obtain cfg files where s: "s = (cfg, files)" by (cases s)
  show "store_limits (snd s2)"
  proof (cases "clean_subscription_name raw")
    case (Inl e)
    with assms(2,4) show ?thesis by (simp add: rename_subscription_def)
  next
    case (Inr n)
    obtain r s0 e0 where u: "locked_update u (rename_body ff sid n) s = (r, s0, e0)"
      by (cases "locked_update u (rename_body ff sid n) s")
    have "store_limits (snd t)" if "rename_body ff sid n s = (r, t, x)" for r t x
      using rename_body_limits [of files ff sid n cfg r t x] assms(2) that by (simp add: s)
    from service.limits_through [OF assms(2) this u] show ?thesis
      using assms(4) by (simp add: rename_subscription_def Inr u)
  qed
qed

theorem names_and_limit_kept_witness:
  "store_limits (snd (fst (snd (rename_subscription (locked_update fine_update) fine_files ''0a1b2c3d'' ''Two''
      (example_config, [example_sub])))))"
proof -
  have "files_ok (snd (example_config, [example_sub]))" "store_limits (snd (example_config, [example_sub]))"
    by code_simp+
  from names_and_limit_kept [OF this prod.collapse [symmetric] prod.collapse [symmetric]]
  show ?thesis by blast
qed



text \<open>
  A periodic refresh that downloads the list the file already has, with no error recorded, writes
  nothing at all: neither the file nor the configuration.
\<close>

theorem unchanged_download_writes_nothing:
  assumes "find_subscription (load_files files) sid = Some i" and "load_files files ! i = sub"
    and "sub_url sub = url" and "url \<noteq> []" and "sub_refreshed sub = since" and "sub_error sub = []"
    and "sub_servers sub \<noteq> []" and "\<forall>b \<in> set (sub_servers sub). server_identity b \<noteq> []"
    and "\<not> ff_load ff" and "\<not> uf_begin u"
  shows "\<exists>r. publish_refresh (locked_update u) ff update2 ff2 now since sid url (sub_servers sub) (cfg, files)
    = (False, r, (cfg, files), None)"
proof -
  have "publish_body ff now since sid url (sub_servers sub) (cfg, files)
      = (no_result\<lparr>or_merge := Some (merge_refresh (sub_servers sub) (sub_servers sub))\<rparr>, (cfg, files), Some NothingToWrite)"
    using assms by (simp add: publish_body_def Let_def merge_refresh_self)
  then show ?thesis
    using assms(4,10) by (simp add: publish_refresh_def locked_update_def)
qed

theorem unchanged_download_writes_nothing_witness:
  "\<exists>r. publish_refresh (locked_update fine_update) fine_files (locked_update fine_update) fine_files 9000000000 7
      ''0a1b2c3d'' ''https://one.example/token'' (sub_servers (tagged example_sub)) (example_config, [example_sub])
    = (False, r, (example_config, [example_sub]), None)"
proof -
  have h: "find_subscription (load_files [example_sub]) ''0a1b2c3d'' = Some 0" "load_files [example_sub] ! 0 = tagged example_sub"
    "sub_url (tagged example_sub) = ''https://one.example/token''" "''https://one.example/token'' \<noteq> []"
    "sub_refreshed (tagged example_sub) = 7" "sub_error (tagged example_sub) = []" "sub_servers (tagged example_sub) \<noteq> []"
    "\<forall>b \<in> set (sub_servers (tagged example_sub)). server_identity b \<noteq> []"
    "\<not> ff_load fine_files" "\<not> uf_begin fine_update" by code_simp+
  from unchanged_download_writes_nothing [OF h] show ?thesis by simp
qed

text \<open>
  C39: A rename whose configuration write fails has changed the file all the same, and its error does
  not say so: unlike an add, a refresh or a deletion it returns the plain failure of the update.
\<close>

theorem failed_rename_leaves_new_name:
  assumes "find_subscription (load_files files) sid = Some i" and "clean_subscription_name raw = Inr name"
    and "\<not> subscription_name_taken (load_files files) name sid" and "valid_subscription_id sid"
    and "\<not> ff_load ff" and "\<not> ff_save ff" and "\<not> uf_begin u" and "uf_save u"
  shows "\<exists>r. rename_subscription (locked_update u) ff sid raw (cfg, files)
      = (r, (cfg, save_file ((load_files files ! i)\<lparr>sub_name := name\<rparr>) files), Some UpdateFailed)"
proof -
  have "sub_id (load_files files ! i) = sid" using assms(1) by (rule find_loaded(2))
  then show ?thesis
    using assms by (simp add: rename_subscription_def locked_update_def rename_body_def Let_def)
qed

theorem failed_rename_leaves_new_name_witness:
  "\<exists>r. rename_subscription (locked_update \<lparr>uf_begin = False, uf_save = True\<rparr>) fine_files ''0a1b2c3d'' ''Two''
     (example_config, [example_sub])
   = (r, (example_config, [(tagged example_sub)\<lparr>sub_name := ''Two''\<rparr>]), Some UpdateFailed)"
proof -
  have h: "find_subscription (load_files [example_sub]) ''0a1b2c3d'' = Some 0" "clean_subscription_name ''Two'' = Inr ''Two''"
    "\<not> subscription_name_taken (load_files [example_sub]) ''Two'' ''0a1b2c3d''" "valid_subscription_id ''0a1b2c3d''"
    "\<not> ff_load fine_files" "\<not> ff_save fine_files"
    "\<not> uf_begin \<lparr>uf_begin = False, uf_save = True\<rparr>" "uf_save \<lparr>uf_begin = False, uf_save = True\<rparr>" by code_simp+
  have l: "load_files [example_sub] ! 0 = tagged example_sub" by code_simp
  have "save_file ((tagged example_sub)\<lparr>sub_name := ''Two''\<rparr>) [example_sub] = [(tagged example_sub)\<lparr>sub_name := ''Two''\<rparr>]"
    by (simp add: save_file_def)
  with failed_rename_leaves_new_name [OF h] show ?thesis by (simp add: l)
qed

end
