(* ===== verification/Pending_Restore.thy ===== *)
theory Pending_Restore
  imports Clients
begin

text \<open>
  A restore that may be interrupted (\<^verbatim>\<open>vpnconfig/pending_restore.go\<close> and
  \<^verbatim>\<open>subwatch/recovery.go\<close>): the intent it records, which of its clients may go back to the
  failover, and the step that finishes it. The lemmas show what a reinstated snapshot can hold and that
  finishing a restore in either direction leaves every client on a route.
\<close>

section \<open>Beginning\<close>

definition begin_xray_restore :: "vpn_config \<Rightarrow> vpn_config \<times> pending_restore option" where
  "begin_xray_restore cfg =
     (case failover_of cfg of
        None \<Rightarrow> (cfg, None)
      | Some fo \<Rightarrow>
          if x_pending (cfg_xray cfg) \<noteq> None then (cfg, None)
          else
            (let snapshot = fo\<lparr>fo_committed := failover_committed cfg\<rparr>;
                 (cfg1, restored) = restore_xray_clients cfg;
                 p = \<lparr>pr_snapshot = Some snapshot, pr_restored = restored, pr_active = x_active (cfg_xray cfg)\<rparr>
             in (upd_xray (\<lambda>x. x\<lparr>x_pending := Some p\<rparr>) cfg1, Some p)))"

section \<open>What may go back\<close>

text \<open>
  The search of one address through the clients: its spelling on XRAY, or none when another route
  holds it - a tunnel that is not the failover's, or the failover's where the failover had put it.
\<close>

fun stored_on_xray :: "string \<Rightarrow> string \<Rightarrow> bool \<Rightarrow> string \<Rightarrow> client_info list \<Rightarrow> string" where
  "stored_on_xray key tunnel appended stored [] = stored"
| "stored_on_xray key tunnel appended stored (c # cs) =
     (if addr_key (ci_ip c) \<noteq> key then stored_on_xray key tunnel appended stored cs
      else if ci_route c = ''xray'' then stored_on_xray key tunnel appended (ci_ip c) cs
      else if ci_route c \<noteq> tunnel \<or> appended then []
      else stored_on_xray key tunnel appended stored cs)"

definition snapshot_step :: "vpn_config \<Rightarrow> failover \<Rightarrow> string \<Rightarrow> failover \<Rightarrow> failover" where
  "snapshot_step cfg original addr snap =
     (let key = addr_key addr in
      if list_ex (\<lambda>p. addr_key p = key) (cfg_paused cfg) \<or> \<not> td_carries addr
         \<or> \<not> lists_addr (fo_clients original) addr \<or> lists_addr (fo_clients snap) addr
      then snap
      else
        let appended = (case fo_added original of None \<Rightarrow> True | Some as \<Rightarrow> lists_addr as addr);
            stored = stored_on_xray key (fo_tunnel original) appended [] (collect_clients cfg)
        in if stored = [] then snap
           else snap\<lparr>fo_clients := fo_clients snap @ [stored],
                     fo_added := (if fo_added original \<noteq> None \<and> appended
                                  then map_option (\<lambda>as. as @ [stored]) (fo_added snap) else fo_added snap)\<rparr>)"

definition failover_snapshot :: "pending_restore \<Rightarrow> vpn_config \<Rightarrow> failover option" where
  "failover_snapshot p cfg =
     (case pr_snapshot p of
        None \<Rightarrow> None
      | Some original \<Rightarrow>
          if fo_tunnel original = [] then None
          else
            (let empty = \<lparr>fo_tunnel = fo_tunnel original, fo_clients = [],
                   fo_added = map_option (\<lambda>_. []) (fo_added original), fo_committed = fo_committed original\<rparr>;
                 snap = fold (snapshot_step cfg original) (pr_restored p) empty
             in if fo_clients snap = [] then None else Some snap))"

section \<open>Finishing\<close>

definition pending_restore_guard :: "vpn_config \<Rightarrow> pending_restore \<Rightarrow> bool" where
  "pending_restore_guard cfg expected \<longleftrightarrow>
     (case x_pending (cfg_xray cfg) of
        None \<Rightarrow> False
      | Some p \<Rightarrow> failover_of cfg = None \<and> x_active (cfg_xray cfg) = pr_active expected
          \<and> pr_active p = pr_active expected)"

datatype finish = GuardSuperseded | NeedsApply | ApplyFailed | Reinstated vpn_config | Finished bool bool vpn_config

text \<open>The callback of \<^verbatim>\<open>finalizeRestore\<close>; \<open>ready\<close> is what the probe of TPROXY answered.\<close>

definition finalize_restore :: "bool \<Rightarrow> bool \<Rightarrow> pending_restore \<Rightarrow> vpn_config \<Rightarrow> finish" where
  "finalize_restore ready applied expected cfg =
     (if \<not> pending_restore_guard cfg expected then GuardSuperseded
      else if ready \<and> \<not> applied then NeedsApply
      else case x_pending (cfg_xray cfg) of
        None \<Rightarrow> GuardSuperseded
      | Some pending \<Rightarrow>
          (let clear = upd_xray (\<lambda>x. x\<lparr>x_pending := None\<rparr>) in
           case failover_snapshot pending cfg of
             None \<Rightarrow> Finished (ready \<and> applied) False (clear cfg)
           | Some snapshot \<Rightarrow>
               if ready then Finished (ready \<and> applied) (ready \<and> applied \<and> fo_committed snapshot) (clear cfg)
               else if tunnel_of cfg (fo_tunnel snapshot) = None
               then (if applied then ApplyFailed else NeedsApply)
               else Reinstated (clear (apply_failover_snapshot cfg snapshot))))"

text \<open>The first branch of \<^verbatim>\<open>reconcileRestore\<close>: an intent for an older selection is discarded.\<close>

definition discard_stale_intent :: "vpn_config \<Rightarrow> vpn_config \<Rightarrow> vpn_config option" where
  "discard_stale_intent seen cfg =
     (case (x_pending (cfg_xray seen), x_pending (cfg_xray cfg)) of
        (Some p, Some q) \<Rightarrow>
          if x_active (cfg_xray cfg) = x_active (cfg_xray seen) \<and> pr_active q = pr_active p
          then Some (upd_xray (\<lambda>x. x\<lparr>x_pending := None\<rparr>) cfg) else None
      | _ \<Rightarrow> None)"

section \<open>What a reinstated snapshot holds\<close>

lemma stored_on_xray_sound:
  "stored_on_xray key tunnel appended stored cs = s \<Longrightarrow> s \<noteq> [] \<Longrightarrow>
     (s = stored \<or> (\<exists>c \<in> set cs. ci_ip c = s \<and> ci_route c = ''xray'' \<and> addr_key s = key))
     \<and> (\<forall>c \<in> set cs. addr_key (ci_ip c) = key \<longrightarrow> ci_route c = ''xray'' \<or> (ci_route c = tunnel \<and> \<not> appended))"
proof (induction cs arbitrary: stored)
  case (Cons c cs)
  show ?case
  proof (cases "addr_key (ci_ip c) = key \<and> ci_route c = ''xray''")
    case True
    with Cons.prems have "stored_on_xray key tunnel appended (ci_ip c) cs = s" by simp
    from Cons.IH [OF this Cons.prems(2)] True show ?thesis by auto
  next
    case False
    with Cons.prems have "stored_on_xray key tunnel appended stored cs = s"
      and "addr_key (ci_ip c) \<noteq> key \<or> (ci_route c = tunnel \<and> \<not> appended)"
      by (auto split: if_splits)
    from Cons.IH [OF this(1) Cons.prems(2)] this(2) False show ?thesis by auto
  qed
qed simp

definition may_return :: "vpn_config \<Rightarrow> failover \<Rightarrow> string \<Rightarrow> bool" where
  "may_return cfg original s \<longleftrightarrow>
     s \<in> set (xray_clients cfg) \<and> s \<noteq> [] \<and> lists_addr (fo_clients original) s \<and> \<not> lists_addr (cfg_paused cfg) s \<and>
     (\<forall>r. r \<noteq> ''xray'' \<longrightarrow> lists_addr (route_clients cfg r) s \<longrightarrow>
        r = fo_tunnel original \<and> (\<exists>as. fo_added original = Some as \<and> \<not> lists_addr as s))"

lemma collect_xray:
  assumes "routes_ok cfg"
  shows "c \<in> set (collect_clients cfg) \<Longrightarrow> ci_route c = ''xray'' \<Longrightarrow> ci_ip c \<in> set (xray_clients cfg)"
    and "r \<noteq> ''xray'' \<Longrightarrow> a \<in> set (route_clients cfg r) \<Longrightarrow> \<exists>c \<in> set (collect_clients cfg). ci_ip c = a \<and> ci_route c = r"
proof -
  have no_xray: "(''xray'', t) \<notin> set (cfg_tunnels cfg)" for t
    using assms by (force simp: routes_ok_def)
  show "c \<in> set (collect_clients cfg) \<Longrightarrow> ci_route c = ''xray'' \<Longrightarrow> ci_ip c \<in> set (xray_clients cfg)"
    using no_xray by (auto simp: collect_clients_def)
  show "\<exists>c \<in> set (collect_clients cfg). ci_ip c = a \<and> ci_route c = r" if "r \<noteq> ''xray''" "a \<in> set (route_clients cfg r)"
  proof -
    from that have a: "a \<in> set (tunnel_clients cfg r)" by (simp add: route_clients_def)
    then have "r \<in> set (keys (cfg_tunnels cfg))" by (rule tunnel_clients_keys)
    then have "\<lparr>ci_ip = a, ci_route = r, ci_paused = a \<in> set (cfg_paused cfg)\<rparr> \<in> set (collect_clients cfg)"
      using a by (auto simp: collect_clients_def)
    then show ?thesis by force
  qed
qed

lemma snapshot_step_sound:
  assumes ok: "routes_ok cfg" and new: "s \<in> set (fo_clients (snapshot_step cfg original addr snap))"
    and "s \<notin> set (fo_clients snap)"
  shows "may_return cfg original s"
proof -
  let ?app = "case fo_added original of None \<Rightarrow> True | Some as \<Rightarrow> lists_addr as addr"
  from new assms(3) have c: "\<not> list_ex (\<lambda>p. addr_key p = addr_key addr) (cfg_paused cfg)"
      "lists_addr (fo_clients original) addr" "s \<noteq> []"
      "stored_on_xray (addr_key addr) (fo_tunnel original) ?app [] (collect_clients cfg) = s"
    by (auto simp: snapshot_step_def Let_def split: if_splits)
  from stored_on_xray_sound [OF c(4) c(3)] c(3) have x: "s \<in> set (xray_clients cfg)" "addr_key s = addr_key addr"
    and r: "\<And>c. c \<in> set (collect_clients cfg) \<Longrightarrow> addr_key (ci_ip c) = addr_key addr \<Longrightarrow>
      ci_route c = ''xray'' \<or> (ci_route c = fo_tunnel original \<and> \<not> ?app)"
    using collect_xray(1) [OF ok] by auto
  have "r = fo_tunnel original \<and> (\<exists>as. fo_added original = Some as \<and> \<not> lists_addr as s)"
    if "r \<noteq> ''xray''" "lists_addr (route_clients cfg r) s" for r
  proof -
    from that(2) obtain a where a: "a \<in> set (route_clients cfg r)" "addr_key a = addr_key s"
      by (auto simp: lists_addr_def list_ex_iff)
    from collect_xray(2) [OF ok that(1) a(1)] obtain c where "c \<in> set (collect_clients cfg)" "ci_ip c = a" "ci_route c = r"
      by blast
    with r [of c] a(2) x(2) that(1) have "r = fo_tunnel original" "\<not> ?app" by auto
    then show ?thesis using x(2) by (auto simp: lists_addr_def split: option.splits)
  qed
  with x c show ?thesis by (auto simp: may_return_def lists_addr_def)
qed

lemma snapshot_fold_sound:
  assumes "routes_ok cfg" and "\<forall>s \<in> set (fo_clients snap). may_return cfg original s"
  shows "\<forall>s \<in> set (fo_clients (fold (snapshot_step cfg original) addrs snap)). may_return cfg original s"
  using assms(2)
proof (induction addrs arbitrary: snap)
  case (Cons addr addrs)
  have "\<forall>s \<in> set (fo_clients (snapshot_step cfg original addr snap)). may_return cfg original s"
    using snapshot_step_sound [OF assms(1)] Cons.prems by blast
  then show ?case using Cons.IH by simp
qed simp

lemma snapshot_fold_frame:
  "fo_tunnel (fold (snapshot_step cfg original) addrs snap) = fo_tunnel snap"
  "fo_committed (fold (snapshot_step cfg original) addrs snap) = fo_committed snap"
  "sound_record snap \<Longrightarrow> sound_record (fold (snapshot_step cfg original) addrs snap)"
proof -
  have step: "fo_tunnel (snapshot_step cfg original addr snap) = fo_tunnel snap"
    "fo_committed (snapshot_step cfg original addr snap) = fo_committed snap" for addr snap
    by (simp_all add: snapshot_step_def Let_def)
  have sound: "sound_record (snapshot_step cfg original addr snap)" if "sound_record snap" for addr snap
    using that by (auto simp: snapshot_step_def Let_def sound_record_def split: option.splits)
  show "fo_tunnel (fold (snapshot_step cfg original) addrs snap) = fo_tunnel snap"
    "fo_committed (fold (snapshot_step cfg original) addrs snap) = fo_committed snap"
    by (induction addrs arbitrary: snap) (simp_all add: step)
  show "sound_record snap \<Longrightarrow> sound_record (fold (snapshot_step cfg original) addrs snap)"
    by (induction addrs arbitrary: snap) (simp_all add: sound)
qed

lemma failover_snapshot_sound:
  assumes "routes_ok cfg" and "failover_snapshot p cfg = Some snap"
  obtains original where "pr_snapshot p = Some original" "fo_tunnel snap = fo_tunnel original"
    "fo_committed snap = fo_committed original" "fo_clients snap \<noteq> []" "sound_record snap"
    "\<And>s. s \<in> set (fo_clients snap) \<Longrightarrow> may_return cfg original s"
proof -
  from assms(2) obtain original where o: "pr_snapshot p = Some original"
    by (auto simp: failover_snapshot_def split: option.splits)
  let ?empty = "\<lparr>fo_tunnel = fo_tunnel original, fo_clients = [],
      fo_added = map_option (\<lambda>_. []) (fo_added original), fo_committed = fo_committed original\<rparr>"
  from assms(2) o have snap: "snap = fold (snapshot_step cfg original) (pr_restored p) ?empty" "fo_clients snap \<noteq> []"
    by (auto simp: failover_snapshot_def Let_def split: if_splits)
  have "sound_record ?empty" by (simp add: sound_record_def split: option.split)
  then have "sound_record snap" unfolding snap(1) by (rule snapshot_fold_frame)
  moreover have "\<forall>s \<in> set (fo_clients snap). may_return cfg original s"
    unfolding snap(1) by (rule snapshot_fold_sound [OF assms(1)]) simp
  ultimately show ?thesis
    using that [OF o] snap(2) by (simp add: snap(1) snapshot_fold_frame)
qed


section \<open>The properties of an interrupted restore\<close>

text \<open>
  What an interrupted restore puts back into a failover is a client that is on XRAY now under the
  spelling it records, that the failover had moved, that nobody has paused, and that no other route
  holds - unless it had been on the failover's tunnel before, where a restore leaves it.
\<close>

theorem reinstated_clients_belong:
  assumes "routes_ok cfg" and "failover_snapshot p cfg = Some snap" and "s \<in> set (fo_clients snap)"
  shows "\<exists>original. pr_snapshot p = Some original \<and> fo_tunnel snap = fo_tunnel original \<and>
    s \<in> set (xray_clients cfg) \<and> lists_addr (fo_clients original) s \<and> \<not> lists_addr (cfg_paused cfg) s \<and>
    (\<forall>r. r \<noteq> ''xray'' \<longrightarrow> lists_addr (route_clients cfg r) s \<longrightarrow>
       r = fo_tunnel original \<and> (\<exists>as. fo_added original = Some as \<and> \<not> lists_addr as s))"
  using assms(1,2)
proof (cases rule: failover_snapshot_sound)
  case (1 original)
  from 1(6) [OF assms(3)] 1(1,2) show ?thesis by (auto simp: may_return_def)
qed

definition example_pending :: pending_restore where
  "example_pending =
     \<lparr>pr_snapshot = Some \<lparr>fo_tunnel = ''wgc1'', fo_clients = [''192.168.1.10'', ''192.168.1.12''],
        fo_added = Some [''192.168.1.10'', ''192.168.1.12''], fo_committed = True\<rparr>,
      pr_restored = [''192.168.1.10'', ''192.168.1.12''], pr_active = None\<rparr>"

theorem reinstated_clients_belong_witness:
  "\<exists>snap. failover_snapshot example_pending example_config = Some snap \<and> fo_clients snap = [''192.168.1.10'']
    \<and> \<not> lists_addr (cfg_paused example_config) ''192.168.1.10''"
proof -
  let ?snap = "\<lparr>fo_tunnel = ''wgc1'', fo_clients = [''192.168.1.10''], fo_added = Some [''192.168.1.10''], fo_committed = True\<rparr>"
  have h: "routes_ok example_config" "failover_snapshot example_pending example_config = Some ?snap" by code_simp+
  from reinstated_clients_belong [OF h, of "''192.168.1.10''"] h(2) show ?thesis by auto
qed

text \<open>
  Finishing an interrupted restore, into XRAY or back into the failover, clears the intent, keeps
  every client on a route, and leaves a failover record that a later restore can undo.
\<close>

theorem finished_restore_keeps_clients:
  assumes "routes_ok cfg" and "covered cfg a"
    and "finalize_restore ready applied expected cfg = Reinstated cfg' \<or>
      (\<exists>done committed. finalize_restore ready applied expected cfg = Finished done committed cfg')"
  shows "covered cfg' a \<and> x_pending (cfg_xray cfg') = None \<and> undoable cfg'"
proof -
  let ?clear = "upd_xray (\<lambda>x. x\<lparr>x_pending := None\<rparr>)"
  from assms(3) have guard: "pending_restore_guard cfg expected"
    by (auto simp: finalize_restore_def split: if_splits)
  then obtain pending where p: "x_pending (cfg_xray cfg) = Some pending" and none: "failover_of cfg = None"
    by (auto simp: pending_restore_guard_def split: option.splits)
  have cleared: "covered (?clear c) a = covered c a" "undoable (?clear c) = undoable c" for c
    by (simp_all add: covered_def undoable_def)
  from assms(3) guard p consider "cfg' = ?clear cfg"
    | snap where "failover_snapshot pending cfg = Some snap" "cfg' = ?clear (apply_failover_snapshot cfg snap)"
    by (auto simp: finalize_restore_def Let_def split: if_splits option.splits)
  then show ?thesis
  proof cases
    case 1
    with assms(2) none show ?thesis by (simp add: cleared undoable_def covered_def)
  next
    case (2 snap)
    from assms(1) 2(1) have sound: "sound_record snap" and ne: "[] \<notin> set (fo_clients snap)"
      by (cases rule: failover_snapshot_sound; auto simp: may_return_def)+
    then have "\<And>as. fo_added snap = Some as \<Longrightarrow> [] \<notin> set as" by (auto simp: sound_record_def)
    with sound have op: "failover_op (\<lambda>c. apply_failover_snapshot c snap)" by (rule failover_op_reapply)
    have "undoable cfg" using none by (simp add: undoable_def)
    with failover_op.keeps_covered [OF op] failover_op.keeps_undoable [OF op] assms(2) 2(2)
    show ?thesis by (simp add: cleared)
  qed
qed

theorem finished_restore_keeps_clients_witness:
  "covered (upd_xray (\<lambda>x. x\<lparr>x_pending := None\<rparr>) (apply_failover_snapshot
      (example_config\<lparr>cfg_xray := example_xray\<lparr>x_pending := Some example_pending\<rparr>\<rparr>)
      (the (failover_snapshot example_pending (example_config\<lparr>cfg_xray := example_xray\<lparr>x_pending := Some example_pending\<rparr>\<rparr>)))))
    ''192.168.1.10''"
proof -
  let ?c = "example_config\<lparr>cfg_xray := example_xray\<lparr>x_pending := Some example_pending\<rparr>\<rparr>"
  let ?snap = "\<lparr>fo_tunnel = ''wgc1'', fo_clients = [''192.168.1.10''], fo_added = Some [''192.168.1.10''], fo_committed = True\<rparr>"
  let ?r = "upd_xray (\<lambda>x. x\<lparr>x_pending := None\<rparr>) (apply_failover_snapshot ?c (the (failover_snapshot example_pending ?c)))"
  have s: "failover_snapshot example_pending ?c = Some ?snap" "routes_ok ?c" "''192.168.1.10'' \<in> set (xray_clients ?c)"
    "pending_restore_guard ?c example_pending" "tunnel_of ?c ''wgc1'' \<noteq> None" by code_simp+
  have "finalize_restore False True example_pending ?c = Reinstated ?r"
    using s by (simp add: finalize_restore_def Let_def)
  moreover have "covered ?c ''192.168.1.10''" using s(3) by (simp add: covered_def)
  ultimately show ?thesis using finished_restore_keeps_clients [OF s(2), of "''192.168.1.10''" False True example_pending ?r] by blast
qed

end
