(* ===== verification/Go_Ip6.thy ===== *)
theory Go_Ip6
  imports Go_Net
begin

text \<open>
  The IPv6 side of \<^verbatim>\<open>net.ParseIP\<close> (\<^verbatim>\<open>net/netip.ParseAddr\<close>), and the 4-byte form of
  an address. An address with a zone is refused, as \<^verbatim>\<open>net.ParseIP\<close> refuses it.
\<close>

definition hex_digit_value :: "char \<Rightarrow> nat option" where
  "hex_digit_value c =
     (let b = byte c in
      if 48 \<le> b \<and> b \<le> 57 then Some (b - 48)
      else if 97 \<le> b \<and> b \<le> 102 then Some (b - 87)
      else if 65 \<le> b \<and> b \<le> 70 then Some (b - 55)
      else None)"

definition is_hex :: "char \<Rightarrow> bool" where
  "is_hex c \<longleftrightarrow> hex_digit_value c \<noteq> None"

definition hex_number :: "string \<Rightarrow> nat" where
  "hex_number s = foldl (\<lambda>n c. 16 * n + (case hex_digit_value c of Some v \<Rightarrow> v | None \<Rightarrow> 0)) 0 s"

text \<open>
  The loop over the groups: the bytes so far, the place of the double colon, and the rest. The result
  keeps what is left over, which makes the address invalid unless it is empty.
\<close>

function ip6_groups :: "go_ip \<Rightarrow> nat option \<Rightarrow> string \<Rightarrow> (go_ip \<times> nat option \<times> string) option" where
  "ip6_groups acc dots s =
     (if 16 \<le> length acc then Some (acc, dots, s)
      else
        let digits = takeWhile is_hex s; rest = dropWhile is_hex s;
            n = hex_number digits; acc' = acc @ [word_of_nat (n div 256), word_of_nat (n mod 256)]
        in if digits = [] \<or> 4 < length digits then None
           else case rest of
             [] \<Rightarrow> Some (acc', dots, [])
           | c # more \<Rightarrow>
               if c = CHR ''.'' then
                 (if (dots = None \<and> length acc \<noteq> 12) \<or> 16 < length acc + 4 then None
                  else map_option (\<lambda>b. (acc @ b, dots, [])) (parse_ipv4 s))
               else if c \<noteq> CHR '':'' \<or> more = [] then None
               else if hd more = CHR '':'' then
                 (if dots \<noteq> None then None
                  else if tl more = [] then Some (acc', Some (length acc'), [])
                  else ip6_groups acc' (Some (length acc')) (tl more))
               else ip6_groups acc' dots more)"
  by pat_completeness auto
termination
  by (relation "measure (\<lambda>(acc, dots, s). 16 - length acc)") auto

declare ip6_groups.simps [simp del]

definition expand_dots :: "go_ip \<Rightarrow> nat option \<Rightarrow> go_ip option" where
  "expand_dots acc dots =
     (case dots of
        None \<Rightarrow> if length acc = 16 then Some acc else None
      | Some i \<Rightarrow> if 16 \<le> length acc then None
          else Some (take i acc @ replicate (16 - length acc) 0 @ drop i acc))"

definition parse_ipv6 :: "string \<Rightarrow> go_ip option" where
  "parse_ipv6 s =
     (if CHR ''%'' \<in> set s then None
      else
        let lead = take 2 s = ''::''; body = (if lead then drop 2 s else s) in
        if lead \<and> body = [] then Some (replicate 16 0)
        else case ip6_groups [] (if lead then Some 0 else None) body of
          Some (acc, dots, []) \<Rightarrow> expand_dots acc dots
        | _ \<Rightarrow> None)"

text \<open>\<^verbatim>\<open>net.ParseIP\<close>: the first of the characters dot, colon and percent picks the parser.\<close>

definition parse_ip :: "string \<Rightarrow> go_ip option" where
  "parse_ip s =
     (case List.find (\<lambda>c. c = CHR ''.'' \<or> c = CHR '':'' \<or> c = CHR ''%'') s of
        None \<Rightarrow> None
      | Some c \<Rightarrow> if c = CHR ''.'' then parse_ipv4 s else if c = CHR '':'' then parse_ipv6 s else None)"

text \<open>\<^verbatim>\<open>IP.To4\<close>: an IPv4 address, or an IPv4-mapped one.\<close>

definition to4 :: "go_ip \<Rightarrow> go_ip option" where
  "to4 ip =
     (if length ip = 4 then Some ip
      else if length ip = 16 \<and> take 12 ip = replicate 10 0 @ [255, 255] then Some (drop 12 ip)
      else None)"

lemma length_expand_dots: "expand_dots acc dots = Some ip \<Longrightarrow> dots = None \<or> the dots \<le> length acc \<Longrightarrow> length ip = 16"
  by (auto simp: expand_dots_def split: option.splits if_splits)

lemma length_parse_ipv4: "parse_ipv4 s = Some ip \<Longrightarrow> length ip = 4"
  by (rule parse_ipv4_length)

end
