(* ===== verification/Endpoint.thy ===== *)
theory Endpoint
  imports Outbound Go_Ip6
begin

text \<open>
  What the walk and the monitor dial (\<^verbatim>\<open>endpoint/endpoint.go\<close>): one address of one server,
  with that address in its outbound, and the keys that name such an endpoint.

  \<^verbatim>\<open>ServerForDial\<close> changes a decoded outbound in place; here each change is the outbound
  with one path of it replaced. \<^const>\<open>AList.update\<close> is the assignment to a key of a Go map.
\<close>

section \<open>One address each\<close>

definition copies_of :: "server \<Rightarrow> server list" where
  "copies_of s = map (\<lambda>ip. s\<lparr>sv_ips := [ip]\<rparr>) (filter (\<lambda>ip. ip \<noteq> []) (sv_ips s))"

definition per_address :: "server list \<Rightarrow> server list" where
  "per_address servers = concat (map (\<lambda>s. if copies_of s = [] then [s] else copies_of s) servers)"

section \<open>The outbound that is dialed\<close>

text \<open>
  A write through the pointer of \<^verbatim>\<open>OutboundTarget\<close>: the first element of the list its
  protocol names, or the settings themselves.
\<close>

definition upd_target :: "((string \<times> json) list \<Rightarrow> (string \<times> json) list) \<Rightarrow> (string \<times> json) list \<Rightarrow> (string \<times> json) list" where
  "upd_target f ob =
     (case as_object (map_of ob ''settings'') of
        None \<Rightarrow> ob
      | Some settings \<Rightarrow>
          AList.update ''settings''
            (JObj (case map_of settings (target_key ob) of
                     Some (JArr (JObj first # rest)) \<Rightarrow>
                       AList.update (target_key ob) (JArr (JObj (f first) # rest)) settings
                   | Some (JArr (_ # _)) \<Rightarrow> settings
                   | _ \<Rightarrow> f settings)) ob)"

text \<open>A section of the stream settings, empty where it is missing or no object.\<close>

definition settings_of :: "(string \<times> json) list \<Rightarrow> string \<Rightarrow> (string \<times> json) list" where
  "settings_of ss key = (case as_object (map_of ss key) of Some m \<Rightarrow> m | None \<Rightarrow> [])"

definition fill_text :: "string \<Rightarrow> string \<Rightarrow> (string \<times> json) list \<Rightarrow> (string \<times> json) list" where
  "fill_text key host m = (if as_text (map_of m key) = [] then AList.update key (JStr host) m else m)"

text \<open>The host of a transport: its own, or one in its headers under any case of the name.\<close>

definition names_host :: "(string \<times> json) list \<Rightarrow> bool" where
  "names_host transport \<longleftrightarrow>
     as_text (map_of transport ''host'') \<noteq> [] \<or>
     list_ex (\<lambda>kv. equal_fold (fst kv) ''host'' \<and> as_text (Some (snd kv)) \<noteq> []) (settings_of transport ''headers'')"

definition transport_key :: "(string \<times> json) list \<Rightarrow> string" where
  "transport_key ss =
     (let network = as_text (map_of ss ''network'') in
      if network = ''ws'' \<or> network = ''websocket'' then ''wsSettings''
      else if network = ''httpupgrade'' then ''httpupgradeSettings''
      else if network = ''xhttp'' \<or> network = ''splithttp'' then
        (if as_object (map_of ss ''xhttpSettings'') = None \<and> as_object (map_of ss ''splithttpSettings'') \<noteq> None
         then ''splithttpSettings'' else ''xhttpSettings'')
      else [])"

definition stream_host :: "string \<Rightarrow> (string \<times> json) list \<Rightarrow> (string \<times> json) list" where
  "stream_host host ss =
     (let security = as_text (map_of ss ''security''); network = as_text (map_of ss ''network'') in
      if security = ''tls'' then
        AList.update ''tlsSettings'' (JObj (fill_text ''serverName'' host (settings_of ss ''tlsSettings''))) ss
      else if security \<noteq> [] \<and> security \<noteq> ''none'' then ss
      else if network = ''grpc'' then
        AList.update ''grpcSettings'' (JObj (fill_text ''authority'' host (settings_of ss ''grpcSettings''))) ss
      else if transport_key ss = [] then ss
      else
        let transport = settings_of ss (transport_key ss) in
        AList.update (transport_key ss)
          (JObj (if names_host transport then transport else AList.update ''host'' (JStr host) transport)) ss)"

definition keep_hostname :: "string \<Rightarrow> (string \<times> json) list \<Rightarrow> (string \<times> json) list" where
  "keep_hostname host ob =
     (case as_object (map_of ob ''streamSettings'') of
        None \<Rightarrow> ob
      | Some ss \<Rightarrow> AList.update ''streamSettings'' (JObj (stream_host host ss)) ob)"

definition dial_outbound :: "string \<Rightarrow> string \<Rightarrow> (string \<times> json) list \<Rightarrow> (string \<times> json) list" where
  "dial_outbound ip host ob =
     (let ob' = upd_target (AList.update ''address'' (JStr ip)) ob in
      if parse_ip host = None then keep_hostname host ob' else ob')"

definition first_ip :: "server \<Rightarrow> string" where
  "first_ip s = (case filter (\<lambda>v. v \<noteq> []) (sv_ips s) of [] \<Rightarrow> [] | ip # _ \<Rightarrow> ip)"

definition server_for_dial :: "server \<Rightarrow> server" where
  "server_for_dial s =
     (let ip = first_ip s; host = sv_address s in
      if ip = [] then s
      else if sv_outbound s = [] then
        s\<lparr>sv_address := ip,
          sv_sni := (if sv_sni s = [] \<and> sv_security s \<noteq> ''reality'' then host else sv_sni s)\<rparr>
      else case decode_outbound (sv_outbound s) of
             None \<Rightarrow> s
           | Some ob \<Rightarrow>
               if outbound_target ob = None then s
               else s\<lparr>sv_outbound := print_json (\<lambda>n. n) (JObj (dial_outbound ip host ob)), sv_address := ip\<rparr>)"

section \<open>Keys\<close>

definition dial_key :: "server \<Rightarrow> string" where
  "dial_key c = (if sv_outbound c = [] then [] else sv_outbound (server_for_dial c))"

text \<open>
  \<^verbatim>\<open>legacyDial\<close> as \<^verbatim>\<open>json.Marshal\<close> writes it: its fields in their order. An empty
  ALPN is nil, which the store keeps by omitting the field, and prints as null.
\<close>

definition json_member :: "string \<times> string \<Rightarrow> string" where
  "json_member kt = quote_string (fst kt) @ CHR 0x3A # snd kt"

definition legacy_dial :: "server \<Rightarrow> string" where
  "legacy_dial d =
     CHR 0x7B # join_with '','' (map json_member
       [(''address'', quote_string (sv_address d)), (''port'', show_int (sv_port d)), (''uuid'', quote_string (sv_uuid d)),
        (''security'', quote_string (sv_security d)), (''network'', quote_string (sv_network d)),
        (''flow'', quote_string (sv_flow d)), (''sni'', quote_string (sv_sni d)),
        (''fingerprint'', quote_string (sv_fingerprint d)), (''public_key'', quote_string (sv_public_key d)),
        (''short_id'', quote_string (sv_short_id d)),
        (''alpn'', if sv_alpn d = [] then ''null'' else print_json (\<lambda>n. n) (JArr (map JStr (sv_alpn d))))])
     @ [CHR 0x7D]"

definition key_material :: "server \<Rightarrow> string" where
  "key_material c = (if dial_key c = [] then ''legacy:'' @ legacy_dial (server_for_dial c) else dial_key c)"

definition endpoint_key :: "server \<Rightarrow> string" where
  "endpoint_key c = sha256_hex (key_material c)"

definition endpoint_keys :: "server \<Rightarrow> string list" where
  "endpoint_keys s = map endpoint_key (per_address [s])"

section \<open>Copies\<close>

lemma per_address_Nil [simp]: "per_address [] = []"
  by (simp add: per_address_def)

lemma per_address_Cons: "per_address (s # ss) = per_address [s] @ per_address ss"
  by (simp add: per_address_def)

lemma per_address_append: "per_address (xs @ ys) = per_address xs @ per_address ys"
  by (simp add: per_address_def)

lemma per_address_single:
  "per_address [s] = (if filter (\<lambda>ip. ip \<noteq> []) (sv_ips s) = [] then [s]
     else map (\<lambda>ip. s\<lparr>sv_ips := [ip]\<rparr>) (filter (\<lambda>ip. ip \<noteq> []) (sv_ips s)))"
  by (simp add: per_address_def copies_of_def)

lemma per_address_nonempty [simp]: "per_address [s] \<noteq> []"
  by (simp add: per_address_single)

lemma per_address_member:
  "c \<in> set (per_address servers) \<longleftrightarrow>
     (\<exists>s \<in> set servers. c \<in> set (per_address [s]))"
  by (auto simp: per_address_def)

lemma copy_cases:
  assumes "c \<in> set (per_address [s])"
  obtains (whole) "c = s" "filter (\<lambda>ip. ip \<noteq> []) (sv_ips s) = []"
  | (copy) ip where "c = s\<lparr>sv_ips := [ip]\<rparr>" "ip \<in> set (sv_ips s)" "ip \<noteq> []"
  using assms by (auto simp: per_address_single split: if_splits)

lemma copy_of_copy:
  assumes "c \<in> set (per_address servers)"
  shows "per_address [c] = [c]"
proof -
  obtain s where "c \<in> set (per_address [s])" using assms by (auto simp: per_address_member [of c servers])
  then show ?thesis
    by (cases rule: copy_cases) (simp_all add: per_address_single)
qed

lemma per_address_idem: "per_address (per_address servers) = per_address servers"
proof -
  have "(\<And>c. c \<in> set cs \<Longrightarrow> per_address [c] = [c]) \<Longrightarrow> per_address cs = cs" for cs
  proof (induction cs)
    case (Cons c cs)
    then show ?case using per_address_Cons [of c cs] by simp
  qed simp
  then show ?thesis using copy_of_copy by blast
qed

text \<open>A copy is dialed at its own address.\<close>

lemma copy_first_ip:
  "s\<lparr>sv_ips := [ip]\<rparr> \<in> set (per_address [s]) \<Longrightarrow> ip \<noteq> [] \<Longrightarrow> first_ip (s\<lparr>sv_ips := [ip]\<rparr>) = ip"
  by (simp add: first_ip_def)

section \<open>The outbound that is dialed, and no other\<close>

lemma as_object_Some [simp]: "as_object x = Some m \<longleftrightarrow> x = Some (JObj m)"
  by (cases x rule: as_object.cases) auto

lemma update_same: "map_of m k = Some v \<Longrightarrow> AList.update k v m = m"
  by (induction m) auto

lemma update_update: "AList.update k v (AList.update k w m) = AList.update k v m"
  by (induction m) auto

lemma outbound_target_cases:
  assumes "outbound_target ob = Some t"
  obtains (first) settings rest where "map_of ob ''settings'' = Some (JObj settings)"
      "map_of settings (target_key ob) = Some (JArr (JObj t # rest))"
  | (own) "map_of ob ''settings'' = Some (JObj t)"
      "\<And>x xs. map_of t (target_key ob) \<noteq> Some (JArr (x # xs))"
  using assms
  by (auto simp: outbound_target_def split: option.splits json.splits list.splits)

lemma target_key_other [simp]:
  "k \<noteq> ''protocol'' \<Longrightarrow> target_key (AList.update k v ob) = target_key ob"
  by (simp add: target_key_def)

lemma target_key_address [simp]: "target_key ob \<noteq> ''address''" "target_key ob \<noteq> ''settings''"
  by (simp_all add: target_key_def Let_def)

text \<open>A write to the target is the only change, and reads back.\<close>

lemma upd_target_target:
  assumes "outbound_target ob = Some t"
  shows "outbound_target (upd_target (AList.update ''address'' v) ob) = Some (AList.update ''address'' v t)"
  using assms
proof (cases rule: outbound_target_cases)
  case first
  then show ?thesis by (simp add: upd_target_def outbound_target_def)
next
  case own
  then show ?thesis
    by (auto simp: upd_target_def outbound_target_def split: option.splits json.splits list.splits)
qed

lemma upd_target_other:
  "k \<noteq> ''settings'' \<Longrightarrow> map_of (upd_target f ob) k = map_of ob k"
  by (simp add: upd_target_def split: option.splits)

lemma upd_target_key: "target_key (upd_target f ob) = target_key ob"
  by (simp add: target_key_def upd_target_other)

lemma upd_target_idem:
  assumes "outbound_target ob = Some t"
  shows "upd_target (AList.update ''address'' v) (upd_target (AList.update ''address'' v) ob)
    = upd_target (AList.update ''address'' v) ob"
  using assms
proof (cases rule: outbound_target_cases)
  case first
  then show ?thesis by (simp add: upd_target_def update_update)
next
  case own
  then show ?thesis
    by (auto simp: upd_target_def update_update split: option.splits json.splits list.splits)
qed

lemma keep_hostname_other:
  "k \<noteq> ''streamSettings'' \<Longrightarrow> map_of (keep_hostname host ob) k = map_of ob k"
  by (simp add: keep_hostname_def split: option.splits)

lemma keep_hostname_target: "outbound_target (keep_hostname host ob) = outbound_target ob"
proof -
  have key: "target_key (keep_hostname host ob) = target_key ob"
    by (simp add: target_key_def keep_hostname_other)
  have settings: "map_of (keep_hostname host ob) ''settings'' = map_of ob ''settings''"
    by (simp add: keep_hostname_other)
  show ?thesis unfolding outbound_target_def key settings ..
qed

lemma fill_text_text: "host \<noteq> [] \<Longrightarrow> as_text (map_of (fill_text key host m) key) \<noteq> []"
  by (simp add: fill_text_def)

lemma fill_text_idem: "fill_text key host (fill_text key host m) = fill_text key host m"
  by (auto simp: fill_text_def update_same)

lemma settings_of_update [simp]: "settings_of (AList.update k (JObj m) ss) k = m"
  by (simp add: settings_of_def)

text \<open>The section a stream's host goes to, where it goes anywhere.\<close>

lemma stream_host_security [simp]:
  "map_of (stream_host host ss) ''security'' = map_of ss ''security''"
  "map_of (stream_host host ss) ''network'' = map_of ss ''network''"
proof -
  have "transport_key ss \<noteq> ''security''" "transport_key ss \<noteq> ''network''"
    by (simp_all add: transport_key_def Let_def)
  then show "map_of (stream_host host ss) ''security'' = map_of ss ''security''"
      "map_of (stream_host host ss) ''network'' = map_of ss ''network''"
    by (simp_all add: stream_host_def Let_def)
qed

lemma transport_key_update:
  "transport_key (AList.update (transport_key ss) (JObj m) ss) = transport_key ss"
  by (auto simp: transport_key_def Let_def)

lemma transport_key_not_grpc: "transport_key ss \<noteq> ''grpcSettings''"
  by (simp add: transport_key_def Let_def)

lemma names_host_update:
  "host \<noteq> [] \<Longrightarrow> names_host (AList.update ''host'' (JStr host) transport)"
  by (simp add: names_host_def)

lemma stream_host_idem:
  assumes "host \<noteq> []"
  shows "stream_host host (stream_host host ss) = stream_host host ss"
proof -
  consider (tls) "as_text (map_of ss ''security'') = ''tls''"
    | (other) "as_text (map_of ss ''security'') \<notin> {[], ''none'', ''tls''}"
    | (grpc) "as_text (map_of ss ''security'') \<in> {[], ''none''}" "as_text (map_of ss ''network'') = ''grpc''"
    | (none) "as_text (map_of ss ''security'') \<in> {[], ''none''}" "as_text (map_of ss ''network'') \<noteq> ''grpc''"
        "transport_key ss = []"
    | (transport) "as_text (map_of ss ''security'') \<in> {[], ''none''}" "as_text (map_of ss ''network'') \<noteq> ''grpc''"
        "transport_key ss \<noteq> []"
    by blast
  then show ?thesis
  proof cases
    case tls
    then show ?thesis by (simp add: stream_host_def update_update fill_text_idem)
  next
    case other
    then show ?thesis by (simp add: stream_host_def)
  next
    case grpc
    then show ?thesis by (auto simp: stream_host_def update_update fill_text_idem)
  next
    case none
    then show ?thesis by (auto simp: stream_host_def)
  next
    case transport
    define m where "m = (if names_host (settings_of ss (transport_key ss)) then settings_of ss (transport_key ss)
      else AList.update ''host'' (JStr host) (settings_of ss (transport_key ss)))"
    have first: "stream_host host ss = AList.update (transport_key ss) (JObj m) ss"
      using transport by (auto simp: stream_host_def m_def)
    have "names_host m" by (simp add: m_def names_host_update assms)
    then have "stream_host host (AList.update (transport_key ss) (JObj m) ss) = AList.update (transport_key ss) (JObj m) ss"
      using transport first stream_host_security [of host ss]
      by (auto simp: stream_host_def [of host "AList.update _ _ _"] transport_key_update update_update Let_def)
    then show ?thesis by (simp add: first)
  qed
qed

lemma keep_hostname_idem:
  "host \<noteq> [] \<Longrightarrow> keep_hostname host (keep_hostname host ob) = keep_hostname host ob"
  by (simp add: keep_hostname_def stream_host_idem update_update split: option.splits)

lemma dial_outbound_target:
  assumes "outbound_target ob = Some t"
  shows "outbound_target (dial_outbound ip host ob) = Some (AList.update ''address'' (JStr ip) t)"
  using upd_target_target [OF assms] by (simp add: dial_outbound_def keep_hostname_target Let_def)

lemma dial_outbound_other:
  "k \<noteq> ''settings'' \<Longrightarrow> k \<noteq> ''streamSettings'' \<Longrightarrow> map_of (dial_outbound ip host ob) k = map_of ob k"
  by (simp add: dial_outbound_def upd_target_other keep_hostname_other Let_def)

definition stream_of :: "(string \<times> json) list \<Rightarrow> (string \<times> json) list" where
  "stream_of ob = settings_of ob ''streamSettings''"

lemma stream_of_upd_target [simp]: "stream_of (upd_target f ob) = stream_of ob"
  by (simp add: stream_of_def settings_of_def upd_target_other)

lemma stream_of_keep:
  "map_of ob ''streamSettings'' = Some (JObj ss) \<Longrightarrow> stream_of (keep_hostname host ob) = stream_host host ss"
  by (simp add: keep_hostname_def stream_of_def)

lemma stream_of_object: "map_of ob ''streamSettings'' = Some (JObj ss) \<Longrightarrow> stream_of ob = ss"
  by (simp add: stream_of_def settings_of_def)

text \<open>REALITY is left as it is: its server name is never the host of the proxy.\<close>

lemma stream_host_reality:
  "as_text (map_of ss ''security'') = ''reality'' \<Longrightarrow> stream_host host ss = ss"
  by (simp add: stream_host_def)

lemma stream_host_tls:
  assumes "as_text (map_of ss ''security'') = ''tls''" and "host \<noteq> []"
  shows "as_text (map_of (settings_of (stream_host host ss) ''tlsSettings'') ''serverName'') \<noteq> []"
  using assms by (simp add: stream_host_def fill_text_text)

section \<open>What is dialed\<close>

lemma first_ip_copy:
  assumes "c \<in> set (per_address [s])"
  shows "if first_ip c = [] then c = s else sv_ips c = [first_ip c] \<and> first_ip c \<in> set (sv_ips s)"
  using assms by (cases rule: copy_cases) (simp_all add: first_ip_def)

lemma copy_keeps_rest:
  assumes "c \<in> set (per_address [s])"
  shows "c = s\<lparr>sv_ips := sv_ips c\<rparr>"
  using assms by (cases rule: copy_cases) simp_all

lemma copy_exists:
  assumes "ip \<in> set (sv_ips s)" and "ip \<noteq> []"
  shows "s\<lparr>sv_ips := [ip]\<rparr> \<in> set (per_address [s])"
proof -
  have "filter (\<lambda>v. v \<noteq> []) (sv_ips s) \<noteq> []" using assms by (auto simp: filter_empty_conv)
  then show ?thesis using assms by (auto simp: per_address_single)
qed

text \<open>
  The copies of a list are one for each address of each server, with that address alone and nothing
  else changed; a server without an address is listed as it is, and copying again changes nothing.
\<close>

theorem copies_cover_addresses:
  "(\<forall>c \<in> set (per_address servers). \<exists>s \<in> set servers. c = s\<lparr>sv_ips := sv_ips c\<rparr> \<and>
      (if first_ip c = [] then c = s else sv_ips c = [first_ip c] \<and> first_ip c \<in> set (sv_ips s))) \<and>
   (\<forall>s \<in> set servers. \<forall>ip \<in> set (sv_ips s). ip \<noteq> [] \<longrightarrow> s\<lparr>sv_ips := [ip]\<rparr> \<in> set (per_address servers)) \<and>
   per_address (per_address servers) = per_address servers"
proof (intro conjI ballI impI)
  fix c
  assume "c \<in> set (per_address servers)"
  then obtain s where "s \<in> set servers" "c \<in> set (per_address [s])" by (auto simp: per_address_member [of c servers])
  then show "\<exists>s \<in> set servers. c = s\<lparr>sv_ips := sv_ips c\<rparr> \<and>
      (if first_ip c = [] then c = s else sv_ips c = [first_ip c] \<and> first_ip c \<in> set (sv_ips s))"
    using first_ip_copy copy_keeps_rest by blast
next
  fix s ip
  assume "s \<in> set servers" "ip \<in> set (sv_ips s)" "ip \<noteq> []"
  then show "s\<lparr>sv_ips := [ip]\<rparr> \<in> set (per_address servers)"
    using copy_exists by (auto simp: per_address_member [of _ servers])
qed (rule per_address_idem)

text \<open>
  The outbound that is dialed has the IP in its target's address and differs from the stored one
  in nothing else but its stream: a REALITY stream is left alone, a TLS one has a server name
  afterwards whenever the address was a host name, and a second pass over the stream changes nothing.
\<close>

theorem dial_changes_only_address:
  assumes "outbound_target ob = Some t" and "map_of ob ''streamSettings'' = Some (JObj ss)"
    and "parse_ip host = None" and "host \<noteq> []"
  shows "outbound_target (dial_outbound ip host ob) = Some (AList.update ''address'' (JStr ip) t) \<and>
    (\<forall>k. k \<noteq> ''settings'' \<and> k \<noteq> ''streamSettings'' \<longrightarrow> map_of (dial_outbound ip host ob) k = map_of ob k) \<and>
    (as_text (map_of ss ''security'') = ''reality'' \<longrightarrow> stream_of (dial_outbound ip host ob) = ss) \<and>
    (as_text (map_of ss ''security'') = ''tls'' \<longrightarrow>
       as_text (map_of (settings_of (stream_of (dial_outbound ip host ob)) ''tlsSettings'') ''serverName'') \<noteq> []) \<and>
    keep_hostname host (dial_outbound ip host ob) = dial_outbound ip host ob"
proof -
  let ?ob = "upd_target (AList.update ''address'' (JStr ip)) ob"
  have dial: "dial_outbound ip host ob = keep_hostname host ?ob" using assms(3) by (simp add: dial_outbound_def)
  have stream: "stream_of (dial_outbound ip host ob) = stream_host host ss"
    unfolding dial using assms(2) by (intro stream_of_keep) (simp add: upd_target_other)
  have again: "keep_hostname host (dial_outbound ip host ob) = dial_outbound ip host ob"
    unfolding dial using assms(4) by (rule keep_hostname_idem)
  show ?thesis
    unfolding stream using again assms(4)
    by (intro conjI allI impI) (auto simp: dial_outbound_target [OF assms(1)] dial_outbound_other
        stream_host_reality stream_host_tls)
qed

lemma dial_key_same: "dial_key c = dial_key d \<Longrightarrow> dial_key c \<noteq> [] \<Longrightarrow> endpoint_key c = endpoint_key d"
  by (simp add: endpoint_key_def key_material_def)

lemma server_for_dial_rename:
  "server_for_dial (s\<lparr>sv_name := n, sv_subscription := i\<rparr>) = (server_for_dial s)\<lparr>sv_name := n, sv_subscription := i\<rparr>"
  by (simp add: server_for_dial_def first_ip_def Let_def split: option.splits)

lemma legacy_dial_rename: "legacy_dial (s\<lparr>sv_name := n, sv_subscription := i\<rparr>) = legacy_dial s"
  by (simp add: legacy_dial_def)

text \<open>
  A key names what is dialed: copies of one dial key share it, and neither the name of a server nor
  its subscription has a part in it.
\<close>

theorem endpoint_key_names_dial:
  "(dial_key c = dial_key d \<and> dial_key c \<noteq> [] \<longrightarrow> endpoint_key c = endpoint_key d) \<and>
   endpoint_key (c\<lparr>sv_name := n, sv_subscription := i\<rparr>) = endpoint_key c \<and> length (endpoint_key c) = 64"
proof (intro conjI impI)
  have "dial_key (c\<lparr>sv_name := n, sv_subscription := i\<rparr>) = dial_key c"
    by (simp add: dial_key_def server_for_dial_rename)
  then show "endpoint_key (c\<lparr>sv_name := n, sv_subscription := i\<rparr>) = endpoint_key c"
    by (simp add: endpoint_key_def key_material_def server_for_dial_rename legacy_dial_rename)
  show "length (endpoint_key c) = 64" by (simp add: endpoint_key_def)
qed (use dial_key_same in blast)

section \<open>Witnesses\<close>

theorem copies_cover_addresses_witness:
  "let s = plain_server ''A'' ''a.example'' 443 [''1.2.3.4'', [], ''5.6.7.8''] [] in
     s\<lparr>sv_ips := [''5.6.7.8'']\<rparr> \<in> set (per_address [s])"
  using copies_cover_addresses [of "[plain_server ''A'' ''a.example'' 443 [''1.2.3.4'', [], ''5.6.7.8''] []]"]
  by (simp add: Let_def plain_server_def)

definition example_stream :: "(string \<times> json) list" where
  "example_stream = [(''security'', JStr ''tls''), (''network'', JStr ''tcp'')]"

definition example_outbound :: "(string \<times> json) list" where
  "example_outbound =
     [(''protocol'', JStr ''vless''),
      (''settings'', JObj [(''vnext'', JArr [JObj [(''address'', JStr ''a.example''), (''port'', JNum ''443'')]])]),
      (''streamSettings'', JObj example_stream)]"

theorem dial_changes_only_address_witness:
  "stream_of (dial_outbound ''1.2.3.4'' ''a.example'' example_outbound) \<noteq> [] \<and>
   outbound_target (dial_outbound ''1.2.3.4'' ''a.example'' example_outbound)
     = Some [(''address'', JStr ''1.2.3.4''), (''port'', JNum ''443'')]"
proof -
  let ?t = "[(''address'', JStr ''a.example''), (''port'', JNum ''443'')]"
  have "outbound_target example_outbound = Some ?t"
    by (simp add: example_outbound_def outbound_target_def target_key_def)
  moreover have "map_of example_outbound ''streamSettings'' = Some (JObj example_stream)"
    by (simp add: example_outbound_def)
  moreover have "parse_ip ''a.example'' = None" by code_simp
  ultimately have all: "outbound_target (dial_outbound ''1.2.3.4'' ''a.example'' example_outbound)
        = Some (AList.update ''address'' (JStr ''1.2.3.4'') ?t)"
      "as_text (map_of (settings_of (stream_of (dial_outbound ''1.2.3.4'' ''a.example'' example_outbound)) ''tlsSettings'') ''serverName'') \<noteq> []"
    using dial_changes_only_address [of example_outbound ?t example_stream "''a.example''" "''1.2.3.4''"]
    by (simp_all add: example_stream_def)
  then have "stream_of (dial_outbound ''1.2.3.4'' ''a.example'' example_outbound) \<noteq> []"
    by (auto simp: settings_of_def)
  with all(1) show ?thesis by simp
qed

theorem endpoint_key_names_dial_witness:
  "endpoint_key (plain_server ''A'' ''a.example'' 443 [''1.2.3.4''] ''{}'')
    = endpoint_key (plain_server ''B'' ''a.example'' 443 [''1.2.3.4''] ''{}'')"
proof -
  let ?a = "plain_server ''A'' ''a.example'' 443 [''1.2.3.4''] ''{}''"
    and ?b = "plain_server ''B'' ''a.example'' 443 [''1.2.3.4''] ''{}''"
  have "dial_key ?a = dial_key ?b \<and> dial_key ?a \<noteq> []" by code_simp
  then show ?thesis using endpoint_key_names_dial [of ?a ?b] by blast
qed

end
