(* ===== verification/Walk_Order.thy ===== *)
theory Walk_Order
  imports Selection Substore "HOL-Library.Multiset"
begin

text \<open>
  The list a walk goes through and the record it goes by (\<^verbatim>\<open>subwatch/order.go\<close>,
  \<^verbatim>\<open>actuality.go\<close>, and the helpers of \<^verbatim>\<open>watch.go\<close> that compare a record with a
  server): which entry the user's choice is, the order the servers are tried in, how a record stands
  against its list, and when another writer has superseded the walk.
\<close>

section \<open>A record and a server\<close>

definition unit_sep :: string where
  "unit_sep = [CHR 0x1F]"

definition no_address :: "active_server \<Rightarrow> bool" where
  "no_address a \<longleftrightarrow> as_address a = [] \<and> as_port a = 0"

definition same_server :: "server \<Rightarrow> active_server option \<Rightarrow> bool" where
  "same_server s a =
     (case a of
        None \<Rightarrow> False
      | Some r \<Rightarrow>
          if sv_subscription s \<noteq> as_subscription r \<or> sv_name s \<noteq> as_name r then False
          else if no_address r then True
          else sv_address s = as_address r \<and> sv_port s = as_port r)"

definition active_id :: "active_server option \<Rightarrow> string" where
  "active_id a =
     (case a of
        None \<Rightarrow> []
      | Some r \<Rightarrow>
          if no_address r then as_subscription r @ unit_sep @ as_name r
          else as_subscription r @ unit_sep @ as_name r @ unit_sep @ as_address r @ unit_sep @ show_int (as_port r))"

definition record_mark :: "active_server option \<Rightarrow> string" where
  "record_mark a = (case a of None \<Rightarrow> [] | Some r \<Rightarrow> as_group r @ unit_sep @ as_identity r)"

definition server_id :: "server \<Rightarrow> string" where
  "server_id s = sv_subscription s @ unit_sep @ sv_name s @ unit_sep @ sv_address s @ unit_sep @ show_int (sv_port s)"

section \<open>The entry of a choice\<close>

definition choice_rank :: "active_server \<Rightarrow> server \<Rightarrow> nat" where
  "choice_rank a s =
     (if same_server s (Some a) then 0 else 2)
     + (if as_identity a = [] \<or> identity_mark s \<noteq> as_identity a then 1 else 0)"

fun chosen_loop :: "active_server \<Rightarrow> nat \<Rightarrow> nat option \<Rightarrow> nat \<Rightarrow> server list \<Rightarrow> nat option" where
  "chosen_loop a i best rank [] = best"
| "chosen_loop a i best rank (s # ss) =
     (if \<not> same_choice (Some a) s then chosen_loop a (Suc i) best rank ss
      else
        let r = choice_rank a s; best' = (if r < rank then Some i else best); rank' = (if r < rank then r else rank) in
        if rank' = 0 then best' else chosen_loop a (Suc i) best' rank' ss)"

definition chosen_index :: "server list \<Rightarrow> active_server option \<Rightarrow> nat option" where
  "chosen_index servers a =
     (case a of None \<Rightarrow> None
      | Some r \<Rightarrow> if as_name r = [] then None else chosen_loop r 0 None 4 servers)"

definition pick_order :: "server list \<Rightarrow> active_server option \<Rightarrow> server list" where
  "pick_order servers chosen =
     (case chosen_index servers chosen of
        None \<Rightarrow> servers
      | Some i \<Rightarrow> servers ! i # take i servers @ drop (Suc i) servers)"

section \<open>The order of a walk\<close>

definition own_first :: nat where
  "own_first = 3"

text \<open>
  One pass over the queues in the order of the indices: the first server of each that has one, and
  the queues without it.
\<close>

fun turns :: "nat list \<Rightarrow> 'a list list \<Rightarrow> 'a list \<times> 'a list list" where
  "turns [] qs = ([], qs)"
| "turns (i # is) qs =
     (case qs ! i of
        [] \<Rightarrow> turns is qs
      | s # rest \<Rightarrow> (case turns is (qs[i := rest]) of (out, qs') \<Rightarrow> (s # out, qs')))"

lemma turns_size:
  "turns is qs = (out, qs') \<Longrightarrow> \<forall>i \<in> set is. i < length qs \<Longrightarrow>
     sum_list (map length qs') + length out = sum_list (map length qs)"
proof (induction "is" qs arbitrary: out rule: turns.induct)
  case (2 i "is" qs)
  show ?case
  proof (cases "qs ! i")
    case Nil
    then show ?thesis using 2 by simp
  next
    case (Cons s rest)
    obtain o' where o': "turns is (qs[i := rest]) = (o', qs')" "out = s # o'"
      using "2.prems"(1) Cons by (auto split: prod.splits)
    have "sum_list (map length qs') + length o' = sum_list (map length (qs[i := rest]))"
      using "2.IH"(2) [OF Cons o'(1)] "2.prems"(2) by simp
    moreover have "sum_list (map length qs) = sum_list (map length (qs[i := rest])) + 1"
    proof -
      have "i < length qs" using "2.prems"(2) by simp
      then have split: "qs = take i qs @ (s # rest) # drop (Suc i) qs" using Cons by (metis id_take_nth_drop)
      have "qs[i := rest] = take i qs @ rest # drop (Suc i) qs" using \<open>i < length qs\<close> by (rule upd_conv_take_nth_drop)
      then show ?thesis using arg_cong [OF split, of "\<lambda>q. sum_list (map length q)"] by simp
    qed
    ultimately show ?thesis using o'(2) by simp
  qed
qed simp

function rounds :: "nat \<Rightarrow> 'a list list \<Rightarrow> 'a list" where
  "rounds start qs =
     (case turns (map (\<lambda>k. (start + k) mod length qs) [0..<length qs]) qs of
        (out, qs') \<Rightarrow> if out = [] then [] else out @ rounds start qs')"
  by pat_completeness auto
termination
proof (relation "measure (\<lambda>(start, qs). sum_list (map length qs))", goal_cases)
  case (2 start qs out qs')
  then have t: "turns (map (\<lambda>k. (start + k) mod length qs) [0..<length qs]) qs = (out, qs')" and "0 < length out"
    by simp_all
  have "(start + i) mod length qs < length qs" if "i < length qs" for i
    using that by (intro mod_less_divisor) linarith
  then have "\<forall>i \<in> set (map (\<lambda>k. (start + k) mod length qs) [0..<length qs]). i < length qs" by auto
  from turns_size [OF t this] \<open>0 < length out\<close>
  have "sum_list (map length qs') < sum_list (map length qs)" by linarith
  then show ?case by simp
qed simp

declare rounds.simps [simp del]

definition own_queue :: "subscription list \<Rightarrow> active_server option \<Rightarrow> nat option" where
  "own_queue subs chosen =
     (case chosen of None \<Rightarrow> None | Some a \<Rightarrow> find_subscription subs (as_subscription a))"

definition walk_order :: "subscription list \<Rightarrow> active_server option \<Rightarrow> server list \<times> bool" where
  "walk_order subs chosen =
     (if subs = [] then ([], False)
      else
        let queues = map (\<lambda>sub. tag_servers (sub_id sub) (sub_servers sub)) subs in
        case own_queue subs chosen of
          None \<Rightarrow> (rounds 0 queues, False)
        | Some own \<Rightarrow>
            let q = pick_order (queues ! own) chosen; n = min own_first (length q) in
            (take n q @ rounds ((own + 1) mod length subs) (queues[own := drop n q]),
             chosen_index (queues ! own) chosen \<noteq> None))"

section \<open>How a record stands against its list\<close>

datatype actuality = Actual_Unknown | Actual_Current | Actual_Changed | Actual_Moved | Actual_Gone

fun classify_loop :: "active_server \<Rightarrow> server list \<Rightarrow> server option \<Rightarrow> server list \<Rightarrow> actuality \<times> server option" where
  "classify_loop a named changed [] =
     (case changed of
        Some s \<Rightarrow> (Actual_Changed, Some s)
      | None \<Rightarrow> (case named of [s] \<Rightarrow> (Actual_Moved, Some s) | _ \<Rightarrow> (Actual_Gone, None)))"
| "classify_loop a named changed (s # ss) =
     (if \<not> same_choice (Some a) s then classify_loop a named changed ss
      else if no_address a then (Actual_Current, Some s)
      else if sv_address s = as_address a \<and> sv_port s = as_port a then
        (if as_identity a = [] \<or> identity_mark s = as_identity a then (Actual_Current, Some s)
         else classify_loop a named (if changed = None then Some s else changed) ss)
      else classify_loop a (named @ [s]) changed ss)"

definition classify_active :: "subscription list \<Rightarrow> active_server option \<Rightarrow> actuality \<times> server option" where
  "classify_active subs a =
     (case a of
        None \<Rightarrow> (Actual_Unknown, None)
      | Some r \<Rightarrow>
          if as_subscription r = [] \<or> as_name r = [] then (Actual_Unknown, None)
          else case find_subscription subs (as_subscription r) of
                 None \<Rightarrow> (Actual_Gone, None)
               | Some i \<Rightarrow> classify_loop r [] None (tag_servers (sub_id (subs ! i)) (sub_servers (subs ! i))))"

section \<open>A newer selection\<close>

definition superseded :: "active_server option \<Rightarrow> string \<Rightarrow> string \<Rightarrow> int \<Rightarrow> bool" where
  "superseded active started last_recorded expected_seq =
     (if active_seq active \<noteq> expected_seq then True
      else
        let cur = active_id active in
        if last_recorded = [] then cur \<noteq> [] \<and> cur \<noteq> started
        else if cur = [] \<or> cur = last_recorded then False
        else \<not> (case active of Some a \<Rightarrow> no_address a | None \<Rightarrow> False))"

section \<open>The turns\<close>

definition turn_order :: "nat \<Rightarrow> nat \<Rightarrow> nat list" where
  "turn_order start n = map (\<lambda>k. (start + k) mod n) [0..<n]"

lemma turn_order_rotate: "turn_order start n = rotate start [0..<n]"
  by (rule nth_equalityI) (simp_all add: turn_order_def nth_rotate)

lemma set_turn_order [simp]: "set (turn_order start n) = {0..<n}"
  by (simp add: turn_order_rotate)

lemma distinct_turn_order [simp]: "distinct (turn_order start n)"
  by (simp add: turn_order_rotate)

lemma mset_turn_order: "mset (turn_order start n) = mset [0..<n]"
  by (intro set_eq_iff_mset_eq_distinct [THEN iffD1]) simp_all

text \<open>Row \<open>r\<close>: the \<open>r\<close>-th server of every queue that has one.\<close>

definition row :: "nat list \<Rightarrow> nat \<Rightarrow> 'a list list \<Rightarrow> 'a list" where
  "row is r qs = map (\<lambda>i. qs ! i ! r) (filter (\<lambda>i. r < length (qs ! i)) is)"

lemma turns_spec:
  assumes "distinct is" and "\<forall>i \<in> set is. i < length qs"
  shows "turns is qs = (row is 0 qs, map (\<lambda>j. if j \<in> set is then tl (qs ! j) else qs ! j) [0..<length qs])"
  using assms
proof (induction "is" qs rule: turns.induct)
  case (1 qs)
  then show ?case by (simp add: row_def map_nth)
next
  case (2 i "is" qs)
  show ?case
  proof (cases "qs ! i")
    case Nil
    have "turns is qs = (row is 0 qs, map (\<lambda>j. if j \<in> set is then tl (qs ! j) else qs ! j) [0..<length qs])"
      using "2.IH"(1) [OF Nil] "2.prems" by simp
    then show ?thesis using Nil by (auto simp: row_def)
  next
    case (Cons s rest)
    let ?qs = "qs[i := rest]"
    have other: "?qs ! j = qs ! j" if "j \<in> set is" for j
    proof -
      have "j \<noteq> i" using that "2.prems"(1) by auto
      then show ?thesis by simp
    qed
    have "row is 0 ?qs = row is 0 qs"
      unfolding row_def using other by (intro map_cong filter_cong) simp_all
    moreover have "turns is ?qs
        = (row is 0 ?qs, map (\<lambda>j. if j \<in> set is then tl (?qs ! j) else ?qs ! j) [0..<length qs])"
      using "2.IH"(2) [OF Cons] "2.prems" by simp
    moreover have "map (\<lambda>j. if j \<in> set is then tl (?qs ! j) else ?qs ! j) [0..<length qs]
        = map (\<lambda>j. if j \<in> set (i # is) then tl (qs ! j) else qs ! j) [0..<length qs]"
      using Cons "2.prems" other by (intro map_cong) (auto simp: nth_list_update)
    ultimately show ?thesis using Cons by (simp add: row_def)
  qed
qed

lemma turns_all:
  "turns (turn_order start (length qs)) qs = (row (turn_order start (length qs)) 0 qs, map tl qs)"
proof -
  have "map (\<lambda>j. if j \<in> set (turn_order start (length qs)) then tl (qs ! j) else qs ! j) [0..<length qs] = map tl qs"
    by (rule nth_equalityI) simp_all
  then show ?thesis using turns_spec [of "turn_order start (length qs)" qs] by simp
qed

lemma rounds_step:
  "rounds start qs =
     (let out = row (turn_order start (length qs)) 0 qs in
      if out = [] then [] else out @ rounds start (map tl qs))"
  using turns_all [of start qs, unfolded turn_order_def]
  by (subst rounds.simps) (simp add: turn_order_def Let_def)

lemma row_tl: "(\<And>i. i \<in> set is \<Longrightarrow> i < length qs) \<Longrightarrow> row is r (map tl qs) = row is (Suc r) qs"
  unfolding row_def by (intro map_cong filter_cong) (auto simp: nth_tl less_diff_conv)

lemma queues_empty: "(\<forall>i \<in> {0..<length qs}. qs ! i = []) \<longleftrightarrow> (\<forall>q \<in> set qs. q = [])"
  by (auto simp: all_set_conv_all_nth)

lemma row_empty:
  "row (turn_order start (length qs)) 0 qs = [] \<longleftrightarrow> (\<forall>q \<in> set qs. q = [])"
  using queues_empty [of qs] by (simp add: row_def filter_empty_conv)

lemma rounds_rows:
  "(\<forall>q \<in> set qs. length q \<le> m) \<Longrightarrow>
     rounds start qs = concat (map (\<lambda>r. row (turn_order start (length qs)) r qs) [0..<m])"
proof (induction m arbitrary: qs)
  case 0
  then have "row (turn_order start (length qs)) 0 qs = []" by (simp add: row_empty)
  then show ?case by (subst rounds_step) simp
next
  case (Suc m)
  let ?is = "turn_order start (length qs)"
  have rows: "map (\<lambda>r. row ?is r qs) [0..<Suc m] = row ?is 0 qs # map (\<lambda>r. row ?is r (map tl qs)) [0..<m]"
    using row_tl [of ?is qs] by (simp add: upt_conv_Cons map_Suc_upt [symmetric] comp_def del: upt_Suc)
  show ?case
  proof (cases "row ?is 0 qs = []")
    case True
    then have "\<forall>q \<in> set qs. q = []" by (simp add: row_empty)
    then have "\<forall>i \<in> {0..<length qs}. qs ! i = []" by (simp add: queues_empty)
    then have "row ?is r qs = []" for r
      by (simp add: row_def filter_empty_conv)
    then show ?thesis using True by (subst rounds_step) simp
  next
    case False
    have "rounds start (map tl qs) = concat (map (\<lambda>r. row ?is r (map tl qs)) [0..<m])"
      using Suc.IH [of "map tl qs"] Suc.prems by fastforce
    then show ?thesis using False rows by (subst rounds_step) (simp add: Let_def)
  qed
qed

lemma mset_row_0: "mset (row (turn_order start (length qs)) 0 qs) = mset (map hd (filter (\<lambda>q. q \<noteq> []) qs))"
proof -
  have "mset (row (turn_order start (length qs)) 0 qs) = mset (map (\<lambda>i. qs ! i ! 0) (filter (\<lambda>i. 0 < length (qs ! i)) [0..<length qs]))"
    unfolding row_def by (simp only: mset_map mset_filter mset_turn_order)
  also have "map (\<lambda>i. qs ! i ! 0) (filter (\<lambda>i. 0 < length (qs ! i)) [0..<length qs]) = map hd (filter (\<lambda>q. q \<noteq> []) qs)"
  proof -
    have "filter (\<lambda>q. q \<noteq> []) qs = map ((!) qs) (filter (\<lambda>i. 0 < length (qs ! i)) [0..<length qs])"
      by (subst map_nth [of qs, symmetric], subst filter_map) (simp add: comp_def)
    then show ?thesis by (simp add: hd_conv_nth)
  qed
  finally show ?thesis .
qed

lemma mset_heads_tails:
  "mset (map hd (filter (\<lambda>q. q \<noteq> []) qs)) + mset (concat (map tl qs)) = mset (concat qs)"
proof (induction qs)
  case (Cons q qs)
  then show ?case by (cases q) simp_all
qed simp

lemma mset_rounds: "mset (rounds start qs) = mset (concat qs)"
proof (induction "sum_list (map length qs)" arbitrary: qs rule: less_induct)
  case less
  let ?row = "row (turn_order start (length qs)) 0 qs"
  show ?case
  proof (cases "?row = []")
    case True
    then show ?thesis by (subst rounds_step) (simp add: row_empty)
  next
    case False
    have "length ?row + length (concat (map tl qs)) = length (concat qs)"
      using arg_cong [OF mset_heads_tails [of qs], of size] arg_cong [OF mset_row_0 [of start qs], of size] by simp
    moreover have "0 < length ?row" using False by simp
    ultimately have "length (concat (map tl qs)) < length (concat qs)" by linarith
    then have "sum_list (map length (map tl qs)) < sum_list (map length qs)"
      by (simp add: length_concat)
    then have "mset (rounds start (map tl qs)) = mset (concat (map tl qs))" by (rule less.hyps)
    then show ?thesis
      using False mset_heads_tails [of qs] by (subst rounds_step) (simp add: Let_def mset_row_0)
  qed
qed

section \<open>The entry of a choice, found\<close>

definition best_entry :: "active_server \<Rightarrow> nat \<Rightarrow> server list \<Rightarrow> nat \<Rightarrow> bool" where
  "best_entry a rank ss k \<longleftrightarrow>
     k < length ss \<and> same_choice (Some a) (ss ! k) \<and> choice_rank a (ss ! k) < rank \<and>
     (\<forall>j < length ss. same_choice (Some a) (ss ! j) \<longrightarrow> choice_rank a (ss ! k) \<le> choice_rank a (ss ! j)) \<and>
     (\<forall>j < k. same_choice (Some a) (ss ! j) \<longrightarrow> choice_rank a (ss ! k) < choice_rank a (ss ! j))"

lemma best_entry_later:
  assumes "best_entry a rank ss k" and "same_choice (Some a) s \<longrightarrow> choice_rank a (ss ! k) < choice_rank a s"
  shows "best_entry a rank (s # ss) (Suc k)"
proof -
  have "choice_rank a (ss ! k) \<le> choice_rank a ((s # ss) ! j)"
    if "j < length (s # ss)" "same_choice (Some a) ((s # ss) ! j)" for j
    using that assms by (cases j) (auto simp: best_entry_def)
  moreover have "choice_rank a (ss ! k) < choice_rank a ((s # ss) ! j)"
    if "j < Suc k" "same_choice (Some a) ((s # ss) ! j)" for j
    using that assms by (cases j) (auto simp: best_entry_def)
  ultimately show ?thesis using assms(1) by (auto simp: best_entry_def)
qed

lemma best_entry_here:
  assumes "same_choice (Some a) s" and "choice_rank a s < rank"
    and "\<forall>t \<in> set ss. same_choice (Some a) t \<longrightarrow> choice_rank a s \<le> choice_rank a t"
  shows "best_entry a rank (s # ss) 0"
proof -
  have "choice_rank a s \<le> choice_rank a ((s # ss) ! j)"
    if "j < length (s # ss)" "same_choice (Some a) ((s # ss) ! j)" for j
    using that assms(3) by (cases j) auto
  then show ?thesis using assms(1,2) by (auto simp: best_entry_def)
qed

lemma best_entry_rank: "best_entry a r ss k \<Longrightarrow> r \<le> rank \<Longrightarrow> best_entry a rank ss k"
  by (auto simp: best_entry_def)

lemma chosen_loop_spec:
  "0 < rank \<Longrightarrow>
     (\<exists>k. best_entry a rank ss k \<and> chosen_loop a i best rank ss = Some (i + k)) \<or>
     ((\<forall>t \<in> set ss. same_choice (Some a) t \<longrightarrow> rank \<le> choice_rank a t) \<and> chosen_loop a i best rank ss = best)"
proof (induction ss arbitrary: i best rank)
  case (Cons s ss)
  let ?r = "choice_rank a s"
  consider (other) "\<not> same_choice (Some a) s" | (exact) "same_choice (Some a) s" "?r < rank" "?r = 0"
    | (better) "same_choice (Some a) s" "?r < rank" "0 < ?r" | (worse) "same_choice (Some a) s" "rank \<le> ?r"
    by linarith
  then show ?case
  proof cases
    case other
    from Cons.IH [OF Cons.prems, of "Suc i" best] show ?thesis
    proof (elim disjE exE conjE)
      fix k
      assume "best_entry a rank ss k" "chosen_loop a (Suc i) best rank ss = Some (Suc i + k)"
      then have "best_entry a rank (s # ss) (Suc k) \<and> chosen_loop a i best rank (s # ss) = Some (i + Suc k)"
        using other by (simp add: best_entry_later)
      then show ?thesis by blast
    qed (simp add: other)
  next
    case exact
    have "best_entry a rank (s # ss) 0" by (rule best_entry_here) (use exact in simp_all)
    moreover have "chosen_loop a i best rank (s # ss) = Some (i + 0)" using exact by simp
    ultimately show ?thesis by blast
  next
    case better
    from Cons.IH [OF better(3), of "Suc i" "Some i"] show ?thesis
    proof (elim disjE exE conjE)
      fix k
      assume k: "best_entry a ?r ss k" and loop: "chosen_loop a (Suc i) (Some i) ?r ss = Some (Suc i + k)"
      have "best_entry a rank (s # ss) (Suc k)"
        using best_entry_rank [OF k, of rank] k better by (intro best_entry_later) (simp_all add: best_entry_def)
      moreover have "chosen_loop a i best rank (s # ss) = Some (i + Suc k)" using better loop by simp
      ultimately show ?thesis by blast
    next
      assume least: "\<forall>t \<in> set ss. same_choice (Some a) t \<longrightarrow> ?r \<le> choice_rank a t"
        and loop: "chosen_loop a (Suc i) (Some i) ?r ss = Some i"
      have "best_entry a rank (s # ss) 0" using better least by (intro best_entry_here) simp_all
      moreover have "chosen_loop a i best rank (s # ss) = Some (i + 0)" using better loop by simp
      ultimately show ?thesis by blast
    qed
  next
    case worse
    from Cons.IH [OF Cons.prems, of "Suc i" best] show ?thesis
    proof (elim disjE exE conjE)
      fix k
      assume k: "best_entry a rank ss k" and loop: "chosen_loop a (Suc i) best rank ss = Some (Suc i + k)"
      have "best_entry a rank (s # ss) (Suc k)"
        using k worse by (intro best_entry_later) (auto simp: best_entry_def)
      moreover have "chosen_loop a i best rank (s # ss) = Some (i + Suc k)"
        using worse loop Cons.prems by simp
      ultimately show ?thesis by blast
    qed (use worse Cons.prems in simp)
  qed
qed simp

lemma choice_rank_bound: "choice_rank a s < 4"
  by (simp add: choice_rank_def)

lemma chosen_index_cases:
  assumes "as_name a \<noteq> []"
  shows "case chosen_index servers (Some a) of
      None \<Rightarrow> \<forall>s \<in> set servers. \<not> same_choice (Some a) s
    | Some k \<Rightarrow> best_entry a 4 servers k"
  using chosen_loop_spec [of 4 a servers 0 None] assms choice_rank_bound
  by (fastforce simp: chosen_index_def not_le [symmetric])

lemma chosen_index_length: "chosen_index servers a = Some k \<Longrightarrow> k < length servers"
proof -
  assume k: "chosen_index servers a = Some k"
  then obtain r where "a = Some r" "as_name r \<noteq> []" by (auto simp: chosen_index_def split: option.splits if_splits)
  then show ?thesis using chosen_index_cases [of r servers] k by (simp add: best_entry_def)
qed

lemma mset_pick_order: "mset (pick_order servers a) = mset servers"
proof (cases "chosen_index servers a")
  case (Some k)
  then have "servers = take k servers @ servers ! k # drop (Suc k) servers"
    using chosen_index_length id_take_nth_drop by blast
  then have "mset servers = add_mset (servers ! k) (mset (take k servers) + mset (drop (Suc k) servers))"
    by (metis mset.simps(2) mset_append union_mset_add_mset_right)
  then show ?thesis using Some by (simp add: pick_order_def)
qed (simp add: pick_order_def)

section \<open>What a walk goes through\<close>

lemma mset_concat_update:
  "i < length qs \<Longrightarrow> mset (concat (qs[i := x])) + mset (qs ! i) = mset (concat qs) + mset x"
proof (induction qs arbitrary: i)
  case (Cons q qs)
  then show ?case
  proof (cases i)
    case (Suc j)
    then have "mset (concat (qs[j := x])) + mset (qs ! j) = mset (concat qs) + mset x" using Cons by simp
    then show ?thesis using Suc by (simp add: add.assoc)
  qed simp
qed simp

lemma mset_swap:
  fixes a b c d e :: "'a multiset"
  assumes "a + d = e" and "b + e = c + d"
  shows "a + b = c"
proof -
  have "(a + b) + e = a + (c + d)" using assms(2) by (simp add: add.assoc)
  also have "\<dots> = c + (a + d)" by (rule add.left_commute)
  finally show ?thesis by (simp add: assms(1))
qed

abbreviation queues_of :: "subscription list \<Rightarrow> server list list" where
  "queues_of subs \<equiv> map (\<lambda>sub. tag_servers (sub_id sub) (sub_servers sub)) subs"

lemma own_queue_Some:
  "own_queue subs chosen = Some own \<Longrightarrow>
     \<exists>a. chosen = Some a \<and> own < length subs \<and> sub_id (subs ! own) = as_subscription a"
  using find_subscription_Some by (auto simp: own_queue_def split: option.splits)

text \<open>
  A walk tries every server of every subscription once: its order is a rearrangement of the list of
  all servers, whatever the choice.
\<close>

theorem walk_tries_all:
  "mset (fst (walk_order subs chosen)) = mset (all_servers subs)"
proof (cases "own_queue subs chosen")
  case None
  then show ?thesis
    by (cases "subs = []") (simp_all add: walk_order_def mset_rounds all_servers_def)
next
  case (Some own)
  let ?qs = "queues_of subs" and ?q = "pick_order (queues_of subs ! own) chosen"
  let ?n = "min own_first (length ?q)"
  have own: "own < length ?qs" using own_queue_Some [OF Some] by auto
  have parts: "mset (take ?n ?q) + mset (drop ?n ?q) = mset (?qs ! own)"
    unfolding mset_append [symmetric] append_take_drop_id by (rule mset_pick_order)
  have "mset (fst (walk_order subs chosen)) = mset (take ?n ?q) + mset (concat (?qs[own := drop ?n ?q]))"
    using Some own by (cases "subs = []") (simp_all add: walk_order_def mset_rounds Let_def)
  also have "\<dots> = mset (concat ?qs)" using parts mset_concat_update [OF own] by (rule mset_swap)
  finally show ?thesis by (simp add: all_servers_def)
qed

text \<open>
  Where the list still has the user's choice, the walk starts with it - the entry at the recorded
  address with the recorded mark before any other entry of the choice - and stays in its subscription
  for the first three tries.
\<close>

theorem walk_starts_with_choice:
  assumes "walk_order subs (Some a) = (order, True)"
  shows "\<exists>own k. find_subscription subs (as_subscription a) = Some own \<and>
    best_entry a 4 (queues_of subs ! own) k \<and> hd order = queues_of subs ! own ! k \<and>
    (\<forall>s \<in> set (take (min own_first (length (sub_servers (subs ! own)))) order). sv_subscription s = as_subscription a)"
proof -
  from assms obtain own where own: "own_queue subs (Some a) = Some own"
    and k: "chosen_index (queues_of subs ! own) (Some a) \<noteq> None"
    and order: "order = take (min own_first (length (pick_order (queues_of subs ! own) (Some a)))) (pick_order (queues_of subs ! own) (Some a))
      @ rounds ((own + 1) mod length subs)
          ((queues_of subs)[own := drop (min own_first (length (pick_order (queues_of subs ! own) (Some a)))) (pick_order (queues_of subs ! own) (Some a))])"
    by (cases "subs = []"; cases "own_queue subs (Some a)") (simp_all add: walk_order_def Let_def)
  let ?q = "queues_of subs ! own"
  from k obtain k where k: "chosen_index ?q (Some a) = Some k" by auto
  then have name: "as_name a \<noteq> []" by (auto simp: chosen_index_def split: if_splits)
  have best: "best_entry a 4 ?q k" using chosen_index_cases [OF name, of ?q] k by simp
  have len: "length (pick_order ?q (Some a)) = length ?q"
    using mset_pick_order [of ?q "Some a"] by (metis size_mset)
  have pos: "0 < min own_first (length ?q)" using best by (auto simp: best_entry_def own_first_def)
  have pick: "pick_order ?q (Some a) = ?q ! k # take k ?q @ drop (Suc k) ?q" using k by (simp add: pick_order_def)
  have "hd order = ?q ! k" using order pos len by (simp add: pick)
  moreover have own': "own < length subs" "sub_id (subs ! own) = as_subscription a" "find_subscription subs (as_subscription a) = Some own"
    using own_queue_Some [OF own] own by (auto simp: own_queue_def)
  moreover have "sv_subscription s = as_subscription a"
    if "s \<in> set (take (min own_first (length (sub_servers (subs ! own)))) order)" for s
  proof -
    have "length ?q = length (sub_servers (subs ! own))" using own'(1) by (simp add: tag_servers_def)
    then have "s \<in> set (take (min own_first (length ?q)) (pick_order ?q (Some a)))"
      using that order len by simp
    then have "s \<in> set (pick_order ?q (Some a))" by (rule in_set_takeD)
    then have "s \<in> set ?q" using mset_pick_order [of ?q "Some a"] by (metis set_mset_mset)
    then show ?thesis using own'(1,2) by (auto simp: tag_servers_def)
  qed
  ultimately show ?thesis using best by blast
qed

text \<open>
  C24: After the first tries the subscriptions take turns: row by row, one server of each subscription
  that has one left, starting with the one after the chosen server's.
\<close>

theorem walk_takes_turns:
  assumes "subs \<noteq> []"
  shows "\<exists>front start queues m. fst (walk_order subs chosen)
      = front @ concat (map (\<lambda>r. row (turn_order start (length subs)) r queues) [0..<m]) \<and>
    length front \<le> own_first \<and> length queues = length subs \<and> (\<forall>q \<in> set queues. length q \<le> m) \<and>
    (case own_queue subs chosen of
       None \<Rightarrow> front = [] \<and> start = 0 \<and> queues = queues_of subs
     | Some own \<Rightarrow> start = (own + 1) mod length subs \<and>
         front @ queues ! own = pick_order (queues_of subs ! own) chosen \<and>
         (\<forall>i < length subs. i \<noteq> own \<longrightarrow> queues ! i = queues_of subs ! i))"
proof -
  have bound: "\<forall>q \<in> set qs. length q \<le> sum_list (map length qs)" for qs :: "server list list"
    by (simp add: member_le_sum_list)
  show ?thesis
  proof (cases "own_queue subs chosen")
    case None
    then show ?thesis
      using assms rounds_rows [OF bound, of 0 "queues_of subs"] bound [of "queues_of subs"]
      by (intro exI [where x = "[]"], intro exI [where x = "0 :: nat"], intro exI [where x = "queues_of subs"],
          intro exI [where x = "sum_list (map length (queues_of subs))"]) (simp add: walk_order_def)
  next
    case (Some own)
    let ?q = "pick_order (queues_of subs ! own) chosen"
    let ?n = "min own_first (length ?q)" and ?start = "(own + 1) mod length subs"
    let ?qs = "(queues_of subs)[own := drop ?n ?q]"
    have own: "own < length subs" using own_queue_Some [OF Some] by auto
    show ?thesis
    proof (rule exI [of _ "take ?n ?q"], rule exI [of _ ?start], rule exI [of _ ?qs],
        rule exI [of _ "sum_list (map length ?qs)"], intro conjI)
      show "fst (walk_order subs chosen) = take ?n ?q
          @ concat (map (\<lambda>r. row (turn_order ?start (length subs)) r ?qs) [0..<sum_list (map length ?qs)])"
        using assms Some rounds_rows [OF bound, of ?start ?qs] by (simp add: walk_order_def Let_def)
    qed (use Some own bound [of ?qs] in \<open>simp_all add: own_first_def\<close>)
  qed
qed

section \<open>The state of a record\<close>

definition at_recorded :: "active_server \<Rightarrow> server \<Rightarrow> bool" where
  "at_recorded a s \<longleftrightarrow> sv_address s = as_address a \<and> sv_port s = as_port a"

text \<open>What the comment on \<^verbatim>\<open>actuality\<close> promises, over the entries of the choice.\<close>

definition standing :: "active_server \<Rightarrow> server list \<Rightarrow> actuality \<times> server option" where
  "standing a entries =
     (case (if no_address a then entries else filter (\<lambda>s. at_recorded a s \<and> mark_agrees a s) entries) of
        s # _ \<Rightarrow> (Actual_Current, Some s)
      | [] \<Rightarrow>
          (case filter (at_recorded a) entries of
             s # _ \<Rightarrow> (Actual_Changed, Some s)
           | [] \<Rightarrow> (case entries of [s] \<Rightarrow> (Actual_Moved, Some s) | _ \<Rightarrow> (Actual_Gone, None))))"

lemma classify_loop_no_address:
  "no_address a \<Longrightarrow> classify_loop a [] None ss =
     (case filter (same_choice (Some a)) ss of s # _ \<Rightarrow> (Actual_Current, Some s) | [] \<Rightarrow> (Actual_Gone, None))"
  by (induction ss) simp_all

lemma classify_loop_Cons:
  "classify_loop a named changed (s # ss) =
     (if \<not> same_choice (Some a) s then classify_loop a named changed ss
      else if no_address a then (Actual_Current, Some s)
      else if at_recorded a s then
        (if mark_agrees a s then (Actual_Current, Some s)
         else classify_loop a named (if changed = None then Some s else changed) ss)
      else classify_loop a (named @ [s]) changed ss)"
  by (simp add: at_recorded_def mark_agrees_def)

lemma classify_loop_filter:
  assumes "\<not> no_address a"
  shows "classify_loop a named changed ss =
     (case filter (\<lambda>s. same_choice (Some a) s \<and> at_recorded a s \<and> mark_agrees a s) ss of
        s # _ \<Rightarrow> (Actual_Current, Some s)
      | [] \<Rightarrow>
          (case (case changed of Some s \<Rightarrow> [s] | None \<Rightarrow> []) @ filter (\<lambda>s. same_choice (Some a) s \<and> at_recorded a s) ss of
             s # _ \<Rightarrow> (Actual_Changed, Some s)
           | [] \<Rightarrow> (case named @ filter (\<lambda>s. same_choice (Some a) s \<and> \<not> at_recorded a s) ss of
                       [s] \<Rightarrow> (Actual_Moved, Some s) | _ \<Rightarrow> (Actual_Gone, None))))"
  using assms
proof (induction ss arbitrary: named changed)
  case (Cons s ss)
  then show ?case
    by (cases "same_choice (Some a) s"; cases "at_recorded a s"; cases "mark_agrees a s"; cases changed)
      (simp_all add: classify_loop_Cons del: classify_loop.simps(2) cong: list.case_cong option.case_cong)
qed (simp split: option.splits)


section \<open>Whose record it is\<close>

lemma new_active_id:
  "active_id (Some (record_active_server p s)) = server_id s \<or> no_address (record_active_server p s)"
  by (simp add: active_id_def server_id_def)

lemma active_seq_walked: "active_seq (x_active (record_walked_server x s)) = active_seq (x_active x) + 1"
  by (simp add: record_walked_server_def active_seq_def)


section \<open>Witnesses\<close>

definition example_subs :: "subscription list" where
  "example_subs =
     [example_sub\<lparr>sub_id := ''0000000a'',
        sub_servers := [plain_server ''A1'' ''a1.example'' 443 [] [], plain_server ''A2'' ''a2.example'' 443 [] [],
          plain_server ''A3'' ''a3.example'' 443 [] [], plain_server ''A4'' ''a4.example'' 443 [] []]\<rparr>,
      example_sub\<lparr>sub_id := ''0000000b'',
        sub_servers := [plain_server ''B1'' ''b1.example'' 443 [] [], plain_server ''B2'' ''b2.example'' 443 [] []]\<rparr>]"

definition example_choice :: active_server where
  "example_choice =
     \<lparr>as_name = ''A2'', as_address = ''a2.example'', as_port = 443, as_subscription = ''0000000a'', as_seq = 1,
      as_identity = [], as_group = []\<rparr>"

theorem walk_starts_with_choice_witness:
  "map sv_name (fst (walk_order example_subs (Some example_choice))) = [''A2'', ''A1'', ''A3'', ''B1'', ''A4'', ''B2''] \<and>
   sv_name (hd (fst (walk_order example_subs (Some example_choice)))) = ''A2''"
proof -
  have names: "map sv_name (fst (walk_order example_subs (Some example_choice))) = [''A2'', ''A1'', ''A3'', ''B1'', ''A4'', ''B2'']
      \<and> snd (walk_order example_subs (Some example_choice))"
    by code_simp
  then have "walk_order example_subs (Some example_choice) = (fst (walk_order example_subs (Some example_choice)), True)"
    by (metis prod.collapse)
  then obtain own k where own: "find_subscription example_subs (as_subscription example_choice) = Some own"
      and k: "best_entry example_choice 4 (queues_of example_subs ! own) k"
        "hd (fst (walk_order example_subs (Some example_choice))) = queues_of example_subs ! own ! k"
    using walk_starts_with_choice by blast
  have "same_choice (Some example_choice) (queues_of example_subs ! own ! k)" using k(1) by (simp add: best_entry_def)
  then have "sv_name (hd (fst (walk_order example_subs (Some example_choice)))) = ''A2''"
    unfolding k(2) by (simp add: same_choice_def example_choice_def)
  then show ?thesis using names by blast
qed

theorem walk_takes_turns_witness:
  "\<exists>front start queues m. fst (walk_order example_subs None)
     = front @ concat (map (\<lambda>r. row (turn_order start (length example_subs)) r queues) [0..<m]) \<and> front = [] \<and> start = 0"
proof -
  have "example_subs \<noteq> []" by (simp add: example_subs_def)
  from walk_takes_turns [OF this, of None] show ?thesis by (simp add: own_queue_def) blast
qed


end
