(* ===== verification/Go_Time.thy ===== *)
theory Go_Time
  imports Go_Text
begin

text \<open>
  Times and durations of Go's \<^verbatim>\<open>time\<close> package. A \<^verbatim>\<open>time.Time\<close> is its nanoseconds since
  the Unix epoch, the zero value that of the year 1, and a \<^verbatim>\<open>time.Duration\<close> an integer of 64
  bits. \<^verbatim>\<open>Time.Sub\<close> saturates at the bounds of a duration, as two such times can be further apart.
\<close>

section \<open>Times\<close>

definition second :: int where "second = 1000000000"
definition minute :: int where "minute = 60 * second"
definition max_duration :: int where "max_duration = 2 ^ 63 - 1"
definition min_duration :: int where "min_duration = - (2 ^ 63)"

definition zero_time :: int where
  "zero_time = -62135596800 * second"

definition sub_time :: "int \<Rightarrow> int \<Rightarrow> int" where
  "sub_time a b = max min_duration (min max_duration (a - b))"

lemmas duration_units = second_def minute_def max_duration_def min_duration_def

lemma sub_time_less:
  "min_duration < d \<Longrightarrow> d \<le> max_duration \<Longrightarrow> sub_time a b < d \<longleftrightarrow> a - b < d"
  by (auto simp: sub_time_def)

lemma sub_time_ge:
  "min_duration < d \<Longrightarrow> d \<le> max_duration \<Longrightarrow> d \<le> sub_time a b \<longleftrightarrow> d \<le> a - b"
  using sub_time_less [of d a b] by linarith

section \<open>Parsing a duration\<close>

text \<open>
  \<^verbatim>\<open>leadingInt\<close> and \<^verbatim>\<open>leadingFraction\<close>: the digits taken so far with the bound each
  keeps; a fraction that grows too large ignores its further digits.
\<close>

fun leading_int :: "nat \<Rightarrow> string \<Rightarrow> (nat \<times> string) option" where
  "leading_int x [] = Some (x, [])"
| "leading_int x (c # s) =
     (if \<not> is_digit c then Some (x, c # s)
      else if 2 ^ 63 div 10 < x then None
      else let y = 10 * x + digit_value c in if 2 ^ 63 < y then None else leading_int y s)"

fun leading_fraction :: "nat \<Rightarrow> nat \<Rightarrow> bool \<Rightarrow> string \<Rightarrow> nat \<times> nat \<times> string" where
  "leading_fraction x scale full [] = (x, scale, [])"
| "leading_fraction x scale full (c # s) =
     (if \<not> is_digit c then (x, scale, c # s)
      else if full \<or> (2 ^ 63 - 1) div 10 < x then leading_fraction x scale True s
      else let y = 10 * x + digit_value c in
        if 2 ^ 63 < y then leading_fraction x scale True s else leading_fraction y (10 * scale) full s)"

definition unit_of :: "string \<Rightarrow> nat option" where
  "unit_of u =
     map_of [(''ns'', 1), (''us'', 1000), ([CHR 0xC2, CHR 0xB5, CHR ''s''], 1000), ([CHR 0xCE, CHR 0xBC, CHR ''s''], 1000),
       (''ms'', 1000000), (''s'', 1000000000), (''m'', 60000000000), (''h'', 3600000000000)] u"

definition unit_char :: "char \<Rightarrow> bool" where
  "unit_char c \<longleftrightarrow> c \<noteq> CHR ''.'' \<and> \<not> is_digit c"

text \<open>
  One term of the sum: a number with its fraction, and its unit. The share of the fraction, which Go
  computes in floating point, is exact here.
\<close>

definition duration_term :: "string \<Rightarrow> (nat \<times> string) option" where
  "duration_term s =
     (case s of
        [] \<Rightarrow> None
      | c # _ \<Rightarrow>
          if c \<noteq> CHR ''.'' \<and> \<not> is_digit c then None
          else Option.bind (leading_int 0 s) (\<lambda>(v, r).
            let dot = (r \<noteq> [] \<and> hd r = CHR ''.'');
                frac = (if dot then leading_fraction 0 1 False (tl r) else (0, 1, r));
                rest = snd (snd frac);
                pre = length r \<noteq> length s; post = (dot \<and> length rest \<noteq> length (tl r)) in
            if \<not> pre \<and> \<not> post then None
            else Option.bind (unit_of (takeWhile unit_char rest)) (\<lambda>unit.
              if 2 ^ 63 div unit < v then None
              else
                let n = v * unit + fst frac * unit div fst (snd frac) in
                if 2 ^ 63 < n then None else Some (n, dropWhile unit_char rest))))"

text \<open>Each term shortens the text, so the length of the text bounds the terms.\<close>

fun duration_terms :: "nat \<Rightarrow> nat \<Rightarrow> string \<Rightarrow> nat option" where
  "duration_terms fuel d [] = Some d"
| "duration_terms 0 d s = None"
| "duration_terms (Suc fuel) d s =
     Option.bind (duration_term s) (\<lambda>(n, rest).
       if 2 ^ 63 < d + n then None else duration_terms fuel (d + n) rest)"

definition parse_duration :: "string \<Rightarrow> int option" where
  "parse_duration t =
     (let neg = (t \<noteq> [] \<and> hd t = CHR ''-''); s = (if t \<noteq> [] \<and> (hd t = CHR ''-'' \<or> hd t = CHR ''+'') then tl t else t) in
      if s = ''0'' then Some 0
      else if s = [] then None
      else case duration_terms (length s) 0 s of
             None \<Rightarrow> None
           | Some d \<Rightarrow>
               if neg then Some (- int d)
               else if 2 ^ 63 - 1 < d then None
               else Some (int d))"

lemma leading_int_rest: "leading_int x s = Some (v, r) \<Longrightarrow> length r \<le> length s"
  by (induction x s rule: leading_int.induct) (auto simp: Let_def split: if_splits)

lemma leading_fraction_rest: "length (snd (snd (leading_fraction x sc full s))) \<le> length s"
  by (induction x sc full s rule: leading_fraction.induct) (auto simp: Let_def intro: le_SucI)

lemma dropWhile_length: "length (dropWhile P xs) \<le> length xs"
  by (induction xs) auto

text \<open>The bound on the terms is enough: more of it gives the same answer.\<close>

lemma duration_term_shorter:
  assumes "duration_term s = Some (n, rest)"
  shows "length rest < length s"
proof -
  from assms obtain c s' where s: "s = c # s'" by (cases s) (auto simp: duration_term_def)
  from assms obtain v r where r: "leading_int 0 s = Some (v, r)"
    by (auto simp: duration_term_def s split: if_splits bind_splits)
  define frac where "frac = (if r \<noteq> [] \<and> hd r = CHR ''.'' then leading_fraction 0 1 False (tl r) else (0, 1, r))"
  let ?rest = "snd (snd frac)"
  have le: "length ?rest \<le> length r"
    using leading_fraction_rest [of 0 1 False "tl r"] by (auto simp: frac_def)
  from assms obtain u where unit: "unit_of (takeWhile unit_char ?rest) = Some u" and rest: "rest = dropWhile unit_char ?rest"
    using r unfolding duration_term_def s frac_def
    by (auto simp: Let_def split: if_splits bind_splits prod.splits)
  have "takeWhile unit_char ?rest \<noteq> []" using unit by (auto simp: unit_of_def)
  then have "length rest < length ?rest"
    unfolding rest by (cases "snd (snd frac)") (auto simp: le_imp_less_Suc dropWhile_length split: if_splits)
  with le leading_int_rest [OF r] show ?thesis by linarith
qed

lemma duration_terms_fuel:
  "length s \<le> fuel \<Longrightarrow> duration_terms (fuel + k) d s = duration_terms fuel d s"
proof (induction fuel d s rule: duration_terms.induct)
  case (3 fuel d c s)
  show ?case
  proof (cases "duration_term (c # s)")
    case (Some p)
    obtain n rest where p: "p = (n, rest)" by (cases p)
    have "length rest \<le> fuel" using duration_term_shorter [of "c # s" n rest] Some p "3.prems" by simp
    then show ?thesis using "3.IH" [of "(n, rest)" n rest] Some p by simp
  qed simp
qed simp_all

end
