(* ===== verification/Monitor_Entry.thy ===== *)
theory Monitor_Entry
  imports Complex_Main Config_Model Go_Time
begin

text \<open>
  The settings of the server monitor (\<^verbatim>\<open>monitor/settings.go\<close>) and its record of one endpoint
  (\<^verbatim>\<open>monitor/entry.go\<close>): a check that succeeded, one that failed after its retry, and a
  rejection. The evidence the watch reads of such records is declared here too. The lemmas show the bounds of the settings, and the invariant of a record: which fields a
  status fixes, and that the wait of a dead endpoint doubles up to its bound.
\<close>

section \<open>Settings\<close>

record settings =
  se_enabled :: bool
  se_interval :: int
  se_dead_max :: int
  se_concurrency :: int
  se_log_level :: string

definition default_interval :: int where "default_interval = minute"
definition default_dead_max :: int where "default_dead_max = 30 * minute"
definition default_concurrency :: int where "default_concurrency = 8"
definition min_interval :: int where "min_interval = 10 * second"
definition max_concurrency :: int where "max_concurrency = 32"
definition max_interval :: int where "max_interval = max_duration div 2"
definition default_refresh :: int where "default_refresh = 5 * minute"
definition min_refresh :: int where "min_refresh = minute"

lemmas settings_bounds = default_interval_def default_dead_max_def default_concurrency_def min_interval_def
  max_concurrency_def max_interval_def default_refresh_def min_refresh_def duration_units

text \<open>What a warning is about; its text quotes the value.\<close>

datatype setting_warning = Warn_Interval | Warn_Dead_Max | Warn_Concurrency | Warn_Refresh

definition subscription_refresh_from :: "monitor_config option \<Rightarrow> int \<times> setting_warning option" where
  "subscription_refresh_from c =
     (case c of
        None \<Rightarrow> (default_refresh, None)
      | Some m \<Rightarrow>
          if mc_subscription_refresh m = [] then (default_refresh, None)
          else case parse_duration (mc_subscription_refresh m) of
                 None \<Rightarrow> (default_refresh, Some Warn_Refresh)
               | Some d \<Rightarrow> if d = 0 \<or> min_refresh \<le> d then (d, None) else (default_refresh, Some Warn_Refresh))"

definition interval_from :: "monitor_config \<Rightarrow> int \<times> setting_warning list" where
  "interval_from m =
     (if mc_interval m = [] then (default_interval, [])
      else case parse_duration (mc_interval m) of
             None \<Rightarrow> (default_interval, [Warn_Interval])
           | Some d \<Rightarrow>
               if d < min_interval \<or> max_interval < d then (default_interval, [Warn_Interval]) else (d, []))"

definition dead_max_from :: "monitor_config \<Rightarrow> int \<Rightarrow> int \<times> setting_warning list" where
  "dead_max_from m interval =
     (let fallback = max default_dead_max (2 * interval) in
      if mc_dead_interval_max m = [] then (fallback, [])
      else case parse_duration (mc_dead_interval_max m) of
             None \<Rightarrow> (fallback, [Warn_Dead_Max])
           | Some d \<Rightarrow> if d < 2 * interval then (fallback, [Warn_Dead_Max]) else (d, []))"

definition concurrency_from :: "monitor_config \<Rightarrow> int \<times> setting_warning list" where
  "concurrency_from m =
     (if \<not> has_concurrency m then (default_concurrency, [])
      else if mc_concurrency m < 1 \<or> max_concurrency < mc_concurrency m then (default_concurrency, [Warn_Concurrency])
      else (mc_concurrency m, []))"

definition settings_from :: "monitor_config option \<Rightarrow> settings \<times> setting_warning list" where
  "settings_from c =
     (case c of
        None \<Rightarrow>
          (\<lparr>se_enabled = True, se_interval = default_interval, se_dead_max = default_dead_max,
            se_concurrency = default_concurrency, se_log_level = []\<rparr>, [])
      | Some m \<Rightarrow>
          let (interval, w1) = interval_from m; (dead_max, w2) = dead_max_from m interval;
              (conc, w3) = concurrency_from m
          in (\<lparr>se_enabled = (case mc_enabled m of None \<Rightarrow> True | Some b \<Rightarrow> b), se_interval = interval,
               se_dead_max = dead_max, se_concurrency = conc, se_log_level = mc_log_level m\<rparr>,
              w1 @ w2 @ w3 @ (case snd (subscription_refresh_from (Some m)) of None \<Rightarrow> [] | Some w \<Rightarrow> [w])))"

section \<open>A record\<close>

datatype status = St_Unknown | St_Alive | St_Dead | St_Rejected

record endpoint_state =
  ps_status :: status
  ps_latency :: int
  ps_checked :: int
  ps_next :: int
  ps_since :: int
  ps_fails :: int
  ps_error :: string

text \<open>
  \<^verbatim>\<open>entry\<close>. The session a check completed in is a pointer there; here it is the number of the
  session, \<open>0\<close> for none. \<open>en_outbound\<close> and \<open>en_label\<close> are the fields of its \<^verbatim>\<open>Endpoint\<close>.
\<close>

record entry =
  en_label :: string
  en_outbound :: string
  en_st :: endpoint_state
  en_pause :: int
  en_sticky :: bool
  en_in_flight :: bool
  en_pending :: bool
  en_revision :: nat
  en_rejected_current :: bool
  en_completed :: nat
  en_completed_session :: nat
  en_completed_generation :: nat
  en_completed_start :: nat
  en_follow_up :: bool
  en_after :: nat
  en_evidence_follow_up :: bool
  en_evidence_after :: nat
  en_urgent :: bool

text \<open>
  \<^verbatim>\<open>Evidence\<close> and its token (\<^verbatim>\<open>monitor/evidence.go\<close>): what the watch is given of the
  results, with what proves that they still apply. There is one monitor, so the owner is left out.
\<close>

datatype mon_state = Mon_OK | Mon_Stopped | Mon_Disabled | Mon_No_Xray | Mon_WAN_Down | Mon_Prober_Error

record evidence_record =
  er_completion :: nat
  er_revision :: nat
  er_status :: status

record evidence =
  ev_state :: mon_state
  ev_endpoints :: "string \<rightharpoonup> endpoint_state"
  ev_session :: nat
  ev_generation :: nat
  ev_records :: "string \<rightharpoonup> evidence_record"

definition checkable :: "entry \<Rightarrow> bool" where
  "checkable e \<longleftrightarrow> ps_status (en_st e) \<noteq> St_Rejected"

text \<open>
  The wait after a success: the interval moved by a tenth of itself at most. The product is rational
  here; Go rounds it to a \<^verbatim>\<open>float64\<close>, which it may do once or twice, before it truncates.
\<close>

definition jittered :: "int \<Rightarrow> rat \<Rightarrow> int" where
  "jittered interval jitter =
     (let delay = of_int interval * (1 + jitter / 10) in
      if delay < of_int max_duration then (if delay < 0 then - \<lfloor>- delay\<rfloor> else \<lfloor>delay\<rfloor>) else max_duration)"

definition succeed :: "int \<Rightarrow> int \<Rightarrow> settings \<Rightarrow> rat \<Rightarrow> entry \<Rightarrow> entry \<times> bool" where
  "succeed now latency s jitter e =
     (let st = en_st e; changed = ps_status st \<noteq> St_Alive in
      (e\<lparr>en_revision := en_revision e + 1, en_pause := 0,
         en_st := st\<lparr>ps_status := St_Alive, ps_since := (if changed then now else ps_since st),
           ps_latency := latency div 1000000, ps_checked := now, ps_fails := 0, ps_error := [],
           ps_next := now + jittered (se_interval s) jitter\<rparr>\<rparr>,
       changed))"

definition next_pause :: "settings \<Rightarrow> int \<Rightarrow> int" where
  "next_pause s pause =
     (let p = (if pause = 0 then se_interval s else pause) in
      if se_dead_max s div 2 < p then se_dead_max s else 2 * p)"

definition fail :: "int \<Rightarrow> string \<Rightarrow> settings \<Rightarrow> entry \<Rightarrow> entry \<times> bool" where
  "fail now reason s e =
     (let st = en_st e; changed = ps_status st \<noteq> St_Dead; pause = next_pause s (en_pause e) in
      (e\<lparr>en_revision := en_revision e + 1, en_pause := pause,
         en_st := st\<lparr>ps_status := St_Dead, ps_since := (if changed then now else ps_since st),
           ps_checked := now, ps_fails := ps_fails st + 1, ps_error := reason, ps_next := now + pause\<rparr>\<rparr>,
       changed))"

definition reject :: "int \<Rightarrow> string \<Rightarrow> bool \<Rightarrow> entry \<Rightarrow> entry" where
  "reject now reason sticky e =
     (let before = en_st e;
          st = before\<lparr>ps_status := St_Rejected,
                 ps_since := (if ps_status before \<noteq> St_Rejected then now else ps_since before),
                 ps_error := reason, ps_next := zero_time\<rparr>
      in e\<lparr>en_st := st, en_pause := 0, en_sticky := sticky, en_in_flight := False, en_pending := False,
           en_urgent := False, en_follow_up := False, en_evidence_follow_up := False,
           en_revision := (if before \<noteq> st \<or> en_sticky e \<noteq> sticky \<or> \<not> en_rejected_current e
                           then en_revision e + 1 else en_revision e),
           en_rejected_current := True\<rparr>)"

section \<open>Bounds of the settings\<close>

definition settings_ok :: "settings \<Rightarrow> bool" where
  "settings_ok s \<longleftrightarrow>
     min_interval \<le> se_interval s \<and> se_interval s \<le> max_interval \<and>
     2 * se_interval s \<le> se_dead_max s \<and> 1 \<le> se_concurrency s \<and> se_concurrency s \<le> max_concurrency"

lemma interval_from_bounds:
  "min_interval \<le> fst (interval_from m) \<and> fst (interval_from m) \<le> max_interval"
  by (simp add: interval_from_def settings_bounds split: option.splits)

lemma dead_max_from_bound: "2 * i \<le> fst (dead_max_from m i)"
  by (auto simp: dead_max_from_def Let_def split: option.splits)

lemma concurrency_from_bounds:
  "1 \<le> fst (concurrency_from m) \<and> fst (concurrency_from m) \<le> max_concurrency"
  by (simp add: concurrency_from_def settings_bounds)

text \<open>
  Whatever the configuration holds, the resolved settings are within their bounds: an interval of
  ten seconds or more, a longest wait of two intervals or more, one to thirty-two checks at a time, and
  a refresh period that is off or a minute or more.
\<close>

theorem settings_within_bounds:
  "settings_ok (fst (settings_from c)) \<and>
   (fst (subscription_refresh_from c) = 0 \<or> min_refresh \<le> fst (subscription_refresh_from c))"
proof
  show "settings_ok (fst (settings_from c))"
  proof (cases c)
    case None
    then show ?thesis by (simp add: settings_from_def settings_ok_def settings_bounds)
  next
    case (Some m)
    then show ?thesis
      using interval_from_bounds [of m] dead_max_from_bound [of "fst (interval_from m)" m] concurrency_from_bounds [of m]
      by (simp add: settings_from_def settings_ok_def case_prod_beta Let_def)
  qed
  show "fst (subscription_refresh_from c) = 0 \<or> min_refresh \<le> fst (subscription_refresh_from c)"
    by (simp add: subscription_refresh_from_def settings_bounds split: option.splits)
qed

section \<open>The invariant of a record\<close>

text \<open>
  What a status fixes: an endpoint known to be alive has no failures and no error, a rejected one is out
  of every queue, and the wait of a dead one is at least two intervals unless the bound is less.
\<close>

definition entry_ok :: "entry \<Rightarrow> bool" where
  "entry_ok e \<longleftrightarrow>
     (case ps_status (en_st e) of
        St_Unknown \<Rightarrow> en_pause e = 0
      | St_Alive \<Rightarrow> en_pause e = 0 \<and> ps_fails (en_st e) = 0 \<and> ps_error (en_st e) = []
      | St_Dead \<Rightarrow> 0 < en_pause e \<and> 0 < ps_fails (en_st e)
      | St_Rejected \<Rightarrow> en_pause e = 0 \<and> \<not> en_in_flight e \<and> \<not> en_pending e \<and> \<not> en_urgent e \<and>
          \<not> en_follow_up e \<and> \<not> en_evidence_follow_up e)
     \<and> 0 \<le> en_pause e \<and> 0 \<le> ps_fails (en_st e)"

lemma entry_ok_bounds: "entry_ok e \<Longrightarrow> 0 \<le> en_pause e" "entry_ok e \<Longrightarrow> 0 \<le> ps_fails (en_st e)"
  by (simp_all add: entry_ok_def)

lemma next_pause_pos:
  "settings_ok s \<Longrightarrow> 0 \<le> p \<Longrightarrow> 0 < next_pause s p \<and> next_pause s p \<le> se_dead_max s"
  by (auto simp: next_pause_def Let_def settings_ok_def settings_bounds)

lemma succeed_ok: "entry_ok e \<Longrightarrow> entry_ok (fst (succeed now l s j e))"
  by (simp add: succeed_def Let_def entry_ok_def)

lemma fail_ok: "entry_ok e \<Longrightarrow> settings_ok s \<Longrightarrow> entry_ok (fst (fail now r s e))"
proof -
  assume e: "entry_ok e" and s: "settings_ok s"
  have "0 < next_pause s (en_pause e)" using next_pause_pos [OF s] entry_ok_bounds(1) [OF e] by blast
  then show ?thesis using entry_ok_bounds(2) [OF e] by (simp add: fail_def Let_def entry_ok_def)
qed

lemma reject_ok: "entry_ok e \<Longrightarrow> entry_ok (reject now r st e)"
  by (simp add: reject_def Let_def entry_ok_def)

lemma reject_status [simp]: "ps_status (en_st (reject now r st e)) = St_Rejected"
  by (simp add: reject_def Let_def)

text \<open>The pause of \<open>n\<close> failures in a row, and its closed form.\<close>

fun pause_after :: "settings \<Rightarrow> nat \<Rightarrow> int" where
  "pause_after s 0 = 0"
| "pause_after s (Suc n) = next_pause s (pause_after s n)"

lemma next_pause_double:
  assumes "settings_ok s" and "0 < p"
  shows "next_pause s p = min (2 * p) (se_dead_max s)"
  using assms by (auto simp: next_pause_def Let_def)

lemma pause_after_closed:
  assumes "settings_ok s"
  shows "pause_after s (Suc n) = min (2 ^ Suc n * se_interval s) (se_dead_max s)"
proof (induction n)
  case 0
  have "se_interval s \<le> se_dead_max s div 2" "2 * se_interval s \<le> se_dead_max s"
    using assms unfolding settings_ok_def by presburger+
  then show ?case by (simp add: next_pause_def)
next
  case (Suc n)
  have pos: "0 < se_interval s" "0 < se_dead_max s" using assms by (auto simp: settings_ok_def settings_bounds)
  then have "0 < min (2 ^ Suc n * se_interval s) (se_dead_max s)" by simp
  then have "pause_after s (Suc (Suc n)) = min (2 * min (2 ^ Suc n * se_interval s) (se_dead_max s)) (se_dead_max s)"
    using next_pause_double [OF assms] Suc.IH by simp
  also have "\<dots> = min (2 ^ Suc (Suc n) * se_interval s) (se_dead_max s)" using pos(2) by (auto simp: min_def)
  finally show ?case .
qed

definition fails :: "settings \<Rightarrow> (int \<times> string) list \<Rightarrow> entry \<Rightarrow> entry" where
  "fails s frs e = foldl (\<lambda>e fr. fst (fail (fst fr) (snd fr) s e)) e frs"

lemma fails_snoc: "fails s (frs @ [fr]) e = fst (fail (fst fr) (snd fr) s (fails s frs e))"
  by (simp add: fails_def)

lemma fails_run:
  assumes "en_pause e = 0" and "ps_status (en_st e) \<noteq> St_Dead" and "frs \<noteq> []"
  shows "en_pause (fails s frs e) = pause_after s (length frs) \<and>
    ps_status (en_st (fails s frs e)) = St_Dead \<and> ps_since (en_st (fails s frs e)) = fst (hd frs) \<and>
    ps_next (en_st (fails s frs e)) = fst (last frs) + pause_after s (length frs) \<and>
    ps_fails (en_st (fails s frs e)) = ps_fails (en_st e) + int (length frs)"
  using assms(3)
proof (induction frs rule: rev_induct)
  case (snoc fr frs)
  show ?case
  proof (cases "frs = []")
    case True
    then show ?thesis using assms(1,2) by (simp add: fails_def fail_def Let_def)
  next
    case False
    then show ?thesis using snoc.IH by (simp add: fails_snoc fail_def Let_def hd_append)
  qed
qed simp

text \<open>
  C18: An endpoint that keeps failing is dead since its first failure and waits two intervals, then four,
  and so on, never longer than the bound: after n failures the next check is the smaller of two to the
  power of n intervals and the bound after the last one.
\<close>

theorem dead_waits_double:
  assumes "settings_ok s" and "entry_ok e" and "ps_status (en_st e) \<noteq> St_Dead" and "frs \<noteq> []"
  shows "ps_status (en_st (fails s frs e)) = St_Dead \<and> ps_since (en_st (fails s frs e)) = fst (hd frs) \<and>
    ps_next (en_st (fails s frs e))
      = fst (last frs) + min (2 ^ length frs * se_interval s) (se_dead_max s)"
proof -
  have "en_pause e = 0" using assms(2,3) by (cases "ps_status (en_st e)") (simp_all add: entry_ok_def)
  moreover obtain n where "length frs = Suc n" using assms(4) by (cases frs) auto
  ultimately show ?thesis
    using fails_run [of e frs s] assms pause_after_closed [OF assms(1), of n] by simp
qed

section \<open>Witness\<close>

definition new_state :: "int \<Rightarrow> endpoint_state" where
  "new_state now =
     \<lparr>ps_status = St_Unknown, ps_latency = 0, ps_checked = zero_time, ps_next = now, ps_since = now,
      ps_fails = 0, ps_error = []\<rparr>"

definition new_entry :: "endpoint_state \<Rightarrow> int \<Rightarrow> bool \<Rightarrow> entry" where
  "new_entry st pause sticky =
     \<lparr>en_label = [], en_outbound = [], en_st = st, en_pause = pause, en_sticky = sticky,
      en_in_flight = False, en_pending = False, en_revision = 0, en_rejected_current = False,
      en_completed = 0, en_completed_session = 0, en_completed_generation = 0, en_completed_start = 0,
      en_follow_up = False, en_after = 0, en_evidence_follow_up = False, en_evidence_after = 0,
      en_urgent = False\<rparr>"

theorem dead_waits_double_witness:
  "let s = fst (settings_from None); e = new_entry (new_state 0) 0 False;
       frs = [(0, ''timeout''), (120 * second, ''timeout''), (360 * second, ''timeout'')] in
     ps_next (en_st (fails s frs e)) = 360 * second + 480 * second"
proof -
  let ?s = "fst (settings_from None)" and ?e = "new_entry (new_state 0) 0 False"
    and ?frs = "[(0, ''timeout''), (120 * second, ''timeout''), (360 * second, ''timeout'')]"
  have "settings_ok ?s" "entry_ok ?e"
    by (simp_all add: settings_from_def settings_ok_def settings_bounds entry_ok_def new_entry_def new_state_def)
  moreover have "ps_status (en_st ?e) \<noteq> St_Dead" by (simp add: new_entry_def new_state_def)
  ultimately have "ps_next (en_st (fails ?s ?frs ?e))
      = 360 * second + min (2 ^ 3 * se_interval ?s) (se_dead_max ?s)"
    using dead_waits_double [of ?s ?e ?frs] by simp
  then show ?thesis by (simp add: Let_def settings_from_def settings_bounds)
qed

end
