(* ===== verification/Monitor.thy ===== *)
theory Monitor
  imports Monitor_Entry Sha256 "HOL-Library.Product_Lexorder"
begin

text \<open>
  The loop of the server monitor (\<^verbatim>\<open>monitor/monitor.go\<close>, \<^verbatim>\<open>store.go\<close>): the set of
  endpoints, the checks handed to workers and their answers, the guard that asks whether the WAN is
  up before a failure counts, the start of the prober with the refusals of Xray, and its crashes.

  Only the goroutine of \<^verbatim>\<open>Run\<close> changes the entries and the session, so the model is one step
  function. What the outside answers - the clock, the launcher, the control dial, a worker - comes with
  each step. A session is its number, \<open>0\<close> for none; the channels that wake waiters are left out; a
  read of the clock inside a step gives the time of the step; the logging is left out.
\<close>

section \<open>State\<close>

record endpoint =
  ep_key :: string
  ep_label :: string
  ep_outbound :: string

record outcome =
  oc_at :: int
  oc_ok :: bool
  oc_key :: string
  oc_reason :: string
  oc_seq :: nat
  oc_generation :: nat
  oc_started :: nat

record check_result =
  rs_session :: nat
  rs_key :: string
  rs_latency :: int
  rs_error :: "string option"
  rs_seq :: nat
  rs_at :: int
  rs_generation :: nat
  rs_started :: nat

record saved_entry =
  sd_state :: endpoint_state
  sd_pause :: int
  sd_sticky :: bool

record monitor =
  mo_settings :: settings
  mo_state :: mon_state
  mo_message :: string
  mo_entries :: "(string \<times> entry) list"
  mo_order :: "string list"
  mo_session :: nat
  mo_sessions :: nat
  mo_set_key :: string
  mo_restored :: "(string \<times> saved_entry) list"
  mo_sequence :: nat
  mo_starts :: nat
  mo_generation :: nat
  mo_closed :: bool
  mo_waiting :: "(string \<times> outcome) list"
  mo_recent :: "outcome list"
  mo_control_ok :: int
  mo_next_control :: int
  mo_prober_fails :: nat
  mo_prober_at :: int
  mo_prober_error :: string
  mo_crash_batches :: nat
  mo_session_since :: int
  mo_wan_paused :: bool
  mo_suspects :: "string list"
  mo_crashes :: "int list"
  mo_dirty :: bool
  mo_status_dirty :: bool
  mo_save_failed :: bool
  mo_last_save :: int
  mo_updated :: int

definition save_every :: int where "save_every = minute"
definition control_every :: int where "control_every = 15 * second"
definition guard_window :: int where "guard_window = 30 * second"
definition guard_min :: nat where "guard_min = 5"
definition max_refusals :: nat where "max_refusals = 20"
definition crash_limit :: nat where "crash_limit = 5"
definition crash_window :: int where "crash_window = 10 * minute"
definition prober_backoff :: "int list" where "prober_backoff = [minute, 2 * minute, 5 * minute]"

lemmas cadences = save_every_def control_every_def guard_window_def crash_window_def duration_units

text \<open>\<^verbatim>\<open>New\<close>: nothing is known yet.\<close>

definition new_monitor :: monitor where
  "new_monitor =
     \<lparr>mo_settings = fst (settings_from None), mo_state = Mon_OK, mo_message = [], mo_entries = [], mo_order = [],
      mo_session = 0, mo_sessions = 0, mo_set_key = [], mo_restored = [], mo_sequence = 0, mo_starts = 0,
      mo_generation = 1, mo_closed = False, mo_waiting = [], mo_recent = [], mo_control_ok = zero_time,
      mo_next_control = zero_time, mo_prober_fails = 0, mo_prober_at = zero_time, mo_prober_error = [],
      mo_crash_batches = 0, mo_session_since = zero_time, mo_wan_paused = False, mo_suspects = [], mo_crashes = [],
      mo_dirty = False, mo_status_dirty = False, mo_save_failed = False, mo_last_save = zero_time,
      mo_updated = zero_time\<rparr>"

abbreviation entry_of :: "monitor \<Rightarrow> string \<Rightarrow> entry option" where
  "entry_of m k \<equiv> map_of (mo_entries m) k"

definition upd_entry :: "string \<Rightarrow> (entry \<Rightarrow> entry) \<Rightarrow> monitor \<Rightarrow> monitor" where
  "upd_entry k f m = m\<lparr>mo_entries := map (\<lambda>(j, e). (j, if j = k then f e else e)) (mo_entries m)\<rparr>"

definition upd_entries :: "(entry \<Rightarrow> entry) \<Rightarrow> monitor \<Rightarrow> monitor" where
  "upd_entries f m = m\<lparr>mo_entries := map (map_prod id f) (mo_entries m)\<rparr>"

definition invalidate_evidence :: "monitor \<Rightarrow> monitor" where
  "invalidate_evidence m =
     upd_entries (\<lambda>e. e\<lparr>en_evidence_follow_up := False\<rparr>) (m\<lparr>mo_generation := mo_generation m + 1\<rparr>)"

definition set_mon_state :: "int \<Rightarrow> mon_state \<Rightarrow> string \<Rightarrow> monitor \<Rightarrow> monitor" where
  "set_mon_state now st msg m =
     (if mo_state m = st \<and> mo_message m = msg then m
      else
        let m' = m\<lparr>mo_state := st, mo_message := msg, mo_updated := now\<rparr> in
        if mo_state m \<noteq> st then invalidate_evidence m' else m')"

section \<open>Requests\<close>

definition mark :: "bool \<Rightarrow> nat \<Rightarrow> entry \<Rightarrow> entry" where
  "mark fresh seq e =
     (if \<not> checkable e then e
      else if fresh then e\<lparr>en_follow_up := True, en_after := seq\<rparr>
      else if \<not> en_in_flight e then e\<lparr>en_urgent := True\<rparr>
      else e)"

text \<open>How many were queued, or none for a monitor that is stopped or disabled.\<close>

definition queue :: "string list \<Rightarrow> bool \<Rightarrow> monitor \<Rightarrow> nat option \<times> monitor" where
  "queue ks fresh m =
     (if mo_state m = Mon_Stopped \<or> mo_state m = Mon_Disabled then (None, m)
      else
        let targets = (if ks = [] then map fst (mo_entries m) else filter (\<lambda>k. entry_of m k \<noteq> None) ks) in
        (Some (length (filter (\<lambda>k. case entry_of m k of Some e \<Rightarrow> checkable e | None \<Rightarrow> False) targets)),
         fold (\<lambda>k. upd_entry k (mark fresh (mo_sequence m))) targets m))"

section \<open>Failures and WAN evidence\<close>

definition complete :: "monitor \<Rightarrow> outcome \<Rightarrow> entry \<Rightarrow> entry" where
  "complete m o' e =
     e\<lparr>en_completed := oc_seq o', en_completed_session := mo_session m,
       en_completed_generation := oc_generation o', en_completed_start := oc_started o',
       en_follow_up := en_follow_up e \<and> \<not> en_after e < oc_seq o',
       en_evidence_follow_up :=
         en_evidence_follow_up e \<and> \<not> (oc_generation o' = mo_generation m \<and> en_evidence_after e < oc_started o')\<rparr>"

text \<open>One failure made public. A rejected endpoint, or one no longer waiting for it, drops it.\<close>

definition publish_one :: "int \<Rightarrow> string \<times> outcome \<Rightarrow> monitor \<Rightarrow> monitor" where
  "publish_one now ko m =
     (case entry_of m (fst ko) of
        None \<Rightarrow> m
      | Some e \<Rightarrow>
          if checkable e \<and> en_pending e then
            let (e', changed) = fail (oc_at (snd ko)) (oc_reason (snd ko)) (mo_settings m) e in
            (upd_entry (fst ko) (\<lambda>_. complete m (snd ko) (e'\<lparr>en_pending := False\<rparr>)) m)
              \<lparr>mo_status_dirty := mo_status_dirty m \<or> changed, mo_dirty := True, mo_updated := now\<rparr>
          else m)"

definition publish_pending :: "int \<Rightarrow> monitor \<Rightarrow> monitor" where
  "publish_pending now m = (fold (publish_one now) (mo_waiting m) m)\<lparr>mo_waiting := []\<rparr>"

definition discard_pending :: "monitor \<Rightarrow> monitor" where
  "discard_pending m = (upd_entries (\<lambda>e. e\<lparr>en_pending := False\<rparr>) m)\<lparr>mo_waiting := []\<rparr>"

definition pending_until :: "monitor \<Rightarrow> int option" where
  "pending_until m =
     (case mo_waiting m of
        [] \<Rightarrow> None
      | _ \<Rightarrow> Some (Min (set (map (\<lambda>ko. oc_at (snd ko) + guard_window) (mo_waiting m)))))"

definition within_window :: "int \<Rightarrow> int \<Rightarrow> bool" where
  "within_window now t \<longleftrightarrow> sub_time now t < guard_window"

definition wan_evidence :: "int \<Rightarrow> monitor \<Rightarrow> bool" where
  "wan_evidence now m \<longleftrightarrow>
     (mo_control_ok m \<noteq> zero_time \<and> within_window now (mo_control_ok m)) \<or>
     list_ex (\<lambda>o'. oc_ok o' \<and> within_window now (oc_at o')) (mo_recent m)"

definition prune_recent :: "int \<Rightarrow> monitor \<Rightarrow> monitor" where
  "prune_recent now m = m\<lparr>mo_recent := filter (\<lambda>o'. within_window now (oc_at o')) (mo_recent m)\<rparr>"

text \<open>\<^verbatim>\<open>guardDue\<close>, on the monitor with its recent checks pruned.\<close>

definition guard_due :: "int \<Rightarrow> monitor \<Rightarrow> bool" where
  "guard_due now m =
     (let need = min guard_min (length (filter (\<lambda>ke. checkable (snd ke)) (mo_entries m))) in
      if need = 0 \<or> length (mo_recent m) < need \<or> within_window now (mo_control_ok m) then False
      else list_all (\<lambda>o'. \<not> oc_ok o') (mo_recent m))"

definition guard :: "int \<Rightarrow> bool \<Rightarrow> monitor \<Rightarrow> monitor" where
  "guard now up m =
     (if up then publish_pending now (m\<lparr>mo_control_ok := now\<rparr>)
      else
        set_mon_state now Mon_WAN_Down []
          ((discard_pending m)\<lparr>mo_recent := [], mo_next_control := now + control_every, mo_wan_paused := True\<rparr>))"

section \<open>A worker's answer\<close>

text \<open>
  \<^verbatim>\<open>check\<close>: one retry after a failure, unless the prober or the daemon ended while it waited;
  \<^verbatim>\<open>finish\<close> gives the answer its place in the order of completions.
\<close>

definition check_answer :: "int \<times> string option \<Rightarrow> bool \<Rightarrow> int \<times> string option \<Rightarrow> int \<times> string option" where
  "check_answer first ended again = (if snd first \<noteq> None \<and> \<not> ended then again else first)"

definition finish_check :: "int \<Rightarrow> check_result \<Rightarrow> monitor \<Rightarrow> check_result \<times> monitor" where
  "finish_check now r m =
     (r\<lparr>rs_seq := mo_sequence m + 1, rs_at := now\<rparr>, m\<lparr>mo_sequence := mo_sequence m + 1\<rparr>)"

text \<open>
  \<open>gone\<close> is a prober that has exited, \<open>cancelled\<close> a daemon that ends, \<open>up\<close> what the control dial
  would answer.
\<close>

definition take_success :: "int \<Rightarrow> rat \<Rightarrow> check_result \<Rightarrow> outcome \<Rightarrow> entry \<Rightarrow> monitor \<Rightarrow> monitor" where
  "take_success now jitter r o' e m =
     (let (e', changed) = succeed now (rs_latency r) (mo_settings m) jitter e;
          m' = (if crash_window \<le> sub_time (rs_at r) (mo_session_since m)
                then m\<lparr>mo_crash_batches := 0, mo_crashes := []\<rparr> else m)
      in publish_pending now
           ((upd_entry (rs_key r) (\<lambda>_. complete m o' e') m')
              \<lparr>mo_status_dirty := mo_status_dirty m \<or> changed, mo_dirty := True, mo_updated := now\<rparr>))"

definition take_failure :: "int \<Rightarrow> bool \<Rightarrow> check_result \<Rightarrow> outcome \<Rightarrow> monitor \<Rightarrow> monitor" where
  "take_failure now up r o' m =
     (let m' = (upd_entry (rs_key r) (\<lambda>e. e\<lparr>en_pending := True\<rparr>) m)
                 \<lparr>mo_waiting := AList.update (rs_key r) o' (mo_waiting m)\<rparr> in
      if wan_evidence now m' then publish_pending now m'
      else if guard_due now m' then guard now up m'
      else m')"

definition apply_result :: "int \<Rightarrow> rat \<Rightarrow> bool \<Rightarrow> bool \<Rightarrow> bool \<Rightarrow> check_result \<Rightarrow> monitor \<Rightarrow> monitor" where
  "apply_result now jitter gone cancelled up r m =
     (case entry_of m (rs_key r) of
        None \<Rightarrow> m
      | Some e \<Rightarrow>
          if rs_seq r = 0 \<or> rs_session r \<noteq> mo_session m \<or> rs_session r = 0 \<or> gone then m
          else
            let m1 = upd_entry (rs_key r) (\<lambda>e. e\<lparr>en_in_flight := False\<rparr>) m in
            if rs_generation r \<noteq> mo_generation m \<or> rs_started r = 0 \<or> mo_state m \<noteq> Mon_OK \<or> cancelled then m1
            else
              let o' = \<lparr>oc_at = now, oc_ok = (rs_error r = None), oc_key = rs_key r, oc_reason = [],
                        oc_seq = rs_seq r, oc_generation = rs_generation r, oc_started = rs_started r\<rparr>;
                  m2 = prune_recent now (m1\<lparr>mo_recent := mo_recent m1 @ [o']\<rparr>)
              in case rs_error r of
                   None \<Rightarrow> take_success now jitter r o' (e\<lparr>en_in_flight := False\<rparr>) m2
                 | Some reason \<Rightarrow> take_failure now up r (o'\<lparr>oc_reason := reason\<rparr>) m2)"

section \<open>The prober\<close>

datatype start_answer = Started | Refused_Key string string string | Refused_Config string | Start_Failed string
datatype test_answer = Passes | Refuses | Test_Fails string
datatype ready_answer = Ready | No_Xray string | Not_Ready string

text \<open>
  What the launcher answers during one step: the n-th start, a test of a set, and whether an endpoint
  crashes a prober of its own.
\<close>

record launcher =
  la_ready :: ready_answer
  la_start :: "nat \<Rightarrow> endpoint list \<Rightarrow> start_answer"
  la_test :: "endpoint list \<Rightarrow> test_answer"
  la_crashes :: "endpoint \<Rightarrow> bool"

definition stop_session :: "monitor \<Rightarrow> monitor" where
  "stop_session m =
     (if mo_session m = 0 then m
      else invalidate_evidence
        ((discard_pending (upd_entries (\<lambda>e. e\<lparr>en_in_flight := False\<rparr>)
            (m\<lparr>mo_session := 0, mo_set_key := [], mo_session_since := zero_time\<rparr>)))\<lparr>mo_recent := []\<rparr>))"

definition idle :: "int \<Rightarrow> mon_state \<Rightarrow> string \<Rightarrow> monitor \<Rightarrow> monitor" where
  "idle now st msg m = set_mon_state now st msg ((stop_session m)\<lparr>mo_recent := []\<rparr>)"

definition backoff :: "nat \<Rightarrow> int" where
  "backoff n = prober_backoff ! min n (length prober_backoff - 1)"

definition start_failed :: "int \<Rightarrow> string \<Rightarrow> monitor \<Rightarrow> monitor" where
  "start_failed now err m =
     (let m' = m\<lparr>mo_prober_fails := mo_prober_fails m + 1,
                 mo_prober_at := now + backoff (mo_prober_fails m), mo_prober_error := err\<rparr> in
      if mo_wan_paused m then m' else set_mon_state now Mon_Prober_Error err m')"

definition reject_key :: "int \<Rightarrow> string \<Rightarrow> string \<Rightarrow> monitor \<Rightarrow> monitor" where
  "reject_key now key reason m =
     (case entry_of m key of
        None \<Rightarrow> m
      | Some e \<Rightarrow>
          let m' = (upd_entry key (reject now reason True) m)\<lparr>mo_dirty := True, mo_updated := now\<rparr> in
          if checkable e then invalidate_evidence (m'\<lparr>mo_status_dirty := True\<rparr>) else m')"

definition endpoint_of :: "string \<Rightarrow> entry \<Rightarrow> endpoint" where
  "endpoint_of k e = \<lparr>ep_key = k, ep_label = en_label e, ep_outbound = en_outbound e\<rparr>"

definition checkable_set :: "monitor \<Rightarrow> endpoint list" where
  "checkable_set m =
     List.map_filter (\<lambda>k. case entry_of m k of
         Some e \<Rightarrow> if checkable e then Some (endpoint_of k e) else None | None \<Rightarrow> None) (mo_order m)"

definition keys_of :: "endpoint list \<Rightarrow> string" where
  "keys_of eps = join_with '','' (sort (map (\<lambda>ep. ep_key ep @ CHR '':'' # sha256_hex (ep_outbound ep)) eps))"

definition without :: "endpoint list \<Rightarrow> string \<Rightarrow> endpoint list" where
  "without eps key = filter (\<lambda>ep. ep_key ep \<noteq> key) eps"

text \<open>The search for a refused endpoint when the refusal names none; \<^const>\<open>Inl\<close> is a failed test.\<close>

function bisect_loop :: "(endpoint list \<Rightarrow> test_answer) \<Rightarrow> endpoint list \<Rightarrow> string + endpoint list" where
  "bisect_loop test eps =
     (if length eps \<le> 1 then Inr eps
      else
        let half = take (length eps div 2) eps in
        case test half of
          Test_Fails err \<Rightarrow> Inl err
        | Refuses \<Rightarrow> bisect_loop test half
        | Passes \<Rightarrow> bisect_loop test (drop (length eps div 2) eps))"
  by pat_completeness auto
termination by (relation "measure (\<lambda>(test, eps). length eps)") auto

declare bisect_loop.simps [simp del]

definition bisect :: "(endpoint list \<Rightarrow> test_answer) \<Rightarrow> endpoint list \<Rightarrow> string + string option" where
  "bisect test eps =
     (case test eps of
        Test_Fails err \<Rightarrow> Inl err
      | Passes \<Rightarrow> Inr None
      | Refuses \<Rightarrow>
          (case bisect_loop test eps of
             Inl err \<Rightarrow> Inl err
           | Inr one \<Rightarrow>
               (case test one of
                  Test_Fails err \<Rightarrow> Inl err
                | Passes \<Rightarrow> Inr None
                | Refuses \<Rightarrow> Inr (Some (ep_key (hd one))))))"

definition started :: "int \<Rightarrow> endpoint list \<Rightarrow> monitor \<Rightarrow> monitor" where
  "started now eps m =
     set_mon_state now Mon_OK []
       ((invalidate_evidence
           (m\<lparr>mo_session := mo_sessions m + 1, mo_sessions := mo_sessions m + 1, mo_set_key := keys_of eps,
              mo_session_since := now\<rparr>))
        \<lparr>mo_prober_fails := 0, mo_prober_at := zero_time\<rparr>)"

text \<open>Which endpoint a refusal takes out of the eps: a key with its reason, or why the start failed.\<close>

definition refused_key :: "launcher \<Rightarrow> endpoint list \<Rightarrow> start_answer \<Rightarrow> string + string \<times> string" where
  "refused_key la eps answer =
     (case answer of
        Started \<Rightarrow> Inl []
      | Start_Failed err \<Rightarrow> Inl err
      | Refused_Key key reason err \<Rightarrow> if key = [] then Inl err else Inr (key, reason)
      | Refused_Config err \<Rightarrow>
          (case bisect (la_test la) eps of
             Inl test_err \<Rightarrow> Inl test_err
           | Inr None \<Rightarrow> Inl err
           | Inr (Some key) \<Rightarrow> if key = [] then Inl err else Inr (key, ''Xray refused the outbound'')))"

fun start_loop :: "launcher \<Rightarrow> int \<Rightarrow> nat \<Rightarrow> endpoint list \<Rightarrow> monitor \<Rightarrow> monitor" where
  "start_loop la now 0 eps m = start_failed now (''Xray refused '' @ show_nat max_refusals @ '' outbounds in a row'') m"
| "start_loop la now (Suc n) eps m =
     (let answer = la_start la (max_refusals - Suc n) eps in
      if answer = Started then started now eps m
      else case refused_key la eps answer of
             Inl err \<Rightarrow> start_failed now err m
           | Inr (bad, reason) \<Rightarrow>
               let rest = without eps bad in
               if length rest = length eps then
                 start_failed now ''Xray refused an endpoint outside the prober set'' m
               else
                 let m' = reject_key now bad reason m in
                 if rest = [] then set_mon_state now Mon_OK [] m' else start_loop la now n rest m')"

definition ensure_session :: "launcher \<Rightarrow> int \<Rightarrow> bool \<Rightarrow> monitor \<Rightarrow> monitor" where
  "ensure_session la now gone m =
     (if mo_wan_paused m then m
      else
        let eps = checkable_set m in
        if mo_session m \<noteq> 0 \<and> keys_of eps = mo_set_key m then
          (if gone then m else set_mon_state now Mon_OK [] m)
        else if eps = [] then set_mon_state now Mon_OK [] (stop_session m)
        else if now < mo_prober_at m then m
        else start_loop la now max_refusals eps (stop_session m))"

fun isolate_loop :: "launcher \<Rightarrow> int \<Rightarrow> string list \<Rightarrow> monitor \<Rightarrow> monitor" where
  "isolate_loop la now [] m = m"
| "isolate_loop la now (k # ks) m =
     (let m' = (case entry_of m k of
                  None \<Rightarrow> m
                | Some e \<Rightarrow>
                    if k \<noteq> [] \<and> checkable e \<and> la_crashes la (endpoint_of k e)
                    then reject_key now k ''crashes Xray'' m else m)
      in isolate_loop la now ks (m'\<lparr>mo_suspects := ks\<rparr>))"

definition isolate :: "launcher \<Rightarrow> int \<Rightarrow> monitor \<Rightarrow> monitor" where
  "isolate la now m = (if mo_wan_paused m then m else isolate_loop la now (mo_suspects m) m)"

definition reassess_one :: "int \<Rightarrow> entry \<Rightarrow> entry" where
  "reassess_one now e =
     e\<lparr>en_st := new_state now, en_pause := 0, en_sticky := False, en_revision := en_revision e + 1\<rparr>"

definition unproved :: "entry \<Rightarrow> bool" where
  "unproved e \<longleftrightarrow> \<not> checkable e \<and> \<not> en_rejected_current e"

definition reassess_rejected :: "int \<Rightarrow> monitor \<Rightarrow> monitor" where
  "reassess_rejected now m =
     (let due = filter (\<lambda>k. case entry_of m k of Some e \<Rightarrow> unproved e | None \<Rightarrow> False) (mo_order m) in
      if due = [] then m
      else invalidate_evidence
        ((fold (\<lambda>k. upd_entry k (\<lambda>e. if unproved e then reassess_one now e else e)) due m)
           \<lparr>mo_dirty := True, mo_status_dirty := True, mo_updated := now\<rparr>))"

definition resume :: "launcher \<Rightarrow> int \<Rightarrow> bool \<Rightarrow> monitor \<Rightarrow> monitor" where
  "resume la now gone m =
     (if now < mo_prober_at m then m
      else case la_ready la of
             No_Xray msg \<Rightarrow> (idle now Mon_No_Xray msg m)\<lparr>mo_prober_at := zero_time, mo_prober_fails := 0\<rparr>
           | Not_Ready err \<Rightarrow> start_failed now err (stop_session m)
           | Ready \<Rightarrow>
               let m' = isolate la now (reassess_rejected now m) in
               if mo_wan_paused m' then m' else ensure_session la now gone m')"

section \<open>Crashes\<close>

text \<open>The endpoints under check when the prober went, after those still waiting, bounded.\<close>

fun add_suspects :: "monitor \<Rightarrow> string list \<Rightarrow> string list \<Rightarrow> string list" where
  "add_suspects m suspects [] = suspects"
| "add_suspects m suspects (k # ks) =
     add_suspects m
       (if (case entry_of m k of Some e \<Rightarrow> en_in_flight e | None \<Rightarrow> False) \<and> k \<notin> set suspects \<and>
           int (length suspects) < max_concurrency
        then suspects @ [k] else suspects) ks"

definition crashed :: "launcher \<Rightarrow> int \<Rightarrow> monitor \<Rightarrow> monitor" where
  "crashed la now m =
     (if mo_session m = 0 then m
      else
        let crashes = filter (\<lambda>t. sub_time now t < crash_window) (mo_crashes m) @ [now];
            m1 = invalidate_evidence
                   ((discard_pending (upd_entries (\<lambda>e. e\<lparr>en_in_flight := False\<rparr>)
                       (m\<lparr>mo_suspects := add_suspects m (mo_suspects m) (mo_order m),
                          mo_session := 0, mo_set_key := [], mo_session_since := zero_time\<rparr>)))\<lparr>mo_recent := []\<rparr>)
                     \<lparr>mo_crashes := crashes\<rparr>;
            m2 = isolate la now m1
        in if crash_limit \<le> length crashes then
             let err = ''the prober crashed '' @ show_nat (length crashes) @ '' times in 10m0s'';
                 m3 = m2\<lparr>mo_crash_batches := mo_crash_batches m2 + 1, mo_crashes := [],
                         mo_prober_at := now + backoff (mo_crash_batches m2), mo_prober_error := err\<rparr>
             in if mo_wan_paused m3 then m3 else set_mon_state now Mon_Prober_Error err m3
           else ensure_session la now False m2)"

section \<open>The set of endpoints\<close>

definition from_restored :: "monitor \<Rightarrow> string \<Rightarrow> int \<Rightarrow> entry" where
  "from_restored m key now =
     (case map_of (mo_restored m) key of
        Some r \<Rightarrow> new_entry (sd_state r) (sd_pause r) (sd_sticky r)
      | None \<Rightarrow> new_entry (new_state now) 0 False)"

text \<open>What taking one endpoint changed: the identity of the set, a status, anything worth a save.\<close>

record merge_flags =
  mf_identity :: bool
  mf_status :: bool
  mf_changed :: bool

definition take_endpoint :: "int \<Rightarrow> monitor \<Rightarrow> endpoint \<Rightarrow> entry \<times> merge_flags" where
  "take_endpoint now m ep =
     (let known = entry_of m (ep_key ep);
          e = (case known of Some e \<Rightarrow> e | None \<Rightarrow> from_restored m (ep_key ep) now);
          other = en_outbound e \<noteq> ep_outbound ep;
          e1 = (if other then e\<lparr>en_rejected_current := False\<rparr> else e);
          e2 = e1\<lparr>en_label := ep_label ep, en_outbound := ep_outbound ep\<rparr>;
          admitted = \<not> checkable e2 \<and> \<not> en_sticky e2
      in (if admitted then e2\<lparr>en_st := new_state now, en_revision := en_revision e2 + 1, en_rejected_current := False\<rparr>
          else e2,
          \<lparr>mf_identity = known = None \<or> other \<or> admitted, mf_status = admitted, mf_changed = admitted\<rparr>))"

definition take_refusal :: "int \<Rightarrow> monitor \<Rightarrow> string \<times> string \<Rightarrow> entry \<times> merge_flags" where
  "take_refusal now m kr =
     (let known = entry_of m (fst kr);
          e = (case known of Some e \<Rightarrow> e | None \<Rightarrow> from_restored m (fst kr) now);
          e' = reject now (snd kr) False (e\<lparr>en_label := [], en_outbound := []\<rparr>)
      in (e',
          \<lparr>mf_identity = known = None \<or> checkable e \<or> en_sticky e \<or> en_outbound e \<noteq> [],
           mf_status = ps_status (en_st e) \<noteq> ps_status (en_st e'), mf_changed = en_st e \<noteq> en_st e'\<rparr>))"

definition merge_set :: "int \<Rightarrow> endpoint list \<Rightarrow> (string \<times> string) list \<Rightarrow> monitor \<Rightarrow> monitor" where
  "merge_set now eps refused m =
     (let taken = map (\<lambda>ep. (ep_key ep, take_endpoint now m ep)) eps
                  @ map (\<lambda>kr. (fst kr, take_refusal now m kr)) refused;
          next_entries = map (\<lambda>(k, e, f). (k, e)) taken;
          changed = mo_restored m \<noteq> [] \<or> list_ex (\<lambda>(k, e, f). mf_changed f) taken;
          status = list_ex (\<lambda>(k, e, f). mf_status f) taken;
          identity = list_ex (\<lambda>(k, e, f). mf_identity f) taken \<or>
                     set (map fst next_entries) \<noteq> set (map fst (mo_entries m));
          m1 = m\<lparr>mo_entries := next_entries, mo_order := map ep_key eps, mo_restored := [],
                 mo_dirty := mo_dirty m \<or> changed \<or> identity,
                 mo_updated := (if changed \<or> identity then now else mo_updated m),
                 mo_status_dirty := mo_status_dirty m \<or> status\<rparr>
      in if identity then invalidate_evidence m1 else m1)"

text \<open>What one refresh reads: a failed read of the settings or the subscriptions keeps the last ones.\<close>

record refresh_input =
  ri_settings :: "settings option"
  ri_endpoints :: "(endpoint list \<times> (string \<times> string) list) option"
  ri_stopped :: bool

definition refresh :: "launcher \<Rightarrow> refresh_input \<Rightarrow> int \<Rightarrow> bool \<Rightarrow> monitor \<Rightarrow> monitor" where
  "refresh la inp now gone m =
     (let s = (case ri_settings inp of Some s \<Rightarrow> s | None \<Rightarrow> mo_settings m);
          m1 = m\<lparr>mo_settings := s\<rparr>;
          m2 = (case ri_endpoints inp of Some (eps, refused) \<Rightarrow> merge_set now eps refused m1 | None \<Rightarrow> m1)
      in if \<not> se_enabled s then idle now Mon_Disabled [] m2
         else if ri_stopped inp then idle now Mon_Stopped [] m2
         else if mo_wan_paused m2 then
           (case la_ready la of
              No_Xray msg \<Rightarrow> idle now Mon_No_Xray msg m2
            | _ \<Rightarrow> set_mon_state now Mon_WAN_Down [] m2)
         else resume la now gone m2)"

section \<open>Handing out checks\<close>

definition wanted :: "entry \<Rightarrow> bool" where
  "wanted e \<longleftrightarrow> en_urgent e \<or> en_follow_up e \<or> en_evidence_follow_up e"

definition is_due :: "int \<Rightarrow> entry \<Rightarrow> bool" where
  "is_due now e \<longleftrightarrow> \<not> en_in_flight e \<and> checkable e \<and> \<not> en_pending e \<and> (wanted e \<or> ps_next (en_st e) \<le> now)"

fun position :: "string list \<Rightarrow> string \<Rightarrow> nat" where
  "position [] k = 0"
| "position (x # xs) k = (if x = k then 0 else Suc (position xs k))"

text \<open>Urgent before the rest, then the longest due, then the place in the order.\<close>

definition due_key :: "monitor \<Rightarrow> string \<times> entry \<Rightarrow> nat \<times> int \<times> nat" where
  "due_key m ke = (if wanted (snd ke) then 0 else 1, ps_next (en_st (snd ke)), position (mo_order m) (fst ke))"

definition due_list :: "int \<Rightarrow> monitor \<Rightarrow> (string \<times> entry) list" where
  "due_list now m = sort_key (due_key m) (filter (\<lambda>ke. is_due now (snd ke)) (mo_entries m))"

definition busy :: "monitor \<Rightarrow> nat" where
  "busy m = length (filter (\<lambda>ke. en_in_flight (snd ke)) (mo_entries m))"

definition free_workers :: "monitor \<Rightarrow> nat" where
  "free_workers m = nat (max 0 (se_concurrency (mo_settings m) - int (busy m)))"

definition hand_out :: "string \<Rightarrow> monitor \<Rightarrow> monitor" where
  "hand_out k m = (upd_entry k (\<lambda>e. e\<lparr>en_in_flight := True, en_urgent := False\<rparr>) m)\<lparr>mo_starts := mo_starts m + 1\<rparr>"

definition dispatch :: "int \<Rightarrow> monitor \<Rightarrow> monitor" where
  "dispatch now m = fold hand_out (map fst (take (free_workers m) (due_list now m))) m"

section \<open>Saving, and the tick\<close>

definition saved_of :: "entry \<Rightarrow> saved_entry" where
  "saved_of e = \<lparr>sd_state = en_st e, sd_pause = en_pause e, sd_sticky = en_sticky e\<rparr>"

definition saved_entries :: "monitor \<Rightarrow> (string \<times> saved_entry) list" where
  "saved_entries m =
     foldl (\<lambda>acc (k, r). AList.update k r acc) [] (mo_restored m @ map (map_prod id saved_of) (mo_entries m))"

definition save_state :: "bool \<Rightarrow> int \<Rightarrow> monitor \<Rightarrow> monitor" where
  "save_state ok now m =
     m\<lparr>mo_last_save := now, mo_dirty := \<not> ok, mo_save_failed := \<not> ok,
       mo_status_dirty := (if ok then False else mo_status_dirty m)\<rparr>"

definition restore_state :: "(string \<times> saved_entry) list \<Rightarrow> monitor \<Rightarrow> monitor" where
  "restore_state saved m = m\<lparr>mo_restored := saved\<rparr>"

definition wan_back :: "int \<Rightarrow> monitor \<Rightarrow> monitor" where
  "wan_back now m =
     (upd_entries (\<lambda>e. if checkable e then e\<lparr>en_st := (en_st e)\<lparr>ps_next := now\<rparr>\<rparr> else e) m)
       \<lparr>mo_recent := [], mo_control_ok := now, mo_wan_paused := False, mo_dirty := True\<rparr>"

definition tick_control :: "launcher \<Rightarrow> int \<Rightarrow> bool \<Rightarrow> bool \<Rightarrow> monitor \<Rightarrow> monitor" where
  "tick_control la now gone up m =
     (if mo_wan_paused m \<and> mo_state m = Mon_WAN_Down \<and> mo_next_control m \<le> now then
        (if up then
           let m' = wan_back now m in
           if now < mo_prober_at m' then set_mon_state now Mon_Prober_Error (mo_prober_error m') m'
           else resume la now gone m'
         else m\<lparr>mo_next_control := now + control_every\<rparr>)
      else m)"

definition tick_checks :: "int \<Rightarrow> bool \<Rightarrow> bool \<Rightarrow> monitor \<Rightarrow> monitor" where
  "tick_checks now gone up m =
     (if mo_state m = Mon_OK \<and> mo_session m \<noteq> 0 \<and> \<not> gone then
        let m' = (case pending_until m of
                    Some deadline \<Rightarrow> if deadline \<le> now then guard now up m else m
                  | None \<Rightarrow> m)
        in if mo_state m' = Mon_OK then dispatch now m' else m'
      else m)"

definition tick_save :: "int \<Rightarrow> bool \<Rightarrow> monitor \<Rightarrow> monitor" where
  "tick_save now ok m =
     (if mo_dirty m \<and> ((mo_status_dirty m \<and> \<not> mo_save_failed m) \<or> save_every \<le> sub_time now (mo_last_save m))
      then save_state ok now m else m)"

text \<open>
  \<open>up\<close> is what the control dial of the pause answers, \<open>up'\<close> that of the guard, \<open>gone\<close> and \<open>gone'\<close>
  whether the prober had exited when it was looked at.
\<close>

definition tick :: "launcher \<Rightarrow> int \<Rightarrow> bool \<Rightarrow> bool \<Rightarrow> bool \<Rightarrow> bool \<Rightarrow> bool \<Rightarrow> monitor \<Rightarrow> monitor" where
  "tick la now gone gone' up up' saved m =
     tick_save now saved (tick_checks now gone' up' (tick_control la now gone up m))"

definition shut_down :: "bool \<Rightarrow> int \<Rightarrow> monitor \<Rightarrow> monitor" where
  "shut_down ok now m = save_state ok now (stop_session (invalidate_evidence (m\<lparr>mo_closed := True\<rparr>)))"

end
