(* ===== verification/Monitor_Run.thy ===== *)
theory Monitor_Run
  imports Monitor
begin

text \<open>
  The runs of the monitor: the events of its loop as steps, the invariant every step keeps, and what it
  gives - an endpoint is never called dead without evidence that the WAN works, nothing is called
  anything while the WAN is down, and no failure stays unresolved longer than the guard's window.
\<close>

section \<open>Steps\<close>

datatype mon_event =
    Ev_Restore "(string \<times> saved_entry) list"
  | Ev_Refresh launcher refresh_input int bool
  | Ev_Tick launcher int bool bool bool bool bool
  | Ev_Finish int check_result
  | Ev_Result int rat bool bool bool check_result
  | Ev_Crashed launcher int
  | Ev_Queue "string list" bool
  | Ev_Shut_Down bool int

fun run_event :: "mon_event \<Rightarrow> monitor \<Rightarrow> monitor" where
  "run_event (Ev_Restore saved) m = restore_state saved m"
| "run_event (Ev_Refresh la inp now gone) m = refresh la inp now gone m"
| "run_event (Ev_Tick la now gone gone' up up' saved) m = tick la now gone gone' up up' saved m"
| "run_event (Ev_Finish now r) m = snd (finish_check now r m)"
| "run_event (Ev_Result now jitter gone cancelled up r) m = apply_result now jitter gone cancelled up r m"
| "run_event (Ev_Crashed la now) m = crashed la now m"
| "run_event (Ev_Queue ks fresh) m = snd (queue ks fresh m)"
| "run_event (Ev_Shut_Down ok now) m = shut_down ok now m"

fun event_time :: "mon_event \<Rightarrow> int" where
  "event_time (Ev_Refresh la inp now gone) = now"
| "event_time (Ev_Tick la now gone gone' up up' saved) = now"
| "event_time (Ev_Result now jitter gone cancelled up r) = now"
| "event_time (Ev_Finish now r) = now"
| "event_time (Ev_Crashed la now) = now"
| "event_time (Ev_Shut_Down ok now) = now"
| "event_time _ = 0"

section \<open>Reading a status after a change\<close>

named_theorems entry_simps

definition status_of :: "monitor \<Rightarrow> string \<Rightarrow> status option" where
  "status_of m k = map_option (\<lambda>e. ps_status (en_st e)) (entry_of m k)"

lemma map_of_upd:
  "map_of (map (\<lambda>(j, e). (j, if j = k then f e else e)) es) i = (if i = k then map_option f (map_of es k) else map_of es i)"
  by (induction es) auto

lemma entry_upd_entry [entry_simps, simp]:
  "entry_of (upd_entry k f m) i = (if i = k then map_option f (entry_of m k) else entry_of m i)"
  by (simp add: upd_entry_def map_of_upd)

lemma entry_upd_entries [entry_simps, simp]:
  "entry_of (upd_entries f m) i = map_option f (entry_of m i)"
  by (simp add: upd_entries_def map_of_map map_prod_def case_prod_beta)

lemma keys_upd_entry [simp]: "keys (mo_entries (upd_entry k f m)) = keys (mo_entries m)"
  by (simp add: upd_entry_def case_prod_beta comp_def)

lemma keys_upd_entries [simp]: "keys (mo_entries (upd_entries f m)) = keys (mo_entries m)"
  by (simp add: upd_entries_def comp_def)

text \<open>Neither touches another field.\<close>

lemma upd_entry_frame [simp]:
  "mo_settings (upd_entry k f m) = mo_settings m" "mo_state (upd_entry k f m) = mo_state m"
  "mo_session (upd_entry k f m) = mo_session m" "mo_waiting (upd_entry k f m) = mo_waiting m"
  "mo_recent (upd_entry k f m) = mo_recent m" "mo_control_ok (upd_entry k f m) = mo_control_ok m"
  "mo_wan_paused (upd_entry k f m) = mo_wan_paused m" "mo_generation (upd_entry k f m) = mo_generation m"
  "mo_restored (upd_entry k f m) = mo_restored m" "mo_order (upd_entry k f m) = mo_order m"
  "mo_closed (upd_entry k f m) = mo_closed m" "mo_sessions (upd_entry k f m) = mo_sessions m"
  "mo_message (upd_entry k f m) = mo_message m" "mo_suspects (upd_entry k f m) = mo_suspects m"
  by (simp_all add: upd_entry_def)

lemma upd_entries_frame [simp]:
  "mo_settings (upd_entries f m) = mo_settings m" "mo_state (upd_entries f m) = mo_state m"
  "mo_session (upd_entries f m) = mo_session m" "mo_waiting (upd_entries f m) = mo_waiting m"
  "mo_recent (upd_entries f m) = mo_recent m" "mo_control_ok (upd_entries f m) = mo_control_ok m"
  "mo_wan_paused (upd_entries f m) = mo_wan_paused m" "mo_generation (upd_entries f m) = mo_generation m"
  "mo_restored (upd_entries f m) = mo_restored m" "mo_order (upd_entries f m) = mo_order m"
  "mo_closed (upd_entries f m) = mo_closed m" "mo_sessions (upd_entries f m) = mo_sessions m"
  "mo_message (upd_entries f m) = mo_message m" "mo_suspects (upd_entries f m) = mo_suspects m"
  by (simp_all add: upd_entries_def)

section \<open>The invariant\<close>

text \<open>
  Keys are unique; every record is well formed and belongs to the settings; a failure that waits has its
  outcome in the list of the waiting; without a prober nothing is under check and nothing waits; and
  while the WAN guard holds, the monitor is not OK and nothing waits.
\<close>

definition saved_ok :: "saved_entry \<Rightarrow> bool" where
  "saved_ok r \<longleftrightarrow> entry_ok (new_entry (sd_state r) (sd_pause r) (sd_sticky r))"

definition entries_ok :: "monitor \<Rightarrow> bool" where
  "entries_ok m \<longleftrightarrow>
     (\<forall>k e. entry_of m k = Some e \<longrightarrow> entry_ok e \<and> (en_pending e \<longrightarrow> k \<in> set (keys (mo_waiting m))) \<and>
        (mo_session m = 0 \<longrightarrow> \<not> en_in_flight e))"

definition mon_ok :: "monitor \<Rightarrow> bool" where
  "mon_ok m \<longleftrightarrow>
     go_map (mo_entries m) \<and> settings_ok (mo_settings m) \<and> entries_ok m \<and>
     (\<forall>r \<in> snd ` set (mo_restored m). saved_ok r) \<and>
     (mo_session m = 0 \<longrightarrow> mo_waiting m = []) \<and>
     (mo_wan_paused m \<longrightarrow> mo_state m \<noteq> Mon_OK \<and> mo_waiting m = [])"

lemma mon_okI:
  assumes "go_map (mo_entries m)" and "settings_ok (mo_settings m)" and "entries_ok m"
    and "\<forall>r \<in> snd ` set (mo_restored m). saved_ok r" and "mo_session m = 0 \<longrightarrow> mo_waiting m = []"
    and "mo_wan_paused m \<longrightarrow> mo_state m \<noteq> Mon_OK \<and> mo_waiting m = []"
  shows "mon_ok m"
  using assms by (simp add: mon_ok_def)

subsection \<open>Records\<close>

lemmas entry_cases = entry_ok_def checkable_def

lemma entry_ok_cleared [simp, intro]:
  "entry_ok e \<Longrightarrow> entry_ok (e\<lparr>en_evidence_follow_up := False\<rparr>)"
  "entry_ok e \<Longrightarrow> entry_ok (e\<lparr>en_in_flight := False\<rparr>)"
  "entry_ok e \<Longrightarrow> entry_ok (e\<lparr>en_pending := False\<rparr>)"
  by (simp_all add: entry_ok_def split: status.splits)

lemma entry_ok_set [simp, intro]:
  "entry_ok e \<Longrightarrow> checkable e \<Longrightarrow> entry_ok (e\<lparr>en_pending := True\<rparr>)"
  "entry_ok e \<Longrightarrow> checkable e \<Longrightarrow> entry_ok (e\<lparr>en_in_flight := True, en_urgent := False\<rparr>)"
  "entry_ok e \<Longrightarrow> checkable e \<Longrightarrow> entry_ok (e\<lparr>en_urgent := True\<rparr>)"
  "entry_ok e \<Longrightarrow> checkable e \<Longrightarrow> entry_ok (e\<lparr>en_follow_up := True, en_after := n\<rparr>)"
  by (simp_all add: entry_cases split: status.splits)

lemma entry_ok_mark [simp, intro]: "entry_ok e \<Longrightarrow> entry_ok (mark fresh seq e)"
  by (simp add: mark_def)

lemma mark_fields [simp]:
  "en_pending (mark fresh seq e) = en_pending e" "en_in_flight (mark fresh seq e) = en_in_flight e"
  "en_st (mark fresh seq e) = en_st e"
  by (simp_all add: mark_def)

lemma entry_ok_complete [simp, intro]: "entry_ok e \<Longrightarrow> entry_ok (complete m o' e)"
  by (auto simp: complete_def entry_ok_def split: status.splits)

lemma complete_fields [simp]:
  "en_pending (complete m o' e) = en_pending e" "en_in_flight (complete m o' e) = en_in_flight e"
  "en_st (complete m o' e) = en_st e"
  by (simp_all add: complete_def)

lemma succeed_fields [simp]:
  "en_pending (fst (succeed now l s j e)) = en_pending e" "en_in_flight (fst (succeed now l s j e)) = en_in_flight e"
  "ps_status (en_st (fst (succeed now l s j e))) = St_Alive"
  by (simp_all add: succeed_def Let_def)

lemma fail_fields [simp]:
  "en_pending (fst (fail now r s e)) = en_pending e" "en_in_flight (fst (fail now r s e)) = en_in_flight e"
  "ps_status (en_st (fst (fail now r s e))) = St_Dead"
  by (simp_all add: fail_def Let_def)

lemma reject_fields [simp]:
  "en_pending (reject now r st e) = False" "en_in_flight (reject now r st e) = False"
  by (simp_all add: reject_def Let_def)

lemma reassess_ok [simp, intro]: "entry_ok e \<Longrightarrow> entry_ok (reassess_one now e)"
  by (simp add: reassess_one_def entry_ok_def new_state_def)

lemma reassess_fields [simp]:
  "en_pending (reassess_one now e) = en_pending e" "en_in_flight (reassess_one now e) = en_in_flight e"
  "ps_status (en_st (reassess_one now e)) = St_Unknown"
  by (simp_all add: reassess_one_def new_state_def)

lemma rejected_idle: "entry_ok e \<Longrightarrow> \<not> checkable e \<Longrightarrow> \<not> en_pending e \<and> \<not> en_in_flight e"
  by (simp add: entry_cases)

subsection \<open>Updates of the state\<close>

text \<open>A field the invariant does not read.\<close>

lemma entries_ok_frame [simp]:
  "entries_ok (m\<lparr>mo_message := a1\<rparr>) = entries_ok m" "entries_ok (m\<lparr>mo_updated := i\<rparr>) = entries_ok m"
  "entries_ok (m\<lparr>mo_state := st\<rparr>) = entries_ok m" "entries_ok (m\<lparr>mo_wan_paused := b\<rparr>) = entries_ok m"
  "entries_ok (m\<lparr>mo_settings := se\<rparr>) = entries_ok m"
  by (simp_all add: entries_ok_def)

lemma mon_ok_frame [simp]:
  "mon_ok (m\<lparr>mo_message := a1\<rparr>) = mon_ok m" "mon_ok (m\<lparr>mo_updated := i\<rparr>) = mon_ok m"
  "mon_ok (m\<lparr>mo_dirty := b\<rparr>) = mon_ok m" "mon_ok (m\<lparr>mo_status_dirty := b\<rparr>) = mon_ok m"
  "mon_ok (m\<lparr>mo_save_failed := b\<rparr>) = mon_ok m" "mon_ok (m\<lparr>mo_last_save := i\<rparr>) = mon_ok m"
  "mon_ok (m\<lparr>mo_recent := os\<rparr>) = mon_ok m" "mon_ok (m\<lparr>mo_control_ok := i\<rparr>) = mon_ok m"
  "mon_ok (m\<lparr>mo_next_control := i\<rparr>) = mon_ok m" "mon_ok (m\<lparr>mo_prober_fails := n\<rparr>) = mon_ok m"
  "mon_ok (m\<lparr>mo_prober_at := i\<rparr>) = mon_ok m" "mon_ok (m\<lparr>mo_prober_error := a1\<rparr>) = mon_ok m"
  "mon_ok (m\<lparr>mo_crash_batches := n\<rparr>) = mon_ok m" "mon_ok (m\<lparr>mo_crashes := is\<rparr>) = mon_ok m"
  "mon_ok (m\<lparr>mo_suspects := ks\<rparr>) = mon_ok m" "mon_ok (m\<lparr>mo_set_key := a1\<rparr>) = mon_ok m"
  "mon_ok (m\<lparr>mo_session_since := i\<rparr>) = mon_ok m" "mon_ok (m\<lparr>mo_generation := n\<rparr>) = mon_ok m"
  "mon_ok (m\<lparr>mo_sequence := n\<rparr>) = mon_ok m" "mon_ok (m\<lparr>mo_starts := n\<rparr>) = mon_ok m"
  "mon_ok (m\<lparr>mo_sessions := n\<rparr>) = mon_ok m" "mon_ok (m\<lparr>mo_closed := b\<rparr>) = mon_ok m"
  "mon_ok (m\<lparr>mo_order := ks\<rparr>) = mon_ok m"
  by (simp_all add: mon_ok_def entries_ok_def)

lemma mon_ok_upd_entries:
  assumes "mon_ok m"
    and "\<And>e. entry_ok e \<Longrightarrow> entry_ok (f e) \<and> (en_pending (f e) \<longrightarrow> en_pending e) \<and> (en_in_flight (f e) \<longrightarrow> en_in_flight e)"
  shows "mon_ok (upd_entries f m)"
proof -
  have "entries_ok m" using assms(1) by (simp add: mon_ok_def)
  then have "entries_ok (upd_entries f m)" using assms(2) unfolding entries_ok_def by (simp, blast)
  then show ?thesis using assms(1) by (simp add: mon_ok_def)
qed

lemma mon_ok_upd_entry:
  assumes "mon_ok m"
    and "\<And>e. entry_of m k = Some e \<Longrightarrow> entry_ok e \<Longrightarrow>
      entry_ok (f e) \<and> (en_pending (f e) \<longrightarrow> en_pending e) \<and> (en_in_flight (f e) \<longrightarrow> en_in_flight e \<or> mo_session m \<noteq> 0)"
  shows "mon_ok (upd_entry k f m)"
proof -
  have ok: "entries_ok m" using assms(1) by (simp add: mon_ok_def)
  have "entries_ok (upd_entry k f m)"
    unfolding entries_ok_def
  proof (intro allI impI)
    fix i e'
    assume i: "entry_of (upd_entry k f m) i = Some e'"
    show "entry_ok e' \<and> (en_pending e' \<longrightarrow> i \<in> set (keys (mo_waiting (upd_entry k f m)))) \<and>
      (mo_session (upd_entry k f m) = 0 \<longrightarrow> \<not> en_in_flight e')"
    proof (cases "i = k")
      case True
      then obtain e where e: "entry_of m k = Some e" "e' = f e" using i by auto
      have "entry_ok e" "en_pending e \<longrightarrow> k \<in> set (keys (mo_waiting m))" "mo_session m = 0 \<longrightarrow> \<not> en_in_flight e"
        using ok e(1) unfolding entries_ok_def by blast+
      then show ?thesis using assms(2) [OF e(1)] e(2) True by auto
    next
      case False
      then show ?thesis using ok i by (simp add: entries_ok_def del: map_of_eq_Some_iff)
    qed
  qed
  then show ?thesis using assms(1) by (simp add: mon_ok_def)
qed

lemma invalidate_ok [simp, intro]: "mon_ok m \<Longrightarrow> mon_ok (invalidate_evidence m)"
  unfolding invalidate_evidence_def by (rule mon_ok_upd_entries) auto

lemma invalidate_frame [simp]:
  "mo_settings (invalidate_evidence m) = mo_settings m" "mo_state (invalidate_evidence m) = mo_state m"
  "mo_session (invalidate_evidence m) = mo_session m" "mo_waiting (invalidate_evidence m) = mo_waiting m"
  "mo_recent (invalidate_evidence m) = mo_recent m" "mo_control_ok (invalidate_evidence m) = mo_control_ok m"
  "mo_wan_paused (invalidate_evidence m) = mo_wan_paused m" "mo_restored (invalidate_evidence m) = mo_restored m"
  "keys (mo_entries (invalidate_evidence m)) = keys (mo_entries m)"
  by (simp_all add: invalidate_evidence_def)

lemma set_state_ok:
  assumes "mon_ok (m\<lparr>mo_wan_paused := False\<rparr>)" and "mo_wan_paused m \<longrightarrow> st \<noteq> Mon_OK \<and> mo_waiting m = []"
  shows "mon_ok (set_mon_state now st msg m)"
proof -
  have "mon_ok (m\<lparr>mo_state := st\<rparr>)" using assms by (simp add: mon_ok_def entries_ok_def)
  then have "mon_ok (m\<lparr>mo_state := st, mo_message := msg, mo_updated := now\<rparr>)" by simp
  then show ?thesis using \<open>mon_ok (m\<lparr>mo_state := st\<rparr>)\<close> by (auto simp: set_mon_state_def Let_def)
qed

lemma mon_ok_unpaused: "mon_ok m \<Longrightarrow> mon_ok (m\<lparr>mo_wan_paused := False\<rparr>)"
  by (simp add: mon_ok_def)

lemma set_state_keeps_ok [intro]:
  "mon_ok m \<Longrightarrow> st = Mon_OK \<longrightarrow> \<not> mo_wan_paused m \<Longrightarrow> mon_ok (set_mon_state now st msg m)"
  by (rule set_state_ok) (auto simp: mon_ok_unpaused mon_ok_def)

lemma set_state_frame [simp]:
  "mo_settings (set_mon_state now st msg m) = mo_settings m" "mo_state (set_mon_state now st msg m) = st"
  "mo_session (set_mon_state now st msg m) = mo_session m" "mo_waiting (set_mon_state now st msg m) = mo_waiting m"
  "mo_recent (set_mon_state now st msg m) = mo_recent m" "mo_control_ok (set_mon_state now st msg m) = mo_control_ok m"
  "mo_wan_paused (set_mon_state now st msg m) = mo_wan_paused m"
  by (simp_all add: set_mon_state_def Let_def)

lemma discard_frame [simp]:
  "mo_settings (discard_pending m) = mo_settings m" "mo_state (discard_pending m) = mo_state m"
  "mo_session (discard_pending m) = mo_session m" "mo_waiting (discard_pending m) = []"
  "mo_wan_paused (discard_pending m) = mo_wan_paused m" "mo_restored (discard_pending m) = mo_restored m"
  "keys (mo_entries (discard_pending m)) = keys (mo_entries m)"
  by (simp_all add: discard_pending_def)

lemma discard_ok:
  assumes "go_map (mo_entries m)" and "settings_ok (mo_settings m)" and "\<forall>r \<in> snd ` set (mo_restored m). saved_ok r"
    and "\<And>k e. entry_of m k = Some e \<Longrightarrow> entry_ok e \<and> (mo_session m = 0 \<longrightarrow> \<not> en_in_flight e)"
    and "mo_wan_paused m \<longrightarrow> mo_state m \<noteq> Mon_OK"
  shows "mon_ok (discard_pending m)"
  using assms by (intro mon_okI) (auto simp: discard_pending_def entries_ok_def)

text \<open>The end of a session, by a stop or by a crash.\<close>

lemma end_session_ok:
  assumes "mon_ok m"
  shows "mon_ok (discard_pending (upd_entries (\<lambda>e. e\<lparr>en_in_flight := False\<rparr>)
    (m\<lparr>mo_suspects := ks, mo_session := 0, mo_set_key := [], mo_session_since := i\<rparr>)))"
  by (rule discard_ok) (use assms in \<open>auto simp: mon_ok_def entries_ok_def simp del: map_of_eq_Some_iff\<close>)

lemma stop_session_ok [simp, intro]:
  assumes "mon_ok m"
  shows "mon_ok (stop_session m)"
  using end_session_ok [OF assms, where ks = "mo_suspects m" and i = zero_time] assms
  by (auto simp: stop_session_def)

lemma stop_session_frame [simp]:
  "mo_session (stop_session m) = 0" "mo_wan_paused (stop_session m) = mo_wan_paused m"
  "mo_settings (stop_session m) = mo_settings m" "mo_state (stop_session m) = mo_state m"
  by (simp_all add: stop_session_def)

lemma idle_ok [intro]: "mon_ok m \<Longrightarrow> st \<noteq> Mon_OK \<Longrightarrow> mon_ok (idle now st msg m)"
  unfolding idle_def by (rule set_state_keeps_ok) simp_all

lemma start_failed_ok [intro]: "mon_ok m \<Longrightarrow> mon_ok (start_failed now err m)"
  by (auto simp: start_failed_def Let_def)

lemma reject_key_ok [intro]: "mon_ok m \<Longrightarrow> mon_ok (reject_key now key reason m)"
proof -
  assume m: "mon_ok m"
  have "mon_ok (upd_entry key (reject now reason True) m)"
    by (rule mon_ok_upd_entry [OF m]) (simp add: reject_ok)
  then show ?thesis using m by (auto simp: reject_key_def Let_def split: option.splits)
qed

subsection \<open>Publishing and the guard\<close>

lemma publish_one_frame [simp]:
  "mo_settings (publish_one now ko m) = mo_settings m" "mo_state (publish_one now ko m) = mo_state m"
  "mo_session (publish_one now ko m) = mo_session m" "mo_waiting (publish_one now ko m) = mo_waiting m"
  "mo_recent (publish_one now ko m) = mo_recent m" "mo_control_ok (publish_one now ko m) = mo_control_ok m"
  "mo_wan_paused (publish_one now ko m) = mo_wan_paused m" "mo_restored (publish_one now ko m) = mo_restored m"
  "keys (mo_entries (publish_one now ko m)) = keys (mo_entries m)"
  by (simp_all add: publish_one_def case_prod_beta Let_def split: option.splits)

lemma publish_fold_frame [simp]:
  "mo_settings (fold (publish_one now) ws m) = mo_settings m" "mo_state (fold (publish_one now) ws m) = mo_state m"
  "mo_session (fold (publish_one now) ws m) = mo_session m" "mo_waiting (fold (publish_one now) ws m) = mo_waiting m"
  "mo_recent (fold (publish_one now) ws m) = mo_recent m" "mo_control_ok (fold (publish_one now) ws m) = mo_control_ok m"
  "mo_wan_paused (fold (publish_one now) ws m) = mo_wan_paused m" "mo_restored (fold (publish_one now) ws m) = mo_restored m"
  "keys (mo_entries (fold (publish_one now) ws m)) = keys (mo_entries m)"
  by (induction ws arbitrary: m) (simp_all del: list.map)

lemma publish_one_ok [intro]: "mon_ok m \<Longrightarrow> mon_ok (publish_one now ko m)"
proof -
  assume m: "mon_ok m"
  show ?thesis
  proof (cases "entry_of m (fst ko)")
    case (Some e)
    have "mon_ok (upd_entry (fst ko) (\<lambda>_. complete m (snd ko)
        (fst (fail (oc_at (snd ko)) (oc_reason (snd ko)) (mo_settings m) e)\<lparr>en_pending := False\<rparr>)) m)"
    proof (rule mon_ok_upd_entry [OF m])
      fix e'
      assume e': "entry_of m (fst ko) = Some e'" "entry_ok e'"
      then have "entry_ok (fst (fail (oc_at (snd ko)) (oc_reason (snd ko)) (mo_settings m) e))"
        using Some m by (intro fail_ok) (auto simp: mon_ok_def)
      then show "entry_ok (complete m (snd ko) (fst (fail (oc_at (snd ko)) (oc_reason (snd ko)) (mo_settings m) e)\<lparr>en_pending := False\<rparr>)) \<and>
          (en_pending (complete m (snd ko) (fst (fail (oc_at (snd ko)) (oc_reason (snd ko)) (mo_settings m) e)\<lparr>en_pending := False\<rparr>)) \<longrightarrow> en_pending e') \<and>
          (en_in_flight (complete m (snd ko) (fst (fail (oc_at (snd ko)) (oc_reason (snd ko)) (mo_settings m) e)\<lparr>en_pending := False\<rparr>)) \<longrightarrow>
             en_in_flight e' \<or> mo_session m \<noteq> 0)"
        using Some e' by simp
    qed
    then show ?thesis using Some m by (simp add: publish_one_def case_prod_beta)
  qed (simp add: publish_one_def m)
qed

lemma publish_fold_ok: "mon_ok m \<Longrightarrow> mon_ok (fold (publish_one now) ws m)"
  by (induction ws arbitrary: m) (auto simp del: publish_one_frame)

text \<open>What was waiting is resolved; nothing else becomes pending.\<close>

lemma publish_one_pending:
  assumes "mon_ok m" and "entry_of (publish_one now ko m) k = Some e'" and "en_pending e'"
  shows "k \<noteq> fst ko \<and> (\<exists>e. entry_of m k = Some e \<and> en_pending e)"
proof (cases "entry_of m (fst ko)")
  case None
  then have "entry_of m k = Some e'" using assms(2) by (simp add: publish_one_def)
  then show ?thesis using None assms(3) by auto
next
  case (Some e)
  show ?thesis
  proof (cases "checkable e \<and> en_pending e")
    case True
    then show ?thesis
      using assms(2,3) Some by (cases "k = fst ko") (auto simp: publish_one_def case_prod_beta)
  next
    case False
    have "entry_ok e" using assms(1) Some by (simp add: mon_ok_def entries_ok_def del: map_of_eq_Some_iff)
    then have "\<not> en_pending e" using False by (auto dest: rejected_idle)
    moreover have "entry_of m k = Some e'" using False Some assms(2) by (auto simp: publish_one_def split: if_splits)
    ultimately show ?thesis using Some assms(3) by auto
  qed
qed

lemma publish_fold_pending:
  "mon_ok m \<Longrightarrow> entry_of (fold (publish_one now) ws m) k = Some e' \<Longrightarrow> en_pending e' \<Longrightarrow>
     k \<notin> set (keys ws) \<and> (\<exists>e. entry_of m k = Some e \<and> en_pending e)"
proof (induction ws arbitrary: m)
  case (Cons w ws)
  have ok: "mon_ok (publish_one now w m)" using Cons.prems(1) by (rule publish_one_ok)
  have "k \<notin> set (keys ws)" "\<exists>e. entry_of (publish_one now w m) k = Some e \<and> en_pending e"
    using Cons.IH [OF ok] Cons.prems(2,3) by simp_all
  then show ?case using publish_one_pending [OF Cons.prems(1)] by fastforce
qed auto

lemma publish_pending_frame [simp]:
  "mo_settings (publish_pending now m) = mo_settings m" "mo_state (publish_pending now m) = mo_state m"
  "mo_session (publish_pending now m) = mo_session m" "mo_waiting (publish_pending now m) = []"
  "mo_recent (publish_pending now m) = mo_recent m" "mo_control_ok (publish_pending now m) = mo_control_ok m"
  "mo_wan_paused (publish_pending now m) = mo_wan_paused m"
  "keys (mo_entries (publish_pending now m)) = keys (mo_entries m)"
  by (simp_all add: publish_pending_def)

lemma publish_pending_none:
  assumes "mon_ok m" and "entry_of (publish_pending now m) k = Some e"
  shows "\<not> en_pending e"
proof
  assume "en_pending e"
  moreover have "entry_of (fold (publish_one now) (mo_waiting m) m) k = Some e"
    using assms(2) by (simp add: publish_pending_def)
  ultimately have "k \<notin> set (keys (mo_waiting m))" "\<exists>e. entry_of m k = Some e \<and> en_pending e"
    using publish_fold_pending [OF assms(1)] by blast+
  then show False using assms(1) by (auto simp: mon_ok_def entries_ok_def simp del: map_of_eq_Some_iff)
qed

lemma publish_pending_ok [intro]:
  assumes "mon_ok m"
  shows "mon_ok (publish_pending now m)"
proof -
  let ?m = "fold (publish_one now) (mo_waiting m) m"
  have m: "mon_ok ?m" using assms by (rule publish_fold_ok)
  have "entries_ok (?m\<lparr>mo_waiting := []\<rparr>)"
    unfolding entries_ok_def
  proof (intro allI impI)
    fix k e
    assume "entry_of (?m\<lparr>mo_waiting := []\<rparr>) k = Some e"
    then have "entry_of ?m k = Some e" "\<not> en_pending e"
      using publish_pending_none [OF assms, of now k e] by (simp_all add: publish_pending_def)
    then show "entry_ok e \<and> (en_pending e \<longrightarrow> k \<in> set (keys (mo_waiting (?m\<lparr>mo_waiting := []\<rparr>)))) \<and>
        (mo_session (?m\<lparr>mo_waiting := []\<rparr>) = 0 \<longrightarrow> \<not> en_in_flight e)"
      using m by (auto simp: mon_ok_def entries_ok_def simp del: map_of_eq_Some_iff)
  qed
  then show ?thesis using m by (simp add: mon_ok_def publish_pending_def)
qed

lemma guard_ok [intro]:
  assumes "mon_ok m"
  shows "mon_ok (guard now up m)"
proof (cases up)
  case True
  then show ?thesis using assms by (auto simp: guard_def)
next
  case False
  have "mon_ok (discard_pending m)"
    by (rule discard_ok) (use assms in \<open>auto simp: mon_ok_def entries_ok_def simp del: map_of_eq_Some_iff\<close>)
  then have "mon_ok (set_mon_state now Mon_WAN_Down []
      ((discard_pending m)\<lparr>mo_recent := [], mo_next_control := now + control_every, mo_wan_paused := True\<rparr>))"
    by (intro set_state_ok) (simp_all add: mon_ok_unpaused)
  then show ?thesis using False by (simp add: guard_def)
qed

subsection \<open>Answers\<close>

lemma prune_frame [simp]:
  "mon_ok (prune_recent now m) = mon_ok m" "mo_waiting (prune_recent now m) = mo_waiting m"
  "mo_session (prune_recent now m) = mo_session m" "mo_state (prune_recent now m) = mo_state m"
  "mo_wan_paused (prune_recent now m) = mo_wan_paused m" "mo_control_ok (prune_recent now m) = mo_control_ok m"
  "mo_entries (prune_recent now m) = mo_entries m" "mo_settings (prune_recent now m) = mo_settings m"
  by (simp_all add: prune_recent_def)

lemma mon_ok_wait:
  assumes "mon_ok m" and "entry_of m k = Some e" and "checkable e" and "mo_session m \<noteq> 0" and "\<not> mo_wan_paused m"
  shows "mon_ok ((upd_entry k (\<lambda>e. e\<lparr>en_pending := True\<rparr>) m)\<lparr>mo_waiting := AList.update k o' (mo_waiting m)\<rparr>)"
proof -
  have "entries_ok ((upd_entry k (\<lambda>e. e\<lparr>en_pending := True\<rparr>) m)\<lparr>mo_waiting := AList.update k o' (mo_waiting m)\<rparr>)"
    unfolding entries_ok_def
  proof (intro allI impI)
    fix i e'
    assume i: "entry_of ((upd_entry k (\<lambda>e. e\<lparr>en_pending := True\<rparr>) m)\<lparr>mo_waiting := AList.update k o' (mo_waiting m)\<rparr>) i = Some e'"
    have keys: "set (keys (AList.update k o' (mo_waiting m))) = insert k (set (keys (mo_waiting m)))"
      using dom_update [of k o' "mo_waiting m"] by (simp add: dom_map_of_conv_image_fst)
    obtain e0 where e0: "entry_of m i = Some e0" "e' = (if i = k then e0\<lparr>en_pending := True\<rparr> else e0)"
      using i by (cases "i = k") auto
    have "entry_ok e0" "en_pending e0 \<longrightarrow> i \<in> set (keys (mo_waiting m))"
      using assms(1) e0(1) unfolding mon_ok_def entries_ok_def by blast+
    then show "entry_ok e' \<and>
        (en_pending e' \<longrightarrow> i \<in> set (keys (mo_waiting ((upd_entry k (\<lambda>e. e\<lparr>en_pending := True\<rparr>) m)\<lparr>mo_waiting := AList.update k o' (mo_waiting m)\<rparr>)))) \<and>
        (mo_session ((upd_entry k (\<lambda>e. e\<lparr>en_pending := True\<rparr>) m)\<lparr>mo_waiting := AList.update k o' (mo_waiting m)\<rparr>) = 0 \<longrightarrow> \<not> en_in_flight e')"
      using e0 assms keys by auto
  qed
  then show ?thesis using assms by (simp add: mon_ok_def)
qed

lemma take_failure_ok:
  assumes "mon_ok m" and "entry_of m (rs_key r) = Some e" and "checkable e" and "mo_session m \<noteq> 0" and "\<not> mo_wan_paused m"
  shows "mon_ok (take_failure now up r o' m)"
  using mon_ok_wait [OF assms, of o'] by (auto simp: take_failure_def Let_def)

lemma take_success_ok:
  assumes "mon_ok m" and "entry_of m (rs_key r) = Some e" and "mo_session m \<noteq> 0"
  shows "mon_ok (take_success now jitter r o' e m)"
proof -
  let ?e = "fst (succeed now (rs_latency r) (mo_settings m) jitter e)"
  have "mon_ok (upd_entry (rs_key r) (\<lambda>_. complete m o' ?e) (m\<lparr>mo_crash_batches := b, mo_crashes := c\<rparr>))" for b c
    by (rule mon_ok_upd_entry) (use assms in \<open>auto simp: succeed_ok\<close>)
  moreover have "mon_ok (upd_entry (rs_key r) (\<lambda>_. complete m o' ?e) m)"
    by (rule mon_ok_upd_entry) (use assms in \<open>auto simp: succeed_ok\<close>)
  ultimately show ?thesis by (auto simp: take_success_def case_prod_beta Let_def)
qed

text \<open>An answer that is dropped, one that only frees its worker, and the two that count.\<close>

lemma apply_result_cases:
  obtains (dropped) "apply_result now jitter gone cancelled up r m = m"
  | (freed) "apply_result now jitter gone cancelled up r m = upd_entry (rs_key r) (\<lambda>e. e\<lparr>en_in_flight := False\<rparr>) m"
  | (good) e o' where "entry_of m (rs_key r) = Some e" "mo_session m \<noteq> 0" "mo_state m = Mon_OK" "oc_ok o'"
      "rs_error r = None" "apply_result now jitter gone cancelled up r m = take_success now jitter r o' (e\<lparr>en_in_flight := False\<rparr>)
         (prune_recent now ((upd_entry (rs_key r) (\<lambda>e. e\<lparr>en_in_flight := False\<rparr>) m)\<lparr>mo_recent := mo_recent m @ [o']\<rparr>))"
  | (bad) e o' reason where "entry_of m (rs_key r) = Some e" "mo_session m \<noteq> 0" "mo_state m = Mon_OK" "\<not> oc_ok o'"
      "rs_error r = Some reason" "apply_result now jitter gone cancelled up r m = take_failure now up r (o'\<lparr>oc_reason := reason\<rparr>)
         (prune_recent now ((upd_entry (rs_key r) (\<lambda>e. e\<lparr>en_in_flight := False\<rparr>) m)\<lparr>mo_recent := mo_recent m @ [o']\<rparr>))"
proof (cases "entry_of m (rs_key r)")
  case None
  then show ?thesis using dropped by (simp add: apply_result_def)
next
  case (Some e)
  note e = Some
  let ?o = "\<lparr>oc_at = now, oc_ok = (rs_error r = None), oc_key = rs_key r, oc_reason = [],
    oc_seq = rs_seq r, oc_generation = rs_generation r, oc_started = rs_started r\<rparr>"
  show ?thesis
  proof (cases "rs_seq r = 0 \<or> rs_session r \<noteq> mo_session m \<or> rs_session r = 0 \<or> gone")
    case True
    then show ?thesis using e dropped by (simp add: apply_result_def)
  next
    case counts: False
    show ?thesis
    proof (cases "rs_generation r \<noteq> mo_generation m \<or> rs_started r = 0 \<or> mo_state m \<noteq> Mon_OK \<or> cancelled")
      case True
      then show ?thesis using e counts freed by (simp add: apply_result_def)
    next
      case False
      note counts' = False
      show ?thesis
      proof (cases "rs_error r")
        case None
        show ?thesis by (rule good [of e ?o]) (use e counts counts' None in \<open>simp_all add: apply_result_def Let_def\<close>)
      next
        case (Some reason)
        show ?thesis by (rule bad [of e ?o reason]) (use e counts counts' Some in \<open>simp_all add: apply_result_def Let_def\<close>)
      qed
    qed
  qed
qed

lemma mon_ok_in_flight: "mon_ok m \<Longrightarrow> mon_ok (upd_entry k (\<lambda>e. e\<lparr>en_in_flight := False\<rparr>) m)"
  by (rule mon_ok_upd_entry) auto

lemma mon_ok_entry: "mon_ok m \<Longrightarrow> entry_of m k = Some e \<Longrightarrow> entry_ok e"
  unfolding mon_ok_def entries_ok_def by blast

text \<open>An answer of the session is for an endpoint that is still checkable, or counts for nothing.\<close>

definition answers :: "monitor \<Rightarrow> check_result \<Rightarrow> bool" where
  "answers m r \<longleftrightarrow> (\<forall>e. entry_of m (rs_key r) = Some e \<longrightarrow> rs_session r = mo_session m \<longrightarrow>
     rs_generation r = mo_generation m \<longrightarrow> checkable e)"

lemma apply_result_ok:
  assumes "mon_ok m" and "answers m r"
  shows "mon_ok (apply_result now jitter gone cancelled up r m)"
proof (cases rule: apply_result_cases [of now jitter gone cancelled up r m])
  case dropped
  then show ?thesis using assms(1) by simp
next
  case freed
  then show ?thesis using mon_ok_in_flight [OF assms(1)] by simp
next
  case (good e o')
  show ?thesis
    unfolding good(6) using good(1,2) mon_ok_in_flight [OF assms(1), of "rs_key r"]
    by (intro take_success_ok) simp_all
next
  case (bad e o' reason)
  have paused: "\<not> mo_wan_paused m" using assms(1) bad(3) by (auto simp: mon_ok_def)
  show ?thesis
  proof (cases "checkable e")
    case True
    then show ?thesis
      unfolding bad(6) using bad(1,2) paused mon_ok_in_flight [OF assms(1), of "rs_key r"]
      by (intro take_failure_ok [where e = "e\<lparr>en_in_flight := False\<rparr>"]) (simp_all add: checkable_def)
  next
    case False
    have "apply_result now jitter gone cancelled up r m = m
      \<or> apply_result now jitter gone cancelled up r m = upd_entry (rs_key r) (\<lambda>e. e\<lparr>en_in_flight := False\<rparr>) m"
      using assms(2) bad(1) False by (auto simp: answers_def apply_result_def Let_def)
    then show ?thesis using assms(1) mon_ok_in_flight [OF assms(1), of "rs_key r"] by auto
  qed
qed

subsection \<open>The prober\<close>

lemma mon_ok_session: "mon_ok m \<Longrightarrow> n \<noteq> 0 \<Longrightarrow> mon_ok (m\<lparr>mo_session := n\<rparr>)"
  by (simp add: mon_ok_def entries_ok_def)

lemma started_ok:
  assumes "mon_ok m" and "\<not> mo_wan_paused m"
  shows "mon_ok (started now eps m)"
proof -
  have "mon_ok (m\<lparr>mo_session := mo_sessions m + 1, mo_sessions := mo_sessions m + 1, mo_set_key := keys_of eps, mo_session_since := now\<rparr>)"
    using mon_ok_session [OF assms(1), of "mo_sessions m + 1"] by simp
  then show ?thesis using assms(2) unfolding started_def by (intro set_state_keeps_ok) auto
qed

lemma reject_key_frame [simp]:
  "mo_wan_paused (reject_key now key reason m) = mo_wan_paused m" "mo_session (reject_key now key reason m) = mo_session m"
  "keys (mo_entries (reject_key now key reason m)) = keys (mo_entries m)"
  by (simp_all add: reject_key_def Let_def split: option.splits)

text \<open>What every outcome of a start keeps, the loop of starts keeps.\<close>

lemma start_loop_closed:
  assumes "\<And>m err. P m \<Longrightarrow> P (start_failed now err m)" and "\<And>m eps. P m \<Longrightarrow> P (started now eps m)"
    and "\<And>m k reason. P m \<Longrightarrow> P (reject_key now k reason m)" and "\<And>m. P m \<Longrightarrow> P (set_mon_state now Mon_OK [] m)"
    and "P m"
  shows "P (start_loop la now n eps m)"
  using assms(5)
proof (induction n arbitrary: eps m)
  case (Suc n)
  have rest: "P (if length rest = length eps then start_failed now err m
      else if rest = [] then set_mon_state now Mon_OK [] (reject_key now a b m)
      else start_loop la now n rest (reject_key now a b m))" for rest a b err
    using assms(1,3,4) Suc by presburger
  have "P (case refused_key la eps answer of Inl err \<Rightarrow> start_failed now err m
      | Inr (bad, reason) \<Rightarrow>
          let rest = without eps bad in
          if length rest = length eps then start_failed now ''Xray refused an endpoint outside the prober set'' m
          else let m' = reject_key now bad reason m in
            if rest = [] then set_mon_state now Mon_OK [] m' else start_loop la now n rest m')" for answer
    using rest assms(1) [OF Suc.prems]
    by (cases "refused_key la eps answer") (simp_all only: Let_def sum.case prod.case split_beta)
  then show ?case
    using assms(2) [OF Suc.prems] by (simp only: start_loop.simps Let_def split: if_split) blast
qed (simp add: assms(1))

lemma start_failed_frame [simp]:
  "mo_wan_paused (start_failed now err m) = mo_wan_paused m" "mo_wan_paused (started now eps m) = mo_wan_paused m"
  by (simp_all add: start_failed_def started_def Let_def)

lemma start_loop_ok: "mon_ok m \<Longrightarrow> \<not> mo_wan_paused m \<Longrightarrow> mon_ok (start_loop la now n eps m)"
  using start_loop_closed [of "\<lambda>m. mon_ok m \<and> \<not> mo_wan_paused m" now m la n eps]
  by (simp add: start_failed_ok started_ok reject_key_ok set_state_keeps_ok)

lemma ensure_session_ok: "mon_ok m \<Longrightarrow> mon_ok (ensure_session la now gone m)"
  by (simp add: ensure_session_def Let_def start_loop_ok set_state_keeps_ok)

lemma isolate_loop_ok: "mon_ok m \<Longrightarrow> mon_ok (isolate_loop la now ks m)"
proof (induction ks arbitrary: m)
  case (Cons k ks)
  have "mon_ok ((case entry_of m k of None \<Rightarrow> m
      | Some e \<Rightarrow> if k \<noteq> [] \<and> checkable e \<and> la_crashes la (endpoint_of k e)
          then reject_key now k ''crashes Xray'' m else m)\<lparr>mo_suspects := ks\<rparr>)"
    using Cons.prems reject_key_ok [OF Cons.prems] by (cases "entry_of m k") simp_all
  then show ?case unfolding isolate_loop.simps Let_def by (rule Cons.IH)
qed simp

lemma isolate_ok: "mon_ok m \<Longrightarrow> mon_ok (isolate la now m)"
  by (simp add: isolate_def isolate_loop_ok)

lemma reassess_fold_ok:
  "mon_ok m \<Longrightarrow> mon_ok (fold (\<lambda>k. upd_entry k (\<lambda>e. if unproved e then reassess_one now e else e)) ks m)"
proof (induction ks arbitrary: m)
  case (Cons k ks)
  have "mon_ok (upd_entry k (\<lambda>e. if unproved e then reassess_one now e else e) m)"
    by (rule mon_ok_upd_entry [OF Cons.prems]) auto
  then show ?case using Cons.IH by simp
qed simp

lemma reassess_rejected_ok: "mon_ok m \<Longrightarrow> mon_ok (reassess_rejected now m)"
  by (auto simp: reassess_rejected_def Let_def reassess_fold_ok)

lemma resume_ok: "mon_ok m \<Longrightarrow> mon_ok (resume la now gone m)"
  by (simp add: resume_def Let_def ensure_session_ok isolate_ok reassess_rejected_ok idle_ok start_failed_ok
      split: ready_answer.splits)

lemma crashed_ok:
  assumes "mon_ok m"
  shows "mon_ok (crashed la now m)"
proof -
  define m1 where "m1 = invalidate_evidence
    ((discard_pending (upd_entries (\<lambda>e. e\<lparr>en_in_flight := False\<rparr>)
       (m\<lparr>mo_suspects := add_suspects m (mo_suspects m) (mo_order m),
          mo_session := 0, mo_set_key := [], mo_session_since := zero_time\<rparr>)))\<lparr>mo_recent := []\<rparr>)
     \<lparr>mo_crashes := filter (\<lambda>t. sub_time now t < crash_window) (mo_crashes m) @ [now]\<rparr>"
  have "mon_ok m1" unfolding m1_def using end_session_ok [OF assms] by (simp add: invalidate_ok)
  then have m2: "mon_ok (isolate la now m1)" by (rule isolate_ok)
  have "mon_ok (set_mon_state now Mon_Prober_Error msg ((isolate la now m1)\<lparr>mo_crash_batches := b, mo_crashes := c,
      mo_prober_at := t, mo_prober_error := msg\<rparr>))" for msg b c t
    by (rule set_state_keeps_ok) (use m2 in simp_all)
  then show ?thesis
    using assms m2 ensure_session_ok [OF m2]
    by (simp add: crashed_def Let_def flip: m1_def)
qed

subsection \<open>The set, the requests and the tick\<close>

lemma entry_ok_frame [simp]:
  "entry_ok (e\<lparr>en_label := a1\<rparr>) = entry_ok e" "entry_ok (e\<lparr>en_outbound := a1\<rparr>) = entry_ok e"
  "entry_ok (e\<lparr>en_rejected_current := b\<rparr>) = entry_ok e" "entry_ok (e\<lparr>en_revision := n\<rparr>) = entry_ok e"
  "entry_ok (e\<lparr>en_st := (en_st e)\<lparr>ps_next := i\<rparr>\<rparr>) = entry_ok e"
  by (simp_all add: entry_ok_def cong: status.case_cong)

lemma checkable_frame [simp]:
  "checkable (e\<lparr>en_label := a1\<rparr>) = checkable e" "checkable (e\<lparr>en_outbound := a1\<rparr>) = checkable e"
  "checkable (e\<lparr>en_rejected_current := b\<rparr>) = checkable e" "checkable (e\<lparr>en_in_flight := b\<rparr>) = checkable e"
  "checkable (e\<lparr>en_urgent := b\<rparr>) = checkable e" "checkable (e\<lparr>en_pending := b\<rparr>) = checkable e"
  "checkable (e\<lparr>en_follow_up := b\<rparr>) = checkable e" "checkable (e\<lparr>en_after := n\<rparr>) = checkable e"
  "checkable (e\<lparr>en_evidence_follow_up := b\<rparr>) = checkable e"
  by (simp_all add: checkable_def)

lemma admit_ok:
  "entry_ok e \<Longrightarrow> \<not> checkable e \<Longrightarrow> entry_ok (e\<lparr>en_st := new_state now\<rparr>)"
  by (simp add: entry_ok_def checkable_def new_state_def)

lemma from_restored_ok:
  assumes "\<forall>r \<in> snd ` set (mo_restored m). saved_ok r"
  shows "entry_ok (from_restored m k now) \<and> \<not> en_pending (from_restored m k now) \<and> \<not> en_in_flight (from_restored m k now)"
proof (cases "map_of (mo_restored m) k")
  case (Some r)
  then have "saved_ok r" using assms by (auto dest!: map_of_SomeD)
  then show ?thesis using Some by (simp add: from_restored_def saved_ok_def new_entry_def)
qed (simp add: from_restored_def new_entry_def new_state_def entry_ok_def)

lemma take_endpoint_ok:
  assumes "mon_ok m" and "e = fst (take_endpoint now m ep)"
  shows "entry_ok e \<and> (en_pending e \<longrightarrow> ep_key ep \<in> set (keys (mo_waiting m))) \<and> (mo_session m = 0 \<longrightarrow> \<not> en_in_flight e)"
proof -
  let ?e = "case entry_of m (ep_key ep) of Some e \<Rightarrow> e | None \<Rightarrow> from_restored m (ep_key ep) now"
  have old: "entry_ok ?e \<and> (en_pending ?e \<longrightarrow> ep_key ep \<in> set (keys (mo_waiting m))) \<and> (mo_session m = 0 \<longrightarrow> \<not> en_in_flight ?e)"
    using assms(1) from_restored_ok [of m "ep_key ep" now]
    by (auto simp: mon_ok_def entries_ok_def simp del: map_of_eq_Some_iff split: option.split)
  have taken: "e = (let e1 = (if en_outbound ?e \<noteq> ep_outbound ep then ?e\<lparr>en_rejected_current := False\<rparr> else ?e);
      e2 = e1\<lparr>en_label := ep_label ep, en_outbound := ep_outbound ep\<rparr> in
      if \<not> checkable e2 \<and> \<not> en_sticky e2
      then e2\<lparr>en_st := new_state now, en_revision := en_revision e2 + 1, en_rejected_current := False\<rparr> else e2)"
    using assms(2) by (simp add: take_endpoint_def Let_def)
  show ?thesis using old rejected_idle [of ?e] unfolding taken Let_def by (simp add: admit_ok)
qed

lemma take_refusal_ok:
  assumes "mon_ok m" and "e = fst (take_refusal now m kr)"
  shows "entry_ok e \<and> \<not> en_pending e \<and> \<not> en_in_flight e"
proof -
  have old: "entry_ok (case entry_of m (fst kr) of Some e \<Rightarrow> e | None \<Rightarrow> from_restored m (fst kr) now)"
    using assms(1) from_restored_ok [of m "fst kr" now]
    by (auto simp: mon_ok_def entries_ok_def simp del: map_of_eq_Some_iff split: option.split)
  then have "entry_ok ((case entry_of m (fst kr) of Some e \<Rightarrow> e | None \<Rightarrow> from_restored m (fst kr) now)\<lparr>en_label := [], en_outbound := []\<rparr>)"
    by simp
  then show ?thesis using assms(2) by (simp add: take_refusal_def Let_def reject_ok)
qed

text \<open>What \<^verbatim>\<open>merge\<close> makes of the entries, and when it makes another set of them.\<close>

definition taken_all :: "int \<Rightarrow> endpoint list \<Rightarrow> (string \<times> string) list \<Rightarrow> monitor \<Rightarrow> (string \<times> entry \<times> merge_flags) list" where
  "taken_all now eps refused m =
     map (\<lambda>ep. (ep_key ep, take_endpoint now m ep)) eps @ map (\<lambda>kr. (fst kr, take_refusal now m kr)) refused"

definition merged :: "int \<Rightarrow> endpoint list \<Rightarrow> (string \<times> string) list \<Rightarrow> monitor \<Rightarrow> (string \<times> entry) list" where
  "merged now eps refused m = map (\<lambda>(k, e, f). (k, e)) (taken_all now eps refused m)"

definition other_set :: "int \<Rightarrow> endpoint list \<Rightarrow> (string \<times> string) list \<Rightarrow> monitor \<Rightarrow> bool" where
  "other_set now eps refused m \<longleftrightarrow>
     list_ex (\<lambda>(k, e, f). mf_identity f) (taken_all now eps refused m) \<or>
     set (keys (merged now eps refused m)) \<noteq> set (keys (mo_entries m))"

lemma keys_merged [simp]: "keys (merged now eps refused m) = map ep_key eps @ map fst refused"
  by (simp add: merged_def taken_all_def comp_def case_prod_beta)

lemma merge_set_shape:
  obtains d u b where "merge_set now eps refused m =
    (let m1 = m\<lparr>mo_entries := merged now eps refused m, mo_order := map ep_key eps, mo_restored := [],
                mo_dirty := d, mo_updated := u, mo_status_dirty := b\<rparr>
     in if other_set now eps refused m then invalidate_evidence m1 else m1)"
  by (rule that) (simp only: merge_set_def Let_def other_set_def merged_def flip: taken_all_def)

lemma merged_cases:
  assumes "(k, e) \<in> set (merged now eps refused m)"
  shows "(\<exists>ep \<in> set eps. k = ep_key ep \<and> e = fst (take_endpoint now m ep)) \<or>
    (\<exists>kr \<in> set refused. k = fst kr \<and> e = fst (take_refusal now m kr))"
proof -
  have "merged now eps refused m = map (\<lambda>ep. (ep_key ep, fst (take_endpoint now m ep))) eps
      @ map (\<lambda>kr. (fst kr, fst (take_refusal now m kr))) refused"
    by (simp add: merged_def taken_all_def case_prod_beta comp_def)
  then show ?thesis using assms by (auto simp: image_iff)
qed

lemma merged_ok:
  assumes "mon_ok m" and "(k, e) \<in> set (merged now eps refused m)"
  shows "entry_ok e \<and> (en_pending e \<longrightarrow> k \<in> set (keys (mo_waiting m))) \<and> (mo_session m = 0 \<longrightarrow> \<not> en_in_flight e)"
  using merged_cases [OF assms(2)] take_endpoint_ok [OF assms(1) refl] take_refusal_ok [OF assms(1) refl] by blast

lemma merge_set_ok:
  assumes "mon_ok m" and "distinct (map ep_key eps @ map fst refused)"
  shows "mon_ok (merge_set now eps refused m)"
proof -
  obtain d u b where shape: "merge_set now eps refused m =
    (let m1 = m\<lparr>mo_entries := merged now eps refused m, mo_order := map ep_key eps, mo_restored := [],
                mo_dirty := d, mo_updated := u, mo_status_dirty := b\<rparr>
     in if other_set now eps refused m then invalidate_evidence m1 else m1)" by (rule merge_set_shape)
  have "mon_ok (m\<lparr>mo_entries := merged now eps refused m, mo_order := map ep_key eps, mo_restored := [],
                mo_dirty := d, mo_updated := u, mo_status_dirty := b\<rparr>)"
  proof (rule mon_okI)
    show "entries_ok (m\<lparr>mo_entries := merged now eps refused m, mo_order := map ep_key eps, mo_restored := [],
                mo_dirty := d, mo_updated := u, mo_status_dirty := b\<rparr>)"
      using merged_ok [OF assms(1)] by (simp add: entries_ok_def del: map_of_eq_Some_iff) (meson map_of_SomeD)
  qed (use assms in \<open>auto simp: mon_ok_def\<close>)
  then show ?thesis by (simp add: shape Let_def invalidate_ok)
qed

lemma merge_set_frame [simp]:
  "mo_settings (merge_set now eps refused m) = mo_settings m" "mo_session (merge_set now eps refused m) = mo_session m"
  "mo_wan_paused (merge_set now eps refused m) = mo_wan_paused m" "mo_waiting (merge_set now eps refused m) = mo_waiting m"
  "mo_restored (merge_set now eps refused m) = []"
  by (rule merge_set_shape [of now eps refused m]; simp add: Let_def)+

text \<open>What a refresh reads: settings within their bounds, and every key once.\<close>

definition input_ok :: "refresh_input \<Rightarrow> bool" where
  "input_ok inp \<longleftrightarrow>
     (case ri_settings inp of Some s \<Rightarrow> settings_ok s | None \<Rightarrow> True) \<and>
     (case ri_endpoints inp of Some (eps, refused) \<Rightarrow> distinct (map ep_key eps @ map fst refused) | None \<Rightarrow> True)"

definition taken_input :: "refresh_input \<Rightarrow> int \<Rightarrow> monitor \<Rightarrow> monitor" where
  "taken_input inp now m =
     (let m1 = m\<lparr>mo_settings := (case ri_settings inp of Some s \<Rightarrow> s | None \<Rightarrow> mo_settings m)\<rparr> in
      case ri_endpoints inp of Some (eps, refused) \<Rightarrow> merge_set now eps refused m1 | None \<Rightarrow> m1)"

lemma refresh_unfold:
  "refresh la inp now gone m =
     (let m2 = taken_input inp now m in
      if \<not> se_enabled (case ri_settings inp of Some s \<Rightarrow> s | None \<Rightarrow> mo_settings m) then idle now Mon_Disabled [] m2
      else if ri_stopped inp then idle now Mon_Stopped [] m2
      else if mo_wan_paused m2 then
        (case la_ready la of No_Xray msg \<Rightarrow> idle now Mon_No_Xray msg m2 | _ \<Rightarrow> set_mon_state now Mon_WAN_Down [] m2)
      else resume la now gone m2)"
  by (simp add: refresh_def taken_input_def Let_def)

lemma taken_input_ok:
  assumes "mon_ok m" and "input_ok inp"
  shows "mon_ok (taken_input inp now m)"
proof -
  let ?m = "m\<lparr>mo_settings := (case ri_settings inp of Some s \<Rightarrow> s | None \<Rightarrow> mo_settings m)\<rparr>"
  have "mon_ok ?m" using assms by (auto simp: mon_ok_def input_ok_def split: option.splits)
  then show ?thesis
    using assms(2) merge_set_ok [of ?m] by (auto simp: taken_input_def Let_def input_ok_def split: option.splits)
qed

lemma refresh_ok: "mon_ok m \<Longrightarrow> input_ok inp \<Longrightarrow> mon_ok (refresh la inp now gone m)"
  using taken_input_ok [of m inp now]
  by (simp add: refresh_unfold Let_def idle_ok resume_ok set_state_keeps_ok split: ready_answer.split)

lemma mark_fold_ok: "mon_ok m \<Longrightarrow> mon_ok (fold (\<lambda>k. upd_entry k (mark fresh seq)) ks m)"
proof (induction ks arbitrary: m)
  case (Cons k ks)
  have "mon_ok (upd_entry k (mark fresh seq) m)" by (rule mon_ok_upd_entry [OF Cons.prems]) auto
  then show ?case using Cons.IH by simp
qed simp

lemma queue_ok: "mon_ok m \<Longrightarrow> mon_ok (snd (queue ks fresh m))"
  by (simp add: queue_def Let_def mark_fold_ok)

lemma hand_out_ok:
  assumes "mon_ok m" and "mo_session m \<noteq> 0" and "\<And>e. entry_of m k = Some e \<Longrightarrow> checkable e"
  shows "mon_ok (hand_out k m)"
proof -
  have "mon_ok (upd_entry k (\<lambda>e. e\<lparr>en_in_flight := True, en_urgent := False\<rparr>) m)"
    by (rule mon_ok_upd_entry [OF assms(1)]) (use assms in auto)
  then show ?thesis by (simp add: hand_out_def)
qed

lemma hand_out_entry:
  "entry_of (hand_out k m) i = (if i = k then map_option (\<lambda>e. e\<lparr>en_in_flight := True, en_urgent := False\<rparr>) (entry_of m k) else entry_of m i)"
  by (simp add: hand_out_def)

lemma hand_out_frame [simp]:
  "mo_session (hand_out k m) = mo_session m" "mo_state (hand_out k m) = mo_state m"
  "mo_wan_paused (hand_out k m) = mo_wan_paused m" "mo_generation (hand_out k m) = mo_generation m"
  "mo_settings (hand_out k m) = mo_settings m"
  by (simp_all add: hand_out_def)

lemma hand_outs_ok:
  "mon_ok m \<Longrightarrow> mo_session m \<noteq> 0 \<Longrightarrow> (\<And>k e. k \<in> set ks \<Longrightarrow> entry_of m k = Some e \<Longrightarrow> checkable e) \<Longrightarrow>
     mon_ok (fold hand_out ks m)"
proof (induction ks arbitrary: m)
  case (Cons k ks)
  have "mon_ok (hand_out k m)" using Cons.prems by (intro hand_out_ok) auto
  moreover have "checkable e'" if "i \<in> set ks" "entry_of (hand_out k m) i = Some e'" for i e'
    using that Cons.prems(3) [of i] by (cases "i = k") (auto simp: hand_out_entry simp del: map_of_eq_Some_iff)
  ultimately show ?case using Cons.IH [of "hand_out k m"] Cons.prems(2) by simp
qed simp

lemma due_list_mem: "(k, e) \<in> set (due_list now m) \<longleftrightarrow> (k, e) \<in> set (mo_entries m) \<and> is_due now e"
  by (auto simp: due_list_def)

lemma due_is_checkable:
  assumes "go_map (mo_entries m)" and "k \<in> set (map fst (take n (due_list now m)))" and "entry_of m k = Some e"
  shows "is_due now e"
proof -
  obtain e' where "(k, e') \<in> set (due_list now m)" using assms(2) by (auto dest: in_set_takeD)
  then have "entry_of m k = Some e'" "is_due now e'" using assms(1) by (simp_all add: due_list_mem)
  then show ?thesis using assms(3) by simp
qed

lemma dispatch_ok: "mon_ok m \<Longrightarrow> mo_session m \<noteq> 0 \<Longrightarrow> mon_ok (dispatch now m)"
  unfolding dispatch_def
proof (rule hand_outs_ok)
  fix k e
  assume "mon_ok m" "k \<in> set (map fst (take (free_workers m) (due_list now m)))" "entry_of m k = Some e"
  then have "is_due now e" unfolding mon_ok_def by (blast dest: due_is_checkable)
  then show "checkable e" by (simp add: is_due_def)
qed

lemma wan_back_ok:
  assumes "mon_ok m"
  shows "mon_ok (wan_back now m)"
proof -
  have "mon_ok (upd_entries (\<lambda>e. if checkable e then e\<lparr>en_st := (en_st e)\<lparr>ps_next := now\<rparr>\<rparr> else e) m)"
    by (rule mon_ok_upd_entries [OF assms]) auto
  then show ?thesis using mon_ok_unpaused by (simp add: wan_back_def)
qed

lemma tick_control_ok: "mon_ok m \<Longrightarrow> mon_ok (tick_control la now gone up m)"
  by (simp add: tick_control_def Let_def wan_back_ok resume_ok set_state_keeps_ok)

lemma guard_frame [simp]: "mo_session (guard now up m) = mo_session m" "mo_settings (guard now up m) = mo_settings m"
  by (simp_all add: guard_def)

lemma tick_checks_ok: "mon_ok m \<Longrightarrow> mon_ok (tick_checks now gone up m)"
  by (simp add: tick_checks_def Let_def guard_ok dispatch_ok split: option.split)

lemma tick_save_ok: "mon_ok m \<Longrightarrow> mon_ok (tick_save now ok m)"
  by (simp add: tick_save_def save_state_def)

lemma tick_ok: "mon_ok m \<Longrightarrow> mon_ok (tick la now gone gone' up up' saved m)"
  by (simp add: tick_def tick_save_ok tick_checks_ok tick_control_ok)

lemma shut_down_ok: "mon_ok m \<Longrightarrow> mon_ok (shut_down ok now m)"
  by (simp add: shut_down_def save_state_def invalidate_ok)

lemma new_monitor_ok: "mon_ok new_monitor"
  by (auto simp: mon_ok_def entries_ok_def new_monitor_def settings_from_def settings_ok_def settings_bounds)

end
