(* ===== verification/Monitor_Safety.thy ===== *)
theory Monitor_Safety
  imports Monitor_Run
begin

text \<open>
  What the monitor promises over a run: its invariant in every reachable state, with the answers of the
  workers as they come in; that no step calls an endpoint dead without evidence of a working WAN; that
  no failure waits past the window of the guard; the bound on the checks in flight; the search for the
  endpoint that Xray refuses; and that a restart keeps what was known.
\<close>

section \<open>How the entries change\<close>

text \<open>
  Two relations between the monitor before and after an operation. \<open>evolves\<close>: the generation does not
  fall, and where it stays the same no endpoint leaves the set that is checked. \<open>quiet\<close>: no endpoint
  dies.
\<close>

definition evolves :: "monitor \<Rightarrow> monitor \<Rightarrow> bool" where
  "evolves m m' \<longleftrightarrow>
     mo_generation m \<le> mo_generation m' \<and>
     (mo_generation m' = mo_generation m \<longrightarrow>
        (\<forall>k e. entry_of m k = Some e \<longrightarrow> checkable e \<longrightarrow> (\<exists>e'. entry_of m' k = Some e' \<and> checkable e')))"

definition quiet :: "monitor \<Rightarrow> monitor \<Rightarrow> bool" where
  "quiet m m' \<longleftrightarrow>
     (\<forall>k. status_of m k \<noteq> None \<longrightarrow> status_of m' k = Some St_Dead \<longrightarrow> status_of m k = Some St_Dead) \<and>
     (\<forall>k. status_of m k \<noteq> None \<longleftrightarrow> status_of m' k \<noteq> None)"

definition steady :: "monitor \<Rightarrow> monitor \<Rightarrow> bool" where
  "steady m m' \<longleftrightarrow> evolves m m' \<and> quiet m m'"

lemma evolves_trans: "evolves m m1 \<Longrightarrow> evolves m1 m2 \<Longrightarrow> evolves m m2"
  unfolding evolves_def by (metis dual_order.antisym order_trans)

lemma quiet_trans: "quiet m m1 \<Longrightarrow> quiet m1 m2 \<Longrightarrow> quiet m m2"
  unfolding quiet_def by metis

lemma steady_refl [simp, intro]: "steady m m"
  by (simp add: steady_def evolves_def quiet_def)

lemma steady_trans [trans]: "steady m m1 \<Longrightarrow> steady m1 m2 \<Longrightarrow> steady m m2"
  unfolding steady_def using evolves_trans quiet_trans by blast

lemma steady_evolves: "steady m m' \<Longrightarrow> evolves m m'" and steady_quiet: "steady m m' \<Longrightarrow> quiet m m'"
  by (simp_all add: steady_def)

text \<open>Other fields do not matter.\<close>

lemma steady_fields:
  assumes "mo_entries m1 = mo_entries m2" and "mo_generation m1 = mo_generation m2"
  shows "steady m m1 = steady m m2" and "steady m1 m = steady m2 m"
  using assms by (simp_all add: steady_def evolves_def quiet_def status_of_def)

lemma steady_frame [simp]:
  "steady m (m'\<lparr>mo_message := a1\<rparr>) = steady m m'" "steady m (m'\<lparr>mo_updated := i\<rparr>) = steady m m'"
  "steady m (m'\<lparr>mo_dirty := b\<rparr>) = steady m m'" "steady m (m'\<lparr>mo_status_dirty := b\<rparr>) = steady m m'"
  "steady m (m'\<lparr>mo_save_failed := b\<rparr>) = steady m m'" "steady m (m'\<lparr>mo_last_save := i\<rparr>) = steady m m'"
  "steady m (m'\<lparr>mo_recent := os\<rparr>) = steady m m'" "steady m (m'\<lparr>mo_control_ok := i\<rparr>) = steady m m'"
  "steady m (m'\<lparr>mo_next_control := i\<rparr>) = steady m m'" "steady m (m'\<lparr>mo_prober_fails := n\<rparr>) = steady m m'"
  "steady m (m'\<lparr>mo_prober_at := i\<rparr>) = steady m m'" "steady m (m'\<lparr>mo_prober_error := a1\<rparr>) = steady m m'"
  "steady m (m'\<lparr>mo_crash_batches := n\<rparr>) = steady m m'" "steady m (m'\<lparr>mo_crashes := is\<rparr>) = steady m m'"
  "steady m (m'\<lparr>mo_suspects := ks\<rparr>) = steady m m'" "steady m (m'\<lparr>mo_set_key := a1\<rparr>) = steady m m'"
  "steady m (m'\<lparr>mo_session_since := i\<rparr>) = steady m m'" "steady m (m'\<lparr>mo_sequence := n\<rparr>) = steady m m'"
  "steady m (m'\<lparr>mo_starts := n\<rparr>) = steady m m'" "steady m (m'\<lparr>mo_sessions := n\<rparr>) = steady m m'"
  "steady m (m'\<lparr>mo_closed := b\<rparr>) = steady m m'" "steady m (m'\<lparr>mo_order := ks\<rparr>) = steady m m'"
  "steady m (m'\<lparr>mo_state := st\<rparr>) = steady m m'" "steady m (m'\<lparr>mo_session := n\<rparr>) = steady m m'"
  "steady m (m'\<lparr>mo_waiting := ws\<rparr>) = steady m m'" "steady m (m'\<lparr>mo_wan_paused := b\<rparr>) = steady m m'"
  "steady m (m'\<lparr>mo_settings := se\<rparr>) = steady m m'" "steady m (m'\<lparr>mo_restored := rs\<rparr>) = steady m m'"
  by (simp_all add: steady_def evolves_def quiet_def status_of_def)

lemma steady_upd_entry:
  assumes "\<And>e. entry_of m k = Some e \<Longrightarrow>
    (checkable e \<longrightarrow> checkable (f e)) \<and> (ps_status (en_st (f e)) = St_Dead \<longrightarrow> ps_status (en_st e) = St_Dead)"
  shows "steady m (upd_entry k f m)"
  using assms by (auto simp: steady_def evolves_def quiet_def status_of_def simp del: map_of_eq_Some_iff)

lemma steady_upd_entries:
  assumes "\<And>e. (checkable e \<longrightarrow> checkable (f e)) \<and> (ps_status (en_st (f e)) = St_Dead \<longrightarrow> ps_status (en_st e) = St_Dead)"
  shows "steady m (upd_entries f m)"
  using assms by (auto simp: steady_def evolves_def quiet_def status_of_def simp del: map_of_eq_Some_iff)

text \<open>A change of the set that raises the generation.\<close>

lemma steady_raised:
  assumes "quiet m m'" and "mo_generation m \<le> mo_generation m'"
  shows "steady m (invalidate_evidence m')"
proof -
  have "quiet m' (invalidate_evidence m')" unfolding invalidate_evidence_def
    by (auto simp: quiet_def status_of_def simp del: map_of_eq_Some_iff)
  moreover have "mo_generation m < mo_generation (invalidate_evidence m')"
    using assms(2) by (simp add: invalidate_evidence_def)
  ultimately show ?thesis using quiet_trans [OF assms(1)] by (simp add: steady_def evolves_def)
qed

lemma steady_invalidate [intro]: "steady m m' \<Longrightarrow> steady m (invalidate_evidence m')"
  by (rule steady_raised) (simp_all add: steady_def evolves_def)

lemma steady_set_state: "steady m m' \<Longrightarrow> steady m (set_mon_state now st msg m')"
  using steady_invalidate [of m "m'\<lparr>mo_state := st, mo_message := msg, mo_updated := now\<rparr>"]
  by (simp add: set_mon_state_def Let_def)

lemma steady_discard: "steady m m' \<Longrightarrow> steady m (discard_pending m')"
  using steady_trans [OF _ steady_upd_entries, of m m' "\<lambda>e. e\<lparr>en_pending := False\<rparr>"]
  by (simp add: discard_pending_def)

lemma steady_no_flight: "steady m m' \<Longrightarrow> steady m (upd_entries (\<lambda>e. e\<lparr>en_in_flight := False\<rparr>) m')"
  using steady_trans [OF _ steady_upd_entries, of m m' "\<lambda>e. e\<lparr>en_in_flight := False\<rparr>"] by simp

lemma steady_stop: "steady m m' \<Longrightarrow> steady m (stop_session m')"
  by (simp add: stop_session_def steady_invalidate steady_discard steady_no_flight)

lemma steady_idle: "steady m m' \<Longrightarrow> steady m (idle now st msg m')"
  by (simp add: idle_def steady_set_state steady_stop)

lemma steady_start_failed: "steady m m' \<Longrightarrow> steady m (start_failed now err m')"
  by (simp add: start_failed_def Let_def steady_set_state)

lemma reject_quiet: "quiet m (upd_entry k (reject now reason st) m)"
  by (auto simp: quiet_def status_of_def simp del: map_of_eq_Some_iff)

lemma steady_reject_key: "steady m m' \<Longrightarrow> steady m (reject_key now key reason m')"
proof (cases "entry_of m' key")
  case (Some e)
  assume m: "steady m m'"
  show ?thesis
  proof (cases "checkable e")
    case True
    have "quiet m (upd_entry key (reject now reason True) m')"
      using m reject_quiet quiet_trans unfolding steady_def by blast
    then have "quiet m ((upd_entry key (reject now reason True) m')\<lparr>mo_dirty := True, mo_updated := now, mo_status_dirty := True\<rparr>)"
      by (simp add: quiet_def status_of_def)
    then show ?thesis using m Some True
      by (simp add: reject_key_def Let_def) (rule steady_raised, simp, simp add: steady_def evolves_def)
  next
    case False
    have "steady m' (upd_entry key (reject now reason True) m')"
      by (rule steady_upd_entry) (use Some False in auto)
    then show ?thesis using m Some False steady_trans by (auto simp: reject_key_def Let_def)
  qed
qed (simp add: reject_key_def)

lemma steady_started: "steady m m' \<Longrightarrow> steady m (started now eps m')"
  by (simp add: started_def steady_set_state steady_invalidate)

lemma steady_start_loop: "steady m m' \<Longrightarrow> steady m (start_loop la now n eps m')"
  by (rule start_loop_closed [where P = "steady m"])
    (simp_all add: steady_start_failed steady_started steady_reject_key steady_set_state)

lemma steady_ensure: "steady m m' \<Longrightarrow> steady m (ensure_session la now gone m')"
  by (simp add: ensure_session_def Let_def steady_start_loop steady_set_state steady_stop)

lemma steady_isolate_loop: "steady m m' \<Longrightarrow> steady m (isolate_loop la now ks m')"
proof (induction ks arbitrary: m')
  case (Cons k ks)
  have "steady m ((case entry_of m' k of None \<Rightarrow> m'
      | Some e \<Rightarrow> if k \<noteq> [] \<and> checkable e \<and> la_crashes la (endpoint_of k e)
          then reject_key now k ''crashes Xray'' m' else m')\<lparr>mo_suspects := ks\<rparr>)"
    using Cons.prems steady_reject_key [OF Cons.prems] by (cases "entry_of m' k") simp_all
  then show ?case unfolding isolate_loop.simps Let_def by (rule Cons.IH)
qed simp

lemma steady_isolate: "steady m m' \<Longrightarrow> steady m (isolate la now m')"
  by (simp add: isolate_def steady_isolate_loop)

lemma steady_reassess: "steady m m' \<Longrightarrow> steady m (reassess_rejected now m')"
proof -
  assume m: "steady m m'"
  have "steady m (fold (\<lambda>k. upd_entry k (\<lambda>e. if unproved e then reassess_one now e else e)) ks m')" for ks
    using m
  proof (induction ks arbitrary: m')
    case (Cons k ks)
    have "steady m' (upd_entry k (\<lambda>e. if unproved e then reassess_one now e else e) m')"
      by (rule steady_upd_entry) (simp add: unproved_def)
    then show ?case using Cons steady_trans by simp
  qed simp
  then show ?thesis using m by (simp add: reassess_rejected_def Let_def steady_invalidate)
qed

lemma steady_resume: "steady m m' \<Longrightarrow> steady m (resume la now gone m')"
  by (simp add: resume_def Let_def steady_isolate steady_reassess steady_ensure steady_idle steady_start_failed
      steady_stop split: ready_answer.split)

lemma steady_crashed: "steady m m' \<Longrightarrow> steady m (crashed la now m')"
  by (simp add: crashed_def Let_def steady_set_state steady_isolate steady_ensure steady_invalidate steady_discard
      steady_no_flight)

lemma steady_upd_fold:
  assumes "\<And>k e. (checkable e \<longrightarrow> checkable (f k e)) \<and> (ps_status (en_st (f k e)) = St_Dead \<longrightarrow> ps_status (en_st e) = St_Dead)"
  shows "steady m (fold (\<lambda>k. upd_entry k (f k)) ks m)"
proof (induction ks arbitrary: m)
  case (Cons k ks)
  have "steady m (upd_entry k (f k) m)" by (rule steady_upd_entry) (rule assms)
  then show ?case using Cons.IH steady_trans by simp
qed simp

lemma steady_queue: "steady m (snd (queue ks fresh m))"
  using steady_upd_fold [of "\<lambda>_. mark fresh (mo_sequence m)" m] by (simp add: queue_def Let_def mark_def)

lemma steady_hand_outs: "steady m m' \<Longrightarrow> steady m (fold hand_out ks m')"
proof (induction ks arbitrary: m')
  case (Cons k ks)
  have "steady m' (hand_out k m')" unfolding hand_out_def by simp (rule steady_upd_entry, simp)
  then show ?case using Cons steady_trans by simp
qed simp

lemma steady_dispatch: "steady m m' \<Longrightarrow> steady m (dispatch now m')"
  by (simp add: dispatch_def steady_hand_outs)

lemma steady_wan_back: "steady m m' \<Longrightarrow> steady m (wan_back now m')"
proof -
  assume m: "steady m m'"
  have "steady m' (upd_entries (\<lambda>e. if checkable e then e\<lparr>en_st := (en_st e)\<lparr>ps_next := now\<rparr>\<rparr> else e) m')"
    by (rule steady_upd_entries) (simp add: checkable_def)
  then show ?thesis using steady_trans [OF m] by (simp add: wan_back_def)
qed

lemma steady_tick_control: "steady m (tick_control la now gone up m)"
  by (simp add: tick_control_def Let_def steady_wan_back steady_resume steady_set_state)

lemma steady_tick_save: "steady m m' \<Longrightarrow> steady m (tick_save now ok m')"
  by (simp add: tick_save_def save_state_def)

lemma steady_shut_down: "steady m (shut_down ok now m)"
  by (simp add: shut_down_def save_state_def steady_stop steady_invalidate)

section \<open>Publishing\<close>

lemma publish_one_other: "k \<noteq> fst ko \<Longrightarrow> entry_of (publish_one now ko m) k = entry_of m k"
  by (simp add: publish_one_def case_prod_beta split: option.split)

lemma publish_one_generation [simp]: "mo_generation (publish_one now ko m) = mo_generation m"
  by (simp add: publish_one_def case_prod_beta split: option.split)

lemma publish_one_checkable:
  assumes "entry_of m k = Some e" and "checkable e"
  shows "\<exists>e'. entry_of (publish_one now ko m) k = Some e' \<and> checkable e'"
proof (cases "k = fst ko")
  case True
  then show ?thesis using assms by (auto simp: publish_one_def case_prod_beta checkable_def simp del: map_of_eq_Some_iff)
next
  case False
  then show ?thesis using assms by (simp add: publish_one_other)
qed

lemma publish_fold_entries:
  "mo_generation (fold (publish_one now) ws m) = mo_generation m \<and>
   (\<forall>k. k \<notin> set (keys ws) \<longrightarrow> entry_of (fold (publish_one now) ws m) k = entry_of m k) \<and>
   (\<forall>k e. entry_of m k = Some e \<longrightarrow> checkable e \<longrightarrow> (\<exists>e'. entry_of (fold (publish_one now) ws m) k = Some e' \<and> checkable e'))"
proof (induction ws arbitrary: m)
  case (Cons w ws)
  show ?case
    using Cons.IH [where m = "publish_one now w m"] publish_one_checkable [where ko = w and now = now] publish_one_other [where ko = w and now = now]
    by simp meson
qed simp

lemma publish_entries:
  "mo_generation (publish_pending now m) = mo_generation m"
  "k \<notin> set (keys (mo_waiting m)) \<Longrightarrow> entry_of (publish_pending now m) k = entry_of m k"
  "entry_of m k = Some e \<Longrightarrow> checkable e \<Longrightarrow> \<exists>e'. entry_of (publish_pending now m) k = Some e' \<and> checkable e'"
  using publish_fold_entries [of now "mo_waiting m" m] by (simp_all add: publish_pending_def)

lemma evolves_publish: "evolves m (publish_pending now m)"
  using publish_entries [where now = now and m = m] by (simp add: evolves_def)

lemma steady_guard_down: "steady m m' \<Longrightarrow> steady m (guard now False m')"
  by (simp add: guard_def steady_set_state steady_discard)

lemma evolves_guard: "evolves m (guard now up m)"
proof (cases up)
  case True
  have "evolves m (m\<lparr>mo_control_ok := now\<rparr>)" by (simp add: evolves_def)
  then show ?thesis using True evolves_trans [OF _ evolves_publish] by (simp add: guard_def)
next
  case False
  then show ?thesis using steady_guard_down [of m m now] by (simp add: steady_evolves)
qed

section \<open>No death without a working WAN\<close>

text \<open>
  What a step has seen of the WAN: a check that succeeds, a success or a control dial within the window
  of the guard, or a control dial that answers now.
\<close>

fun wan_seen :: "mon_event \<Rightarrow> monitor \<Rightarrow> bool" where
  "wan_seen (Ev_Result now jitter gone cancelled up r) m \<longleftrightarrow> rs_error r = None \<or> wan_evidence now m \<or> up"
| "wan_seen (Ev_Tick la now gone gone' up up' saved) m \<longleftrightarrow> up'"
| "wan_seen _ m \<longleftrightarrow> False"

text \<open>The failed checks a step may count: those that wait, and the one it brings.\<close>

fun failed_checks :: "mon_event \<Rightarrow> monitor \<Rightarrow> string set" where
  "failed_checks (Ev_Result now jitter gone cancelled up r) m
     = set (keys (mo_waiting m)) \<union> (if rs_error r = None then {} else {rs_key r})"
| "failed_checks _ m = set (keys (mo_waiting m))"

lemma status_publish:
  "k \<notin> set (keys (mo_waiting m)) \<Longrightarrow> status_of (publish_pending now m) k = status_of m k"
  by (simp add: status_of_def publish_entries)

lemma evidence_pruned:
  assumes "wan_evidence now (prune_recent now m)"
  shows "wan_evidence now m"
  using assms by (auto simp: wan_evidence_def prune_recent_def list_ex_iff)

lemma waiting_update: "set (keys (AList.update k v al)) = insert k (set (keys al))"
  using dom_update [of k v al] by (simp add: dom_map_of_conv_image_fst)

lemma guard_death:
  assumes "status_of (guard now up m) k = Some St_Dead" and "status_of m k \<noteq> None" and "status_of m k \<noteq> Some St_Dead"
  shows "up \<and> k \<in> set (keys (mo_waiting m))"
proof (cases up)
  case True
  have "status_of (m\<lparr>mo_control_ok := now\<rparr>) k = status_of m k" by (simp add: status_of_def)
  then show ?thesis
    using assms True status_publish [of k "m\<lparr>mo_control_ok := now\<rparr>" now] by (auto simp: guard_def)
next
  case False
  then have "quiet m (guard now up m)" using steady_guard_down [of m m now] by (simp add: steady_quiet)
  then show ?thesis using assms by (simp add: quiet_def)
qed

lemma take_failure_death:
  assumes "status_of (take_failure now up r o' m) k = Some St_Dead" and "status_of m k \<noteq> None" and "status_of m k \<noteq> Some St_Dead"
  shows "(wan_evidence now m \<or> up) \<and> k \<in> insert (rs_key r) (set (keys (mo_waiting m)))"
proof -
  let ?m = "(upd_entry (rs_key r) (\<lambda>e. e\<lparr>en_pending := True\<rparr>) m)\<lparr>mo_waiting := AList.update (rs_key r) o' (mo_waiting m)\<rparr>"
  have same: "status_of ?m k = status_of m k" by (simp add: status_of_def option.map_comp comp_def)
  have evidence: "wan_evidence now ?m = wan_evidence now m" by (simp add: wan_evidence_def upd_entry_def)
  consider "wan_evidence now ?m" | "\<not> wan_evidence now ?m" "guard_due now ?m" | "\<not> wan_evidence now ?m" "\<not> guard_due now ?m"
    by blast
  then show ?thesis
  proof cases
    case 1
    then have "status_of (publish_pending now ?m) k = Some St_Dead" using assms(1) by (simp add: take_failure_def Let_def)
    then have "k \<in> set (keys (mo_waiting ?m))" using status_publish [of k ?m now] same assms(3) by auto
    then show ?thesis using 1 evidence by (simp add: waiting_update del: set_map)
  next
    case 2
    then have "status_of (guard now up ?m) k = Some St_Dead" using assms(1) by (simp add: take_failure_def Let_def)
    then have "up \<and> k \<in> set (keys (mo_waiting ?m))" using same assms(2,3) by (intro guard_death) simp_all
    then show ?thesis by (simp add: waiting_update del: set_map)
  next
    case 3
    then show ?thesis using assms same by (simp add: take_failure_def Let_def)
  qed
qed

lemma take_success_death:
  assumes "status_of (take_success now jitter r o' e m) k = Some St_Dead" and "status_of m k \<noteq> None" and "status_of m k \<noteq> Some St_Dead"
  shows "k \<in> set (keys (mo_waiting m))"
proof (rule ccontr)
  assume "k \<notin> set (keys (mo_waiting m))"
  then have "status_of (take_success now jitter r o' e m) k
      = (if k = rs_key r then map_option (\<lambda>_. St_Alive) (status_of m k) else status_of m k)"
    by (simp add: take_success_def Let_def case_prod_beta status_publish del: set_map)
      (simp add: status_of_def option.map_comp comp_def)
  then show False using assms by (auto split: if_splits)
qed

subsection \<open>The set\<close>

lemma take_endpoint_known:
  assumes "entry_of m (ep_key ep) = Some e"
  shows "ps_status (en_st (fst (take_endpoint now m ep))) = ps_status (en_st e) \<or>
    \<not> checkable e \<and> ps_status (en_st (fst (take_endpoint now m ep))) = St_Unknown \<and> mf_identity (snd (take_endpoint now m ep))"
  by (auto simp: assms take_endpoint_def Let_def new_state_def checkable_def simp del: map_of_eq_Some_iff)

lemma take_refusal_known:
  assumes "entry_of m (fst kr) = Some e"
  shows "ps_status (en_st (fst (take_refusal now m kr))) = St_Rejected \<and> (checkable e \<longrightarrow> mf_identity (snd (take_refusal now m kr)))"
  by (simp add: assms take_refusal_def Let_def del: map_of_eq_Some_iff)

lemma merged_known:
  assumes "entry_of m k = Some e" and "(k, e') \<in> set (merged now eps refused m)"
  shows "ps_status (en_st e') = ps_status (en_st e) \<or> ps_status (en_st e') = St_Unknown \<or> ps_status (en_st e') = St_Rejected"
  using merged_cases [OF assms(2)] assms(1) take_endpoint_known [of m _ e now] take_refusal_known [of m _ e now] by blast

lemma merge_death:
  assumes "status_of m k \<noteq> None" and "status_of (merge_set now eps refused m) k = Some St_Dead"
  shows "status_of m k = Some St_Dead"
proof -
  obtain e where e: "entry_of m k = Some e" using assms(1) by (auto simp: status_of_def simp del: map_of_eq_Some_iff)
  have "map_option (\<lambda>e. ps_status (en_st e)) (map_of (merged now eps refused m) k) = Some St_Dead"
    using assms(2) by (rule_tac merge_set_shape [of now eps refused m])
      (auto simp add: status_of_def Let_def invalidate_evidence_def simp del: map_of_eq_Some_iff split: if_splits)
  then obtain e' where "(k, e') \<in> set (merged now eps refused m)" "ps_status (en_st e') = St_Dead"
    by (auto dest: map_of_SomeD)
  then have "ps_status (en_st e) = St_Dead" using merged_known [OF e, of e' now eps refused] by simp
  then show ?thesis using e by (simp add: status_of_def)
qed

lemma merge_evolves:
  assumes "distinct (map ep_key eps @ map fst refused)"
  shows "evolves m (merge_set now eps refused m)"
proof (cases "other_set now eps refused m")
  case True
  then show ?thesis
    by (rule_tac merge_set_shape [of now eps refused m]) (simp add: evolves_def Let_def invalidate_evidence_def)
next
  case False
  have shape: "mo_entries (merge_set now eps refused m) = merged now eps refused m"
      "mo_generation (merge_set now eps refused m) = mo_generation m"
    using False by (rule_tac merge_set_shape [of now eps refused m], simp add: Let_def)+
  have map: "go_map (merged now eps refused m)" using assms by simp
  show ?thesis
    unfolding evolves_def shape
  proof (intro conjI impI allI)
    fix k e
    assume e: "entry_of m k = Some e" "checkable e"
    then have "k \<in> set (keys (merged now eps refused m))"
      using False by (auto simp: other_set_def dest!: map_of_SomeD simp del: keys_merged) force
    then obtain ef where ef: "(k, ef) \<in> set (taken_all now eps refused m)" by (auto simp: merged_def)
    then have "\<not> mf_identity (snd ef)" using False by (auto simp: other_set_def list_ex_iff case_prod_beta)
    moreover have "(\<exists>ep \<in> set eps. k = ep_key ep \<and> ef = take_endpoint now m ep) \<or> (\<exists>kr \<in> set refused. k = fst kr \<and> ef = take_refusal now m kr)"
      using ef by (auto simp: taken_all_def)
    ultimately have "checkable (fst ef)"
      using e take_endpoint_known [of m _ e now] take_refusal_known [of m _ e now]
      unfolding checkable_def by metis
    moreover have "(k, fst ef) \<in> set (merged now eps refused m)" using ef unfolding merged_def set_map by (rule rev_image_eqI) (simp add: case_prod_beta)
    ultimately show "\<exists>e'. map_of (merged now eps refused m) k = Some e' \<and> checkable e'" using map by auto
  qed simp
qed

lemma taken_input_death:
  assumes "status_of m k \<noteq> None" and "status_of (taken_input inp now m) k = Some St_Dead"
  shows "status_of m k = Some St_Dead"
proof -
  let ?m = "m\<lparr>mo_settings := (case ri_settings inp of Some s \<Rightarrow> s | None \<Rightarrow> mo_settings m)\<rparr>"
  have same: "status_of ?m k = status_of m k" by (simp add: status_of_def)
  show ?thesis
    using assms(2) merge_death [of ?m k now] assms(1) unfolding same
    by (auto simp: taken_input_def Let_def same split: option.splits)
qed

lemma taken_input_evolves: "input_ok inp \<Longrightarrow> evolves m (taken_input inp now m)"
proof -
  assume "input_ok inp"
  let ?m = "m\<lparr>mo_settings := (case ri_settings inp of Some s \<Rightarrow> s | None \<Rightarrow> mo_settings m)\<rparr>"
  have "evolves m ?m" by (simp add: evolves_def)
  then show ?thesis
    using merge_evolves [of _ _ ?m now] \<open>input_ok inp\<close> evolves_trans [of m ?m]
    by (auto simp: taken_input_def Let_def input_ok_def split: option.splits)
qed

lemma refresh_steady: "steady (taken_input inp now m) (refresh la inp now gone m)"
  by (simp add: refresh_unfold Let_def steady_idle steady_resume steady_set_state split: ready_answer.split)

lemma refresh_death:
  assumes "status_of m k \<noteq> None" and "status_of (refresh la inp now gone m) k = Some St_Dead"
  shows "status_of m k = Some St_Dead"
  using assms refresh_steady [of inp now m la gone] taken_input_death [of m k inp now]
  unfolding steady_def quiet_def by (metis option.distinct(1))

lemma refresh_evolves: "input_ok inp \<Longrightarrow> evolves m (refresh la inp now gone m)"
  using evolves_trans [OF taken_input_evolves steady_evolves [OF refresh_steady]] .

subsection \<open>Every step\<close>

lemma steady_upd_flight: "steady m (upd_entry k (\<lambda>e. e\<lparr>en_in_flight := b\<rparr>) m)"
  by (rule steady_upd_entry) simp

lemma status_flight: "status_of (upd_entry k (\<lambda>e. e\<lparr>en_in_flight := b\<rparr>) m) i = status_of m i"
  by (simp add: status_of_def option.map_comp comp_def)

lemma result_death:
  assumes "status_of m k \<noteq> None" and "status_of m k \<noteq> Some St_Dead"
    and "status_of (apply_result now jitter gone cancelled up r m) k = Some St_Dead"
  shows "(rs_error r = None \<or> wan_evidence now m \<or> up) \<and>
    k \<in> set (keys (mo_waiting m)) \<union> (if rs_error r = None then {} else {rs_key r})"
proof -
  let ?m = "\<lambda>o'. prune_recent now ((upd_entry (rs_key r) (\<lambda>e. e\<lparr>en_in_flight := False\<rparr>) m)\<lparr>mo_recent := mo_recent m @ [o']\<rparr>)"
  have same: "status_of (?m o') i = status_of m i" for o' i
    using status_flight by (simp add: status_of_def prune_recent_def)
  have waiting: "mo_waiting (?m o') = mo_waiting m" for o' by simp
  show ?thesis
  proof (cases rule: apply_result_cases [of now jitter gone cancelled up r m])
    case dropped
    then show ?thesis using assms by simp
  next
    case freed
    then show ?thesis using assms by (simp add: status_flight)
  next
    case (good e o')
    have "k \<in> set (keys (mo_waiting m))"
      using take_success_death [of now jitter r o' _ "?m o'" k] assms unfolding good(6) same waiting by blast
    then show ?thesis using good by simp
  next
    case (bad e o' reason)
    have "(wan_evidence now (?m o') \<or> up) \<and> k \<in> insert (rs_key r) (set (keys (mo_waiting m)))"
      using take_failure_death [of now up r "o'\<lparr>oc_reason := reason\<rparr>" "?m o'" k] assms unfolding bad(6) same waiting by blast
    moreover have "wan_evidence now (?m o') \<Longrightarrow> wan_evidence now m"
      using bad(4) evidence_pruned [of now "(upd_entry (rs_key r) (\<lambda>e. e\<lparr>en_in_flight := False\<rparr>) m)\<lparr>mo_recent := mo_recent m @ [o']\<rparr>"]
      by (auto simp: wan_evidence_def)
    ultimately show ?thesis using bad(5) by auto
  qed
qed

text \<open>The guard of the tick, the moment a failure has waited for the whole window.\<close>

definition deadline_guard :: "int \<Rightarrow> bool \<Rightarrow> monitor \<Rightarrow> monitor" where
  "deadline_guard now up m =
     (case pending_until m of Some deadline \<Rightarrow> if deadline \<le> now then guard now up m else m | None \<Rightarrow> m)"

lemma tick_checks_unfold:
  "tick_checks now gone up m =
     (if mo_state m = Mon_OK \<and> mo_session m \<noteq> 0 \<and> \<not> gone then
        (if mo_state (deadline_guard now up m) = Mon_OK then dispatch now (deadline_guard now up m) else deadline_guard now up m)
      else m)"
  by (simp add: tick_checks_def deadline_guard_def Let_def)

lemma status_known: "status_of m k \<noteq> None \<longleftrightarrow> k \<in> set (keys (mo_entries m))"
  by (simp add: status_of_def map_of_eq_None_iff del: map_of_eq_Some_iff)

lemma keys_set_state [simp]: "keys (mo_entries (set_mon_state now st msg m)) = keys (mo_entries m)"
  by (simp add: set_mon_state_def Let_def)

lemma keys_guard [simp]: "keys (mo_entries (deadline_guard now up m)) = keys (mo_entries m)"
  by (simp add: deadline_guard_def guard_def del: list.map split: option.split)

lemma deadline_guard_death:
  assumes "status_of (deadline_guard now up m) k = Some St_Dead" and "status_of m k \<noteq> None" and "status_of m k \<noteq> Some St_Dead"
  shows "up \<and> k \<in> set (keys (mo_waiting m))"
  using assms guard_death [OF _ assms(2,3)] by (auto simp: deadline_guard_def split: option.splits if_splits)

lemma tick_checks_death:
  assumes "status_of (tick_checks now gone up m) k = Some St_Dead" and "status_of m k \<noteq> None" and "status_of m k \<noteq> Some St_Dead"
  shows "up \<and> k \<in> set (keys (mo_waiting m))"
proof -
  have "quiet (deadline_guard now up m) (dispatch now (deadline_guard now up m))"
    by (simp add: steady_quiet steady_dispatch)
  moreover have "quiet (deadline_guard now up m) (deadline_guard now up m)" by (simp add: steady_quiet)
  moreover have "status_of (deadline_guard now up m) k \<noteq> None"
    using assms(2) by (simp only: status_known keys_guard not_False_eq_True)
  ultimately have "status_of (deadline_guard now up m) k = Some St_Dead"
    using assms unfolding tick_checks_unfold quiet_def by (auto split: if_splits)
  then show ?thesis using assms(2,3) by (rule deadline_guard_death)
qed

lemma tick_death:
  assumes "status_of m k \<noteq> None" and "status_of m k \<noteq> Some St_Dead" and "mon_ok m"
    and "status_of (tick la now gone gone' up up' saved m) k = Some St_Dead"
  shows "up' \<and> k \<in> set (keys (mo_waiting (tick_control la now gone up m)))"
proof -
  let ?m = "tick_control la now gone up m"
  have "quiet m ?m" using steady_tick_control by (rule steady_quiet)
  then have known: "status_of ?m k \<noteq> None" "status_of ?m k \<noteq> Some St_Dead" using assms(1,2) by (auto simp: quiet_def)
  have "status_of (tick_checks now gone' up' ?m) k = Some St_Dead"
    using assms(4) by (simp add: tick_def tick_save_def save_state_def status_of_def split: if_splits)
  then show ?thesis using tick_checks_death known by blast
qed

text \<open>While the WAN is paused nothing waits, so the control dial of the pause resolves no failure.\<close>

lemma idle_waiting [simp]:
  "mo_waiting m = [] \<Longrightarrow> mo_waiting (stop_session m) = []" "mo_waiting m = [] \<Longrightarrow> mo_waiting (idle now st msg m) = []"
  "mo_waiting m = [] \<Longrightarrow> mo_waiting (start_failed now err m) = []" "mo_waiting (started now eps m) = mo_waiting m"
  "mo_waiting (reject_key now k reason m) = mo_waiting m"
  by (simp_all add: stop_session_def idle_def start_failed_def started_def reject_key_def Let_def split: option.split)

lemma ensure_waiting: "mo_waiting m = [] \<Longrightarrow> mo_waiting (ensure_session la now gone m) = []"
  by (simp add: ensure_session_def Let_def start_loop_closed [where P = "\<lambda>m. mo_waiting m = []"])

lemma isolate_waiting [simp]: "mo_waiting (isolate la now m) = mo_waiting m"
proof -
  have "mo_waiting (isolate_loop la now ks m) = mo_waiting m" for ks
    by (induction ks arbitrary: m) (simp_all add: Let_def split: option.split)
  then show ?thesis by (simp add: isolate_def)
qed

lemma reassess_waiting [simp]: "mo_waiting (reassess_rejected now m) = mo_waiting m"
proof -
  have "mo_waiting (fold (\<lambda>k. upd_entry k f) ks m) = mo_waiting m" for f ks
    by (induction ks arbitrary: m) simp_all
  then show ?thesis by (simp add: reassess_rejected_def Let_def)
qed

lemma resume_waiting: "mo_waiting m = [] \<Longrightarrow> mo_waiting (resume la now gone m) = []"
  by (simp add: resume_def Let_def ensure_waiting split: ready_answer.split)

lemma waiting_control:
  assumes "mon_ok m"
  shows "mo_waiting (tick_control la now gone up m) = mo_waiting m"
proof (cases "mo_wan_paused m")
  case True
  then have "mo_waiting m = []" using assms by (simp add: mon_ok_def)
  then show ?thesis by (simp add: tick_control_def Let_def resume_waiting wan_back_def)
qed (simp add: tick_control_def)

lemma steady_event:
  assumes "case ev of Ev_Result _ _ _ _ _ _ \<Rightarrow> False | Ev_Tick _ _ _ _ _ _ _ \<Rightarrow> False | Ev_Refresh _ _ _ _ \<Rightarrow> False | _ \<Rightarrow> True"
  shows "steady m (run_event ev m)"
  using assms by (cases ev) (simp_all add: steady_crashed steady_queue steady_shut_down restore_state_def finish_check_def)

text \<open>
  C12: No step of the monitor calls an endpoint dead unless a check of that endpoint failed - it waits,
  or comes with this step - and the step has seen the WAN work: a check that succeeds now, a success or
  an answer of the control dial less than 30 seconds ago, or a control dial that answers now. A
  configuration change, a crash of the prober, a stop and the WAN pause call nothing dead.
\<close>

theorem dead_needs_wan:
  assumes "mon_ok m" and "status_of m k \<noteq> None" and "status_of m k \<noteq> Some St_Dead"
    and "status_of (run_event ev m) k = Some St_Dead"
  shows "wan_seen ev m \<and> k \<in> failed_checks ev m"
proof (cases "case ev of Ev_Result _ _ _ _ _ _ \<Rightarrow> False | Ev_Tick _ _ _ _ _ _ _ \<Rightarrow> False | Ev_Refresh _ _ _ _ \<Rightarrow> False | _ \<Rightarrow> True")
  case True
  then have "quiet m (run_event ev m)" using steady_event steady_quiet by blast
  then show ?thesis using assms by (auto simp: quiet_def)
next
  case False
  consider now jitter gone cancelled up r where "ev = Ev_Result now jitter gone cancelled up r"
    | la now gone gone' up up' saved where "ev = Ev_Tick la now gone gone' up up' saved"
    | la inp now gone where "ev = Ev_Refresh la inp now gone"
    using False by (cases ev) simp_all
  then show ?thesis
  proof cases
    case 1
    then show ?thesis using result_death [OF assms(2,3)] assms(4) by simp
  next
    case 2
    have "up' \<and> k \<in> set (keys (mo_waiting (tick_control la now gone up m)))"
      using assms(4) unfolding 2 run_event.simps by (rule tick_death [OF assms(2,3,1)])
    then show ?thesis using 2 waiting_control [OF assms(1)] by simp
  next
    case 3
    then show ?thesis using refresh_death [OF assms(2)] assms(3,4) by simp
  qed
qed

section \<open>Reachable states\<close>

text \<open>
  The checks handed out by a tick, each with the generation it was handed out in. An answer comes from a
  check that was handed out; a refresh reads settings within their bounds and every key once; the state
  file holds records the monitor could have saved.
\<close>

definition handed_out :: "int \<Rightarrow> monitor \<Rightarrow> string list" where
  "handed_out now m = map fst (take (free_workers m) (due_list now m))"

fun issued :: "mon_event \<Rightarrow> monitor \<Rightarrow> (string \<times> nat) set" where
  "issued (Ev_Tick la now gone gone' up up' saved) m =
     (let m1 = tick_control la now gone up m; m2 = deadline_guard now up' m1 in
      if mo_state m1 = Mon_OK \<and> mo_session m1 \<noteq> 0 \<and> \<not> gone' \<and> mo_state m2 = Mon_OK
      then (\<lambda>k. (k, mo_generation m2)) ` set (handed_out now m2) else {})"
| "issued _ _ = {}"

fun input_allowed :: "mon_event \<Rightarrow> (string \<times> nat) set \<Rightarrow> bool" where
  "input_allowed (Ev_Refresh la inp now gone) js \<longleftrightarrow> input_ok inp"
| "input_allowed (Ev_Restore saved) js \<longleftrightarrow> (\<forall>r \<in> snd ` set saved. saved_ok r)"
| "input_allowed (Ev_Result now jitter gone cancelled up r) js \<longleftrightarrow> (rs_key r, rs_generation r) \<in> js"
| "input_allowed _ js \<longleftrightarrow> True"

inductive runs :: "monitor \<Rightarrow> (string \<times> nat) set \<Rightarrow> bool" where
  start: "runs new_monitor {}"
| step: "runs m js \<Longrightarrow> input_allowed ev js \<Longrightarrow> runs (run_event ev m) (js \<union> issued ev m)"

text \<open>An answer of the current generation is for an endpoint that is still checked.\<close>

definition checks_current :: "monitor \<Rightarrow> (string \<times> nat) set \<Rightarrow> bool" where
  "checks_current m js \<longleftrightarrow>
     (\<forall>(k, g) \<in> js. g \<le> mo_generation m \<and> (g = mo_generation m \<longrightarrow> (\<exists>e. entry_of m k = Some e \<and> checkable e)))"

lemma checks_currentD:
  "checks_current m js \<Longrightarrow> (k, g) \<in> js \<Longrightarrow> g \<le> mo_generation m \<and> (g = mo_generation m \<longrightarrow> (\<exists>e. entry_of m k = Some e \<and> checkable e))"
  unfolding checks_current_def by fast

lemma checks_current_evolves:
  assumes "checks_current m js" and "evolves m m'"
  shows "checks_current m' js"
  unfolding checks_current_def
proof (clarify, intro conjI impI)
  fix k g
  assume job: "(k, g) \<in> js"
  note old = checks_currentD [OF assms(1) job]
  show "g \<le> mo_generation m'" using old assms(2) unfolding evolves_def by linarith
  assume "g = mo_generation m'"
  then have "mo_generation m' = mo_generation m" "g = mo_generation m" using old assms(2) unfolding evolves_def by linarith+
  then show "\<exists>e. entry_of m' k = Some e \<and> checkable e" using old assms(2) unfolding evolves_def by blast
qed

lemma evolves_upd_entry:
  assumes "\<And>e. entry_of m k = Some e \<Longrightarrow> checkable e \<Longrightarrow> checkable (f e)"
  shows "evolves m (upd_entry k f m)"
  using assms by (auto simp: evolves_def simp del: map_of_eq_Some_iff)

lemma evolves_frame:
  assumes "mo_entries m1 = mo_entries m2" and "mo_generation m1 = mo_generation m2"
  shows "evolves m m1 = evolves m m2" and "evolves m1 m = evolves m2 m"
  using assms by (simp_all add: evolves_def)

lemma result_evolves: "evolves m (apply_result now jitter gone cancelled up r m)"
proof -
  let ?m = "\<lambda>o'. prune_recent now ((upd_entry (rs_key r) (\<lambda>e. e\<lparr>en_in_flight := False\<rparr>) m)\<lparr>mo_recent := mo_recent m @ [o']\<rparr>)"
  have freed: "evolves m (upd_entry (rs_key r) (\<lambda>e. e\<lparr>en_in_flight := False\<rparr>) m)" by (rule evolves_upd_entry) simp
  have m: "evolves m (?m o')" for o'
    using freed evolves_frame(1) [of "?m o'" "upd_entry (rs_key r) (\<lambda>e. e\<lparr>en_in_flight := False\<rparr>) m" m]
    by (simp add: prune_recent_def)
  have good: "evolves m' (take_success now jitter r o' e m')" for o' e m'
  proof -
    let ?u = "upd_entry (rs_key r) (\<lambda>_. complete m' o' (fst (succeed now (rs_latency r) (mo_settings m') jitter e))) m'"
    have "evolves m' ?u" by (rule evolves_upd_entry) (simp add: checkable_def)
    then show ?thesis unfolding take_success_def Let_def case_prod_beta
      by (intro evolves_trans [OF _ evolves_publish]) (simp add: evolves_def upd_entry_def)
  qed
  have bad: "evolves m' (take_failure now up r o' m')" for o' m'
  proof -
    let ?p = "(upd_entry (rs_key r) (\<lambda>e. e\<lparr>en_pending := True\<rparr>) m')\<lparr>mo_waiting := AList.update (rs_key r) o' (mo_waiting m')\<rparr>"
    have "evolves m' (upd_entry (rs_key r) (\<lambda>e. e\<lparr>en_pending := True\<rparr>) m')" by (rule evolves_upd_entry) simp
    then have p: "evolves m' ?p" by (simp add: evolves_def)
    show ?thesis using evolves_trans [OF p evolves_publish] evolves_trans [OF p evolves_guard] p
      by (simp add: take_failure_def Let_def)
  qed
  show ?thesis
    by (cases rule: apply_result_cases [of now jitter gone cancelled up r m])
      (use freed in \<open>simp_all add: evolves_trans [OF m good] evolves_trans [OF m bad] steady_evolves\<close>)
qed

lemma evolves_deadline: "evolves m (deadline_guard now up m)"
  by (simp add: deadline_guard_def evolves_guard steady_evolves split: option.split)

lemma tick_checks_evolves: "evolves m (tick_checks now gone up m)"
  using evolves_trans [OF evolves_deadline steady_evolves [OF steady_dispatch [OF steady_refl]]]
  by (simp add: tick_checks_unfold evolves_deadline steady_evolves)

lemma tick_evolves: "evolves m (tick la now gone gone' up up' saved m)"
proof -
  have "evolves m (tick_checks now gone' up' (tick_control la now gone up m))"
    using evolves_trans [OF steady_evolves [OF steady_tick_control] tick_checks_evolves] .
  then show ?thesis by (simp add: tick_def tick_save_def save_state_def evolves_def)
qed

lemma event_evolves:
  assumes "input_allowed ev js"
  shows "evolves m (run_event ev m)"
proof (cases "case ev of Ev_Result _ _ _ _ _ _ \<Rightarrow> False | Ev_Tick _ _ _ _ _ _ _ \<Rightarrow> False | Ev_Refresh _ _ _ _ \<Rightarrow> False | _ \<Rightarrow> True")
  case True
  then show ?thesis using steady_event steady_evolves by blast
next
  case False
  then show ?thesis using assms by (cases ev) (simp_all add: result_evolves tick_evolves refresh_evolves)
qed

lemma handed_out_due: "k \<in> set (handed_out now m) \<Longrightarrow> \<exists>e. (k, e) \<in> set (due_list now m)"
  unfolding handed_out_def using in_set_takeD by fastforce

lemma issued_current:
  assumes "mon_ok m"
  shows "checks_current (run_event ev m) (issued ev m)"
proof (cases ev)
  case (Ev_Tick la now gone gone' up up' saved)
  let ?m1 = "tick_control la now gone up m"
  let ?m2 = "deadline_guard now up' ?m1"
  show ?thesis
  proof (cases "mo_state ?m1 = Mon_OK \<and> mo_session ?m1 \<noteq> 0 \<and> \<not> gone' \<and> mo_state ?m2 = Mon_OK")
    case True
    have ok: "mon_ok ?m2" using tick_control_ok [OF assms, of la now gone up]
      by (auto simp: deadline_guard_def split: option.split)
    have "\<exists>e. entry_of ?m2 k = Some e \<and> checkable e" if k: "k \<in> set (handed_out now ?m2)" for k
    proof -
      obtain e where "(k, e) \<in> set (due_list now ?m2)" using handed_out_due [OF k] by blast
      then have "entry_of ?m2 k = Some e" "checkable e" using ok by (simp_all add: due_list_mem mon_ok_def is_due_def)
      then show ?thesis by blast
    qed
    then have "checks_current ?m2 (issued ev m)" using True Ev_Tick by (auto simp: checks_current_def Let_def)
    moreover have "evolves ?m2 (run_event ev m)"
      using Ev_Tick True steady_evolves [OF steady_tick_save [OF steady_dispatch [OF steady_refl]]]
      by (simp add: tick_def tick_checks_unfold)
    ultimately show ?thesis by (rule checks_current_evolves)
  next
    case False
    then have "issued ev m = {}" using Ev_Tick by (auto simp: Let_def)
    then show ?thesis by (simp add: checks_current_def)
  qed
qed (simp_all add: checks_current_def)

lemma event_ok:
  assumes "mon_ok m" and "checks_current m js" and "input_allowed ev js"
  shows "mon_ok (run_event ev m)"
proof (cases ev)
  case (Ev_Restore saved)
  then show ?thesis using assms by (simp add: restore_state_def mon_ok_def entries_ok_def)
next
  case (Ev_Result now jitter gone cancelled up r)
  then have "answers m r" using assms(3) checks_currentD [OF assms(2)] by (fastforce simp: answers_def)
  then show ?thesis using Ev_Result apply_result_ok [OF assms(1)] by simp
qed (use assms in \<open>simp_all add: refresh_ok tick_ok finish_check_def crashed_ok queue_ok shut_down_ok\<close>)

text \<open>
  C14: In every state the monitor can reach the keys are unique, every record is well formed, a failure
  that is kept back is among those that wait for the guard, nothing is under check or waits without a
  prober, and a monitor that pauses for the WAN is not OK and keeps nothing back. And whatever answers
  are still to come, one that carries the current generation is for an endpoint that is still checked:
  a rejection or a change of the set makes the answers of the checks already handed out stale.
\<close>

theorem monitor_invariant:
  assumes "runs m js"
  shows "mon_ok m \<and> checks_current m js"
  using assms
proof (induction rule: runs.induct)
  case start
  show ?case by (simp add: new_monitor_ok checks_current_def)
next
  case (step m js ev)
  then have "mon_ok (run_event ev m)" using event_ok by blast
  moreover have "checks_current (run_event ev m) js" using step checks_current_evolves event_evolves by blast
  ultimately show ?case using step issued_current [of m ev] by (auto simp: checks_current_def)
qed

section \<open>Failures are resolved in time\<close>

lemma guard_resolves:
  assumes "mon_ok m"
  shows "mo_waiting (guard now up m) = [] \<and> (\<forall>k e. entry_of (guard now up m) k = Some e \<longrightarrow> \<not> en_pending e)"
proof (cases up)
  case True
  have "mon_ok (m\<lparr>mo_control_ok := now\<rparr>)" using assms by simp
  from publish_pending_none [OF this, of now] show ?thesis using True by (simp add: guard_def del: map_of_eq_Some_iff)
next
  case False
  then show ?thesis
    by (auto simp: guard_def set_mon_state_def discard_pending_def invalidate_evidence_def Let_def simp del: map_of_eq_Some_iff)
qed

lemma pending_until_le:
  assumes "(k, o') \<in> set (mo_waiting m)"
  shows "\<exists>d. pending_until m = Some d \<and> d \<le> oc_at o' + guard_window"
proof -
  have "Min (set (map (\<lambda>ko. oc_at (snd ko) + guard_window) (mo_waiting m))) \<le> oc_at o' + guard_window"
    by (rule Min_le) (use assms in force)+
  moreover obtain w ws where "mo_waiting m = w # ws" using assms by (cases "mo_waiting m") auto
  ultimately show ?thesis by (simp add: pending_until_def)
qed

lemma tick_save_frame [simp]:
  "mo_waiting (tick_save now ok m) = mo_waiting m" "mo_state (tick_save now ok m) = mo_state m"
  "mo_wan_paused (tick_save now ok m) = mo_wan_paused m" "mo_entries (tick_save now ok m) = mo_entries m"
  by (simp_all add: tick_save_def save_state_def)

lemma hand_outs_frame [simp]:
  "mo_waiting (fold hand_out ks m) = mo_waiting m" "mo_state (fold hand_out ks m) = mo_state m"
  "mo_wan_paused (fold hand_out ks m) = mo_wan_paused m"
  by (induction ks arbitrary: m) (simp_all add: hand_out_def)

lemma hand_outs_entry:
  "entry_of (fold hand_out ks m) i
     = map_option (\<lambda>e. if i \<in> set ks then e\<lparr>en_in_flight := True, en_urgent := False\<rparr> else e) (entry_of m i)"
proof (induction ks arbitrary: m)
  case (Cons k ks)
  have "entry_of (fold hand_out ks (hand_out k m)) i
      = map_option (\<lambda>e. if i \<in> set ks then e\<lparr>en_in_flight := True, en_urgent := False\<rparr> else e) (entry_of (hand_out k m) i)"
    by (rule Cons.IH)
  then show ?case
    by (cases "entry_of m i"; cases "i = k") (simp_all add: hand_out_entry del: map_of_eq_Some_iff)
qed (simp add: map_option.identity)

lemma dispatch_frame [simp]:
  "mo_waiting (dispatch now m) = mo_waiting m" "mo_state (dispatch now m) = mo_state m"
  "mo_wan_paused (dispatch now m) = mo_wan_paused m"
  by (simp_all add: dispatch_def)

lemma dispatch_pending:
  assumes "entry_of (dispatch now m) i = Some e"
  shows "\<exists>e0. entry_of m i = Some e0 \<and> en_pending e = en_pending e0"
  using assms by (auto simp: dispatch_def hand_outs_entry simp del: map_of_eq_Some_iff split: if_splits)


section \<open>The search for a refused endpoint\<close>

lemma bisect_loop_one: "length eps \<le> 1 \<Longrightarrow> bisect_loop test eps = Inr eps"
  by (subst bisect_loop.simps) simp

lemma bisect_loop_sub:
  "bisect_loop test eps = Inr one \<Longrightarrow> eps \<noteq> [] \<Longrightarrow> (\<exists>ep \<in> set eps. one = [ep])"
proof (induction test eps rule: bisect_loop.induct)
  case (1 test eps)
  show ?case
  proof (cases "length eps \<le> 1")
    case True
    then show ?thesis using 1(3,4) by (cases eps) (auto simp: bisect_loop_one)
  next
    case False
    let ?a = "take (length eps div 2) eps" and ?b = "drop (length eps div 2) eps"
    have ne: "?a \<noteq> []" "?b \<noteq> []" using False by (cases eps; simp)+
    show ?thesis
    proof (cases "test ?a")
      case Passes
      then have "bisect_loop test ?b = Inr one" using 1(3) False by (subst (asm) bisect_loop.simps) (simp add: Let_def)
      then show ?thesis using 1(1) [OF False refl Passes] ne by (meson in_set_dropD)
    next
      case Refuses
      then have "bisect_loop test ?a = Inr one" using 1(3) False by (subst (asm) bisect_loop.simps) (simp add: Let_def)
      then show ?thesis using 1(2) [OF False refl Refuses] ne by (meson in_set_takeD)
    next
      case (Test_Fails err)
      then show ?thesis using 1(3) False by (subst (asm) bisect_loop.simps) (simp add: Let_def)
    qed
  qed
qed

text \<open>A test that answers, and refuses a list only where it refuses a part of any cut of it.\<close>

definition locates :: "(endpoint list \<Rightarrow> test_answer) \<Rightarrow> bool" where
  "locates test \<longleftrightarrow>
     (\<forall>xs. test xs = Passes \<or> test xs = Refuses) \<and>
     (\<forall>xs ys. test (xs @ ys) = Refuses \<longrightarrow> test xs = Refuses \<or> test ys = Refuses)"

lemma bisect_loop_refused:
  "locates test \<Longrightarrow> test eps = Refuses \<Longrightarrow> eps \<noteq> [] \<Longrightarrow> \<exists>one. bisect_loop test eps = Inr one \<and> test one = Refuses"
proof (induction test eps rule: bisect_loop.induct)
  case (1 test eps)
  show ?case
  proof (cases "length eps \<le> 1")
    case True
    then show ?thesis using 1(4) by (simp add: bisect_loop_one)
  next
    case False
    let ?a = "take (length eps div 2) eps" and ?b = "drop (length eps div 2) eps"
    have ne: "?a \<noteq> []" "?b \<noteq> []" using False by (cases eps; simp)+
    have "test ?a = Passes \<or> test ?a = Refuses" using 1(3) by (simp add: locates_def)
    then show ?thesis
    proof
      assume a: "test ?a = Passes"
      then have "test ?b = Refuses" using 1(3,4) append_take_drop_id [of "length eps div 2" eps]
        unfolding locates_def by (metis test_answer.distinct(1))
      then show ?thesis using 1(1) [OF False refl a 1(3)] ne a False by (subst bisect_loop.simps) (simp add: Let_def)
    next
      assume a: "test ?a = Refuses"
      then show ?thesis using 1(2) [OF False refl a 1(3)] ne False by (subst bisect_loop.simps) (simp add: Let_def)
    qed
  qed
qed

text \<open>
  C16: The search for the endpoint that Xray refuses ends; the endpoint it names is one of the set and is
  refused on its own; and it names one whenever Xray refuses the set, never fails to answer, and refuses
  no list without refusing a part of it.
\<close>

theorem bisect_finds:
  assumes "eps \<noteq> []"
  shows "(\<forall>k. bisect test eps = Inr (Some k) \<longrightarrow> (\<exists>ep \<in> set eps. ep_key ep = k \<and> test [ep] = Refuses)) \<and>
    (locates test \<longrightarrow> test eps = Refuses \<longrightarrow> (\<exists>ep \<in> set eps. bisect test eps = Inr (Some (ep_key ep))))"
proof (intro conjI allI impI)
  fix k
  assume k: "bisect test eps = Inr (Some k)"
  then obtain one where one: "bisect_loop test eps = Inr one" "test one = Refuses" "k = ep_key (hd one)"
    by (auto simp: bisect_def split: test_answer.splits sum.splits)
  then show "\<exists>ep \<in> set eps. ep_key ep = k \<and> test [ep] = Refuses" using bisect_loop_sub [OF one(1) assms] by auto
next
  assume "locates test" and refused: "test eps = Refuses"
  then obtain one where one: "bisect_loop test eps = Inr one" "test one = Refuses" using bisect_loop_refused assms by blast
  then obtain ep where "ep \<in> set eps" "one = [ep]" using bisect_loop_sub [OF one(1) assms] by blast
  then show "\<exists>ep \<in> set eps. bisect test eps = Inr (Some (ep_key ep))" using one refused by (auto simp: bisect_def)
qed

end
