(* ===== verification/Monitor_Checks.thy ===== *)
theory Monitor_Checks
  imports Monitor_Safety
begin

text \<open>
  The monitor's bounds and order of checks, what survives a restart, and the monitor on concrete inputs.
\<close>

section \<open>The checks in flight\<close>

lemma count_upd:
  assumes "go_map es" and "map_of es k = Some e" and "\<not> P e" and "P (f e)"
  shows "length (filter (\<lambda>ke. P (snd ke)) (map (\<lambda>(j, e). (j, if j = k then f e else e)) es))
    = Suc (length (filter (\<lambda>ke. P (snd ke)) es))"
  using assms
proof (induction es)
  case (Cons je es)
  obtain j e' where je: "je = (j, e')" by (cases je)
  show ?case
  proof (cases "j = k")
    case True
    then have "map (\<lambda>(j, e). (j, if j = k then f e else e)) es = es"
      using Cons.prems(1) je by (intro map_idI) (auto simp: rev_image_eqI)
    then show ?thesis using Cons.prems True je by simp
  next
    case False
    then show ?thesis using Cons je by simp
  qed
qed simp

lemma busy_hand_out:
  assumes "go_map (mo_entries m)" and "entry_of m k = Some e" and "\<not> en_in_flight e"
  shows "busy (hand_out k m) = Suc (busy m)"
  using count_upd [OF assms(1,2), of en_in_flight "\<lambda>e. e\<lparr>en_in_flight := True, en_urgent := False\<rparr>"] assms(3)
  by (simp add: busy_def hand_out_def upd_entry_def)

lemma busy_hand_outs:
  "go_map (mo_entries m) \<Longrightarrow> distinct ks \<Longrightarrow> (\<And>k. k \<in> set ks \<Longrightarrow> \<exists>e. entry_of m k = Some e \<and> \<not> en_in_flight e) \<Longrightarrow>
     busy (fold hand_out ks m) = busy m + length ks"
proof (induction ks arbitrary: m)
  case (Cons k ks)
  have "go_map (mo_entries (hand_out k m))" using Cons.prems(1) by (simp add: hand_out_def del: list.map)
  moreover have "\<exists>e. entry_of (hand_out k m) i = Some e \<and> \<not> en_in_flight e" if "i \<in> set ks" for i
    using that Cons.prems(2,3) by (auto simp: hand_out_entry simp del: map_of_eq_Some_iff)
  ultimately have "busy (fold hand_out ks (hand_out k m)) = busy (hand_out k m) + length ks"
    using Cons.IH [of "hand_out k m"] Cons.prems(2) by simp
  moreover obtain e where "entry_of m k = Some e" "\<not> en_in_flight e" using Cons.prems(3) [of k] by auto
  ultimately show ?case using busy_hand_out [OF Cons.prems(1)] by simp
qed simp

lemma due_list_keys: "go_map (mo_entries m) \<Longrightarrow> distinct (map fst (due_list now m))"
  unfolding due_list_def
  by (rule distinct_map [THEN iffD2])
    (auto simp: distinct_map intro: inj_on_subset distinct_filter)

lemma handed_out_len: "length (handed_out now m) = min (free_workers m) (length (due_list now m))"
  by (simp add: handed_out_def)

lemma busy_dispatch:
  assumes "go_map (mo_entries m)"
  shows "busy (dispatch now m) = busy m + min (free_workers m) (length (due_list now m))"
proof -
  have "distinct (handed_out now m)" using due_list_keys [OF assms] by (simp add: handed_out_def take_map [symmetric])
  moreover have "\<exists>e. entry_of m k = Some e \<and> \<not> en_in_flight e" if "k \<in> set (handed_out now m)" for k
    using handed_out_due [OF that] assms by (auto simp: due_list_mem is_due_def)
  ultimately show ?thesis using busy_hand_outs [OF assms, of "handed_out now m"] handed_out_len [of now m]
    by (simp add: dispatch_def handed_out_def)
qed

lemma due_sorted: "sorted (map (due_key m) (due_list now m))"
  by (simp add: due_list_def)

text \<open>
  C17: A tick hands out only checks that are due, and never more than the settings allow at once beyond
  those already running. An endpoint that is due waits only while every worker is busy, and only behind
  endpoints that come first: those somebody asked for, then those due for longer.
\<close>

theorem dispatch_bounded:
  assumes "mon_ok m"
  shows "int (busy (dispatch now m)) \<le> max (int (busy m)) (se_concurrency (mo_settings m)) \<and>
    (\<forall>j e. j \<in> set (handed_out now m) \<longrightarrow> entry_of m j = Some e \<longrightarrow> is_due now e) \<and>
    (\<forall>k e. entry_of m k = Some e \<longrightarrow> is_due now e \<longrightarrow> k \<notin> set (handed_out now m) \<longrightarrow>
       se_concurrency (mo_settings m) \<le> int (busy (dispatch now m)) \<and>
       (\<forall>j e'. j \<in> set (handed_out now m) \<longrightarrow> entry_of m j = Some e' \<longrightarrow> due_key m (j, e') \<le> due_key m (k, e)))"
proof (intro conjI allI impI)
  have map: "go_map (mo_entries m)" using assms by (simp add: mon_ok_def)
  let ?n = "free_workers m" and ?due = "due_list now m"
  show "int (busy (dispatch now m)) \<le> max (int (busy m)) (se_concurrency (mo_settings m))"
    unfolding busy_dispatch [OF map] by (auto simp: free_workers_def)
  fix j e
  assume "j \<in> set (handed_out now m)" "entry_of m j = Some e"
  then obtain e' where "(j, e') \<in> set ?due" using handed_out_due by blast
  then have "entry_of m j = Some e'" "is_due now e'" using map by (simp_all add: due_list_mem)
  then show "is_due now e" using \<open>entry_of m j = Some e\<close> by simp
next
  have map: "go_map (mo_entries m)" using assms by (simp add: mon_ok_def)
  fix k e
  assume k: "entry_of m k = Some e" "is_due now e" "k \<notin> set (handed_out now m)"
  let ?n = "free_workers m" and ?due = "due_list now m"
  have "(k, e) \<in> set ?due" using k map by (simp add: due_list_mem)
  moreover have "(k, e) \<notin> set (take ?n ?due)" using k(3) by (force simp: handed_out_def)
  ultimately have late: "(k, e) \<in> set (drop ?n ?due)" by (metis Un_iff append_take_drop_id set_append)
  then have "?n < length ?due" by (auto simp: drop_eq_Nil2 intro: ccontr)
  then show "se_concurrency (mo_settings m) \<le> int (busy (dispatch now m))"
    unfolding busy_dispatch [OF map] by (auto simp: free_workers_def)
  fix j e'
  assume j: "j \<in> set (handed_out now m)" "entry_of m j = Some e'"
  then obtain e'' where "(j, e'') \<in> set (take ?n ?due)" by (force simp: handed_out_def)
  then have "(j, e') \<in> set (take ?n ?due)" using j(2) map by (metis due_list_mem in_set_takeD map_of_is_SomeI option.inject)
  moreover have "sorted (map (due_key m) (take ?n ?due) @ map (due_key m) (drop ?n ?due))"
    using due_sorted [of m now] by (simp flip: map_append)
  ultimately show "due_key m (j, e') \<le> due_key m (k, e)" using late by (auto simp: sorted_append)
qed

section \<open>Restarts\<close>

lemma map_of_updates: "map_of (foldl (\<lambda>acc (k, r). AList.update k r acc) al xs) k = (map_of al ++ map_of (rev xs)) k"
  by (induction xs arbitrary: al) (auto simp: update_conv' map_add_def fun_upd_def split: option.splits)

lemma saved_entry_of:
  assumes "go_map (mo_entries m)" and "entry_of m k = Some e"
  shows "map_of (saved_entries m) k = Some (saved_of e)"
proof -
  have "(k, saved_of e) \<in> set (rev (map (map_prod id saved_of) (mo_entries m)))"
    using assms by force
  moreover have "go_map (rev (map (map_prod id saved_of) (mo_entries m)))"
    using assms(1) by (simp add: comp_def flip: rev_map)
  ultimately have "map_of (rev (map (map_prod id saved_of) (mo_entries m))) k = Some (saved_of e)" by simp
  then show ?thesis by (simp add: saved_entries_def map_of_updates map_add_def)
qed

text \<open>
  C23: A restart loses nothing that was known: a monitor that reads what the last one saved takes, for
  every endpoint that is still there and may be checked, the status, the failures, the next check and the
  pause it had.
\<close>

theorem restart_keeps_state:
  assumes "mon_ok m" and "entry_of m (ep_key ep) = Some e" and "checkable e \<or> en_sticky e"
    and "ep \<in> set eps" and "distinct (map ep_key eps @ map fst refused)"
  shows "\<exists>e'. entry_of (merge_set now eps refused (restore_state (saved_entries m) new_monitor)) (ep_key ep) = Some e' \<and>
    en_st e' = en_st e \<and> en_pause e' = en_pause e \<and> en_sticky e' = en_sticky e"
proof -
  let ?m = "restore_state (saved_entries m) new_monitor"
  let ?t = "fst (take_endpoint now ?m ep)"
  have "map_of (saved_entries m) (ep_key ep) = Some (saved_of e)"
    using assms(1,2) saved_entry_of by (simp add: mon_ok_def del: map_of_eq_Some_iff)
  then have "from_restored ?m (ep_key ep) now = new_entry (en_st e) (en_pause e) (en_sticky e)"
    by (simp add: from_restored_def restore_state_def saved_of_def)
  then have t: "en_st ?t = en_st e" "en_pause ?t = en_pause e" "en_sticky ?t = en_sticky e"
    using assms(3) by (auto simp: take_endpoint_def restore_state_def new_monitor_def new_entry_def checkable_def Let_def)
  have "(ep_key ep, ?t) \<in> set (merged now eps refused ?m)"
    using assms(4) by (auto simp: merged_def taken_all_def case_prod_beta)
  moreover have "go_map (merged now eps refused ?m)" using assms(5) by simp
  ultimately have "map_of (merged now eps refused ?m) (ep_key ep) = Some ?t" by simp
  then have "\<exists>e'. entry_of (merge_set now eps refused ?m) (ep_key ep) = Some e' \<and>
      en_st e' = en_st ?t \<and> en_pause e' = en_pause ?t \<and> en_sticky e' = en_sticky ?t"
    by (rule_tac merge_set_shape [of now eps refused ?m])
      (simp add: Let_def invalidate_evidence_def del: map_of_eq_Some_iff)
  then show ?thesis using t by simp
qed

section \<open>Witness\<close>

text \<open>One endpoint, a prober that runs, and a check of it that fails.\<close>

definition sample_entry :: "status \<Rightarrow> bool \<Rightarrow> entry" where
  "sample_entry st waits =
     (new_entry ((new_state 0)\<lparr>ps_status := st, ps_fails := (if st = St_Dead then 1 else 0)\<rparr>) (if st = St_Dead then minute else 0) False)
       \<lparr>en_pending := waits\<rparr>"

definition sample_outcome :: outcome where
  "sample_outcome = \<lparr>oc_at = 0, oc_ok = False, oc_key = ''a'', oc_reason = ''timeout'', oc_seq = 1, oc_generation = 1, oc_started = 1\<rparr>"

definition sample_monitor :: "bool \<Rightarrow> monitor" where
  "sample_monitor waits =
     new_monitor\<lparr>mo_session := 1, mo_control_ok := minute, mo_sessions := 1, mo_order := [''a'', ''b''],
       mo_entries := [(''a'', sample_entry St_Alive waits), (''b'', sample_entry St_Dead False)],
       mo_waiting := (if waits then [(''a'', sample_outcome)] else [])\<rparr>"

lemma sample_monitor_ok: "mon_ok (sample_monitor waits)"
  by (auto simp: sample_monitor_def mon_ok_def entries_ok_def new_monitor_def settings_from_def settings_ok_def settings_bounds
      sample_entry_def entry_ok_def new_entry_def new_state_def duration_units split: if_splits)

definition sample_failure :: check_result where
  "sample_failure = \<lparr>rs_session = 1, rs_key = ''a'', rs_latency = 0, rs_error = Some ''timeout'', rs_seq = 1, rs_at = 0,
     rs_generation = 1, rs_started = 1\<rparr>"

definition sample_launcher :: launcher where
  "sample_launcher = \<lparr>la_ready = Ready, la_start = (\<lambda>_ _. Started), la_test = (\<lambda>_. Passes), la_crashes = (\<lambda>_. False)\<rparr>"

definition sample_input :: refresh_input where
  "sample_input = \<lparr>ri_settings = None, ri_endpoints = Some ([\<lparr>ep_key = ''a'', ep_label = ''A'', ep_outbound = []\<rparr>], []), ri_stopped = False\<rparr>"


theorem dead_needs_wan_witness:
  "wan_seen (Ev_Result (minute + second) 0 False False False sample_failure) (sample_monitor True) \<and>
   ''a'' \<in> failed_checks (Ev_Result (minute + second) 0 False False False sample_failure) (sample_monitor True)"
proof (rule dead_needs_wan [OF sample_monitor_ok])
  show "status_of (sample_monitor True) ''a'' \<noteq> None" by code_simp
  show "status_of (sample_monitor True) ''a'' \<noteq> Some St_Dead" by code_simp
  show "status_of (run_event (Ev_Result (minute + second) 0 False False False sample_failure) (sample_monitor True)) ''a''
      = Some St_Dead" by code_simp
qed

text \<open>A restart that finds one dead endpoint in the state file, a refresh that starts a prober, and a tick.\<close>

definition sample_run :: "mon_event list" where
  "sample_run =
     [Ev_Restore [(''a'', saved_of (sample_entry St_Dead False))], Ev_Refresh sample_launcher sample_input 0 False,
      Ev_Tick sample_launcher minute False False True True True, Ev_Crashed sample_launcher (minute + second)]"

theorem monitor_invariant_witness:
  "\<exists>js. runs (foldl (\<lambda>m ev. run_event ev m) new_monitor sample_run) js \<and>
     mon_ok (foldl (\<lambda>m ev. run_event ev m) new_monitor sample_run) \<and>
     checks_current (foldl (\<lambda>m ev. run_event ev m) new_monitor sample_run) js"
proof -
  have allowed: "input_allowed (Ev_Restore [(''a'', saved_of (sample_entry St_Dead False))]) js"
      "input_allowed (Ev_Refresh sample_launcher sample_input 0 False) js" for js by code_simp+
  obtain js where "runs (foldl (\<lambda>m ev. run_event ev m) new_monitor sample_run) js"
    unfolding sample_run_def foldl.simps
    using runs.step [OF runs.step [OF runs.step [OF runs.step [OF runs.start allowed(1)] allowed(2)]]] by (metis input_allowed.simps(4,6))
  then show ?thesis using monitor_invariant by blast
qed


definition refuses_b :: "endpoint list \<Rightarrow> test_answer" where
  "refuses_b eps = (if list_ex (\<lambda>ep. ep_key ep = ''b'') eps then Refuses else Passes)"

definition three :: "endpoint list" where
  "three = map (\<lambda>k. \<lparr>ep_key = k, ep_label = [], ep_outbound = []\<rparr>) [''a'', ''b'', ''c'']"

theorem bisect_finds_witness: "\<exists>ep \<in> set three. bisect refuses_b three = Inr (Some (ep_key ep))"
proof -
  have "locates refuses_b" by (simp add: locates_def refuses_b_def)
  moreover have "refuses_b three = Refuses" "three \<noteq> []" by (simp_all add: refuses_b_def three_def)
  ultimately show ?thesis using bisect_finds [of three refuses_b] by blast
qed

theorem dispatch_bounded_witness:
  "int (busy (dispatch minute (sample_monitor False))) \<le> 8 \<and> handed_out minute (sample_monitor False) = [''a'', ''b'']"
proof -
  have "max (int (busy (sample_monitor False))) (se_concurrency (mo_settings (sample_monitor False))) \<le> 8" by code_simp
  moreover have "handed_out minute (sample_monitor False) = [''a'', ''b'']" by code_simp
  ultimately show ?thesis using dispatch_bounded [OF sample_monitor_ok, of minute False] by linarith
qed

theorem restart_keeps_state_witness:
  "\<exists>e'. entry_of (merge_set minute three [] (restore_state (saved_entries (sample_monitor False)) new_monitor)) ''b'' = Some e' \<and>
    ps_status (en_st e') = St_Dead \<and> en_pause e' = minute"
proof -
  let ?b = "\<lparr>ep_key = ''b'', ep_label = [], ep_outbound = []\<rparr>"
  have e: "entry_of (sample_monitor False) (ep_key ?b) = Some (sample_entry St_Dead False)"
    by (simp add: sample_monitor_def new_monitor_def)
  have "checkable (sample_entry St_Dead False) \<or> en_sticky (sample_entry St_Dead False)" "?b \<in> set three"
    "distinct (map ep_key three @ map fst ([]::(string \<times> string) list))"
    by (simp_all add: sample_entry_def checkable_def new_entry_def new_state_def three_def)
  from restart_keeps_state [OF sample_monitor_ok e this, of minute] show ?thesis
    by (auto simp: sample_entry_def new_entry_def new_state_def simp del: map_of_eq_Some_iff)
qed

end
