(* ===== verification/Watch_Base.thy ===== *)
theory Watch_Base
  imports Pending_Restore Walk_Order Endpoint Subops Monitor_Entry "HOL-Library.State_Monad"
begin

text \<open>
  What the handlers of the subscription watch (\<^verbatim>\<open>subwatch/watch.go\<close>, \<^verbatim>\<open>mutation.go\<close>,
  \<^verbatim>\<open>return.go\<close>, \<^verbatim>\<open>fast.go\<close>) stand on: the record of the watch, the bookkeeping of a
  failure, of the returns and of the keeper, and the world a handler works on.

  A handler is a computation on the world: the configuration file, the subscription files, the record of
  the watch and the calls made so far. What a call answers - the marker of a stop, the lock, the script,
  the platform, the monitor, a download, the clock - comes from \<open>outside\<close>, which the n-th call asks with
  \<open>n\<close>, so nothing is assumed of it: two calls in a row may answer differently, and others may have
  written the files before each read and each lock. The hooks of the watch are taken to be set, as the
  daemon sets them; the logging and the status the Web UI shows are left out.
\<close>

section \<open>Constants\<close>

definition dead_after :: int where "dead_after = 3 * minute"
definition import_retry :: int where "import_retry = 5 * minute"
definition import_retry_max :: int where "import_retry_max = 30 * minute"
definition fast_dead_after :: int where "fast_dead_after = minute"
definition fallback_check :: int where "fallback_check = minute"
definition fallback_down_after :: int where "fallback_down_after = minute"
definition return_check :: int where "return_check = 5 * minute"
definition return_retry :: int where "return_retry = 10 * minute"
definition return_retry_max :: int where "return_retry_max = 30 * minute"
definition return_hold :: int where "return_hold = 30 * minute"
definition return_fails_max :: int where "return_fails_max = 4"
definition return_alive :: int where "return_alive = 5 * minute"
definition keeper_retry :: int where "keeper_retry = 10 * minute"
definition keeper_retry_max :: int where "keeper_retry_max = 30 * minute"
definition fast_candidates :: nat where "fast_candidates = 3"

lemmas watch_waits = dead_after_def import_retry_def import_retry_max_def fast_dead_after_def fallback_check_def
  fallback_down_after_def return_check_def return_retry_def return_retry_max_def return_hold_def return_alive_def keeper_retry_def keeper_retry_max_def duration_units

section \<open>The record of the watch\<close>

datatype note_kind =
    Note_None | Note_Moved | Note_No_Tunnel | Note_Fallback_Not_Ready | Note_Refresh_Failed | Note_No_Live
  | Note_Restored | Note_Returned

text \<open>
  Why an operation ended: the three refusals of a mutation, a newer selection, a proof of the fast path
  that no longer holds, a subscription that is gone, the two ends of a pending restore, anything else.
\<close>

datatype watch_error =
    Err_Stopped | Err_Incompatible | Err_Ended | Err_Superseded | Err_Evidence | Err_Gone
  | Err_Needs_Apply | Err_Restore_Apply | Err_Config | Err_Other

text \<open>
  The guard of a fallback that the fast path started: its ownership, with the proof of the death where
  the flag is set. A refusal of it stays.
\<close>

datatype outbound_guard = No_Guard | Guarded bool | Guard_Refused watch_error

text \<open>\<^verbatim>\<open>fastChoice\<close> and \<^verbatim>\<open>fastSelection\<close>: what an attempt of the fast path owns.\<close>

record fast_choice =
  fc_server :: server
  fc_key :: string
  fc_evidence :: evidence

record fast_selection =
  fs_expected :: active_server
  fs_active :: server
  fs_active_keys :: "string list"
  fs_links :: "string \<rightharpoonup> string"
  fs_ports :: "(int \<times> int) option"
  fs_evidence :: evidence
  fs_proof :: bool
  fs_refreshed :: bool
  fs_fallback :: "fast_choice list"
  fs_last :: "fast_choice option"
  fs_recorded :: "server option"

record watch =
  wa_fail_since :: int
  wa_fail_seq :: int
  wa_own_seq :: int
  wa_failed_probes :: int
  wa_down_checks :: int
  wa_last_import :: int
  wa_import_retry :: int
  wa_route_kind :: note_kind
  wa_import_kind :: note_kind
  wa_pending_apply :: bool
  wa_pending_restore :: "pending_restore option"
  wa_reconciled :: bool
  wa_no_tunnel_check :: int
  wa_tproxy_fail :: int
  wa_fallback_fail :: int
  wa_fallback_tried :: "string list"
  wa_fallback_hold :: int
  wa_fallback_hold_until :: int
  wa_fallback_check :: int
  wa_fallback_down_since :: int
  wa_return_not_before :: int
  wa_return_retry :: int
  wa_return_fails :: int
  wa_last_return :: int
  wa_return_seq :: int
  wa_return_group :: string
  wa_return_death :: int
  wa_selected_seq :: int
  wa_ended :: "watch_error option"
  wa_mutation_failed :: bool
  wa_outbound :: outbound_guard
  wa_fast :: "fast_selection option"
  wa_probe_ok_at :: int
  wa_probe_ok_active :: string
  wa_probe_ok_mark :: string
  wa_last_picked :: "server option"
  wa_keeper_not_before :: int
  wa_keeper_retry :: int
  wa_keeper_noted :: bool

text \<open>A watch that has just started.\<close>

definition new_watch :: watch where
  "new_watch =
     \<lparr>wa_fail_since = zero_time, wa_fail_seq = 0, wa_own_seq = 0, wa_failed_probes = 0, wa_down_checks = 0,
      wa_last_import = zero_time, wa_import_retry = 0, wa_route_kind = Note_None, wa_import_kind = Note_None,
      wa_pending_apply = False, wa_pending_restore = None, wa_reconciled = False, wa_no_tunnel_check = zero_time,
      wa_tproxy_fail = zero_time, wa_fallback_fail = zero_time, wa_fallback_tried = [], wa_fallback_hold = 0,
      wa_fallback_hold_until = zero_time, wa_fallback_check = zero_time, wa_fallback_down_since = zero_time,
      wa_return_not_before = zero_time, wa_return_retry = 0, wa_return_fails = 0, wa_last_return = zero_time,
      wa_return_seq = 0, wa_return_group = [], wa_return_death = zero_time, wa_selected_seq = 0,
      wa_ended = None, wa_mutation_failed = False, wa_outbound = No_Guard, wa_fast = None,
      wa_probe_ok_at = zero_time, wa_probe_ok_active = [], wa_probe_ok_mark = [], wa_last_picked = None,
      wa_keeper_not_before = zero_time, wa_keeper_retry = 0, wa_keeper_noted = False\<rparr>"

section \<open>A failure\<close>

definition reset_fail :: "watch \<Rightarrow> watch" where
  "reset_fail wa = wa\<lparr>wa_fail_since := zero_time, wa_failed_probes := 0, wa_down_checks := 0\<rparr>"

definition missed :: "vpn_config \<Rightarrow> int \<Rightarrow> watch \<Rightarrow> watch" where
  "missed cfg now wa =
     (let seq = active_seq (x_active (cfg_xray cfg));
          wa1 = (if wa_fail_since wa \<noteq> zero_time \<and> seq \<noteq> wa_fail_seq wa \<and> seq \<noteq> wa_own_seq wa
                 then reset_fail wa else wa);
          wa2 = (if wa_fail_since wa1 = zero_time then wa1\<lparr>wa_fail_since := now, wa_fail_seq := seq\<rparr> else wa1)
      in wa2\<lparr>wa_failed_probes := wa_failed_probes wa2 + 1\<rparr>)"

definition dead_reason :: "int \<Rightarrow> watch \<Rightarrow> string" where
  "dead_reason now wa =
     (let failing = sub_time now (wa_fail_since wa) in
      if fast_dead_after \<le> failing \<and> 2 \<le> wa_down_checks wa then ''unreachable''
      else if dead_after \<le> failing then ''probe'' else [])"

definition settled :: "int \<Rightarrow> watch \<Rightarrow> watch" where
  "settled now wa =
     (let wa1 = (reset_fail wa)\<lparr>wa_last_import := zero_time, wa_import_retry := 0\<rparr> in
      if wa_return_not_before wa1 < now + return_check then wa1\<lparr>wa_return_not_before := now + return_check\<rparr> else wa1)"

definition reset_fallback_state :: "watch \<Rightarrow> watch" where
  "reset_fallback_state wa =
     wa\<lparr>wa_fallback_fail := zero_time, wa_fallback_tried := [], wa_fallback_hold := 0,
        wa_fallback_hold_until := zero_time, wa_fallback_check := zero_time, wa_fallback_down_since := zero_time\<rparr>"

text \<open>The current wait between two waves of downloads.\<close>

definition import_interval :: "watch \<Rightarrow> int" where
  "import_interval wa = (if wa_import_retry wa \<noteq> 0 then wa_import_retry wa else import_retry)"

section \<open>The returns\<close>

definition back_off_return :: "int \<Rightarrow> watch \<Rightarrow> watch" where
  "back_off_return now wa =
     (let retry = (if wa_return_retry wa = 0 then return_retry else min (2 * wa_return_retry wa) return_retry_max) in
      wa\<lparr>wa_return_fails := wa_return_fails wa + 1, wa_return_retry := retry, wa_return_not_before := now + retry\<rparr>)"

definition return_after_death :: "int \<Rightarrow> watch \<Rightarrow> watch" where
  "return_after_death now wa =
     (let wa1 = (if wa_last_return wa = zero_time \<or> wa_fail_seq wa \<noteq> wa_return_seq wa then wa
                 else if sub_time (wa_fail_since wa) (wa_last_return wa) < return_hold then back_off_return now wa
                 else wa\<lparr>wa_return_retry := 0, wa_return_fails := 0, wa_return_not_before := zero_time\<rparr>)
      in wa1\<lparr>wa_last_return := zero_time\<rparr>)"

text \<open>\<open>landedOnChoice\<close>, on the configuration it is given or reads.\<close>

definition landed_on_choice :: "vpn_config option \<Rightarrow> int \<Rightarrow> int \<Rightarrow> watch \<Rightarrow> watch" where
  "landed_on_choice cfg seq now wa =
     (if wa_last_return wa \<noteq> zero_time \<or> wa_return_fails wa = 0 then wa
      else case cfg of
        None \<Rightarrow> wa
      | Some c \<Rightarrow>
          if x_preferred (cfg_xray c) \<noteq> None \<or> x_active (cfg_xray c) = None \<or> active_seq (x_active (cfg_xray c)) \<noteq> seq then wa
          else wa\<lparr>wa_last_return := now, wa_return_seq := seq, wa_return_group := []\<rparr>)"

definition note_selection :: "vpn_config \<Rightarrow> watch \<Rightarrow> watch" where
  "note_selection cfg wa =
     (let seq = active_seq (x_active (cfg_xray cfg)) in
      if seq = wa_own_seq wa \<or> seq = wa_selected_seq wa then wa
      else wa\<lparr>wa_selected_seq := seq, wa_return_fails := 0, wa_return_retry := 0,
              wa_return_not_before := zero_time, wa_last_return := zero_time\<rparr>)"

section \<open>The keeper\<close>

definition reset_keeper :: "watch \<Rightarrow> watch" where
  "reset_keeper wa = wa\<lparr>wa_keeper_retry := 0, wa_keeper_not_before := zero_time, wa_keeper_noted := False\<rparr>"

definition keeper_back_off :: "int \<Rightarrow> watch \<Rightarrow> watch" where
  "keeper_back_off now wa =
     (let retry = (if wa_keeper_retry wa = 0 then keeper_retry else min (2 * wa_keeper_retry wa) keeper_retry_max) in
      wa\<lparr>wa_keeper_retry := retry, wa_keeper_not_before := now + retry\<rparr>)"

section \<open>The world\<close>

record platform_info =
  pf_merlin :: bool
  pf_tunnels :: "platform_tunnel list"

text \<open>How a call fails: on a configuration or a file it cannot use, or otherwise.\<close>

datatype call_fault = Fault_Config | Fault_Other

definition fault_error :: "call_fault \<Rightarrow> watch_error" where
  "fault_error f = (case f of Fault_Config \<Rightarrow> Err_Config | Fault_Other \<Rightarrow> Err_Other)"

record outside =
  ou_refuses :: "nat \<Rightarrow> watch_error option"
  ou_cancels :: "nat \<Rightarrow> watch_error option"
  ou_others :: "nat \<Rightarrow> vpn_config \<Rightarrow> vpn_config"
  ou_edits :: "nat \<Rightarrow> subscription list \<Rightarrow> subscription list"
  ou_lock :: "nat \<Rightarrow> bool"
  ou_save :: "nat \<Rightarrow> bool"
  ou_read :: "nat \<Rightarrow> bool"
  ou_read_lists :: "nat \<Rightarrow> bool"
  ou_save_list :: "nat \<Rightarrow> bool"
  ou_apply :: "nat \<Rightarrow> bool"
  ou_build :: "nat \<Rightarrow> call_fault option"
  ou_publish :: "nat \<Rightarrow> call_fault option"
  ou_restart :: "nat \<Rightarrow> call_fault option"
  ou_ready :: "nat \<Rightarrow> string \<Rightarrow> bool"
  ou_tproxy :: "nat \<Rightarrow> bool"
  ou_platform :: "nat \<Rightarrow> platform_info option"
  ou_now :: "nat \<Rightarrow> int"
  ou_probe :: "nat \<Rightarrow> bool"
  ou_evidence :: "nat \<Rightarrow> evidence"
  ou_check :: "nat \<Rightarrow> string list \<Rightarrow> evidence option"
  ou_valid :: "nat \<Rightarrow> evidence \<Rightarrow> string list \<Rightarrow> bool"
  ou_wan :: "nat \<Rightarrow> bool"
  ou_reach :: "nat \<Rightarrow> string \<Rightarrow> int \<Rightarrow> bool"
  ou_fetch :: "nat \<Rightarrow> string \<Rightarrow> string + server list"

text \<open>
  The deeds of the watch, the latest first, for the properties on their order: an apply with its outcome,
  what the two readiness markers said, a write of the configuration, a message; and of a switch the
  server whose \<^verbatim>\<open>config.json\<close> replaced the live one, with the record the file had then, the record
  that was saved, the restart of Xray and the probe.
\<close>

datatype routes_write =
    W_Stage | W_Extend | W_Commit | W_Retarget | W_Ensure | W_Begin | W_Unstage | W_Reinstate | W_Other

datatype deed =
    Applied bool | Ready_Said bool | Tproxy_Said bool | Wrote routes_write | Told note_kind string
  | Published "active_server option" server | Recorded active_server | Restarted bool | Probed bool

record world =
  wd_outside :: outside
  wd_calls :: nat
  wd_file :: vpn_config
  wd_subs :: "subscription list"
  wd_watch :: watch
  wd_deeds :: "deed list"

type_synonym 'a act = "(world, 'a) state"

definition ask :: "(outside \<Rightarrow> nat \<Rightarrow> 'a) \<Rightarrow> 'a act" where
  "ask f = State (\<lambda>w. (f (wd_outside w) (wd_calls w), w\<lparr>wd_calls := wd_calls w + 1\<rparr>))"

definition the_watch :: "watch act" where
  "the_watch = State (\<lambda>w. (wd_watch w, w))"

definition the_file :: "vpn_config act" where
  "the_file = State (\<lambda>w. (wd_file w, w))"

definition the_subs :: "subscription list act" where
  "the_subs = State (\<lambda>w. (wd_subs w, w))"

definition upd_watch :: "(watch \<Rightarrow> watch) \<Rightarrow> unit act" where
  "upd_watch f = State (\<lambda>w. ((), w\<lparr>wd_watch := f (wd_watch w)\<rparr>))"

definition set_subs :: "subscription list \<Rightarrow> unit act" where
  "set_subs subs = State (\<lambda>w. ((), w\<lparr>wd_subs := subs\<rparr>))"

definition did :: "deed \<Rightarrow> unit act" where
  "did d = State (\<lambda>w. ((), w\<lparr>wd_deeds := d # wd_deeds w\<rparr>))"

definition write_file :: "routes_write \<Rightarrow> vpn_config \<Rightarrow> unit act" where
  "write_file d cfg = State (\<lambda>w. ((), w\<lparr>wd_file := cfg, wd_deeds := Wrote d # wd_deeds w\<rparr>))"

text \<open>What others wrote before the configuration, or the lists, are read.\<close>

definition others_write :: "unit act" where
  "others_write =
     State (\<lambda>w. ((), w\<lparr>wd_file := ou_others (wd_outside w) (wd_calls w) (wd_file w), wd_calls := wd_calls w + 1\<rparr>))"

definition others_edit :: "unit act" where
  "others_edit =
     State (\<lambda>w. ((), w\<lparr>wd_subs := ou_edits (wd_outside w) (wd_calls w) (wd_subs w), wd_calls := wd_calls w + 1\<rparr>))"

text \<open>The rest of an operation, unless it failed.\<close>

definition attempt :: "(watch_error + 'a) act \<Rightarrow> ('a \<Rightarrow> (watch_error + 'b) act) \<Rightarrow> (watch_error + 'b) act" where
  "attempt c f = do { r \<leftarrow> c; case r of Inl e \<Rightarrow> State_Monad.return (Inl e) | Inr a \<Rightarrow> f a }"

text \<open>A check that passes or fails with \<open>e\<close>.\<close>

definition require :: "watch_error \<Rightarrow> bool \<Rightarrow> (watch_error + unit) act" where
  "require e b = State_Monad.return (if b then Inr () else Inl e)"

end
