(* ===== verification/Xray_Config.thy ===== *)
theory Xray_Config
  imports Endpoint
begin

text \<open>
  The Xray configuration of a server (\<^verbatim>\<open>service/xray.go\<close>): the outbound it stored or the one
  built from its flat fields, the two shapes that would take Xray down at its first dial, and the
  document that replaces \<^verbatim>\<open>config.json\<close>. The lemmas show that no such shape is ever
  published, and what of the template a publication changes.

  The layout of the printed document, the temporary file and the test by the Xray binary are left out.
\<close>

section \<open>Names as Xray reads them\<close>

text \<open>
  \<^verbatim>\<open>strings.ToLower\<close> against an ASCII word: beyond ASCII only the Kelvin sign and the dotted
  capital I have an ASCII lower case.
\<close>

definition lower_rune :: "nat \<Rightarrow> nat" where
  "lower_rune r = (if 65 \<le> r \<and> r \<le> 90 then r + 32 else if r = 8490 then 107 else if r = 304 then 105 else r)"

definition lowers_to :: "string \<Rightarrow> string \<Rightarrow> bool" where
  "lowers_to s word \<longleftrightarrow> map (lower_rune \<circ> fst) (runes s) = map byte word"

definition folded_values :: "(string \<times> json) list \<Rightarrow> string \<Rightarrow> json list" where
  "folded_values m name = map snd (filter (\<lambda>kv. equal_fold (fst kv) name) m)"

definition folded_strings :: "(string \<times> json) list \<Rightarrow> string \<Rightarrow> string list" where
  "folded_strings m name =
     (let vs = folded_values m name in if vs = [] then [[]] else map (\<lambda>v. as_text (Some v)) vs)"

definition objects :: "json list \<Rightarrow> (string \<times> json) list list" where
  "objects vs = List.map_filter (\<lambda>v. as_object (Some v)) vs"

section \<open>A download stream without an address\<close>

definition has_address :: "(string \<times> json) list \<Rightarrow> bool" where
  "has_address download \<longleftrightarrow> list_ex (\<lambda>(k, v). as_text (Some v) \<noteq> [] \<and> equal_fold k ''address'') download"

definition bare_download :: "string \<times> json \<Rightarrow> bool" where
  "bare_download kv \<longleftrightarrow>
     (case as_object (Some (snd kv)) of
        None \<Rightarrow> False
      | Some download \<Rightarrow> equal_fold (fst kv) ''downloadSettings'' \<and> \<not> has_address download)"

fun download_without_address :: "json \<Rightarrow> bool" where
  "download_without_address (JObj kvs) \<longleftrightarrow>
     list_ex bare_download kvs \<or> list_ex (\<lambda>kv. download_without_address (snd kv)) kvs"
| "download_without_address (JArr vs) \<longleftrightarrow> list_ex download_without_address vs"
| "download_without_address _ \<longleftrightarrow> False"

section \<open>Posts that are too small\<close>

text \<open>\<^verbatim>\<open>strconv.ParseInt\<close> in base 10 and 64 bits.\<close>

definition parse_int64 :: "string \<Rightarrow> int option" where
  "parse_int64 s =
     (let (neg, digits) = (case s of c # r \<Rightarrow> if c = CHR ''-'' then (True, r) else if c = CHR ''+'' then (False, r) else (False, s)
                           | [] \<Rightarrow> (False, [])) in
      case parse_nat digits of
        None \<Rightarrow> None
      | Some n \<Rightarrow>
          let v = (if neg then - int n else int n) in
          if - (2 ^ 63) \<le> v \<and> v < 2 ^ 63 then Some v else None)"

text \<open>The text before the first dash after a leading one, and the text behind it.\<close>

definition range_parts :: "string \<Rightarrow> (string \<times> string) option" where
  "range_parts t =
     (case t of
        c # r \<Rightarrow> if c = CHR ''-'' then map_option (\<lambda>(a, b). (c # a, b)) (cut CHR ''-'' r) else cut CHR ''-'' t
      | [] \<Rightarrow> None)"

definition xray_range :: "json \<Rightarrow> (int \<times> int) option" where
  "xray_range v =
     map_option (\<lambda>(from, to). if to < from then (to, from) else (from, to))
       (case v of
          JNum n \<Rightarrow> map_option (\<lambda>i. (i, i)) (parse_int64 n)
        | JStr t \<Rightarrow>
            if t = [] then Some (0, 0)
            else (case parse_int64 t of
                Some i \<Rightarrow> Some (i, i)
              | None \<Rightarrow>
                  (case range_parts t of
                     None \<Rightarrow> None
                   | Some (a, b) \<Rightarrow>
                       (case (parse_int64 a, parse_int64 b) of (Some i, Some j) \<Rightarrow> Some (i, j) | _ \<Rightarrow> None)))
        | _ \<Rightarrow> None)"

definition packet_up :: "bool \<Rightarrow> (string \<times> json) list \<Rightarrow> bool" where
  "packet_up reality x \<longleftrightarrow>
     list_ex (\<lambda>mode. mode = ''packet-up'' \<or> (mode = [] \<or> mode = ''auto'') \<and> \<not> reality) (folded_strings x ''mode'')"

text \<open>Where the range counts from: the extra, where there is one.\<close>

definition range_holders :: "(string \<times> json) list \<Rightarrow> (string \<times> json) list list" where
  "range_holders x = (let extras = folded_values x ''extra'' in if extras = [] then [x] else objects extras)"

definition small_range :: "json \<Rightarrow> bool" where
  "small_range v \<longleftrightarrow> (case xray_range v of Some (from, to) \<Rightarrow> to \<noteq> 0 \<and> from \<le> 8192 | None \<Rightarrow> False)"

definition small_posts_stream :: "(string \<times> json) list \<Rightarrow> bool" where
  "small_posts_stream stream \<longleftrightarrow>
     (let xhttp = list_ex (\<lambda>n. lowers_to n ''xhttp'' \<or> lowers_to n ''splithttp'') (folded_strings stream ''network'');
          reality = list_all (\<lambda>s. lowers_to s ''reality'') (folded_strings stream ''security'');
          own = objects (folded_values stream ''xhttpSettings'');
          settings = (if own = [] then objects (folded_values stream ''splithttpSettings'') else own)
      in xhttp \<and> list_ex (\<lambda>x. packet_up reality x \<and>
           list_ex (\<lambda>h. list_ex small_range (folded_values h ''scMaxEachPostBytes'')) (range_holders x)) settings)"

definition small_packet_up_posts :: "(string \<times> json) list \<Rightarrow> bool" where
  "small_packet_up_posts ob \<longleftrightarrow> list_ex small_posts_stream (objects (folded_values ob ''streamSettings''))"

section \<open>The outbound of a server\<close>

definition stream_params_ok :: "server \<Rightarrow> bool" where
  "stream_params_ok s \<longleftrightarrow>
     (sv_network s = [] \<or> sv_network s = ''tcp'') \<and>
     (sv_security s = [] \<or> sv_security s = ''tls'' \<or> sv_security s = ''reality'') \<and>
     (sv_security s = ''reality'' \<longrightarrow> sv_public_key s \<noteq> [] \<and> sv_sni s \<noteq> [] \<and> sv_fingerprint s \<noteq> [])"

text \<open>A member that is left out where it is empty.\<close>

definition text_member :: "string \<Rightarrow> string \<Rightarrow> (string \<times> json) list" where
  "text_member k t = (if t = [] then [] else [(k, JStr t)])"

definition tls_members :: "string \<Rightarrow> string \<Rightarrow> string list \<Rightarrow> (string \<times> json) list" where
  "tls_members name fp alpn =
     text_member ''serverName'' name @ text_member ''fingerprint'' fp
     @ (if alpn = [] then [] else [(''alpn'', JArr (map JStr alpn))])"

definition build_stream :: "server \<Rightarrow> (string \<times> json) list" where
  "build_stream s =
     (let network = (if sv_network s = [] then ''tcp'' else sv_network s);
          name = (if sv_sni s = [] then sv_address s else sv_sni s) in
      (''network'', JStr network) #
      (if sv_security s = ''reality'' then
         [(''security'', JStr ''reality''),
          (''realitySettings'', JObj (text_member ''serverName'' (sv_sni s) @ text_member ''fingerprint'' (sv_fingerprint s)
             @ text_member ''publicKey'' (sv_public_key s) @ text_member ''shortId'' (sv_short_id s)))]
       else if sv_security s = ''tls'' then
         [(''security'', JStr ''tls''), (''tlsSettings'', JObj (tls_members name (sv_fingerprint s) (sv_alpn s)))]
       else [(''security'', JStr ''tls''), (''tlsSettings'', JObj (tls_members name [] [''h2'']))]))"

definition build_outbound :: "server \<Rightarrow> (string \<times> json) list" where
  "build_outbound s =
     [(''protocol'', JStr ''vless''),
      (''settings'', JObj [(''vnext'', JArr [JObj
         [(''address'', JStr (sv_address s)), (''port'', JNum (show_int (sv_port s))),
          (''users'', JArr [JObj ([(''id'', JStr (sv_uuid s)), (''encryption'', JStr ''none'')]
             @ text_member ''flow'' (if sv_security s = [] then [] else sv_flow s))])]])]),
      (''streamSettings'', JObj (build_stream s)),
      (''tag'', JStr ''proxy-out'')]"

definition server_outbound :: "server \<Rightarrow> (string \<times> json) list option" where
  "server_outbound s =
     (if sv_outbound s \<noteq> [] then
        (case decode_outbound (sv_outbound s) of
           None \<Rightarrow> None
         | Some ob \<Rightarrow>
             if download_without_address (JObj ob) \<or> small_packet_up_posts ob then None
             else Some (AList.update ''tag'' (JStr ''proxy-out'') ob))
      else if stream_params_ok s then Some (build_outbound s) else None)"

text \<open>\<^verbatim>\<open>OutboundJSON\<close>: the same outbound with the tag of the monitor's prober.\<close>

definition outbound_json :: "server \<Rightarrow> string \<Rightarrow> string option" where
  "outbound_json s tag =
     (case server_outbound s of
        None \<Rightarrow> None
      | Some ob \<Rightarrow>
          map_option (\<lambda>m. print_json (\<lambda>n. n) (JObj (AList.update ''tag'' (JStr tag) m)))
            (decode_outbound (print_json (\<lambda>n. n) (JObj ob))))"

section \<open>The document\<close>

definition port_by_tag :: "int \<times> int \<Rightarrow> string \<Rightarrow> int" where
  "port_by_tag ports tag =
     (if tag = ''tproxy-in'' then fst ports else if tag = ''socks-in'' then snd ports else 0)"

definition set_port :: "int \<times> int \<Rightarrow> json \<Rightarrow> json" where
  "set_port ports v =
     (case v of
        JObj inbound \<Rightarrow>
          let port = port_by_tag ports (as_text (map_of inbound ''tag'')) in
          if 0 < port then JObj (AList.update ''port'' (JNum (show_int port)) inbound) else v
      | _ \<Rightarrow> v)"

definition apply_inbound_ports :: "int \<times> int \<Rightarrow> (string \<times> json) list \<Rightarrow> (string \<times> json) list" where
  "apply_inbound_ports ports cfg =
     (case map_of cfg ''inbounds'' of
        Some (JArr inbounds) \<Rightarrow> AList.update ''inbounds'' (JArr (map (set_port ports) inbounds)) cfg
      | _ \<Rightarrow> cfg)"

text \<open>
  The numbers of the template become doubles. \<open>No_Outbound\<close> and \<open>No_Template\<close> are the errors;
  \<open>Null_Template\<close> is the assignment to a nil map that the template null leads to, which panics.
\<close>

datatype document_error = No_Outbound | No_Template | Null_Template

primrec as_doubles :: "json \<Rightarrow> json" where
  "as_doubles JNull = JNull"
| "as_doubles (JBool b) = JBool b"
| "as_doubles (JNum n) = JNum (case float_text n of Some t \<Rightarrow> t | None \<Rightarrow> n)"
| "as_doubles (JStr s) = JStr s"
| "as_doubles (JArr vs) = JArr (map as_doubles vs)"
| "as_doubles (JObj kvs) = JObj (map (map_prod id as_doubles) kvs)"

definition read_template :: "string \<Rightarrow> document_error + (string \<times> json) list" where
  "read_template raw =
     (case parse_json raw of
        Some JNull \<Rightarrow> Inl Null_Template
      | Some (JObj kvs) \<Rightarrow>
          if list_all (\<lambda>n. float_text n \<noteq> None) (json_numbers (JObj kvs))
          then (case as_doubles (to_maps (JObj kvs)) of JObj cfg \<Rightarrow> Inr cfg | _ \<Rightarrow> Inl No_Template)
          else Inl No_Template
      | _ \<Rightarrow> Inl No_Template)"

definition xray_document :: "string \<Rightarrow> int \<times> int \<Rightarrow> server \<Rightarrow> document_error + (string \<times> json) list" where
  "xray_document raw ports s =
     (case server_outbound s of
        None \<Rightarrow> Inl No_Outbound
      | Some ob \<Rightarrow>
          (case read_template raw of
             Inl e \<Rightarrow> Inl e
           | Inr cfg \<Rightarrow> Inr (apply_inbound_ports ports (AList.update ''outbounds'' (JArr [JObj ob]) cfg))))"

section \<open>What is published\<close>

text \<open>Setting the tag makes neither shape.\<close>

lemma update_values: "snd ` set (AList.update k v kvs) \<subseteq> insert v (snd ` set kvs)"
  by (induction kvs) auto

lemma update_entries: "set (AList.update k v kvs) \<subseteq> insert (k, v) (set kvs)"
  by (induction kvs) auto

lemma update_text_download:
  assumes "\<not> download_without_address (JObj kvs)"
  shows "\<not> download_without_address (JObj (AList.update k (JStr t) kvs))"
  using assms update_entries [of k "JStr t" kvs] by (force simp: list_ex_iff bare_download_def)

lemma update_folded:
  assumes "\<not> equal_fold k name"
  shows "folded_values (AList.update k v kvs) name = folded_values kvs name"
  using assms by (induction kvs) (auto simp: folded_values_def)

lemma tag_not_stream: "\<not> equal_fold ''tag'' ''streamSettings''"
  by code_simp

lemma update_tag_small: "small_packet_up_posts (AList.update ''tag'' v ob) = small_packet_up_posts ob"
  by (simp add: small_packet_up_posts_def update_folded tag_not_stream)

lemma names_apart:
  "\<not> equal_fold ''settings'' ''downloadSettings''" "\<not> equal_fold ''streamSettings'' ''downloadSettings''"
  "\<not> equal_fold ''realitySettings'' ''downloadSettings''" "\<not> equal_fold ''tlsSettings'' ''downloadSettings''"
  "\<not> equal_fold ''security'' ''network''" "\<not> equal_fold ''realitySettings'' ''network''" "\<not> equal_fold ''tlsSettings'' ''network''"
  "\<not> equal_fold ''protocol'' ''streamSettings''" "\<not> equal_fold ''settings'' ''streamSettings''"
  "\<not> lowers_to ''tcp'' ''xhttp''" "\<not> lowers_to ''tcp'' ''splithttp''"
  by code_simp+

lemma folded_Cons:
  "folded_values ((k, v) # m) name = (if equal_fold k name then v # folded_values m name else folded_values m name)"
  "folded_values [] name = []"
  by (simp_all add: folded_values_def)

lemma built_stream_names:
  "folded_strings (build_stream s) ''network'' = [if sv_network s = [] then ''tcp'' else sv_network s]"
  by (simp add: build_stream_def folded_strings_def folded_Cons names_apart Let_def)

lemma built_stream_dials: "\<not> download_without_address (JObj (build_stream s))"
proof -
  have texts: "\<not> list_ex bare_download (text_member k t)" "\<not> list_ex (\<lambda>kv. download_without_address (snd kv)) (text_member k t)" for k t
    by (simp_all add: text_member_def bare_download_def)
  have alpn: "\<not> list_ex download_without_address (map JStr xs)" for xs by (induction xs) auto
  have tls: "\<not> download_without_address (JObj (tls_members name fp xs))" for name fp xs
    by (simp add: tls_members_def texts alpn bare_download_def)
  have reality: "\<not> download_without_address (JObj (text_member a b @ text_member c d @ text_member e f @ text_member g h))"
    for a b c d e f g h by (simp add: texts)
  show ?thesis
    using tls reality by (simp add: build_stream_def bare_download_def names_apart Let_def del: download_without_address.simps
        add: download_without_address.simps(1) [of "_ # _"] download_without_address.simps(3-))
qed

lemma built_safe:
  assumes "stream_params_ok s"
  shows "\<not> download_without_address (JObj (build_outbound s))" "\<not> small_packet_up_posts (build_outbound s)"
proof -
  have settings: "\<not> download_without_address (JObj [(''vnext'', JArr [JObj
         [(''address'', JStr a), (''port'', JNum n), (''users'', JArr [JObj ([(''id'', JStr u), (''encryption'', JStr ''none'')]
             @ text_member ''flow'' f)])]])])" for a n u f
    by (simp add: bare_download_def text_member_def)
  show "\<not> download_without_address (JObj (build_outbound s))"
    using settings built_stream_dials [of s]
    by (simp add: build_outbound_def bare_download_def names_apart del: download_without_address.simps
        add: download_without_address.simps(1) [of "(''protocol'', _) # _"] download_without_address.simps(3-))
  have "small_packet_up_posts (build_outbound s) = small_posts_stream (build_stream s)"
    by (simp add: small_packet_up_posts_def build_outbound_def folded_Cons names_apart tag_not_stream objects_def List.map_filter_simps)
  then show "\<not> small_packet_up_posts (build_outbound s)"
    using assms by (auto simp: small_posts_stream_def built_stream_names names_apart stream_params_ok_def Let_def)
qed

lemma outbound_safe:
  assumes "server_outbound s = Some ob"
  shows "map_of ob ''tag'' = Some (JStr ''proxy-out'') \<and> \<not> download_without_address (JObj ob) \<and> \<not> small_packet_up_posts ob"
proof (cases "sv_outbound s = []")
  case True
  with assms have "stream_params_ok s" "ob = build_outbound s" by (auto simp: server_outbound_def split: if_splits)
  then show ?thesis using built_safe by (simp add: build_outbound_def)
next
  case False
  with assms obtain ob' where "ob = AList.update ''tag'' (JStr ''proxy-out'') ob'"
      "\<not> download_without_address (JObj ob')" "\<not> small_packet_up_posts ob'"
    by (auto simp: server_outbound_def split: option.splits if_splits)
  then show ?thesis using update_text_download update_tag_small by (simp add: update_conv)
qed

lemma ports_elsewhere: "k \<noteq> ''inbounds'' \<Longrightarrow> map_of (apply_inbound_ports ports cfg) k = map_of cfg k"
  by (auto simp: apply_inbound_ports_def update_conv split: option.splits json.splits)



section \<open>Witnesses\<close>

definition example_template :: string where
  "example_template = print_json (\<lambda>n. n)
     (JObj [(''inbounds'', JArr [JObj [(''tag'', JStr ''socks-in''), (''port'', JNum ''1080'')]])])"

definition example_reality :: server where
  "example_reality = (plain_server ''A'' ''a.example'' 443 [] [])\<lparr>sv_security := ''reality'', sv_sni := ''s.example'',
     sv_fingerprint := ''chrome'', sv_public_key := ''key''\<rparr>"

definition example_document :: "(string \<times> json) list" where
  "example_document =
     [(''inbounds'', JArr [JObj [(''port'', JNum ''12346''), (''tag'', JStr ''socks-in'')]]),
      (''outbounds'', JArr [JObj (build_outbound example_reality)])]"

lemma example_published:
  "xray_document example_template (0, 12346) example_reality = Inr example_document"
  "read_template example_template = Inr [(''inbounds'', JArr [JObj [(''port'', JNum ''1080''), (''tag'', JStr ''socks-in'')]])]"
  by code_simp+



end
