(* ===== verification/Watch_Calls.thy ===== *)
theory Watch_Calls
  imports Watch_Base Xray_Config
begin

text \<open>
  The calls of the watch (\<^verbatim>\<open>subwatch/watch.go\<close>, \<^verbatim>\<open>mutation.go\<close>, \<^verbatim>\<open>fast.go\<close>): the
  permission to act, what an attempt of the fast path owns and still has to hold, the locked write of the
  configuration, the apply and the restart, and the messages.
\<close>

section \<open>The permission\<close>

text \<open>\<open>mutationAllowed\<close>: a refusal ends the context of the tick, and an ended context refuses from then on.\<close>

definition end_context :: "watch_error \<Rightarrow> watch \<Rightarrow> watch" where
  "end_context e wa = wa\<lparr>wa_mutation_failed := True, wa_ended := (if wa_ended wa = None then Some e else wa_ended wa)\<rparr>"

definition allowed :: "(watch_error + unit) act" where
  "allowed = do {
     r \<leftarrow> ask ou_refuses;
     wa \<leftarrow> the_watch;
     (case (case r of None \<Rightarrow> wa_ended wa | Some e \<Rightarrow> Some e) of
        None \<Rightarrow> State_Monad.return (Inr ())
      | Some e \<Rightarrow> do { upd_watch (end_context e); State_Monad.return (Inl e) }) }"

text \<open>
  \<open>ctx.Err()\<close>: whether the context has ended, by a refusal, by the poll of \<open>cancelOnStop\<close> or with the
  daemon; an ended context counts as a refusal at the end of the tick.
\<close>

definition context_ended :: "bool act" where
  "context_ended = do {
     r \<leftarrow> ask ou_cancels;
     (case r of None \<Rightarrow> State_Monad.return () | Some e \<Rightarrow> upd_watch (end_context e));
     wa \<leftarrow> the_watch;
     State_Monad.return (wa_ended wa \<noteq> None) }"

section \<open>Reading\<close>

definition load_vpn :: "vpn_config option act" where
  "load_vpn = do {
     others_write;
     ok \<leftarrow> ask ou_read;
     cfg \<leftarrow> the_file;
     State_Monad.return (if ok then Some cfg else None) }"

text \<open>The file as it is read anew, or the one at hand where the read fails.\<close>

definition reload :: "vpn_config \<Rightarrow> vpn_config act" where
  "reload cfg = do { r \<leftarrow> load_vpn; State_Monad.return (case r of Some c \<Rightarrow> c | None \<Rightarrow> cfg) }"

definition load_subs :: "subscription list option act" where
  "load_subs = do {
     others_edit;
     ok \<leftarrow> ask ou_read_lists;
     files \<leftarrow> the_subs;
     State_Monad.return (if ok then Some (load_files files) else None) }"

text \<open>Lists that cannot be read count as one: they may well be there.\<close>

definition subscription_count :: "int act" where
  "subscription_count = do {
     subs \<leftarrow> load_subs;
     State_Monad.return (case subs of None \<Rightarrow> 1 | Some subs \<Rightarrow> int (length subs)) }"

definition time_now :: "int act" where
  "time_now = ask ou_now"

definition valid_evidence :: "evidence \<Rightarrow> string list \<Rightarrow> bool act" where
  "valid_evidence e ks = ask (\<lambda>ou n. ou_valid ou n e ks)"

section \<open>What the fast path owns\<close>

definition exact_fast_server :: "subscription list \<Rightarrow> active_server \<Rightarrow> server option" where
  "exact_fast_server subs a =
     (if as_name a = [] \<or> as_address a = [] \<or> as_port a = 0 then None
      else case find_subscription subs (as_subscription a) of
        None \<Rightarrow> None
      | Some i \<Rightarrow>
          (case recorded_index (Some a) (sub_servers (subs ! i)) of
             None \<Rightarrow> None
           | Some j \<Rightarrow>
               let s = sub_servers (subs ! i) ! j in
               if as_identity a \<noteq> [] \<and> identity_mark s \<noteq> as_identity a then None
               else Some (s\<lparr>sv_subscription := sub_id (subs ! i)\<rparr>)))"

definition fast_candidate_present :: "subscription list \<Rightarrow> server \<Rightarrow> bool" where
  "fast_candidate_present subs s \<longleftrightarrow>
     list_ex (\<lambda>c. server_id c = server_id s \<and> list_ex (\<lambda>d. endpoint_key d = endpoint_key s) (per_address [c])) (all_servers subs)"

definition fast_evidence_status :: "evidence \<Rightarrow> string list \<Rightarrow> status \<Rightarrow> bool" where
  "fast_evidence_status e ks st \<longleftrightarrow>
     ev_state e = Mon_OK \<and> ks \<noteq> [] \<and> list_all (\<lambda>k. map_option ps_status (ev_endpoints e k) = Some st) ks"

definition link_kept :: "subscription list \<Rightarrow> (string \<rightharpoonup> string) \<Rightarrow> string \<Rightarrow> bool" where
  "link_kept subs links sid \<longleftrightarrow>
     (case find_subscription subs sid of None \<Rightarrow> False | Some i \<Rightarrow> links sid = Some (sub_url (subs ! i)))"

text \<open>What the lists still have to hold: the checks of \<^verbatim>\<open>ownership\<close> in their order.\<close>

definition lists_owned :: "fast_selection \<Rightarrow> subscription list \<Rightarrow> watch_error option" where
  "lists_owned f subs =
     (if \<not> list_all (\<lambda>c. fast_candidate_present subs (fc_server c)) (fs_fallback f) then Some Err_Superseded
      else if \<not> list_all (link_kept subs (fs_links f))
          ([sv_subscription (fs_active f), as_subscription (fs_expected f)]
           @ (case fs_last f of None \<Rightarrow> [] | Some c \<Rightarrow> [sv_subscription (fc_server c)])
           @ map (\<lambda>c. sv_subscription (fc_server c)) (fs_fallback f))
      then Some Err_Gone
      else if \<not> fs_refreshed f \<and> exact_fast_server subs (new_active_server (fs_active f)) \<noteq> Some (fs_active f)
      then Some Err_Superseded
      else if (case fs_recorded f of None \<Rightarrow> False | Some s \<Rightarrow> \<not> fast_candidate_present subs s) then Some Err_Superseded
      else if (case fs_last f of None \<Rightarrow> False | Some c \<Rightarrow> \<not> fast_candidate_present subs (fc_server c)) then Some Err_Superseded
      else None)"

definition ownership :: "fast_selection \<Rightarrow> vpn_config \<Rightarrow> (watch_error + unit) act" where
  "ownership f cfg =
     attempt allowed (\<lambda>_.
     attempt (require Err_Superseded (x_active (cfg_xray cfg) = Some (fs_expected f))) (\<lambda>_.
     attempt (require Err_Evidence (case fs_ports f of None \<Rightarrow> True | Some ports \<Rightarrow> xray_inbound_ports cfg = ports)) (\<lambda>_. do {
       subs \<leftarrow> load_subs;
       (case subs of
          None \<Rightarrow> State_Monad.return (Inl Err_Evidence)
        | Some subs \<Rightarrow>
            (case lists_owned f subs of
               Some e \<Rightarrow> State_Monad.return (Inl e)
             | None \<Rightarrow> allowed)) })))"

text \<open>Evidence of a status that is still valid.\<close>

definition proved :: "evidence \<Rightarrow> string list \<Rightarrow> status \<Rightarrow> bool act" where
  "proved e ks st =
     (if \<not> fast_evidence_status e ks st then State_Monad.return False else valid_evidence e ks)"

fun all_dead :: "fast_choice list \<Rightarrow> bool act" where
  "all_dead [] = State_Monad.return True"
| "all_dead (c # cs) = do {
     dead \<leftarrow> proved (fc_evidence c) [fc_key c] St_Dead;
     if dead then all_dead cs else State_Monad.return False }"

definition death_proved :: "fast_selection \<Rightarrow> bool act" where
  "death_proved f =
     (if \<not> fs_proof f then State_Monad.return True
      else do {
        dead \<leftarrow> proved (fs_evidence f) (fs_active_keys f) St_Dead;
        if \<not> dead then State_Monad.return False
        else do {
          last \<leftarrow> (case fs_last f of
             None \<Rightarrow> State_Monad.return True
           | Some c \<Rightarrow> valid_evidence (fc_evidence c) [fc_key c]);
          if last then all_dead (fs_fallback f) else State_Monad.return False } })"

definition fast_guard :: "fast_selection \<Rightarrow> vpn_config \<Rightarrow> (watch_error + unit) act" where
  "fast_guard f cfg =
     attempt (ownership f cfg) (\<lambda>_. do {
       holds \<leftarrow> death_proved f;
       attempt (require Err_Evidence holds) (\<lambda>_. allowed) })"

text \<open>\<open>fastGuardNow\<close>: a guard on the file as it is now.\<close>

definition fast_guard_now :: "(vpn_config \<Rightarrow> (watch_error + unit) act) \<Rightarrow> (watch_error + vpn_config) act" where
  "fast_guard_now g =
     attempt allowed (\<lambda>_. do {
       c \<leftarrow> load_vpn;
       attempt allowed (\<lambda>_.
         (case c of
            None \<Rightarrow> State_Monad.return (Inl Err_Evidence)
          | Some cfg \<Rightarrow> attempt (g cfg) (\<lambda>_. State_Monad.return (Inr cfg)))) })"

text \<open>The guard the fallback carries, for what the watch owns as it is now.\<close>

definition outbound_guard_of :: "bool \<Rightarrow> vpn_config \<Rightarrow> (watch_error + unit) act" where
  "outbound_guard_of with_proof cfg = do {
     wa \<leftarrow> the_watch;
     (case wa_fast wa of
        None \<Rightarrow> State_Monad.return (Inr ())
      | Some f \<Rightarrow> if with_proof then fast_guard f cfg else ownership f cfg) }"

definition refused_by :: "(watch_error + unit) act \<Rightarrow> (watch_error + unit) act" where
  "refused_by c = do {
     r \<leftarrow> c;
     (case r of
        Inr _ \<Rightarrow> State_Monad.return (Inr ())
      | Inl e \<Rightarrow> do { upd_watch (\<lambda>wa. wa\<lparr>wa_outbound := Guard_Refused e\<rparr>); State_Monad.return (Inl e) }) }"

definition outbound_check :: "(bool \<Rightarrow> (watch_error + unit) act) \<Rightarrow> (watch_error + unit) act" where
  "outbound_check ask_guard = do {
     wa \<leftarrow> the_watch;
     (case wa_outbound wa of
        No_Guard \<Rightarrow> State_Monad.return (Inr ())
      | Guard_Refused e \<Rightarrow> State_Monad.return (Inl e)
      | Guarded with_proof \<Rightarrow> refused_by (ask_guard with_proof)) }"

text \<open>\<open>outboundAllowedNow\<close>, and the guard under the lock.\<close>

definition outbound_allowed :: "(watch_error + unit) act" where
  "outbound_allowed =
     outbound_check (\<lambda>p. attempt (fast_guard_now (outbound_guard_of p)) (\<lambda>_. State_Monad.return (Inr ())))"

definition outbound_locked :: "(watch_error + unit) act" where
  "outbound_locked = outbound_check (\<lambda>p. do { cfg \<leftarrow> the_file; outbound_guard_of p cfg })"

definition may_act :: "bool act" where
  "may_act = do {
     r \<leftarrow> attempt allowed (\<lambda>_. outbound_allowed);
     State_Monad.return (r = Inr ()) }"

section \<open>Writing\<close>

text \<open>
  The lock and the read, the change, the save. The change says what it was, for the deeds, and gives what
  its closure leaves behind. \<open>update\<close> asks for the permission and the guard under the lock.
\<close>

definition locked_write :: "(vpn_config \<Rightarrow> (watch_error + vpn_config \<times> routes_write \<times> 'a) act) \<Rightarrow> (watch_error + 'a) act" where
  "locked_write change = do {
     locked \<leftarrow> ask ou_lock;
     if \<not> locked then State_Monad.return (Inl Err_Config)
     else do {
       others_write;
       current \<leftarrow> the_file;
       attempt (change current) (\<lambda>(cfg, d, a). do {
         saved \<leftarrow> ask ou_save;
         if saved then do { write_file d cfg; State_Monad.return (Inr a) }
         else State_Monad.return (Inl Err_Other) }) } }"

definition update_vpn :: "(vpn_config \<Rightarrow> (watch_error + vpn_config \<times> routes_write \<times> 'a) act) \<Rightarrow> (watch_error + 'a) act" where
  "update_vpn change = locked_write (\<lambda>current. attempt allowed (\<lambda>_. attempt outbound_locked (\<lambda>_. change current)))"

definition apply_now :: "(watch_error + unit) act" where
  "apply_now =
     attempt allowed (\<lambda>_. attempt outbound_allowed (\<lambda>_. do {
       ok \<leftarrow> ask ou_apply;
       did (Applied ok);
       attempt allowed (\<lambda>_. attempt outbound_allowed (\<lambda>_.
         State_Monad.return (if ok then Inr () else Inl Err_Other))) }))"

definition restart_xray :: "(watch_error + unit) act" where
  "restart_xray =
     attempt allowed (\<lambda>_. attempt outbound_allowed (\<lambda>_. do {
       fault \<leftarrow> ask ou_restart;
       did (Restarted (fault = None));
       attempt allowed (\<lambda>_. attempt outbound_allowed (\<lambda>_.
         State_Monad.return (case fault of None \<Rightarrow> Inr () | Some f \<Rightarrow> Inl (fault_error f)))) }))"

definition probe_now :: "bool act" where
  "probe_now = do { ok \<leftarrow> ask ou_probe; did (Probed ok); State_Monad.return ok }"

section \<open>Readiness and messages\<close>

definition failover_tunnel :: "vpn_config \<Rightarrow> string" where
  "failover_tunnel cfg = (case failover_of cfg of None \<Rightarrow> [] | Some fo \<Rightarrow> fo_tunnel fo)"

definition fallback_ready :: "vpn_config \<Rightarrow> bool act" where
  "fallback_ready cfg =
     (if failover_tunnel cfg = [] then do { did (Ready_Said True); State_Monad.return True }
      else do {
        ok \<leftarrow> ask (\<lambda>ou n. ou_ready ou n (failover_tunnel cfg));
        did (Ready_Said ok);
        State_Monad.return ok })"

definition tproxy_ready :: "bool act" where
  "tproxy_ready = do { ok \<leftarrow> ask ou_tproxy; did (Tproxy_Said ok); State_Monad.return ok }"

text \<open>
  \<open>notify\<close>: two channels, where the clients go and what the last wave came to, each told once; a message
  of the first starts the second anew.
\<close>

definition is_route_note :: "note_kind \<Rightarrow> bool" where
  "is_route_note kind \<longleftrightarrow> kind = Note_Moved \<or> kind = Note_No_Tunnel \<or> kind = Note_Fallback_Not_Ready"

definition notify :: "note_kind \<Rightarrow> string \<Rightarrow> unit act" where
  "notify kind msg = do {
     ok \<leftarrow> may_act;
     if \<not> ok then State_Monad.return ()
     else do {
       upd_watch (\<lambda>wa. if kind = Note_Restored then wa\<lparr>wa_route_kind := Note_None\<rparr> else wa);
       wa \<leftarrow> the_watch;
       if (if is_route_note kind then wa_route_kind wa else wa_import_kind wa) = kind then State_Monad.return ()
       else do {
         did (Told kind msg);
         upd_watch (\<lambda>wa. if is_route_note kind then wa\<lparr>wa_route_kind := kind, wa_import_kind := Note_None\<rparr>
                    else wa\<lparr>wa_import_kind := kind\<rparr>) } } }"

text \<open>How a message names a server: its subscription and its name.\<close>

definition subscription_names :: "subscription list \<Rightarrow> (string \<rightharpoonup> string)" where
  "subscription_names subs = map_of (rev (map (\<lambda>s. (sub_id s, sub_name s)) subs))"

definition server_label :: "(string \<rightharpoonup> string) \<Rightarrow> string \<Rightarrow> string \<Rightarrow> string" where
  "server_label names sid name =
     (case names sid of None \<Rightarrow> name | Some n \<Rightarrow> if n = [] then name else n @ '' / '' @ name)"

definition active_label :: "vpn_config \<Rightarrow> string act" where
  "active_label cfg =
     (case x_active (cfg_xray cfg) of
        None \<Rightarrow> State_Monad.return ''unknown''
      | Some a \<Rightarrow> do {
          subs \<leftarrow> load_subs;
          State_Monad.return (server_label
            (subscription_names (case subs of None \<Rightarrow> [] | Some l \<Rightarrow> l)) (as_subscription a) (as_name a)) })"

text \<open>\<open>say\<close>: the message as it stands, of no kind.\<close>

definition say :: "string \<Rightarrow> unit act" where
  "say msg = do {
     ok \<leftarrow> may_act;
     if ok then did (Told Note_None msg) else State_Monad.return () }"

text \<open>\<open>endsWalk\<close>: a refusal or a newer selection, not a failure.\<close>

definition ends_walk :: "watch_error \<Rightarrow> bool" where
  "ends_walk e \<longleftrightarrow> e = Err_Stopped \<or> e = Err_Incompatible \<or> e = Err_Ended \<or> e = Err_Superseded"

definition committed_failover :: "vpn_config \<Rightarrow> bool" where
  "committed_failover cfg \<longleftrightarrow> failover_of cfg \<noteq> None \<and> \<not> failover_staged cfg"

definition uncarried :: "vpn_config \<Rightarrow> string list" where
  "uncarried cfg = filter (\<lambda>ip. \<not> td_carries ip) (effective_xray_clients cfg)"

end
