(* ===== verification/Watch_Failover.thy ===== *)
theory Watch_Failover
  imports Watch_Calls
begin

text \<open>
  The handlers of the watch that move the Xray clients (\<^verbatim>\<open>subwatch/watch.go\<close>,
  \<^verbatim>\<open>recovery.go\<close>): into a tunnel when the outbound is dead, from one tunnel to another when that
  one is gone or never becomes ready, and back to Xray when a probe passes. Each writes the routes in two
  steps with an apply of the script between, so that the clients are never taken off what carries them
  before the other way is in the kernel.
\<close>

section \<open>Onto the tunnel\<close>

text \<open>
  The change under the lock that takes the staged clients off Xray; a fallback with an owner asks for the
  tunnel and for the owner once more.
\<close>

definition commit_change :: "vpn_config \<Rightarrow> (watch_error + vpn_config \<times> routes_write \<times> unit) act" where
  "commit_change current = do {
     wa \<leftarrow> the_watch;
     (if wa_outbound wa = No_Guard then State_Monad.return (Inr ())
      else do {
        ready \<leftarrow> fallback_ready current;
        if \<not> ready then State_Monad.return (Inl Err_Other) else outbound_locked })
     \<bind> (\<lambda>r. State_Monad.return (case r of
         Inl e \<Rightarrow> Inl e
       | Inr _ \<Rightarrow> Inr (commit_xray_failover current, if failover_of current = None then W_Other else W_Commit, ()))) }"

text \<open>The apply that is owed from before, if one is, and the file as it is then.\<close>

definition pay_apply :: "vpn_config \<Rightarrow> vpn_config option act" where
  "pay_apply cfg = do {
     wa \<leftarrow> the_watch;
     if wa_pending_apply wa then do {
       r \<leftarrow> apply_now;
       (case r of
          Inl _ \<Rightarrow> State_Monad.return None
        | Inr _ \<Rightarrow> do {
            upd_watch (\<lambda>wa. wa\<lparr>wa_pending_apply := False\<rparr>);
            c \<leftarrow> reload cfg;
            State_Monad.return (Some c) }) }
     else State_Monad.return (Some cfg) }"

text \<open>The staged clients taken off Xray once their tunnel is ready.\<close>

definition commit_failover :: "vpn_config \<Rightarrow> (vpn_config \<times> bool) act" where
  "commit_failover cfg =
     (if \<not> failover_staged cfg then State_Monad.return (cfg, True)
      else do {
        ready \<leftarrow> fallback_ready cfg;
        if \<not> ready then State_Monad.return (cfg, False)
        else do {
          r \<leftarrow> update_vpn commit_change;
          (case r of
             Inl _ \<Rightarrow> State_Monad.return (cfg, False)
           | Inr _ \<Rightarrow> do {
               c \<leftarrow> reload cfg;
               r \<leftarrow> apply_now;
               (case r of
                  Inl _ \<Rightarrow> do { upd_watch (\<lambda>wa. wa\<lparr>wa_pending_apply := True\<rparr>); State_Monad.return (c, False) }
                | Inr _ \<Rightarrow> do { upd_watch reset_fallback_state; State_Monad.return (c, True) }) }) } })"

definition apply_failover :: "vpn_config \<Rightarrow> (vpn_config \<times> bool) act" where
  "apply_failover cfg = do {
     paid \<leftarrow> pay_apply cfg;
     (case paid of None \<Rightarrow> State_Monad.return (cfg, False) | Some c \<Rightarrow> commit_failover c) }"

definition extend_failover :: "vpn_config \<Rightarrow> vpn_config act" where
  "extend_failover cfg =
     (if xray_clients_outside_failover cfg = [] then State_Monad.return cfg
      else do {
        r \<leftarrow> update_vpn (\<lambda>current. State_Monad.return (Inr (fst (extend_xray_failover current),
               if xray_clients_outside_failover current = [] then W_Other else W_Extend,
               xray_clients_outside_failover current)));
        (case r of
           Inl _ \<Rightarrow> State_Monad.return cfg
         | Inr joined \<Rightarrow> do {
             upd_watch (\<lambda>wa. if joined \<noteq> [] then wa\<lparr>wa_pending_apply := True\<rparr> else wa);
             reload cfg }) })"

section \<open>From tunnel to tunnel\<close>

text \<open>The failover undone, and staged anew on another exit where there is one.\<close>

definition retarget :: "string \<Rightarrow> vpn_config \<Rightarrow> vpn_config" where
  "retarget k cfg =
     (let cfg' = fst (restore_xray_clients cfg) in if k = [] then cfg' else stage_xray_clients cfg' k)"

definition apply_or_owe :: "unit act" where
  "apply_or_owe = do {
     r \<leftarrow> apply_now;
     (case r of Inl _ \<Rightarrow> upd_watch (\<lambda>wa. wa\<lparr>wa_pending_apply := True\<rparr>) | Inr _ \<Rightarrow> State_Monad.return ()) }"

definition fallback_carries :: "vpn_config \<Rightarrow> bool act" where
  "fallback_carries cfg =
     (if \<not> failover_carries cfg then State_Monad.return True
      else do {
        ready \<leftarrow> fallback_ready cfg;
        if ready then State_Monad.return True
        else do {
          r \<leftarrow> apply_now;
          (case r of Inl _ \<Rightarrow> State_Monad.return False | Inr _ \<Rightarrow> fallback_ready cfg) } })"

text \<open>What to do about a tunnel that is gone at \<open>now\<close>: wait out the window, then leave it.\<close>

definition leave_tunnel :: "vpn_config \<Rightarrow> string \<Rightarrow> platform_info \<Rightarrow> int \<Rightarrow> vpn_config act" where
  "leave_tunnel cfg k plat now = do {
     r \<leftarrow> allowed;
     wa \<leftarrow> the_watch;
     if r \<noteq> Inr () then State_Monad.return cfg
     else if wa_fallback_down_since wa = zero_time then do {
       upd_watch (\<lambda>wa. wa\<lparr>wa_fallback_down_since := now\<rparr>);
       State_Monad.return cfg }
     else if sub_time now (wa_fallback_down_since wa) < fallback_down_after then State_Monad.return cfg
     else do {
       let other = next_td_exit cfg (pf_tunnels plat) {k};
       r \<leftarrow> update_vpn (\<lambda>current. State_Monad.return (Inr (retarget other current, W_Retarget, ())));
       (case r of
          Inl _ \<Rightarrow> State_Monad.return cfg
        | Inr _ \<Rightarrow> do {
            (if other \<noteq> [] then upd_watch (\<lambda>wa. wa\<lparr>wa_route_kind := Note_None\<rparr>)
             else notify Note_No_Tunnel ''Xray outbound is down; no Tunnel Director fallback'');
            upd_watch reset_fallback_state;
            apply_or_owe;
            reload cfg }) } }"

definition watch_fallback :: "vpn_config \<Rightarrow> vpn_config act" where
  "watch_fallback cfg =
     (if \<not> committed_failover cfg then State_Monad.return cfg
      else do {
        now \<leftarrow> time_now;
        wa \<leftarrow> the_watch;
        if wa_fallback_check wa \<noteq> zero_time \<and> sub_time now (wa_fallback_check wa) < fallback_check
        then State_Monad.return cfg
        else do {
          upd_watch (\<lambda>wa. wa\<lparr>wa_fallback_check := now\<rparr>);
          let k = failover_tunnel cfg;
          plat \<leftarrow> ask ou_platform;
          (case plat of
             None \<Rightarrow> State_Monad.return cfg
           | Some plat \<Rightarrow>
               if \<not> pf_merlin plat \<and> \<not> has_firmware_tunnels (pf_tunnels plat) \<and> \<not> has_tunnel (pf_tunnels plat) k
               then State_Monad.return cfg
               else do {
                 r \<leftarrow> allowed;
                 if r \<noteq> Inr () then State_Monad.return cfg
                 else do {
                   carries \<leftarrow> (if k \<in> set (td_exits cfg (pf_tunnels plat)) then fallback_carries cfg
                               else State_Monad.return False);
                   if carries then do {
                     upd_watch (\<lambda>wa. wa\<lparr>wa_fallback_down_since := zero_time\<rparr>);
                     State_Monad.return cfg }
                   else leave_tunnel cfg k plat now } }) } })"

text \<open>Every exit has had its turn: the next round waits ten, twenty, then thirty minutes.\<close>

definition hold_fallback :: "int \<Rightarrow> watch \<Rightarrow> watch" where
  "hold_fallback now wa =
     (let hold = (if wa_fallback_hold wa = 0 then 2 * import_retry else min (2 * wa_fallback_hold wa) import_retry_max) in
      wa\<lparr>wa_fallback_tried := [], wa_fallback_hold := hold, wa_fallback_hold_until := now + hold\<rparr>)"

definition switch_fallback :: "vpn_config \<Rightarrow> int \<Rightarrow> vpn_config act" where
  "switch_fallback cfg now = do {
     plat \<leftarrow> ask ou_platform;
     (case plat of
        None \<Rightarrow> State_Monad.return cfg
      | Some plat \<Rightarrow> do {
          r \<leftarrow> allowed;
          if r \<noteq> Inr () then State_Monad.return cfg
          else do {
            upd_watch (\<lambda>wa. wa\<lparr>wa_fallback_tried := failover_tunnel cfg # wa_fallback_tried wa\<rparr>);
            wa \<leftarrow> the_watch;
            let other = next_td_exit cfg (pf_tunnels plat) (set (wa_fallback_tried wa));
            if other = [] then do { upd_watch (hold_fallback now); State_Monad.return cfg }
            else do {
              r \<leftarrow> update_vpn (\<lambda>current. State_Monad.return (Inr (retarget other current, W_Retarget, ())));
              (case r of
                 Inl _ \<Rightarrow> State_Monad.return cfg
               | Inr _ \<Rightarrow> do { apply_or_owe; reload cfg }) } } }) }"

definition retry_or_switch_fallback :: "vpn_config \<Rightarrow> vpn_config act" where
  "retry_or_switch_fallback cfg = do {
     now \<leftarrow> time_now;
     wa \<leftarrow> the_watch;
     if wa_fallback_fail wa = zero_time then do {
       upd_watch (\<lambda>wa. wa\<lparr>wa_fallback_fail := now\<rparr>);
       State_Monad.return cfg }
     else if sub_time now (wa_fallback_fail wa) < import_retry then State_Monad.return cfg
     else do {
       upd_watch (\<lambda>wa. wa\<lparr>wa_fallback_fail := now\<rparr>);
       r \<leftarrow> apply_now;
       done \<leftarrow> (case r of Inl e \<Rightarrow> State_Monad.return (e = Err_Stopped) | Inr _ \<Rightarrow> fallback_ready cfg);
       wa \<leftarrow> the_watch;
       if done \<or> (wa_fallback_hold_until wa \<noteq> zero_time \<and> now < wa_fallback_hold_until wa) then State_Monad.return cfg
       else switch_fallback cfg now } }"

section \<open>A dead outbound\<close>

text \<open>
  \<open>failOutbound\<close> up to the wave of downloads it ends with: the configuration the wave starts from, or
  none where the handler returns without one.
\<close>

definition stage_change :: "vpn_config \<Rightarrow> string \<Rightarrow> vpn_config \<Rightarrow> (watch_error + vpn_config \<times> routes_write \<times> unit) act" where
  "stage_change cfg k current =
     State_Monad.return
       (if (x_pending (cfg_xray current) \<noteq> None \<or> x_pending (cfg_xray cfg) \<noteq> None) \<and>
           \<not> (case x_pending (cfg_xray cfg) of None \<Rightarrow> False | Some p \<Rightarrow> pending_restore_guard current p)
        then Inl Err_Superseded
        else
          let staged = stage_xray_clients current k in
          if failover_of staged = None then Inl Err_Other
          else Inr (upd_xray (\<lambda>x. x\<lparr>x_pending := None\<rparr>) staged, W_Stage, ()))"

definition move_to_tunnel :: "vpn_config \<Rightarrow> string \<Rightarrow> vpn_config option act" where
  "move_to_tunnel cfg k = do {
     r \<leftarrow> update_vpn (stage_change cfg k);
     (case r of
        Inl _ \<Rightarrow> State_Monad.return None
      | Inr _ \<Rightarrow> do {
          upd_watch (\<lambda>wa. reset_fallback_state (wa\<lparr>wa_pending_restore := None\<rparr>));
          r \<leftarrow> apply_now;
          (case r of
             Inl _ \<Rightarrow> do {
               upd_watch (\<lambda>wa. wa\<lparr>wa_pending_apply := True\<rparr>);
               c \<leftarrow> reload cfg;
               State_Monad.return (Some c) }
           | Inr _ \<Rightarrow> do {
               c \<leftarrow> reload cfg;
               (c, ok) \<leftarrow> apply_failover c;
               act \<leftarrow> may_act;
               wa \<leftarrow> the_watch;
               if \<not> act then State_Monad.return None
               else if ok then do {
                 notify Note_Moved (''Xray outbound is down; LAN clients moved to tunnel:'' @ k);
                 State_Monad.return (Some c) }
               else if wa_pending_apply wa then State_Monad.return (Some c)
               else do {
                 notify Note_Fallback_Not_Ready ''Xray outbound is down; Tunnel Director fallback is not ready'';
                 c \<leftarrow> retry_or_switch_fallback c;
                 State_Monad.return (Some c) } }) }) }"

text \<open>The returns settle once per death.\<close>

definition settle_death :: "unit act" where
  "settle_death = do {
     now \<leftarrow> time_now;
     upd_watch (\<lambda>wa. if wa_return_death wa \<noteq> wa_fail_since wa
       then return_after_death now (wa\<lparr>wa_return_death := wa_fail_since wa\<rparr>) else wa) }"

definition fail_outbound :: "vpn_config \<Rightarrow> vpn_config option act" where
  "fail_outbound cfg = do {
     act \<leftarrow> may_act;
     if \<not> act then State_Monad.return None
     else do {
       now \<leftarrow> time_now;
       wa \<leftarrow> the_watch;
       if wa_route_kind wa = Note_No_Tunnel \<and> wa_no_tunnel_check wa \<noteq> zero_time \<and>
          sub_time now (wa_no_tunnel_check wa) < import_retry
       then State_Monad.return (Some cfg)
       else do {
         settle_death;
         plat \<leftarrow> ask ou_platform;
         act \<leftarrow> may_act;
         if \<not> act then State_Monad.return None
         else do {
           let exit = first_td_exit cfg (case plat of None \<Rightarrow> [] | Some p \<Rightarrow> pf_tunnels p);
           let k = (if carriable_xray_clients cfg = [] then [] else exit);
           if k \<noteq> [] then do {
             upd_watch (\<lambda>wa. wa\<lparr>wa_no_tunnel_check := zero_time\<rparr>);
             move_to_tunnel cfg k }
           else if plat = None then State_Monad.return (Some cfg)
           else do {
             upd_watch (\<lambda>wa. wa\<lparr>wa_no_tunnel_check := now\<rparr>);
             notify Note_No_Tunnel ''Xray outbound is down; no Tunnel Director fallback'';
             State_Monad.return (Some cfg) } } } } }"

section \<open>Back to Xray\<close>

definition unstage_restore :: "unit act" where
  "unstage_restore = do {
     r \<leftarrow> update_vpn (\<lambda>current. State_Monad.return (Inr (commit_xray_failover current, W_Unstage, ())));
     (case r of Inl _ \<Rightarrow> State_Monad.return () | Inr _ \<Rightarrow> apply_or_owe) }"

text \<open>\<open>finalizeRestore\<close>: whether the restore is done, and whether its clients had left Xray.\<close>

definition finish_change :: "pending_restore \<Rightarrow> bool \<Rightarrow> vpn_config \<Rightarrow>
    (watch_error + vpn_config \<times> routes_write \<times> bool \<times> bool \<times> bool) act" where
  "finish_change expected applied current =
     (if \<not> pending_restore_guard current expected then State_Monad.return (Inl Err_Superseded)
      else do {
        ready \<leftarrow> tproxy_ready;
        attempt allowed (\<lambda>_. State_Monad.return
          (case finalize_restore ready applied expected current of
             GuardSuperseded \<Rightarrow> Inl Err_Superseded
           | NeedsApply \<Rightarrow> Inl Err_Needs_Apply
           | ApplyFailed \<Rightarrow> Inl Err_Restore_Apply
           | Reinstated cfg \<Rightarrow> Inr (cfg, W_Reinstate, True, False, False)
           | Finished done committed cfg \<Rightarrow> Inr (cfg, W_Other, False, done, committed))) })"

definition finish_restore :: "pending_restore \<Rightarrow> bool \<Rightarrow> (watch_error + bool \<times> bool) act" where
  "finish_restore expected applied = do {
     r \<leftarrow> update_vpn (finish_change expected applied);
     (case r of
        Inl e \<Rightarrow> do { upd_watch (\<lambda>wa. wa\<lparr>wa_pending_apply := True\<rparr>); State_Monad.return (Inl e) }
      | Inr (reinstated, done, committed) \<Rightarrow> do {
          upd_watch (\<lambda>wa. wa\<lparr>wa_pending_apply := False, wa_pending_restore := None\<rparr>);
          now \<leftarrow> time_now;
          if done then do {
            upd_watch (\<lambda>wa. reset_fallback_state (settled now wa));
            State_Monad.return (Inr (done, committed)) }
          else do {
            upd_watch (\<lambda>wa. wa\<lparr>wa_tproxy_fail := now\<rparr>);
            r \<leftarrow> (if reinstated then apply_now else State_Monad.return (Inr ()));
            (case r of
               Inl e \<Rightarrow> do { upd_watch (\<lambda>wa. wa\<lparr>wa_pending_apply := True\<rparr>); State_Monad.return (Inl e) }
             | Inr _ \<Rightarrow> State_Monad.return (Inr (False, False))) } }) }"

text \<open>The guards of a restore: the walk's, and that of a probe, on the record the probe tested.\<close>

definition probed_server :: "vpn_config \<Rightarrow> vpn_config \<Rightarrow> (watch_error + unit) act" where
  "probed_server cfg current =
     State_Monad.return
       (if superseded (x_active (cfg_xray current)) (active_id (x_active (cfg_xray cfg))) [] (active_seq (x_active (cfg_xray cfg)))
        then Inl Err_Superseded else Inr ())"

text \<open>
  The wait for TPROXY before a restore: nothing where it intercepts or an apply brings it back, and
  otherwise the end of this attempt.
\<close>

definition tproxy_first :: "bool act" where
  "tproxy_first = do {
     ready \<leftarrow> tproxy_ready;
     if ready then State_Monad.return True
     else do {
       now \<leftarrow> time_now;
       wa \<leftarrow> the_watch;
       if wa_tproxy_fail wa \<noteq> zero_time \<and> sub_time now (wa_tproxy_fail wa) < import_retry then State_Monad.return False
       else do {
         r \<leftarrow> apply_now;
         ready \<leftarrow> (case r of Inl _ \<Rightarrow> State_Monad.return False | Inr _ \<Rightarrow> tproxy_ready);
         if ready then do { upd_watch (\<lambda>wa. wa\<lparr>wa_tproxy_fail := zero_time\<rparr>); State_Monad.return True }
         else do {
           later \<leftarrow> time_now;
           upd_watch (\<lambda>wa. wa\<lparr>wa_tproxy_fail := later\<rparr>);
           State_Monad.return False } } } }"

definition ensure_change :: "(vpn_config \<Rightarrow> (watch_error + unit) act) \<Rightarrow> vpn_config \<Rightarrow>
    (watch_error + vpn_config \<times> routes_write \<times> unit) act" where
  "ensure_change guard current =
     attempt (guard current) (\<lambda>_. State_Monad.return (Inr (ensure_failover_staged current, W_Ensure, ())))"

definition begin_change :: "(vpn_config \<Rightarrow> (watch_error + unit) act) \<Rightarrow> vpn_config \<Rightarrow>
    (watch_error + vpn_config \<times> routes_write \<times> pending_restore) act" where
  "begin_change guard current =
     attempt (guard current) (\<lambda>_. State_Monad.return
       (if x_pending (cfg_xray current) \<noteq> None \<or> failover_of current = None then Inl Err_Superseded
        else case begin_xray_restore current of
               (cfg, Some p) \<Rightarrow> Inr (cfg, W_Begin, p)
             | (cfg, None) \<Rightarrow> Inl Err_Superseded))"

text \<open>A restore that ended: done or not, for clients that had left Xray or not, and the refusal that ended it.\<close>

record restored =
  rd_done :: bool
  rd_committed :: bool
  rd_refused :: "watch_error option"

definition not_done :: "bool \<Rightarrow> watch_error option \<Rightarrow> restored" where
  "not_done committed refused = \<lparr>rd_done = False, rd_committed = committed, rd_refused = refused\<rparr>"

definition refusal_of :: "watch_error \<Rightarrow> watch_error option" where
  "refusal_of e = (if ends_walk e then Some e else None)"

text \<open>The second half, from the tunnel to Xray alone, once the kernel carries the clients both ways.\<close>

definition leave_fallback :: "(vpn_config \<Rightarrow> (watch_error + unit) act) \<Rightarrow> bool \<Rightarrow> restored act" where
  "leave_fallback guard committed = do {
     r \<leftarrow> update_vpn (begin_change guard);
     (case r of
        Inl e \<Rightarrow> do {
          (if ends_walk e \<and> committed \<and> e = Err_Superseded then unstage_restore else State_Monad.return ());
          State_Monad.return (not_done committed (refusal_of e)) }
      | Inr p \<Rightarrow> do {
          upd_watch (\<lambda>wa. wa\<lparr>wa_pending_restore := Some p\<rparr>);
          r \<leftarrow> apply_now;
          (case r of
             Inl e \<Rightarrow> do {
               upd_watch (\<lambda>wa. wa\<lparr>wa_pending_apply := True\<rparr>);
               State_Monad.return (not_done committed (refusal_of e)) }
           | Inr _ \<Rightarrow> do {
               r \<leftarrow> finish_restore p True;
               State_Monad.return (case r of
                 Inl e \<Rightarrow> not_done False (refusal_of e)
               | Inr (done, committed) \<Rightarrow> \<lparr>rd_done = done, rd_committed = committed, rd_refused = None\<rparr>) }) }) }"

definition commit_restore :: "vpn_config \<Rightarrow> (vpn_config \<Rightarrow> (watch_error + unit) act) \<Rightarrow> restored act" where
  "commit_restore cfg guard = do {
     r \<leftarrow> allowed;
     (case r of
        Inl e \<Rightarrow> State_Monad.return (not_done False (Some e))
      | Inr _ \<Rightarrow>
          if failover_tunnel cfg = [] then do {
            r \<leftarrow> apply_now;
            (case r of
               Inl _ \<Rightarrow> State_Monad.return (not_done False None)
             | Inr _ \<Rightarrow> do {
                 now \<leftarrow> time_now;
                 upd_watch (settled now);
                 State_Monad.return \<lparr>rd_done = True, rd_committed = False, rd_refused = None\<rparr> }) }
          else do {
            let committed = failover_committed cfg;
            first \<leftarrow> tproxy_first;
            if \<not> first then State_Monad.return (not_done committed None)
            else do {
              r \<leftarrow> update_vpn (ensure_change guard);
              (case r of
                 Inl e \<Rightarrow> State_Monad.return (not_done committed (refusal_of e))
               | Inr _ \<Rightarrow> do {
                   r \<leftarrow> apply_now;
                   (case r of
                      Inl _ \<Rightarrow> do {
                        upd_watch (\<lambda>wa. wa\<lparr>wa_pending_apply := True\<rparr>);
                        State_Monad.return (not_done committed None) }
                    | Inr _ \<Rightarrow> do {
                        ready \<leftarrow> tproxy_ready;
                        if \<not> ready then do {
                          now \<leftarrow> time_now;
                          upd_watch (\<lambda>wa. wa\<lparr>wa_tproxy_fail := now\<rparr>);
                          (if committed then unstage_restore else State_Monad.return ());
                          State_Monad.return (not_done committed None) }
                        else do {
                          upd_watch (\<lambda>wa. wa\<lparr>wa_tproxy_fail := zero_time\<rparr>);
                          leave_fallback guard committed } }) }) } }) }"

section \<open>A restore that was interrupted\<close>

definition restored_text :: "string \<Rightarrow> string" where
  "restored_text server = ''LAN clients back on Xray; server '' @ server"

definition announce_restored :: "string \<Rightarrow> unit act" where
  "announce_restored server = notify Note_Restored (restored_text server)"

definition discard_change :: "vpn_config \<Rightarrow> vpn_config \<Rightarrow> (watch_error + vpn_config \<times> routes_write \<times> unit) act" where
  "discard_change cfg current =
     State_Monad.return (case discard_stale_intent cfg current of
       None \<Rightarrow> Inl Err_Superseded | Some c \<Rightarrow> Inr (c, W_Other, ()))"

text \<open>The message names the server that runs.\<close>

definition announce_active :: "vpn_config \<Rightarrow> unit act" where
  "announce_active cfg = do { server \<leftarrow> active_label cfg; announce_restored server }"

definition reconcile_restore :: "vpn_config \<Rightarrow> (watch_error + unit) act" where
  "reconcile_restore cfg =
     (case x_pending (cfg_xray cfg) of
        None \<Rightarrow> State_Monad.return (Inr ())
      | Some pending \<Rightarrow> attempt allowed (\<lambda>_.
          if x_active (cfg_xray cfg) \<noteq> pr_active pending then
            attempt (update_vpn (discard_change cfg)) (\<lambda>_. do {
              upd_watch (\<lambda>wa. reset_fail (wa\<lparr>wa_pending_apply := False, wa_pending_restore := None\<rparr>));
              State_Monad.return (Inl Err_Superseded) })
          else do {
            ready \<leftarrow> tproxy_ready;
            early \<leftarrow> (if ready then State_Monad.return (Inl Err_Needs_Apply) else finish_restore pending False);
            if early \<noteq> Inl Err_Needs_Apply
            then State_Monad.return (case early of Inl e \<Rightarrow> Inl e | Inr _ \<Rightarrow> Inr ())
            else do {
              r \<leftarrow> apply_now;
              (case r of
                 Inl e \<Rightarrow> do {
                   upd_watch (\<lambda>wa. wa\<lparr>wa_pending_apply := True\<rparr>);
                   if ends_walk e then State_Monad.return (Inl e)
                   else do {
                     c \<leftarrow> load_vpn;
                     attempt allowed (\<lambda>_. State_Monad.return (case c of
                         None \<Rightarrow> Inl Err_Other
                       | Some current \<Rightarrow> if pending_restore_guard current pending then Inl Err_Restore_Apply else Inl Err_Superseded)) } }
               | Inr _ \<Rightarrow> do {
                   r \<leftarrow> finish_restore pending True;
                   (case r of
                      Inl e \<Rightarrow> State_Monad.return (Inl e)
                    | Inr (done, committed) \<Rightarrow> do {
                        (if done \<and> committed then announce_active cfg else State_Monad.return ());
                        State_Monad.return (Inr ()) }) }) } }))"

end
