(* ===== verification/Triples.thy ===== *)
theory Triples
  imports Main "HOL-Library.State_Monad"
begin

text \<open>
  Triples on computations over any state: what holds before, what holds after together with the answer.
  The notification store and the subscription watch share them.
\<close>

definition valid :: "('s \<Rightarrow> bool) \<Rightarrow> ('s, 'a) state \<Rightarrow> ('a \<Rightarrow> 's \<Rightarrow> bool) \<Rightarrow> bool" where
  "valid P c Q \<longleftrightarrow> (\<forall>w. P w \<longrightarrow> Q (fst (run_state c w)) (snd (run_state c w)))"

lemma valid_bind:
  "valid P c R \<Longrightarrow> (\<And>a. valid (R a) (f a) Q) \<Longrightarrow> valid P (State_Monad.bind c f) Q"
  by (simp add: valid_def case_prod_beta)

lemma valid_return: "(\<And>w. P w \<Longrightarrow> Q a w) \<Longrightarrow> valid P (State_Monad.return a) Q"
  by (simp add: valid_def)

lemma valid_pre: "valid P' c Q \<Longrightarrow> (\<And>w. P w \<Longrightarrow> P' w) \<Longrightarrow> valid P c Q"
  by (simp add: valid_def)

lemma valid_post: "valid P c Q' \<Longrightarrow> (\<And>a w. Q' a w \<Longrightarrow> Q a w) \<Longrightarrow> valid P c Q"
  by (simp add: valid_def)

lemma valid_if: "(b \<Longrightarrow> valid P c Q) \<Longrightarrow> (\<not> b \<Longrightarrow> valid P d Q) \<Longrightarrow> valid P (if b then c else d) Q"
  by simp

lemma valid_cases: "(\<And>w. P w \<Longrightarrow> b) \<Longrightarrow> (b \<Longrightarrow> valid P c Q) \<Longrightarrow> valid P c Q"
  by (cases b) (auto simp: valid_def)

lemma valid_disj: "valid P c Q \<Longrightarrow> valid P' c Q \<Longrightarrow> valid (\<lambda>w. P w \<or> P' w) c Q"
  by (auto simp: valid_def)

lemma valid_sum:
  "(\<And>e. r = Inl e \<Longrightarrow> valid P (f e) Q) \<Longrightarrow> (\<And>a. r = Inr a \<Longrightarrow> valid P (g a) Q) \<Longrightarrow>
     valid P (case r of Inl e \<Rightarrow> f e | Inr a \<Rightarrow> g a) Q"
  by (cases r) auto

lemma valid_option:
  "(r = None \<Longrightarrow> valid P f Q) \<Longrightarrow> (\<And>a. r = Some a \<Longrightarrow> valid P (g a) Q) \<Longrightarrow>
     valid P (case r of None \<Rightarrow> f | Some a \<Rightarrow> g a) Q"
  by (cases r) auto

lemma valid_conj: "valid P c Q \<Longrightarrow> valid P' c Q' \<Longrightarrow> valid (\<lambda>w. P w \<and> P' w) c (\<lambda>a w. Q a w \<and> Q' a w)"
  by (auto simp: valid_def)

text \<open>What a computation keeps, and relations between the states it starts and ends in.\<close>

abbreviation keeping :: "('s \<Rightarrow> bool) \<Rightarrow> ('s, 'a) state \<Rightarrow> bool" where
  "keeping P c \<equiv> valid P c (\<lambda>_. P)"

lemma keeps_bind: "keeping P c \<Longrightarrow> (\<And>a. keeping P (f a)) \<Longrightarrow> keeping P (State_Monad.bind c f)"
  by (rule valid_bind)

lemma keeps_return: "keeping P (State_Monad.return a)"
  by (rule valid_return)

lemma keeps_case_prod: "(\<And>a b. keeping P (f a b)) \<Longrightarrow> keeping P (case p of (a, b) \<Rightarrow> f a b)"
  by (cases p) simp

end
