(* ===== verification/Watch_Logic.thy ===== *)
theory Watch_Logic
  imports Watch_Failover Web_Clients Triples
begin

text \<open>
  Triples for the handlers of the watch, and what every state between two calls keeps: the file is well
  formed and the client on a route, no client is taken off what carries it before the other way is
  applied and reported ready, and the waits are bounded.
\<close>

section \<open>Triples\<close>

lemma valid_attempt:
  "valid P c (\<lambda>r w. case r of Inl e \<Rightarrow> Q (Inl e) w | Inr a \<Rightarrow> R a w) \<Longrightarrow> (\<And>a. valid (R a) (f a) Q) \<Longrightarrow> valid P (attempt c f) Q"
  unfolding attempt_def by (rule valid_bind, assumption) (simp add: valid_def split: sum.split)

lemma valid_upd: "(\<And>w. P w \<Longrightarrow> Q () (w\<lparr>wd_watch := f (wd_watch w)\<rparr>)) \<Longrightarrow> valid P (upd_watch f) Q"
  by (simp add: valid_def upd_watch_def)

lemma valid_the_watch: "(\<And>w. P w \<Longrightarrow> Q (wd_watch w) w) \<Longrightarrow> valid P the_watch Q"
  by (simp add: valid_def the_watch_def)

section \<open>Steps that write nothing\<close>

text \<open>
  \<open>mild_step\<close>: others may have written the file; of the watch only the end of its context, the guard of
  a fallback and the messages told have changed; and whatever was done is no write. \<open>silent_step\<close>: and
  nothing was done at all.
\<close>

definition others_step :: "outside \<Rightarrow> vpn_config \<Rightarrow> vpn_config \<Rightarrow> bool" where
  "others_step ou cfg cfg' \<longleftrightarrow> (\<exists>n. cfg' = ou_others ou n cfg)"

fun is_write :: "deed \<Rightarrow> bool" where
  "is_write (Wrote d) \<longleftrightarrow> True"
| "is_write _ \<longleftrightarrow> False"

definition masked :: "watch \<Rightarrow> watch" where
  "masked wa = wa\<lparr>wa_route_kind := Note_None, wa_import_kind := Note_None, wa_ended := None,
     wa_mutation_failed := False, wa_outbound := No_Guard, wa_fast := None\<rparr>"

definition same_state :: "watch \<Rightarrow> watch \<Rightarrow> bool" where
  "same_state wa wa' \<longleftrightarrow> masked wa' = masked wa"

definition mild_step :: "world \<Rightarrow> world \<Rightarrow> bool" where
  "mild_step w w' \<longleftrightarrow>
     wd_outside w' = wd_outside w \<and> (others_step (wd_outside w))\<^sup>*\<^sup>* (wd_file w) (wd_file w') \<and>
     same_state (wd_watch w) (wd_watch w') \<and> (\<exists>ds. wd_deeds w' = ds @ wd_deeds w \<and> list_all (\<lambda>d. \<not> is_write d) ds)"

definition silent_step :: "world \<Rightarrow> world \<Rightarrow> bool" where
  "silent_step w w' \<longleftrightarrow> mild_step w w' \<and> wd_deeds w' = wd_deeds w"

definition mild :: "'a act \<Rightarrow> bool" where
  "mild c \<longleftrightarrow> (\<forall>w. mild_step w (snd (run_state c w)))"

definition silent :: "'a act \<Rightarrow> bool" where
  "silent c \<longleftrightarrow> (\<forall>w. silent_step w (snd (run_state c w)))"

named_theorems mild_intros
named_theorems silent_intros

lemma same_state_refl [simp]: "same_state wa wa"
  by (simp add: same_state_def)

lemma same_state_upd [simp]:
  "same_state wa (wa\<lparr>wa_mutation_failed := b, wa_ended := e\<rparr>)" "same_state wa (wa\<lparr>wa_outbound := g\<rparr>)"
  "same_state wa (wa\<lparr>wa_route_kind := r\<rparr>)" "same_state wa (wa\<lparr>wa_import_kind := i\<rparr>)"
  "same_state wa (wa\<lparr>wa_route_kind := r, wa_import_kind := i\<rparr>)" "same_state wa (wa\<lparr>wa_fast := f\<rparr>)"
  "same_state wa (wa\<lparr>wa_outbound := g, wa_fast := f\<rparr>)"
  "same_state wa (wa\<lparr>wa_mutation_failed := b, wa_ended := e, wa_outbound := g, wa_fast := f\<rparr>)"
  by (simp_all add: same_state_def masked_def)

lemma same_state_end [simp]: "same_state wa (end_context e wa)"
  by (simp add: end_context_def)

lemma same_state_fields:
  assumes "same_state wa wa'"
  shows "wa_pending_apply wa' = wa_pending_apply wa" "wa_fallback_hold wa' = wa_fallback_hold wa"
    "wa_import_retry wa' = wa_import_retry wa" "wa_return_retry wa' = wa_return_retry wa"
    "wa_keeper_retry wa' = wa_keeper_retry wa" "wa_reconciled wa' = wa_reconciled wa"
proof -
  have m: "masked wa' = masked wa" using assms by (simp add: same_state_def)
  show "wa_pending_apply wa' = wa_pending_apply wa" using arg_cong [OF m, of wa_pending_apply] by (simp add: masked_def)
  show "wa_fallback_hold wa' = wa_fallback_hold wa" using arg_cong [OF m, of wa_fallback_hold] by (simp add: masked_def)
  show "wa_import_retry wa' = wa_import_retry wa" using arg_cong [OF m, of wa_import_retry] by (simp add: masked_def)
  show "wa_return_retry wa' = wa_return_retry wa" using arg_cong [OF m, of wa_return_retry] by (simp add: masked_def)
  show "wa_keeper_retry wa' = wa_keeper_retry wa" using arg_cong [OF m, of wa_keeper_retry] by (simp add: masked_def)
  show "wa_reconciled wa' = wa_reconciled wa" using arg_cong [OF m, of wa_reconciled] by (simp add: masked_def)
qed

lemma same_state_trans: "same_state a b \<Longrightarrow> same_state b c \<Longrightarrow> same_state a c"
  by (simp add: same_state_def)

lemma mild_trans:
  assumes "mild_step w w1" and "mild_step w1 w2"
  shows "mild_step w w2"
proof -
  obtain ds ds' where "wd_deeds w1 = ds @ wd_deeds w" "wd_deeds w2 = ds' @ wd_deeds w1"
      "list_all (\<lambda>d. \<not> is_write d) ds" "list_all (\<lambda>d. \<not> is_write d) ds'"
    using assms unfolding mild_step_def by blast
  then have "\<exists>ds. wd_deeds w2 = ds @ wd_deeds w \<and> list_all (\<lambda>d. \<not> is_write d) ds"
    by (intro exI [of _ "ds' @ ds"]) simp
  then show ?thesis
    using assms same_state_trans [of "wd_watch w" "wd_watch w1" "wd_watch w2"] unfolding mild_step_def
    by (auto intro: rtranclp_trans)
qed

lemma mild_refl [simp]: "mild_step w w"
  by (simp add: mild_step_def)

lemma silent_trans: "silent_step w w1 \<Longrightarrow> silent_step w1 w2 \<Longrightarrow> silent_step w w2"
  unfolding silent_step_def by (auto intro: mild_trans)

lemma mild_bind [mild_intros]: "mild c \<Longrightarrow> (\<And>a. mild (f a)) \<Longrightarrow> mild (State_Monad.bind c f)"
  unfolding mild_def by (auto simp: case_prod_beta intro: mild_trans)

lemma silent_bind [silent_intros]: "silent c \<Longrightarrow> (\<And>a. silent (f a)) \<Longrightarrow> silent (State_Monad.bind c f)"
  unfolding silent_def by (auto simp: case_prod_beta intro: silent_trans)

lemma silent_mild [mild_intros]: "silent c \<Longrightarrow> mild c"
  by (simp add: silent_def mild_def silent_step_def)

lemma silent_return [silent_intros]: "silent (State_Monad.return a)"
  by (simp add: silent_def silent_step_def)

lemma silent_if [silent_intros]: "silent c \<Longrightarrow> silent d \<Longrightarrow> silent (if b then c else d)"
  by simp

lemma mild_if: "mild c \<Longrightarrow> mild d \<Longrightarrow> mild (if b then c else d)"
  by simp

lemma mild_sum: "(\<And>e. mild (f e)) \<Longrightarrow> (\<And>a. mild (g a)) \<Longrightarrow> mild (case r of Inl e \<Rightarrow> f e | Inr a \<Rightarrow> g a)"
  by (cases r) auto

lemma silent_attempt [silent_intros]: "silent c \<Longrightarrow> (\<And>a. silent (f a)) \<Longrightarrow> silent (attempt c f)"
  unfolding attempt_def by (rule silent_bind) (auto simp: silent_return split: sum.split)

lemma mild_attempt [mild_intros]: "mild c \<Longrightarrow> (\<And>a. mild (f a)) \<Longrightarrow> mild (attempt c f)"
  unfolding attempt_def by (rule mild_bind) (auto simp: silent_mild silent_return split: sum.split)

lemma silent_ask [silent_intros]: "silent (ask f)"
  by (simp add: silent_def silent_step_def mild_step_def ask_def)

lemma silent_reads [silent_intros]: "silent the_watch" "silent the_file" "silent the_subs" "silent (set_subs subs)"
  "silent others_edit" "silent (require e b)"
  by (simp_all add: silent_def silent_step_def mild_step_def the_watch_def the_file_def the_subs_def set_subs_def
      others_edit_def require_def)

lemma silent_others [silent_intros]: "silent others_write"
proof -
  have "(others_step (wd_outside w))\<^sup>*\<^sup>* (wd_file w) (ou_others (wd_outside w) (wd_calls w) (wd_file w))" for w :: world
    by (rule r_into_rtranclp) (auto simp: others_step_def)
  then show ?thesis by (simp add: silent_def silent_step_def mild_step_def others_write_def)
qed

lemma silent_upd: "(\<And>wa. same_state wa (f wa)) \<Longrightarrow> silent (upd_watch f)"
  by (simp add: silent_def silent_step_def mild_step_def upd_watch_def)

lemma mild_did: "\<not> is_write d \<Longrightarrow> mild (did d)"
  by (simp add: mild_def mild_step_def did_def)

lemma silent_option [silent_intros]:
  "silent c \<Longrightarrow> (\<And>x. silent (f x)) \<Longrightarrow> silent (case r of None \<Rightarrow> c | Some x \<Rightarrow> f x)"
  by (cases r) auto

lemma silent_sum [silent_intros]:
  "(\<And>e. silent (f e)) \<Longrightarrow> (\<And>a. silent (g a)) \<Longrightarrow> silent (case r of Inl e \<Rightarrow> f e | Inr a \<Rightarrow> g a)"
  by (cases r) auto

lemma silent_ends [silent_intros]: "silent (upd_watch (end_context e))"
  by (rule silent_upd) simp

lemma silent_allowed [silent_intros]: "silent allowed" "silent context_ended"
  unfolding allowed_def context_ended_def by (intro silent_intros)+

lemma silent_calls [silent_intros]: "silent load_vpn" "silent (reload cfg)" "silent load_subs" "silent subscription_count"
  "silent time_now" "silent (valid_evidence e ks)"
proof -
  show read: "silent load_vpn" unfolding load_vpn_def by (intro silent_intros)
  show "silent (reload cfg)" unfolding reload_def by (intro silent_intros read)
  show lists: "silent load_subs" unfolding load_subs_def by (intro silent_intros)
  show "silent subscription_count" unfolding subscription_count_def by (intro silent_intros lists)
qed (simp_all add: time_now_def valid_evidence_def silent_ask)

lemma silent_proofs [silent_intros]: "silent (proved e ks st)" "silent (all_dead cs)" "silent (death_proved f)"
proof -
  show proved: "silent (proved e ks st)" for e ks st unfolding proved_def by (intro silent_intros)
  have dead: "silent (all_dead cs)" for cs by (induction cs) (auto intro!: silent_intros proved)
  then show "silent (all_dead cs)" .
  show "silent (death_proved f)" unfolding death_proved_def by (intro silent_intros proved dead)
qed

lemma silent_guards [silent_intros]: "silent (ownership f cfg)" "silent (fast_guard f cfg)" "silent (outbound_guard_of p cfg)"
proof -
  show own: "silent (ownership f cfg)" for f cfg unfolding ownership_def by (intro silent_intros)
  show guard: "silent (fast_guard f cfg)" for f cfg unfolding fast_guard_def by (intro silent_intros own)
  show "silent (outbound_guard_of p cfg)" unfolding outbound_guard_of_def by (intro silent_intros own guard)
qed

lemma silent_guard_now [silent_intros]: "(\<And>cfg. silent (g cfg)) \<Longrightarrow> silent (fast_guard_now g)"
  unfolding fast_guard_now_def by (intro silent_intros)

lemma silent_check [silent_intros]:
  assumes "\<And>p. silent (g p)"
  shows "silent (outbound_check g)"
proof -
  have "silent (refused_by (g p))" for p
    unfolding refused_by_def by (intro silent_intros assms silent_upd same_state_upd)
  then show ?thesis
    unfolding outbound_check_def by (intro silent_intros) (auto intro: silent_return split: outbound_guard.split)
qed

lemma silent_outbound [silent_intros]: "silent outbound_allowed" "silent outbound_locked" "silent may_act"
proof -
  show allowed: "silent outbound_allowed" unfolding outbound_allowed_def by (intro silent_intros)
  show "silent outbound_locked" unfolding outbound_locked_def by (intro silent_intros)
  show "silent may_act" unfolding may_act_def by (intro silent_intros allowed)
qed

lemma mild_apply [mild_intros]: "mild apply_now" "mild restart_xray" "mild probe_now"
  unfolding apply_now_def restart_xray_def probe_now_def by (intro mild_intros silent_intros mild_did; simp)+

lemma mild_ready [mild_intros]: "mild (fallback_ready cfg)" "mild tproxy_ready"
  unfolding fallback_ready_def tproxy_ready_def by (intro mild_intros silent_intros mild_did mild_if; simp)+

lemma mild_notify [mild_intros]: "mild (notify kind msg)" "mild (say msg)"
  unfolding notify_def say_def by (intro mild_intros silent_intros mild_did mild_if silent_upd; auto)+

lemma silent_label [silent_intros]: "silent (active_label cfg)"
  unfolding active_label_def by (intro silent_intros)

text \<open>What such a step keeps, every computation of such steps keeps.\<close>

definition mild_stable :: "(world \<Rightarrow> bool) \<Rightarrow> bool" where
  "mild_stable P \<longleftrightarrow> (\<forall>w w'. P w \<longrightarrow> mild_step w w' \<longrightarrow> P w')"

definition stable :: "(world \<Rightarrow> bool) \<Rightarrow> bool" where
  "stable P \<longleftrightarrow> (\<forall>w w'. P w \<longrightarrow> silent_step w w' \<longrightarrow> P w')"

lemma stable_mild: "mild_stable P \<Longrightarrow> stable P"
  by (auto simp: mild_stable_def stable_def silent_step_def)

lemma stable_and: "stable P \<Longrightarrow> stable (\<lambda>w. P w \<and> b)"
  unfolding stable_def by blast

lemma valid_silent: "silent c \<Longrightarrow> stable P \<Longrightarrow> valid P c (\<lambda>_. P)"
  by (auto simp: valid_def silent_def stable_def)

lemma valid_mild: "mild c \<Longrightarrow> mild_stable P \<Longrightarrow> valid P c (\<lambda>_. P)"
  by (auto simp: valid_def mild_def mild_stable_def)

text \<open>A check that may end the operation.\<close>

lemma valid_check:
  assumes "silent c" and "stable P" and "valid P f Q" and "\<And>w e. P w \<Longrightarrow> Q (Inl e) w"
  shows "valid P (attempt c (\<lambda>_. f)) Q"
  unfolding attempt_def
  by (rule valid_bind [OF valid_silent [OF assms(1,2)]]) (use assms(3,4) in \<open>auto simp: valid_def split: sum.split\<close>)

section \<open>What every state keeps\<close>

text \<open>
  Of the deeds, the latest first: whether an apply has succeeded since the last write of the routes, and
  whether a readiness marker, asked after the last apply, said yes.
\<close>

fun applied :: "deed list \<Rightarrow> bool" where
  "applied [] \<longleftrightarrow> False"
| "applied (d # ds) \<longleftrightarrow>
     (case d of Applied ok \<Rightarrow> ok \<or> applied ds | Wrote wr \<Rightarrow> wr = W_Other \<and> applied ds | _ \<Rightarrow> applied ds)"

fun ready_said :: "deed list \<Rightarrow> bool" where
  "ready_said [] \<longleftrightarrow> False"
| "ready_said (d # ds) \<longleftrightarrow>
     (case d of Ready_Said b \<Rightarrow> b | Applied _ \<Rightarrow> False | Wrote _ \<Rightarrow> False | _ \<Rightarrow> ready_said ds)"

fun tproxy_said :: "deed list \<Rightarrow> bool" where
  "tproxy_said [] \<longleftrightarrow> False"
| "tproxy_said (d # ds) \<longleftrightarrow>
     (case d of Tproxy_Said b \<Rightarrow> b | Applied _ \<Rightarrow> False | Wrote _ \<Rightarrow> False | _ \<Rightarrow> tproxy_said ds)"

text \<open>
  Clients leave Xray only once the tunnel is applied and reported ready, and leave the tunnel only once
  Xray is applied for them and TPROXY reported to intercept.
\<close>

fun ordered :: "deed list \<Rightarrow> bool" where
  "ordered [] \<longleftrightarrow> True"
| "ordered (d # ds) \<longleftrightarrow>
     (case d of
        Wrote wr \<Rightarrow> (wr = W_Commit \<longrightarrow> applied ds \<and> ready_said ds) \<and> (wr = W_Begin \<longrightarrow> applied ds \<and> tproxy_said ds)
      | _ \<Rightarrow> True) \<and> ordered ds"

definition wait_steps :: "int set" where
  "wait_steps = {0, 2 * import_retry, 4 * import_retry, import_retry_max}"

definition waits_ok :: "watch \<Rightarrow> bool" where
  "waits_ok wa \<longleftrightarrow> wa_fallback_hold wa \<in> wait_steps \<and> wa_import_retry wa \<in> wait_steps \<and>
     wa_return_retry wa \<in> wait_steps \<and> wa_keeper_retry wa \<in> wait_steps"

text \<open>Others keep the file well formed and the client on a route, and start no failover and no restore.\<close>

definition considerate :: "string \<Rightarrow> outside \<Rightarrow> bool" where
  "considerate a ou \<longleftrightarrow>
     (\<forall>n cfg. well_formed cfg \<longrightarrow>
        well_formed (ou_others ou n cfg) \<and> (on_route cfg a \<longrightarrow> on_route (ou_others ou n cfg) a)) \<and>
     (\<forall>n cfg. failover_of cfg = None \<longrightarrow> failover_of (ou_others ou n cfg) = None) \<and>
     (\<forall>n cfg. x_pending (cfg_xray cfg) = None \<longrightarrow> x_pending (cfg_xray (ou_others ou n cfg)) = None)"

text \<open>
  An intent stands alone, as the write that records it takes the failover away; with the flag there is
  none, as while the watch moves clients onto a tunnel.
\<close>

definition alone :: "bool \<Rightarrow> vpn_config \<Rightarrow> bool" where
  "alone q cfg \<longleftrightarrow> x_pending (cfg_xray cfg) = None \<or> (\<not> q \<and> failover_of cfg = None)"

definition good :: "bool \<Rightarrow> string \<Rightarrow> vpn_config \<Rightarrow> bool" where
  "good q a cfg \<longleftrightarrow> well_formed cfg \<and> on_route cfg a \<and> alone q cfg"

definition safe :: "bool \<Rightarrow> string \<Rightarrow> world \<Rightarrow> bool" where
  "safe q a w \<longleftrightarrow> considerate a (wd_outside w) \<and> good q a (wd_file w) \<and>
     ordered (wd_deeds w) \<and> waits_ok (wd_watch w)"

text \<open>Between two handlers every write of the routes is applied, or the watch owes the apply, or no failover is left.\<close>

definition owed :: "bool \<Rightarrow> string \<Rightarrow> world \<Rightarrow> bool" where
  "owed q a w \<longleftrightarrow> safe q a w \<and> wa_pending_apply (wd_watch w)"

definition kept_up :: "bool \<Rightarrow> string \<Rightarrow> world \<Rightarrow> bool" where
  "kept_up q a w \<longleftrightarrow> safe q a w \<and> applied (wd_deeds w)"

definition steady_state :: "bool \<Rightarrow> string \<Rightarrow> world \<Rightarrow> bool" where
  "steady_state q a w \<longleftrightarrow> safe q a w \<and> (wa_pending_apply (wd_watch w) \<or> applied (wd_deeds w) \<or> failover_of (wd_file w) = None)"

lemma others_steps:
  assumes "(others_step ou)\<^sup>*\<^sup>* cfg cfg'" and "considerate a ou"
  shows "well_formed cfg \<Longrightarrow> well_formed cfg'" and "well_formed cfg \<Longrightarrow> on_route cfg a \<Longrightarrow> on_route cfg' a"
    and "failover_of cfg = None \<Longrightarrow> failover_of cfg' = None" and "x_pending (cfg_xray cfg) = None \<Longrightarrow> x_pending (cfg_xray cfg') = None"
proof -
  have "(well_formed cfg \<longrightarrow> well_formed cfg' \<and> (on_route cfg a \<longrightarrow> on_route cfg' a)) \<and> (failover_of cfg = None \<longrightarrow> failover_of cfg' = None) \<and>
      (x_pending (cfg_xray cfg) = None \<longrightarrow> x_pending (cfg_xray cfg') = None)"
    using assms(1)
  proof (induction rule: rtranclp_induct)
    case (step y z)
    then show ?case using assms(2) by (auto simp: others_step_def considerate_def)
  qed simp
  then show "well_formed cfg \<Longrightarrow> well_formed cfg'" and "well_formed cfg \<Longrightarrow> on_route cfg a \<Longrightarrow> on_route cfg' a"
    and "failover_of cfg = None \<Longrightarrow> failover_of cfg' = None" and "x_pending (cfg_xray cfg) = None \<Longrightarrow> x_pending (cfg_xray cfg') = None"
    by blast+
qed

lemma others_good:
  assumes "(others_step ou)\<^sup>*\<^sup>* cfg cfg'" and "considerate a ou" and "good q a cfg"
  shows "good q a cfg'"
  using others_steps [OF assms(1,2)] assms(3) by (auto simp: good_def alone_def)

lemma no_writes:
  assumes "list_all (\<lambda>d. \<not> is_write d) ds"
  shows "ordered (ds @ ds') = ordered ds'" and "applied ds' \<Longrightarrow> applied (ds @ ds')"
  using assms by (induction ds) (auto split: deed.splits)

lemma mild_safe:
  assumes "mild_step w w'" and "safe q a w"
  shows "safe q a w'" and "applied (wd_deeds w) \<Longrightarrow> applied (wd_deeds w')"
    and "wa_pending_apply (wd_watch w') = wa_pending_apply (wd_watch w)"
    and "failover_of (wd_file w) = None \<Longrightarrow> failover_of (wd_file w') = None"
proof -
  obtain ds where ds: "wd_deeds w' = ds @ wd_deeds w" "list_all (\<lambda>d. \<not> is_write d) ds"
    using assms(1) unfolding mild_step_def by blast
  have step: "wd_outside w' = wd_outside w" "(others_step (wd_outside w))\<^sup>*\<^sup>* (wd_file w) (wd_file w')"
    "same_state (wd_watch w) (wd_watch w')" using assms(1) by (simp_all add: mild_step_def)
  have con: "considerate a (wd_outside w)" using assms(2) by (simp add: safe_def)
  show "safe q a w'"
    using assms(2) step(1) others_good [OF step(2) con] same_state_fields [OF step(3)] no_writes(1) [OF ds(2)] ds(1)
    by (simp add: safe_def waits_ok_def)
  show "applied (wd_deeds w) \<Longrightarrow> applied (wd_deeds w')" using no_writes(2) [OF ds(2)] ds(1) by simp
  show "wa_pending_apply (wd_watch w') = wa_pending_apply (wd_watch w)" using same_state_fields(1) [OF step(3)] .
  show "failover_of (wd_file w) = None \<Longrightarrow> failover_of (wd_file w') = None" using others_steps(3) [OF step(2) con] .
qed

lemma stable_safe: "mild_stable (safe q a)" "mild_stable (owed q a)" "mild_stable (kept_up q a)" "mild_stable (steady_state q a)"
proof -
  have step: "safe q a w'" "applied (wd_deeds w) \<longrightarrow> applied (wd_deeds w')" "wa_pending_apply (wd_watch w') = wa_pending_apply (wd_watch w)"
      "failover_of (wd_file w) = None \<longrightarrow> failover_of (wd_file w') = None" if "mild_step w w'" "safe q a w" for w w'
    using mild_safe [OF that] by simp_all
  show "mild_stable (safe q a)" unfolding mild_stable_def using step(1) by blast
  show "mild_stable (owed q a)" unfolding mild_stable_def owed_def using step(1,3) by simp
  show "mild_stable (kept_up q a)" unfolding mild_stable_def kept_up_def using step(1,2) by simp
  show "mild_stable (steady_state q a)" unfolding mild_stable_def steady_state_def
  proof (intro allI impI)
    fix w w'
    assume w: "safe q a w \<and> (wa_pending_apply (wd_watch w) \<or> applied (wd_deeds w) \<or> failover_of (wd_file w) = None)" and m: "mild_step w w'"
    have "safe q a w" using w by blast
    from step [OF m this] w show "safe q a w' \<and> (wa_pending_apply (wd_watch w') \<or> applied (wd_deeds w') \<or> failover_of (wd_file w') = None)"
      by auto
  qed
qed

lemma stable_ready: "stable (\<lambda>w. kept_up q a w \<and> ready_said (wd_deeds w))" "stable (\<lambda>w. kept_up q a w \<and> tproxy_said (wd_deeds w))"
  using stable_mild [OF stable_safe(3) [of q a]] unfolding stable_def silent_step_def by metis+

lemma steady_cases: "steady_state q a w \<Longrightarrow> safe q a w" "owed q a w \<Longrightarrow> steady_state q a w" "kept_up q a w \<Longrightarrow> steady_state q a w"
    "owed q a w \<Longrightarrow> safe q a w" "kept_up q a w \<Longrightarrow> safe q a w"
  by (simp_all add: steady_state_def owed_def kept_up_def)

lemma safe_upd:
  "waits_ok (f (wd_watch w)) \<Longrightarrow> safe q a w \<Longrightarrow> safe q a (w\<lparr>wd_watch := f (wd_watch w)\<rparr>)"
  by (simp add: safe_def)

section \<open>The calls that count\<close>

lemma valid_apply:
  assumes "mild_stable P" and "\<And>w. P w \<Longrightarrow> safe q a w"
  shows "valid P apply_now (\<lambda>r w. P w \<and> (r = Inr () \<longrightarrow> kept_up q a w))"
proof -
  have "mild_stable P" and silent: "stable P" using assms(1) stable_mild by blast+
  have after: "stable (\<lambda>w. P w \<and> (ok \<longrightarrow> kept_up q a w))" for ok
    unfolding stable_def using stable_mild [OF assms(1)] stable_mild [OF stable_safe(3) [of q a]] by (auto simp: stable_def)
  have did: "valid P (did (Applied ok)) (\<lambda>_ w. P w \<and> (ok \<longrightarrow> kept_up q a w))" for ok
  proof -
    have "valid P (did (Applied ok)) (\<lambda>_. P)" by (rule valid_mild [OF mild_did assms(1)]) simp
    then show ?thesis using assms(2) by (auto simp: valid_def did_def kept_up_def)
  qed
  have last: "valid (\<lambda>w. P w \<and> (ok \<longrightarrow> kept_up q a w))
      (attempt allowed (\<lambda>_. attempt outbound_allowed (\<lambda>_. State_Monad.return (if ok then Inr () else Inl Err_Other))))
      (\<lambda>r w. P w \<and> (r = Inr () \<longrightarrow> kept_up q a w))" for ok
    by (intro valid_check [OF silent_allowed(1) after] valid_check [OF silent_outbound(1) after] valid_return) (auto split: if_splits)
  show ?thesis
    unfolding apply_now_def
    by (intro valid_check [OF silent_allowed(1) silent] valid_check [OF silent_outbound(1) silent]
        valid_bind [OF valid_silent [OF silent_ask silent]] valid_bind [OF did last]) auto
qed

lemma valid_ready:
  assumes "mild_stable P"
  shows "valid P (fallback_ready cfg) (\<lambda>b w. P w \<and> (b \<longrightarrow> ready_said (wd_deeds w)))"
    and "valid P tproxy_ready (\<lambda>b w. P w \<and> (b \<longrightarrow> tproxy_said (wd_deeds w)))"
proof -
  have "valid P (fallback_ready cfg) (\<lambda>_. P)" "valid P tproxy_ready (\<lambda>_. P)"
    by (rule valid_mild [OF mild_ready(1) assms], rule valid_mild [OF mild_ready(2) assms])
  then show "valid P (fallback_ready cfg) (\<lambda>b w. P w \<and> (b \<longrightarrow> ready_said (wd_deeds w)))"
    and "valid P tproxy_ready (\<lambda>b w. P w \<and> (b \<longrightarrow> tproxy_said (wd_deeds w)))"
    by (auto simp: valid_def fallback_ready_def tproxy_ready_def ask_def did_def)
qed

lemma stable_calls: "stable P \<Longrightarrow> P w \<Longrightarrow> P (w\<lparr>wd_calls := n\<rparr>)"
  unfolding stable_def by (auto simp: silent_step_def mild_step_def)

text \<open>Under the lock nobody else writes: the checks there leave the file as it was read.\<close>

definition still :: "'a act \<Rightarrow> bool" where
  "still c \<longleftrightarrow> (\<forall>w. wd_file (snd (run_state c w)) = wd_file w)"

named_theorems still_intros

lemma still_bind [still_intros]: "still c \<Longrightarrow> (\<And>a. still (f a)) \<Longrightarrow> still (State_Monad.bind c f)"
  by (simp add: still_def case_prod_beta)

lemma still_cases [still_intros]:
  "still (State_Monad.return a)" "still c \<Longrightarrow> still d \<Longrightarrow> still (if b then c else d)"
  "still f \<Longrightarrow> (\<And>x. still (g x)) \<Longrightarrow> still (case r of None \<Rightarrow> f | Some x \<Rightarrow> g x)"
  "(\<And>e. still (h e)) \<Longrightarrow> (\<And>y. still (k y)) \<Longrightarrow> still (case s of Inl e \<Rightarrow> h e | Inr y \<Rightarrow> k y)"
  by (simp_all add: still_def split: option.split sum.split)

lemma still_steps [still_intros]: "still (ask f)" "still the_watch" "still the_file" "still the_subs" "still (upd_watch u)" "still (set_subs subs)"
  "still others_edit" "still (did d)" "still (require e b)"
  by (simp_all add: still_def ask_def the_watch_def the_file_def the_subs_def upd_watch_def set_subs_def others_edit_def did_def require_def)

lemma still_attempt [still_intros]: "still c \<Longrightarrow> (\<And>a. still (f a)) \<Longrightarrow> still (attempt c f)"
  unfolding attempt_def by (intro still_intros)

lemma still_allowed [still_intros]: "still allowed" "still context_ended" "still load_subs" "still (valid_evidence e ks)" "still (proved e ks st)"
    "still time_now"
proof -
  show "still allowed" unfolding allowed_def by (intro still_intros)
  show "still context_ended" unfolding context_ended_def by (intro still_intros)
  show "still load_subs" unfolding load_subs_def by (intro still_intros)
  show valid: "still (valid_evidence e ks)" unfolding valid_evidence_def by (intro still_intros)
  show "still (proved e ks st)" unfolding proved_def by (intro still_intros valid)
  show "still time_now" unfolding time_now_def by (intro still_intros)
qed

lemma still_guards [still_intros]: "still (all_dead cs)" "still (death_proved f)" "still (ownership f cfg)" "still (fast_guard f cfg)"
    "still (outbound_guard_of p cfg)" "still outbound_locked"
proof -
  show dead: "still (all_dead cs)" for cs by (induction cs) (auto intro!: still_intros)
  show proved: "still (death_proved f)" for f unfolding death_proved_def by (intro still_intros dead)
  show own: "still (ownership f cfg)" for f cfg unfolding ownership_def by (intro still_intros)
  show guard: "still (fast_guard f cfg)" for f cfg unfolding fast_guard_def by (intro still_intros own proved)
  show of: "still (outbound_guard_of p cfg)" for p cfg unfolding outbound_guard_of_def by (intro still_intros own guard)
  have "still (refused_by c)" if "still c" for c unfolding refused_by_def by (intro still_intros that)
  then show "still outbound_locked"
    unfolding outbound_locked_def outbound_check_def
    by (intro still_intros) (auto intro!: still_intros of split: outbound_guard.split)
qed

lemma valid_still:
  assumes "silent c" and "still c" and "stable P"
  shows "valid (\<lambda>w. P w \<and> wd_file w = cfg) c (\<lambda>_ w. P w \<and> wd_file w = cfg)"
  using valid_silent [OF assms(1,3)] assms(2) by (simp add: valid_def still_def)

lemma still_check:
  assumes "silent c" and "still c" and "stable P" and "valid (\<lambda>w. P w \<and> wd_file w = cfg) f Q" and "\<And>w e. P w \<Longrightarrow> Q (Inl e) w"
  shows "valid (\<lambda>w. P w \<and> wd_file w = cfg) (attempt c (\<lambda>_. f)) Q"
  unfolding attempt_def
  by (rule valid_bind [OF valid_still [OF assms(1-3)]]) (use assms(4,5) in \<open>auto simp: valid_def split: sum.split\<close>)

lemma valid_locked:
  assumes "stable P"
    and "\<And>cfg. valid (\<lambda>w. P w \<and> wd_file w = cfg) (body cfg)
      (\<lambda>r w. case r of Inl e \<Rightarrow> Q (Inl e) w | Inr (cfg', d, b) \<Rightarrow> R cfg' d b w)"
    and "\<And>cfg' d b w n. R cfg' d b w \<Longrightarrow> R cfg' d b (w\<lparr>wd_calls := n\<rparr>)"
    and "\<And>cfg' d b w. R cfg' d b w \<Longrightarrow> Q (Inr b) (w\<lparr>wd_file := cfg', wd_deeds := Wrote d # wd_deeds w\<rparr>)"
    and "\<And>cfg' d b w. R cfg' d b w \<Longrightarrow> Q (Inl Err_Other) w"
    and "\<And>w e. P w \<Longrightarrow> Q (Inl e) w"
  shows "valid P (locked_write body) Q"
proof -
  have save: "valid (R cfg' d b) (do { saved \<leftarrow> ask ou_save;
      if saved then do { write_file d cfg'; State_Monad.return (Inr b) } else State_Monad.return (Inl Err_Other) }) Q"
    for cfg' d b
    unfolding valid_def
  proof (intro allI impI)
    fix w
    assume "R cfg' d b w"
    then have after: "R cfg' d b (w\<lparr>wd_calls := wd_calls w + 1\<rparr>)" by (rule assms(3))
    show "Q (fst (run_state (do { saved \<leftarrow> ask ou_save;
        if saved then do { write_file d cfg'; State_Monad.return (Inr b) } else State_Monad.return (Inl Err_Other) }) w))
      (snd (run_state (do { saved \<leftarrow> ask ou_save;
        if saved then do { write_file d cfg'; State_Monad.return (Inr b) } else State_Monad.return (Inl Err_Other) }) w))"
      using assms(4) [OF after] assms(5) [OF after] by (simp add: write_file_def ask_def)
  qed
  have read: "valid P the_file (\<lambda>cfg w. P w \<and> wd_file w = cfg)"
    by (simp add: valid_def the_file_def)
  have rest: "valid (\<lambda>w. P w \<and> wd_file w = cfg) (attempt (body cfg) (\<lambda>(cfg', d, b). do { saved \<leftarrow> ask ou_save;
      if saved then do { write_file d cfg'; State_Monad.return (Inr b) } else State_Monad.return (Inl Err_Other) })) Q" for cfg
    unfolding attempt_def
    by (rule valid_bind [OF assms(2)]) (use save in \<open>auto simp: valid_def split: sum.split\<close>)
  show ?thesis
    unfolding locked_write_def
    by (intro valid_bind [OF valid_silent [OF silent_ask assms(1)]] valid_if valid_bind [OF valid_silent [OF silent_others assms(1)]]
        valid_bind [OF read rest] valid_return assms(6))
qed

lemma valid_update:
  assumes "stable P"
    and "\<And>cfg. valid (\<lambda>w. P w \<and> wd_file w = cfg) (body cfg)
      (\<lambda>r w. case r of Inl e \<Rightarrow> Q (Inl e) w | Inr (cfg', d, b) \<Rightarrow> R cfg' d b w)"
    and "\<And>cfg' d b w n. R cfg' d b w \<Longrightarrow> R cfg' d b (w\<lparr>wd_calls := n\<rparr>)"
    and "\<And>cfg' d b w. R cfg' d b w \<Longrightarrow> Q (Inr b) (w\<lparr>wd_file := cfg', wd_deeds := Wrote d # wd_deeds w\<rparr>)"
    and "\<And>cfg' d b w. R cfg' d b w \<Longrightarrow> Q (Inl Err_Other) w"
    and "\<And>w e. P w \<Longrightarrow> Q (Inl e) w"
  shows "valid P (update_vpn body) Q"
  unfolding update_vpn_def
proof (rule valid_locked [where R = R and Q = Q, OF assms(1)])
  show "valid (\<lambda>w. P w \<and> wd_file w = cfg) (attempt allowed (\<lambda>_. attempt outbound_locked (\<lambda>_. body cfg)))
      (\<lambda>r w. case r of Inl e \<Rightarrow> Q (Inl e) w | Inr (cfg', d, b) \<Rightarrow> R cfg' d b w)" for cfg
    by (intro still_check [OF silent_allowed(1) still_allowed(1) assms(1)] still_check [OF silent_outbound(2) still_guards(6) assms(1)]
        assms(2)) (simp_all add: assms(6))
qed (fact assms(3-6))+

text \<open>A change that only computes.\<close>

lemma valid_update_pure:
  assumes "stable P"
    and "\<And>cfg' d b w. P w \<Longrightarrow> f (wd_file w) = Inr (cfg', d, b) \<Longrightarrow>
      Q (Inr b) (w\<lparr>wd_file := cfg', wd_deeds := Wrote d # wd_deeds w\<rparr>)"
    and "\<And>w e. P w \<Longrightarrow> Q (Inl e) w"
  shows "valid P (update_vpn (\<lambda>cfg. State_Monad.return (f cfg))) Q"
proof (rule valid_update [where R = "\<lambda>cfg' d b w. P w \<and> f (wd_file w) = Inr (cfg', d, b)", OF assms(1)])
  show "valid (\<lambda>w. P w \<and> wd_file w = cfg) (State_Monad.return (f cfg))
      (\<lambda>r w. case r of Inl e \<Rightarrow> Q (Inl e) w | Inr (cfg', d, b) \<Rightarrow> P w \<and> f (wd_file w) = Inr (cfg', d, b))" for cfg
    using assms(3) by (intro valid_return) (auto split: sum.split)
qed (use assms stable_calls [OF assms(1)] in auto)

section \<open>The changes of the file\<close>

definition carries_client :: "string \<Rightarrow> vpn_config \<Rightarrow> vpn_config \<Rightarrow> bool" where
  "carries_client a cfg cfg' \<longleftrightarrow> (well_formed cfg \<longrightarrow> on_route cfg a \<longrightarrow> well_formed cfg' \<and> on_route cfg' a)"

definition keeps_client :: "bool \<Rightarrow> string \<Rightarrow> vpn_config \<Rightarrow> vpn_config \<Rightarrow> bool" where
  "keeps_client q a cfg cfg' \<longleftrightarrow> (good q a cfg \<longrightarrow> good q a cfg')"

lemma carries_trans: "carries_client a cfg cfg1 \<Longrightarrow> carries_client a cfg1 cfg2 \<Longrightarrow> carries_client a cfg cfg2"
  by (simp add: carries_client_def)

lemma carries_daemon:
  assumes "sane_op d"
  shows "carries_client a cfg (run_daemon d cfg)"
  using change_keeps [OF by_daemon [OF assms]] by (auto simp: carries_client_def)

lemma carries_pending: "carries_client a cfg (upd_xray (\<lambda>x. x\<lparr>x_pending := p\<rparr>) cfg') = carries_client a cfg cfg'"
  by (simp add: carries_client_def well_formed_def routes_ok_def undoable_def on_route_def covered_def)

lemma carries_operations:
  "carries_client a cfg (stage_xray_clients cfg k)" "carries_client a cfg (commit_xray_failover cfg)"
  "carries_client a cfg (fst (extend_xray_failover cfg))" "carries_client a cfg (ensure_failover_staged cfg)"
  "carries_client a cfg (fst (restore_xray_clients cfg))"
  using carries_daemon [of "Stage k" a cfg] carries_daemon [of Commit a cfg] carries_daemon [of Extend a cfg]
    carries_daemon [of EnsureStaged a cfg] carries_daemon [of Restore a cfg] by simp_all

lemma keeps_carried: "carries_client a cfg cfg' \<Longrightarrow> (alone q cfg \<Longrightarrow> alone q cfg') \<Longrightarrow> keeps_client q a cfg cfg'"
  by (auto simp: carries_client_def keeps_client_def good_def)

lemma keeps_cleared: "carries_client a cfg cfg' \<Longrightarrow> keeps_client q a cfg (upd_xray (\<lambda>x. x\<lparr>x_pending := None\<rparr>) cfg')"
  using keeps_carried [of a cfg "upd_xray (\<lambda>x. x\<lparr>x_pending := None\<rparr>) cfg'" q] by (simp add: carries_pending alone_def)

lemma keeps_operations:
  "keeps_client q a cfg (upd_xray (\<lambda>x. x\<lparr>x_pending := None\<rparr>) (stage_xray_clients cfg k))"
  "keeps_client q a cfg (commit_xray_failover cfg)" "keeps_client q a cfg (fst (extend_xray_failover cfg))"
  "keeps_client q a cfg (ensure_failover_staged cfg)" "keeps_client q a cfg (upd_xray (\<lambda>x. x\<lparr>x_pending := None\<rparr>) cfg)"
proof -
  show "keeps_client q a cfg (upd_xray (\<lambda>x. x\<lparr>x_pending := None\<rparr>) (stage_xray_clients cfg k))"
    "keeps_client q a cfg (upd_xray (\<lambda>x. x\<lparr>x_pending := None\<rparr>) cfg)"
    by (rule keeps_cleared [OF carries_operations(1)], rule keeps_cleared) (simp add: carries_client_def)
  have alone: "alone q (commit_xray_failover cfg)" "alone q (fst (extend_xray_failover cfg))" "alone q (ensure_failover_staged cfg)" if "alone q cfg"
    using that by (auto simp: alone_def commit_xray_failover_def extend_xray_failover_def
        ensure_failover_staged_def Let_def case_prod_beta split: option.splits)
  show "keeps_client q a cfg (commit_xray_failover cfg)" "keeps_client q a cfg (fst (extend_xray_failover cfg))"
    "keeps_client q a cfg (ensure_failover_staged cfg)"
    by (rule keeps_carried [OF carries_operations(2) alone(1)] keeps_carried [OF carries_operations(3) alone(2)]
        keeps_carried [OF carries_operations(4) alone(3)], assumption)+
qed

text \<open>A change of tunnel, and the start of a restore, in a file without an intent.\<close>

lemma pending_moves: "x_pending (cfg_xray (stage_xray_clients cfg k)) = x_pending (cfg_xray cfg)"
    "x_pending (cfg_xray (fst (restore_xray_clients cfg))) = x_pending (cfg_xray cfg)"
  by (auto simp: stage_xray_clients_def restore_xray_clients_def Let_def split: option.splits)

lemma keeps_retarget: "keeps_client True a cfg (retarget k cfg)"
proof (rule keeps_carried)
  show "carries_client a cfg (retarget k cfg)"
    using carries_operations(5) [of a cfg] carries_trans [OF carries_operations(5) carries_operations(1)]
    by (simp add: retarget_def Let_def)
  show "alone True (retarget k cfg)" if "alone True cfg"
    using that by (simp add: alone_def retarget_def Let_def pending_moves)
qed

lemma restored_alone: "failover_of (fst (restore_xray_clients cfg)) = None"
  by (simp add: restore_xray_clients_def Let_def split: option.splits)

lemma keeps_begin:
  assumes "begin_xray_restore cfg = (cfg', Some p)"
  shows "keeps_client False a cfg cfg'"
proof -
  have "cfg' = upd_xray (\<lambda>x. x\<lparr>x_pending := Some p\<rparr>) (fst (restore_xray_clients cfg))"
    using assms by (auto simp: begin_xray_restore_def case_prod_beta Let_def split: option.splits if_splits)
  then show ?thesis
    using carries_operations(5) [of a cfg] restored_alone [of cfg]
    by (intro keeps_carried) (simp_all add: carries_pending alone_def)
qed

lemma keeps_reinstate:
  assumes "failover_snapshot p cfg = Some snap"
  shows "keeps_client q a cfg (upd_xray (\<lambda>x. x\<lparr>x_pending := None\<rparr>) (apply_failover_snapshot cfg snap))"
proof (rule keeps_cleared, cases "routes_ok cfg")
  case True
  then have "sound_record snap" "[] \<notin> set (fo_clients snap)"
    using failover_snapshot_sound [OF True assms] by (auto simp: may_return_def)
  then show "carries_client a cfg (apply_failover_snapshot cfg snap)" using carries_daemon [of "Reapply snap" a cfg] by simp
qed (simp add: carries_client_def well_formed_def)

lemma wrote_safe:
  assumes "safe q a w" and "good q a cfg'"
    and "d = W_Commit \<Longrightarrow> applied (wd_deeds w) \<and> ready_said (wd_deeds w)"
    and "d = W_Begin \<Longrightarrow> applied (wd_deeds w) \<and> tproxy_said (wd_deeds w)"
  shows "safe q a (w\<lparr>wd_file := cfg', wd_deeds := Wrote d # wd_deeds w\<rparr>)"
  using assms by (auto simp: safe_def)

text \<open>
  A change of the routes, for any state that is safe: afterwards it still is, though nothing is applied.
  One that changes nothing of a failover leaves what was between two calls.
\<close>

lemma valid_write:
  assumes "stable P" and "\<And>w. P w \<Longrightarrow> safe q a w"
    and "\<And>cfg cfg' d b. f cfg = Inr (cfg', d, b) \<Longrightarrow> keeps_client q a cfg cfg' \<and> d \<noteq> W_Commit \<and> d \<noteq> W_Begin"
  shows "valid P (update_vpn (\<lambda>cfg. State_Monad.return (f cfg))) (\<lambda>r w. case r of Inl _ \<Rightarrow> P w | Inr _ \<Rightarrow> safe q a w)"
proof (rule valid_update_pure [OF assms(1)])
  fix cfg' d b w
  assume w: "P w" and f: "f (wd_file w) = Inr (cfg', d, b)"
  have "safe q a w" using w by (rule assms(2))
  then show "case Inr b of Inl _ \<Rightarrow> P (w\<lparr>wd_file := cfg', wd_deeds := Wrote d # wd_deeds w\<rparr>)
      | Inr _ \<Rightarrow> safe q a (w\<lparr>wd_file := cfg', wd_deeds := Wrote d # wd_deeds w\<rparr>)"
    using assms(3) [OF f] by (simp add: keeps_client_def) (rule wrote_safe, auto simp: safe_def)
qed auto

lemma valid_same:
  assumes "\<And>cfg cfg' d b. f cfg = Inr (cfg', d, b) \<Longrightarrow> keeps_client q a cfg cfg' \<and> d \<noteq> W_Commit \<and> d \<noteq> W_Begin \<and>
      (same b \<longrightarrow> d = W_Other \<and> (failover_of cfg = None \<longrightarrow> failover_of cfg' = None))"
  shows "valid (steady_state q a) (update_vpn (\<lambda>cfg. State_Monad.return (f cfg)))
    (\<lambda>r w. case r of Inl _ \<Rightarrow> steady_state q a w | Inr b \<Rightarrow> safe q a w \<and> (same b \<longrightarrow> steady_state q a w))"
proof (rule valid_update_pure)
  show "stable (steady_state q a)" by (rule stable_mild [OF stable_safe(4)])
  fix cfg' d b w
  assume w: "steady_state q a w" and f: "f (wd_file w) = Inr (cfg', d, b)"
  let ?w = "w\<lparr>wd_file := cfg', wd_deeds := Wrote d # wd_deeds w\<rparr>"
  have "safe q a w" using w by (rule steady_cases)
  then have "safe q a ?w" using assms [OF f] by (auto simp: keeps_client_def safe_def)
  then show "case Inr b of Inl _ \<Rightarrow> steady_state q a ?w | Inr b \<Rightarrow> safe q a ?w \<and> (same b \<longrightarrow> steady_state q a ?w)"
    using w assms [OF f] by (auto simp: steady_state_def)
qed auto

end
