(* ===== verification/Watch_Order.thy ===== *)
theory Watch_Order
  imports Watch_Logic
begin

text \<open>
  Every handler of the watch keeps the state between two calls: what it writes is applied before it goes
  on, or is owed, and the client of a failover is never taken off the way that carries it before the
  other one does.
\<close>

section \<open>Small steps\<close>

lemmas steady_stable = stable_mild [OF stable_safe(4)]
lemmas safe_stable = stable_mild [OF stable_safe(1)]
lemmas owed_stable = stable_mild [OF stable_safe(2)]
lemmas kept_stable = stable_mild [OF stable_safe(3)]

text \<open>An update of the watch that leaves the waits and the owed apply alone.\<close>

definition plain_update :: "(watch \<Rightarrow> watch) \<Rightarrow> bool" where
  "plain_update f \<longleftrightarrow> (\<forall>wa. waits_ok wa \<longrightarrow> waits_ok (f wa) \<and> wa_pending_apply (f wa) = wa_pending_apply wa)"

lemma valid_plain:
  assumes "plain_update f"
  shows "valid (steady_state q a) (upd_watch f) (\<lambda>_. steady_state q a)" "valid (safe q a) (upd_watch f) (\<lambda>_. safe q a)"
    "valid (kept_up q a) (upd_watch f) (\<lambda>_. kept_up q a)" "valid (owed q a) (upd_watch f) (\<lambda>_. owed q a)"
  using assms by (auto simp: valid_def upd_watch_def steady_state_def safe_def kept_up_def owed_def plain_update_def)

lemma plain_resets [simp]:
  "plain_update reset_fallback_state" "plain_update reset_fail" "plain_update (settled now)"
  "plain_update (hold_fallback now)" "plain_update (back_off_return now)" "plain_update (return_after_death now)"
  "plain_update (note_selection cfg)" "plain_update (landed_on_choice c seq now)"
proof -
  show "plain_update reset_fallback_state" "plain_update reset_fail" "plain_update (settled now)"
    "plain_update (note_selection cfg)" "plain_update (landed_on_choice c seq now)"
    by (auto simp: plain_update_def waits_ok_def reset_fallback_state_def reset_fail_def settled_def Let_def wait_steps_def
        note_selection_def landed_on_choice_def split: option.split)
  show "plain_update (hold_fallback now)"
    by (auto simp: plain_update_def waits_ok_def hold_fallback_def Let_def wait_steps_def watch_waits)
  show backed: "plain_update (back_off_return now)"
    by (auto simp: plain_update_def waits_ok_def back_off_return_def Let_def wait_steps_def watch_waits)
  show "plain_update (return_after_death now)"
    unfolding plain_update_def
  proof (intro allI impI)
    fix wa
    assume "waits_ok wa"
    then have "waits_ok (back_off_return now wa) \<and> wa_pending_apply (back_off_return now wa) = wa_pending_apply wa"
      using backed by (simp add: plain_update_def)
    then show "waits_ok (return_after_death now wa) \<and> wa_pending_apply (return_after_death now wa) = wa_pending_apply wa"
      using \<open>waits_ok wa\<close> by (simp add: return_after_death_def Let_def waits_ok_def wait_steps_def)
  qed
qed

lemma plain_fields [simp]:
  "plain_update (\<lambda>wa. wa\<lparr>wa_fallback_down_since := n\<rparr>)" "plain_update (\<lambda>wa. wa\<lparr>wa_fallback_check := n\<rparr>)"
  "plain_update (\<lambda>wa. wa\<lparr>wa_fallback_fail := n\<rparr>)" "plain_update (\<lambda>wa. wa\<lparr>wa_tproxy_fail := n\<rparr>)"
  "plain_update (\<lambda>wa. wa\<lparr>wa_no_tunnel_check := n\<rparr>)" "plain_update (\<lambda>wa. wa\<lparr>wa_route_kind := k\<rparr>)"
  "plain_update (\<lambda>wa. wa\<lparr>wa_fallback_tried := ks wa\<rparr>)" "plain_update (\<lambda>wa. wa\<lparr>wa_pending_restore := p\<rparr>)"
  "plain_update (\<lambda>wa. reset_fallback_state (wa\<lparr>wa_pending_restore := p\<rparr>))"
  by (auto simp: plain_update_def waits_ok_def reset_fallback_state_def wait_steps_def)

lemma plain_comp: "plain_update f \<Longrightarrow> plain_update g \<Longrightarrow> plain_update (\<lambda>wa. f (g wa))"
  by (simp add: plain_update_def)

text \<open>The apply that is owed from now on.\<close>

lemma valid_owe: "valid (safe q a) (upd_watch (\<lambda>wa. wa\<lparr>wa_pending_apply := True\<rparr>)) (\<lambda>_. owed q a)"
  by (simp add: valid_def upd_watch_def owed_def safe_def waits_ok_def)

lemma valid_paid: "valid (kept_up q a) (upd_watch (\<lambda>wa. wa\<lparr>wa_pending_apply := False\<rparr>)) (\<lambda>_. kept_up q a)"
  by (simp add: valid_def upd_watch_def kept_up_def safe_def waits_ok_def)

lemma kept_steady: "valid P c (\<lambda>_. kept_up q a) \<Longrightarrow> valid P c (\<lambda>_. steady_state q a)"
  "valid P c (\<lambda>_. owed q a) \<Longrightarrow> valid P c (\<lambda>_. steady_state q a)"
  by (erule valid_post, erule steady_cases)+

lemmas apply_steady = valid_apply [OF stable_safe(4) steady_cases(1)]

text \<open>After a write: the apply, or the debt.\<close>

lemma valid_apply_safe: "valid (safe q a) apply_now (\<lambda>r w. safe q a w \<and> (r = Inr () \<longrightarrow> kept_up q a w))"
  by (rule valid_apply [OF stable_safe(1)])

lemma valid_apply_owed: "valid (owed q a) apply_now (\<lambda>r w. owed q a w \<and> (r = Inr () \<longrightarrow> kept_up q a w))"
  by (rule valid_apply [OF stable_safe(2) steady_cases(4)])

lemma apply_or_owe_steady: "valid (safe q a) apply_or_owe (\<lambda>_. steady_state q a)"
  unfolding apply_or_owe_def
proof (rule valid_bind [OF valid_apply_safe])
  fix r :: "watch_error + unit"
  show "valid (\<lambda>w. safe q a w \<and> (r = Inr () \<longrightarrow> kept_up q a w))
      (case r of Inl _ \<Rightarrow> upd_watch (\<lambda>wa. wa\<lparr>wa_pending_apply := True\<rparr>) | Inr _ \<Rightarrow> State_Monad.return ()) (\<lambda>_. steady_state q a)"
    by (cases r) (auto intro: valid_pre [OF kept_steady(2) [OF valid_owe]] valid_return steady_cases)
qed

lemma reload_steady: "valid (steady_state q a) (reload cfg) (\<lambda>_. steady_state q a)"
  by (rule valid_silent [OF silent_calls(2) steady_stable])

lemma notify_steady: "valid (steady_state q a) (notify kind msg) (\<lambda>_. steady_state q a)"
  by (rule valid_mild [OF mild_notify(1) stable_safe(4)])

section \<open>Onto the tunnel\<close>

text \<open>Nothing is owed: every write is applied, or no failover is left.\<close>

definition at_rest :: "bool \<Rightarrow> string \<Rightarrow> world \<Rightarrow> bool" where
  "at_rest q a w \<longleftrightarrow> safe q a w \<and> (applied (wd_deeds w) \<or> failover_of (wd_file w) = None)"

lemma rest_cases: "at_rest q a w \<Longrightarrow> safe q a w" "at_rest q a w \<Longrightarrow> steady_state q a w" "kept_up q a w \<Longrightarrow> at_rest q a w"
    "steady_state q a w \<Longrightarrow> \<not> wa_pending_apply (wd_watch w) \<Longrightarrow> at_rest q a w"
  by (auto simp: at_rest_def steady_state_def kept_up_def)

lemma stable_rest: "mild_stable (at_rest q a)" "stable (at_rest q a)" "stable (\<lambda>w. at_rest q a w \<and> ready_said (wd_deeds w))"
proof -
  show mild: "mild_stable (at_rest q a)"
    unfolding mild_stable_def at_rest_def by (auto dest: mild_safe)
  show "stable (at_rest q a)" by (rule stable_mild [OF mild])
  then show "stable (\<lambda>w. at_rest q a w \<and> ready_said (wd_deeds w))" unfolding stable_def silent_step_def by metis
qed

lemma commit_steady:
  "valid (\<lambda>w. at_rest q a w \<and> ready_said (wd_deeds w)) (update_vpn commit_change)
     (\<lambda>r w. case r of Inl _ \<Rightarrow> steady_state q a w | Inr _ \<Rightarrow> safe q a w)"
proof (rule valid_update [OF stable_rest(3), where R = "\<lambda>cfg' d b w. (at_rest q a w \<and> ready_said (wd_deeds w)) \<and>
    good q a cfg' \<and> d \<noteq> W_Begin \<and> (d = W_Commit \<longrightarrow> applied (wd_deeds w))"])
  fix cfg
  let ?P = "\<lambda>w. at_rest q a w \<and> ready_said (wd_deeds w)"
  let ?file = "\<lambda>w :: world. wd_file w = cfg"
  let ?R = "\<lambda>cfg' d b w. ?P w \<and> good q a cfg' \<and> d \<noteq> W_Begin \<and> (d = W_Commit \<longrightarrow> applied (wd_deeds w))"
  let ?Q = "\<lambda>r w. case r of Inl e \<Rightarrow> (case (Inl e :: watch_error + unit) of Inl _ \<Rightarrow> steady_state q a w | Inr _ \<Rightarrow> safe q a w)
      | Inr (cfg', d, b) \<Rightarrow> ?R cfg' d b w"
  have guarded: "mild_stable (\<lambda>w. at_rest q a w \<and> (failover_of cfg \<noteq> None \<longrightarrow> applied (wd_deeds w)))"
    unfolding mild_stable_def
  proof (intro allI impI)
    fix w w'
    assume w: "at_rest q a w \<and> (failover_of cfg \<noteq> None \<longrightarrow> applied (wd_deeds w))" and m: "mild_step w w'"
    have "safe q a w" using w by (simp add: at_rest_def)
    then show "at_rest q a w' \<and> (failover_of cfg \<noteq> None \<longrightarrow> applied (wd_deeds w'))"
      using w m stable_rest(1) mild_safe(2) [OF m] unfolding mild_stable_def by blast
  qed
  let ?G = "\<lambda>w. at_rest q a w \<and> (failover_of cfg \<noteq> None \<longrightarrow> applied (wd_deeds w))"
  have ready_stable: "stable (\<lambda>w. ?G w \<and> ready_said (wd_deeds w))"
    using stable_mild [OF guarded] unfolding stable_def silent_step_def by metis
  have check: "valid (\<lambda>w. ?G w \<and> ready_said (wd_deeds w)) (if wa_outbound wa = No_Guard then State_Monad.return (Inr ())
      else do { ready \<leftarrow> fallback_ready cfg; if \<not> ready then State_Monad.return (Inl Err_Other) else outbound_locked })
      (\<lambda>r w. ?G w \<and> (r = Inr () \<longrightarrow> ready_said (wd_deeds w)))" for wa
  proof (rule valid_if)
    show "valid (\<lambda>w. ?G w \<and> ready_said (wd_deeds w)) (State_Monad.return (Inr ()))
        (\<lambda>r w. ?G w \<and> (r = Inr () \<longrightarrow> ready_said (wd_deeds w)))"
      by (rule valid_return) simp
    have rest: "valid (\<lambda>w. ?G w \<and> (b \<longrightarrow> ready_said (wd_deeds w)))
        (if \<not> b then State_Monad.return (Inl Err_Other) else outbound_locked)
        (\<lambda>r w. ?G w \<and> (r = Inr () \<longrightarrow> ready_said (wd_deeds w)))" for b
      using valid_post [OF valid_silent [OF silent_outbound(2) ready_stable]] by (cases b) (auto intro!: valid_return)
    show "valid (\<lambda>w. ?G w \<and> ready_said (wd_deeds w))
        (do { ready \<leftarrow> fallback_ready cfg; if \<not> ready then State_Monad.return (Inl Err_Other) else outbound_locked })
        (\<lambda>r w. ?G w \<and> (r = Inr () \<longrightarrow> ready_said (wd_deeds w)))"
      by (rule valid_pre [OF valid_bind [OF valid_ready(1) [OF guarded] rest]]) simp
  qed
  show "valid (\<lambda>w. ?P w \<and> ?file w) (commit_change cfg) ?Q"
  proof (rule valid_cases [of _ "good q a (commit_xray_failover cfg)"])
    show "good q a (commit_xray_failover cfg)" if "?P w \<and> ?file w" for w
      using that keeps_operations(2) [of q a cfg] by (auto simp: at_rest_def safe_def keeps_client_def)
    assume ok: "good q a (commit_xray_failover cfg)"
    have finished: "valid (\<lambda>w. ?G w \<and> (r = Inr () \<longrightarrow> ready_said (wd_deeds w)))
        (State_Monad.return (case r of Inl e \<Rightarrow> Inl e
          | Inr _ \<Rightarrow> Inr (commit_xray_failover cfg, if failover_of cfg = None then W_Other else W_Commit, ()))) ?Q" for r
      by (rule valid_return) (use ok rest_cases(2) in \<open>auto split: sum.split\<close>)
    have "valid (\<lambda>w. ?G w \<and> ready_said (wd_deeds w)) (commit_change cfg) ?Q"
      unfolding commit_change_def
      by (rule valid_bind [where R = "\<lambda>_ w. ?G w \<and> ready_said (wd_deeds w)"], rule valid_the_watch, simp,
          rule valid_bind [OF check finished])
    then show "valid (\<lambda>w. ?P w \<and> ?file w) (commit_change cfg) ?Q"
      by (rule valid_pre) (auto simp: at_rest_def)
  qed
  show "?R cfg' d b (w\<lparr>wd_calls := n\<rparr>)" if "?R cfg' d b w" for cfg' d b w n
    using that stable_calls [OF stable_rest(3)] by auto
qed (auto simp: at_rest_def intro: wrote_safe steady_cases rest_cases(2))

section \<open>Handlers\<close>

text \<open>A handler that leaves a state between two calls whenever it starts in one.\<close>

definition steadily :: "bool \<Rightarrow> string \<Rightarrow> 'a act \<Rightarrow> bool" where
  "steadily q a c \<longleftrightarrow> valid (steady_state q a) c (\<lambda>_. steady_state q a)"

named_theorems steady_intros

lemma steadily_bind [steady_intros]: "steadily q a c \<Longrightarrow> (\<And>x. steadily q a (f x)) \<Longrightarrow> steadily q a (State_Monad.bind c f)"
  unfolding steadily_def by (rule valid_bind)

lemma steadily_return [steady_intros]: "steadily q a (State_Monad.return x)"
  by (simp add: steadily_def valid_return)

lemma steadily_if [steady_intros]: "(b \<Longrightarrow> steadily q a c) \<Longrightarrow> (\<not> b \<Longrightarrow> steadily q a d) \<Longrightarrow> steadily q a (if b then c else d)"
  by simp

lemma steadily_option [steady_intros]:
  "steadily q a f \<Longrightarrow> (\<And>x. steadily q a (g x)) \<Longrightarrow> steadily q a (case r of None \<Rightarrow> f | Some x \<Rightarrow> g x)"
  by (cases r) auto

lemma steadily_sum [steady_intros]:
  "(\<And>e. steadily q a (f e)) \<Longrightarrow> (\<And>x. steadily q a (g x)) \<Longrightarrow> steadily q a (case r of Inl e \<Rightarrow> f e | Inr x \<Rightarrow> g x)"
  by (cases r) auto

lemma steadily_prod [steady_intros]: "(\<And>x y. steadily q a (f x y)) \<Longrightarrow> steadily q a (case r of (x, y) \<Rightarrow> f x y)"
  by (cases r) auto

lemma steadily_attempt [steady_intros]: "steadily q a c \<Longrightarrow> (\<And>x. steadily q a (f x)) \<Longrightarrow> steadily q a (attempt c f)"
  unfolding attempt_def by (intro steady_intros)

lemma steadily_silent: "silent c \<Longrightarrow> steadily q a c"
  unfolding steadily_def by (rule valid_silent [OF _ steady_stable])

lemma steadily_mild: "mild c \<Longrightarrow> steadily q a c"
  unfolding steadily_def by (rule valid_mild [OF _ stable_safe(4)])

lemma steadily_calls [steady_intros]:
  "steadily q a (ask f)" "steadily q a the_watch" "steadily q a the_file" "steadily q a allowed" "steadily q a outbound_allowed"
  "steadily q a may_act" "steadily q a load_vpn" "steadily q a (reload cfg)" "steadily q a time_now"
  "steadily q a context_ended" "steadily q a load_subs" "steadily q a subscription_count" "steadily q a (valid_evidence e ks)"
  "steadily q a (active_label cfg)"
  "steadily q a apply_now" "steadily q a (fallback_ready cfg)" "steadily q a tproxy_ready" "steadily q a (notify kind msg)"
  "steadily q a (say msg)" "steadily q a restart_xray" "steadily q a probe_now"
  by (rule steadily_silent, intro silent_intros)+ (rule steadily_mild, intro mild_intros)+

lemma steadily_plain [steady_intros]: "plain_update f \<Longrightarrow> steadily q a (upd_watch f)"
  unfolding steadily_def by (rule valid_plain)

lemma steadily_owe [steady_intros]: "steadily q a (upd_watch (\<lambda>wa. wa\<lparr>wa_pending_apply := True\<rparr>))"
  unfolding steadily_def by (rule valid_pre [OF kept_steady(2) [OF valid_owe]]) (rule steady_cases)

text \<open>A write of the routes, and what follows it from a state that is only safe.\<close>

lemma steadily_write:
  assumes "\<And>cfg cfg' d b. f cfg = Inr (cfg', d, b) \<Longrightarrow> keeps_client q a cfg cfg' \<and> d \<noteq> W_Commit \<and> d \<noteq> W_Begin"
    and "\<And>e. steadily q a (g e)" and "\<And>b. valid (safe q a) (h b) (\<lambda>_. steady_state q a)"
  shows "steadily q a (do { r \<leftarrow> update_vpn (\<lambda>cfg. State_Monad.return (f cfg)); case r of Inl e \<Rightarrow> g e | Inr b \<Rightarrow> h b })"
  unfolding steadily_def
proof (rule valid_bind [OF valid_write [OF steady_stable steady_cases(1) assms(1)]])
  fix r
  show "valid (\<lambda>w. case r of Inl _ \<Rightarrow> steady_state q a w | Inr _ \<Rightarrow> safe q a w) (case r of Inl e \<Rightarrow> g e | Inr b \<Rightarrow> h b) (\<lambda>_. steady_state q a)"
    using assms(2,3) by (cases r) (simp_all add: steadily_def)
qed

lemma safe_then:
  "valid (safe q a) c (\<lambda>_. safe q a) \<Longrightarrow> (\<And>x. valid (safe q a) (f x) Q) \<Longrightarrow> valid (safe q a) (State_Monad.bind c f) Q"
  by (rule valid_bind)

lemma safe_calls:
  "valid (safe q a) (notify kind msg) (\<lambda>_. safe q a)" "valid (safe q a) (reload cfg) (\<lambda>_. safe q a)"
  "plain_update f \<Longrightarrow> valid (safe q a) (upd_watch f) (\<lambda>_. safe q a)"
  by (rule valid_mild [OF mild_notify(1) stable_safe(1)], rule valid_silent [OF silent_calls(2) safe_stable], rule valid_plain)

lemma apply_or_owe_then: "(\<And>x. steadily q a (f x)) \<Longrightarrow> valid (safe q a) (State_Monad.bind apply_or_owe f) (\<lambda>_. steady_state q a)"
  unfolding steadily_def by (rule valid_bind [OF apply_or_owe_steady])

text \<open>The apply that follows a write: owed where it fails.\<close>

lemma apply_then:
  assumes "\<And>e. valid (safe q a) (g e) (\<lambda>_. steady_state q a)" and "steadily q a h"
  shows "valid (safe q a) (do { r \<leftarrow> apply_now; case r of Inl e \<Rightarrow> g e | Inr _ \<Rightarrow> h }) (\<lambda>_. steady_state q a)"
proof (rule valid_bind [OF valid_apply_safe])
  fix r :: "watch_error + unit"
  show "valid (\<lambda>w. safe q a w \<and> (r = Inr () \<longrightarrow> kept_up q a w)) (case r of Inl e \<Rightarrow> g e | Inr _ \<Rightarrow> h) (\<lambda>_. steady_state q a)"
    using assms by (cases r) (auto simp: steadily_def intro: valid_pre dest: steady_cases)
qed

text \<open>The cases of an answer, of an apply and of TPROXY.\<close>

lemma valid_case:
  "(\<And>e. valid (P e) (g e) Q) \<Longrightarrow> (\<And>x. valid (R x) (h x) Q) \<Longrightarrow>
     valid (\<lambda>w. case r of Inl e \<Rightarrow> P e w | Inr x \<Rightarrow> R x w) (case r of Inl e \<Rightarrow> g e | Inr x \<Rightarrow> h x) Q"
  by (cases r) auto

lemma apply_kept:
  assumes "\<And>e. valid (safe q a) (g e) Q" and "valid (kept_up q a) h Q"
  shows "valid (safe q a) (do { r \<leftarrow> apply_now; case r of Inl e \<Rightarrow> g e | Inr _ \<Rightarrow> h }) Q"
proof (rule valid_bind [OF valid_apply_safe])
  fix r :: "watch_error + unit"
  show "valid (\<lambda>w. safe q a w \<and> (r = Inr () \<longrightarrow> kept_up q a w)) (case r of Inl e \<Rightarrow> g e | Inr _ \<Rightarrow> h) Q"
  proof (cases r)
    case (Inl e)
    then show ?thesis using assms(1) [of e] by simp
  next
    case (Inr u)
    have "valid (\<lambda>w. safe q a w \<and> kept_up q a w) h Q" by (rule valid_pre [OF assms(2)]) simp
    with Inr show ?thesis by simp
  qed
qed

lemma intercepts_then:
  assumes "valid (kept_up q a) d Q" and "valid (\<lambda>w. kept_up q a w \<and> tproxy_said (wd_deeds w)) c Q"
  shows "valid (kept_up q a) (do { ready \<leftarrow> tproxy_ready; if \<not> ready then d else c }) Q"
proof (rule valid_bind [OF valid_ready(2) [OF stable_safe(3)]])
  fix ready
  show "valid (\<lambda>w. kept_up q a w \<and> (ready \<longrightarrow> tproxy_said (wd_deeds w))) (if \<not> ready then d else c) Q"
    using assms by (cases ready) simp_all
qed

lemma steadily_kept: "steadily q a c \<Longrightarrow> valid (kept_up q a) c (\<lambda>_. steady_state q a)"
  unfolding steadily_def by (rule valid_pre, assumption) (rule steady_cases)

lemma owe_then: "(\<And>x. steadily q a (f x)) \<Longrightarrow>
  valid (safe q a) (State_Monad.bind (upd_watch (\<lambda>wa. wa\<lparr>wa_pending_apply := True\<rparr>)) f) (\<lambda>_. steady_state q a)"
  unfolding steadily_def by (rule valid_bind [OF kept_steady(2) [OF valid_owe]])

subsection \<open>Onto the tunnel\<close>

text \<open>Where no apply is owed and a failover is there, everything is applied.\<close>

lemma commit_then:
  assumes "\<And>e. steadily q a (g e)" and "\<And>x. valid (safe q a) (h x) (\<lambda>_. steady_state q a)"
  shows "valid (\<lambda>w. at_rest q a w \<and> ready_said (wd_deeds w))
    (do { r \<leftarrow> update_vpn commit_change; case r of Inl e \<Rightarrow> g e | Inr x \<Rightarrow> h x }) (\<lambda>_. steady_state q a)"
proof (rule valid_bind [OF commit_steady])
  fix r :: "watch_error + unit"
  show "valid (\<lambda>w. case r of Inl _ \<Rightarrow> steady_state q a w | Inr _ \<Rightarrow> safe q a w) (case r of Inl e \<Rightarrow> g e | Inr x \<Rightarrow> h x) (\<lambda>_. steady_state q a)"
    using assms by (cases r) (auto simp: steadily_def intro: valid_pre dest: steady_cases)
qed

lemma steadily_extend [steady_intros]: "steadily q a (extend_failover cfg)"
proof -
  let ?f = "\<lambda>current. Inr (fst (extend_xray_failover current), if xray_clients_outside_failover current = [] then W_Other else W_Extend,
      xray_clients_outside_failover current) :: watch_error + vpn_config \<times> routes_write \<times> string list"
  have "keeps_client q a current cfg' \<and> d \<noteq> W_Commit \<and> d \<noteq> W_Begin \<and>
      (joined = [] \<longrightarrow> d = W_Other \<and> (failover_of current = None \<longrightarrow> failover_of cfg' = None))"
    if "?f current = Inr (cfg', d, joined)" for current cfg' d joined
    using that keeps_operations(3) [of q a current] by (auto simp: extend_xray_failover_def split: if_splits)
  note changed = valid_same [of ?f q a "\<lambda>joined. joined = []", OF this]
  have owe: "valid (\<lambda>w. safe q a w \<and> (joined = [] \<longrightarrow> steady_state q a w))
      (upd_watch (\<lambda>wa. if joined \<noteq> [] then wa\<lparr>wa_pending_apply := True\<rparr> else wa)) (\<lambda>_. steady_state q a)" for joined :: "string list"
    by (cases joined) (auto simp: valid_def upd_watch_def steady_state_def safe_def waits_ok_def)
  have rest: "valid (\<lambda>w. case r of Inl _ \<Rightarrow> steady_state q a w | Inr joined \<Rightarrow> safe q a w \<and> (joined = [] \<longrightarrow> steady_state q a w))
      (case r of Inl _ \<Rightarrow> State_Monad.return cfg
       | Inr joined \<Rightarrow> do { upd_watch (\<lambda>wa. if joined \<noteq> [] then wa\<lparr>wa_pending_apply := True\<rparr> else wa); reload cfg })
      (\<lambda>_. steady_state q a)" for r :: "watch_error + string list"
    by (cases r) (auto intro: valid_return valid_bind [OF owe reload_steady])
  show ?thesis
    unfolding extend_failover_def steadily_def by (intro valid_if valid_return valid_bind [OF changed rest])
qed

lemma pay_apply_rests:
  "valid (steady_state q a) (pay_apply cfg) (\<lambda>r w. case r of None \<Rightarrow> steady_state q a w | Some _ \<Rightarrow> at_rest q a w)"
proof -
  let ?paid = "do { upd_watch (\<lambda>wa. wa\<lparr>wa_pending_apply := False\<rparr>); c \<leftarrow> reload cfg; State_Monad.return (Some c) }"
  let ?Q = "\<lambda>r w. case r of None \<Rightarrow> steady_state q a w | Some _ \<Rightarrow> at_rest q a w"
  have paid: "valid (kept_up q a) ?paid ?Q"
    by (rule valid_bind [OF valid_paid], rule valid_bind [OF valid_silent [OF silent_calls(2) kept_stable]], rule valid_return)
      (simp add: rest_cases)
  have owing: "valid (\<lambda>w. owed q a w \<and> (r = Inr () \<longrightarrow> kept_up q a w)) (case r of Inl _ \<Rightarrow> State_Monad.return None | Inr _ \<Rightarrow> ?paid) ?Q"
    for r :: "watch_error + unit"
    using paid by (cases r) (auto intro!: valid_return intro: steady_cases valid_pre)
  have "valid (\<lambda>w. steady_state q a w \<and> wa_pending_apply (wd_watch w) = wa_pending_apply wa)
      (if wa_pending_apply wa then do { r \<leftarrow> apply_now; case r of Inl _ \<Rightarrow> State_Monad.return None | Inr _ \<Rightarrow> ?paid }
       else State_Monad.return (Some cfg)) ?Q" for wa
    by (cases "wa_pending_apply wa")
      (auto simp: steady_state_def owed_def at_rest_def intro: valid_pre [OF valid_bind [OF valid_apply_owed owing]] valid_return)
  moreover have "valid (steady_state q a) the_watch (\<lambda>wa w. steady_state q a w \<and> wa_pending_apply (wd_watch w) = wa_pending_apply wa)"
    by (rule valid_the_watch) simp
  ultimately show ?thesis
    unfolding pay_apply_def by (intro valid_bind)
qed

lemma commit_failover_steady: "valid (at_rest q a) (commit_failover cfg) (\<lambda>_. steady_state q a)"
proof -
  let ?commit = "do { r \<leftarrow> update_vpn commit_change; case r of Inl _ \<Rightarrow> State_Monad.return (cfg, False)
      | Inr _ \<Rightarrow> do { c \<leftarrow> reload cfg; r \<leftarrow> apply_now;
          case r of Inl _ \<Rightarrow> do { upd_watch (\<lambda>wa. wa\<lparr>wa_pending_apply := True\<rparr>); State_Monad.return (c, False) }
          | Inr _ \<Rightarrow> do { upd_watch reset_fallback_state; State_Monad.return (c, True) } } }"
  have "valid (\<lambda>w. at_rest q a w \<and> ready_said (wd_deeds w)) ?commit (\<lambda>_. steady_state q a)"
    by (intro commit_then steady_intros valid_bind [OF safe_calls(2)] apply_then owe_then plain_resets)
  then have commit: "valid (\<lambda>w. at_rest q a w \<and> (ready \<longrightarrow> ready_said (wd_deeds w)))
      (if \<not> ready then State_Monad.return (cfg, False) else ?commit) (\<lambda>_. steady_state q a)" for ready
    by (cases ready) (auto intro: valid_return rest_cases)
  show ?thesis
    unfolding commit_failover_def
    by (intro valid_if valid_return rest_cases(2) valid_bind [OF valid_ready(1) [OF stable_rest(1)] commit])
qed

lemma steadily_apply_failover [steady_intros]: "steadily q a (apply_failover cfg)"
proof -
  have "valid (\<lambda>w. case paid of None \<Rightarrow> steady_state q a w | Some _ \<Rightarrow> at_rest q a w)
      (case paid of None \<Rightarrow> State_Monad.return (cfg, False) | Some c \<Rightarrow> commit_failover c) (\<lambda>_. steady_state q a)" for paid
    by (cases paid) (auto intro: valid_return commit_failover_steady)
  then show ?thesis
    unfolding steadily_def apply_failover_def by (rule valid_bind [OF pay_apply_rests])
qed

subsection \<open>From tunnel to tunnel\<close>

lemma steadily_fallback_carries [steady_intros]: "steadily q a (fallback_carries cfg)"
  unfolding fallback_carries_def by (intro steady_intros)

lemma retarget_write:
  "Inr (retarget k cfg, W_Retarget, ()) = Inr (cfg', d, b) \<Longrightarrow> keeps_client True a cfg cfg' \<and> d \<noteq> W_Commit \<and> d \<noteq> W_Begin"
  using keeps_retarget [of a cfg k] by auto

lemma steadily_leave_tunnel [steady_intros]: "steadily True a (leave_tunnel cfg k plat now)"
proof -
  have note_none: "valid (safe True a) (if b then upd_watch (\<lambda>wa. wa\<lparr>wa_route_kind := Note_None\<rparr>) else notify kind msg) (\<lambda>_. safe True a)"
    for b kind msg
    by (intro valid_if safe_calls plain_fields)
  show ?thesis
    unfolding leave_tunnel_def Let_def
    by (intro steady_intros plain_fields steadily_write retarget_write valid_bind [OF note_none]
        valid_bind [OF safe_calls(3) [OF plain_resets(1)]] apply_or_owe_then)
qed

lemma steadily_watch_fallback [steady_intros]: "steadily True a (watch_fallback cfg)"
  unfolding watch_fallback_def Let_def by (intro steady_intros plain_fields)

lemma steadily_switch [steady_intros]: "steadily True a (switch_fallback cfg now)"
  unfolding switch_fallback_def Let_def
  by (intro steady_intros plain_fields plain_resets steadily_write retarget_write apply_or_owe_then)

lemma steadily_retry [steady_intros]: "steadily True a (retry_or_switch_fallback cfg)"
  unfolding retry_or_switch_fallback_def by (intro steady_intros plain_fields)

subsection \<open>A dead outbound\<close>

lemma stage_write:
  "valid (steady_state False a) (update_vpn (stage_change cfg k))
     (\<lambda>r w. case r of Inl _ \<Rightarrow> steady_state False a w | Inr _ \<Rightarrow> safe True a w)"
  unfolding stage_change_def [abs_def]
proof (rule valid_update_pure [OF steady_stable])
  fix cfg' d b and w :: world
  let ?w = "w\<lparr>wd_file := cfg', wd_deeds := Wrote d # wd_deeds w\<rparr>"
  assume w: "steady_state False a w" and f: "(if (x_pending (cfg_xray (wd_file w)) \<noteq> None \<or> x_pending (cfg_xray cfg) \<noteq> None) \<and>
           \<not> (case x_pending (cfg_xray cfg) of None \<Rightarrow> False | Some p \<Rightarrow> pending_restore_guard (wd_file w) p)
        then Inl Err_Superseded
        else
          let staged = stage_xray_clients (wd_file w) k in
          if failover_of staged = None then Inl Err_Other
          else Inr (upd_xray (\<lambda>x. x\<lparr>x_pending := None\<rparr>) staged, W_Stage, ())) = Inr (cfg', d, b)"
  have written: "cfg' = upd_xray (\<lambda>x. x\<lparr>x_pending := None\<rparr>) (stage_xray_clients (wd_file w) k)" "d = W_Stage"
    using f by (auto simp: Let_def split: if_splits)
  have "safe False a w" using w by (rule steady_cases)
  then have "safe True a ?w"
    using written keeps_operations(1) [of False a "wd_file w" k] by (auto simp: safe_def keeps_client_def good_def alone_def)
  then show "case Inr b of Inl _ \<Rightarrow> steady_state False a ?w | Inr _ \<Rightarrow> safe True a ?w" by simp
qed auto

lemma steady_weaken: "steady_state True a w \<Longrightarrow> steady_state q a w"
  by (auto simp: steady_state_def safe_def good_def alone_def)

lemma weaken: "valid P c (\<lambda>_. steady_state True a) \<Longrightarrow> valid P c (\<lambda>_. steady_state False a)"
  by (erule valid_post) (rule steady_weaken)

lemma steadily_move [steady_intros]: "steadily False a (move_to_tunnel cfg k)"
proof -
  have refused: "valid (steady_state False a) (State_Monad.return None) (\<lambda>_. steady_state False a)"
    by (simp add: valid_return)
  show ?thesis
    unfolding steadily_def move_to_tunnel_def
    by (rule valid_bind [OF stage_write valid_case [OF refused weaken]])
      (intro steady_intros plain_fields plain_resets valid_bind [OF safe_calls(3) [OF plain_fields(9)]] apply_then owe_then)
qed

lemma plain_death [simp]:
  "plain_update (\<lambda>wa. if wa_return_death wa \<noteq> wa_fail_since wa
     then return_after_death now (wa\<lparr>wa_return_death := wa_fail_since wa\<rparr>) else wa)"
proof -
  have "plain_update (\<lambda>wa. wa\<lparr>wa_return_death := wa_fail_since wa\<rparr>)"
    by (simp add: plain_update_def waits_ok_def)
  then have "plain_update (\<lambda>wa. return_after_death now (wa\<lparr>wa_return_death := wa_fail_since wa\<rparr>))"
    by (rule plain_comp [OF plain_resets(6)])
  then show ?thesis by (simp add: plain_update_def)
qed

lemma steadily_death [steady_intros]: "steadily q a settle_death"
  unfolding settle_death_def by (intro steady_intros plain_death)

lemma steadily_fail [steady_intros]: "steadily False a (fail_outbound cfg)"
  unfolding fail_outbound_def Let_def by (intro steady_intros plain_fields plain_resets)

subsection \<open>Back to Xray\<close>

lemma steadily_unstage [steady_intros]: "steadily q a unstage_restore"
proof -
  have "keeps_client q a current cfg' \<and> d \<noteq> W_Commit \<and> d \<noteq> W_Begin"
    if "Inr (commit_xray_failover current, W_Unstage, ()) = Inr (cfg', d, b)" for current cfg' d b
    using that keeps_operations(2) [of q a current] by auto
  then show ?thesis
    unfolding unstage_restore_def
    by (intro steadily_write steady_intros apply_or_owe_steady)
qed

lemma steadily_tproxy [steady_intros]: "steadily q a tproxy_first"
  unfolding tproxy_first_def by (intro steady_intros plain_fields)

lemma finish_kinds:
  assumes "pending_restore_guard cfg expected"
  shows "finalize_restore ready after expected cfg = Reinstated cfg' \<Longrightarrow> keeps_client q a cfg cfg'"
    and "finalize_restore ready after expected cfg = Finished done committed cfg' \<Longrightarrow>
      keeps_client q a cfg cfg' \<and> failover_of cfg' = None"
  using assms
  by (auto simp: finalize_restore_def Let_def keeps_reinstate keeps_operations(5) pending_restore_guard_def split: if_splits option.splits)

text \<open>What the end of a restore writes: the failover reinstated, or no failover at all.\<close>

lemma finish_write:
  "valid (steady_state q a) (update_vpn (finish_change expected after))
     (\<lambda>r w. case r of Inl _ \<Rightarrow> steady_state q a w
        | Inr (reinstated, finished, committed) \<Rightarrow> safe q a w \<and> (\<not> reinstated \<longrightarrow> at_rest q a w) \<and> (reinstated \<longrightarrow> \<not> finished))"
proof (rule valid_update [where R = "\<lambda>cfg' d (reinstated, finished, committed) w. steady_state q a w \<and>
    good q a cfg' \<and> d \<noteq> W_Commit \<and> d \<noteq> W_Begin \<and> (\<not> reinstated \<longrightarrow> failover_of cfg' = None) \<and>
    (reinstated \<longrightarrow> \<not> finished)", OF steady_stable])
  fix cfg
  let ?R = "\<lambda>cfg' d (reinstated, finished, committed :: bool) w. steady_state q a w \<and>
    good q a cfg' \<and> d \<noteq> W_Commit \<and> d \<noteq> W_Begin \<and> (\<not> reinstated \<longrightarrow> failover_of cfg' = None) \<and>
    (reinstated \<longrightarrow> \<not> finished)"
  let ?Q = "\<lambda>r w. case r of Inl e \<Rightarrow> (case (Inl e :: watch_error + bool \<times> bool \<times> bool) of Inl _ \<Rightarrow> steady_state q a w
        | Inr (reinstated, finished, committed) \<Rightarrow> safe q a w \<and> (\<not> reinstated \<longrightarrow> at_rest q a w) \<and> (reinstated \<longrightarrow> \<not> finished))
      | Inr (cfg', d, b) \<Rightarrow> ?R cfg' d b w"
  show "valid (\<lambda>w. steady_state q a w \<and> wd_file w = cfg) (finish_change expected after cfg) ?Q"
  proof (rule valid_cases [of _ "good q a cfg"])
    show "good q a cfg" if "steady_state q a w \<and> wd_file w = cfg" for w
      using that by (auto simp: steady_state_def safe_def)
    assume ok: "good q a cfg"
    have answer: "valid (steady_state q a) (State_Monad.return (case finalize_restore ready after expected cfg of
        GuardSuperseded \<Rightarrow> Inl Err_Superseded | NeedsApply \<Rightarrow> Inl Err_Needs_Apply | ApplyFailed \<Rightarrow> Inl Err_Restore_Apply
      | Reinstated cfg \<Rightarrow> Inr (cfg, W_Reinstate, True, False, False)
      | Finished finished committed cfg \<Rightarrow> Inr (cfg, W_Other, False, finished, committed))) ?Q"
      if "pending_restore_guard cfg expected" for ready
      using finish_kinds [OF that, of ready after, where a = a] ok
      by (intro valid_return) (auto simp: keeps_client_def split: finish.splits)
    have "valid (steady_state q a) (finish_change expected after cfg) ?Q"
      unfolding finish_change_def
      by (intro valid_if valid_bind [OF valid_mild [OF mild_ready(2) stable_safe(4)]] valid_check [OF silent_allowed(1) steady_stable] answer)
        (auto intro: valid_return)
    then show "valid (\<lambda>w. steady_state q a w \<and> wd_file w = cfg) (finish_change expected after cfg) ?Q"
      by (rule valid_pre) simp
  qed
qed (use stable_calls [OF steady_stable] in \<open>auto simp: steady_state_def at_rest_def intro: wrote_safe split: prod.splits\<close>)

lemma steadily_finish [steady_intros]: "steadily q a (finish_restore expected after)"
proof -
  let ?owe = "\<lambda>e :: watch_error. do { upd_watch (\<lambda>wa. wa\<lparr>wa_pending_apply := True\<rparr>); State_Monad.return (Inl e) }"
  let ?cleared = "\<lambda>wa. wa\<lparr>wa_pending_apply := False, wa_pending_restore := None\<rparr>"
  have clear: "valid (safe q a) (upd_watch ?cleared) (\<lambda>_. safe q a)" "valid (at_rest q a) (upd_watch ?cleared) (\<lambda>_. at_rest q a)"
    by (auto simp: valid_def upd_watch_def safe_def at_rest_def waits_ok_def)
  have clock: "valid (safe q a) time_now (\<lambda>_. safe q a)"
    by (rule valid_silent [OF silent_calls(5) safe_stable])
  have failed: "valid (safe q a) (upd_watch (\<lambda>wa. wa\<lparr>wa_tproxy_fail := now\<rparr>)) (\<lambda>_. safe q a)" for now
    by (rule valid_plain) simp
  have left: "valid (at_rest q a) (if finished then do { upd_watch (\<lambda>wa. reset_fallback_state (settled now wa)); State_Monad.return (Inr (finished, committed)) }
      else do { upd_watch (\<lambda>wa. wa\<lparr>wa_tproxy_fail := now\<rparr>);
        r \<leftarrow> State_Monad.return (Inr ());
        case r of Inl e \<Rightarrow> ?owe e | Inr _ \<Rightarrow> State_Monad.return (Inr (False, False)) }) (\<lambda>_. steady_state q a)"
    (is "valid _ ?left _") for now finished committed
  proof -
    have "steadily q a ?left"
      by (intro steady_intros plain_fields plain_comp [OF plain_resets(1) plain_resets(3)])
    then show ?thesis unfolding steadily_def by (rule valid_pre) (rule rest_cases)
  qed
  have reapplied: "valid (safe q a) (do { upd_watch (\<lambda>wa. wa\<lparr>wa_tproxy_fail := now\<rparr>); r \<leftarrow> apply_now;
        case r of Inl e \<Rightarrow> ?owe e | Inr _ \<Rightarrow> State_Monad.return (Inr (False, False)) }) (\<lambda>_. steady_state q a)" for now
    by (intro valid_bind [OF failed] apply_then owe_then steady_intros)
  have rest: "valid (\<lambda>w. safe q a w \<and> (\<not> reinstated \<longrightarrow> at_rest q a w) \<and> (reinstated \<longrightarrow> \<not> finished)) (do {
        upd_watch ?cleared;
        now \<leftarrow> time_now;
        if finished then do { upd_watch (\<lambda>wa. reset_fallback_state (settled now wa)); State_Monad.return (Inr (finished, committed)) }
        else do { upd_watch (\<lambda>wa. wa\<lparr>wa_tproxy_fail := now\<rparr>);
          r \<leftarrow> (if reinstated then apply_now else State_Monad.return (Inr ()));
          case r of Inl e \<Rightarrow> ?owe e | Inr _ \<Rightarrow> State_Monad.return (Inr (False, False)) } }) (\<lambda>_. steady_state q a)"
    (is "valid ?pre ?rest _") for reinstated finished committed
  proof (rule valid_cases [of _ "reinstated \<longrightarrow> \<not> finished"])
    assume exclusive: "reinstated \<longrightarrow> \<not> finished"
    show "valid ?pre ?rest (\<lambda>_. steady_state q a)"
    proof (cases reinstated)
      case True
      have "valid (safe q a) ?rest (\<lambda>_. steady_state q a)"
        using True exclusive by (simp del: bind_assoc) (intro valid_bind [OF clear(1)] valid_bind [OF clock] reapplied)
      then show ?thesis by (rule valid_pre) simp
    next
      case False
      have "valid (at_rest q a) ?rest (\<lambda>_. steady_state q a)"
        using False valid_bind [OF clear(2) valid_bind [OF valid_silent [OF silent_calls(5) stable_rest(2)] left]] by simp
      then show ?thesis by (rule valid_pre) (use False in simp)
    qed
  qed simp
  have "valid (\<lambda>w. case r of Inl _ \<Rightarrow> steady_state q a w
        | Inr (reinstated, finished, committed) \<Rightarrow> safe q a w \<and> (\<not> reinstated \<longrightarrow> at_rest q a w) \<and> (reinstated \<longrightarrow> \<not> finished))
      (case r of Inl e \<Rightarrow> ?owe e | Inr (reinstated, finished, committed) \<Rightarrow> do {
        upd_watch ?cleared;
        now \<leftarrow> time_now;
        if finished then do { upd_watch (\<lambda>wa. reset_fallback_state (settled now wa)); State_Monad.return (Inr (finished, committed)) }
        else do { upd_watch (\<lambda>wa. wa\<lparr>wa_tproxy_fail := now\<rparr>);
          r \<leftarrow> (if reinstated then apply_now else State_Monad.return (Inr ()));
          case r of Inl e \<Rightarrow> ?owe e | Inr _ \<Rightarrow> State_Monad.return (Inr (False, False)) } }) (\<lambda>_. steady_state q a)"
    for r :: "watch_error + bool \<times> bool \<times> bool"
  proof (cases r)
    case (Inl e)
    have "steadily q a (?owe e)" by (intro steady_intros)
    with Inl show ?thesis by (simp add: steadily_def)
  next
    case (Inr b)
    obtain reinstated finished committed where "b = (reinstated, finished, committed)" by (cases b)
    with Inr rest [of reinstated finished committed] show ?thesis by simp
  qed
  then show ?thesis
    unfolding steadily_def finish_restore_def by (rule valid_bind [OF finish_write])
qed

text \<open>A change behind a guard.\<close>

lemma valid_guarded:
  fixes f :: "vpn_config \<Rightarrow> watch_error + vpn_config \<times> routes_write \<times> 'b"
  assumes "\<And>cfg. silent (guard cfg)" and "stable P" and "\<And>w. P w \<Longrightarrow> safe q a w"
    and "\<And>cfg cfg' d b. f cfg = Inr (cfg', d, b) \<Longrightarrow> keeps_client q a cfg cfg' \<and> d \<noteq> W_Commit"
    and "\<And>cfg cfg' b w. f cfg = Inr (cfg', W_Begin, b) \<Longrightarrow> P w \<Longrightarrow> applied (wd_deeds w) \<and> tproxy_said (wd_deeds w)"
  shows "valid P (update_vpn (\<lambda>current. attempt (guard current) (\<lambda>_. State_Monad.return (f current))))
    (\<lambda>r w. case r of Inl _ \<Rightarrow> P w | Inr _ \<Rightarrow> safe q a w)"
proof (rule valid_update [where R = "\<lambda>cfg' d b w. P w \<and> good q a cfg' \<and> d \<noteq> W_Commit \<and>
    (d = W_Begin \<longrightarrow> applied (wd_deeds w) \<and> tproxy_said (wd_deeds w))", OF assms(2)])
  fix cfg
  let ?Q = "\<lambda>r w. case r of Inl e \<Rightarrow> (case (Inl e :: watch_error + 'b) of Inl _ \<Rightarrow> P w | Inr _ \<Rightarrow> safe q a w)
      | Inr (cfg', d, b) \<Rightarrow> P w \<and> good q a cfg' \<and> d \<noteq> W_Commit \<and>
          (d = W_Begin \<longrightarrow> applied (wd_deeds w) \<and> tproxy_said (wd_deeds w))"
  show "valid (\<lambda>w. P w \<and> wd_file w = cfg) (attempt (guard cfg) (\<lambda>_. State_Monad.return (f cfg))) ?Q"
  proof (rule valid_cases [of _ "good q a cfg"])
    show "good q a cfg" if "P w \<and> wd_file w = cfg" for w
      using that assms(3) by (auto simp: safe_def)
    assume "good q a cfg"
    then have "?Q (f cfg) w" if "P w" for w
      using that assms(4,5) [of cfg] by (fastforce simp: keeps_client_def split: sum.split)
    then have "valid P (attempt (guard cfg) (\<lambda>_. State_Monad.return (f cfg))) ?Q"
      by (intro valid_check [OF assms(1,2)] valid_return) auto
    then show "valid (\<lambda>w. P w \<and> wd_file w = cfg) (attempt (guard cfg) (\<lambda>_. State_Monad.return (f cfg))) ?Q"
      by (rule valid_pre) simp
  qed
  show "P (w\<lparr>wd_calls := n\<rparr>) \<and> good q a cfg' \<and> d \<noteq> W_Commit \<and>
      (d = W_Begin \<longrightarrow> applied (wd_deeds (w\<lparr>wd_calls := n\<rparr>)) \<and> tproxy_said (wd_deeds (w\<lparr>wd_calls := n\<rparr>)))"
    if "P w \<and> good q a cfg' \<and> d \<noteq> W_Commit \<and>
      (d = W_Begin \<longrightarrow> applied (wd_deeds w) \<and> tproxy_said (wd_deeds w))" for cfg' d w n
    using that stable_calls [OF assms(2)] by simp
qed (use assms(3) in \<open>auto intro: wrote_safe\<close>)

lemma ensure_keeps: "Inr (ensure_failover_staged cfg, W_Ensure, ()) = Inr (cfg', d, b) \<Longrightarrow> keeps_client q a cfg cfg' \<and> d \<noteq> W_Commit"
  using keeps_operations(4) [of q a cfg] by auto

lemma begin_keeps:
  assumes "(if x_pending (cfg_xray cfg) \<noteq> None \<or> failover_of cfg = None then Inl Err_Superseded
      else case begin_xray_restore cfg of (c, Some p) \<Rightarrow> Inr (c, W_Begin, p) | (c, None) \<Rightarrow> Inl Err_Superseded) = Inr (cfg', d, b)"
  shows "keeps_client False a cfg cfg' \<and> d \<noteq> W_Commit"
  using assms keeps_begin by (fastforce split: if_splits prod.splits option.splits)

text \<open>The other way is in the kernel and TPROXY intercepts: the clients may leave the tunnel.\<close>

lemma leave_fallback_steady:
  assumes "\<And>cfg. silent (guard cfg)"
  shows "valid (\<lambda>w. kept_up False a w \<and> tproxy_said (wd_deeds w)) (leave_fallback guard committed) (\<lambda>_. steady_state False a)"
proof -
  have begun: "valid (\<lambda>w. kept_up False a w \<and> tproxy_said (wd_deeds w)) (update_vpn (begin_change guard))
      (\<lambda>r w. case r of Inl _ \<Rightarrow> kept_up False a w \<and> tproxy_said (wd_deeds w) | Inr _ \<Rightarrow> safe False a w)"
    unfolding begin_change_def [abs_def]
  proof (rule valid_guarded [OF assms stable_ready(2)])
    show "keeps_client False a cfg cfg' \<and> d \<noteq> W_Commit"
      if "(if x_pending (cfg_xray cfg) \<noteq> None \<or> failover_of cfg = None then Inl Err_Superseded
        else case begin_xray_restore cfg of (c, Some p) \<Rightarrow> Inr (c, W_Begin, p) | (c, None) \<Rightarrow> Inl Err_Superseded) = Inr (cfg', d, b)"
      for cfg cfg' d b using that by (rule begin_keeps)
  qed (auto simp: kept_up_def)
  have refused: "steadily False a (do {
      (if ends_walk e \<and> committed \<and> e = Err_Superseded then unstage_restore else State_Monad.return ());
      State_Monad.return (not_done committed (refusal_of e)) })" for e
    by (intro steady_intros)
  have left: "valid (safe False a) (do {
      upd_watch (\<lambda>wa. wa\<lparr>wa_pending_restore := Some p\<rparr>);
      r \<leftarrow> apply_now;
      (case r of
         Inl e \<Rightarrow> do { upd_watch (\<lambda>wa. wa\<lparr>wa_pending_apply := True\<rparr>); State_Monad.return (not_done committed (refusal_of e)) }
       | Inr _ \<Rightarrow> do {
           r \<leftarrow> finish_restore p True;
           State_Monad.return (case r of
             Inl e \<Rightarrow> not_done False (refusal_of e)
           | Inr (done, committed) \<Rightarrow> \<lparr>rd_done = done, rd_committed = committed, rd_refused = None\<rparr>) }) })
      (\<lambda>_. steady_state False a)" for p
    by (intro valid_bind [OF safe_calls(3) [OF plain_fields(8)]] apply_then owe_then steady_intros)
  show ?thesis
    unfolding leave_fallback_def
    by (rule valid_bind [OF begun valid_case [OF _ left]]) (rule valid_pre [OF steadily_kept [OF refused]], simp)
qed

lemma steadily_commit_restore [steady_intros]:
  assumes "\<And>cfg. silent (guard cfg)"
  shows "steadily False a (commit_restore cfg guard)"
proof -
  let ?committed = "failover_committed cfg"
  let ?not_ready = "do {
      now \<leftarrow> time_now;
      upd_watch (\<lambda>wa. wa\<lparr>wa_tproxy_fail := now\<rparr>);
      (if ?committed then unstage_restore else State_Monad.return ());
      State_Monad.return (not_done ?committed None) }"
  let ?on = "do { upd_watch (\<lambda>wa. wa\<lparr>wa_tproxy_fail := zero_time\<rparr>); leave_fallback guard ?committed }"
  let ?owe = "do { upd_watch (\<lambda>wa. wa\<lparr>wa_pending_apply := True\<rparr>); State_Monad.return (not_done ?committed None) }"
  have on: "valid (\<lambda>w. kept_up False a w \<and> tproxy_said (wd_deeds w)) ?on (\<lambda>_. steady_state False a)"
  proof (rule valid_bind [OF _ leave_fallback_steady [OF assms]])
    show "valid (\<lambda>w. kept_up False a w \<and> tproxy_said (wd_deeds w)) (upd_watch (\<lambda>wa. wa\<lparr>wa_tproxy_fail := zero_time\<rparr>))
        (\<lambda>_ w. kept_up False a w \<and> tproxy_said (wd_deeds w))"
      by (auto simp: valid_def upd_watch_def kept_up_def safe_def waits_ok_def)
  qed
  have off: "steadily False a ?not_ready" by (intro steady_intros plain_fields)
  have owe: "valid (safe False a) ?owe (\<lambda>_. steady_state False a)" by (intro owe_then steady_intros)
  have ensured: "valid (safe False a) (do { r \<leftarrow> apply_now; case r of Inl _ \<Rightarrow> ?owe
      | Inr _ \<Rightarrow> do { ready \<leftarrow> tproxy_ready; if \<not> ready then ?not_ready else ?on } }) (\<lambda>_. steady_state False a)"
    by (intro apply_kept intercepts_then owe on steadily_kept [OF off])
  have staged: "steadily False a (do { r \<leftarrow> update_vpn (ensure_change guard);
      case r of Inl e \<Rightarrow> State_Monad.return (not_done ?committed (refusal_of e)) | Inr _ \<Rightarrow> do { r \<leftarrow> apply_now; case r of Inl _ \<Rightarrow> ?owe
      | Inr _ \<Rightarrow> do { ready \<leftarrow> tproxy_ready; if \<not> ready then ?not_ready else ?on } } })"
    unfolding steadily_def ensure_change_def [abs_def]
    by (rule valid_bind [OF valid_guarded [OF assms steady_stable steady_cases(1) ensure_keeps] valid_case [OF _ ensured]])
      (auto intro: valid_return)
  show ?thesis
    unfolding commit_restore_def Let_def by (intro steady_intros staged plain_resets)
qed

subsection \<open>A restore that was interrupted\<close>

lemma discard_rests:
  "valid (steady_state False a) (update_vpn (discard_change cfg)) (\<lambda>r w. case r of Inl _ \<Rightarrow> steady_state False a w | Inr _ \<Rightarrow> at_rest False a w)"
  unfolding discard_change_def [abs_def]
proof (rule valid_update_pure [OF steady_stable])
  fix cfg' d b w
  assume w: "steady_state False a w" and f: "(case discard_stale_intent cfg (wd_file w) of None \<Rightarrow> Inl Err_Superseded | Some c \<Rightarrow> Inr (c, W_Other, ()))
      = Inr (cfg', d, b)"
  then have cfg': "cfg' = upd_xray (\<lambda>x. x\<lparr>x_pending := None\<rparr>) (wd_file w)" "x_pending (cfg_xray (wd_file w)) \<noteq> None" "d = W_Other"
    by (auto simp: discard_stale_intent_def split: option.splits if_splits)
  moreover have safe: "safe False a w" using w by (rule steady_cases)
  moreover have "failover_of (wd_file w) = None" using safe cfg'(2) by (simp add: safe_def good_def alone_def)
  ultimately show "case Inr b of Inl _ \<Rightarrow> steady_state False a (w\<lparr>wd_file := cfg', wd_deeds := Wrote d # wd_deeds w\<rparr>)
      | Inr _ \<Rightarrow> at_rest False a (w\<lparr>wd_file := cfg', wd_deeds := Wrote d # wd_deeds w\<rparr>)"
    using keeps_operations(5) [of False a "wd_file w"] by (auto simp: at_rest_def safe_def keeps_client_def)
qed auto

lemma steadily_reconcile [steady_intros]: "steadily False a (reconcile_restore cfg)"
proof (cases "x_pending (cfg_xray cfg)")
  case None
  then show ?thesis by (simp add: reconcile_restore_def steadily_return)
next
  case (Some pending)
  let ?discard = "attempt (update_vpn (discard_change cfg)) (\<lambda>_. do {
      upd_watch (\<lambda>wa. reset_fail (wa\<lparr>wa_pending_apply := False, wa_pending_restore := None\<rparr>));
      State_Monad.return (Inl Err_Superseded :: watch_error + unit) })"
  have "valid (at_rest False a) (do { upd_watch (\<lambda>wa. reset_fail (wa\<lparr>wa_pending_apply := False, wa_pending_restore := None\<rparr>));
      State_Monad.return (Inl Err_Superseded :: watch_error + unit) }) (\<lambda>_. steady_state False a)"
    by (auto simp: valid_def upd_watch_def at_rest_def steady_state_def safe_def waits_ok_def reset_fail_def)
  then have discard: "steadily False a ?discard"
    unfolding steadily_def by (intro valid_attempt [OF valid_post [OF discard_rests]]) (auto split: sum.splits)
  show ?thesis
    unfolding reconcile_restore_def Some option.case announce_active_def announce_restored_def by (intro steady_intros discard)
qed

end
