(* ===== verification/Watch_Switch.thy ===== *)
theory Watch_Switch
  imports Watch_Order "HOL-Library.Product_Lexorder"
begin

text \<open>
  How the watch puts Xray on another server (\<^verbatim>\<open>subwatch/best.go\<close>, \<^verbatim>\<open>reach.go\<close>,
  \<^verbatim>\<open>fast.go\<close>, the switcher of \<^verbatim>\<open>return.go\<close>, and
  \<^verbatim>\<open>service/activeserver.go\<close>): which copy is the best to try by the evidence of the monitor, which
  address accepts a connection, the write of \<^verbatim>\<open>config.json\<close> and of the record under one lock and
  two runs of a guard, and one switch with its restart and its probe.
\<close>

section \<open>The best copy\<close>

record best_ref =
  br_subscription :: string
  br_group :: string

definition ref_for :: "vpn_config \<Rightarrow> server list \<Rightarrow> best_ref" where
  "ref_for cfg servers =
     (case choice_of (cfg_xray cfg) of
        None \<Rightarrow> \<lparr>br_subscription = [], br_group = []\<rparr>
      | Some a \<Rightarrow> \<lparr>br_subscription = as_subscription a,
          br_group = (if as_group a \<noteq> [] then as_group a
            else case chosen_index servers (Some a) of None \<Rightarrow> [] | Some i \<Rightarrow> group_of (servers ! i))\<rparr>)"

definition copy_state :: "evidence option \<Rightarrow> server \<Rightarrow> endpoint_state option" where
  "copy_state ev c = (case ev of None \<Rightarrow> None | Some e \<Rightarrow> ev_endpoints e (endpoint_key c))"

definition copy_alive :: "evidence option \<Rightarrow> server \<Rightarrow> bool" where
  "copy_alive ev c \<longleftrightarrow> map_option ps_status (copy_state ev c) = Some St_Alive"

definition copy_rejected :: "evidence option \<Rightarrow> server \<Rightarrow> bool" where
  "copy_rejected ev c \<longleftrightarrow> map_option ps_status (copy_state ev c) = Some St_Rejected"

definition best_tier :: "best_ref \<Rightarrow> evidence option \<Rightarrow> server \<Rightarrow> nat" where
  "best_tier ref ev c =
     (let in_group = (br_group ref = [] \<or> group_of c = br_group ref); own = (sv_subscription c = br_subscription ref) in
      if copy_alive ev c then (if in_group \<and> own then 0 else if in_group then 1 else if own then 2 else 3)
      else if in_group then 4 else 5)"

definition best_key :: "best_ref \<Rightarrow> evidence option \<Rightarrow> server \<Rightarrow> nat \<times> int" where
  "best_key ref ev c =
     (best_tier ref ev c, if copy_alive ev c then (case copy_state ev c of Some st \<Rightarrow> ps_latency st | None \<Rightarrow> 0) else 0)"

text \<open>The stable sort: ties stay in the order given. Without evidence nothing counts as alive.\<close>

definition order_best :: "server list \<Rightarrow> best_ref \<Rightarrow> evidence option \<Rightarrow> server list" where
  "order_best copies ref ev = sort_key (best_key ref ev) (filter (\<lambda>c. \<not> copy_rejected ev c) copies)"

text \<open>What a look at the monitor gives: no order, nothing yet, or evidence that is valid for the servers.\<close>

datatype look = No_Evidence | Waiting | Fresh evidence

definition fresh_of :: "look \<Rightarrow> evidence option" where
  "fresh_of l = (case l of Fresh e \<Rightarrow> Some e | _ \<Rightarrow> None)"

definition look_waits :: "look \<Rightarrow> bool" where
  "look_waits l = (case l of Waiting \<Rightarrow> True | _ \<Rightarrow> False)"

definition monitor_off :: "vpn_config \<Rightarrow> bool" where
  "monitor_off cfg \<longleftrightarrow> (case cfg_monitor cfg of None \<Rightarrow> False | Some m \<Rightarrow> mc_enabled m = Some False)"

definition known_keys :: "evidence \<Rightarrow> server list \<Rightarrow> string list" where
  "known_keys e servers = rev (remdups (rev (filter (\<lambda>k. ev_endpoints e k \<noteq> None) (map endpoint_key servers))))"

definition walk_evidence :: "server list \<Rightarrow> vpn_config \<Rightarrow> look act" where
  "walk_evidence servers cfg =
     (if servers = [] \<or> monitor_off cfg then State_Monad.return No_Evidence
      else do {
        e \<leftarrow> ask ou_evidence;
        if ev_state e \<noteq> Mon_OK then State_Monad.return No_Evidence
        else if known_keys e servers = [] then State_Monad.return Waiting
        else do {
          ok \<leftarrow> valid_evidence e (known_keys e servers);
          State_Monad.return (if ok then Fresh e else Waiting) } })"

definition best_walk_order :: "server list \<Rightarrow> vpn_config \<Rightarrow> best_ref \<Rightarrow> server list act" where
  "best_walk_order servers cfg ref = do {
     l \<leftarrow> walk_evidence servers cfg;
     State_Monad.return (order_best servers ref (fresh_of l)) }"

section \<open>Addresses\<close>

definition ipv4_text :: "string \<Rightarrow> string" where
  "ipv4_text s = (case Option.bind (parse_ip s) to4 of None \<Rightarrow> [] | Some ip \<Rightarrow> show_ipv4 ip)"

definition dial_ip :: "server \<Rightarrow> string" where
  "dial_ip c = ipv4_text (if first_ip c = [] then sv_address c else first_ip c)"

definition dialable :: "server list \<Rightarrow> server list" where
  "dialable copies = filter (\<lambda>c. dial_ip c \<noteq> []) copies"

fun reachable :: "server list \<Rightarrow> server list act" where
  "reachable [] = State_Monad.return []"
| "reachable (c # cs) = do {
     up \<leftarrow> ask (\<lambda>ou n. ou_reach ou n (dial_ip c) (sv_port c));
     rest \<leftarrow> reachable cs;
     State_Monad.return (if up then c # rest else rest) }"

definition tcp_checked :: "server \<Rightarrow> bool" where
  "tcp_checked s \<longleftrightarrow>
     (case decode_outbound (sv_outbound s) of
        None \<Rightarrow> True
      | Some ob \<Rightarrow>
          let ss = settings_of ob ''streamSettings''; network = as_text (map_of ss ''network'');
              tls = settings_of ss ''tlsSettings''
          in if map_of ob ''protocol'' = Some (JStr ''hysteria'') then False
             else if lowers_to network ''hysteria'' \<or> lowers_to network ''kcp'' \<or> lowers_to network ''mkcp'' then False
             else if lowers_to network ''xhttp'' \<or> lowers_to network ''splithttp'' then
               \<not> (lowers_to (as_text (map_of ss ''security'')) ''tls'' \<and> map_of tls ''alpn'' = Some (JArr [JStr ''h3'']))
             else True)"

definition wan_controls :: "server list" where
  "wan_controls = [plain_server [] ''1.1.1.1'' 443 [] [], plain_server [] ''8.8.8.8'' 443 [] []]"

text \<open>Whether no address of the selected server accepts a connection while a control address does.\<close>

definition active_server_down :: "vpn_config \<Rightarrow> bool act" where
  "active_server_down cfg =
     (if x_active (cfg_xray cfg) = None then State_Monad.return False
      else do {
        subs \<leftarrow> load_subs;
        (case subs of
           None \<Rightarrow> State_Monad.return False
         | Some subs \<Rightarrow>
             (case chosen_index (all_servers subs) (x_active (cfg_xray cfg)) of
                None \<Rightarrow> State_Monad.return False
              | Some i \<Rightarrow>
                  let s = all_servers subs ! i; copies = dialable (per_address [s]) in
                  if \<not> tcp_checked s \<or> copies = [] then State_Monad.return False
                  else do {
                    up \<leftarrow> reachable copies;
                    if up \<noteq> [] then State_Monad.return False
                    else do {
                      controls \<leftarrow> reachable wan_controls;
                      over \<leftarrow> context_ended;
                      State_Monad.return (controls \<noteq> [] \<and> \<not> over) } })) })"

definition check_reach :: "vpn_config \<Rightarrow> unit act" where
  "check_reach cfg = do {
     wa \<leftarrow> the_watch;
     if wa_down_checks wa < 0 then State_Monad.return ()
     else do {
       down \<leftarrow> active_server_down cfg;
       upd_watch (\<lambda>wa. wa\<lparr>wa_down_checks := (if down then wa_down_checks wa + 1 else - 1)\<rparr>) } }"

section \<open>The guard of a switch\<close>

definition subscription_holds :: "string \<Rightarrow> string \<Rightarrow> bool act" where
  "subscription_holds sid link = do {
     subs \<leftarrow> load_subs;
     State_Monad.return (case subs of
       None \<Rightarrow> True
     | Some subs \<Rightarrow> (case find_subscription subs sid of None \<Rightarrow> False | Some i \<Rightarrow> sub_url (subs ! i) = link)) }"

definition walk_owns :: "string \<Rightarrow> string \<Rightarrow> int \<Rightarrow> vpn_config \<Rightarrow> (watch_error + unit) act" where
  "walk_owns started latest seq cfg = require Err_Superseded (\<not> superseded (x_active (cfg_xray cfg)) started latest seq)"

definition walk_owns_now :: "string \<Rightarrow> string \<Rightarrow> int \<Rightarrow> (watch_error + unit) act" where
  "walk_owns_now started latest seq =
     attempt allowed (\<lambda>_. do {
       c \<leftarrow> load_vpn;
       attempt allowed (\<lambda>_. (case c of
           None \<Rightarrow> State_Monad.return (Inr ())
         | Some cfg \<Rightarrow> walk_owns started latest seq cfg)) })"

definition walk_guard :: "string \<Rightarrow> string \<Rightarrow> string \<Rightarrow> string \<Rightarrow> int \<Rightarrow> vpn_config \<Rightarrow> (watch_error + unit) act" where
  "walk_guard sid link started latest seq cfg =
     attempt allowed (\<lambda>_. attempt (walk_owns started latest seq cfg) (\<lambda>_. do {
       holds \<leftarrow> (if sid = [] then State_Monad.return True else subscription_holds sid link);
       attempt (require Err_Gone holds) (\<lambda>_. allowed) }))"

section \<open>The write\<close>

text \<open>
  \<open>generateConfig\<close> with its guard: nothing replaces the live file unless the outbound is one Xray can
  load, the file was built and tested, and the guard holds once more. Of its context checks the first
  and the last are kept.
\<close>

definition publish_config :: "(watch_error + unit) act \<Rightarrow> active_server option \<Rightarrow> server \<Rightarrow> (watch_error + unit) act" where
  "publish_config guard now_active s = do {
     over \<leftarrow> context_ended;
     attempt (require Err_Ended (\<not> over)) (\<lambda>_.
     attempt (require Err_Other (server_outbound (server_for_dial s) \<noteq> None)) (\<lambda>_. do {
       fault \<leftarrow> ask ou_build;
       (case fault of
          Some f \<Rightarrow> State_Monad.return (Inl (fault_error f))
        | None \<Rightarrow> attempt guard (\<lambda>_. do {
            over \<leftarrow> context_ended;
            attempt (require Err_Ended (\<not> over)) (\<lambda>_. do {
              fault \<leftarrow> ask ou_publish;
              (case fault of
                 Some f \<Rightarrow> State_Monad.return (Inl (fault_error f))
               | None \<Rightarrow> do { did (Published now_active s); State_Monad.return (Inr ()) }) }) })) })) }"

text \<open>
  What a generation came to: whether the live file was replaced, the counter the record has then, and
  what went wrong.
\<close>

record generated =
  gn_done :: bool
  gn_seq :: int
  gn_error :: "watch_error option"

definition not_generated :: "watch_error \<Rightarrow> generated" where
  "not_generated e = \<lparr>gn_done = False, gn_seq = 0, gn_error = Some e\<rparr>"

definition save_record :: "vpn_config \<Rightarrow> server \<Rightarrow> generated act" where
  "save_record current s = do {
     let x = record_walked_server (cfg_xray current) s;
     saved \<leftarrow> ask ou_save;
     if saved then do {
       write_file W_Other (upd_xray (\<lambda>_. x) current);
       (case x_active x of None \<Rightarrow> State_Monad.return () | Some r \<Rightarrow> did (Recorded r));
       State_Monad.return \<lparr>gn_done = True, gn_seq = active_seq (x_active x), gn_error = None\<rparr> }
     else State_Monad.return \<lparr>gn_done = True, gn_seq = active_seq (x_active (cfg_xray current)), gn_error = Some Err_Other\<rparr> }"

definition generate_and_record :: "(vpn_config \<Rightarrow> (watch_error + unit) act) \<Rightarrow> server \<Rightarrow> generated act" where
  "generate_and_record guard s = do {
     locked \<leftarrow> ask ou_lock;
     if \<not> locked then State_Monad.return (not_generated Err_Config)
     else do {
       others_write;
       current \<leftarrow> the_file;
       r \<leftarrow> attempt (guard current) (\<lambda>_. publish_config (guard current) (x_active (cfg_xray current)) s);
       (case r of
          Inl e \<Rightarrow> State_Monad.return (not_generated e)
        | Inr _ \<Rightarrow> save_record current s) } }"

text \<open>The ports: those of the attempt that is bound to some, or of the file read before the wait for the lock.\<close>

definition bound_ports :: "watch \<Rightarrow> (int \<times> int) option" where
  "bound_ports wa = Option.bind (wa_fast wa) fs_ports"

definition generate :: "server \<Rightarrow> (vpn_config \<Rightarrow> (watch_error + unit) act) \<Rightarrow> generated act" where
  "generate s guard = do {
     over \<leftarrow> context_ended;
     if over then State_Monad.return (not_generated Err_Ended)
     else do {
       wa \<leftarrow> the_watch;
       known \<leftarrow> (if bound_ports wa \<noteq> None then State_Monad.return True
         else do { c \<leftarrow> load_vpn; State_Monad.return (c \<noteq> None) });
       if \<not> known then State_Monad.return (not_generated Err_Config)
       else do {
         g \<leftarrow> generate_and_record guard s;
         (if gn_done g \<and> gn_error g = None then upd_watch (\<lambda>wa. wa\<lparr>wa_own_seq := gn_seq g\<rparr>)
          else State_Monad.return ());
         State_Monad.return g } } }"

text \<open>A write under the ownership of a fallback: the owner checks it and takes it over.\<close>

definition learn_link :: "subscription list \<Rightarrow> string \<Rightarrow> fast_selection \<Rightarrow> fast_selection" where
  "learn_link subs sid f =
     (case (fs_links f sid, find_subscription subs sid) of
        (None, Some i) \<Rightarrow> f\<lparr>fs_links := (fs_links f)(sid \<mapsto> sub_url (subs ! i))\<rparr>
      | _ \<Rightarrow> f)"

definition owned_guard :: "server \<Rightarrow> (vpn_config \<Rightarrow> (watch_error + unit) act) \<Rightarrow> vpn_config \<Rightarrow> (watch_error + unit) act" where
  "owned_guard s guard cfg =
     attempt outbound_locked (\<lambda>_. attempt (guard cfg) (\<lambda>_. do {
       subs \<leftarrow> load_subs;
       (case subs of
          None \<Rightarrow> State_Monad.return (Inl Err_Evidence)
        | Some subs \<Rightarrow> attempt (require Err_Gone (fast_candidate_present subs s)) (\<lambda>_. do {
            upd_watch (\<lambda>wa. wa\<lparr>wa_fast := map_option (learn_link subs (sv_subscription s)) (wa_fast wa)\<rparr>);
            allowed })) }))"

definition fast_record :: "server \<Rightarrow> generated \<Rightarrow> fast_selection \<Rightarrow> fast_selection" where
  "fast_record s g f =
     (if gn_error g \<noteq> None then f
      else f\<lparr>fs_expected := (new_active_server s)\<lparr>as_seq := gn_seq g\<rparr>, fs_recorded := Some s\<rparr>)"

definition generate_walked :: "server \<Rightarrow> (vpn_config \<Rightarrow> (watch_error + unit) act) \<Rightarrow> generated act" where
  "generate_walked s guard = do {
     wa \<leftarrow> the_watch;
     if wa_outbound wa = No_Guard then generate s guard
     else do {
       r \<leftarrow> outbound_allowed;
       (case r of
          Inl e \<Rightarrow> State_Monad.return (not_generated e)
        | Inr _ \<Rightarrow> do {
            g \<leftarrow> generate s (owned_guard s guard);
            (if gn_done g then upd_watch (\<lambda>wa. wa\<lparr>wa_fast := map_option (fast_record s g) (wa_fast wa)\<rparr>)
             else State_Monad.return ());
            State_Monad.return g }) } }"

section \<open>One switch\<close>

type_synonym links = "string \<rightharpoonup> string"

definition links_of :: "subscription list \<Rightarrow> links" where
  "links_of subs = map_of (rev (map (\<lambda>s. (sub_id s, sub_url s)) subs))"

definition link_text :: "links \<Rightarrow> string \<Rightarrow> string" where
  "link_text links sid = (case links sid of None \<Rightarrow> [] | Some l \<Rightarrow> l)"

record switcher =
  sw_links :: links
  sw_started :: string
  sw_last :: string
  sw_seq :: int
  sw_wrote :: bool

definition new_switcher :: "vpn_config \<Rightarrow> subscription list \<Rightarrow> switcher" where
  "new_switcher cfg subs =
     \<lparr>sw_links = links_of subs, sw_started = active_id (x_active (cfg_xray cfg)), sw_last = [],
      sw_seq = active_seq (x_active (cfg_xray cfg)), sw_wrote = False\<rparr>"

datatype switch_end = Sw_Live | Sw_Ended | Sw_Gone | Sw_Failed

definition mutation_ended :: "bool act" where
  "mutation_ended = do { r \<leftarrow> allowed; State_Monad.return (r \<noteq> Inr ()) }"

definition outbound_refuses :: "bool act" where
  "outbound_refuses = do { r \<leftarrow> outbound_allowed; State_Monad.return (r \<noteq> Inr ()) }"

text \<open>Checks until the first that says yes.\<close>

fun any_of :: "bool act list \<Rightarrow> bool act" where
  "any_of [] = State_Monad.return False"
| "any_of (c # cs) = do { b \<leftarrow> c; if b then State_Monad.return True else any_of cs }"

definition restart_and_probe :: "switch_end act" where
  "restart_and_probe = do {
     over \<leftarrow> mutation_ended;
     if over then State_Monad.return Sw_Ended
     else do {
       r \<leftarrow> restart_xray;
       (case r of
          Inl e \<Rightarrow> do {
            over \<leftarrow> any_of [State_Monad.return (ends_walk e), mutation_ended, outbound_refuses];
            State_Monad.return (if over then Sw_Ended else Sw_Failed) }
        | Inr _ \<Rightarrow> do {
            over \<leftarrow> mutation_ended;
            if over then State_Monad.return Sw_Ended
            else do {
              ok \<leftarrow> probe_now;
              over \<leftarrow> mutation_ended;
              State_Monad.return (if over then Sw_Ended else if ok then Sw_Live else Sw_Failed) } }) } }"

definition switched :: "generated \<Rightarrow> server \<Rightarrow> switcher \<Rightarrow> switcher" where
  "switched g c sw =
     sw\<lparr>sw_wrote := True, sw_last := (if gn_error g = None then server_id c else sw_last sw), sw_seq := gn_seq g\<rparr>"

definition switch_to :: "switcher \<Rightarrow> server \<Rightarrow> bool \<Rightarrow> (switch_end \<times> switcher) act" where
  "switch_to sw c holds = do {
     over \<leftarrow> any_of [context_ended, mutation_ended];
     if over then State_Monad.return (Sw_Ended, sw)
     else do {
       let (sid, link) = (if holds then (sv_subscription c, link_text (sw_links sw) (sv_subscription c)) else ([], []));
       g \<leftarrow> generate_walked c (walk_guard sid link (sw_started sw) (sw_last sw) (sw_seq sw));
       over \<leftarrow> (case gn_error g of
          None \<Rightarrow> State_Monad.return False
        | Some e \<Rightarrow> any_of [State_Monad.return (ends_walk e), outbound_refuses]);
       if over then State_Monad.return (Sw_Ended, sw)
       else if gn_error g = Some Err_Gone then State_Monad.return (Sw_Gone, sw)
       else if \<not> gn_done g then State_Monad.return (Sw_Failed, sw)
       else do {
         r \<leftarrow> restart_and_probe;
         State_Monad.return (r, switched g c sw) } } }"

end
