(* ===== verification/Watch_Walk.thy ===== *)
theory Watch_Walk
  imports Watch_Switch
begin

text \<open>
  The wave of downloads and the walk (\<^verbatim>\<open>maybeImportAndPick\<close>, \<^verbatim>\<open>refreshSubscriptions\<close>,
  \<^verbatim>\<open>walk\<close> and \<^verbatim>\<open>returnToPreferred\<close> of \<^verbatim>\<open>subwatch/watch.go\<close>): every list that
  arrives is published, then each copy of each server is tried in turn until the probe passes on one.
\<close>

section \<open>Refusals that end a walk\<close>

definition interrupted :: "watch_error \<Rightarrow> bool" where
  "interrupted e \<longleftrightarrow> e = Err_Stopped \<or> e = Err_Incompatible \<or> e = Err_Ended"

definition walk_ended :: "watch_error option \<Rightarrow> bool act" where
  "walk_ended r =
     (case r of
        None \<Rightarrow> State_Monad.return False
      | Some e \<Rightarrow>
          if \<not> ends_walk e then State_Monad.return False
          else do {
            (if interrupted e then upd_watch (\<lambda>wa. wa\<lparr>wa_mutation_failed := True\<rparr>) else State_Monad.return ());
            State_Monad.return True })"

definition error_of :: "watch_error + 'a \<Rightarrow> watch_error option" where
  "error_of r = (case r of Inl e \<Rightarrow> Some e | Inr _ \<Rightarrow> None)"

section \<open>The wave\<close>

text \<open>
  A change of the lists under the lock: the permission is asked once more by \<open>updateFor\<close>, and again when
  the file of the list is about to be saved. The list is saved before the configuration.
\<close>

definition list_error :: "op_error \<Rightarrow> watch_error" where
  "list_error e = (if e = Gone then Err_Gone else Err_Other)"

definition store_change :: "(file_faults \<Rightarrow> body) \<Rightarrow> vpn_config \<Rightarrow> (watch_error + vpn_config \<times> routes_write \<times> unit) act" where
  "store_change op cfg =
     attempt allowed (\<lambda>_. do {
       others_edit;
       ok \<leftarrow> ask ou_read_lists;
       files \<leftarrow> the_subs;
       (case op \<lparr>ff_load = \<not> ok, ff_save = False, ff_delete = False\<rparr> (cfg, files) of
          (_, _, Some e) \<Rightarrow> State_Monad.return (Inl (list_error e))
        | (_, (cfg', files'), None) \<Rightarrow> attempt allowed (\<lambda>_. do {
            saved \<leftarrow> ask ou_save_list;
            attempt (require Err_Other saved) (\<lambda>_. do {
              set_subs files';
              State_Monad.return (Inr (cfg', W_Other, ())) }) })) })"

definition update_store :: "(file_faults \<Rightarrow> body) \<Rightarrow> (watch_error + unit) act" where
  "update_store op = update_vpn (store_change op)"

text \<open>\<open>proofConsumed\<close>: a publication replaces what the proof of a death rests on.\<close>

definition proof_consumed :: "fast_selection \<Rightarrow> fast_selection" where
  "proof_consumed f =
     f\<lparr>fs_proof := False, fs_refreshed := True, fs_last := None, fs_recorded := None, fs_fallback := []\<rparr>"

definition consume_proof :: "watch \<Rightarrow> watch" where
  "consume_proof wa = (if wa_outbound wa = No_Guard then wa else wa\<lparr>wa_fast := map_option proof_consumed (wa_fast wa)\<rparr>)"

text \<open>A download without a server is an error.\<close>

fun download_all :: "subscription list \<Rightarrow> (subscription \<times> (string + server list)) list act" where
  "download_all [] = State_Monad.return []"
| "download_all (s # ss) = do {
     r \<leftarrow> ask (\<lambda>ou n. ou_fetch ou n (sub_url s));
     rest \<leftarrow> download_all ss;
     State_Monad.return ((s, if r = Inr [] then Inl ''no servers'' else r) # rest) }"

text \<open>The names that failed and whether any was published, or none where a refusal ended it.\<close>

fun publish_all :: "(subscription \<times> (string + server list)) list \<Rightarrow> string list \<Rightarrow> bool \<Rightarrow> (string list \<times> bool) option act" where
  "publish_all [] failed published = State_Monad.return (Some (failed, published))"
| "publish_all ((s, r) # rest) failed published = do {
     over \<leftarrow> any_of [context_ended, mutation_ended];
     if over then State_Monad.return None
     else (case r of
       Inl msg \<Rightarrow> do {
         _ \<leftarrow> update_store (\<lambda>ff. record_error_body ff (sub_id s) (sub_url s) (sub_refreshed s) msg);
         publish_all rest (failed @ [sub_name s]) published }
     | Inr servers \<Rightarrow> do {
         now \<leftarrow> time_now;
         u \<leftarrow> update_store (\<lambda>ff. refresh_body ff now False (sub_id s) (sub_url s) servers);
         (case u of
            Inr _ \<Rightarrow> do { upd_watch consume_proof; publish_all rest failed True }
          | Inl e \<Rightarrow>
              if interrupted e then State_Monad.return None
              else publish_all rest (if e = Err_Gone then failed else failed @ [sub_name s]) published) }) }"

text \<open>\<open>refreshSubscriptions\<close>: the names that failed, and whether a walk may follow.\<close>

definition refresh_subscriptions :: "subscription list \<Rightarrow> (string list \<times> bool) act" where
  "refresh_subscriptions subs = do {
     let linked = filter (\<lambda>s. sub_url s \<noteq> []) subs;
     results \<leftarrow> download_all linked;
     refused \<leftarrow> outbound_refuses;
     if refused then State_Monad.return ([], False)
     else if linked = [] then State_Monad.return ([], True)
     else do {
       r \<leftarrow> publish_all results [] False;
       State_Monad.return (case r of
         None \<Rightarrow> ([], False)
       | Some (failed, published) \<Rightarrow> (failed, published \<or> failed = [])) } }"

section \<open>The walk\<close>

record walk_plan =
  wp_cfg :: vpn_config
  wp_started :: string
  wp_names :: "string \<rightharpoonup> string"
  wp_links :: links
  wp_ref :: best_ref

text \<open>
  What the walk has done: the server it last generated and last recorded, the counter that record moved
  to, the subscriptions that are gone, the connections it has tried, and how many.
\<close>

record walking =
  wk_generated :: string
  wk_last :: string
  wk_seq :: int
  wk_gone :: "string list"
  wk_seen :: "string list"
  wk_tried :: nat

definition walk_from :: "vpn_config \<Rightarrow> walking" where
  "walk_from cfg = \<lparr>wk_generated = [], wk_last = [], wk_seq = active_seq (x_active (cfg_xray cfg)),
     wk_gone = [], wk_seen = [], wk_tried = 0\<rparr>"

definition guard_of_walk :: "walk_plan \<Rightarrow> walking \<Rightarrow> string \<Rightarrow> vpn_config \<Rightarrow> (watch_error + unit) act" where
  "guard_of_walk plan wk sid =
     walk_guard sid (if sid = [] then [] else link_text (wp_links plan) sid) (wp_started plan) (wk_last wk) (wk_seq wk)"

definition untried :: "walking \<Rightarrow> server list \<Rightarrow> server list" where
  "untried wk copies =
     filter (\<lambda>c. sv_subscription c \<notin> set (wk_gone wk) \<and> (dial_key c = [] \<or> dial_key c \<notin> set (wk_seen wk))) copies"

fun without_copy :: "server \<Rightarrow> server list \<Rightarrow> server list" where
  "without_copy s [] = []"
| "without_copy s (c # cs) =
     (if server_id c = server_id s \<and> endpoint_key c = endpoint_key s then cs else c # without_copy s cs)"

definition tried_copy :: "server \<Rightarrow> generated \<Rightarrow> walking \<Rightarrow> walking" where
  "tried_copy s g wk =
     wk\<lparr>wk_seen := (if dial_key s = [] then wk_seen wk else dial_key s # wk_seen wk), wk_generated := server_id s,
        wk_last := (if gn_error g = None then server_id s else wk_last wk), wk_seq := gn_seq g, wk_tried := wk_tried wk + 1\<rparr>"

text \<open>\<open>landedOnChoice\<close> reads the file only while there is a count to keep.\<close>

definition note_landing :: "vpn_config option \<Rightarrow> int \<Rightarrow> unit act" where
  "note_landing cfg seq = do {
     wa \<leftarrow> the_watch;
     if wa_last_return wa \<noteq> zero_time \<or> wa_return_fails wa = 0 then State_Monad.return ()
     else do {
       c \<leftarrow> (case cfg of None \<Rightarrow> load_vpn | Some _ \<Rightarrow> State_Monad.return cfg);
       now \<leftarrow> time_now;
       upd_watch (landed_on_choice c seq now) } }"

text \<open>The probe passed on \<open>s\<close>: the clients go back to Xray, unless a newer selection came meanwhile.\<close>

definition pick_copy :: "walk_plan \<Rightarrow> walking \<Rightarrow> server \<Rightarrow> unit act" where
  "pick_copy plan wk s = do {
     upd_watch (\<lambda>wa. wa\<lparr>wa_last_picked := Some s\<rparr>);
     r \<leftarrow> walk_owns_now (wp_started plan) (wk_last wk) (wk_seq wk);
     over \<leftarrow> walk_ended (error_of r);
     if over then State_Monad.return ()
     else do {
       note_landing None (wk_seq wk);
       rd \<leftarrow> commit_restore (wp_cfg plan) (guard_of_walk plan wk []);
       over \<leftarrow> walk_ended (rd_refused rd);
       let name = server_label (wp_names plan) (sv_subscription s) (sv_name s);
       if over \<or> \<not> rd_done rd then State_Monad.return ()
       else if rd_committed rd then announce_restored name
       else notify Note_Restored (''Subscription refreshed; selected server '' @ name) } }"

text \<open>One copy: how the walk stands after it, or none where it ended - on a live server, or refused.\<close>

definition try_copy :: "walk_plan \<Rightarrow> walking \<Rightarrow> server \<Rightarrow> walking option act" where
  "try_copy plan wk s = do {
     g \<leftarrow> generate_walked s (guard_of_walk plan wk (sv_subscription s));
     if gn_error g = Some Err_Gone then State_Monad.return (Some (wk\<lparr>wk_gone := sv_subscription s # wk_gone wk\<rparr>))
     else do {
       over \<leftarrow> walk_ended (gn_error g);
       if over then State_Monad.return None
       else if \<not> gn_done g then State_Monad.return (Some wk)
       else do {
         let wk = tried_copy s g wk;
         over \<leftarrow> context_ended;
         if over then State_Monad.return None
         else do {
           r \<leftarrow> restart_xray;
           (case r of
              Inl e \<Rightarrow> do {
                over \<leftarrow> any_of [walk_ended (Some e), mutation_ended];
                State_Monad.return (if over then None else Some wk) }
            | Inr _ \<Rightarrow> do {
                over \<leftarrow> mutation_ended;
                if over then State_Monad.return None
                else do {
                  ok \<leftarrow> probe_now;
                  over \<leftarrow> mutation_ended;
                  if over then State_Monad.return None
                  else if \<not> ok then State_Monad.return (Some wk)
                  else do { pick_copy plan wk s; State_Monad.return None } } }) } } } }"

text \<open>
  The loop over what is left, put in order by fresh evidence before each try. A copy is taken out when it
  is tried, so the list shrinks.
\<close>

lemma without_copy_shorter: "s \<in> set xs \<Longrightarrow> length (without_copy s xs) < length xs"
  by (induction xs) auto

lemma order_best_subset: "set (order_best copies ref ev) \<subseteq> set copies"
  by (auto simp: order_best_def)

lemma bind_cong [fundef_cong]:
  "c = c' \<Longrightarrow> (\<And>x. f x = f' x) \<Longrightarrow> State_Monad.bind c f = State_Monad.bind c' f'"
  by (metis ext)

function walk_loop :: "walk_plan \<Rightarrow> walking \<Rightarrow> server list \<Rightarrow> walking option act" where
  "walk_loop plan wk remaining =
     (if remaining = [] then State_Monad.return (Some wk)
      else do {
        over \<leftarrow> any_of [context_ended, mutation_ended];
        if over then State_Monad.return None
        else do {
          let pending = untried wk remaining;
          l \<leftarrow> walk_evidence pending (wp_cfg plan);
          (case order_best pending (wp_ref plan) (fresh_of l) of
             [] \<Rightarrow> State_Monad.return (Some wk)
           | s # _ \<Rightarrow> do {
               tried \<leftarrow> try_copy plan wk s;
               (case tried of
                  None \<Rightarrow> State_Monad.return None
                | Some wk \<Rightarrow> walk_loop plan wk (without_copy s pending)) }) } })"
  by pat_completeness auto

termination
proof (relation "measure (\<lambda>(plan, wk, remaining). length remaining)", goal_cases)
  case (2 plan wk remaining over pending l s rest tried wk')
  then have "s \<in> set pending" using order_best_subset [of pending "wp_ref plan" "fresh_of l"] by auto
  then have "length (without_copy s pending) < length pending" by (rule without_copy_shorter)
  moreover have "length pending \<le> length remaining" using 2 by (simp add: untried_def)
  ultimately show ?case by simp
qed simp

declare walk_loop.simps [simp del]

text \<open>Back to the server the user chose, without a probe: the walk has just found it down.\<close>

definition return_to_preferred :: "server \<Rightarrow> (vpn_config \<Rightarrow> (watch_error + unit) act) \<Rightarrow> watch_error option act" where
  "return_to_preferred s guard = do {
     g \<leftarrow> generate_walked s guard;
     (case gn_error g of
        Some e \<Rightarrow> if ends_walk e then State_Monad.return (Some e)
          else if e = Err_Gone \<or> \<not> gn_done g then State_Monad.return None
          else do { r \<leftarrow> restart_xray; State_Monad.return (Option.bind (error_of r) (\<lambda>e. if ends_walk e then Some e else None)) }
      | None \<Rightarrow> do { r \<leftarrow> restart_xray; State_Monad.return (Option.bind (error_of r) (\<lambda>e. if ends_walk e then Some e else None)) }) }"

definition no_live_text :: "vpn_config \<Rightarrow> string" where
  "no_live_text cfg = ''No live server in any subscription''
     @ (if committed_failover cfg then ''; still on tunnel:'' @ failover_tunnel cfg else [])"

text \<open>The wait before the next wave, once every copy has cost a restart for nothing.\<close>

definition back_off_import :: "int \<Rightarrow> watch \<Rightarrow> watch" where
  "back_off_import now wa = wa\<lparr>wa_last_import := now, wa_import_retry := min (2 * import_interval wa) import_retry_max\<rparr>"

text \<open>The end of a walk that found nothing live.\<close>

definition walk_back :: "walk_plan \<Rightarrow> walking \<Rightarrow> server option \<Rightarrow> bool act" where
  "walk_back plan wk preferred =
     (case preferred of
        None \<Rightarrow> State_Monad.return True
      | Some p \<Rightarrow>
          if wk_generated wk = [] \<or> wk_generated wk = server_id p then State_Monad.return True
          else do {
            r \<leftarrow> return_to_preferred p (guard_of_walk plan wk (sv_subscription p));
            over \<leftarrow> any_of [walk_ended r, mutation_ended];
            State_Monad.return (\<not> over) })"

definition walk_found_none :: "walk_plan \<Rightarrow> walking \<Rightarrow> server option \<Rightarrow> unit act" where
  "walk_found_none plan wk preferred = do {
     refused \<leftarrow> mutation_ended;
     if refused then State_Monad.return ()
     else do {
       r \<leftarrow> walk_owns_now (wp_started plan) (wk_last wk) (wk_seq wk);
       over \<leftarrow> walk_ended (error_of r);
       if over then State_Monad.return ()
       else do {
         go_on \<leftarrow> walk_back plan wk preferred;
         if \<not> go_on then State_Monad.return ()
         else do {
           now \<leftarrow> time_now;
           (if 0 < wk_tried wk then upd_watch (back_off_import now) else State_Monad.return ());
           notify Note_No_Live (no_live_text (wp_cfg plan)) } } } }"

definition plan_of_walk :: "vpn_config \<Rightarrow> subscription list \<Rightarrow> walk_plan" where
  "plan_of_walk cfg subs =
     \<lparr>wp_cfg = cfg, wp_started = active_id (x_active (cfg_xray cfg)), wp_names = subscription_names subs,
      wp_links = links_of subs, wp_ref = ref_for cfg (all_servers subs)\<rparr>"

definition walk :: "vpn_config \<Rightarrow> subscription list \<Rightarrow> unit act" where
  "walk cfg subs = do {
     let (order, chosen_first) = walk_order subs (choice_of (cfg_xray cfg));
     r \<leftarrow> walk_loop (plan_of_walk cfg subs) (walk_from cfg) (per_address order);
     (case r of
        None \<Rightarrow> State_Monad.return ()
      | Some wk \<Rightarrow> walk_found_none (plan_of_walk cfg subs) wk (if chosen_first then Some (hd order) else None)) }"

section \<open>A wave and its walk\<close>

definition refresh_failed_text :: "vpn_config \<Rightarrow> string list \<Rightarrow> string" where
  "refresh_failed_text cfg names =
     (let shown = filter (\<lambda>n. n \<noteq> []) names in
      ''Subscription refresh failed'' @ (if shown = [] then [] else '': '' @ join_with '', '' shown)
      @ (if committed_failover cfg then ''; still on tunnel:'' @ failover_tunnel cfg else []))"

text \<open>Not before the wait since the last wave is over; a wave that a refusal ended leaves its turn.\<close>

definition import_due :: "int \<Rightarrow> watch \<Rightarrow> bool" where
  "import_due now wa \<longleftrightarrow> wa_last_import wa = zero_time \<or> import_interval wa \<le> sub_time now (wa_last_import wa)"

definition import_and_walk :: "vpn_config \<Rightarrow> subscription list \<Rightarrow> int \<Rightarrow> unit act" where
  "import_and_walk cfg subs before = do {
     (failed, go_on) \<leftarrow> refresh_subscriptions subs;
     over \<leftarrow> any_of [mutation_ended, context_ended, outbound_refuses];
     if over then upd_watch (\<lambda>wa. wa\<lparr>wa_last_import := before\<rparr>)
     else if \<not> go_on then do {
       upd_watch (\<lambda>wa. wa\<lparr>wa_import_retry := 0\<rparr>);
       notify Note_Refresh_Failed (refresh_failed_text cfg failed) }
     else do {
       subs \<leftarrow> load_subs;
       (case subs of
          None \<Rightarrow> State_Monad.return ()
        | Some subs \<Rightarrow> if subs = [] then State_Monad.return () else walk cfg subs) } }"

definition maybe_import_and_pick :: "vpn_config \<Rightarrow> unit act" where
  "maybe_import_and_pick cfg = do {
     act \<leftarrow> may_act;
     if \<not> act then State_Monad.return ()
     else do {
       subs \<leftarrow> load_subs;
       (case subs of
          None \<Rightarrow> State_Monad.return ()
        | Some subs \<Rightarrow>
            if subs = [] then State_Monad.return ()
            else do {
              now \<leftarrow> time_now;
              wa \<leftarrow> the_watch;
              if \<not> import_due now wa then State_Monad.return ()
              else do {
                upd_watch (\<lambda>wa. wa\<lparr>wa_last_import := now\<rparr>);
                import_and_walk cfg subs (wa_last_import wa) } }) } }"

end
