(* ===== verification/Watch_Return.thy ===== *)
theory Watch_Return
  imports Watch_Walk
begin

text \<open>
  The returns (\<^verbatim>\<open>subwatch/return.go\<close>): while the watch has another server running than the user
  chose, a look every few minutes whether that one - or else the best of its group - has been alive long
  enough, one switch to it, and the way back to the server that ran where the switch fails.
\<close>

section \<open>Candidates\<close>

definition alive_for :: "server list \<Rightarrow> evidence \<Rightarrow> int \<Rightarrow> int \<Rightarrow> server list" where
  "alive_for copies ev now d =
     sort_key (\<lambda>c. case copy_state (Some ev) c of Some st \<Rightarrow> ps_latency st | None \<Rightarrow> 0)
       (filter (\<lambda>c. case copy_state (Some ev) c of
          Some st \<Rightarrow> ps_status st = St_Alive \<and> ps_since st \<le> now - d | None \<Rightarrow> False) copies)"

definition chosen_copies :: "server list \<Rightarrow> active_server option \<Rightarrow> server list" where
  "chosen_copies servers a = (case chosen_index servers a of None \<Rightarrow> [] | Some i \<Rightarrow> per_address [servers ! i])"

definition return_candidates :: "look \<Rightarrow> server list \<Rightarrow> active_server option \<Rightarrow> int \<Rightarrow> server list act" where
  "return_candidates l servers preferred now =
     (case chosen_index servers preferred of
        None \<Rightarrow> State_Monad.return []
      | Some i \<Rightarrow>
          let copies = per_address [servers ! i] in
          (case l of
             Fresh ev \<Rightarrow> State_Monad.return (alive_for copies ev now return_alive)
           | _ \<Rightarrow> if tcp_checked (servers ! i) then reachable (dialable copies) else State_Monad.return (dialable copies)))"

definition active_group :: "active_server \<Rightarrow> server list \<Rightarrow> string" where
  "active_group a servers =
     (if as_group a \<noteq> [] then as_group a
      else case chosen_index servers (Some a) of None \<Rightarrow> [] | Some j \<Rightarrow> group_of (servers ! j))"

text \<open>The copies of the best server of the user's group, in the order that chose it.\<close>

definition group_candidates :: "look \<Rightarrow> vpn_config \<Rightarrow> active_server \<Rightarrow> server list \<Rightarrow> int \<Rightarrow> server list" where
  "group_candidates l cfg active servers now =
     (let ref = ref_for cfg servers; running = active_group active servers in
      case l of
        Fresh ev \<Rightarrow>
          if br_group ref = [] \<or> running = [] \<or> running = br_group ref then []
          else (let held = alive_for (per_address (filter (\<lambda>s. group_of s = br_group ref) servers)) ev now return_alive;
                    order = order_best held ref (Some ev)
                in filter (\<lambda>c. server_id c = server_id (hd order)) order)
      | _ \<Rightarrow> [])"

text \<open>Where a failed return goes back to: the remembered copy first.\<close>

definition same_copy :: "server \<Rightarrow> server \<Rightarrow> bool" where
  "same_copy c d \<longleftrightarrow> server_id c = server_id d \<and> dial_ip c = dial_ip d"

definition rollback_order :: "server list \<Rightarrow> active_server option \<Rightarrow> server option \<Rightarrow> server list" where
  "rollback_order servers before last_picked =
     (let copies = chosen_copies servers before in
      case last_picked of
        None \<Rightarrow> copies
      | Some p \<Rightarrow>
          (case dropWhile (\<lambda>c. \<not> same_copy c p) copies of
             c # rest \<Rightarrow> c # takeWhile (\<lambda>c. \<not> same_copy c p) copies @ rest
           | [] \<Rightarrow> if same_server p before then p # filter (\<lambda>c. dial_ip c \<noteq> dial_ip p) copies else copies))"

section \<open>One return\<close>

datatype run_end = Run_Ended | Run_Live server | Run_None

text \<open>Switches until the first that works; a list that is gone ends those that have to hold it.\<close>

fun switch_through :: "switcher \<Rightarrow> bool \<Rightarrow> server list \<Rightarrow> (run_end \<times> switcher) act" where
  "switch_through sw holds [] = State_Monad.return (Run_None, sw)"
| "switch_through sw holds (c # cs) = do {
     (e, sw) \<leftarrow> switch_to sw c holds;
     (case e of
        Sw_Live \<Rightarrow> State_Monad.return (Run_Live c, sw)
      | Sw_Ended \<Rightarrow> State_Monad.return (Run_Ended, sw)
      | Sw_Gone \<Rightarrow> if holds then State_Monad.return (Run_None, sw) else switch_through sw holds cs
      | Sw_Failed \<Rightarrow> switch_through sw holds cs) }"

definition no_longer_owns :: "switcher \<Rightarrow> bool act" where
  "no_longer_owns sw = do {
     r \<leftarrow> walk_owns_now (sw_started sw) (sw_last sw) (sw_seq sw);
     State_Monad.return (case r of Inl e \<Rightarrow> ends_walk e | Inr _ \<Rightarrow> False) }"

definition returned :: "int \<Rightarrow> switcher \<Rightarrow> server \<Rightarrow> string \<Rightarrow> watch \<Rightarrow> watch" where
  "returned now sw c grp wa =
     wa\<lparr>wa_last_picked := Some c, wa_last_return := now, wa_return_seq := sw_seq sw, wa_return_group := grp\<rparr>"

definition keep_return :: "(string \<rightharpoonup> string) \<Rightarrow> switcher \<Rightarrow> server \<Rightarrow> string \<Rightarrow> unit act" where
  "keep_return names sw c grp = do {
     over \<leftarrow> any_of [mutation_ended, no_longer_owns sw];
     if over then State_Monad.return ()
     else do {
       now \<leftarrow> time_now;
       upd_watch (returned now sw c grp);
       let name = server_label names (sv_subscription c) (sv_name c);
       if grp = [] then notify Note_Returned (''Xray back on the preferred server '' @ name)
       else say (''Xray back on a '' @ grp @ '' server '' @ name) } }"

definition give_up_return :: "switcher \<Rightarrow> server list \<Rightarrow> unit act" where
  "give_up_return sw back = do {
     over \<leftarrow> mutation_ended;
     if over then State_Monad.return ()
     else do {
       now \<leftarrow> time_now;
       upd_watch (back_off_return now);
       if \<not> sw_wrote sw then State_Monad.return ()
       else do {
         (r, _) \<leftarrow> switch_through sw False back;
         (case r of
            Run_Live c \<Rightarrow> upd_watch (\<lambda>wa. wa\<lparr>wa_last_picked := Some c\<rparr>)
          | _ \<Rightarrow> State_Monad.return ()) } } }"

definition try_return :: "vpn_config \<Rightarrow> subscription list \<Rightarrow> server list \<Rightarrow> server list \<Rightarrow> string \<Rightarrow> unit act" where
  "try_return cfg subs servers candidates grp = do {
     wa \<leftarrow> the_watch;
     let back = rollback_order servers (x_active (cfg_xray cfg)) (wa_last_picked wa);
     if back = [] then State_Monad.return ()
     else do {
       (r, sw) \<leftarrow> switch_through (new_switcher cfg subs) True candidates;
       (case r of
          Run_Ended \<Rightarrow> State_Monad.return ()
        | Run_Live c \<Rightarrow> keep_return (subscription_names subs) sw c grp
        | Run_None \<Rightarrow> give_up_return sw back) } }"

section \<open>The look\<close>

text \<open>A return that has held ends the count and its wait.\<close>

definition return_held :: "int \<Rightarrow> watch \<Rightarrow> watch" where
  "return_held now wa =
     (if wa_last_return wa \<noteq> zero_time \<and> return_hold \<le> sub_time now (wa_last_return wa)
      then wa\<lparr>wa_return_retry := 0, wa_return_fails := 0, wa_last_return := zero_time\<rparr> else wa)"

definition return_from :: "vpn_config \<Rightarrow> active_server \<Rightarrow> subscription list \<Rightarrow> int \<Rightarrow> int \<Rightarrow> unit act" where
  "return_from cfg active subs now not_before = do {
     let servers = all_servers subs;
     l \<leftarrow> walk_evidence servers cfg;
     if look_waits l then upd_watch (\<lambda>wa. wa\<lparr>wa_return_not_before := not_before\<rparr>)
     else do {
       candidates \<leftarrow> return_candidates l servers (x_preferred (cfg_xray cfg)) now;
       over \<leftarrow> any_of [context_ended, mutation_ended];
       if over then State_Monad.return ()
       else if candidates \<noteq> [] then try_return cfg subs servers candidates []
       else
         let others = group_candidates l cfg active servers now in
         if others = [] then State_Monad.return ()
         else try_return cfg subs servers others (br_group (ref_for cfg servers)) } }"

text \<open>Whether a look may be made at \<open>now\<close>.\<close>

definition return_allowed :: "vpn_config \<Rightarrow> watch \<Rightarrow> bool" where
  "return_allowed cfg wa \<longleftrightarrow>
     wa_return_fails wa < return_fails_max \<and> failover_of cfg = None \<and> \<not> wa_pending_apply wa \<and> wa_pending_restore wa = None \<and>
     \<not> same_choice_record (x_preferred (cfg_xray cfg)) (x_active (cfg_xray cfg))"

definition maybe_return :: "vpn_config \<Rightarrow> unit act" where
  "maybe_return cfg = do {
     over \<leftarrow> mutation_ended;
     if over then State_Monad.return ()
     else do {
       now \<leftarrow> time_now;
       upd_watch (return_held now);
       wa \<leftarrow> the_watch;
       if x_preferred (cfg_xray cfg) = None then note_landing (Some cfg) (active_seq (x_active (cfg_xray cfg)))
       else (case x_active (cfg_xray cfg) of
         None \<Rightarrow> State_Monad.return ()
       | Some active \<Rightarrow>
           if \<not> return_allowed cfg wa then State_Monad.return ()
           else do {
             now \<leftarrow> time_now;
             if now < wa_return_not_before wa then State_Monad.return ()
             else do {
               upd_watch (\<lambda>wa. wa\<lparr>wa_return_not_before := now + return_check\<rparr>);
               subs \<leftarrow> load_subs;
               over \<leftarrow> mutation_ended;
               if over then State_Monad.return ()
               else (case subs of
                 None \<Rightarrow> State_Monad.return ()
               | Some subs \<Rightarrow> return_from cfg active subs now (wa_return_not_before wa)) } }) } }"

end
