(* ===== verification/Watch_Fast.thy ===== *)
theory Watch_Fast
  imports Watch_Return
begin

text \<open>
  The fast path (\<^verbatim>\<open>fastFailover\<close> of \<^verbatim>\<open>subwatch/fast.go\<close>): when the probe has failed, fresh
  checks of the selected server, of the WAN and of up to three candidates the monitor holds alive; with
  the death proved, a switch to the first candidate that still answers, fenced by what the attempt owns.
\<close>

section \<open>Candidates\<close>

definition unproved_evidence :: evidence where
  "unproved_evidence = \<lparr>ev_state = Mon_Stopped, ev_endpoints = (\<lambda>_. None), ev_session = 0, ev_generation = 0, ev_records = (\<lambda>_. None)\<rparr>"

text \<open>
  The first alive copies on other addresses than the selected server's, each endpoint once; none at all
  where the evidence is no longer valid for one.
\<close>

fun pick_choices :: "evidence \<Rightarrow> string list \<Rightarrow> nat \<Rightarrow> string list \<Rightarrow> server list \<Rightarrow> fast_choice list option act" where
  "pick_choices ev addresses n seen [] = State_Monad.return (Some [])"
| "pick_choices ev addresses n seen (s # ss) =
     (let key = endpoint_key s in
      if n = 0 then State_Monad.return (Some [])
      else if key \<in> set seen then pick_choices ev addresses n seen ss
      else if sv_address (server_for_dial s) \<in> set addresses \<or> \<not> fast_evidence_status ev [key] St_Alive
      then pick_choices ev addresses n (key # seen) ss
      else do {
        ok \<leftarrow> valid_evidence ev [key];
        if \<not> ok then State_Monad.return None
        else do {
          rest \<leftarrow> pick_choices ev addresses (n - 1) (key # seen) ss;
          State_Monad.return (map_option (\<lambda>cs. \<lparr>fc_server = s, fc_key = key, fc_evidence = unproved_evidence\<rparr> # cs) rest) } })"

fun check_choices :: "fast_choice list \<Rightarrow> (fast_choice \<times> bool) list act" where
  "check_choices [] = State_Monad.return []"
| "check_choices (c # cs) = do {
     e \<leftarrow> ask (\<lambda>ou n. ou_check ou n [fc_key c]);
     rest \<leftarrow> check_choices cs;
     State_Monad.return ((case e of None \<Rightarrow> (c, False) | Some e \<Rightarrow> (c\<lparr>fc_evidence := e\<rparr>, True)) # rest) }"

text \<open>The candidates that are alive, the servers found dead, and whether a check did not end.\<close>

fun sort_choices :: "(fast_choice \<times> bool) list \<Rightarrow> (fast_choice list \<times> server list \<times> bool) act" where
  "sort_choices [] = State_Monad.return ([], [], False)"
| "sort_choices ((c, done) # cs) = do {
     ok \<leftarrow> (if done then valid_evidence (fc_evidence c) [fc_key c] else State_Monad.return False);
     (usable, tried, incomplete) \<leftarrow> sort_choices cs;
     State_Monad.return
       (if \<not> ok then (usable, tried, True)
        else if fast_evidence_status (fc_evidence c) [fc_key c] St_Alive then (c # usable, tried, incomplete)
        else if fast_evidence_status (fc_evidence c) [fc_key c] St_Dead then (usable, fc_server c # tried, incomplete)
        else (usable, tried, True)) }"

section \<open>The attempt\<close>

datatype fast_outcome = Fast_Inconclusive | Fast_Switched | Fast_Fallback | Fast_Canceled

record fast_attempt =
  fa_config :: vpn_config
  fa_outcome :: fast_outcome
  fa_guard :: outbound_guard
  fa_tried :: "server list"

definition fast_terminal :: "watch_error option \<Rightarrow> bool" where
  "fast_terminal e \<longleftrightarrow> e \<in> Some ` {Err_Stopped, Err_Incompatible, Err_Superseded, Err_Gone}"

definition fast_infrastructure :: "watch_error option \<Rightarrow> bool" where
  "fast_infrastructure e \<longleftrightarrow> e \<in> Some ` {Err_Config, Err_Evidence, Err_Ended}"

text \<open>The monitor's dead proves a death only if it came after the main probe last passed on this server.\<close>

definition died_after_probe_ok :: "vpn_config \<Rightarrow> evidence \<Rightarrow> string list \<Rightarrow> watch \<Rightarrow> bool" where
  "died_after_probe_ok cfg e ks wa \<longleftrightarrow>
     wa_probe_ok_at wa \<noteq> zero_time \<and> wa_probe_ok_active wa = active_id (x_active (cfg_xray cfg)) \<and>
     wa_probe_ok_mark wa = record_mark (x_active (cfg_xray cfg)) \<and>
     list_all (\<lambda>k. wa_probe_ok_at wa < (case ev_endpoints e k of Some st \<Rightarrow> ps_since st | None \<Rightarrow> zero_time)) ks"

definition upd_fast :: "(fast_selection \<Rightarrow> fast_selection) \<Rightarrow> unit act" where
  "upd_fast f = upd_watch (\<lambda>wa. wa\<lparr>wa_fast := map_option f (wa_fast wa)\<rparr>)"

text \<open>An attempt that did not switch: what it still owns guards the rest of the tick.\<close>

definition fast_finish :: "vpn_config \<Rightarrow> watch_error option \<Rightarrow> fast_attempt act" where
  "fast_finish cfg err = do {
     c \<leftarrow> load_vpn;
     owned \<leftarrow> (case c of None \<Rightarrow> State_Monad.return (Inr ()) | Some current \<Rightarrow> outbound_guard_of False current);
     let config = (case c of None \<Rightarrow> cfg | Some current \<Rightarrow> current);
     let err = (case owned of Inl e \<Rightarrow> Some e | Inr _ \<Rightarrow> err);
     over \<leftarrow> mutation_ended;
     if over \<or> fast_terminal err then do {
       (case err of
          None \<Rightarrow> State_Monad.return ()
        | Some e \<Rightarrow> if interrupted e then upd_watch (\<lambda>wa. wa\<lparr>wa_mutation_failed := True\<rparr>) else State_Monad.return ());
       State_Monad.return \<lparr>fa_config = config, fa_outcome = Fast_Canceled, fa_guard = No_Guard, fa_tried = []\<rparr> }
     else State_Monad.return \<lparr>fa_config = config, fa_outcome = Fast_Inconclusive, fa_guard = Guarded False, fa_tried = []\<rparr> }"

definition choice_guard :: "fast_choice \<Rightarrow> vpn_config \<Rightarrow> (watch_error + unit) act" where
  "choice_guard c cfg =
     attempt (outbound_guard_of True cfg) (\<lambda>_.
     attempt (require Err_Superseded (failover_of cfg = None \<and> x_pending (cfg_xray cfg) = None)) (\<lambda>_. do {
       subs \<leftarrow> load_subs;
       wa \<leftarrow> the_watch;
       (case subs of
          None \<Rightarrow> State_Monad.return (Inl Err_Evidence)
        | Some subs \<Rightarrow>
            let sid = sv_subscription (fc_server c);
                link = (case wa_fast wa of None \<Rightarrow> [] | Some f \<Rightarrow> link_text (fs_links f) sid) in
            attempt (require Err_Gone (case find_subscription subs sid of
                None \<Rightarrow> False | Some i \<Rightarrow> sub_url (subs ! i) = link)) (\<lambda>_.
            attempt (require Err_Superseded (fast_candidate_present subs (fc_server c))) (\<lambda>_. do {
              alive \<leftarrow> proved (fc_evidence c) [fc_key c] St_Alive;
              attempt (require Err_Evidence alive) (\<lambda>_. allowed) }))) }))"

definition forget_notes :: "watch \<Rightarrow> watch" where
  "forget_notes wa = wa\<lparr>wa_route_kind := Note_None, wa_import_kind := Note_None\<rparr>"

definition fast_done :: "(string \<rightharpoonup> string) \<Rightarrow> server \<Rightarrow> int \<Rightarrow> vpn_config \<Rightarrow> fast_attempt act" where
  "fast_done names s seq current = do {
     settle_death;
     now \<leftarrow> time_now;
     upd_watch (\<lambda>wa. settled now (wa\<lparr>wa_last_picked := Some s\<rparr>));
     note_landing (Some current) seq;
     upd_watch forget_notes;
     notify Note_Restored (''Xray switched to server '' @ server_label names (sv_subscription s) (sv_name s));
     State_Monad.return \<lparr>fa_config = current, fa_outcome = Fast_Switched, fa_guard = No_Guard, fa_tried = []\<rparr> }"

text \<open>After the candidate's configuration is published, ownership alone ends the switch.\<close>

abbreviation published_guard :: "(watch_error + vpn_config) act" where
  "published_guard \<equiv> fast_guard_now (outbound_guard_of False)"

definition fast_start :: "fast_choice \<Rightarrow> vpn_config \<Rightarrow> (fast_attempt + bool) act" where
  "fast_start c cfg = do {
     rs \<leftarrow> restart_xray;
     r \<leftarrow> published_guard;
     (case (r, rs) of
        (Inl e, _) \<Rightarrow> do { a \<leftarrow> fast_finish cfg (Some e); State_Monad.return (Inl a) }
      | (Inr _, Inl e) \<Rightarrow>
          if fast_terminal (Some e) \<or> fast_infrastructure (Some e)
          then do { a \<leftarrow> fast_finish cfg (Some e); State_Monad.return (Inl a) }
          else State_Monad.return (Inr False)
      | (Inr _, Inr _) \<Rightarrow> State_Monad.return (Inr True)) }"

definition fast_probe :: "fast_choice \<Rightarrow> int \<Rightarrow> (string \<rightharpoonup> string) \<Rightarrow> vpn_config \<Rightarrow> fast_attempt option act" where
  "fast_probe c seq names cfg = do {
     r \<leftarrow> published_guard;
     (case r of
        Inl e \<Rightarrow> do { a \<leftarrow> fast_finish cfg (Some e); State_Monad.return (Some a) }
      | Inr _ \<Rightarrow> do {
          ok \<leftarrow> probe_now;
          r \<leftarrow> published_guard;
          (case r of
             Inl e \<Rightarrow> do { a \<leftarrow> fast_finish cfg (Some e); State_Monad.return (Some a) }
           | Inr current \<Rightarrow>
               if ok then do { a \<leftarrow> fast_done names (fc_server c) seq current; State_Monad.return (Some a) }
               else State_Monad.return None) }) }"

text \<open>One candidate: the end of the attempt, or whether the candidate counts as tried.\<close>

definition fast_try :: "(string \<rightharpoonup> string) \<Rightarrow> vpn_config \<Rightarrow> fast_choice \<Rightarrow> (fast_attempt + bool) act" where
  "fast_try names cfg c = do {
     r \<leftarrow> fast_guard_now (choice_guard c);
     (case r of
        Inl e \<Rightarrow> do { a \<leftarrow> fast_finish cfg (Some e); State_Monad.return (Inl a) }
      | Inr current \<Rightarrow> do {
          upd_fast (\<lambda>f. if fs_ports f = None then f\<lparr>fs_ports := Some (xray_inbound_ports current)\<rparr> else f);
          g \<leftarrow> generate (fc_server c) (choice_guard c);
          over \<leftarrow> mutation_ended;
          if over \<or> fast_terminal (gn_error g) \<or> gn_error g = Some Err_Evidence \<or>
             (\<not> gn_done g \<and> fast_infrastructure (gn_error g))
          then do { a \<leftarrow> fast_finish cfg (gn_error g); State_Monad.return (Inl a) }
          else if \<not> gn_done g then State_Monad.return (Inr False)
          else do {
            upd_fast (\<lambda>f. fast_record (fc_server c) g (f\<lparr>fs_last := Some c\<rparr>));
            r \<leftarrow> published_guard;
            (case r of
               Inl e \<Rightarrow> do { a \<leftarrow> fast_finish cfg (Some e); State_Monad.return (Inl a) }
             | Inr _ \<Rightarrow> do {
                 r \<leftarrow> fast_start c cfg;
                 (case r of
                    Inl a \<Rightarrow> State_Monad.return (Inl a)
                  | Inr started \<Rightarrow>
                      if \<not> started then State_Monad.return (Inr True)
                      else do {
                        p \<leftarrow> fast_probe c (gn_seq g) names cfg;
                        State_Monad.return (case p of Some a \<Rightarrow> Inl a | None \<Rightarrow> Inr True) }) }) } }) }"

fun fast_switch :: "(string \<rightharpoonup> string) \<Rightarrow> vpn_config \<Rightarrow> server list \<Rightarrow> fast_choice list \<Rightarrow> fast_attempt act" where
  "fast_switch names cfg tried [] = do {
     r \<leftarrow> fast_guard_now (outbound_guard_of True);
     (case r of
        Inl e \<Rightarrow> fast_finish cfg (Some e)
      | Inr current \<Rightarrow> State_Monad.return
          \<lparr>fa_config = current, fa_outcome = Fast_Fallback, fa_guard = Guarded True, fa_tried = tried\<rparr>) }"
| "fast_switch names cfg tried (c # cs) = do {
     r \<leftarrow> fast_try names cfg c;
     (case r of
        Inl a \<Rightarrow> State_Monad.return a
      | Inr t \<Rightarrow> fast_switch names cfg (if t then tried @ [fc_server c] else tried) cs) }"

definition not_applicable :: "vpn_config \<Rightarrow> fast_attempt" where
  "not_applicable cfg = \<lparr>fa_config = cfg, fa_outcome = Fast_Inconclusive, fa_guard = No_Guard, fa_tried = []\<rparr>"

definition new_selection :: "active_server \<Rightarrow> server \<Rightarrow> string list \<Rightarrow> subscription list \<Rightarrow> fast_selection" where
  "new_selection a s ks subs =
     \<lparr>fs_expected = a, fs_active = s, fs_active_keys = ks, fs_links = links_of subs, fs_ports = None,
      fs_evidence = unproved_evidence, fs_proof = False, fs_refreshed = False, fs_fallback = [], fs_last = None, fs_recorded = None\<rparr>"

text \<open>The checks have ended: the death is proved, or the attempt is over.\<close>

definition fast_decide :: "vpn_config \<Rightarrow> subscription list \<Rightarrow> string list \<Rightarrow> evidence option \<Rightarrow> bool \<Rightarrow>
    (fast_choice \<times> bool) list \<Rightarrow> fast_attempt act" where
  "fast_decide cfg subs ks checked wan choices = do {
     dead \<leftarrow> (case checked of
        None \<Rightarrow> State_Monad.return False
      | Some e \<Rightarrow> if wan then proved e ks St_Dead else State_Monad.return False);
     wa \<leftarrow> the_watch;
     (case checked of
        None \<Rightarrow> fast_finish cfg (Some Err_Evidence)
      | Some e \<Rightarrow>
          if \<not> dead \<or> \<not> died_after_probe_ok cfg e ks wa then fast_finish cfg (Some Err_Evidence)
          else do {
            upd_fast (\<lambda>f. f\<lparr>fs_evidence := e, fs_proof := True\<rparr>);
            r \<leftarrow> fast_guard_now (outbound_guard_of True);
            (case r of
               Inl e \<Rightarrow> fast_finish cfg (Some e)
             | Inr _ \<Rightarrow> do {
                 (usable, tried, incomplete) \<leftarrow> sort_choices choices;
                 if usable = [] \<and> incomplete then fast_finish cfg (Some Err_Evidence)
                 else do {
                   (if usable = [] then upd_fast (\<lambda>f. f\<lparr>fs_fallback := map fst choices\<rparr>) else State_Monad.return ());
                   fast_switch (subscription_names subs) cfg tried usable } }) }) }"

definition fast_confirm :: "vpn_config \<Rightarrow> active_server \<Rightarrow> subscription list \<Rightarrow> server \<Rightarrow> string list \<Rightarrow> evidence \<Rightarrow> fast_attempt act" where
  "fast_confirm cfg a subs s ks cached = do {
     let (order, _) = walk_order subs (choice_of (cfg_xray cfg));
     let addresses = map (\<lambda>c. sv_address (server_for_dial c)) (per_address [s]);
     picked \<leftarrow> pick_choices cached addresses fast_candidates ks
       (order_best (per_address order) (ref_for cfg (all_servers subs)) (Some cached));
     (case picked of
        None \<Rightarrow> State_Monad.return (not_applicable cfg)
      | Some choices \<Rightarrow> do {
          upd_watch (\<lambda>wa. wa\<lparr>wa_fast := Some (new_selection a s ks subs)\<rparr>);
          checked \<leftarrow> ask (\<lambda>ou n. ou_check ou n ks);
          wan \<leftarrow> ask ou_wan;
          choices \<leftarrow> check_choices choices;
          over \<leftarrow> mutation_ended;
          if over then State_Monad.return ((not_applicable cfg)\<lparr>fa_outcome := Fast_Canceled\<rparr>)
          else fast_decide cfg subs ks checked wan choices }) }"

definition fast_failover :: "vpn_config \<Rightarrow> fast_attempt act" where
  "fast_failover cfg =
     (if failover_of cfg \<noteq> None \<or> x_pending (cfg_xray cfg) \<noteq> None \<or> monitor_off cfg then State_Monad.return (not_applicable cfg)
      else case x_active (cfg_xray cfg) of
        None \<Rightarrow> State_Monad.return (not_applicable cfg)
      | Some a \<Rightarrow> do {
          subs \<leftarrow> load_subs;
          (case subs of
             None \<Rightarrow> State_Monad.return (not_applicable cfg)
           | Some subs \<Rightarrow>
               (case exact_fast_server subs a of
                  None \<Rightarrow> State_Monad.return (not_applicable cfg)
                | Some s \<Rightarrow> do {
                    let ks = rev (remdups (rev (endpoint_keys s)));
                    cached \<leftarrow> ask ou_evidence;
                    if ks = [] \<or> ev_state cached \<noteq> Mon_OK then State_Monad.return (not_applicable cfg)
                    else fast_confirm cfg a subs s ks cached })) })"

end
