(* ===== verification/Watch_Keeper.thy ===== *)
theory Watch_Keeper
  imports Watch_Fast
begin

text \<open>
  The keeper (\<^verbatim>\<open>subwatch/keeper.go\<close>): with nobody on Xray the watch still keeps it on a server
  that works. A server that moved or changed is followed, one that left its list or died is replaced by
  the best one that answers, and a run that found none backs off.
\<close>

section \<open>When the keeper acts\<close>

definition keeps :: "vpn_config \<Rightarrow> int \<Rightarrow> bool act" where
  "keeps cfg subs =
     (case x_active (cfg_xray cfg) of
        None \<Rightarrow> State_Monad.return False
      | Some active \<Rightarrow>
          if subs = 0 \<or> as_subscription active = [] then State_Monad.return False
          else do { e \<leftarrow> ask ou_evidence; State_Monad.return (ev_state e \<noteq> Mon_No_Xray) })"

definition replacement_waits :: "bool act" where
  "replacement_waits = do {
     up \<leftarrow> ask ou_wan;
     if up then State_Monad.return False
     else do { _ \<leftarrow> mutation_ended; State_Monad.return True } }"

section \<open>One run of switches\<close>

text \<open>The first of the candidates that works: whether one does, whether a refusal ended the run, and its fence.\<close>

fun switch_among :: "(server \<Rightarrow> string) \<Rightarrow> switcher \<Rightarrow> string list \<Rightarrow> string list \<Rightarrow> server list \<Rightarrow>
    (bool \<times> bool \<times> switcher) act" where
  "switch_among message sw seen gone [] = do {
     over \<leftarrow> any_of [mutation_ended, outbound_refuses, no_longer_owns sw];
     State_Monad.return (False, over, sw) }"
| "switch_among message sw seen gone (c # cs) =
     (if sv_subscription c \<in> set gone \<or> (dial_key c \<noteq> [] \<and> dial_key c \<in> set seen)
      then switch_among message sw seen gone cs
      else do {
        let seen = (if dial_key c = [] then seen else dial_key c # seen);
        (e, sw) \<leftarrow> switch_to sw c True;
        (case e of
           Sw_Ended \<Rightarrow> State_Monad.return (False, True, sw)
         | Sw_Gone \<Rightarrow> switch_among message sw seen (sv_subscription c # gone) cs
         | Sw_Failed \<Rightarrow> switch_among message sw seen gone cs
         | Sw_Live \<Rightarrow> do {
             over \<leftarrow> any_of [mutation_ended, no_longer_owns sw];
             if over then State_Monad.return (False, True, sw)
             else do {
               now \<leftarrow> time_now;
               upd_watch (\<lambda>wa. reset_keeper (forget_notes (settled now (wa\<lparr>wa_last_picked := Some c\<rparr>))));
               note_landing None (sw_seq sw);
               say (message c);
               State_Monad.return (True, False, sw) } }) })"

section \<open>A replacement\<close>

text \<open>What a copy dials, or for a legacy record the copy itself.\<close>

definition left_key :: "server \<Rightarrow> string" where
  "left_key c = (if dial_key c \<noteq> [] then dial_key c else [CHR 0x00] @ server_id c @ unit_sep @ dial_ip c)"

definition is_dead_copy :: "server option \<Rightarrow> active_server \<Rightarrow> server \<Rightarrow> bool" where
  "is_dead_copy dead replaced c \<longleftrightarrow>
     (case dead of None \<Rightarrow> False | Some d \<Rightarrow> server_id c = server_id d \<and> same_choice (Some replaced) c)"

definition shares_fate :: "server option \<Rightarrow> active_server \<Rightarrow> server \<Rightarrow> bool" where
  "shares_fate dead replaced c \<longleftrightarrow> is_dead_copy dead replaced c \<or>
     (case dead of None \<Rightarrow> False | Some d \<Rightarrow> left_key c \<in> set (map left_key (per_address [d])))"

text \<open>The candidates: without those that were tried, the dead server's copies apart.\<close>

definition replacement_copies :: "vpn_config \<Rightarrow> subscription list \<Rightarrow> server list \<Rightarrow> server list" where
  "replacement_copies cfg subs tried =
     filter (\<lambda>c. left_key c \<notin> set (map left_key tried)) (per_address (fst (walk_order subs (choice_of (cfg_xray cfg)))))"

datatype replacing = Left_List | Not_Answering

definition followed_text :: "bool \<Rightarrow> string \<Rightarrow> string" where
  "followed_text changed was =
     ''Xray server '' @ was @ (if changed then '' changed; Xray follows it'' else '' moved; Xray follows it'')"

definition with_kind :: "string \<Rightarrow> string \<Rightarrow> string" where
  "with_kind l g = (if g = [] then l else l @ '' ('' @ g @ '')'')"

definition replaced_text :: "(string \<rightharpoonup> string) \<Rightarrow> server option \<Rightarrow> replacing \<Rightarrow> active_server \<Rightarrow> server \<Rightarrow> string" where
  "replaced_text names dead why replaced c =
     (let was = server_label names (as_subscription replaced) (as_name replaced);
          to = server_label names (sv_subscription c) (sv_name c)
      in if is_dead_copy dead replaced c then followed_text True was
         else ''Xray server '' @ (if was = to then with_kind was (as_group replaced) else was)
           @ (case why of Left_List \<Rightarrow> '' left its subscription; Xray switched to ''
              | Not_Answering \<Rightarrow> '' is not answering; Xray switched to '')
           @ (if was = to then with_kind to (group_of c) else to))"

definition found_none :: "(string \<rightharpoonup> string) \<Rightarrow> switcher \<Rightarrow> active_server \<Rightarrow> unit act" where
  "found_none names sw replaced = do {
     latest \<leftarrow> load_vpn;
     if (case latest of None \<Rightarrow> False
         | Some c \<Rightarrow> superseded (x_active (cfg_xray c)) (sw_started sw) (sw_last sw) (sw_seq sw))
     then State_Monad.return ()
     else do {
       now \<leftarrow> time_now;
       upd_watch (keeper_back_off now);
       wa \<leftarrow> the_watch;
       if wa_keeper_noted wa then State_Monad.return ()
       else do {
         upd_watch (\<lambda>wa. wa\<lparr>wa_keeper_noted := True\<rparr>);
         let stays = (case Option.bind latest (\<lambda>c. x_active (cfg_xray c)) of
             None \<Rightarrow> server_label names (as_subscription replaced) (as_name replaced)
           | Some a \<Rightarrow> server_label names (as_subscription a) (as_name a));
         say (''No working Xray server found; Xray stays on '' @ stays) } } }"

definition replace_active :: "vpn_config \<Rightarrow> subscription list \<Rightarrow> switcher \<Rightarrow> server option \<Rightarrow> server list \<Rightarrow>
    replacing \<Rightarrow> active_server \<Rightarrow> unit act" where
  "replace_active cfg subs sw dead tried why replaced = do {
     over \<leftarrow> mutation_ended;
     if over then State_Monad.return ()
     else do {
       let copies = replacement_copies cfg subs tried;
       let names = subscription_names subs;
       let ref = ref_for cfg (all_servers subs);
       first \<leftarrow> best_walk_order (filter (\<lambda>c. \<not> shares_fate dead replaced c) copies) cfg ref;
       last_ones \<leftarrow> best_walk_order (filter (shares_fate dead replaced) copies) cfg ref;
       (found, ended, sw) \<leftarrow> switch_among (replaced_text names dead why replaced) sw [] [] (first @ last_ones);
       if found \<or> ended then State_Monad.return () else found_none names sw replaced } }"

definition replace_under :: "vpn_config \<Rightarrow> active_server \<Rightarrow> server list \<Rightarrow> unit act" where
  "replace_under cfg died tried = do {
     upd_watch consume_proof;
     subs \<leftarrow> load_subs;
     (case subs of
        None \<Rightarrow> State_Monad.return ()
      | Some subs \<Rightarrow>
          if subs = [] then State_Monad.return ()
          else do {
            over \<leftarrow> any_of [mutation_ended, outbound_refuses];
            if over then State_Monad.return ()
            else do {
              settle_death;
              replace_active cfg subs (new_switcher cfg subs) (exact_fast_server subs died) tried Not_Answering died } }) }"

text \<open>A part of the tick under the guard of a fallback.\<close>

definition under_guard :: "outbound_guard \<Rightarrow> 'a act \<Rightarrow> 'a act" where
  "under_guard g c = do {
     wa \<leftarrow> the_watch;
     upd_watch (\<lambda>wa. wa\<lparr>wa_outbound := g\<rparr>);
     r \<leftarrow> c;
     upd_watch (\<lambda>wa'. wa'\<lparr>wa_outbound := wa_outbound wa\<rparr>);
     State_Monad.return r }"

definition replace_dead :: "vpn_config \<Rightarrow> active_server option \<Rightarrow> server list \<Rightarrow> outbound_guard \<Rightarrow> unit act" where
  "replace_dead cfg died tried guard =
     (case (x_active (cfg_xray cfg), died) of
        (Some _, Some died) \<Rightarrow> do {
          waits \<leftarrow> replacement_waits;
          if waits then State_Monad.return () else under_guard guard (replace_under cfg died tried) }
      | _ \<Rightarrow> State_Monad.return ())"

section \<open>Following the selected server\<close>

definition follow_gone :: "vpn_config \<Rightarrow> subscription list \<Rightarrow> active_server \<Rightarrow> bool \<Rightarrow> bool act" where
  "follow_gone cfg subs active clients =
     (if clients then State_Monad.return False
      else do {
        waits \<leftarrow> replacement_waits;
        if waits then State_Monad.return False
        else do {
          settle_death;
          replace_active cfg subs (new_switcher cfg subs) None [] Left_List active;
          State_Monad.return True } })"

text \<open>Xray on the entry the server has now; where that does not answer either, the keeper replaces it.\<close>

definition follow_entry :: "vpn_config \<Rightarrow> subscription list \<Rightarrow> active_server \<Rightarrow> bool \<Rightarrow> server \<Rightarrow> bool \<Rightarrow> bool act" where
  "follow_entry cfg subs active changed entry clients = do {
     followed \<leftarrow> best_walk_order (per_address [entry]) cfg (ref_for cfg (all_servers subs));
     (found, ended, sw) \<leftarrow> switch_among
       (\<lambda>_. followed_text changed (server_label (subscription_names subs) (as_subscription active) (as_name active)))
       (new_switcher cfg subs) [] [] followed;
     if found \<or> ended then State_Monad.return True
     else if clients then State_Monad.return (sw_last sw \<noteq> [])
     else do {
       waits \<leftarrow> replacement_waits;
       if waits then State_Monad.return True
       else do {
         settle_death;
         replace_active cfg subs sw (Some entry) followed Not_Answering active;
         State_Monad.return True } } }"

definition may_follow :: "vpn_config \<Rightarrow> watch \<Rightarrow> bool" where
  "may_follow cfg wa \<longleftrightarrow>
     wa_fail_since wa \<noteq> zero_time \<and> 2 \<le> wa_failed_probes wa \<and> \<not> wa_pending_apply wa \<and>
     failover_of cfg = None \<and> x_pending (cfg_xray cfg) = None"

text \<open>\<open>followActive\<close>: whether it acted.\<close>

definition follow_active :: "vpn_config \<Rightarrow> bool \<Rightarrow> bool act" where
  "follow_active cfg clients = do {
     wa \<leftarrow> the_watch;
     (case x_active (cfg_xray cfg) of
        None \<Rightarrow> State_Monad.return False
      | Some active \<Rightarrow>
          if \<not> may_follow cfg wa then State_Monad.return False
          else do {
            now \<leftarrow> time_now;
            over \<leftarrow> (if now < wa_keeper_not_before wa then State_Monad.return True else mutation_ended);
            if over then State_Monad.return False
            else do {
              subs \<leftarrow> load_subs;
              (case subs of
                 None \<Rightarrow> State_Monad.return False
               | Some subs \<Rightarrow> do {
                   over \<leftarrow> (if subs = [] then State_Monad.return True else mutation_ended);
                   if over then State_Monad.return False
                   else (case classify_active subs (Some active) of
                     (Actual_Gone, _) \<Rightarrow> follow_gone cfg subs active clients
                   | (Actual_Changed, Some entry) \<Rightarrow> follow_entry cfg subs active True entry clients
                   | (Actual_Moved, Some entry) \<Rightarrow> follow_entry cfg subs active False entry clients
                   | _ \<Rightarrow> State_Monad.return False) }) } }) }"

section \<open>A tick of the keeper\<close>

text \<open>The probe passed.\<close>

definition probed_ok :: "vpn_config \<Rightarrow> int \<Rightarrow> watch \<Rightarrow> watch" where
  "probed_ok cfg now wa =
     reset_keeper (forget_notes (reset_fail
       (wa\<lparr>wa_probe_ok_at := now, wa_probe_ok_active := active_id (x_active (cfg_xray cfg)),
          wa_probe_ok_mark := record_mark (x_active (cfg_xray cfg))\<rparr>)))"

text \<open>The legacy confirmation: below \<open>DeadAfter\<close> the addresses are looked at as well.\<close>

definition confirmed_dead :: "vpn_config \<Rightarrow> int \<Rightarrow> bool act" where
  "confirmed_dead cfg now = do {
     wa \<leftarrow> the_watch;
     (if sub_time now (wa_fail_since wa) < dead_after then check_reach cfg else State_Monad.return ());
     wa \<leftarrow> the_watch;
     State_Monad.return (dead_reason now wa \<noteq> []) }"

definition keep_failed :: "vpn_config \<Rightarrow> int \<Rightarrow> unit act" where
  "keep_failed cfg now = do {
     a \<leftarrow> fast_failover cfg;
     (case fa_outcome a of
        Fast_Switched \<Rightarrow> State_Monad.return ()
      | Fast_Canceled \<Rightarrow> upd_watch reset_fail
      | Fast_Fallback \<Rightarrow> replace_dead (fa_config a) (x_active (cfg_xray cfg)) (fa_tried a) (fa_guard a)
      | Fast_Inconclusive \<Rightarrow> do {
          dead \<leftarrow> confirmed_dead (fa_config a) now;
          if dead then replace_dead (fa_config a) (x_active (cfg_xray cfg)) [] (fa_guard a)
          else State_Monad.return () }) }"

definition keep :: "vpn_config \<Rightarrow> unit act" where
  "keep cfg = do {
     ok \<leftarrow> probe_now;
     over \<leftarrow> mutation_ended;
     if over then State_Monad.return ()
     else do {
       now \<leftarrow> time_now;
       if ok then do { upd_watch (probed_ok cfg now); maybe_return cfg }
       else do {
         upd_watch (missed cfg now);
         acted \<leftarrow> follow_active cfg False;
         wa \<leftarrow> the_watch;
         if acted \<or> now < wa_keeper_not_before wa then State_Monad.return ()
         else keep_failed cfg now } } }"

end
