(* ===== verification/Watch_Gentle.thy ===== *)
theory Watch_Gentle
  imports Watch_Keeper
begin

text \<open>
  A switch of Xray leaves the routes alone: whatever the watch writes while it generates, restarts and
  records - on the fast path, in a return, in the keeper - only the record of the selected server and the
  lists change. Such computations, the gentle ones, keep every state between two handlers.
\<close>

section \<open>Gentle steps\<close>

text \<open>A change of the configuration that leaves the routes as they are.\<close>

definition same_routes :: "vpn_config \<Rightarrow> vpn_config \<Rightarrow> bool" where
  "same_routes cfg cfg' \<longleftrightarrow>
     cfg_tunnels cfg' = cfg_tunnels cfg \<and> cfg_paused cfg' = cfg_paused cfg \<and> xray_clients cfg' = xray_clients cfg \<and>
     failover_of cfg' = failover_of cfg \<and> (x_pending (cfg_xray cfg') = None \<longleftrightarrow> x_pending (cfg_xray cfg) = None)"

definition gentle_watch :: "watch \<Rightarrow> watch \<Rightarrow> bool" where
  "gentle_watch wa wa' \<longleftrightarrow> (waits_ok wa \<longrightarrow> waits_ok wa') \<and> wa_pending_apply wa' = wa_pending_apply wa \<and>
     wa_reconciled wa' = wa_reconciled wa"

definition file_step :: "outside \<Rightarrow> vpn_config \<Rightarrow> vpn_config \<Rightarrow> bool" where
  "file_step ou cfg cfg' \<longleftrightarrow> others_step ou cfg cfg' \<or> same_routes cfg cfg'"

fun route_write :: "deed \<Rightarrow> bool" where
  "route_write (Wrote d) \<longleftrightarrow> d \<noteq> W_Other"
| "route_write _ \<longleftrightarrow> False"

definition gentle_step :: "world \<Rightarrow> world \<Rightarrow> bool" where
  "gentle_step w w' \<longleftrightarrow>
     wd_outside w' = wd_outside w \<and> (file_step (wd_outside w))\<^sup>*\<^sup>* (wd_file w) (wd_file w') \<and>
     gentle_watch (wd_watch w) (wd_watch w') \<and> (\<exists>ds. wd_deeds w' = ds @ wd_deeds w \<and> list_all (\<lambda>d. \<not> route_write d) ds)"

definition gentle :: "'a act \<Rightarrow> bool" where
  "gentle c \<longleftrightarrow> (\<forall>w. gentle_step w (snd (run_state c w)))"

definition gentle_update :: "(watch \<Rightarrow> watch) \<Rightarrow> bool" where
  "gentle_update f \<longleftrightarrow> (\<forall>wa. gentle_watch wa (f wa))"

named_theorems gentle_intros

lemma gentle_watch_refl [simp]: "gentle_watch wa wa"
  by (simp add: gentle_watch_def)

lemma gentle_watch_trans: "gentle_watch wa wa1 \<Longrightarrow> gentle_watch wa1 wa2 \<Longrightarrow> gentle_watch wa wa2"
  by (simp add: gentle_watch_def)

lemma gentle_refl [simp]: "gentle_step w w"
  by (simp add: gentle_step_def)

lemma gentle_trans:
  assumes "gentle_step w w1" and "gentle_step w1 w2"
  shows "gentle_step w w2"
proof -
  obtain ds ds' where "wd_deeds w1 = ds @ wd_deeds w" "wd_deeds w2 = ds' @ wd_deeds w1"
      "list_all (\<lambda>d. \<not> route_write d) ds" "list_all (\<lambda>d. \<not> route_write d) ds'"
    using assms unfolding gentle_step_def by blast
  then have "\<exists>ds. wd_deeds w2 = ds @ wd_deeds w \<and> list_all (\<lambda>d. \<not> route_write d) ds"
    by (intro exI [of _ "ds' @ ds"]) simp
  then show ?thesis
    using assms gentle_watch_trans [of "wd_watch w" "wd_watch w1" "wd_watch w2"] unfolding gentle_step_def
    by (auto intro: rtranclp_trans)
qed

lemma mild_gentle:
  assumes "mild_step w w'"
  shows "gentle_step w w'"
proof -
  have deeds: "list_all (\<lambda>d. \<not> route_write d) ds" if "list_all (\<lambda>d. \<not> is_write d) ds" for ds
    using that by (rule list.pred_mono_strong) (auto elim: route_write.elims)
  have "(file_step (wd_outside w))\<^sup>*\<^sup>* (wd_file w) (wd_file w')"
    using assms unfolding mild_step_def
    by (elim conjE) (erule rtranclp_mono [THEN predicate2D, rotated], auto simp: file_step_def)
  moreover have "gentle_watch (wd_watch w) (wd_watch w')"
    using assms same_state_fields [of "wd_watch w" "wd_watch w'"] by (simp add: mild_step_def gentle_watch_def waits_ok_def)
  ultimately show ?thesis
    using assms deeds unfolding gentle_step_def mild_step_def by metis
qed

lemma gentle_bind [gentle_intros]: "gentle c \<Longrightarrow> (\<And>a. gentle (f a)) \<Longrightarrow> gentle (State_Monad.bind c f)"
  unfolding gentle_def by (auto simp: case_prod_beta intro: gentle_trans)

lemma gentle_mild: "mild c \<Longrightarrow> gentle c"
  by (simp add: mild_def gentle_def mild_gentle)

lemma gentle_silent: "silent c \<Longrightarrow> gentle c"
  by (rule gentle_mild [OF silent_mild])

lemma gentle_cases [gentle_intros]:
  "gentle (State_Monad.return x)" "(b \<Longrightarrow> gentle c) \<Longrightarrow> (\<not> b \<Longrightarrow> gentle d) \<Longrightarrow> gentle (if b then c else d)"
  "gentle c \<Longrightarrow> (\<And>x. gentle (f x)) \<Longrightarrow> gentle (case r of None \<Rightarrow> c | Some x \<Rightarrow> f x)"
  "(\<And>e. gentle (g e)) \<Longrightarrow> (\<And>y. gentle (h y)) \<Longrightarrow> gentle (case s of Inl e \<Rightarrow> g e | Inr y \<Rightarrow> h y)"
  "(\<And>y z. gentle (k y z)) \<Longrightarrow> gentle (case p of (y, z) \<Rightarrow> k y z)"
  "(\<And>y. gentle (m y)) \<Longrightarrow> gentle (Let v m)"
  by (auto intro: gentle_silent [OF silent_return] split: option.split sum.split prod.split)

lemma gentle_attempt [gentle_intros]: "gentle c \<Longrightarrow> (\<And>a. gentle (f a)) \<Longrightarrow> gentle (attempt c f)"
  unfolding attempt_def by (intro gentle_intros)

lemma gentle_calls [gentle_intros]:
  "gentle (ask f)" "gentle the_watch" "gentle the_file" "gentle the_subs" "gentle (set_subs subs)" "gentle others_edit"
  "gentle others_write" "gentle (require er b)" "gentle allowed" "gentle outbound_allowed" "gentle outbound_locked" "gentle may_act"
  "gentle load_vpn" "gentle time_now" "gentle context_ended" "gentle load_subs" "gentle subscription_count"
  "gentle (valid_evidence e ks)" "gentle (proved e ks st)" "gentle (ownership fs cfg)" "gentle (fast_guard fs cfg)"
  "gentle (outbound_guard_of pr cfg)" "gentle (notify kind msg)" "gentle (say msg)" "gentle restart_xray" "gentle probe_now"
  by (rule gentle_silent, intro silent_intros)+ (rule gentle_mild, intro mild_intros)+

lemma gentle_did: "\<not> route_write d \<Longrightarrow> gentle (did d)"
  by (simp add: gentle_def gentle_step_def did_def)

lemma gentle_write: "same_routes (wd_file w) cfg \<Longrightarrow> gentle_step w (snd (run_state (write_file W_Other cfg) w))"
  by (auto simp: gentle_step_def write_file_def file_step_def)

lemma gentle_upd [gentle_intros]: "gentle_update f \<Longrightarrow> gentle (upd_watch f)"
  by (simp add: gentle_def gentle_step_def gentle_update_def upd_watch_def)

section \<open>What such steps keep\<close>

lemma same_routes_good:
  assumes "same_routes cfg cfg'"
  shows "good q a cfg' \<longleftrightarrow> good q a cfg"
proof -
  have "tunnel_of cfg' k = tunnel_of cfg k" for k using assms by (simp add: same_routes_def tunnel_of_def)
  then have "tunnel_clients cfg' k = tunnel_clients cfg k" for k by (simp add: tunnel_clients_def)
  then show ?thesis
    using assms by (simp add: same_routes_def good_def well_formed_def routes_ok_def undoable_def on_route_def covered_def alone_def)
qed

lemma file_steps:
  assumes "(file_step ou)\<^sup>*\<^sup>* cfg cfg'" and "considerate a ou"
  shows "good q a cfg \<Longrightarrow> good q a cfg'" and "failover_of cfg = None \<Longrightarrow> failover_of cfg' = None"
proof -
  have "(good q a cfg \<longrightarrow> good q a cfg') \<and> (failover_of cfg = None \<longrightarrow> failover_of cfg' = None)"
    using assms(1)
  proof (induction rule: rtranclp_induct)
    case (step y z)
    have "(good q a y \<longrightarrow> good q a z) \<and> (failover_of y = None \<longrightarrow> failover_of z = None)"
    proof (cases "same_routes y z")
      case True
      then show ?thesis using same_routes_good [OF True] by (simp add: same_routes_def)
    next
      case False
      then have "others_step ou y z" using step(2) by (simp add: file_step_def)
      then show ?thesis
        using others_good [OF r_into_rtranclp assms(2)] others_steps(3) [OF r_into_rtranclp assms(2)] by metis
    qed
    then show ?case using step(3) by metis
  qed simp
  then show "good q a cfg \<Longrightarrow> good q a cfg'" and "failover_of cfg = None \<Longrightarrow> failover_of cfg' = None" by blast+
qed

lemma other_writes:
  assumes "list_all (\<lambda>d. \<not> route_write d) ds"
  shows "ordered (ds @ ds') = ordered ds'" and "applied ds' \<Longrightarrow> applied (ds @ ds')"
  using assms by (induction ds) (auto split: deed.splits)

lemma gentle_safe:
  assumes "gentle_step w w'" and "safe q a w"
  shows "safe q a w'" and "applied (wd_deeds w) \<Longrightarrow> applied (wd_deeds w')"
    and "wa_pending_apply (wd_watch w') = wa_pending_apply (wd_watch w)"
    and "failover_of (wd_file w) = None \<Longrightarrow> failover_of (wd_file w') = None"
proof -
  obtain ds where ds: "wd_deeds w' = ds @ wd_deeds w" "list_all (\<lambda>d. \<not> route_write d) ds"
    using assms(1) unfolding gentle_step_def by blast
  have step: "wd_outside w' = wd_outside w" "(file_step (wd_outside w))\<^sup>*\<^sup>* (wd_file w) (wd_file w')"
    "gentle_watch (wd_watch w) (wd_watch w')" using assms(1) by (simp_all add: gentle_step_def)
  have con: "considerate a (wd_outside w)" using assms(2) by (simp add: safe_def)
  show "safe q a w'"
    using assms(2) step(1,3) file_steps(1) [OF step(2) con] other_writes(1) [OF ds(2)] ds(1)
    by (simp add: safe_def gentle_watch_def)
  show "applied (wd_deeds w) \<Longrightarrow> applied (wd_deeds w')" using other_writes(2) [OF ds(2)] ds(1) by simp
  show "wa_pending_apply (wd_watch w') = wa_pending_apply (wd_watch w)" using step(3) by (simp add: gentle_watch_def)
  show "failover_of (wd_file w) = None \<Longrightarrow> failover_of (wd_file w') = None" using file_steps(2) [OF step(2) con] .
qed

lemma gentle_steadily:
  assumes "gentle c"
  shows "steadily q a c"
  unfolding steadily_def valid_def
proof (intro allI impI)
  fix w
  let ?w = "snd (run_state c w)"
  assume w: "steady_state q a w"
  have step: "gentle_step w ?w" using assms by (simp add: gentle_def)
  have "safe q a w" using w by (rule steady_cases)
  from gentle_safe [OF step this] w show "steady_state q a ?w" by (auto simp: steady_state_def)
qed

lemma steadily_let [steady_intros]: "(\<And>x. steadily q a (f x)) \<Longrightarrow> steadily q a (Let v f)"
  by simp

end
