(* ===== verification/Watch_Steady.thy ===== *)
theory Watch_Steady
  imports Watch_Gentle
begin

text \<open>
  The parts of a tick that switch Xray are gentle: a generation under its guard, a publication of a list,
  a return, the fast path, the keeper; and a walk, which ends in the restore of the clients, is steady.
\<close>

section \<open>Guards\<close>

text \<open>A guard only looks: it writes nothing, and nobody writes the file while it runs under the lock.\<close>

definition looks :: "(vpn_config \<Rightarrow> (watch_error + unit) act) \<Rightarrow> bool" where
  "looks guard \<longleftrightarrow> (\<forall>cfg. silent (guard cfg) \<and> still (guard cfg))"

lemma looks_silent: "looks guard \<Longrightarrow> silent (guard cfg)"
  by (simp add: looks_def)

lemma silent_any [silent_intros]: "silent (any_of [])" "silent c \<Longrightarrow> silent (any_of cs) \<Longrightarrow> silent (any_of (c # cs))"
  by (auto intro!: silent_intros)

lemma silent_mutation [silent_intros]: "silent mutation_ended" "silent outbound_refuses" "silent (subscription_holds sid link)"
  unfolding mutation_ended_def outbound_refuses_def subscription_holds_def by (intro silent_intros)+

lemma silent_owns [silent_intros]: "silent (walk_owns started latest seq cfg)" "silent (walk_owns_now started latest seq)"
  "silent (no_longer_owns sw)"
  unfolding no_longer_owns_def walk_owns_now_def walk_owns_def by (intro silent_intros)+

lemma silent_failed [silent_intros]: "silent (upd_watch (\<lambda>wa. wa\<lparr>wa_mutation_failed := b\<rparr>))"
  by (rule silent_upd) (simp add: same_state_def masked_def)

lemma silent_walk_ended [silent_intros]: "silent (walk_ended r)"
  unfolding walk_ended_def by (intro silent_intros)

lemma silent_fast_upd [silent_intros]: "silent (upd_watch (\<lambda>wa. wa\<lparr>wa_fast := f wa\<rparr>))" "silent (upd_fast g)"
  "silent (upd_watch consume_proof)" "silent (upd_watch (\<lambda>wa. wa\<lparr>wa_outbound := h wa\<rparr>))"
  unfolding upd_fast_def by (rule silent_upd, simp add: consume_proof_def)+

lemma still_holds [still_intros]: "still (subscription_holds sid link)" "still (walk_owns started latest seq cfg)" "still (upd_fast g)"
  unfolding subscription_holds_def walk_owns_def upd_fast_def by (intro still_intros)+

lemma looks_walk: "looks (walk_guard sid link started latest seq)"
  unfolding looks_def walk_guard_def by (intro allI conjI silent_intros still_intros)

lemma looks_owned: "looks guard \<Longrightarrow> looks (owned_guard s guard)"
  unfolding looks_def owned_guard_def by (intro allI conjI silent_intros still_intros) simp_all

lemma looks_choice: "looks (choice_guard c)"
  unfolding looks_def choice_guard_def Let_def by (intro allI conjI silent_intros still_intros)

lemma looks_of_walk: "looks (guard_of_walk plan wk sid)"
  unfolding guard_of_walk_def by (rule looks_walk)

section \<open>A generation\<close>

lemma gentle_waits:
  "gentle_update (landed_on_choice c seq now)" "gentle_update (settled now)" "gentle_update reset_fail" "gentle_update reset_keeper"
  "gentle_update forget_notes" "gentle_update (keeper_back_off now)" "gentle_update (back_off_return now)"
  "gentle_update (return_after_death now)" "gentle_update (return_held now)" "gentle_update (returned now sw sv g)"
  "gentle_update (missed cfg now)" "gentle_update (probed_ok cfg now)" "gentle_update (back_off_import now)"
proof -
  note waits = gentle_update_def gentle_watch_def waits_ok_def Let_def wait_steps_def watch_waits
  show "gentle_update (landed_on_choice c seq now)"
    by (auto simp: waits landed_on_choice_def split: option.split)
  show "gentle_update (settled now)" "gentle_update reset_fail" "gentle_update reset_keeper" "gentle_update forget_notes"
    "gentle_update (return_held now)" "gentle_update (returned now sw sv g)" "gentle_update (missed cfg now)"
    "gentle_update (probed_ok cfg now)"
    by (auto simp: waits settled_def reset_fail_def reset_keeper_def forget_notes_def return_held_def returned_def
        missed_def probed_ok_def)
  show "gentle_update (keeper_back_off now)" "gentle_update (back_off_return now)" "gentle_update (back_off_import now)"
    by (auto simp: waits keeper_back_off_def back_off_return_def back_off_import_def import_interval_def)
  have backed: "gentle_update (back_off_return now)"
    by (auto simp: waits back_off_return_def)
  then show "gentle_update (return_after_death now)"
    unfolding gentle_update_def
    by (auto simp: return_after_death_def Let_def gentle_watch_def waits_ok_def wait_steps_def)
qed

lemma gentle_marks:
  "gentle_update (\<lambda>wa. wa\<lparr>wa_mutation_failed := b\<rparr>)" "gentle_update (\<lambda>wa. wa\<lparr>wa_fast := f wa\<rparr>)"
  "gentle_update (\<lambda>wa. wa\<lparr>wa_outbound := g wa\<rparr>)" "gentle_update consume_proof"
  by (auto simp: gentle_update_def gentle_watch_def waits_ok_def consume_proof_def)

lemma gentle_fields:
  "gentle_update (\<lambda>wa. wa\<lparr>wa_own_seq := n\<rparr>)" "gentle_update (\<lambda>wa. wa\<lparr>wa_last_picked := p\<rparr>)"
  "gentle_update (\<lambda>wa. wa\<lparr>wa_down_checks := dc wa\<rparr>)" "gentle_update (\<lambda>wa. wa\<lparr>wa_last_import := n\<rparr>)"
  "gentle_update (\<lambda>wa. wa\<lparr>wa_return_not_before := n\<rparr>)" "gentle_update (\<lambda>wa. wa\<lparr>wa_keeper_noted := b\<rparr>)"
  "gentle_update (\<lambda>wa. wa\<lparr>wa_import_retry := 0\<rparr>)"
  "gentle_update (\<lambda>wa. settled now (wa\<lparr>wa_last_picked := p\<rparr>))"
  "gentle_update (\<lambda>wa. reset_keeper (forget_notes (settled now (wa\<lparr>wa_last_picked := p\<rparr>))))"
  "gentle_update (\<lambda>wa. if wa_return_death wa \<noteq> wa_fail_since wa
     then return_after_death now (wa\<lparr>wa_return_death := wa_fail_since wa\<rparr>) else wa)"
proof -
  show "gentle_update (\<lambda>wa. wa\<lparr>wa_own_seq := n\<rparr>)" "gentle_update (\<lambda>wa. wa\<lparr>wa_last_picked := p\<rparr>)"
    "gentle_update (\<lambda>wa. wa\<lparr>wa_down_checks := dc wa\<rparr>)" "gentle_update (\<lambda>wa. wa\<lparr>wa_last_import := n\<rparr>)"
    "gentle_update (\<lambda>wa. wa\<lparr>wa_return_not_before := n\<rparr>)" "gentle_update (\<lambda>wa. wa\<lparr>wa_keeper_noted := b\<rparr>)"
    "gentle_update (\<lambda>wa. wa\<lparr>wa_import_retry := 0\<rparr>)"
    by (simp_all add: gentle_update_def gentle_watch_def waits_ok_def wait_steps_def)
  show "gentle_update (\<lambda>wa. settled now (wa\<lparr>wa_last_picked := p\<rparr>))"
    "gentle_update (\<lambda>wa. reset_keeper (forget_notes (settled now (wa\<lparr>wa_last_picked := p\<rparr>))))"
    by (auto simp: gentle_update_def gentle_watch_def waits_ok_def wait_steps_def settled_def reset_fail_def reset_keeper_def
        forget_notes_def Let_def)
  have "gentle_watch wa (return_after_death now (wa\<lparr>wa_return_death := n\<rparr>))" for wa n
  proof (rule gentle_watch_trans)
    show "gentle_watch wa (wa\<lparr>wa_return_death := n\<rparr>)" by (simp add: gentle_watch_def waits_ok_def)
    show "gentle_watch (wa\<lparr>wa_return_death := n\<rparr>) (return_after_death now (wa\<lparr>wa_return_death := n\<rparr>))"
      using gentle_waits(8) by (simp add: gentle_update_def)
  qed
  then show "gentle_update (\<lambda>wa. if wa_return_death wa \<noteq> wa_fail_since wa
     then return_after_death now (wa\<lparr>wa_return_death := wa_fail_since wa\<rparr>) else wa)"
    by (simp add: gentle_update_def)
qed

lemma mild_option: "mild c \<Longrightarrow> (\<And>x. mild (f x)) \<Longrightarrow> mild (case r of None \<Rightarrow> c | Some x \<Rightarrow> f x)"
  by (cases r) auto

lemma publish_looks:
  assumes "silent guard" and "still guard"
  shows "mild (publish_config guard b s)" "still (publish_config guard b s)"
  unfolding publish_config_def
  by (intro mild_bind mild_attempt mild_option mild_did silent_mild [OF assms(1)] silent_mild [OF silent_allowed(2)]
      silent_mild [OF silent_ask] silent_mild [OF silent_return] silent_mild [OF silent_reads(6)]; simp)
    (intro still_intros assms)

lemma same_routes_record: "same_routes cfg (upd_xray (\<lambda>_. record_walked_server (cfg_xray cfg) s) cfg)"
  by (simp add: same_routes_def record_walked_server_def Let_def record_ops)

lemma gentle_save:
  "gentle_step (w\<lparr>wd_file := cfg\<rparr>) (snd (run_state (save_record cfg s) (w\<lparr>wd_file := cfg\<rparr>)))"
proof -
  let ?w = "w\<lparr>wd_file := cfg, wd_calls := wd_calls w + 1\<rparr>"
  let ?x = "record_walked_server (cfg_xray cfg) s"
  have "gentle_step (w\<lparr>wd_file := cfg\<rparr>) ?w" by (simp add: gentle_step_def)
  moreover have "gentle_step ?w (snd (run_state (write_file W_Other (upd_xray (\<lambda>_. ?x) cfg)) ?w))"
    by (rule gentle_write) (simp add: same_routes_record)
  moreover have "gentle (case x_active ?x of None \<Rightarrow> State_Monad.return () | Some r \<Rightarrow> did (Recorded r))"
    by (intro gentle_intros gentle_did) simp
  ultimately show ?thesis
    by (auto simp: save_record_def Let_def ask_def case_prod_beta gentle_def intro: gentle_trans)
qed

lemma gentle_generate_record:
  assumes "looks guard"
  shows "gentle (generate_and_record guard s)"
proof -
  have save: "gentle_step w (snd (run_state (case r of Inl e \<Rightarrow> State_Monad.return (not_generated e) | Inr _ \<Rightarrow> save_record cfg s) w))"
    if "wd_file w = cfg" for r :: "watch_error + unit" and cfg w
    using that gentle_save [of cfg w s] by (cases r) auto
  have checked: "mild (attempt (guard cfg) (\<lambda>_. publish_config (guard cfg) b s))" "still (attempt (guard cfg) (\<lambda>_. publish_config (guard cfg) b s))"
    for cfg b
    using assms publish_looks [of "guard cfg" b s] unfolding looks_def by (auto intro: mild_intros still_intros)
  have locked: "gentle_step w (snd (run_state (do {
      current \<leftarrow> the_file;
      r \<leftarrow> attempt (guard current) (\<lambda>_. publish_config (guard current) (x_active (cfg_xray current)) s);
      (case r of Inl e \<Rightarrow> State_Monad.return (not_generated e) | Inr _ \<Rightarrow> save_record current s) }) w))" for w
  proof -
    let ?c = "attempt (guard (wd_file w)) (\<lambda>_. publish_config (guard (wd_file w)) (x_active (cfg_xray (wd_file w))) s)"
    have "gentle_step w (snd (run_state ?c w))" "wd_file (snd (run_state ?c w)) = wd_file w"
      using checked [of "wd_file w" "x_active (cfg_xray (wd_file w))"] by (auto simp: mild_def still_def intro: mild_gentle)
    then show ?thesis
      by (auto simp: the_file_def case_prod_beta intro: gentle_trans [OF _ save])
  qed
  then have body: "gentle (do { current \<leftarrow> the_file;
      r \<leftarrow> attempt (guard current) (\<lambda>_. publish_config (guard current) (x_active (cfg_xray current)) s);
      (case r of Inl e \<Rightarrow> State_Monad.return (not_generated e) | Inr _ \<Rightarrow> save_record current s) })"
    by (simp add: gentle_def)
  show ?thesis
    unfolding generate_and_record_def
    by (rule gentle_bind [OF gentle_calls(1)], rule gentle_cases(2), rule gentle_cases(1), rule gentle_bind [OF gentle_calls(7)], rule body)
qed

lemma gentle_generate [gentle_intros]: "looks guard \<Longrightarrow> gentle (generate s guard)"
  unfolding generate_def by (intro gentle_intros gentle_generate_record gentle_fields)

lemma gentle_generate_walked [gentle_intros]: "looks guard \<Longrightarrow> gentle (generate_walked s guard)"
  unfolding generate_walked_def
  by (intro gentle_intros gentle_silent [OF silent_fast_upd(1)] looks_owned)

section \<open>Switches\<close>

lemmas gentle_looks [gentle_intros] = silent_mutation [THEN gentle_silent] silent_owns [THEN gentle_silent]
  gentle_silent [OF silent_walk_ended] silent_fast_upd [THEN gentle_silent]

lemma gentle_any [gentle_intros]: "gentle (any_of [])" "gentle c \<Longrightarrow> gentle (any_of cs) \<Longrightarrow> gentle (any_of (c # cs))"
  by (auto intro!: gentle_intros)

lemma gentle_restart [gentle_intros]: "gentle restart_and_probe"
  unfolding restart_and_probe_def by (intro gentle_intros)

lemma gentle_switch [gentle_intros]: "gentle (switch_to sw c holds)"
  unfolding switch_to_def by (intro gentle_intros looks_walk)

lemma gentle_reach [gentle_intros]: "gentle (reachable cs)"
  by (induction cs) (auto intro!: gentle_intros)

lemma gentle_evidence [gentle_intros]: "gentle (walk_evidence servers cfg)" "gentle (best_walk_order servers cfg ref)"
  unfolding best_walk_order_def walk_evidence_def by (intro gentle_intros)+

lemma gentle_check_reach [gentle_intros]: "gentle (check_reach cfg)"
proof -
  have "gentle (active_server_down cfg)" unfolding active_server_down_def by (intro gentle_intros)
  then show ?thesis unfolding check_reach_def by (intro gentle_intros gentle_fields)
qed

lemma gentle_landing [gentle_intros]: "gentle (note_landing cfg seq)"
  unfolding note_landing_def by (intro gentle_intros gentle_waits)

lemma gentle_death [gentle_intros]: "gentle settle_death"
  unfolding settle_death_def by (intro gentle_intros gentle_fields)

section \<open>A wave\<close>

text \<open>What a computation answers, whatever the world.\<close>

definition gives :: "'a act \<Rightarrow> ('a \<Rightarrow> bool) \<Rightarrow> bool" where
  "gives c S \<longleftrightarrow> (\<forall>w. S (fst (run_state c w)))"

lemma gives_bind: "(\<And>a. gives (f a) S) \<Longrightarrow> gives (State_Monad.bind c f) S"
  by (simp add: gives_def case_prod_beta)

lemma gives_attempt: "(\<And>e. S (Inl e)) \<Longrightarrow> (\<And>a. gives (f a) S) \<Longrightarrow> gives (attempt c f) S"
  unfolding attempt_def by (rule gives_bind) (auto simp: gives_def split: sum.split)

lemma gives_return: "S a \<Longrightarrow> gives (State_Monad.return a) S"
  by (simp add: gives_def)

text \<open>A change of the lists leaves the routes alone.\<close>

definition keeps_routes :: "(file_faults \<Rightarrow> body) \<Rightarrow> bool" where
  "keeps_routes op \<longleftrightarrow> (\<forall>ff cfg files. same_routes cfg (fst (fst (snd (op ff (cfg, files))))))"

lemma keeps_refresh: "keeps_routes (\<lambda>ff. refresh_body ff now False sid url servers)"
  by (simp add: keeps_routes_def refresh_body_def same_routes_def Let_def record_ops split: option.split)

lemma keeps_error: "keeps_routes (\<lambda>ff. record_error_body ff sid url since msg)"
  by (simp add: keeps_routes_def record_error_body_def same_routes_def Let_def split: option.split)

lemma store_change_keeps:
  assumes "keeps_routes op"
  shows "gives (store_change op cfg) (\<lambda>r. case r of Inl _ \<Rightarrow> True | Inr (cfg', d, _) \<Rightarrow> d = W_Other \<and> same_routes cfg cfg')"
proof -
  have "gives (case op ff (cfg, files) of
          (_, _, Some e) \<Rightarrow> State_Monad.return (Inl (list_error e))
        | (_, (cfg', files'), None) \<Rightarrow> attempt allowed (\<lambda>_. do {
            saved \<leftarrow> ask ou_save_list;
            attempt (require Err_Other saved) (\<lambda>_. do {
              set_subs files';
              State_Monad.return (Inr (cfg', W_Other, ())) }) }))
      (\<lambda>r. case r of Inl _ \<Rightarrow> True | Inr (cfg', d, _) \<Rightarrow> d = W_Other \<and> same_routes cfg cfg')" for ff files
    using assms [unfolded keeps_routes_def, rule_format, of cfg ff files]
    by (auto intro!: gives_attempt gives_bind gives_return split: prod.split option.split)
  then show ?thesis
    unfolding store_change_def by (intro gives_attempt gives_bind) simp_all
qed

lemma run_file: "run_state (State_Monad.bind the_file f) w = run_state (f (wd_file w)) w"
  by (simp add: the_file_def)

lemma run_attempt: "run_state (attempt c f) w =
    run_state (case fst (run_state c w) of Inl e \<Rightarrow> State_Monad.return (Inl e) | Inr a \<Rightarrow> f a) (snd (run_state c w))"
  by (simp add: attempt_def case_prod_beta)

lemma gentle_locked:
  assumes "\<And>cfg. silent (alter cfg)" and "\<And>cfg. still (alter cfg)"
    and "\<And>cfg. gives (alter cfg) (\<lambda>r. case r of Inl _ \<Rightarrow> True | Inr (cfg', d, _) \<Rightarrow> d = W_Other \<and> same_routes cfg cfg')"
  shows "gentle (update_vpn alter)"
proof -
  let ?alter = "\<lambda>cfg. attempt allowed (\<lambda>_. attempt outbound_locked (\<lambda>_. alter cfg))"
  let ?save = "\<lambda>(cfg, d, a). do {
      saved \<leftarrow> ask ou_save;
      if saved then do { write_file d cfg; State_Monad.return (Inr a) } else State_Monad.return (Inl Err_Other) }"
  have checked: "mild (?alter cfg)" "still (?alter cfg)" for cfg
    by (intro silent_mild silent_intros assms(1), intro still_intros assms(2))
  have answer: "gives (?alter cfg) (\<lambda>r. case r of Inl _ \<Rightarrow> True | Inr (cfg', d, _) \<Rightarrow> d = W_Other \<and> same_routes cfg cfg')" for cfg
    by (intro gives_attempt assms(3)) simp_all
  have save: "gentle_step w (snd (run_state (?save (cfg', W_Other, a)) w))" if "same_routes (wd_file w) cfg'" for w cfg' a
  proof -
    let ?w = "w\<lparr>wd_calls := wd_calls w + 1\<rparr>"
    have "gentle_step w ?w" by (simp add: gentle_step_def)
    moreover have "gentle_step ?w (snd (run_state (write_file W_Other cfg') ?w))" using that by (intro gentle_write) simp
    ultimately show ?thesis by (auto simp: ask_def case_prod_beta intro: gentle_trans)
  qed
  have "gentle_step w (snd (run_state (do { current \<leftarrow> the_file; attempt (?alter current) ?save }) w))" for w
  proof -
    let ?w = "snd (run_state (?alter (wd_file w)) w)" and ?r = "fst (run_state (?alter (wd_file w)) w)"
    have step: "gentle_step w ?w" "wd_file ?w = wd_file w"
      using checked [of "wd_file w"] by (auto simp: mild_def still_def intro: mild_gentle)
    have "gentle_step ?w (snd (run_state (case ?r of Inl e \<Rightarrow> State_Monad.return (Inl e) | Inr a \<Rightarrow> ?save a) ?w))"
    proof (cases ?r)
      case (Inr a)
      obtain cfg' d b where a: "a = (cfg', d, b)" by (cases a)
      then have "d = W_Other" "same_routes (wd_file w) cfg'"
        using answer [of "wd_file w"] Inr by (auto simp: gives_def dest!: spec [of _ w])
      then show ?thesis using Inr a step(2) save [of ?w cfg' b] by simp
    qed simp
    then show ?thesis by (subst run_file, subst run_attempt) (rule gentle_trans [OF step(1)])
  qed
  then have body: "gentle (do { current \<leftarrow> the_file; attempt (?alter current) ?save })"
    by (simp add: gentle_def)
  show ?thesis
    unfolding update_vpn_def locked_write_def
    by (rule gentle_bind [OF gentle_calls(1)], rule gentle_cases(2), rule gentle_cases(1), rule gentle_bind [OF gentle_calls(7)], rule body)
qed

lemma gentle_store:
  assumes "keeps_routes op"
  shows "gentle (update_store op)"
  unfolding update_store_def
proof (rule gentle_locked)
  show "silent (store_change op cfg)" for cfg
    unfolding store_change_def by (intro silent_intros) (auto intro!: silent_intros split: prod.split option.split)
  show "still (store_change op cfg)" for cfg
    unfolding store_change_def by (intro still_intros) (auto intro!: still_intros split: prod.split option.split)
  show "gives (store_change op cfg) (\<lambda>r. case r of Inl _ \<Rightarrow> True | Inr (cfg', d, _) \<Rightarrow> d = W_Other \<and> same_routes cfg cfg')" for cfg
    by (rule store_change_keeps [OF assms])
qed

lemma gentle_downloads [gentle_intros]: "gentle (download_all subs)"
  by (induction subs) (auto intro!: gentle_intros)

lemma gentle_publish [gentle_intros]: "gentle (publish_all rs failed published)"
proof (induction rs failed published rule: publish_all.induct)
  case (2 s r rest failed published)
  note refresh = gentle_store [OF keeps_refresh] and error = gentle_store [OF keeps_error]
  show ?case
  proof (cases r)
    case (Inl msg)
    show ?thesis
      unfolding publish_all.simps Inl sum.case by (intro gentle_intros error 2(1) [OF _ Inl]; assumption?)
  next
    case (Inr servers)
    show ?thesis
      unfolding publish_all.simps Inr sum.case by (intro gentle_intros refresh 2(2-) [OF _ Inr]; assumption?)
  qed
qed (auto intro: gentle_intros)

lemma gentle_refresh_all [gentle_intros]: "gentle (refresh_subscriptions subs)"
  unfolding refresh_subscriptions_def by (intro gentle_intros)

section \<open>Returns, the fast path, the keeper\<close>

lemma gentle_ends [gentle_intros]:
  "gentle a \<Longrightarrow> gentle b \<Longrightarrow> gentle c \<Longrightarrow> gentle d \<Longrightarrow>
     gentle (case e of Sw_Live \<Rightarrow> a | Sw_Ended \<Rightarrow> b | Sw_Gone \<Rightarrow> c | Sw_Failed \<Rightarrow> d)"
  "gentle a' \<Longrightarrow> (\<And>s. gentle (b' s)) \<Longrightarrow> gentle c' \<Longrightarrow>
     gentle (case r of Run_Ended \<Rightarrow> a' | Run_Live s \<Rightarrow> b' s | Run_None \<Rightarrow> c')"
  "gentle f \<Longrightarrow> gentle g \<Longrightarrow> gentle h \<Longrightarrow> gentle i \<Longrightarrow>
     gentle (case x of Fast_Inconclusive \<Rightarrow> f | Fast_Switched \<Rightarrow> g | Fast_Fallback \<Rightarrow> h | Fast_Canceled \<Rightarrow> i)"
  "(\<And>ev. gentle (j ev)) \<Longrightarrow> gentle k \<Longrightarrow> gentle (case l of Fresh ev \<Rightarrow> j ev | No_Evidence \<Rightarrow> k | Waiting \<Rightarrow> k)"
  by (simp_all split: switch_end.split run_end.split fast_outcome.split look.split)

lemma gentle_through [gentle_intros]: "gentle (switch_through sw holds cs)"
  by (induction cs arbitrary: sw) (simp_all only: switch_through.simps, (intro gentle_intros; assumption?)+)

lemma gentle_return [gentle_intros]: "gentle (maybe_return cfg)"
proof -
  have kept: "gentle (keep_return names sw c g)" for names sw c g
    unfolding keep_return_def by (intro gentle_intros gentle_waits)
  have failed: "gentle (give_up_return sw order)" for sw order
    unfolding give_up_return_def by (intro gentle_intros gentle_waits gentle_fields)
  have tried: "gentle (try_return cfg subs servers candidates g)" for subs servers candidates g
    unfolding try_return_def by (intro gentle_intros kept failed)
  have candidates: "gentle (return_candidates l servers preferred now)" for l servers preferred now
    unfolding return_candidates_def by (intro gentle_intros)
  have "gentle (return_from cfg active subs now not_before)" for active subs now not_before
    unfolding return_from_def by (intro gentle_intros candidates tried gentle_fields)
  then show ?thesis
    unfolding maybe_return_def by (intro gentle_intros gentle_waits gentle_fields)
qed

lemma gentle_choices [gentle_intros]: "gentle (check_choices cs)" "gentle (sort_choices ds)" "gentle (pick_choices ev addresses n seen ss)"
proof -
  show "gentle (check_choices cs)" by (induction cs) (simp_all only: check_choices.simps, (intro gentle_intros; assumption?)+)
  show "gentle (sort_choices ds)"
    by (induction ds rule: sort_choices.induct) (simp_all only: sort_choices.simps, (intro gentle_intros; assumption?)+)
  show "gentle (pick_choices ev addresses n seen ss)"
    by (induction ev addresses n seen ss rule: pick_choices.induct)
      (simp_all only: pick_choices.simps Let_def, (intro gentle_intros; simp?)+)
qed

lemma gentle_now [gentle_intros]: "(\<And>cfg. silent (g cfg)) \<Longrightarrow> gentle (fast_guard_now g)"
  by (rule gentle_silent) (rule silent_guard_now)

lemma silent_owned: "silent (outbound_guard_of p cfg)" "silent (choice_guard c cfg)"
  using looks_choice by (auto simp: looks_def intro: silent_intros)

lemma gentle_fast [gentle_intros]: "gentle (fast_failover cfg)"
proof -
  have finish: "gentle (fast_finish cfg err)" for cfg err
    unfolding fast_finish_def by (intro gentle_intros silent_owned gentle_marks)
  have over: "gentle (fast_done names s seq current)" for names s seq current
    unfolding fast_done_def by (intro gentle_intros gentle_waits gentle_fields)
  have start: "gentle (fast_start c cfg)" for c cfg
    unfolding fast_start_def by (intro gentle_intros silent_owned finish)
  have probe: "gentle (fast_probe c seq names cfg)" for c seq names cfg
    unfolding fast_probe_def by (intro gentle_intros silent_owned finish over)
  have tried: "gentle (fast_try names cfg c)" for names cfg c
    unfolding fast_try_def by (intro gentle_intros silent_owned finish start probe looks_choice)
  have switch: "gentle (fast_switch names cfg tried cs)" for names cfg tried cs
    by (induction cs arbitrary: tried)
      (simp_all only: fast_switch.simps, (intro gentle_intros silent_owned finish tried; assumption?)+)
  have decide: "gentle (fast_decide cfg subs ks checked wan choices)" for cfg subs ks checked wan choices
    unfolding fast_decide_def by (intro gentle_intros silent_owned finish switch)
  have "gentle (fast_confirm cfg a subs s ks cached)" for a subs s ks cached
    unfolding fast_confirm_def by (intro gentle_intros decide gentle_marks)
  then show ?thesis
    unfolding fast_failover_def by (intro gentle_intros)
qed

lemma gentle_among [gentle_intros]: "gentle (switch_among message sw seen gone cs)"
  by (induction cs arbitrary: sw seen gone)
    (simp_all only: switch_among.simps Let_def, (intro gentle_intros gentle_fields; assumption?)+)

lemma gentle_waiting [gentle_intros]: "gentle replacement_waits" "gentle (keeps cfg subs)"
  unfolding replacement_waits_def keeps_def by (intro gentle_intros)+

lemma gentle_replace [gentle_intros]: "gentle (replace_active cfg subs sw dead tried why replaced)"
proof -
  have "gentle (found_none names sw replaced)" for names sw
    unfolding found_none_def by (intro gentle_intros gentle_waits gentle_fields)
  then show ?thesis
    unfolding replace_active_def by (intro gentle_intros)
qed

lemma gentle_under: "gentle c \<Longrightarrow> gentle (under_guard g c)"
  unfolding under_guard_def by (intro gentle_intros gentle_marks)

lemma gentle_replace_dead [gentle_intros]: "gentle (replace_dead cfg died tried guard)"
proof -
  have "gentle (replace_under cfg died tried)" for died
    unfolding replace_under_def by (intro gentle_intros gentle_marks)
  then show ?thesis
    unfolding replace_dead_def by (intro gentle_intros gentle_under)
qed

lemma gentle_follow [gentle_intros]: "gentle (follow_active cfg clients)"
proof -
  have left: "gentle (follow_gone cfg subs active clients)" for subs active
    unfolding follow_gone_def by (intro gentle_intros)
  have entry: "gentle (follow_entry cfg subs active changed entry clients)" for subs active changed entry
    unfolding follow_entry_def by (intro gentle_intros)
  have state: "gentle (case r of (Actual_Gone, _) \<Rightarrow> a | (Actual_Changed, Some e) \<Rightarrow> f e | (Actual_Moved, Some e) \<Rightarrow> g e
      | _ \<Rightarrow> State_Monad.return False)"
    if "gentle a" "\<And>e. gentle (f e)" "\<And>e. gentle (g e)" for r :: "actuality \<times> server option" and a f g
    using that by (auto intro: gentle_intros split: prod.split actuality.split option.split)
  show ?thesis
    unfolding follow_active_def by (intro gentle_intros state left entry)
qed

lemma gentle_keep: "gentle (keep cfg)"
proof -
  have "gentle (confirmed_dead c now)" for c now
    unfolding confirmed_dead_def by (intro gentle_intros)
  then have "gentle (keep_failed cfg now)" for now
    unfolding keep_failed_def by (intro gentle_intros gentle_waits)
  then show ?thesis
    unfolding keep_def by (intro gentle_intros gentle_waits)
qed

section \<open>The walk\<close>

text \<open>A walk that found a live server brings the clients back: that writes the routes, and is steady.\<close>

lemma steadily_pick [steady_intros]: "steadily False a (pick_copy plan wk s)"
proof -
  have "silent (guard_of_walk plan wk [] cfg)" for cfg
    by (rule looks_silent [OF looks_of_walk])
  then show ?thesis
    unfolding pick_copy_def announce_restored_def
    by (intro steady_intros gentle_steadily [OF gentle_upd [OF gentle_fields(2)]] gentle_steadily [OF gentle_silent [OF silent_owns(2)]]
        gentle_steadily [OF gentle_silent [OF silent_walk_ended]] gentle_steadily [OF gentle_landing])
qed

lemma steadily_try: "steadily False a (try_copy plan wk s)"
proof -
  have over: "steadily False a (walk_ended r)" "steadily False a (any_of [walk_ended r, mutation_ended])" "steadily False a mutation_ended" for r
    by (intro gentle_steadily gentle_intros)+
  have "steadily False a (generate_walked s (guard_of_walk plan wk sid))" for sid
    by (intro gentle_steadily gentle_intros looks_of_walk)
  then show ?thesis
    unfolding try_copy_def by (intro steady_intros over)
qed

lemma steadily_loop: "steadily False a (walk_loop plan wk remaining)"
proof (induction plan wk remaining rule: walk_loop.induct)
  case (1 plan wk remaining)
  have look: "steadily False a (any_of [context_ended, mutation_ended])" "steadily False a (walk_evidence servers cfg)" for servers cfg
    by (intro gentle_steadily gentle_intros)+
  have body: "steadily False a (case order_best (untried wk remaining) (wp_ref plan) (fresh_of l) of
        [] \<Rightarrow> State_Monad.return (Some wk)
      | s # _ \<Rightarrow> do {
          tried \<leftarrow> try_copy plan wk s;
          (case tried of None \<Rightarrow> State_Monad.return None | Some wk' \<Rightarrow> walk_loop plan wk' (without_copy s (untried wk remaining))) })"
    if "remaining \<noteq> []" for l
  proof (cases "order_best (untried wk remaining) (wp_ref plan) (fresh_of l)")
    case (Cons s ss)
    then have "steadily False a (walk_loop plan wk' (without_copy s (untried wk remaining)))" for wk'
      using 1 [OF that _ refl] by blast
    then show ?thesis
      unfolding Cons list.case by (intro steadily_bind [OF steadily_try] steadily_option steadily_return)
  qed (simp add: steadily_return)
  show ?case
    unfolding walk_loop.simps [of plan wk remaining] Let_def by (intro steady_intros look body)
qed

lemma steadily_walk [steady_intros]: "steadily False a (walk cfg subs)"
proof -
  have look: "steadily False a mutation_ended" "steadily False a (walk_owns_now started latest seq)" "steadily False a (walk_ended r)"
      "steadily False a (any_of [walk_ended r, mutation_ended])" for started latest seq r
    by (intro gentle_steadily gentle_intros)+
  have "gentle (return_to_preferred p (guard_of_walk plan wk sid))" for p plan wk sid
    unfolding return_to_preferred_def by (intro gentle_intros looks_of_walk)
  then have way: "steadily False a (walk_back plan wk preferred)" for plan wk preferred
    unfolding walk_back_def by (intro steady_intros look gentle_steadily)
  have none: "steadily False a (walk_found_none plan wk preferred)" for plan wk preferred
    unfolding walk_found_none_def by (intro steady_intros look way gentle_steadily [OF gentle_upd [OF gentle_waits(13)]])
  show ?thesis
    unfolding walk_def by (intro steady_intros steadily_loop none)
qed

lemma steadily_wave [steady_intros]: "steadily False a (maybe_import_and_pick cfg)"
proof -
  have look: "steadily False a (refresh_subscriptions subs)" "steadily False a (any_of [mutation_ended, context_ended, outbound_refuses])" for subs
    by (intro gentle_steadily gentle_intros)+
  have "steadily False a (import_and_walk cfg subs before)" for subs before
    unfolding import_and_walk_def
    by (intro steady_intros look gentle_steadily [OF gentle_upd [OF gentle_fields(4)]] gentle_steadily [OF gentle_upd [OF gentle_fields(7)]])
  then show ?thesis
    unfolding maybe_import_and_pick_def
    by (intro steady_intros gentle_steadily [OF gentle_upd [OF gentle_fields(4)]])
qed

end
