(* ===== verification/Watch_Tick.thy ===== *)
theory Watch_Tick
  imports Watch_Steady
begin

text \<open>
  One tick of the watch (\<^verbatim>\<open>Watch.Tick\<close>): the permission, the file, what an earlier process left,
  a restore that was interrupted, the whole tick of a failover, the probe of the selected server with what
  follows it, the keeper. And what a run of ticks keeps, whatever others write in between and whatever
  the calls answer.
\<close>

section \<open>The tick\<close>

definition probe_ok :: "bool act" where
  "probe_ok = do {
     r \<leftarrow> allowed;
     if r \<noteq> Inr () then State_Monad.return False
     else do {
       ok \<leftarrow> probe_now;
       r \<leftarrow> allowed;
       State_Monad.return (r = Inr () \<and> ok) } }"

text \<open>A failover left by an earlier process may not be in the kernel: its apply is owed.\<close>

definition start_tick :: "vpn_config \<Rightarrow> watch \<Rightarrow> watch" where
  "start_tick cfg wa =
     (if wa_reconciled wa then wa
      else wa\<lparr>wa_reconciled := True, wa_pending_apply := (failover_of cfg \<noteq> None \<or> wa_pending_apply wa)\<rparr>)"

text \<open>The probe passed: the restore, unless TPROXY failed too lately.\<close>

definition tick_restore :: "vpn_config \<Rightarrow> unit act" where
  "tick_restore cfg = do {
     ready \<leftarrow> tproxy_ready;
     now \<leftarrow> time_now;
     wa \<leftarrow> the_watch;
     if \<not> ready \<and> wa_tproxy_fail wa \<noteq> zero_time \<and> sub_time now (wa_tproxy_fail wa) < import_retry
     then State_Monad.return ()
     else do {
       r \<leftarrow> commit_restore cfg (probed_server cfg);
       if rd_done r \<and> rd_committed r then announce_active cfg else State_Monad.return () } }"

text \<open>
  The probe failed: the move into the tunnel goes on, or the tunnel it led to is watched. A wave of
  downloads follows, unless a refusal ended the tick.
\<close>

definition tick_fallback :: "vpn_config \<Rightarrow> vpn_config option act" where
  "tick_fallback cfg = do {
     now \<leftarrow> time_now;
     upd_watch (\<lambda>wa. if wa_fail_since wa = zero_time
       then wa\<lparr>wa_fail_since := now, wa_fail_seq := active_seq (x_active (cfg_xray cfg))\<rparr> else wa);
     cfg \<leftarrow> extend_failover cfg;
     let staged = failover_staged cfg;
     wa \<leftarrow> the_watch;
     let was_pending = (wa_pending_apply wa \<or> staged);
     (cfg, ok) \<leftarrow> apply_failover cfg;
     r \<leftarrow> allowed;
     if r \<noteq> Inr () then State_Monad.return None
     else do {
       (if ok \<and> was_pending \<and> failover_tunnel cfg \<noteq> []
        then notify Note_Moved (''Xray outbound is down; LAN clients moved to tunnel:'' @ failover_tunnel cfg)
        else State_Monad.return ());
       wa \<leftarrow> the_watch;
       cfg \<leftarrow> (if \<not> ok \<and> staged \<and> \<not> wa_pending_apply wa then do {
           notify Note_Fallback_Not_Ready ''Xray outbound is down; Tunnel Director fallback is not ready'';
           retry_or_switch_fallback cfg }
         else State_Monad.return cfg);
       if \<not> ok then State_Monad.return (Some cfg)
       else do {
         cfg \<leftarrow> watch_fallback cfg;
         r \<leftarrow> allowed;
         State_Monad.return (if r = Inr () then Some cfg else None) } } }"

definition tick_failover :: "vpn_config \<Rightarrow> unit act" where
  "tick_failover cfg = do {
     works \<leftarrow> probe_ok;
     if works then tick_restore cfg
     else do {
       r \<leftarrow> allowed;
       if r \<noteq> Inr () then State_Monad.return ()
       else do {
         c \<leftarrow> tick_fallback cfg;
         (case c of None \<Rightarrow> State_Monad.return () | Some cfg \<Rightarrow> maybe_import_and_pick cfg) } } }"

text \<open>A dead outbound: the clients into a tunnel, then the wave, both under the guard of the fast path.\<close>

definition fail_and_pick :: "vpn_config \<Rightarrow> outbound_guard \<Rightarrow> unit act" where
  "fail_and_pick cfg guard = under_guard guard (do {
     c \<leftarrow> fail_outbound cfg;
     (case c of None \<Rightarrow> State_Monad.return () | Some cfg \<Rightarrow> maybe_import_and_pick cfg) })"

definition tick_failed :: "vpn_config \<Rightarrow> int \<Rightarrow> unit act" where
  "tick_failed cfg now = do {
     a \<leftarrow> fast_failover cfg;
     (case fa_outcome a of
        Fast_Switched \<Rightarrow> State_Monad.return ()
      | Fast_Canceled \<Rightarrow> upd_watch reset_fail
      | Fast_Fallback \<Rightarrow> fail_and_pick (fa_config a) (fa_guard a)
      | Fast_Inconclusive \<Rightarrow> do {
          dead \<leftarrow> confirmed_dead (fa_config a) now;
          if dead then fail_and_pick (fa_config a) (fa_guard a) else State_Monad.return () }) }"

definition tick_probe :: "vpn_config \<Rightarrow> unit act" where
  "tick_probe cfg = do {
     ok \<leftarrow> probe_now;
     over \<leftarrow> mutation_ended;
     if over then State_Monad.return ()
     else do {
       now \<leftarrow> time_now;
       if ok then do { upd_watch (\<lambda>wa. (probed_ok cfg now wa)\<lparr>wa_import_retry := 0\<rparr>); maybe_return cfg }
       else do {
         upd_watch (missed cfg now);
         acted \<leftarrow> follow_active cfg True;
         if acted then State_Monad.return () else tick_failed cfg now } } }"

text \<open>No failover: the apply a restore left owed is retried, and with clients on Xray the probe follows.\<close>

definition tick_idle :: "vpn_config \<Rightarrow> int \<Rightarrow> unit act" where
  "tick_idle cfg subs = do {
     wa \<leftarrow> the_watch;
     (if wa_pending_apply wa \<and> x_pending (cfg_xray cfg) = None then do {
        r \<leftarrow> apply_now;
        (case r of
           Inl _ \<Rightarrow> State_Monad.return ()
         | Inr _ \<Rightarrow> upd_watch (\<lambda>wa. wa\<lparr>wa_pending_apply := False\<rparr>)) }
      else State_Monad.return ());
     if subs = 0 \<or> effective_xray_clients cfg = [] then upd_watch reset_fail else tick_probe cfg }"

definition tick_armed :: "vpn_config \<Rightarrow> int \<Rightarrow> unit act" where
  "tick_armed cfg subs = do {
     upd_watch (start_tick cfg);
     go_on \<leftarrow> (if x_pending (cfg_xray cfg) = None then State_Monad.return True
       else do {
         r \<leftarrow> reconcile_restore cfg;
         State_Monad.return (r = Inl Err_Restore_Apply) });
     if \<not> go_on then State_Monad.return ()
     else if failover_of cfg \<noteq> None then tick_failover cfg
     else tick_idle cfg subs }"

text \<open>
  \<open>Tick\<close>: a tick in which a mutation was refused, or whose context has ended, starts the failure anew.
\<close>

definition tick_on :: "vpn_config \<Rightarrow> unit act" where
  "tick_on cfg = do {
     upd_watch (\<lambda>wa. (note_selection cfg wa)\<lparr>wa_pending_restore := x_pending (cfg_xray cfg)\<rparr>);
     subs \<leftarrow> subscription_count;
     wa \<leftarrow> the_watch;
     let work = (armed cfg subs \<or> wa_pending_apply wa);
     keeper \<leftarrow> (if work then State_Monad.return False else keeps cfg subs);
     if \<not> work \<and> \<not> keeper then upd_watch reset_fail
     else do {
       r \<leftarrow> allowed;
       if r \<noteq> Inr () then upd_watch reset_fail
       else do {
         (if keeper then keep cfg else tick_armed cfg subs);
         _ \<leftarrow> context_ended;
         State_Monad.return () } } }"

definition tick_body :: "unit act" where
  "tick_body = do {
     r \<leftarrow> allowed;
     if r \<noteq> Inr () then State_Monad.return ()
     else do {
       c \<leftarrow> load_vpn;
       r \<leftarrow> allowed;
       if r \<noteq> Inr () then State_Monad.return ()
       else (case c of None \<Rightarrow> State_Monad.return () | Some cfg \<Rightarrow> tick_on cfg) } }"

definition fresh_tick :: "watch \<Rightarrow> watch" where
  "fresh_tick wa = wa\<lparr>wa_mutation_failed := False, wa_ended := None, wa_outbound := No_Guard, wa_fast := None\<rparr>"

definition watch_tick :: "unit act" where
  "watch_tick = do {
     upd_watch fresh_tick;
     tick_body;
     upd_watch (\<lambda>wa. if wa_mutation_failed wa then reset_fail wa else wa) }"

section \<open>What a tick keeps\<close>

text \<open>Before the first armed tick nothing is known of what the kernel carries.\<close>

definition has_started :: "bool \<Rightarrow> string \<Rightarrow> world \<Rightarrow> bool" where
  "has_started q a w \<longleftrightarrow> safe q a w \<and> (wa_reconciled (wd_watch w) \<longrightarrow> steady_state q a w)"

lemma started_stable: "mild_stable (has_started q a)"
  unfolding mild_stable_def
proof (intro allI impI)
  fix w w'
  assume w: "has_started q a w" and m: "mild_step w w'"
  have "wa_reconciled (wd_watch w') = wa_reconciled (wd_watch w)"
    using m same_state_fields(6) unfolding mild_step_def by blast
  then show "has_started q a w'"
    using w m stable_safe(1,4) unfolding has_started_def mild_stable_def by metis
qed

lemma steady_has_started: "steady_state q a w \<Longrightarrow> has_started q a w"
  by (simp add: has_started_def steady_cases)

text \<open>The file as it was read, until the tick starts on it.\<close>

definition read_as :: "string \<Rightarrow> vpn_config \<Rightarrow> world \<Rightarrow> bool" where
  "read_as a cfg w \<longleftrightarrow> has_started (failover_of cfg \<noteq> None) a w \<and> alone False cfg \<and>
     (failover_of cfg = None \<longrightarrow> failover_of (wd_file w) = None)"

lemma read_stable: "mild_stable (read_as a cfg)"
  unfolding mild_stable_def read_as_def
proof (intro allI impI)
  fix w w'
  assume w: "has_started (failover_of cfg \<noteq> None) a w \<and> alone False cfg \<and> (failover_of cfg = None \<longrightarrow> failover_of (wd_file w) = None)"
    and m: "mild_step w w'"
  have "safe (failover_of cfg \<noteq> None) a w" using w by (simp add: has_started_def)
  with w m mild_safe(4) [OF m this] started_stable
  show "has_started (failover_of cfg \<noteq> None) a w' \<and> alone False cfg \<and> (failover_of cfg = None \<longrightarrow> failover_of (wd_file w') = None)"
    unfolding mild_stable_def by blast
qed

lemma started_weaken: "has_started q a w \<Longrightarrow> has_started False a w"
  by (cases q) (auto simp: has_started_def steady_state_def safe_def good_def alone_def)

lemma load_reads:
  "valid (has_started False a) load_vpn (\<lambda>c w. case c of None \<Rightarrow> has_started False a w | Some cfg \<Rightarrow> read_as a cfg w)"
proof -
  have "read_as a (wd_file w) w" if "has_started False a w" for w
    using that by (cases "failover_of (wd_file w)") (auto simp: read_as_def has_started_def steady_state_def safe_def good_def alone_def)
  moreover have "stable (has_started False a)" by (rule stable_mild [OF started_stable])
  ultimately show ?thesis
    unfolding load_vpn_def
    by (intro valid_bind [OF valid_silent [OF silent_others]] valid_bind [OF valid_silent [OF silent_ask]]
        valid_bind [where R = "\<lambda>cfg w. has_started False a w \<and> wd_file w = cfg"] valid_return)
      (auto simp: valid_def the_file_def)
qed

lemma start_steady: "valid (read_as a cfg) (upd_watch (start_tick cfg)) (\<lambda>_. steady_state (failover_of cfg \<noteq> None) a)"
  by (auto simp: valid_def upd_watch_def read_as_def has_started_def steady_state_def start_tick_def safe_def waits_ok_def)

lemma started_upd:
  assumes "\<And>wa. waits_ok wa \<Longrightarrow> waits_ok (f wa) \<and> wa_pending_apply (f wa) = wa_pending_apply wa \<and> wa_reconciled (f wa) = wa_reconciled wa"
  shows "valid (has_started q a) (upd_watch f) (\<lambda>_. has_started q a)" "valid (read_as a cfg) (upd_watch f) (\<lambda>_. read_as a cfg)"
  using assms by (auto simp: valid_def upd_watch_def read_as_def has_started_def steady_state_def safe_def)

lemma gentle_started:
  assumes "gentle c"
  shows "valid (has_started q a) c (\<lambda>_. has_started q a)"
  unfolding valid_def
proof (intro allI impI)
  fix w
  let ?w = "snd (run_state c w)"
  assume w: "has_started q a w"
  then have safe: "safe q a w" by (simp add: has_started_def)
  have step: "gentle_step w ?w" using assms by (simp add: gentle_def)
  then have "wa_reconciled (wd_watch ?w) = wa_reconciled (wd_watch w)" by (simp add: gentle_step_def gentle_watch_def)
  then show "has_started q a ?w"
    using w gentle_safe [OF step safe] by (auto simp: has_started_def steady_state_def)
qed

lemma steadily_tick_restore: "steadily False a (tick_restore cfg)"
proof -
  have "silent (probed_server cfg current)" for current by (simp add: probed_server_def silent_return)
  then show ?thesis
    unfolding tick_restore_def announce_active_def announce_restored_def by (intro steady_intros)
qed

lemma steadily_tick_fallback: "steadily True a (tick_fallback cfg)"
proof -
  have "plain_update (\<lambda>wa. if wa_fail_since wa = zero_time
       then wa\<lparr>wa_fail_since := now, wa_fail_seq := active_seq (x_active (cfg_xray cfg))\<rparr> else wa)" for now
    by (simp add: plain_update_def waits_ok_def)
  then show ?thesis
    unfolding tick_fallback_def Let_def by (intro steady_intros)
qed

lemma tick_failover_steady: "valid (steady_state True a) (tick_failover cfg) (\<lambda>_. steady_state False a)"
proof -
  have weakened: "valid (steady_state True a) c (\<lambda>_. steady_state False a)" if "steadily False a c" for c :: "unit act"
    using that unfolding steadily_def by (rule valid_pre) (rule steady_weaken)
  have wave: "valid (steady_state True a) (case c of None \<Rightarrow> State_Monad.return () | Some cfg \<Rightarrow> maybe_import_and_pick cfg)
      (\<lambda>_. steady_state False a)" for c
    by (intro weakened steady_intros)
  have fails: "valid (steady_state True a) (do {
      c \<leftarrow> tick_fallback cfg;
      (case c of None \<Rightarrow> State_Monad.return () | Some cfg \<Rightarrow> maybe_import_and_pick cfg) }) (\<lambda>_. steady_state False a)"
    by (rule valid_bind [OF steadily_tick_fallback [unfolded steadily_def] wave])
  have probed: "valid (steady_state True a) probe_ok (\<lambda>_. steady_state True a)"
    unfolding steadily_def [symmetric] probe_ok_def by (intro gentle_steadily gentle_intros)
  have asked: "valid (steady_state True a) allowed (\<lambda>_. steady_state True a)"
    by (rule valid_silent [OF silent_allowed(1) steady_stable])
  show ?thesis
    unfolding tick_failover_def
    by (intro valid_bind [OF probed] valid_if weakened [OF steadily_tick_restore] valid_bind [OF asked] fails
        weakened [OF steadily_return])
qed

lemma steadily_under: "steadily q a c \<Longrightarrow> steadily q a (under_guard g c)"
  unfolding under_guard_def by (intro steady_intros gentle_steadily [OF gentle_upd [OF gentle_marks(3)]])

lemma steadily_probe: "steadily False a (tick_probe cfg)"
proof -
  have dead: "steadily False a (fail_and_pick c guard)" for c guard
    unfolding fail_and_pick_def by (intro steadily_under steady_intros)
  have look: "steadily False a (fast_failover c)" "steadily False a (confirmed_dead c now)" for c now
    unfolding confirmed_dead_def by (intro gentle_steadily gentle_intros)+
  have "steadily False a (case e of Fast_Inconclusive \<Rightarrow> f | Fast_Switched \<Rightarrow> g | Fast_Fallback \<Rightarrow> h | Fast_Canceled \<Rightarrow> i)"
    if "steadily False a f" "steadily False a g" "steadily False a h" "steadily False a i" for e and f g h i :: "unit act"
    using that by (cases e) simp_all
  note ends = this
  have failed: "steadily False a (tick_failed cfg now)" for now
    unfolding tick_failed_def by (intro steadily_bind [OF look(1)] ends steadily_bind [OF look(2)] steady_intros dead plain_resets)
  have marked: "gentle_update (\<lambda>wa. (probed_ok cfg now wa)\<lparr>wa_import_retry := 0\<rparr>)" for now
    using gentle_waits(12) [of cfg now] by (simp add: gentle_update_def gentle_watch_def waits_ok_def wait_steps_def)
  have "steadily False a (upd_watch (\<lambda>wa. (probed_ok cfg now wa)\<lparr>wa_import_retry := 0\<rparr>))"
    "steadily False a (upd_watch (missed cfg now))" "steadily False a (follow_active cfg True)" "steadily False a mutation_ended"
    "steadily False a (maybe_return cfg)" for now
    by (intro gentle_steadily gentle_intros marked gentle_waits)+
  note steps = this
  show ?thesis
    unfolding tick_probe_def by (intro steadily_bind steadily_if steadily_return steadily_calls steps failed)
qed

lemma steadily_idle: "steadily False a (tick_idle cfg subs)"
proof -
  have "valid (\<lambda>w. steady_state False a w \<and> (r = Inr () \<longrightarrow> kept_up False a w))
      (case r of Inl _ \<Rightarrow> State_Monad.return () | Inr _ \<Rightarrow> upd_watch (\<lambda>wa. wa\<lparr>wa_pending_apply := False\<rparr>))
      (\<lambda>_. steady_state False a)" for r :: "watch_error + unit"
    by (cases r) (auto intro: valid_return valid_pre [OF kept_steady(1) [OF valid_paid]])
  then have "steadily False a (do { r \<leftarrow> apply_now;
      case r of Inl _ \<Rightarrow> State_Monad.return () | Inr _ \<Rightarrow> upd_watch (\<lambda>wa. wa\<lparr>wa_pending_apply := False\<rparr>) })"
    unfolding steadily_def by (intro valid_bind [OF apply_steady])
  then have "steadily False a (if b then do { r \<leftarrow> apply_now;
      case r of Inl _ \<Rightarrow> State_Monad.return () | Inr _ \<Rightarrow> upd_watch (\<lambda>wa. wa\<lparr>wa_pending_apply := False\<rparr>) }
      else State_Monad.return ())" for b
    by (simp add: steadily_return)
  note paid = steadily_bind [OF this]
  show ?thesis
    unfolding tick_idle_def
    by (rule steadily_bind [OF steadily_calls(2)], rule paid) (intro steady_intros plain_resets steadily_probe)
qed

lemma tick_armed_steady: "valid (read_as a cfg) (tick_armed cfg subs) (\<lambda>_. steady_state False a)"
proof (rule valid_cases [of _ "alone False cfg"])
  show "alone False cfg" if "read_as a cfg w" for w using that by (simp add: read_as_def)
  assume alone: "alone False cfg"
  show "valid (read_as a cfg) (tick_armed cfg subs) (\<lambda>_. steady_state False a)"
  proof (cases "failover_of cfg")
    case None
    have "steadily False a (do {
        go_on \<leftarrow> (if x_pending (cfg_xray cfg) = None then State_Monad.return True
          else do { r \<leftarrow> reconcile_restore cfg; State_Monad.return (r = Inl Err_Restore_Apply) });
        if \<not> go_on then State_Monad.return () else tick_idle cfg subs })"
      by (intro steady_intros steadily_idle)
    then show ?thesis
      unfolding tick_armed_def using None start_steady [of a cfg] by (auto simp: steadily_def intro: valid_bind)
  next
    case (Some fo)
    then have "x_pending (cfg_xray cfg) = None" using alone by (simp add: alone_def)
    moreover have "valid (read_as a cfg) (upd_watch (start_tick cfg)) (\<lambda>_. steady_state True a)"
      using start_steady [of a cfg] Some by simp
    ultimately show ?thesis
      unfolding tick_armed_def using Some valid_bind [OF _ tick_failover_steady] by simp
  qed
qed

lemma read_started: "read_as a cfg w \<Longrightarrow> has_started False a w"
  by (auto simp: read_as_def dest: started_weaken)

lemma tick_on_started: "valid (read_as a cfg) (tick_on cfg) (\<lambda>_. has_started False a)"
proof -
  have noted: "valid (read_as a cfg) (upd_watch (\<lambda>wa. (note_selection cfg wa)\<lparr>wa_pending_restore := p\<rparr>)) (\<lambda>_. read_as a cfg)" for p
    by (rule started_upd(2)) (auto simp: note_selection_def Let_def waits_ok_def wait_steps_def)
  have reset: "valid (read_as a cfg) (upd_watch reset_fail) (\<lambda>_. has_started False a)"
    by (rule valid_post [OF started_upd(2)]) (auto simp: reset_fail_def waits_ok_def dest: read_started)
  have kept: "valid (read_as a cfg) (keep cfg) (\<lambda>_. has_started False a)"
    by (rule valid_pre [OF gentle_started [OF gentle_keep]]) (rule read_started)
  have worked: "valid (read_as a cfg) (if b then keep cfg else tick_armed cfg subs) (\<lambda>_. has_started False a)" for b subs
    by (cases b) (simp_all add: kept valid_post [OF tick_armed_steady [of a cfg subs] steady_has_started])
  have ended: "valid (has_started False a) (do { _ \<leftarrow> context_ended; State_Monad.return () }) (\<lambda>_. has_started False a)"
    by (intro gentle_started gentle_intros)
  have "silent (if work then State_Monad.return False else keeps cfg subs)" for work subs
    unfolding keeps_def by (intro silent_intros)
  note calls = valid_bind [OF valid_silent [OF this stable_mild [OF read_stable]]]
    valid_bind [OF valid_silent [OF silent_reads(1) stable_mild [OF read_stable]]]
    valid_bind [OF valid_silent [OF silent_allowed(1) stable_mild [OF read_stable]]]
    valid_bind [OF valid_silent [OF silent_calls(4) stable_mild [OF read_stable]]]
  show ?thesis
    unfolding tick_on_def Let_def
    by (intro valid_bind [OF noted] calls valid_if reset valid_bind [OF worked ended])
qed

lemma tick_started: "valid (has_started False a) watch_tick (\<lambda>_. has_started False a)"
proof -
  note silently = stable_mild [OF started_stable] stable_mild [OF read_stable]
  have over: "valid (has_started False a) (State_Monad.return ()) (\<lambda>_. has_started False a)"
    by (rule valid_return)
  have early: "valid (read_as a cfg) (State_Monad.return ()) (\<lambda>_. has_started False a)" for cfg
    by (rule valid_return) (rule read_started)
  have loaded: "valid (\<lambda>w. case c of None \<Rightarrow> has_started False a w | Some cfg \<Rightarrow> read_as a cfg w) (do {
       r \<leftarrow> allowed;
       if r \<noteq> Inr () then State_Monad.return ()
       else (case c of None \<Rightarrow> State_Monad.return () | Some cfg \<Rightarrow> tick_on cfg) }) (\<lambda>_. has_started False a)" for c
    by (cases c) (auto intro!: valid_bind [OF valid_silent [OF silent_allowed(1) silently(1)]]
        valid_bind [OF valid_silent [OF silent_allowed(1) silently(2)]] over early tick_on_started)
  have body: "valid (has_started False a) tick_body (\<lambda>_. has_started False a)"
    unfolding tick_body_def
    by (intro valid_bind [OF valid_silent [OF silent_allowed(1) silently(1)]] valid_if over valid_bind [OF load_reads loaded])
  have fresh: "gentle (upd_watch fresh_tick)"
    by (rule gentle_upd) (simp add: gentle_update_def gentle_watch_def fresh_tick_def waits_ok_def)
  have ended: "gentle (upd_watch (\<lambda>wa. if wa_mutation_failed wa then reset_fail wa else wa))"
    by (rule gentle_upd) (use gentle_waits(3) in \<open>simp add: gentle_update_def\<close>)
  show ?thesis
    unfolding watch_tick_def by (intro valid_bind [OF gentle_started [OF fresh]] valid_bind [OF body] gentle_started [OF ended])
qed

end
