(* ===== verification/Watch_Safety.thy ===== *)
theory Watch_Safety
  imports Watch_Tick
begin

text \<open>
  Runs of the watch: any number of ticks from the start of the process, each with whatever the calls
  answer and others write.
\<close>

section \<open>Runs\<close>

definition fresh_world :: "outside \<Rightarrow> vpn_config \<Rightarrow> subscription list \<Rightarrow> world" where
  "fresh_world ou cfg subs =
     \<lparr>wd_outside = ou, wd_calls = 0, wd_file = cfg, wd_subs = subs, wd_watch = new_watch, wd_deeds = []\<rparr>"

inductive watched :: "outside \<Rightarrow> vpn_config \<Rightarrow> subscription list \<Rightarrow> world \<Rightarrow> bool" for ou cfg subs where
  fresh: "watched ou cfg subs (fresh_world ou cfg subs)"
| ticked: "watched ou cfg subs w \<Longrightarrow> watched ou cfg subs (snd (run_state watch_tick w))"

text \<open>A file a process may start on, for one client.\<close>

definition starts_on :: "string \<Rightarrow> vpn_config \<Rightarrow> bool" where
  "starts_on a cfg \<longleftrightarrow> well_formed cfg \<and> on_route cfg a \<and> (x_pending (cfg_xray cfg) = None \<or> failover_of cfg = None)"

lemma watched_started:
  assumes "watched ou cfg subs w" and "considerate a ou" and "starts_on a cfg"
  shows "has_started False a w"
  using assms(1)
proof induction
  case fresh
  have "waits_ok new_watch" "\<not> wa_reconciled new_watch"
    by (simp_all add: waits_ok_def new_watch_def wait_steps_def)
  then show ?case
    using assms(2,3) by (simp add: has_started_def safe_def good_def alone_def starts_on_def fresh_world_def)
next
  case (ticked w)
  then show ?case using tick_started [of a] by (simp add: valid_def)
qed

section \<open>Properties\<close>

text \<open>
  A world in which every call answers yes and nobody else writes, as the runs below need one.
\<close>

definition calm_world :: "int \<Rightarrow> outside" where
  "calm_world now =
     \<lparr>ou_refuses = (\<lambda>_. None), ou_cancels = (\<lambda>_. None), ou_others = (\<lambda>_ cfg. cfg), ou_edits = (\<lambda>_ subs. subs),
      ou_lock = (\<lambda>_. True), ou_save = (\<lambda>_. True), ou_read = (\<lambda>_. True), ou_read_lists = (\<lambda>_. True),
      ou_save_list = (\<lambda>_. True), ou_apply = (\<lambda>_. True), ou_build = (\<lambda>_. None), ou_publish = (\<lambda>_. None),
      ou_restart = (\<lambda>_. None), ou_ready = (\<lambda>_ _. True), ou_tproxy = (\<lambda>_. True),
      ou_platform = (\<lambda>_. Some \<lparr>pf_merlin = False, pf_tunnels = []\<rparr>), ou_now = (\<lambda>_. now), ou_probe = (\<lambda>_. False),
      ou_evidence = (\<lambda>_. unproved_evidence), ou_check = (\<lambda>_ _. None), ou_valid = (\<lambda>_ _ _. True), ou_wan = (\<lambda>_. True),
      ou_reach = (\<lambda>_ _ _. False), ou_fetch = (\<lambda>_ _. Inl ''no route'')\<rparr>"

lemma calm_considerate: "considerate a (calm_world now)"
  by (simp add: considerate_def calm_world_def)

lemma example_starts: "starts_on ''192.168.1.10'' example_config"
proof -
  have "well_formed example_config" "''192.168.1.10'' \<in> set (xray_clients example_config)"
    "x_pending (cfg_xray example_config) = None" by code_simp+
  then show ?thesis unfolding starts_on_def on_route_def covered_def by blast
qed



text \<open>
  C19: Through every run of the watch a client keeps a way: as long as others keep the file well formed and
  the client on a route, the file the watch leaves is well formed and has the client on Xray or on a
  tunnel, after any number of failovers, changes of tunnel and returns, finished or interrupted.
\<close>

theorem watch_keeps_client_routed:
  assumes "watched ou cfg subs w" and "considerate a ou" and "starts_on a cfg"
  shows "well_formed (wd_file w) \<and> on_route (wd_file w) a"
  using watched_started [OF assms] by (simp add: has_started_def safe_def good_def)

theorem watch_keeps_client_routed_witness:
  "on_route (wd_file (snd (run_state watch_tick (fresh_world (calm_world 1000) example_config example_subs)))) ''192.168.1.10''"
  using watch_keeps_client_routed [OF watched.ticked [OF watched.fresh] calm_considerate example_starts] by blast

text \<open>
  C20: Between two ticks nothing is forgotten: once the watch has started on the file, whenever the file
  holds a failover the last change of the routes has been applied by a successful apply, or the watch owes
  that apply and makes it at a later watch_tick; and a file with an unfinished return holds no failover.
\<close>

theorem watch_forgets_no_apply:
  assumes "watched ou cfg subs w" and "considerate a ou" and "starts_on a cfg"
    and "wa_reconciled (wd_watch w)" and "failover_of (wd_file w) \<noteq> None"
  shows "(applied (wd_deeds w) \<or> wa_pending_apply (wd_watch w)) \<and> x_pending (cfg_xray (wd_file w)) = None"
  using watched_started [OF assms(1-3)] assms(4,5)
  by (auto simp: has_started_def steady_state_def safe_def good_def alone_def)

theorem watch_forgets_no_apply_witness:
  "x_pending (cfg_xray (wd_file (snd (run_state watch_tick
     (fresh_world (calm_world 1000\<lparr>ou_apply := \<lambda>_. False\<rparr>) (stage_xray_clients example_config ''wgc1'') example_subs))))) = None"
proof -
  let ?cfg = "stage_xray_clients example_config ''wgc1''"
  let ?ou = "calm_world 1000\<lparr>ou_apply := \<lambda>_. False\<rparr>"
  have "well_formed example_config" "''192.168.1.10'' \<in> set (xray_clients ?cfg)" "x_pending (cfg_xray ?cfg) = None" by code_simp+
  moreover have "on_route ?cfg ''192.168.1.10''" using calculation(2) unfolding on_route_def covered_def by blast
  ultimately have start: "starts_on ''192.168.1.10'' ?cfg"
    using change_keeps(1) [OF by_daemon [of "Stage ''wgc1''" example_config]] by (simp add: starts_on_def)
  have "considerate ''192.168.1.10'' ?ou" by (simp add: considerate_def calm_world_def)
  note kept = watch_forgets_no_apply [OF watched.ticked [OF watched.fresh] this start]
  have "case run_state watch_tick (fresh_world ?ou ?cfg example_subs) of
      (_, w) \<Rightarrow> wa_reconciled (wd_watch w) \<and> failover_of (wd_file w) \<noteq> None" by code_simp
  then show ?thesis using kept by (simp add: case_prod_beta)
qed



end
