(* ===== verification/Watch_Moves.thy ===== *)
theory Watch_Moves
  imports Watch_Safety
begin

text \<open>
  What the handlers achieve where nothing goes wrong: no refusal, no failed call, nobody else writing. A
  dead outbound moves every client a tunnel can carry, and a probe that passes brings them all back.
\<close>

section \<open>A world without failures\<close>

definition calm :: "outside \<Rightarrow> bool" where
  "calm ou \<longleftrightarrow> (\<forall>n. ou_refuses ou n = None) \<and> (\<forall>n. ou_cancels ou n = None) \<and> (\<forall>n cfg. ou_others ou n cfg = cfg) \<and>
     (\<forall>n. ou_lock ou n) \<and> (\<forall>n. ou_save ou n) \<and> (\<forall>n. ou_read ou n) \<and> (\<forall>n. ou_apply ou n) \<and>
     (\<forall>n k. ou_ready ou n k) \<and> (\<forall>n. ou_tproxy ou n)"

lemma calm_calls [simp]:
  "calm ou \<Longrightarrow> ou_refuses ou n = None" "calm ou \<Longrightarrow> ou_cancels ou n = None" "calm ou \<Longrightarrow> ou_others ou n cfg = cfg"
  "calm ou \<Longrightarrow> ou_lock ou n" "calm ou \<Longrightarrow> ou_save ou n" "calm ou \<Longrightarrow> ou_read ou n" "calm ou \<Longrightarrow> ou_apply ou n"
  "calm ou \<Longrightarrow> ou_ready ou n k" "calm ou \<Longrightarrow> ou_tproxy ou n"
  by (simp_all add: calm_def)

definition calm_at :: "vpn_config \<Rightarrow> bool \<Rightarrow> world \<Rightarrow> bool" where
  "calm_at cfg p w \<longleftrightarrow> calm (wd_outside w) \<and> wd_file w = cfg \<and>
     wa_pending_apply (wd_watch w) = p \<and> wa_ended (wd_watch w) = None \<and> wa_outbound (wd_watch w) = No_Guard"

text \<open>The computation that follows one whose answer is known.\<close>

lemma valid_known: "valid P c (\<lambda>r w. r = v \<and> P' w) \<Longrightarrow> valid P' (f v) Q \<Longrightarrow> valid P (State_Monad.bind c f) Q"
  by (auto simp: valid_def case_prod_beta)

lemma known_attempt: "valid P c (\<lambda>r w. r = Inr v \<and> P' w) \<Longrightarrow> valid P' (f v) Q \<Longrightarrow> valid P (attempt c f) Q"
  unfolding attempt_def by (rule valid_known, assumption) (simp only: sum.case)

lemma known_return: "valid P (State_Monad.return v) (\<lambda>r w. r = v \<and> P w)"
  by (simp add: valid_return)

lemma calm_allowed: "valid (calm_at cfg p) allowed (\<lambda>r w. r = Inr () \<and> calm_at cfg p w)"
  by (simp add: valid_def allowed_def ask_def the_watch_def calm_at_def)

lemma calm_outbound: "valid (calm_at cfg p) outbound_allowed (\<lambda>r w. r = Inr () \<and> calm_at cfg p w)"
    "valid (calm_at cfg p) outbound_locked (\<lambda>r w. r = Inr () \<and> calm_at cfg p w)"
  by (auto simp: valid_def outbound_allowed_def outbound_locked_def outbound_check_def the_watch_def calm_at_def)

lemma calm_may_act: "valid (calm_at cfg p) may_act (\<lambda>r w. r = True \<and> calm_at cfg p w)"
  unfolding may_act_def
  by (rule valid_known [where v = "Inr ()"], rule known_attempt [OF calm_allowed], rule calm_outbound(1)) (simp add: valid_return)

lemma calm_asks:
  "valid (calm_at cfg p) (ask ou_apply) (\<lambda>r w. r = True \<and> calm_at cfg p w)"
  "valid (calm_at cfg p) (ask ou_lock) (\<lambda>r w. r = True \<and> calm_at cfg p w)"
  "valid (calm_at cfg p) (ask ou_save) (\<lambda>r w. r = True \<and> calm_at cfg p w)"
  "valid (calm_at cfg p) (ask ou_read) (\<lambda>r w. r = True \<and> calm_at cfg p w)"
  "valid (calm_at cfg p) others_write (\<lambda>_. calm_at cfg p)"
  "valid (calm_at cfg p) time_now (\<lambda>_. calm_at cfg p)"
  "valid (calm_at cfg p) the_file (\<lambda>r w. r = cfg \<and> calm_at cfg p w)"
  "valid (calm_at cfg p) (did d) (\<lambda>_. calm_at cfg p)"
  "valid (calm_at cfg p) (write_file wr cfg') (\<lambda>_. calm_at cfg' p)"
  by (simp_all add: valid_def ask_def others_write_def time_now_def the_file_def did_def write_file_def calm_at_def)

lemma calm_apply: "valid (calm_at cfg p) apply_now (\<lambda>r w. r = Inr () \<and> calm_at cfg p w)"
  unfolding apply_now_def
  by (intro known_attempt [OF calm_allowed] known_attempt [OF calm_outbound(1)] valid_known [OF calm_asks(1)]
      valid_bind [OF calm_asks(8)]) (simp add: valid_return)

lemma calm_ready:
  "valid (calm_at cfg p) (fallback_ready cfg') (\<lambda>r w. r = True \<and> calm_at cfg p w)"
  "valid (calm_at cfg p) tproxy_ready (\<lambda>r w. r = True \<and> calm_at cfg p w)"
  by (simp_all add: valid_def fallback_ready_def tproxy_ready_def ask_def did_def calm_at_def)

lemma calm_reload: "valid (calm_at cfg p) (reload cfg') (\<lambda>r w. r = cfg \<and> calm_at cfg p w)"
  by (simp add: valid_def reload_def load_vpn_def others_write_def ask_def the_file_def calm_at_def)

lemma calm_locked:
  assumes "valid (calm_at cfg p) (body cfg) (\<lambda>r w. r = Inr (cfg', d, b) \<and> calm_at cfg p w)"
  shows "valid (calm_at cfg p) (locked_write body) (\<lambda>r w. r = Inr b \<and> calm_at cfg' p w)"
proof -
  let ?save = "\<lambda>(cfg', d, b). do { saved \<leftarrow> ask ou_save;
      if saved then do { write_file d cfg'; State_Monad.return (Inr b) } else State_Monad.return (Inl Err_Other) }"
  have "valid (calm_at cfg p) (?save (cfg', d, b)) (\<lambda>r w. r = Inr b \<and> calm_at cfg' p w)"
    by (simp, rule valid_known [OF calm_asks(3)], simp, rule valid_bind [OF calm_asks(9)], rule valid_return, simp)
  then have "valid (calm_at cfg p) (attempt (body cfg) ?save) (\<lambda>r w. r = Inr b \<and> calm_at cfg' p w)"
    by (rule known_attempt [OF assms])
  then have changed: "valid (calm_at cfg p) (do { current \<leftarrow> the_file; attempt (body current) ?save }) (\<lambda>r w. r = Inr b \<and> calm_at cfg' p w)"
    by (intro valid_known [OF calm_asks(7)])
  show ?thesis
    unfolding locked_write_def
    by (rule valid_known [OF calm_asks(2)], simp, rule valid_bind [OF calm_asks(5)], rule changed)
qed

lemma calm_update:
  assumes "valid (calm_at cfg p) (body cfg) (\<lambda>r w. r = Inr (cfg', d, b) \<and> calm_at cfg p w)"
  shows "valid (calm_at cfg p) (update_vpn body) (\<lambda>r w. r = Inr b \<and> calm_at cfg' p w)"
  unfolding update_vpn_def
  by (rule calm_locked [where d = d], intro known_attempt [OF calm_allowed] known_attempt [OF calm_outbound(2)] assms)

lemma calm_update_pure:
  "f cfg = Inr (cfg', d, b) \<Longrightarrow>
     valid (calm_at cfg p) (update_vpn (\<lambda>c. State_Monad.return (f c))) (\<lambda>r w. r = Inr b \<and> calm_at cfg' p w)"
  by (rule calm_update [where d = d]) (simp add: valid_return)

lemma calm_upd:
  assumes "\<And>wa. wa_ended (f wa) = wa_ended wa" and "\<And>wa. wa_outbound (f wa) = wa_outbound wa"
    and "\<And>wa. wa_pending_apply wa = p \<Longrightarrow> wa_pending_apply (f wa) = p'"
  shows "valid (calm_at cfg p) (upd_watch f) (\<lambda>_. calm_at cfg p')"
  using assms by (auto simp: valid_def upd_watch_def calm_at_def)

lemma calm_watch: "valid (calm_at cfg p) the_watch (\<lambda>_. calm_at cfg p)"
  "valid (calm_at cfg p) the_watch (\<lambda>wa w. wa_pending_apply wa = p \<and> calm_at cfg p w)"
  by (simp_all add: valid_def the_watch_def calm_at_def)

lemma calm_notify: "valid (calm_at cfg p) (notify kind msg) (\<lambda>_. calm_at cfg p)"
proof -
  have upd: "valid (calm_at cfg p) (upd_watch (\<lambda>wa. if kind = Note_Restored then wa\<lparr>wa_route_kind := Note_None\<rparr> else wa))
      (\<lambda>_. calm_at cfg p)"
    by (rule calm_upd) auto
  have told: "valid (calm_at cfg p) (upd_watch (\<lambda>wa. if is_route_note kind
      then wa\<lparr>wa_route_kind := kind, wa_import_kind := Note_None\<rparr> else wa\<lparr>wa_import_kind := kind\<rparr>)) (\<lambda>_. calm_at cfg p)"
    by (rule calm_upd) auto
  show ?thesis
    unfolding notify_def
    by (rule valid_known [OF calm_may_act], simp, rule valid_bind [OF upd], rule valid_bind [OF calm_watch(1)],
        rule valid_if, rule valid_return, simp,
        rule valid_bind [OF valid_pre [OF calm_asks(8)] told]) simp
qed

section \<open>Onto the tunnel and back\<close>

text \<open>The second step of a move, from a staged failover.\<close>

lemma calm_commit_change:
  "valid (calm_at cfg p) (commit_change cfg)
     (\<lambda>r w. r = Inr (commit_xray_failover cfg, if failover_of cfg = None then W_Other else W_Commit, ()) \<and> calm_at cfg p w)"
proof -
  have "valid (calm_at cfg p) (if b then State_Monad.return (Inr ())
      else do { ready \<leftarrow> fallback_ready cfg; if \<not> ready then State_Monad.return (Inl Err_Other) else outbound_locked })
      (\<lambda>r w. r = Inr () \<and> calm_at cfg p w)" (is "valid _ (?check b) _") for b
    by (rule valid_if, rule known_return, rule valid_known [OF calm_ready(1)], simp, rule calm_outbound(2))
  note checked = valid_known [OF this]
  show ?thesis
    unfolding commit_change_def by (intro valid_bind [OF calm_watch(1)] checked valid_return) simp
qed

lemma calm_commit:
  assumes "failover_staged cfg"
  shows "valid (calm_at cfg False) (apply_failover cfg)
    (\<lambda>r w. r = (commit_xray_failover cfg, True) \<and> calm_at (commit_xray_failover cfg) False w)"
proof -
  have reset: "valid (calm_at cfg' False) (upd_watch reset_fallback_state) (\<lambda>_. calm_at cfg' False)" for cfg'
    by (rule calm_upd) (simp_all add: reset_fallback_state_def)
  have paid: "valid (calm_at cfg False) (pay_apply cfg) (\<lambda>r w. r = Some cfg \<and> calm_at cfg False w)"
    unfolding pay_apply_def by (rule valid_bind [OF calm_watch(2)]) (auto simp: valid_def)
  show ?thesis
    unfolding apply_failover_def
  proof (rule valid_known [OF paid], unfold option.case commit_failover_def, rule valid_if)
    show "valid (calm_at cfg False) (State_Monad.return (cfg, True))
       (\<lambda>r w. r = (commit_xray_failover cfg, True) \<and> calm_at (commit_xray_failover cfg) False w)" if "\<not> failover_staged cfg"
      using assms that by simp
  qed (rule valid_known [OF calm_ready(1)], simp, rule valid_known [OF calm_update [OF calm_commit_change]], simp,
      rule valid_known [OF calm_reload], rule valid_known [OF calm_apply], simp, rule valid_bind [OF reset], rule known_return)
qed

lemma exit_tunnel:
  assumes "first_td_exit cfg plat = k" and "k \<noteq> []"
  obtains tun where "tunnel_of cfg k = Some tun"
proof -
  have "k \<in> set (td_exits cfg plat)" using assms by (auto simp: first_td_exit_def split: list.splits)
  then have "k \<in> set (keys (cfg_tunnels cfg))" using td_exits_usable by blast
  then have "k \<in> fst ` set (cfg_tunnels cfg)" by simp
  then obtain tun where "map_of (cfg_tunnels cfg) k = Some tun" by (metis map_of_eq_None_iff not_None_eq)
  then show ?thesis using that by (simp add: tunnel_of_def)
qed

lemma stage_staged:
  assumes "failover_of cfg = None" "tunnel_of cfg k = Some tun" "k \<noteq> []" "carriable_xray_clients cfg \<noteq> []"
  shows "failover_staged (stage_xray_clients cfg k)"
proof -
  let ?s = "stage_xray_clients cfg k"
  obtain ip where ip: "ip \<in> set (carriable_xray_clients cfg)" using assms(4) by (cases "carriable_xray_clients cfg") auto
  then have "ip \<in> set (snapshot_on_tunnel ?s)" by (simp add: stage_snapshot [OF assms])
  moreover have "ip \<in> set (xray_clients ?s)" "\<not> is_paused ?s ip" "failover_of ?s \<noteq> None"
    using ip by (auto simp: stage_some [OF assms] mem_carriable is_paused_def)
  ultimately show ?thesis by (auto simp: failover_staged_def list_ex_iff)
qed

lemma calm_move:
  assumes "failover_of cfg = None" "tunnel_of cfg k = Some tun" "k \<noteq> []" "carriable_xray_clients cfg \<noteq> []"
    and "x_pending (cfg_xray cfg) = None"
  shows "valid (calm_at cfg False) (move_to_tunnel cfg k)
    (\<lambda>r w. r = Some (move_xray_clients cfg k) \<and> calm_at (move_xray_clients cfg k) False w)"
proof -
  let ?s = "stage_xray_clients cfg k" and ?m = "move_xray_clients cfg k"
  have "x_pending (cfg_xray ?s) = None" using assms(5) by (simp add: pending_moves)
  then have same: "upd_xray (\<lambda>x. x\<lparr>x_pending := None\<rparr>) ?s = ?s" by (simp add: upd_xray_def)
  have some: "failover_of ?s \<noteq> None" by (simp add: stage_some [OF assms(1-4)])
  have stage: "valid (calm_at cfg False) (update_vpn (stage_change cfg k)) (\<lambda>r w. r = Inr () \<and> calm_at ?s False w)"
    by (rule calm_update [where d = W_Stage]) (use assms(5) some same in \<open>simp add: stage_change_def Let_def valid_return\<close>)
  have reset: "valid (calm_at ?s False) (upd_watch (\<lambda>wa. reset_fallback_state (wa\<lparr>wa_pending_restore := None\<rparr>))) (\<lambda>_. calm_at ?s False)"
    by (rule calm_upd) (simp_all add: reset_fallback_state_def)
  have m: "commit_xray_failover ?s = ?m" by (simp add: move_xray_clients_def)
  note commit = calm_commit [OF stage_staged [OF assms(1-4)], unfolded m]
  show ?thesis
    unfolding move_to_tunnel_def
    by (rule valid_known [OF stage], simp, rule valid_bind [OF reset], rule valid_known [OF calm_apply], simp,
        rule valid_known [OF calm_reload], rule valid_known [OF commit], simp, rule valid_known [OF calm_may_act],
        rule valid_bind [OF calm_watch(1)], simp, rule valid_bind [OF calm_notify], rule known_return)
qed

text \<open>A watch that may move: no apply owed, the last message not that there is no tunnel, and the platform readable.\<close>

definition may_move :: "vpn_config \<Rightarrow> platform_info \<Rightarrow> world \<Rightarrow> bool" where
  "may_move cfg plat w \<longleftrightarrow> calm_at cfg False w \<and> wa_route_kind (wd_watch w) \<noteq> Note_No_Tunnel \<and>
     (\<forall>n. ou_platform (wd_outside w) n = Some plat)"

lemma move_calls:
  "valid (may_move cfg plat) may_act (\<lambda>r w. r = True \<and> may_move cfg plat w)"
  "valid (may_move cfg plat) time_now (\<lambda>_. may_move cfg plat)"
  "valid (may_move cfg plat) the_watch (\<lambda>wa w. wa_route_kind wa \<noteq> Note_No_Tunnel \<and> may_move cfg plat w)"
  "valid (may_move cfg plat) (ask ou_platform) (\<lambda>r w. r = Some plat \<and> may_move cfg plat w)"
  by (auto simp: valid_def may_act_def attempt_def allowed_def outbound_allowed_def outbound_check_def time_now_def ask_def
      the_watch_def may_move_def calm_at_def)

lemma move_upd:
  assumes "\<And>wa. wa_ended (f wa) = wa_ended wa \<and> wa_outbound (f wa) = wa_outbound wa \<and>
      wa_pending_apply (f wa) = wa_pending_apply wa \<and> wa_route_kind (f wa) = wa_route_kind wa"
  shows "valid (may_move cfg plat) (upd_watch f) (\<lambda>_. may_move cfg plat)"
  using assms by (auto simp: valid_def upd_watch_def may_move_def calm_at_def)

lemma calm_fail:
  assumes "failover_of cfg = None" "x_pending (cfg_xray cfg) = None" "carriable_xray_clients cfg \<noteq> []"
    and "first_td_exit cfg (pf_tunnels plat) = k" "k \<noteq> []"
  shows "valid (may_move cfg plat) (fail_outbound cfg)
    (\<lambda>r w. r = Some (move_xray_clients cfg k) \<and> calm_at (move_xray_clients cfg k) False w)"
proof -
  obtain tun where tun: "tunnel_of cfg k = Some tun" using exit_tunnel [OF assms(4,5)] .
  have "valid (may_move cfg plat) (upd_watch (\<lambda>wa. if wa_return_death wa \<noteq> wa_fail_since wa
           then return_after_death later (wa\<lparr>wa_return_death := wa_fail_since wa\<rparr>) else wa)) (\<lambda>_. may_move cfg plat)" for later
    by (rule move_upd) (simp add: return_after_death_def back_off_return_def Let_def)
  then have death: "valid (may_move cfg plat) settle_death (\<lambda>_. may_move cfg plat)"
    unfolding settle_death_def by (intro valid_bind [OF move_calls(2)])
  have check: "valid (may_move cfg plat) (upd_watch (\<lambda>wa. wa\<lparr>wa_no_tunnel_check := zero_time\<rparr>)) (\<lambda>_. may_move cfg plat)"
    by (rule move_upd) simp
  have moved: "valid (may_move cfg plat) (move_to_tunnel cfg k)
      (\<lambda>r w. r = Some (move_xray_clients cfg k) \<and> calm_at (move_xray_clients cfg k) False w)"
    by (rule valid_pre [OF calm_move [OF assms(1) tun assms(5,3,2)]]) (simp add: may_move_def)
  have rest: "valid (\<lambda>w. wa_route_kind wa \<noteq> Note_No_Tunnel \<and> may_move cfg plat w) c Q"
    if "wa_route_kind wa \<noteq> Note_No_Tunnel \<Longrightarrow> valid (may_move cfg plat) c Q" for wa :: watch and c :: "vpn_config option act" and Q
    using that by (cases "wa_route_kind wa = Note_No_Tunnel") (simp_all add: valid_def)
  show ?thesis
    unfolding fail_outbound_def Let_def
    by (rule valid_known [OF move_calls(1)], simp, rule valid_bind [OF move_calls(2)], rule valid_bind [OF move_calls(3)],
        rule rest, simp, rule valid_bind [OF death], rule valid_known [OF move_calls(4)],
        rule valid_known [OF move_calls(1)], simp add: assms(3-5), rule valid_bind [OF check], rule moved)
qed

text \<open>The way back: both routes, then Xray alone.\<close>

lemma not_superseded: "\<not> superseded a (active_id a) [] (active_seq a)"
  by (simp add: superseded_def Let_def)

text \<open>A guard that holds as long as the record is the one it knows.\<close>

definition passes :: "active_server option \<Rightarrow> (vpn_config \<Rightarrow> (watch_error + unit) act) \<Rightarrow> bool" where
  "passes active guard \<longleftrightarrow> (\<forall>cfg p. x_active (cfg_xray cfg) = active \<longrightarrow>
     valid (calm_at cfg p) (guard cfg) (\<lambda>r w. r = Inr () \<and> calm_at cfg p w))"

lemma probed_passes: "passes (x_active (cfg_xray seen)) (probed_server seen)"
  by (simp add: passes_def probed_server_def not_superseded valid_return)

lemma calm_guarded:
  assumes "f cfg = Inr (cfg', d, b)" and "passes (x_active (cfg_xray cfg)) guard"
  shows "valid (calm_at cfg p) (update_vpn (\<lambda>c. attempt (guard c) (\<lambda>_. State_Monad.return (f c))))
    (\<lambda>r w. r = Inr b \<and> calm_at cfg' p w)"
proof (rule calm_update [where d = d], rule known_attempt)
  show "valid (calm_at cfg p) (guard cfg) (\<lambda>r w. r = Inr () \<and> calm_at cfg p w)"
    using assms(2) by (simp add: passes_def)
  show "valid (calm_at cfg p) (State_Monad.return (f cfg)) (\<lambda>r w. r = Inr (cfg', d, b) \<and> calm_at cfg p w)"
    by (simp add: assms(1) valid_return)
qed

text \<open>The file once every client is back.\<close>

definition all_back :: "vpn_config \<Rightarrow> vpn_config" where
  "all_back cfg = upd_xray (\<lambda>x. x\<lparr>x_pending := None\<rparr>) (fst (restore_xray_clients (ensure_failover_staged cfg)))"

lemma calm_finish:
  assumes "failover_of cfg = None" "x_pending (cfg_xray cfg) = Some p" "x_active (cfg_xray cfg) = pr_active p"
  shows "valid (calm_at cfg q) (finish_restore p True)
    (\<lambda>r w. (\<exists>committed. r = Inr (True, committed)) \<and> calm_at (upd_xray (\<lambda>x. x\<lparr>x_pending := None\<rparr>) cfg) False w)"
proof -
  let ?c = "upd_xray (\<lambda>x. x\<lparr>x_pending := None\<rparr>) cfg"
  have guard: "pending_restore_guard cfg p" using assms by (simp add: pending_restore_guard_def)
  have "\<exists>committed. finalize_restore True True p cfg = Finished True committed ?c"
    by (cases "failover_snapshot p cfg") (simp_all add: finalize_restore_def guard assms Let_def ex_bool_eq)
  then obtain committed where fin: "finalize_restore True True p cfg = Finished True committed ?c" by blast
  have change: "valid (calm_at cfg q) (finish_change p True cfg)
      (\<lambda>r w. r = Inr (?c, W_Other, False, True, committed) \<and> calm_at cfg q w)"
    unfolding finish_change_def
    by (simp add: guard, rule valid_known [OF calm_ready(2)], rule known_attempt [OF calm_allowed])
      (simp add: fin valid_return)
  have clear: "valid (calm_at ?c q) (upd_watch (\<lambda>wa. wa\<lparr>wa_pending_apply := False, wa_pending_restore := None\<rparr>)) (\<lambda>_. calm_at ?c False)"
    by (rule calm_upd) simp_all
  have reset: "valid (calm_at ?c False) (upd_watch (\<lambda>wa. reset_fallback_state (settled now wa))) (\<lambda>_. calm_at ?c False)" for now
    by (rule calm_upd) (simp_all add: reset_fallback_state_def settled_def reset_fail_def Let_def)
  show ?thesis
    unfolding finish_restore_def
    by (rule valid_known [OF calm_update [of cfg q "finish_change p True", OF change]], simp, rule valid_bind [OF clear], rule valid_bind [OF calm_asks(6)],
        rule valid_bind [OF reset], rule valid_return, simp)
qed

lemma calm_restore:
  assumes "failover_of cfg = Some fo" "failover_tunnel seen \<noteq> []" "x_pending (cfg_xray cfg) = None"
    and "passes (x_active (cfg_xray cfg)) guard"
  shows "valid (calm_at cfg q) (commit_restore seen guard) (\<lambda>r w. rd_done r \<and> calm_at (all_back cfg) False w)"
proof -
  let ?e = "ensure_failover_staged cfg"
  note e = ensure_staged [OF assms(1)]
  have same: "x_active (cfg_xray ?e) = x_active (cfg_xray cfg)" "x_pending (cfg_xray ?e) = None"
    by (simp_all add: ensure_failover_staged_def assms)
  obtain c p where begun: "begin_xray_restore ?e = (c, Some p)"
      "c = upd_xray (\<lambda>x. x\<lparr>x_pending := Some p\<rparr>) (fst (restore_xray_clients ?e))" "pr_active p = x_active (cfg_xray ?e)"
    by (auto simp: begin_xray_restore_def case_prod_beta Let_def e(1) same(2))
  have all_back: "upd_xray (\<lambda>x. x\<lparr>x_pending := None\<rparr>) c = all_back cfg"
    by (simp add: begun(2) all_back_def upd_xray_def)
  have active: "x_active (cfg_xray (fst (restore_xray_clients ?e))) = x_active (cfg_xray ?e)"
    by (simp add: restore_xray_clients_def Let_def split: option.splits)
  have ready: "failover_of c = None" "x_pending (cfg_xray c) = Some p" "x_active (cfg_xray c) = pr_active p"
    using restored_alone [of ?e] by (simp_all add: begun(2,3) active)
  have tproxy: "valid (calm_at cfg q) tproxy_first (\<lambda>r w. r = True \<and> calm_at cfg q w)"
    unfolding tproxy_first_def by (rule valid_known [OF calm_ready(2)]) (simp add: valid_return)
  have ensure: "valid (calm_at cfg q) (update_vpn (ensure_change guard)) (\<lambda>r w. r = Inr () \<and> calm_at ?e q w)"
    unfolding ensure_change_def [abs_def] by (rule calm_guarded) (simp_all add: assms(4))
  have change: "valid (calm_at ?e q) (update_vpn (begin_change guard)) (\<lambda>r w. r = Inr p \<and> calm_at c q w)"
    unfolding begin_change_def [abs_def] by (rule calm_guarded) (simp_all add: same e(1) begun(1) assms(4))
  have fail: "valid (calm_at ?e q) (upd_watch (\<lambda>wa. wa\<lparr>wa_tproxy_fail := zero_time\<rparr>)) (\<lambda>_. calm_at ?e q)"
    by (rule calm_upd) simp_all
  have intent: "valid (calm_at c q) (upd_watch (\<lambda>wa. wa\<lparr>wa_pending_restore := Some p\<rparr>)) (\<lambda>_. calm_at c q)"
    by (rule calm_upd) simp_all
  have finished: "valid (\<lambda>w. (\<exists>committed. r = Inr (True, committed)) \<and> calm_at (all_back cfg) False w)
      (State_Monad.return (case r of Inl e \<Rightarrow> not_done False (refusal_of e)
        | Inr (done, committed) \<Rightarrow> \<lparr>rd_done = done, rd_committed = committed, rd_refused = None\<rparr>))
      (\<lambda>r w. rd_done r \<and> calm_at (all_back cfg) False w)" for r
    by (rule valid_return) auto
  have leave: "valid (calm_at ?e q) (leave_fallback guard committed)
      (\<lambda>r w. rd_done r \<and> calm_at (all_back cfg) False w)" for committed
    unfolding leave_fallback_def
    by (rule valid_known [OF change], simp, rule valid_bind [OF intent], rule valid_known [OF calm_apply], simp,
        rule valid_bind [OF calm_finish [OF ready, unfolded all_back] finished])
  show ?thesis
    unfolding commit_restore_def Let_def
    by (rule valid_known [OF calm_allowed], simp add: assms(2) split del: if_split, rule valid_known [OF tproxy], simp split del: if_split, rule valid_known [OF ensure], simp split del: if_split,
        rule valid_known [OF calm_apply], simp split del: if_split, rule valid_known [OF calm_ready(2)], simp split del: if_split, rule valid_bind [OF fail leave])
qed

lemma all_back_routes:
  assumes "failover_of cfg = Some fo"
  shows "failover_of (all_back cfg) = None" "x_pending (cfg_xray (all_back cfg)) = None"
    "tunnel_of (all_back cfg) j = tunnel_of (fst (restore_xray_clients cfg)) j"
    "set (xray_clients (all_back cfg)) = set (xray_clients (fst (restore_xray_clients cfg)))"
proof -
  let ?e = "ensure_failover_staged cfg" and ?fo = "fo\<lparr>fo_committed := failover_committed cfg\<rparr>"
  note e = ensure_staged [OF assms]
  have snap: "snapshot_on_tunnel ?e = snapshot_on_tunnel cfg"
    by (simp add: snapshot_on_tunnel_def e(1,2) assms split: option.splits)
  have drops: "restore_drops ?fo xs = restore_drops fo xs" for xs by (simp add: restore_drops_def)
  have x: "set (xray_clients ?e) = set (xray_clients cfg) \<union> {ip \<in> set (snapshot_on_tunnel cfg). \<not> is_paused cfg ip}"
    by (simp add: ensure_failover_staged_def assms)
  show "failover_of (all_back cfg) = None" "x_pending (cfg_xray (all_back cfg)) = None"
    using restored_alone [of ?e] by (simp_all add: all_back_def)
  show "tunnel_of (all_back cfg) j = tunnel_of (fst (restore_xray_clients cfg)) j"
    by (auto simp: all_back_def restore_xray_clients_def e(1,2) assms snap drops Let_def split: option.splits)
  show "set (xray_clients (all_back cfg)) = set (xray_clients (fst (restore_xray_clients cfg)))"
    using x by (auto simp: all_back_def restore_xray_clients_def e(1,2) assms snap Let_def split: option.splits)
qed

section \<open>The properties\<close>

definition example_platform :: platform_info where
  "example_platform = \<lparr>pf_merlin = True, pf_tunnels = [\<lparr>pt_id = ''wgc1'', pt_iface = ''wg1'', pt_type = ''wireguard'',
     pt_connected = True, pt_description = []\<rparr>]\<rparr>"

definition example_world :: world where
  "example_world = fresh_world (calm_world 1000\<lparr>ou_platform := \<lambda>_. Some example_platform\<rparr>) example_config example_subs"

lemma example_moves:
  "may_move example_config example_platform example_world" "failover_of example_config = None"
  "x_pending (cfg_xray example_config) = None" "carriable_xray_clients example_config \<noteq> []"
  "first_td_exit example_config (pf_tunnels example_platform) = ''wgc1''" "''wgc1'' \<noteq> []"
proof -
  show "may_move example_config example_platform example_world"
    by (simp add: may_move_def calm_at_def calm_def example_world_def fresh_world_def calm_world_def new_watch_def)
  show "failover_of example_config = None" "x_pending (cfg_xray example_config) = None"
    "carriable_xray_clients example_config \<noteq> []" "first_td_exit example_config (pf_tunnels example_platform) = ''wgc1''"
    "''wgc1'' \<noteq> []" by code_simp+
qed

text \<open>
  C21: A dead outbound moves its clients: where no call fails and nobody else writes, with a tunnel to go to
  and a client it can carry, the handler of a dead outbound ends with every such client on the first exit
  and none of them on Xray, and gives that file to the wave of downloads that follows.
\<close>

theorem dead_outbound_moves_clients:
  assumes "may_move cfg plat w" and "failover_of cfg = None" and "x_pending (cfg_xray cfg) = None"
    and "carriable_xray_clients cfg \<noteq> []" and "first_td_exit cfg (pf_tunnels plat) = k" and "k \<noteq> []"
  shows "case run_state (fail_outbound cfg) w of (r, w') \<Rightarrow>
    r = Some (wd_file w') \<and> \<not> wa_pending_apply (wd_watch w') \<and>
    set (carriable_xray_clients cfg) \<subseteq> set (tunnel_clients (wd_file w') k) \<and>
    carriable_xray_clients (wd_file w') = []"
proof -
  obtain tun where "tunnel_of cfg k = Some tun" using exit_tunnel [OF assms(5,6)] .
  then show ?thesis
    using calm_fail [OF assms(2-6)] assms(1) move_carries(1,2) [OF assms(2) _ assms(6)]
    by (auto simp: valid_def calm_at_def case_prod_beta)
qed

theorem dead_outbound_moves_clients_witness:
  "carriable_xray_clients (wd_file (snd (run_state (fail_outbound example_config) example_world))) = []"
  using dead_outbound_moves_clients [OF example_moves] by (simp add: case_prod_beta)

text \<open>
  C2: And they all come back: after such a move, the restore that a probe of the same server starts ends
  with no failover and no intent in the file, every tunnel as it was before the failure, and the same
  clients on Xray.
\<close>

theorem failover_comes_full_circle:
  assumes "may_move cfg plat w" and "failover_of cfg = None" and "x_pending (cfg_xray cfg) = None"
    and "carriable_xray_clients cfg \<noteq> []" and "first_td_exit cfg (pf_tunnels plat) = k" and "k \<noteq> []"
    and "w1 = snd (run_state (fail_outbound cfg) w)"
    and "run_state (commit_restore (wd_file w1) (probed_server (wd_file w1))) w1 = (r, w2)"
  shows "rd_done r \<and> failover_of (wd_file w2) = None \<and> x_pending (cfg_xray (wd_file w2)) = None \<and>
    (\<forall>j. tunnel_of (wd_file w2) j = tunnel_of cfg j) \<and> set (xray_clients (wd_file w2)) = set (xray_clients cfg)"
proof -
  let ?m = "move_xray_clients cfg k"
  obtain tun where tun: "tunnel_of cfg k = Some tun" using exit_tunnel [OF assms(5,6)] .
  have moved: "calm_at ?m False w1"
    using calm_fail [OF assms(2-6)] assms(1,7) by (simp add: valid_def)
  then have written: "wd_file w1 = ?m" by (simp add: calm_at_def)
  obtain fo where fo: "failover_of ?m = Some fo" "fo_tunnel fo = k"
    by (simp add: move_xray_clients_def failover_of_commit stage_some [OF assms(2) tun assms(6,4)])
  have "x_pending (cfg_xray ?m) = None"
    using assms(3) by (simp add: move_xray_clients_def commit_xray_failover_def pending_moves split: option.split)
  moreover have "failover_tunnel ?m \<noteq> []" using fo assms(6) by (simp add: failover_tunnel_def)
  ultimately have "valid (calm_at ?m False) (commit_restore ?m (probed_server ?m)) (\<lambda>r w. rd_done r \<and> calm_at (all_back ?m) False w)"
    by (intro calm_restore [OF fo(1)] probed_passes)
  with assms(8) written moved
  have "rd_done r" "wd_file w2 = all_back ?m" by (auto simp: valid_def calm_at_def)
  then show ?thesis
    using all_back_routes [OF fo(1)] restore_undoes(2,3) [OF assms(2) tun assms(6,4), of ?m] by simp
qed

theorem failover_comes_full_circle_witness:
  "let w1 = snd (run_state (fail_outbound example_config) example_world);
       w2 = snd (run_state (commit_restore (wd_file w1) (probed_server (wd_file w1))) w1)
   in failover_of (wd_file w2) = None \<and> set (xray_clients (wd_file w2)) = set (xray_clients example_config)"
  using failover_comes_full_circle [OF example_moves refl surjective_pairing] by (simp add: Let_def)

end
