(* ===== verification/Watch_Own.thy ===== *)
theory Watch_Own
  imports Watch_Moves
begin

text \<open>
  Whom a switch of the watch overwrites, and how often it restarts Xray. The watch writes its record into
  a file that the user may select a server in at any time; every such write moves a counter, and a run of
  switches carries the counter its own last write left.
\<close>

section \<open>What a computation does\<close>

definition does :: "(deed \<Rightarrow> bool) \<Rightarrow> 'a act \<Rightarrow> bool" where
  "does p c \<longleftrightarrow> (\<forall>w. \<exists>ds. wd_deeds (snd (run_state c w)) = ds @ wd_deeds w \<and> list_all p ds)"

named_theorems does_intros

lemma does_bind [does_intros]:
  assumes "does p c" and "\<And>a. does p (f a)"
  shows "does p (State_Monad.bind c f)"
  unfolding does_def
proof
  fix w
  let ?a = "fst (run_state c w)" and ?w = "snd (run_state c w)"
  obtain ds ds' where "wd_deeds ?w = ds @ wd_deeds w" "list_all p ds"
      "wd_deeds (snd (run_state (f ?a) ?w)) = ds' @ wd_deeds ?w" "list_all p ds'"
    using assms unfolding does_def by metis
  then show "\<exists>ds. wd_deeds (snd (run_state (State_Monad.bind c f) w)) = ds @ wd_deeds w \<and> list_all p ds"
    by (intro exI [of _ "ds' @ ds"]) (simp add: case_prod_beta)
qed

lemma does_silent: "silent c \<Longrightarrow> does p c"
  by (auto simp: does_def silent_def silent_step_def)

lemma does_cases [does_intros]:
  "does p (State_Monad.return x)" "(b \<Longrightarrow> does p c) \<Longrightarrow> (\<not> b \<Longrightarrow> does p d) \<Longrightarrow> does p (if b then c else d)"
  "does p c \<Longrightarrow> (\<And>x. does p (f x)) \<Longrightarrow> does p (case r of None \<Rightarrow> c | Some x \<Rightarrow> f x)"
  "(\<And>e. does p (g e)) \<Longrightarrow> (\<And>y. does p (h y)) \<Longrightarrow> does p (case s of Inl e \<Rightarrow> g e | Inr y \<Rightarrow> h y)"
  "(\<And>y z. does p (k y z)) \<Longrightarrow> does p (case q of (y, z) \<Rightarrow> k y z)" "(\<And>y. does p (m y)) \<Longrightarrow> does p (Let v m)"
  by (auto intro: does_silent [OF silent_return] split: option.split sum.split prod.split)

lemma does_attempt [does_intros]: "does p c \<Longrightarrow> (\<And>a. does p (f a)) \<Longrightarrow> does p (attempt c f)"
  unfolding attempt_def by (intro does_intros)

lemma does_calls [does_intros]:
  "does p (ask f)" "does p the_watch" "does p the_file" "does p the_subs" "does p (set_subs subs)" "does p others_edit"
  "does p others_write" "does p (require er b)" "does p allowed" "does p outbound_allowed" "does p outbound_locked" "does p may_act"
  "does p load_vpn" "does p (reload cfg)" "does p time_now" "does p context_ended" "does p load_subs"
  "does p (valid_evidence e ks)" "does p (active_label cfg)" "does p mutation_ended" "does p outbound_refuses"
  "does p (walk_owns_now started latest seq)" "does p (no_longer_owns sw)" "does p (walk_ended r)"
  by (rule does_silent, intro silent_intros)+

lemma does_upd [does_intros]: "does p (upd_watch f)"
  by (simp add: does_def upd_watch_def)

lemma does_did: "p d \<Longrightarrow> does p (did d)"
  by (simp add: does_def did_def)

lemma does_write: "p (Wrote d) \<Longrightarrow> does p (write_file d cfg)"
  by (simp add: does_def write_file_def)

lemma does_any [does_intros]: "does p (any_of [])" "does p c \<Longrightarrow> does p (any_of cs) \<Longrightarrow> does p (any_of (c # cs))"
  by (auto intro!: does_intros)

text \<open>Everything but a publication and a record.\<close>

fun quiet_deed :: "deed \<Rightarrow> bool" where
  "quiet_deed (Published b s) \<longleftrightarrow> False"
| "quiet_deed (Recorded r) \<longleftrightarrow> False"
| "quiet_deed _ \<longleftrightarrow> True"

abbreviation quietly :: "'a act \<Rightarrow> bool" where
  "quietly c \<equiv> does quiet_deed c"

lemma quiet_calls [does_intros]:
  "quietly (notify kind msg)" "quietly (say msg)" "quietly apply_now" "quietly restart_xray" "quietly probe_now" "quietly (fallback_ready cfg)"
  "quietly tproxy_ready"
  unfolding notify_def say_def apply_now_def restart_xray_def probe_now_def fallback_ready_def tproxy_ready_def
  by (intro does_intros does_did; simp)+

lemma quiet_update [does_intros]:
  assumes "\<And>cfg. quietly (alter cfg)"
  shows "quietly (update_vpn alter)"
  unfolding update_vpn_def locked_write_def by (intro does_intros does_write assms) simp_all

lemma quiet_restore:
  assumes "\<And>cfg. silent (guard cfg)"
  shows "quietly (commit_restore cfg guard)"
proof -
  note guarded = does_silent [OF assms]
  have owe: "quietly apply_or_owe" unfolding apply_or_owe_def by (intro does_intros)
  have unstage: "quietly unstage_restore" unfolding unstage_restore_def by (intro does_intros owe)
  have finish: "quietly (finish_restore p b)" for p b
    unfolding finish_restore_def finish_change_def by (intro does_intros)
  have leave: "quietly (leave_fallback guard b)" for b
    unfolding leave_fallback_def begin_change_def by (intro does_intros guarded unstage finish)
  show ?thesis
    unfolding commit_restore_def tproxy_first_def ensure_change_def by (intro does_intros guarded unstage leave)
qed

section \<open>Whose record is overwritten\<close>

text \<open>Of the deeds, the latest first: the record the watch knows, and the servers it published.\<close>

fun last_record :: "active_server option \<Rightarrow> deed list \<Rightarrow> active_server option" where
  "last_record a [] = a"
| "last_record a (d # ds) = (case d of Recorded r \<Rightarrow> Some r | _ \<Rightarrow> last_record a ds)"

fun published :: "deed list \<Rightarrow> server list" where
  "published [] = []"
| "published (d # ds) = (case d of Published b s \<Rightarrow> s # published ds | _ \<Rightarrow> published ds)"

text \<open>
  At every publication the file held the counter of the record the run started from, or of the last one
  the run wrote itself.
\<close>

fun own_writes :: "active_server option \<Rightarrow> deed list \<Rightarrow> bool" where
  "own_writes a [] \<longleftrightarrow> True"
| "own_writes a (d # ds) \<longleftrightarrow>
     (case d of Published b s \<Rightarrow> active_seq b = active_seq (last_record a ds) | _ \<Rightarrow> True) \<and> own_writes a ds"

definition chained :: "deed list \<Rightarrow> active_server option \<Rightarrow> int \<Rightarrow> server list \<Rightarrow> world \<Rightarrow> bool" where
  "chained start a n ps w \<longleftrightarrow>
     (\<exists>ds. wd_deeds w = ds @ start \<and> own_writes a ds \<and> active_seq (last_record a ds) = n \<and> published ds = ps)"

lemma quiet_deeds:
  assumes "list_all quiet_deed ds"
  shows "own_writes a (ds @ ds') = own_writes a ds'" "last_record a (ds @ ds') = last_record a ds'" "published (ds @ ds') = published ds'"
  using assms by (induction ds) (auto split: deed.splits)

lemma chained_quiet:
  assumes "quietly c"
  shows "valid (chained start a n ps) c (\<lambda>_. chained start a n ps)"
  unfolding valid_def chained_def
proof (intro allI impI, elim exE conjE)
  fix w :: world and ds
  assume w: "wd_deeds w = ds @ start" "own_writes a ds" "active_seq (last_record a ds) = n" "published ds = ps"
  obtain new where new: "wd_deeds (snd (run_state c w)) = new @ wd_deeds w" "list_all quiet_deed new"
    using assms unfolding does_def by blast
  then show "\<exists>ds. wd_deeds (snd (run_state c w)) = ds @ start \<and> own_writes a ds \<and> active_seq (last_record a ds) = n \<and> published ds = ps"
    using w new quiet_deeds [OF new(2)] by (intro exI [of _ "new @ ds"]) simp
qed

lemma valid_gate:
  fixes c :: "(watch_error + unit) act"
  assumes "valid P c (\<lambda>_. P)" and "valid P f Q" and "\<And>e w. P w \<Longrightarrow> Q (Inl e) w"
  shows "valid P (attempt c (\<lambda>_. f)) Q"
  unfolding attempt_def by (rule valid_bind [OF assms(1)]) (use assms(2,3) in \<open>auto simp: valid_def split: sum.split\<close>)

lemma valid_refused:
  fixes c :: "(watch_error + unit) act"
  assumes "valid P c (\<lambda>r w. P w \<and> r \<noteq> Inr ())" and "\<And>e w. P w \<Longrightarrow> Q (Inl e) w"
  shows "valid P (attempt c f) Q"
  unfolding attempt_def by (rule valid_bind [OF assms(1)]) (use assms(2) in \<open>auto simp: valid_def split: sum.split\<close>)

text \<open>A guard that only passes on the counter it knows.\<close>

definition knows :: "(vpn_config \<Rightarrow> (watch_error + unit) act) \<Rightarrow> int \<Rightarrow> bool" where
  "knows guard n \<longleftrightarrow> (\<forall>cfg. gives (guard cfg) (\<lambda>r. r = Inr () \<longrightarrow> active_seq (x_active (cfg_xray cfg)) = n))"

lemma gives_check: "gives c S \<Longrightarrow> (\<And>e. T (Inl e)) \<Longrightarrow> (S (Inr ()) \<Longrightarrow> gives f T) \<Longrightarrow> gives (attempt c (\<lambda>_. f)) T"
  unfolding gives_def attempt_def by (auto simp: case_prod_beta split: sum.split) (metis old.unit.exhaust)

lemma knows_walk: "knows (walk_guard sid link started latest n) n"
proof -
  have "gives (walk_owns started latest n cfg) (\<lambda>r. r = Inr () \<longrightarrow> active_seq (x_active (cfg_xray cfg)) = n)" for cfg
    by (simp add: walk_owns_def require_def gives_def superseded_def)
  note given = this
  show ?thesis
    unfolding knows_def walk_guard_def
    by (rule allI, rule gives_attempt, simp, rule gives_check [OF given]) (simp_all add: gives_def)
qed

lemma knows_owned: "knows guard n \<Longrightarrow> knows (owned_guard s guard) n"
proof -
  assume "knows guard n"
  then have "gives (guard cfg) (\<lambda>r. r = Inr () \<longrightarrow> active_seq (x_active (cfg_xray cfg)) = n)" for cfg by (simp add: knows_def)
  note given = this
  show ?thesis
    unfolding knows_def owned_guard_def
    by (rule allI, rule gives_attempt, simp, rule gives_check [OF given]) (simp_all add: gives_def)
qed

text \<open>What a generation leaves.\<close>

definition generated_from :: "deed list \<Rightarrow> active_server option \<Rightarrow> int \<Rightarrow> server list \<Rightarrow> server \<Rightarrow> generated \<Rightarrow> world \<Rightarrow> bool" where
  "generated_from start a n ps s g w \<longleftrightarrow>
     (if gn_done g then chained start a (gn_seq g) (s # ps) w \<and> (gn_error g \<noteq> None \<longrightarrow> gn_seq g = n \<and> gn_error g = Some Err_Other)
      else chained start a n ps w \<and> gn_error g \<noteq> None)"

lemma chained_publish:
  assumes "looks guard" and "active_seq b = n"
  shows "valid (chained start a n ps) (publish_config (guard cfg) b s)
    (\<lambda>r. case r of Inl _ \<Rightarrow> chained start a n ps | Inr _ \<Rightarrow> chained start a n (s # ps))"
proof -
  let ?Q = "\<lambda>r. case r of Inl (_ :: watch_error) \<Rightarrow> chained start a n ps | Inr (_ :: unit) \<Rightarrow> chained start a n (s # ps)"
  have check: "valid (chained start a n ps) (attempt c (\<lambda>_. f)) ?Q" if "quietly c" "valid (chained start a n ps) f ?Q"
    for c :: "(watch_error + unit) act" and f
    by (rule valid_attempt [OF valid_post [OF chained_quiet [OF that(1)]] that(2)]) (auto split: sum.split)
  have failed: "valid (chained start a n ps) (State_Monad.return (Inl e)) ?Q" for e
    by (rule valid_return) simp
  have final: "valid (chained start a n ps) (do { did (Published b s); State_Monad.return (Inr ()) }) ?Q"
    unfolding valid_def
  proof (intro allI impI)
    fix w
    assume "chained start a n ps w"
    then obtain ds where "wd_deeds w = ds @ start" "own_writes a ds" "active_seq (last_record a ds) = n" "published ds = ps"
      unfolding chained_def by blast
    then show "?Q (fst (run_state (do { did (Published b s); State_Monad.return (Inr ()) }) w))
        (snd (run_state (do { did (Published b s); State_Monad.return (Inr ()) }) w))"
      using assms(2) by (auto simp: did_def chained_def intro!: exI [of _ "Published b s # ds"])
  qed
  have "quietly (guard cfg)" by (rule does_silent [OF looks_silent [OF assms(1)]])
  then show ?thesis
    unfolding publish_config_def
    by (intro valid_bind [OF chained_quiet] check valid_option failed final does_intros)
qed

lemma chained_save:
  assumes "active_seq (x_active (cfg_xray cfg)) = n"
  shows "valid (chained start a n (s # ps)) (save_record cfg s) (generated_from start a n ps s)"
  unfolding valid_def chained_def
proof (intro allI impI, elim exE conjE)
  fix w :: world and ds
  assume w: "wd_deeds w = ds @ start" "own_writes a ds" "active_seq (last_record a ds) = n" "published ds = s # ps"
  obtain r where r: "x_active (record_walked_server (cfg_xray cfg) s) = Some r" by (simp add: record_walked_active)
  show "generated_from start a n ps s (fst (run_state (save_record cfg s) w)) (snd (run_state (save_record cfg s) w))"
  proof (cases "ou_save (wd_outside w) (wd_calls w)")
    case True
    let ?ds = "Recorded r # Wrote W_Other # ds"
    have "own_writes a ?ds" "published ?ds = s # ps" "last_record a ?ds = Some r" using w by simp_all
    then show ?thesis
      using True w r by (auto simp: save_record_def Let_def ask_def write_file_def did_def generated_from_def chained_def
          intro!: exI [of _ ?ds])
  next
    case False
    then show ?thesis
      using w assms by (auto simp: save_record_def Let_def ask_def generated_from_def chained_def)
  qed
qed

lemma chained_generate:
  assumes "looks guard" and "knows guard n"
  shows "valid (chained start a n ps) (generate s guard) (generated_from start a n ps s)"
proof -
  have not: "valid (chained start a n ps) (State_Monad.return (not_generated e)) (generated_from start a n ps s)" for e
    by (rule valid_return) (simp add: generated_from_def not_generated_def)
  have guarded: "valid (chained start a n ps)
      (attempt (guard cfg) (\<lambda>_. publish_config (guard cfg) (x_active (cfg_xray cfg)) s))
      (\<lambda>r w. case r of Inl _ \<Rightarrow> chained start a n ps w | Inr _ \<Rightarrow> chained start a n (s # ps) w \<and> active_seq (x_active (cfg_xray cfg)) = n)" for cfg
  proof (cases "active_seq (x_active (cfg_xray cfg)) = n")
    case True
    show ?thesis
      by (rule valid_gate [OF chained_quiet [OF does_silent [OF looks_silent [OF assms(1)]]] valid_post [OF chained_publish [OF assms(1) True]]])
        (auto simp: True split: sum.splits)
  next
    case False
    have "valid (chained start a n ps) (guard cfg) (\<lambda>r w. chained start a n ps w \<and> r \<noteq> Inr ())"
      using False assms(2) chained_quiet [OF does_silent [OF looks_silent [OF assms(1)]], of start a n ps cfg]
      by (auto simp: valid_def knows_def gives_def)
    then show ?thesis by (rule valid_refused) simp
  qed
  have recorded: "valid (\<lambda>w. case r of Inl _ \<Rightarrow> chained start a n ps w
        | Inr _ \<Rightarrow> chained start a n (s # ps) w \<and> active_seq (x_active (cfg_xray cfg)) = n)
      (case r of Inl e \<Rightarrow> State_Monad.return (not_generated e) | Inr _ \<Rightarrow> save_record cfg s) (generated_from start a n ps s)"
    for r :: "watch_error + unit" and cfg
  proof (cases r)
    case (Inr u)
    have "valid (\<lambda>w. chained start a n (s # ps) w \<and> active_seq (x_active (cfg_xray cfg)) = n) (save_record cfg s)
        (generated_from start a n ps s)"
      by (rule valid_cases [of _ "active_seq (x_active (cfg_xray cfg)) = n"], simp)
        (rule valid_pre [OF chained_save], auto)
    with Inr show ?thesis by simp
  qed (simp add: not)
  have recording: "valid (chained start a n ps) (generate_and_record guard s) (generated_from start a n ps s)"
    unfolding generate_and_record_def
    by (intro valid_bind [OF chained_quiet] valid_if not valid_bind [OF guarded recorded] does_intros)
  have noted: "valid (generated_from start a n ps s g) (if b then upd_watch u else State_Monad.return ())
      (\<lambda>_. generated_from start a n ps s g)" for g b u
    by (auto simp: valid_def upd_watch_def generated_from_def chained_def)
  have answer: "valid (generated_from start a n ps s g) (State_Monad.return g) (generated_from start a n ps s)" for g
    by (rule valid_return)
  show ?thesis
    unfolding generate_def
    by (intro valid_bind [OF chained_quiet] valid_if not valid_bind [OF recording] valid_bind [OF noted answer] does_intros)
qed

lemma chained_walked:
  assumes "looks guard" and "knows guard n"
  shows "valid (chained start a n ps) (generate_walked s guard) (generated_from start a n ps s)"
proof -
  have not: "valid (chained start a n ps) (State_Monad.return (not_generated e)) (generated_from start a n ps s)" for e
    by (rule valid_return) (simp add: generated_from_def not_generated_def)
  have noted: "valid (generated_from start a n ps s g) (if b then upd_watch u else State_Monad.return ())
      (\<lambda>_. generated_from start a n ps s g)" for g b u
    by (auto simp: valid_def upd_watch_def generated_from_def chained_def)
  have answer: "valid (generated_from start a n ps s g) (State_Monad.return g) (generated_from start a n ps s)" for g
    by (rule valid_return)
  have owned: "valid (chained start a n ps) (do {
      g \<leftarrow> generate s (owned_guard s guard);
      (if gn_done g then upd_watch (\<lambda>wa. wa\<lparr>wa_fast := map_option (fast_record s g) (wa_fast wa)\<rparr>) else State_Monad.return ());
      State_Monad.return g }) (generated_from start a n ps s)"
    by (rule valid_bind [OF chained_generate [OF looks_owned [OF assms(1)] knows_owned [OF assms(2)]] valid_bind [OF noted answer]])
  show ?thesis
    unfolding generate_walked_def
    by (intro valid_bind [OF chained_quiet] valid_if valid_sum not owned chained_generate assms does_intros)
qed

section \<open>A walk\<close>

lemma valid_quiet:
  assumes "valid P f Q" and "quietly c" and "valid P c (\<lambda>_. P)"
  shows "valid P (State_Monad.bind c (\<lambda>_. f)) Q"
  by (rule valid_bind [OF assms(3,1)])

text \<open>The connections of the servers published, those without one left out.\<close>

definition connections :: "server list \<Rightarrow> string list" where
  "connections ps = filter (\<lambda>k. k \<noteq> []) (map dial_key ps)"

lemma connections_Cons: "connections (s # ps) = (if dial_key s = [] then connections ps else dial_key s # connections ps)"
  by (simp add: connections_def)

definition walk_inv :: "deed list \<Rightarrow> active_server option \<Rightarrow> nat \<Rightarrow> walking \<Rightarrow> world \<Rightarrow> bool" where
  "walk_inv start a N wk w \<longleftrightarrow>
     (\<exists>ps. chained start a (wk_seq wk) ps w \<and> distinct (connections ps) \<and> set (connections ps) \<subseteq> set (wk_seen wk) \<and> length ps \<le> N)"

definition walk_done :: "deed list \<Rightarrow> active_server option \<Rightarrow> nat \<Rightarrow> world \<Rightarrow> bool" where
  "walk_done start a N w \<longleftrightarrow> (\<exists>n ps. chained start a n ps w \<and> distinct (connections ps) \<and> length ps \<le> N)"

lemma walk_inv_done: "walk_inv start a N wk w \<Longrightarrow> walk_done start a N w"
  by (auto simp: walk_inv_def walk_done_def)

lemma walk_inv_more: "walk_inv start a N wk w \<Longrightarrow> N \<le> M \<Longrightarrow> walk_inv start a M wk w"
  unfolding walk_inv_def using le_trans by blast

lemma walk_done_more: "walk_done start a N w \<Longrightarrow> N \<le> M \<Longrightarrow> walk_done start a M w"
  unfolding walk_done_def using le_trans by blast

lemma quiet_inv:
  assumes "quietly c"
  shows "valid (walk_inv start a N wk) c (\<lambda>_. walk_inv start a N wk)" "valid (walk_done start a N) c (\<lambda>_. walk_done start a N)"
  using chained_quiet [OF assms] unfolding valid_def walk_inv_def walk_done_def by blast+

lemma knows_walk_guard: "knows (guard_of_walk plan wk sid) (wk_seq wk)"
  by (simp add: guard_of_walk_def knows_walk)

lemma quiet_evidence [does_intros]: "does p (walk_evidence servers cfg)"
  unfolding walk_evidence_def by (intro does_intros)

lemma quiet_pick: "quietly (pick_copy plan wk s)"
proof -
  have "quietly (commit_restore (wp_cfg plan) (guard_of_walk plan wk []))"
    by (rule quiet_restore [OF looks_silent [OF looks_of_walk]])
  then show ?thesis
    unfolding pick_copy_def note_landing_def announce_restored_def by (intro does_intros)
qed

lemma generated_inv:
  assumes g: "generated_from start a (wk_seq wk) ps s g w"
    and ps: "distinct (connections ps)" "set (connections ps) \<subseteq> set (wk_seen wk)" "length ps \<le> N"
    and new: "dial_key s = [] \<or> dial_key s \<notin> set (wk_seen wk)"
  shows "if gn_done g then walk_inv start a (Suc N) (tried_copy s g wk) w \<and> gn_error g \<noteq> Some Err_Gone else walk_inv start a N wk w"
proof (cases "gn_done g")
  case True
  then have "chained start a (gn_seq g) (s # ps) w" "gn_error g \<noteq> Some Err_Gone"
    using g by (auto simp: generated_from_def)
  moreover have "distinct (connections (s # ps))" "set (connections (s # ps)) \<subseteq> set (wk_seen (tried_copy s g wk))"
    using ps new by (auto simp: connections_Cons tried_copy_def)
  moreover have "wk_seq (tried_copy s g wk) = gn_seq g" "length (s # ps) \<le> Suc N" using ps by (simp_all add: tried_copy_def)
  ultimately show ?thesis using True unfolding walk_inv_def by auto
next
  case False
  then show ?thesis using g ps by (auto simp: generated_from_def walk_inv_def)
qed

lemma walk_generated:
  assumes "dial_key s = [] \<or> dial_key s \<notin> set (wk_seen wk)"
  shows "valid (walk_inv start a N wk) (generate_walked s (guard_of_walk plan wk (sv_subscription s)))
    (\<lambda>g w. if gn_done g then walk_inv start a (Suc N) (tried_copy s g wk) w \<and> gn_error g \<noteq> Some Err_Gone else walk_inv start a N wk w)"
  unfolding valid_def
proof (intro allI impI)
  fix w
  assume "walk_inv start a N wk w"
  then obtain ps where ps: "chained start a (wk_seq wk) ps w" "distinct (connections ps)"
      "set (connections ps) \<subseteq> set (wk_seen wk)" "length ps \<le> N"
    unfolding walk_inv_def by blast
  let ?r = "run_state (generate_walked s (guard_of_walk plan wk (sv_subscription s))) w"
  have "generated_from start a (wk_seq wk) ps s (fst ?r) (snd ?r)"
    using chained_walked [OF looks_of_walk knows_walk_guard] ps(1) unfolding valid_def by blast
  from generated_inv [OF this ps(2-4) assms]
  show "if gn_done (fst ?r) then walk_inv start a (Suc N) (tried_copy s (fst ?r) wk) (snd ?r) \<and> gn_error (fst ?r) \<noteq> Some Err_Gone
      else walk_inv start a N wk (snd ?r)" .
qed

lemma tried_gone: "walk_inv start a N (wk\<lparr>wk_gone := g\<rparr>) = walk_inv start a N wk"
  by (simp add: walk_inv_def fun_eq_iff)

definition walk_on :: "deed list \<Rightarrow> active_server option \<Rightarrow> nat \<Rightarrow> walking option \<Rightarrow> world \<Rightarrow> bool" where
  "walk_on start a N r = (case r of None \<Rightarrow> walk_done start a N | Some wk \<Rightarrow> walk_inv start a N wk)"

text \<open>What \<open>try_copy\<close> does once the live file is the copy's.\<close>

definition probe_copy :: "walk_plan \<Rightarrow> walking \<Rightarrow> server \<Rightarrow> walking option act" where
  "probe_copy plan wk s = do {
     over \<leftarrow> context_ended;
     if over then State_Monad.return None
     else do {
       r \<leftarrow> restart_xray;
       (case r of
          Inl e \<Rightarrow> do {
            over \<leftarrow> any_of [walk_ended (Some e), mutation_ended];
            State_Monad.return (if over then None else Some wk) }
        | Inr _ \<Rightarrow> do {
            over \<leftarrow> mutation_ended;
            if over then State_Monad.return None
            else do {
              ok \<leftarrow> probe_now;
              over \<leftarrow> mutation_ended;
              if over then State_Monad.return None
              else if \<not> ok then State_Monad.return (Some wk)
              else do { pick_copy plan wk s; State_Monad.return None } } }) } }"

lemma try_copy_probes:
  "try_copy plan wk s = do {
     g \<leftarrow> generate_walked s (guard_of_walk plan wk (sv_subscription s));
     if gn_error g = Some Err_Gone then State_Monad.return (Some (wk\<lparr>wk_gone := sv_subscription s # wk_gone wk\<rparr>))
     else do {
       over \<leftarrow> walk_ended (gn_error g);
       if over then State_Monad.return None
       else if \<not> gn_done g then State_Monad.return (Some wk)
       else probe_copy plan (tried_copy s g wk) s } }"
  unfolding try_copy_def probe_copy_def Let_def by (rule refl)

lemma walk_tried:
  assumes "dial_key s = [] \<or> dial_key s \<notin> set (wk_seen wk)"
  shows "valid (walk_inv start a N wk) (try_copy plan wk s) (walk_on start a (Suc N))"
proof -
  have stop: "valid (walk_inv start a M wk') (State_Monad.return None) (walk_on start a M)" for M wk'
    by (rule valid_return) (simp add: walk_on_def walk_inv_done)
  have go: "valid (walk_inv start a M wk') (State_Monad.return (Some wk')) (walk_on start a M)" for M wk'
    by (rule valid_return) (simp add: walk_on_def)
  have pick: "valid (walk_inv start a M wk') (State_Monad.bind (pick_copy plan wk' s) (\<lambda>_. State_Monad.return None)) (walk_on start a M)" for M wk'
    by (rule valid_bind [OF quiet_inv(1) [OF quiet_pick] stop])
  have probe: "valid (walk_inv start a M wk') (probe_copy plan wk' s) (walk_on start a M)" for M wk'
    unfolding probe_copy_def
    by (intro valid_bind [OF quiet_inv(1)] valid_if valid_sum stop go pick does_intros) (auto simp: stop go)
  have less: "walk_on start a (Suc N) r w" if "walk_on start a N r w" for r w
    using that by (auto simp: walk_on_def intro: walk_inv_more walk_done_more split: option.splits)
  have failed: "valid (walk_inv start a N wk) (State_Monad.return (Some wk)) (walk_on start a (Suc N))"
    by (rule valid_post [OF go]) (rule less)
  have ended: "valid (walk_inv start a N wk) (State_Monad.return None) (walk_on start a (Suc N))"
    by (rule valid_post [OF stop]) (rule less)
  have gone: "valid (walk_inv start a N wk) (State_Monad.return (Some (wk\<lparr>wk_gone := gs\<rparr>))) (walk_on start a (Suc N))" for gs
    using failed by (simp add: valid_def walk_on_def tried_gone)
  have tail: "valid (\<lambda>w. if gn_done g then walk_inv start a (Suc N) (tried_copy s g wk) w \<and> gn_error g \<noteq> Some Err_Gone else walk_inv start a N wk w)
      (if gn_error g = Some Err_Gone then State_Monad.return (Some (wk\<lparr>wk_gone := sv_subscription s # wk_gone wk\<rparr>))
       else do {
         over \<leftarrow> walk_ended (gn_error g);
         if over then State_Monad.return None
         else if \<not> gn_done g then State_Monad.return (Some wk)
         else probe_copy plan (tried_copy s g wk) s }) (walk_on start a (Suc N))" for g
  proof (cases "gn_done g")
    case True
    have "valid (walk_inv start a (Suc N) (tried_copy s g wk)) (do {
         over \<leftarrow> walk_ended (gn_error g);
         if over then State_Monad.return None else probe_copy plan (tried_copy s g wk) s }) (walk_on start a (Suc N))"
      by (intro valid_bind [OF quiet_inv(1)] valid_if stop probe does_intros)
    with True show ?thesis by (cases "gn_error g = Some Err_Gone") (auto simp: valid_def)
  next
    case False
    have "valid (walk_inv start a N wk) (do {
         over \<leftarrow> walk_ended (gn_error g);
         if over then State_Monad.return None else State_Monad.return (Some wk) }) (walk_on start a (Suc N))"
      by (intro valid_bind [OF quiet_inv(1)] valid_if ended failed does_intros)
    with False gone show ?thesis by simp
  qed
  show ?thesis
    unfolding try_copy_probes by (rule valid_bind [OF walk_generated [OF assms] tail])
qed

lemma walk_on_more: "walk_on start a N r w \<Longrightarrow> N \<le> M \<Longrightarrow> walk_on start a M r w"
  by (auto simp: walk_on_def intro: walk_inv_more walk_done_more split: option.splits)

lemma walk_looped: "valid (walk_inv start a N wk) (walk_loop plan wk remaining) (walk_on start a (N + length remaining))"
proof (induction plan wk remaining arbitrary: N rule: walk_loop.induct)
  case (1 plan wk remaining)
  have stop: "valid (walk_inv start a N wk) (State_Monad.return None) (walk_on start a (N + length remaining))"
    by (rule valid_return) (auto simp: walk_on_def intro: walk_inv_done walk_done_more)
  have go: "valid (walk_inv start a N wk) (State_Monad.return (Some wk)) (walk_on start a (N + length remaining))"
    by (rule valid_return) (auto simp: walk_on_def intro: walk_inv_more)
  have next_one: "valid (walk_inv start a N wk) (do {
      tried \<leftarrow> try_copy plan wk s;
      (case tried of
         None \<Rightarrow> State_Monad.return None
       | Some wk \<Rightarrow> walk_loop plan wk (without_copy s (untried wk0 remaining))) }) (walk_on start a (N + length remaining))"
    if s: "remaining \<noteq> []" "\<not> over" "pending = untried wk remaining" "order_best pending (wp_ref plan) (fresh_of l) = s # rest" "wk0 = wk"
    for s over pending l rest wk0
  proof -
    have "s \<in> set pending" using s(4) order_best_subset [of pending "wp_ref plan" "fresh_of l"] by auto
    then have mem: "s \<in> set (untried wk remaining)" "dial_key s = [] \<or> dial_key s \<notin> set (wk_seen wk)"
      using s(3) by (auto simp: untried_def)
    have "length (without_copy s (untried wk remaining)) < length (untried wk remaining)"
      by (rule without_copy_shorter [OF mem(1)])
    moreover have "length (untried wk remaining) \<le> length remaining" by (simp add: untried_def)
    ultimately have len: "Suc N + length (without_copy s (untried wk remaining)) \<le> N + length remaining" by simp
    have tail: "valid (walk_on start a (Suc N) tried)
        (case tried of None \<Rightarrow> State_Monad.return None
         | Some wk' \<Rightarrow> walk_loop plan wk' (without_copy s (untried wk remaining))) (walk_on start a (N + length remaining))" for tried
    proof (cases tried)
      case None
      have "walk_on start a (N + length remaining) None w" if "walk_on start a (Suc N) None w" for w
        by (rule walk_on_more [OF that]) (use s(1) in \<open>cases remaining, simp_all\<close>)
      with None show ?thesis by (auto simp: valid_def)
    next
      case (Some wk')
      have "valid (walk_inv start a (Suc N) wk') (walk_loop plan wk' (without_copy s (untried wk remaining)))
          (walk_on start a (Suc N + length (without_copy s (untried wk remaining))))"
        using 1 [OF s(1,2) refl s(4) [unfolded s(3)] Some] by blast
      then have "valid (walk_inv start a (Suc N) wk') (walk_loop plan wk' (without_copy s (untried wk remaining)))
          (walk_on start a (N + length remaining))"
        by (rule valid_post) (rule walk_on_more [OF _ len])
      with Some show ?thesis by (simp add: walk_on_def)
    qed
    show ?thesis unfolding s(5) by (rule valid_bind [OF walk_tried [OF mem(2)] tail])
  qed
  have best: "valid (walk_inv start a N wk) (case order_best (untried wk remaining) (wp_ref plan) (fresh_of l) of
        [] \<Rightarrow> State_Monad.return (Some wk)
      | s # _ \<Rightarrow> do {
          tried \<leftarrow> try_copy plan wk s;
          (case tried of
             None \<Rightarrow> State_Monad.return None
           | Some wk' \<Rightarrow> walk_loop plan wk' (without_copy s (untried wk remaining))) }) (walk_on start a (N + length remaining))"
    if "remaining \<noteq> []" "\<not> over" for l over
    by (cases "order_best (untried wk remaining) (wp_ref plan) (fresh_of l)") (use go next_one [OF that refl _ refl] in simp_all)
  show ?case
  proof (cases "remaining = []")
    case True
    with go show ?thesis by (simp add: walk_loop.simps [of plan wk "[]"])
  next
    case False
    show ?thesis
      unfolding walk_loop.simps [of plan wk remaining] Let_def
      by (simp only: False if_False, intro valid_bind [OF quiet_inv(1)] valid_if stop best [OF False] does_intros)
  qed
qed

text \<open>Back on the preferred server: one more publication, of a connection the walk has tried.\<close>

definition back_done :: "deed list \<Rightarrow> active_server option \<Rightarrow> nat \<Rightarrow> world \<Rightarrow> bool" where
  "back_done start a N w \<longleftrightarrow>
     (\<exists>n back ps. chained start a n (back @ ps) w \<and> length back \<le> 1 \<and> distinct (connections ps) \<and> length ps \<le> N)"

lemma quiet_back: "quietly c \<Longrightarrow> valid (back_done start a N) c (\<lambda>_. back_done start a N)"
  using chained_quiet unfolding valid_def back_done_def by blast

lemma walk_done_back: "walk_done start a N w \<Longrightarrow> back_done start a N w"
  unfolding walk_done_def back_done_def by (metis append_Nil le_numeral_extra(1) list.size(3) zero_le)

lemma back_generated:
  "valid (walk_inv start a N wk) (generate_walked s (guard_of_walk plan wk sid)) (\<lambda>_. back_done start a N)"
  unfolding valid_def
proof (intro allI impI)
  fix w
  assume "walk_inv start a N wk w"
  then obtain ps where ps: "chained start a (wk_seq wk) ps w" "distinct (connections ps)" "length ps \<le> N"
    unfolding walk_inv_def by blast
  let ?r = "run_state (generate_walked s (guard_of_walk plan wk sid)) w"
  have "generated_from start a (wk_seq wk) ps s (fst ?r) (snd ?r)"
    using chained_walked [OF looks_of_walk knows_walk_guard] ps(1) unfolding valid_def by blast
  then have "\<exists>n. chained start a n ([s] @ ps) (snd ?r) \<or> chained start a n ([] @ ps) (snd ?r)"
    by (auto simp: generated_from_def split: if_splits)
  then show "back_done start a N (snd ?r)" using ps(2,3) unfolding back_done_def by fastforce
qed

lemma back_returned: "valid (walk_inv start a N wk) (return_to_preferred s (guard_of_walk plan wk sid)) (\<lambda>_. back_done start a N)"
proof -
  have "valid (back_done start a N) (State_Monad.return x) (\<lambda>_. back_done start a N)" for x :: "watch_error option"
    by (rule valid_return)
  note this [intro]
  show ?thesis
    unfolding return_to_preferred_def
    by (intro valid_bind [OF back_generated] valid_option valid_if valid_bind [OF quiet_back] does_intros) auto
qed

lemma walk_gone_back: "valid (walk_inv start a N wk) (walk_back plan wk preferred) (\<lambda>_. back_done start a N)"
proof -
  have stay: "valid (walk_inv start a N wk) (State_Monad.return b) (\<lambda>_. back_done start a N)" for b :: bool
    by (rule valid_return) (auto intro: walk_inv_done walk_done_back)
  have leave: "valid (back_done start a N) (State_Monad.return b) (\<lambda>_. back_done start a N)" for b :: bool
    by (rule valid_return)
  show ?thesis
    unfolding walk_back_def
    by (intro valid_option valid_if stay valid_bind [OF back_returned] valid_bind [OF quiet_back] leave does_intros)
qed

lemma walk_none_found: "valid (walk_inv start a N wk) (walk_found_none plan wk preferred) (\<lambda>_. back_done start a N)"
proof -
  have stay: "valid (walk_inv start a N wk) (State_Monad.return ()) (\<lambda>_. back_done start a N)"
    by (rule valid_return) (auto intro: walk_inv_done walk_done_back)
  have leave: "valid (back_done start a N) (State_Monad.return ()) (\<lambda>_. back_done start a N)"
    by (rule valid_return)
  have tail: "valid (back_done start a N) (do {
      now \<leftarrow> time_now;
      (if 0 < wk_tried wk then upd_watch (back_off_import now) else State_Monad.return ());
      notify Note_No_Live (no_live_text (wp_cfg plan)) }) (\<lambda>_. back_done start a N)"
    by (rule quiet_back) (intro does_intros)
  show ?thesis
    unfolding walk_found_none_def
    by (intro valid_bind [OF quiet_inv(1)] valid_if stay valid_bind [OF walk_gone_back] leave tail does_intros)
qed

lemma walk_chained:
  assumes "wd_deeds w = start"
  shows "back_done start (x_active (cfg_xray cfg)) (length (per_address (fst (walk_order subs (choice_of (cfg_xray cfg))))))
    (snd (run_state (walk cfg subs) w))"
proof -
  let ?a = "x_active (cfg_xray cfg)"
  obtain order first where o: "walk_order subs (choice_of (cfg_xray cfg)) = (order, first)" by fastforce
  have init: "walk_inv start ?a 0 (walk_from cfg) w"
    unfolding walk_inv_def chained_def
    by (intro exI [of _ "[]"] conjI) (use assms in \<open>simp_all add: walk_from_def connections_def\<close>)
  have tail: "valid (walk_on start ?a (0 + length (per_address order)) r)
      (case r of None \<Rightarrow> State_Monad.return () | Some wk \<Rightarrow> walk_found_none (plan_of_walk cfg subs) wk p)
      (\<lambda>_. back_done start ?a (length (per_address order)))" for r p
    by (cases r) (auto simp: walk_on_def walk_none_found intro!: valid_return walk_done_back)
  have "valid (walk_inv start ?a 0 (walk_from cfg)) (walk cfg subs) (\<lambda>_. back_done start ?a (length (per_address order)))"
    unfolding walk_def Let_def o case_prod_conv by (rule valid_bind [OF walk_looped tail])
  with init show ?thesis unfolding valid_def o by simp
qed

section \<open>A return\<close>

definition own_inv :: "deed list \<Rightarrow> active_server option \<Rightarrow> int \<Rightarrow> world \<Rightarrow> bool" where
  "own_inv start a n w \<longleftrightarrow> (\<exists>ps. chained start a n ps w)"

definition own_done :: "deed list \<Rightarrow> active_server option \<Rightarrow> world \<Rightarrow> bool" where
  "own_done start a w \<longleftrightarrow> (\<exists>n. own_inv start a n w)"

lemma quiet_own:
  assumes "quietly c"
  shows "valid (own_inv start a n) c (\<lambda>_. own_inv start a n)" "valid (own_done start a) c (\<lambda>_. own_done start a)"
  using chained_quiet [OF assms] unfolding valid_def own_inv_def own_done_def by blast+

lemma own_walked:
  assumes "looks guard" and "knows guard n"
  shows "valid (own_inv start a n) (generate_walked s guard)
    (\<lambda>g w. if gn_done g then own_inv start a (gn_seq g) w \<and> (gn_error g \<noteq> None \<longrightarrow> gn_seq g = n) else own_inv start a n w)"
  using chained_walked [OF assms] unfolding valid_def own_inv_def generated_from_def by (metis (no_types, lifting))

lemma quiet_restart: "quietly restart_and_probe"
  unfolding restart_and_probe_def by (intro does_intros)

lemma own_switched:
  "valid (own_inv start a (sw_seq sw)) (switch_to sw c holds) (\<lambda>r. own_inv start a (sw_seq (snd r)))"
proof -
  let ?P = "own_inv start a (sw_seq sw)" and ?Q = "\<lambda>r. own_inv start a (sw_seq (snd r))"
  have ret: "valid ?P (State_Monad.return (e, sw)) ?Q" for e :: switch_end
    by (rule valid_return) simp
  have tail: "valid (\<lambda>w. if gn_done g then own_inv start a (gn_seq g) w \<and> (gn_error g \<noteq> None \<longrightarrow> gn_seq g = sw_seq sw) else ?P w)
      (do {
         over \<leftarrow> (case gn_error g of
            None \<Rightarrow> State_Monad.return False
          | Some e \<Rightarrow> any_of [State_Monad.return (ends_walk e), outbound_refuses]);
         if over then State_Monad.return (Sw_Ended, sw)
         else if gn_error g = Some Err_Gone then State_Monad.return (Sw_Gone, sw)
         else if \<not> gn_done g then State_Monad.return (Sw_Failed, sw)
         else do { r \<leftarrow> restart_and_probe; State_Monad.return (r, switched g c sw) } }) ?Q" for g
  proof (cases "gn_done g \<and> gn_error g = None")
    case True
    have "valid (own_inv start a (gn_seq g)) (do { r \<leftarrow> restart_and_probe; State_Monad.return (r, switched g c sw) }) ?Q"
      by (intro valid_bind [OF quiet_own(1) [OF quiet_restart]] valid_return) (simp add: switched_def)
    with True show ?thesis by simp
  next
    case False
    have move: "valid ?P (do { r \<leftarrow> restart_and_probe; State_Monad.return (r, switched g c sw) }) ?Q" if "gn_seq g = sw_seq sw"
      by (intro valid_bind [OF quiet_own(1) [OF quiet_restart]] valid_return) (simp add: switched_def that)
    have "valid ?P (do {
         over \<leftarrow> (case gn_error g of
            None \<Rightarrow> State_Monad.return False
          | Some e \<Rightarrow> any_of [State_Monad.return (ends_walk e), outbound_refuses]);
         if over then State_Monad.return (Sw_Ended, sw)
         else if gn_error g = Some Err_Gone then State_Monad.return (Sw_Gone, sw)
         else if \<not> gn_done g then State_Monad.return (Sw_Failed, sw)
         else do { r \<leftarrow> restart_and_probe; State_Monad.return (r, switched g c sw) } }) ?Q"
      if "gn_done g \<Longrightarrow> gn_seq g = sw_seq sw"
      by (intro valid_bind [OF quiet_own(1)] valid_if ret move that does_intros) simp
    with False show ?thesis by (cases "gn_done g"; cases "gn_seq g = sw_seq sw") (auto simp: valid_def)
  qed
  show ?thesis
    unfolding switch_to_def Let_def case_prod_beta
    by (intro valid_bind [OF quiet_own(1)] valid_if ret valid_bind [OF own_walked [OF looks_walk knows_walk] tail] does_intros)
qed

lemma own_through: "valid (own_inv start a (sw_seq sw)) (switch_through sw holds cs) (\<lambda>r. own_inv start a (sw_seq (snd r)))"
proof (induction cs arbitrary: sw holds)
  case Nil
  show ?case by (simp add: valid_return)
next
  case (Cons c cs)
  have ret: "valid (own_inv start a (sw_seq sw')) (State_Monad.return (e, sw')) (\<lambda>r. own_inv start a (sw_seq (snd r)))"
    for e :: run_end and sw' by (rule valid_return) simp
  show ?case
    unfolding switch_through.simps
    by (rule valid_bind [OF own_switched]) (auto intro!: ret Cons.IH split: prod.split switch_end.split)
qed

lemma return_chained:
  assumes "wd_deeds w = start"
  shows "own_done start (x_active (cfg_xray cfg)) (snd (run_state (try_return cfg subs servers candidates grp) w))"
proof -
  let ?a = "x_active (cfg_xray cfg)"
  have init: "own_inv start ?a (active_seq ?a) w"
    unfolding own_inv_def chained_def by (intro exI [of _ "[]"] conjI) (use assms in simp_all)
  have fin: "own_inv start ?a n w' \<Longrightarrow> own_done start ?a w'" for n w' by (auto simp: own_done_def)
  have keep: "valid (own_inv start ?a n) (keep_return names sw c grp) (\<lambda>_. own_done start ?a)" for n names sw c
  proof -
    have "quietly (keep_return names sw c grp)" unfolding keep_return_def by (intro does_intros)
    then show ?thesis by (rule valid_post [OF quiet_own(1)]) (rule fin)
  qed
  have give: "valid (own_inv start ?a (sw_seq sw)) (give_up_return sw rolled) (\<lambda>_. own_done start ?a)" for sw rolled
  proof -
    have stay: "valid (own_inv start ?a n) (State_Monad.return ()) (\<lambda>_. own_done start ?a)" for n
      by (rule valid_return) (rule fin)
    have "valid (own_inv start ?a n) (upd_watch f) (\<lambda>_. own_done start ?a)" for n f
      by (rule valid_post [OF quiet_own(1)]) (auto intro: does_intros fin)
    then show ?thesis
      unfolding give_up_return_def
      by (intro valid_bind [OF quiet_own(1)] valid_if stay does_intros valid_bind [OF own_through]) (auto intro!: stay split: prod.split run_end.split)
  qed
  have "valid (own_inv start ?a (active_seq ?a)) (try_return cfg subs servers candidates grp) (\<lambda>_. own_done start ?a)"
  proof -
    have stay: "valid (own_inv start ?a n) (State_Monad.return ()) (\<lambda>_. own_done start ?a)" for n
      by (rule valid_return) (rule fin)
    have "sw_seq (new_switcher cfg subs) = active_seq ?a" by (simp add: new_switcher_def)
    note through = own_through [of start ?a "new_switcher cfg subs", unfolded this]
    show ?thesis
      unfolding try_return_def Let_def
      by (intro valid_bind [OF quiet_own(1)] valid_if stay does_intros valid_bind [OF through]) (auto intro!: stay keep give split: prod.split run_end.split)
  qed
  with init show ?thesis unfolding valid_def by blast
qed

section \<open>The properties\<close>

text \<open>
  C3: a walk never overwrites a selection somebody else made meanwhile: every time it replaces Xray's
  configuration, the file holds the counter of the record the walk started from, or of the last record
  it wrote itself - whatever the other writers do between its steps, and also when it goes back to the
  preferred server in the end.
\<close>

theorem walk_spares_newer_selection:
  "\<exists>ds. wd_deeds (snd (run_state (walk cfg subs) w)) = ds @ wd_deeds w \<and> own_writes (x_active (cfg_xray cfg)) ds"
  using walk_chained [of w "wd_deeds w" cfg subs, OF refl] unfolding back_done_def chained_def by blast


text \<open>
  C28: a return to the preferred server or to its group, with the switches that roll a failed one back,
  never overwrites a selection somebody else made meanwhile.
\<close>

theorem return_spares_newer_selection:
  "\<exists>ds. wd_deeds (snd (run_state (try_return cfg subs servers candidates grp) w)) = ds @ wd_deeds w
     \<and> own_writes (x_active (cfg_xray cfg)) ds"
  using return_chained [of w "wd_deeds w" cfg subs servers candidates grp, OF refl] unfolding own_done_def own_inv_def chained_def by blast

end
