(* ===== verification/Note_Events.thy ===== *)
theory Note_Events
  imports Endpoint Monitor_Entry Substore "HOL-Library.Word"
begin

text \<open>
  The notification store (\<^verbatim>\<open>notifications/store.go\<close>, \<^verbatim>\<open>recipients.go\<close>,
  \<^verbatim>\<open>subscription_health.go\<close>, \<^verbatim>\<open>persist.go\<close>), as far as it works in memory: the events
  the watch published, the queue of every chat, what each chat acknowledged, and the stretches of code
  between taking and releasing the store's mutex. Each of these is a function on the record of the
  store, and what is saved is another record with what a restart reads back.
\<close>

section \<open>Identifiers\<close>

type_synonym u64 = "64 word"

definition max_per_chat :: nat where "max_per_chat = 20"
definition max_recent :: nat where "max_recent = 20"
definition max_age :: int where "max_age = 12 * 60 * minute"
definition page_size :: nat where "page_size = 100"
definition max_page_bytes :: nat where "max_page_bytes = 16 * 2 ^ 20"
definition max_cursor_length :: nat where "max_cursor_length = 256"
definition sequence_reserve :: u64 where "sequence_reserve = 4294967296"

definition epoch_char :: "char \<Rightarrow> bool" where
  "epoch_char c \<longleftrightarrow> (48 \<le> byte c \<and> byte c \<le> 57) \<or> (97 \<le> byte c \<and> byte c \<le> 102)"

definition valid_epoch :: "string \<Rightarrow> bool" where
  "valid_epoch e \<longleftrightarrow> length e = 32 \<and> list_all epoch_char e"

text \<open>\<^verbatim>\<open>strconv.ParseUint\<close> in base 10 and 64 bits.\<close>

definition parse_uint64 :: "string \<Rightarrow> u64 option" where
  "parse_uint64 s = (case parse_nat s of None \<Rightarrow> None | Some n \<Rightarrow> if n < 2 ^ 64 then Some (word_of_nat n) else None)"

definition show_uint64 :: "u64 \<Rightarrow> string" where
  "show_uint64 n = show_nat (unat n)"

definition make_event_id :: "string \<Rightarrow> u64 \<Rightarrow> string" where
  "make_event_id e n = e @ CHR '':'' # show_uint64 n"

definition parse_event_id :: "string \<Rightarrow> (string \<times> u64) option" where
  "parse_event_id v =
     (if length v < 34 \<or> 53 < length v \<or> v ! 32 \<noteq> CHR '':'' then None
      else if \<not> list_all epoch_char (take 32 v) then None
      else case parse_uint64 (drop 33 v) of
        None \<Rightarrow> None
      | Some n \<Rightarrow> if n = 0 \<or> show_uint64 n \<noteq> drop 33 v then None else Some (take 32 v, n))"

definition event_sequence :: "string \<Rightarrow> u64" where
  "event_sequence v = (case parse_event_id v of None \<Rightarrow> 0 | Some (e, n) \<Rightarrow> n)"

section \<open>Events\<close>

record stored_event =
  ne_id :: string
  ne_at :: int
  ne_text :: string

record recipient =
  rc_chat :: int
  rc_first :: int

definition bounded_step :: "int \<Rightarrow> nat \<Rightarrow> (stored_event \<Rightarrow> bool) \<Rightarrow> stored_event list \<Rightarrow> stored_event \<Rightarrow> stored_event list" where
  "bounded_step now limit keep kept e =
     (if max_age < sub_time now (ne_at e) \<or> \<not> keep e then kept
      else if length kept = limit then tl kept @ [e]
      else kept @ [e])"

definition bounded_events :: "stored_event list \<Rightarrow> int \<Rightarrow> nat \<Rightarrow> (stored_event \<Rightarrow> bool) \<Rightarrow> stored_event list" where
  "bounded_events events now limit keep = foldl (bounded_step now limit keep) [] events"

section \<open>The store\<close>

datatype note_error =
    N_Read | N_Corrupt | N_Backup | N_Write | N_Sync | N_Rename | N_Encoding | N_Identity | N_Sequence
  | N_Cursor | N_Event_Id | N_Page_Size | N_Unavailable | N_Reserve_Unsaved | N_Deferred | N_Path | N_Stuck

text \<open>
  What a call returns as its error: nothing for nil, the joined errors otherwise. The code joins with
  \<^verbatim>\<open>errors.Join\<close> and asks \<^verbatim>\<open>errors.Is\<close>, which is membership. \<open>N_Path\<close> is any error of
  the resolver of the path; \<open>N_Stuck\<close> is no error of the code, it marks a loop that ran out of rounds.
\<close>

type_synonym note_errors = "note_error list"

record saved_state =
  ss_version :: int
  ss_epoch :: string
  ss_sequence :: u64
  ss_reserved :: u64
  ss_recent :: "stored_event list"
  ss_recipients :: "(int \<times> recipient) list"
  ss_pending :: "(int \<times> stored_event list) list"
  ss_closed :: "(int \<times> (string \<times> int) list) list"
  ss_health :: "(string \<times> string) list"

text \<open>
  \<^verbatim>\<open>nt_open\<close> is a \<^verbatim>\<open>resolve\<close> that is nil. \<^verbatim>\<open>nt_log\<close> is no field of the code:
  it is the history of the store, the latest first, that the properties speak of - an identifier handed
  out, and a state that replaced the file, with whether the directory was synced too.
\<close>

datatype note_deed = Issued string u64 | Replaced saved_state bool

record note_store =
  nt_path :: string
  nt_epoch :: string
  nt_sequence :: u64
  nt_reserved :: u64
  nt_revision :: u64
  nt_saved :: u64
  nt_recent :: "stored_event list"
  nt_recipients :: "(int \<times> recipient) list"
  nt_pending :: "(int \<times> stored_event list) list"
  nt_closed :: "(int \<times> (string \<times> int) list) list"
  nt_health :: "(string \<times> string) list"
  nt_error :: note_errors
  nt_open :: bool
  nt_backlog :: "stored_event list"
  nt_backup :: bool
  nt_log :: "note_deed list"

definition new_store :: "string \<Rightarrow> note_store" where
  "new_store path =
     \<lparr>nt_path = path, nt_epoch = [], nt_sequence = 0, nt_reserved = sequence_reserve, nt_revision = 1, nt_saved = 0,
      nt_recent = [], nt_recipients = [], nt_pending = [], nt_closed = [], nt_health = [], nt_error = [],
      nt_open = True, nt_backlog = [], nt_backup = False, nt_log = []\<rparr>"

definition touched :: "bool \<Rightarrow> note_store \<Rightarrow> note_store" where
  "touched changed s = (if changed then s\<lparr>nt_revision := nt_revision s + 1\<rparr> else s)"

subsection \<open>Pruning\<close>

definition prune_closed :: "string list \<Rightarrow> (int \<times> (string \<times> int) list) list \<Rightarrow> (int \<times> (string \<times> int) list) list" where
  "prune_closed live acked =
     filter (\<lambda>cp. snd cp \<noteq> []) (map (\<lambda>(chat, progress). (chat, filter (\<lambda>(key, now). key \<in> set live) progress)) acked)"

definition is_closed :: "(int \<times> (string \<times> int) list) list \<Rightarrow> int \<Rightarrow> string \<Rightarrow> bool" where
  "is_closed acked chat key = (case map_of acked chat of None \<Rightarrow> False | Some progress \<Rightarrow> map_of progress key \<noteq> None)"

fun prune_pending ::
  "int \<Rightarrow> (int \<times> recipient) list \<Rightarrow> (int \<times> (string \<times> int) list) list \<Rightarrow> (int \<times> stored_event list) list
     \<Rightarrow> (int \<times> stored_event list) list"
where
  "prune_pending now recipients acked [] = []"
| "prune_pending now recipients acked ((chat, queue) # rest) =
     (case map_of recipients chat of
        None \<Rightarrow> prune_pending now recipients acked rest
      | Some r \<Rightarrow>
          let kept = bounded_events queue now max_per_chat (\<lambda>e. \<not> is_closed acked chat (ne_id e) \<and> rc_first r \<le> ne_at e) in
          if kept = [] then prune_pending now recipients acked rest
          else (chat, kept) # prune_pending now recipients acked rest)"

definition prune :: "int \<Rightarrow> note_store \<Rightarrow> note_store" where
  "prune now s =
     (let recent = bounded_events (nt_recent s) now max_recent (\<lambda>e. True);
          acked = prune_closed (map ne_id recent) (nt_closed s);
          pending = prune_pending now (nt_recipients s) acked (nt_pending s) in
      touched (recent \<noteq> nt_recent s \<or> acked \<noteq> nt_closed s \<or> pending \<noteq> nt_pending s)
        (s\<lparr>nt_recent := recent, nt_closed := acked, nt_pending := pending\<rparr>))"

subsection \<open>Appending\<close>

definition queue_of :: "(int \<times> stored_event list) list \<Rightarrow> int \<Rightarrow> stored_event list" where
  "queue_of pending chat = (case map_of pending chat of None \<Rightarrow> [] | Some q \<Rightarrow> q)"

definition deliver :: "stored_event \<Rightarrow> (int \<times> recipient) list \<Rightarrow> (int \<times> stored_event list) list \<Rightarrow> (int \<times> stored_event list) list" where
  "deliver e recipients pending =
     foldl (\<lambda>p (chat, r). if rc_first r \<le> ne_at e then AList.update chat (queue_of p chat @ [e]) p else p) pending recipients"

definition append_event :: "string \<Rightarrow> int \<Rightarrow> note_store \<Rightarrow> note_store" where
  "append_event text now s =
     (let n = nt_sequence s + 1; e = \<lparr>ne_id = make_event_id (nt_epoch s) n, ne_at = now, ne_text = text\<rparr> in
      prune now (s\<lparr>nt_sequence := n, nt_recent := nt_recent s @ [e],
                 nt_pending := deliver e (nt_recipients s) (nt_pending s), nt_revision := nt_revision s + 1,
                 nt_log := Issued (nt_epoch s) n # nt_log s\<rparr>))"

text \<open>One round of \<^verbatim>\<open>publishAt\<close>: the sequence ran out, a lease is due, or the event has its identifier.\<close>

datatype publish_round = Exhausted | Lease | Appended string

definition publish_section :: "string \<Rightarrow> int \<Rightarrow> note_store \<Rightarrow> publish_round \<times> note_store" where
  "publish_section text now s =
     (let s1 = prune now s in
      if nt_sequence s1 = - 1 then (Exhausted, s1)
      else if nt_reserved s1 \<le> nt_sequence s1 then (Lease, s1)
      else (Appended (make_event_id (nt_epoch s1) (nt_sequence s1 + 1)), append_event text now s1))"

definition defer_event :: "string \<Rightarrow> int \<Rightarrow> note_store \<Rightarrow> note_store" where
  "defer_event text now s =
     (let e = \<lparr>ne_id = [], ne_at = now, ne_text = text\<rparr> in
      s\<lparr>nt_backlog := (if length (nt_backlog s) = max_recent then tl (nt_backlog s) @ [e] else nt_backlog s @ [e])\<rparr>)"

definition drop_deferred :: "stored_event \<Rightarrow> note_store \<Rightarrow> note_store" where
  "drop_deferred e s =
     (case nt_backlog s of
        [] \<Rightarrow> s
      | b # bs \<Rightarrow> if ne_text b = ne_text e \<and> ne_at b = ne_at e then s\<lparr>nt_backlog := bs\<rparr> else s)"

subsection \<open>Acknowledging\<close>

definition store_queue :: "int \<Rightarrow> stored_event list \<Rightarrow> (int \<times> stored_event list) list \<Rightarrow> (int \<times> stored_event list) list" where
  "store_queue chat q pending = (if q = [] then AList.delete chat pending else AList.update chat q pending)"

definition progress_of :: "(int \<times> (string \<times> int) list) list \<Rightarrow> int \<Rightarrow> (string \<times> int) list" where
  "progress_of acked chat = (case map_of acked chat of None \<Rightarrow> [] | Some p \<Rightarrow> p)"

definition ack_section :: "int \<Rightarrow> string \<Rightarrow> int \<Rightarrow> note_store \<Rightarrow> note_store" where
  "ack_section chat key now s =
     (let s1 = prune now s;
          queue = queue_of (nt_pending s1) chat;
          held = list_ex (\<lambda>e. ne_id e = key) queue;
          s2 = (if held then s1\<lparr>nt_pending := store_queue chat (filter (\<lambda>e. ne_id e \<noteq> key) queue) (nt_pending s1)\<rparr> else s1) in
      case find (\<lambda>e. ne_id e = key) (nt_recent s2) of
        None \<Rightarrow> touched held s2
      | Some e \<Rightarrow>
          if is_closed (nt_closed s2) chat key then touched held s2
          else touched True
            (s2\<lparr>nt_closed := AList.update chat (AList.update key (ne_at e) (progress_of (nt_closed s2) chat)) (nt_closed s2)\<rparr>))"

subsection \<open>Recipients\<close>

fun next_recipients :: "recipient list \<Rightarrow> (int \<times> recipient) list \<Rightarrow> (int \<times> recipient) list" where
  "next_recipients [] acc = acc"
| "next_recipients (r # rs) acc =
     next_recipients rs
       (case map_of acc (rc_chat r) of
          None \<Rightarrow> AList.update (rc_chat r) r acc
        | Some previous \<Rightarrow> if rc_first r < rc_first previous then AList.update (rc_chat r) r acc else acc)"

fun merge_events :: "(stored_event \<Rightarrow> bool) \<Rightarrow> string list \<Rightarrow> stored_event list \<Rightarrow> stored_event list" where
  "merge_events skip seen [] = []"
| "merge_events skip seen (e # es) =
     (if ne_id e \<in> set seen \<or> skip e then merge_events skip seen es
      else e # merge_events skip (ne_id e # seen) es)"

definition merged_queue :: "int \<Rightarrow> note_store \<Rightarrow> int \<Rightarrow> recipient \<Rightarrow> stored_event list" where
  "merged_queue now s chat r =
     bounded_events
       (sort_key (\<lambda>e. event_sequence (ne_id e))
          (merge_events (\<lambda>e. is_closed (nt_closed s) chat (ne_id e) \<or> ne_at e < rc_first r) []
             (queue_of (nt_pending s) chat @ nt_recent s)))
       now max_per_chat (\<lambda>e. True)"

definition merged_pending :: "int \<Rightarrow> note_store \<Rightarrow> (int \<times> recipient) list \<Rightarrow> (int \<times> stored_event list) list" where
  "merged_pending now s recipients =
     filter (\<lambda>cq. snd cq \<noteq> []) (map (\<lambda>(chat, r). (chat, merged_queue now s chat r)) recipients)"

definition same_recipients :: "(int \<times> recipient) list \<Rightarrow> (int \<times> recipient) list \<Rightarrow> bool" where
  "same_recipients a b \<longleftrightarrow> length a = length b \<and> list_all (\<lambda>(chat, r). map_of b chat = Some r) a"

definition same_pending :: "(int \<times> stored_event list) list \<Rightarrow> (int \<times> stored_event list) list \<Rightarrow> bool" where
  "same_pending a b \<longleftrightarrow> length a = length b \<and> list_all (\<lambda>(chat, q). map_of b chat = Some q) a"

definition replace_section :: "recipient list \<Rightarrow> int \<Rightarrow> note_store \<Rightarrow> note_store" where
  "replace_section rs now s =
     (let s1 = prune now s; recipients = next_recipients rs []; pending = merged_pending now s1 recipients in
      touched (\<not> same_recipients (nt_recipients s1) recipients \<or> \<not> same_pending (nt_pending s1) pending)
        (s1\<lparr>nt_recipients := recipients, nt_pending := pending\<rparr>))"

section \<open>The health of the subscriptions\<close>

record snapshot =
  sn_state :: mon_state
  sn_endpoints :: "(string \<times> endpoint_state) list"

text \<open>
  \<^verbatim>\<open>watchdapi.Health\<close>: the first endpoint of the best latency that is alive, the first unknown one,
  the dead one checked last, the first rejected one - in this order of preference.
\<close>

record health_picks =
  hp_alive :: "endpoint_state option"
  hp_unknown :: "endpoint_state option"
  hp_dead :: "endpoint_state option"
  hp_rejected :: "endpoint_state option"

definition unknown_endpoint :: endpoint_state where
  "unknown_endpoint = \<lparr>ps_status = St_Unknown, ps_latency = 0, ps_checked = zero_time, ps_next = zero_time, ps_since = zero_time,
     ps_fails = 0, ps_error = []\<rparr>"

definition better :: "(endpoint_state \<Rightarrow> endpoint_state \<Rightarrow> bool) \<Rightarrow> endpoint_state \<Rightarrow> endpoint_state option \<Rightarrow> endpoint_state option" where
  "better wins st cur = (case cur of None \<Rightarrow> Some st | Some c \<Rightarrow> if wins st c then Some st else Some c)"

definition health_step :: "snapshot \<Rightarrow> health_picks \<Rightarrow> string \<Rightarrow> health_picks" where
  "health_step snap h key =
     (let st = (case map_of (sn_endpoints snap) key of None \<Rightarrow> unknown_endpoint | Some st \<Rightarrow> st) in
      case ps_status st of
        St_Alive \<Rightarrow> h\<lparr>hp_alive := better (\<lambda>a b. ps_latency a < ps_latency b) st (hp_alive h)\<rparr>
      | St_Dead \<Rightarrow> h\<lparr>hp_dead := better (\<lambda>a b. ps_checked b < ps_checked a) st (hp_dead h)\<rparr>
      | St_Rejected \<Rightarrow> h\<lparr>hp_rejected := better (\<lambda>a b. False) st (hp_rejected h)\<rparr>
      | St_Unknown \<Rightarrow> h\<lparr>hp_unknown := better (\<lambda>a b. False) st (hp_unknown h)\<rparr>)"

definition first_pick :: "health_picks \<Rightarrow> endpoint_state option" where
  "first_pick h =
     (case hp_alive h of Some st \<Rightarrow> Some st
      | None \<Rightarrow> (case hp_unknown h of Some st \<Rightarrow> Some st
                 | None \<Rightarrow> (case hp_dead h of Some st \<Rightarrow> Some st | None \<Rightarrow> hp_rejected h)))"

definition server_health :: "string list \<Rightarrow> snapshot \<Rightarrow> endpoint_state" where
  "server_health ks snap =
     (case first_pick (foldl (health_step snap) \<lparr>hp_alive = None, hp_unknown = None, hp_dead = None, hp_rejected = None\<rparr> ks) of
        None \<Rightarrow> unknown_endpoint
      | Some st \<Rightarrow> st\<lparr>ps_fails := 0\<rparr>)"

text \<open>
  \<open>health_loop\<close> is the loop of \<^verbatim>\<open>confirmedSubscriptionHealth\<close> over the servers:
  \<^const>\<open>None\<close> is what is not known.
\<close>

fun health_loop :: "snapshot \<Rightarrow> bool \<Rightarrow> server list \<Rightarrow> bool option" where
  "health_loop snap whole [] = (if whole then Some False else None)"
| "health_loop snap whole (s # ss) =
     (case ps_status (server_health (endpoint_keys s) snap) of
        St_Alive \<Rightarrow> Some True
      | St_Unknown \<Rightarrow> health_loop snap False ss
      | _ \<Rightarrow> health_loop snap whole ss)"

definition confirmed_health :: "subscription \<Rightarrow> snapshot \<Rightarrow> bool option" where
  "confirmed_health sub snap =
     (if sn_state snap \<noteq> Mon_OK \<or> sub_servers sub = [] then None else health_loop snap True (sub_servers sub))"

text \<open>A \<^verbatim>\<open>*bool\<close> field of a struct: null makes the pointer nil, a value of another type is an error.\<close>

fun bool_field :: "string \<Rightarrow> (string \<times> json) list \<Rightarrow> bool option \<Rightarrow> bool option option" where
  "bool_field name [] cur = Some cur"
| "bool_field name ((k, v) # kvs) cur =
     (if equal_fold k name then
        (case v of JBool b \<Rightarrow> bool_field name kvs (Some b) | JNull \<Rightarrow> bool_field name kvs None | _ \<Rightarrow> None)
      else bool_field name kvs cur)"

definition decode_health :: "string \<Rightarrow> bool option" where
  "decode_health raw =
     (case parse_json raw of
        Some (JObj kvs) \<Rightarrow> (case bool_field ''available'' kvs None of None \<Rightarrow> None | Some b \<Rightarrow> b)
      | _ \<Rightarrow> None)"

text \<open>An object with the one member \<^verbatim>\<open>available\<close>.\<close>

definition encode_health :: "bool \<Rightarrow> string" where
  "encode_health b =
     CHR 0x7B # quote_string ''available'' @ CHR 0x3A # (if b then ''true'' else ''false'') @ [CHR 0x7D]"

record observation =
  ob_id :: string
  ob_name :: string
  ob_health :: "bool option"

fun observations :: "snapshot \<Rightarrow> string list \<Rightarrow> subscription list \<Rightarrow> observation list" where
  "observations snap seen [] = []"
| "observations snap seen (s # ss) =
     (if sub_id s = [] \<or> sub_id s \<in> set seen then observations snap seen ss
      else \<lparr>ob_id = sub_id s, ob_name = sub_name s, ob_health = confirmed_health s snap\<rparr>
             # observations snap (sub_id s # seen) ss)"

record health_update =
  hu_id :: string
  hu_available :: bool
  hu_text :: string

fun health_updates :: "(string \<times> string) list \<Rightarrow> observation list \<Rightarrow> health_update list" where
  "health_updates health [] = []"
| "health_updates health (ob # obs) =
     (let previous = (case map_of health (ob_id ob) of None \<Rightarrow> None | Some raw \<Rightarrow> decode_health raw) in
      case ob_health ob of
        None \<Rightarrow> health_updates health obs
      | Some available \<Rightarrow>
          if previous = Some available then health_updates health obs
          else \<lparr>hu_id = ob_id ob, hu_available = available,
                 hu_text = (if \<not> available then ''Subscription '' @ ob_name ob @ '' has no live servers''
                            else if previous \<noteq> None then ''Subscription '' @ ob_name ob @ '' has a live server again''
                            else [])\<rparr> # health_updates health obs)"

definition event_count :: "health_update list \<Rightarrow> nat" where
  "event_count us = length (filter (\<lambda>u. hu_text u \<noteq> []) us)"

definition forget_health :: "string list \<Rightarrow> note_store \<Rightarrow> note_store" where
  "forget_health current s =
     (let gone = filter (\<lambda>h. fst h \<notin> set current) (nt_health s) in
      s\<lparr>nt_health := filter (\<lambda>h. fst h \<in> set current) (nt_health s),
        nt_revision := nt_revision s + word_of_nat (length gone)\<rparr>)"

definition apply_update :: "int \<Rightarrow> health_update \<Rightarrow> note_store \<Rightarrow> note_store" where
  "apply_update now u s =
     (let s1 = s\<lparr>nt_health := AList.update (hu_id u) (encode_health (hu_available u)) (nt_health s), nt_revision := nt_revision s + 1\<rparr> in
      if hu_text u = [] then s1 else append_event (hu_text u) now s1)"

datatype observe_round = Observe_Exhausted | Observe_Lease u64 | Observed

definition observe_section :: "observation list \<Rightarrow> int \<Rightarrow> note_store \<Rightarrow> observe_round \<times> note_store" where
  "observe_section obs now s =
     (let us = health_updates (nt_health s) obs; events = event_count us in
      if unat (- 1 - nt_sequence s) < events then (Observe_Exhausted, s)
      else if 0 < events \<and> (nt_reserved s \<le> nt_sequence s \<or> unat (nt_reserved s - nt_sequence s) < events)
      then (Observe_Lease (word_of_nat events), s)
      else (Observed, foldl (\<lambda>s u. apply_update now u s) (forget_health (map ob_id obs) s) us))"

section \<open>The pages of the pending events\<close>

record notification =
  nn_chat :: int
  nn_id :: string
  nn_at :: int
  nn_text :: string

record page =
  pg_messages :: "notification list"
  pg_next :: string

definition page_cursor :: "string \<Rightarrow> int \<Rightarrow> u64 \<Rightarrow> string" where
  "page_cursor e chat n = e @ CHR '':'' # show_int chat @ CHR '':'' # show_uint64 n"

text \<open>\<^verbatim>\<open>strconv.ParseInt\<close> in base 10 and 64 bits, of a text that prints again as it was.\<close>

definition canonical_int :: "string \<Rightarrow> int option" where
  "canonical_int s =
     (let (neg, digits) = (case s of c # r \<Rightarrow> if c = CHR ''-'' then (True, r) else (False, s) | [] \<Rightarrow> (False, [])) in
      case parse_nat digits of
        None \<Rightarrow> None
      | Some n \<Rightarrow>
          let v = (if neg then - int n else int n) in
          if - (2 ^ 63) \<le> v \<and> v < 2 ^ 63 \<and> show_int v = s then Some v else None)"

text \<open>The chat and the sequence of a cursor; \<^const>\<open>None\<close> for one that is not this store's.\<close>

definition parse_cursor :: "note_store \<Rightarrow> string \<Rightarrow> (int \<times> u64) option" where
  "parse_cursor s cursor =
     (case split_on CHR '':'' cursor of
        [e, c, q] \<Rightarrow>
          if e \<noteq> nt_epoch s then None
          else (case canonical_int c of
            None \<Rightarrow> None
          | Some chat \<Rightarrow>
              if chat = 0 then None
              else (case parse_uint64 q of
                None \<Rightarrow> None
              | Some n \<Rightarrow> if n = 0 \<or> nt_sequence s < n \<or> show_uint64 n \<noteq> q then None else Some (chat, n)))
      | _ \<Rightarrow> None)"

text \<open>
  The bytes of a message and of a page with none. \<open>tm\<close> is how \<^verbatim>\<open>encoding/json\<close> writes a time,
  \<^const>\<open>None\<close> for one it refuses: the time zone a \<^verbatim>\<open>time.Time\<close> carries is not modelled.
\<close>

definition message_size :: "(int \<Rightarrow> string option) \<Rightarrow> notification \<Rightarrow> nat option" where
  "message_size tm m =
     (case tm (nn_at m) of
        None \<Rightarrow> None
      | Some t \<Rightarrow>
          Some (length ''{`chat_id`:,`event_id`:,`at`:``,`text`:}'' + length (show_int (nn_chat m)) + length (quote_string (nn_id m))
            + length t + length (quote_string (nn_text m))))"

definition empty_page_size :: nat where
  "empty_page_size = length ''{`messages`:[],`next_cursor`:``}''"

text \<open>The entries of the queues in the order of the loops, with whether another follows in its queue or a later chat.\<close>

fun queue_entries :: "int \<Rightarrow> stored_event list \<Rightarrow> bool \<Rightarrow> (int \<times> stored_event \<times> bool) list" where
  "queue_entries chat [] later = []"
| "queue_entries chat (e # es) later = (chat, e, es \<noteq> [] \<or> later) # queue_entries chat es later"

fun page_entries :: "(int \<times> stored_event list) list \<Rightarrow> (int \<times> stored_event \<times> bool) list" where
  "page_entries [] = []"
| "page_entries ((chat, q) # rest) = queue_entries chat q (rest \<noteq> []) @ page_entries rest"

definition message_of :: "int \<Rightarrow> stored_event \<Rightarrow> notification" where
  "message_of chat e = \<lparr>nn_chat = chat, nn_id = ne_id e, nn_at = ne_at e, nn_text = ne_text e\<rparr>"

definition stop_page :: "string \<Rightarrow> notification list \<Rightarrow> page" where
  "stop_page ep ms =
     \<lparr>pg_messages = ms, pg_next = (case ms of [] \<Rightarrow> [] | _ \<Rightarrow> page_cursor ep (nn_chat (last ms)) (event_sequence (nn_id (last ms))))\<rparr>"

fun page_loop ::
  "(int \<Rightarrow> string option) \<Rightarrow> string \<Rightarrow> (int \<times> u64) option \<Rightarrow> notification list \<Rightarrow> nat \<Rightarrow> (int \<times> stored_event \<times> bool) list
     \<Rightarrow> page \<times> note_errors"
where
  "page_loop tm ep after ms used [] = (\<lparr>pg_messages = ms, pg_next = []\<rparr>, [])"
| "page_loop tm ep after ms used ((chat, e, further) # rest) =
     (let n = event_sequence (ne_id e) in
      if (case after of None \<Rightarrow> False | Some (c, q) \<Rightarrow> chat < c \<or> chat = c \<and> n \<le> q) then page_loop tm ep after ms used rest
      else if length ms = page_size then (stop_page ep ms, [])
      else (case message_size tm (message_of chat e) of
        None \<Rightarrow> (\<lparr>pg_messages = ms, pg_next = []\<rparr>, [N_Encoding])
      | Some bytes \<Rightarrow>
          let delta = bytes + (if ms = [] then 0 else 1);
              next_cursor = (if further then page_cursor ep chat n else []) in
          if max_page_bytes \<le> used + delta + length next_cursor
          then if ms = [] then (\<lparr>pg_messages = [], pg_next = []\<rparr>, [N_Page_Size]) else (stop_page ep ms, [])
          else page_loop tm ep after (ms @ [message_of chat e]) (used + delta) rest))"

definition pending_section :: "(int \<Rightarrow> string option) \<Rightarrow> string \<Rightarrow> int \<Rightarrow> note_store \<Rightarrow> (page \<times> note_errors) \<times> note_store" where
  "pending_section time cursor now s =
     (let none = \<lparr>pg_messages = [], pg_next = []\<rparr> in
      if max_cursor_length < length cursor then ((none, [N_Cursor]), s)
      else if cursor \<noteq> [] \<and> parse_cursor s cursor = None then ((none, [N_Cursor]), s)
      else
        let s1 = prune now s in
        (page_loop time (nt_epoch s1) (if cursor = [] then None else parse_cursor s cursor) [] (empty_page_size + 1)
           (page_entries (sort_key fst (nt_pending s1))), s1))"

definition status_section :: "int \<Rightarrow> note_store \<Rightarrow> (nat \<times> note_errors) \<times> note_store" where
  "status_section now s =
     (if \<not> nt_open s then ((0, nt_error s), s)
      else let s1 = prune now s in ((sum_list (map (length \<circ> snd) (nt_pending s1)), nt_error s1), s1))"

section \<open>What is saved\<close>

definition snapshot_state :: "note_store \<Rightarrow> saved_state" where
  "snapshot_state s =
     \<lparr>ss_version = 1, ss_epoch = nt_epoch s, ss_sequence = nt_sequence s,
      ss_reserved = (if nt_sequence s \<le> - 1 - sequence_reserve then max (nt_reserved s) (nt_sequence s + sequence_reserve) else - 1),
      ss_recent = nt_recent s, ss_recipients = nt_recipients s, ss_pending = nt_pending s, ss_closed = nt_closed s,
      ss_health = nt_health s\<rparr>"

text \<open>
  \<^verbatim>\<open>validSavedState\<close>: \<open>valid_events\<close> is its \<^verbatim>\<open>validEvents\<close>, with the events known so
  far in and out.
\<close>

fun valid_events ::
  "saved_state \<Rightarrow> u64 \<Rightarrow> (string \<times> stored_event) list \<Rightarrow> stored_event list \<Rightarrow> (string \<times> stored_event) list option"
where
  "valid_events st previous known [] = Some known"
| "valid_events st previous known (e # es) =
     (case parse_event_id (ne_id e) of
        None \<Rightarrow> None
      | Some (ep, n) \<Rightarrow>
          if ep \<noteq> ss_epoch st \<or> ss_sequence st < n \<or> n \<le> previous then None
          else if (case map_of known (ne_id e) of
                     None \<Rightarrow> False | Some original \<Rightarrow> ne_at original \<noteq> ne_at e \<or> ne_text original \<noteq> ne_text e) then None
          else valid_events st n (AList.update (ne_id e) e known) es)"

fun valid_queues ::
  "saved_state \<Rightarrow> (string \<times> stored_event) list \<Rightarrow> (int \<times> stored_event list) list \<Rightarrow> (string \<times> stored_event) list option"
where
  "valid_queues st known [] = Some known"
| "valid_queues st known ((chat, q) # rest) =
     (if map_of (ss_recipients st) chat = None then None
      else (case valid_events st 0 known q of
        None \<Rightarrow> None
      | Some known' \<Rightarrow>
          if list_ex (\<lambda>e. is_closed (ss_closed st) chat (ne_id e)) q then None else valid_queues st known' rest))"

definition valid_progress :: "saved_state \<Rightarrow> (string \<times> stored_event) list \<Rightarrow> string \<times> int \<Rightarrow> bool" where
  "valid_progress st known p =
     (case parse_event_id (fst p) of
        None \<Rightarrow> False
      | Some (ep, n) \<Rightarrow>
          ep = ss_epoch st \<and> n \<le> ss_sequence st
          \<and> (case map_of known (fst p) of None \<Rightarrow> True | Some e \<Rightarrow> ne_at e = snd p))"

definition valid_saved :: "saved_state \<Rightarrow> bool" where
  "valid_saved st =
     (if ss_version st \<noteq> 1 \<or> \<not> valid_epoch (ss_epoch st) \<or> ss_reserved st < ss_sequence st then False
      else case valid_events st 0 [] (ss_recent st) of
        None \<Rightarrow> False
      | Some known \<Rightarrow>
          list_all (\<lambda>(chat, r). rc_chat r = chat) (ss_recipients st)
          \<and> (case valid_queues st known (ss_pending st) of
               None \<Rightarrow> False
             | Some known' \<Rightarrow> list_all (\<lambda>(chat, progress). list_all (valid_progress st known') progress) (ss_closed st)))"

end
