(* ===== verification/Note_Store.thy ===== *)
theory Note_Store
  imports Note_Events "HOL-Library.State_Monad"
begin

text \<open>
  The operations of the notification store (\<^verbatim>\<open>notifications/store.go\<close>, \<^verbatim>\<open>persist.go\<close>,
  \<^verbatim>\<open>recipients.go\<close>, \<^verbatim>\<open>subscription_health.go\<close>): opening it, saving it, publishing,
  acknowledging, reading pages, replacing the recipients, observing the subscriptions.

  An operation is a computation on the store and its file. Its stretches under the mutex \<^verbatim>\<open>mu\<close> are
  the functions of \<open>Note_Events\<close>, each one atomic; wherever it does not hold the mutex, other goroutines
  may run stretches of their own (\<open>others\<close>), and wherever it does not hold the lock of the saves either,
  whole flushes (\<open>free\<close>). What they run, what the clock, the random source, the encoder and the disk answer
  comes from \<open>note_env\<close>, which the n-th call asks with \<open>n\<close>.
\<close>

section \<open>The file\<close>

text \<open>
  What the file is to \<^verbatim>\<open>restore\<close>: absent, no regular file or one that cannot be read, one whose JSON
  does not decode or lacks a field, or a state - with whether it has \<^verbatim>\<open>reserved_through\<close> and whether
  its mode is 0600. The encoding of a state as JSON text is \<^verbatim>\<open>encoding/json\<close>'s.
\<close>

datatype note_file = No_File | Unreadable | Undecodable | Document saved_state bool bool

datatype write_end = Not_Written | Not_Synced | Not_Renamed | Dir_Not_Synced | Written

text \<open>What another goroutine does under the mutex.\<close>

datatype note_section =
    Other_Epoch "128 word" | Other_Publish string int | Other_Defer string int | Other_Ack int string int
  | Other_Replace "recipient list" int | Other_Observe "observation list" int | Other_Prune int

record note_env =
  nv_now :: "nat \<Rightarrow> int"
  nv_random :: "nat \<Rightarrow> 128 word option"
  nv_sections :: "nat \<Rightarrow> note_section list"
  nv_flushes :: "nat \<Rightarrow> u64 list"
  nv_encodes :: "nat \<Rightarrow> bool"
  nv_backup :: "nat \<Rightarrow> bool"
  nv_write :: "nat \<Rightarrow> write_end"
  nv_read :: "nat \<Rightarrow> bool"
  nv_resolve :: "nat \<Rightarrow> string option"
  nv_time :: "int \<Rightarrow> string option"

record note_world =
  nw_env :: note_env
  nw_calls :: nat
  nw_store :: note_store
  nw_file :: note_file
  nw_backups :: "note_file list"

type_synonym 'a note_act = "(note_world, 'a) state"

definition call :: "(note_env \<Rightarrow> nat \<Rightarrow> 'a) \<Rightarrow> 'a note_act" where
  "call f = State (\<lambda>w. (f (nw_env w) (nw_calls w), w\<lparr>nw_calls := nw_calls w + 1\<rparr>))"

definition locked :: "(note_store \<Rightarrow> 'a \<times> note_store) \<Rightarrow> 'a note_act" where
  "locked f = State (\<lambda>w. (fst (f (nw_store w)), w\<lparr>nw_store := snd (f (nw_store w))\<rparr>))"

definition look_at :: "(note_store \<Rightarrow> 'a) \<Rightarrow> 'a note_act" where
  "look_at f = State (\<lambda>w. (f (nw_store w), w))"

abbreviation change_store :: "(note_store \<Rightarrow> note_store) \<Rightarrow> unit note_act" where
  "change_store f \<equiv> locked (\<lambda>s. ((), f s))"

definition the_note_file :: "note_file note_act" where
  "the_note_file = State (\<lambda>w. (nw_file w, w))"

definition keep_copy :: "note_file \<Rightarrow> unit note_act" where
  "keep_copy f = State (\<lambda>w. ((), w\<lparr>nw_backups := f # nw_backups w\<rparr>))"

definition replace_file :: "saved_state \<Rightarrow> bool \<Rightarrow> unit note_act" where
  "replace_file st durable =
     State (\<lambda>w. ((), w\<lparr>nw_file := Document st True True,
                      nw_store := (nw_store w)\<lparr>nt_log := Replaced st durable # nt_log (nw_store w)\<rparr>\<rparr>))"

section \<open>The others\<close>

text \<open>\<^verbatim>\<open>hex.EncodeToString\<close> of the sixteen bytes.\<close>

definition hex_epoch :: "128 word \<Rightarrow> string" where
  "hex_epoch r = map (\<lambda>i. hex_digit (unat r div 16 ^ i mod 16)) (rev [0..<32])"

definition set_epoch :: "128 word \<Rightarrow> note_store \<Rightarrow> note_store" where
  "set_epoch r s = (if nt_epoch s = [] then s\<lparr>nt_epoch := hex_epoch r, nt_revision := nt_revision s + 1\<rparr> else s)"

definition ack_checked :: "int \<Rightarrow> string \<Rightarrow> int \<Rightarrow> note_store \<Rightarrow> note_errors \<times> note_store" where
  "ack_checked chat key now s =
     (case parse_event_id key of
        None \<Rightarrow> ([N_Event_Id], s)
      | Some (e, n) \<Rightarrow> if e = nt_epoch s \<and> nt_sequence s < n then ([N_Event_Id], s) else ([], ack_section chat key now s))"

fun run_section :: "note_section \<Rightarrow> note_store \<Rightarrow> note_store" where
  "run_section (Other_Defer text now) s = defer_event text now s"
| "run_section (Other_Epoch r) s = (if nt_open s then set_epoch r s else s)"
| "run_section (Other_Publish text now) s = (if nt_open s \<and> nt_epoch s \<noteq> [] then snd (publish_section text now s) else s)"
| "run_section (Other_Ack chat key now) s = (if nt_open s then snd (ack_checked chat key now s) else s)"
| "run_section (Other_Replace rs now) s = (if nt_open s then replace_section rs now s else s)"
| "run_section (Other_Observe obs now) s = (if nt_open s \<and> nt_epoch s \<noteq> [] then snd (observe_section obs now s) else s)"
| "run_section (Other_Prune now) s = (if nt_open s then prune now s else s)"

definition others :: "unit note_act" where
  "others = do {
     secs \<leftarrow> call nv_sections;
     change_store (\<lambda>s. foldl (\<lambda>s x. run_section x s) s secs) }"

section \<open>Saving\<close>

definition ensure_epoch :: "unit note_act \<Rightarrow> note_errors note_act" where
  "ensure_epoch gap = do {
     gap;
     missing \<leftarrow> look_at (\<lambda>s. nt_epoch s = []);
     if \<not> missing then State_Monad.return []
     else do {
       r \<leftarrow> call nv_random;
       (case r of
          None \<Rightarrow> State_Monad.return [N_Identity]
        | Some bytes \<Rightarrow> do { gap; change_store (set_epoch bytes); State_Monad.return [] }) } }"

definition record_storage_error :: "note_errors \<Rightarrow> unit note_act" where
  "record_storage_error e = do { others; change_store (\<lambda>s. s\<lparr>nt_error := e\<rparr>) }"

datatype save_round = Save_Exhausted | Save_Nothing | Save_State saved_state u64

definition reserve_needed :: "u64 \<Rightarrow> note_store \<Rightarrow> bool" where
  "reserve_needed reserve s \<longleftrightarrow>
     nt_reserved s \<le> nt_sequence s \<and> nt_sequence s \<noteq> - 1
     \<or> 0 < reserve \<and> (nt_reserved s \<le> nt_sequence s \<or> nt_reserved s - nt_sequence s < reserve)"

definition save_begin :: "u64 \<Rightarrow> int \<Rightarrow> note_store \<Rightarrow> save_round \<times> note_store" where
  "save_begin reserve now s =
     (let s1 = prune now s in
      if - 1 - nt_sequence s1 < reserve then (Save_Exhausted, s1)
      else if nt_revision s1 = nt_saved s1 \<and> \<not> reserve_needed reserve s1 \<and> \<not> nt_backup s1 then (Save_Nothing, s1)
      else
        let st = snapshot_state s1 in
        (Save_State (st\<lparr>ss_reserved := max (ss_reserved st) (ss_sequence st + reserve)\<rparr>) (nt_revision s1), s1))"

definition save_end :: "saved_state \<Rightarrow> u64 \<Rightarrow> note_errors \<Rightarrow> note_store \<Rightarrow> note_store" where
  "save_end st revision e s =
     (if e \<noteq> [] then s\<lparr>nt_error := e\<rparr>
      else s\<lparr>nt_saved := revision, nt_reserved := max (nt_reserved s) (ss_reserved st), nt_error := []\<rparr>)"

definition preserve_original :: "note_errors note_act" where
  "preserve_original = do {
     file \<leftarrow> the_note_file;
     (case file of
        No_File \<Rightarrow> do { change_store (\<lambda>s. s\<lparr>nt_backup := False\<rparr>); State_Monad.return [] }
      | Unreadable \<Rightarrow> State_Monad.return [N_Backup]
      | _ \<Rightarrow> do {
          copied \<leftarrow> call nv_backup;
          if copied then do { keep_copy file; change_store (\<lambda>s. s\<lparr>nt_backup := False\<rparr>); State_Monad.return [] }
          else State_Monad.return [N_Backup] }) }"

definition write_atomic :: "saved_state \<Rightarrow> note_errors note_act" where
  "write_atomic st = do {
     path \<leftarrow> look_at nt_path;
     if path = [] then State_Monad.return [N_Write]
     else do {
       r \<leftarrow> call nv_write;
       (case r of
          Not_Written \<Rightarrow> State_Monad.return [N_Write]
        | Not_Synced \<Rightarrow> State_Monad.return [N_Sync]
        | Not_Renamed \<Rightarrow> State_Monad.return [N_Rename]
        | Dir_Not_Synced \<Rightarrow> do { replace_file st False; State_Monad.return [N_Sync] }
        | Written \<Rightarrow> do { replace_file st True; State_Monad.return [] }) } }"

definition write_state :: "saved_state \<Rightarrow> u64 \<Rightarrow> note_errors note_act" where
  "write_state st revision = do {
     encoded \<leftarrow> call nv_encodes;
     backup \<leftarrow> look_at nt_backup;
     e1 \<leftarrow> (if \<not> encoded then State_Monad.return [N_Encoding]
           else if backup then preserve_original else State_Monad.return []);
     others;
     e2 \<leftarrow> (if e1 = [] then write_atomic st else State_Monad.return e1);
     others;
     change_store (save_end st revision e2);
     State_Monad.return e2 }"

definition save_locked :: "u64 \<Rightarrow> note_errors note_act" where
  "save_locked reserve = do {
     e \<leftarrow> ensure_epoch others;
     if e \<noteq> [] then do { record_storage_error e; State_Monad.return e }
     else do {
       now \<leftarrow> call nv_now;
       others;
       r \<leftarrow> locked (save_begin reserve now);
       (case r of
          Save_Exhausted \<Rightarrow> State_Monad.return [N_Sequence]
        | Save_Nothing \<Rightarrow> State_Monad.return []
        | Save_State st revision \<Rightarrow> write_state st revision) } }"

section \<open>Publishing\<close>

text \<open>
  The loops of \<^verbatim>\<open>publishAt\<close>, \<^verbatim>\<open>drainLocked\<close> and \<^verbatim>\<open>ObserveSubscriptions\<close> end because
  each further round has used up a sequence number, so they get as many rounds as there are numbers.
\<close>

definition note_rounds :: nat where
  "note_rounds = 2 ^ 64"

fun publish_loop :: "unit note_act \<Rightarrow> note_errors note_act \<Rightarrow> string \<Rightarrow> int \<Rightarrow> nat \<Rightarrow> (string \<times> note_errors) note_act" where
  "publish_loop gap save text now 0 = State_Monad.return ([], [N_Stuck])"
| "publish_loop gap save text now (Suc k) = do {
     gap;
     r \<leftarrow> locked (publish_section text now);
     (case r of
        Exhausted \<Rightarrow> State_Monad.return ([], [N_Sequence])
      | Lease \<Rightarrow> do {
          e \<leftarrow> save;
          if e \<noteq> [] then State_Monad.return ([], N_Reserve_Unsaved # e) else publish_loop gap save text now k }
      | Appended key \<Rightarrow> do { e \<leftarrow> save; State_Monad.return (key, e) }) }"

definition publish_at :: "unit note_act \<Rightarrow> note_errors note_act \<Rightarrow> string \<Rightarrow> int \<Rightarrow> (string \<times> note_errors) note_act" where
  "publish_at gap save text now = do {
     e \<leftarrow> ensure_epoch gap;
     if e \<noteq> [] then State_Monad.return ([], e) else publish_loop gap save text now note_rounds }"

fun drain_loop :: "nat \<Rightarrow> note_errors note_act" where
  "drain_loop 0 = State_Monad.return [N_Stuck]"
| "drain_loop (Suc k) = do {
     others;
     b \<leftarrow> look_at nt_backlog;
     (case b of
        [] \<Rightarrow> State_Monad.return []
      | event # _ \<Rightarrow> do {
          (key, e) \<leftarrow> publish_at others (save_locked 0) (ne_text event) (ne_at event);
          (if key \<noteq> [] then do { others; change_store (drop_deferred event) } else State_Monad.return ());
          if e \<noteq> [] then State_Monad.return e else drain_loop k }) }"

definition drain_locked :: "note_errors note_act" where
  "drain_locked = drain_loop (Suc note_rounds)"

section \<open>Opening\<close>

definition restored_state :: "saved_state \<Rightarrow> bool \<Rightarrow> note_store \<Rightarrow> note_store" where
  "restored_state st private s =
     (let s1 = s\<lparr>nt_epoch := ss_epoch st, nt_sequence := ss_reserved st, nt_reserved := ss_reserved st, nt_recent := ss_recent st,
                 nt_recipients := ss_recipients st, nt_pending := ss_pending st, nt_closed := ss_closed st, nt_health := ss_health st,
                 nt_saved := nt_revision s\<rparr> in
      touched (ss_sequence st \<noteq> ss_reserved st \<or> \<not> private) s1)"

definition restore_section :: "note_file \<Rightarrow> bool \<Rightarrow> note_store \<Rightarrow> note_errors \<times> note_store" where
  "restore_section file ok s =
     (case file of
        No_File \<Rightarrow> ([], s)
      | Unreadable \<Rightarrow> ([N_Read], s\<lparr>nt_backup := True\<rparr>)
      | Undecodable \<Rightarrow> ([if ok then N_Corrupt else N_Read], s\<lparr>nt_backup := True\<rparr>)
      | Document st has_reserve private \<Rightarrow>
          if \<not> ok then ([N_Read], s\<lparr>nt_backup := True\<rparr>)
          else
            let st' = (if has_reserve then st else st\<lparr>ss_reserved := ss_sequence st\<rparr>) in
            if \<not> valid_saved st' then ([N_Corrupt], s\<lparr>nt_backup := True\<rparr>) else ([], restored_state st' private s))"

definition restore :: "note_errors note_act" where
  "restore = do {
     path \<leftarrow> look_at nt_path;
     if path = [] then State_Monad.return [N_Read]
     else do {
       file \<leftarrow> the_note_file;
       ok \<leftarrow> call nv_read;
       locked (restore_section file ok) } }"

definition load :: "(note_errors \<times> note_errors) note_act" where
  "load = do {
     e1 \<leftarrow> restore;
     e2 \<leftarrow> ensure_epoch others;
     now \<leftarrow> call nv_now;
     others;
     change_store (\<lambda>s. if e1 \<noteq> [] then (prune now s)\<lparr>nt_error := e1\<rparr> else prune now s);
     State_Monad.return (e1, e2) }"

definition open_locked :: "note_errors note_act" where
  "open_locked = do {
     p \<leftarrow> call nv_resolve;
     (case p of
        None \<Rightarrow> do { record_storage_error [N_Path]; State_Monad.return [N_Path] }
      | Some path \<Rightarrow> do {
          change_store (\<lambda>s. s\<lparr>nt_path := path\<rparr>);
          (e1, e2) \<leftarrow> load;
          e3 \<leftarrow> save_locked 0;
          e4 \<leftarrow> (if e3 = [] then drain_locked else State_Monad.return []);
          others;
          change_store (\<lambda>s. s\<lparr>nt_open := True\<rparr>);
          e5 \<leftarrow> (if e3 = [] \<and> e4 = [] then drain_locked else State_Monad.return e4);
          State_Monad.return (e1 @ e2 @ e3 @ e5) }) }"

definition unopened :: "unit note_act \<Rightarrow> bool note_act" where
  "unopened gap = do { gap; look_at (\<lambda>s. \<not> nt_open s) }"

definition flush_for_events :: "u64 \<Rightarrow> note_errors note_act" where
  "flush_for_events reserve = do {
     waits \<leftarrow> unopened others;
     if waits then open_locked
     else do {
       e \<leftarrow> save_locked reserve;
       if e \<noteq> [] then State_Monad.return e else drain_locked } }"

definition flush :: "note_errors note_act" where
  "flush = flush_for_events 0"

text \<open>What others do where neither lock is held.\<close>

fun flush_all :: "u64 list \<Rightarrow> unit note_act" where
  "flush_all [] = others"
| "flush_all (r # rs) = do { others; _ \<leftarrow> flush_for_events r; flush_all rs }"

definition free :: "unit note_act" where
  "free = do { rs \<leftarrow> call nv_flushes; flush_all rs }"

definition new_store_at :: "string \<Rightarrow> note_errors note_act" where
  "new_store_at path = do {
     change_store (\<lambda>s. new_store path);
     (e1, e2) \<leftarrow> load;
     e3 \<leftarrow> flush;
     State_Monad.return (e1 @ e2 @ e3) }"

definition open_store :: "note_errors note_act" where
  "open_store = do {
     p \<leftarrow> call nv_resolve;
     (case p of
        Some path \<Rightarrow> new_store_at path
      | None \<Rightarrow> do {
          change_store (\<lambda>s. (new_store [])\<lparr>nt_open := False, nt_error := [N_Unavailable]\<rparr>);
          State_Monad.return [N_Path] }) }"

section \<open>The operations\<close>

definition defer_if :: "(note_store \<Rightarrow> bool) \<Rightarrow> string \<Rightarrow> int \<Rightarrow> note_store \<Rightarrow> bool \<times> note_store" where
  "defer_if b text now s = (if b s then (True, defer_event text now s) else (False, s))"

definition publish :: "string \<Rightarrow> (string \<times> note_errors) note_act" where
  "publish text = do {
     now \<leftarrow> call nv_now;
     free;
     waits \<leftarrow> locked (defer_if (\<lambda>s. \<not> nt_open s \<or> nt_backlog s \<noteq> []) text now);
     if waits then State_Monad.return ([], [N_Deferred])
     else do {
       (key, e) \<leftarrow> publish_at free flush text now;
       if N_Reserve_Unsaved \<in> set e then do {
         free;
         _ \<leftarrow> locked (defer_if (\<lambda>s. True) text now);
         State_Monad.return ([], [N_Deferred]) }
       else State_Monad.return (key, e) } }"

definition pending_page :: "string \<Rightarrow> (page \<times> note_errors) note_act" where
  "pending_page cursor = do {
     waits \<leftarrow> unopened free;
     if waits then State_Monad.return (\<lparr>pg_messages = [], pg_next = []\<rparr>, [N_Unavailable])
     else do {
       now \<leftarrow> call nv_now;
       free;
       time \<leftarrow> call (\<lambda>env n. nv_time env);
       locked (pending_section time cursor now) } }"

definition ack :: "int \<Rightarrow> string \<Rightarrow> note_errors note_act" where
  "ack chat key = do {
     waits \<leftarrow> unopened free;
     if waits then State_Monad.return [N_Unavailable]
     else if parse_event_id key = None then State_Monad.return [N_Event_Id]
     else do {
       now \<leftarrow> call nv_now;
       free;
       e \<leftarrow> locked (ack_checked chat key now);
       if e \<noteq> [] then State_Monad.return e else flush } }"

definition replace_recipients :: "recipient list \<Rightarrow> note_errors note_act" where
  "replace_recipients rs = do {
     waits \<leftarrow> unopened free;
     if waits then State_Monad.return [N_Unavailable]
     else do {
       now \<leftarrow> call nv_now;
       free;
       change_store (replace_section rs now);
       flush } }"

fun observe_loop :: "observation list \<Rightarrow> int \<Rightarrow> nat \<Rightarrow> note_errors note_act" where
  "observe_loop obs now 0 = State_Monad.return [N_Stuck]"
| "observe_loop obs now (Suc k) = do {
     free;
     r \<leftarrow> locked (observe_section obs now);
     (case r of
        Observe_Exhausted \<Rightarrow> State_Monad.return [N_Sequence]
      | Observe_Lease events \<Rightarrow> do {
          e \<leftarrow> flush_for_events events;
          if e \<noteq> [] then State_Monad.return e else observe_loop obs now k }
      | Observed \<Rightarrow> flush) }"

definition observe_subscriptions :: "subscription list \<Rightarrow> snapshot \<Rightarrow> note_errors note_act" where
  "observe_subscriptions subs snap = do {
     waits \<leftarrow> unopened free;
     if waits then State_Monad.return [N_Unavailable]
     else do {
       e \<leftarrow> ensure_epoch free;
       if e \<noteq> [] then State_Monad.return e
       else do {
         now \<leftarrow> call nv_now;
         observe_loop (observations snap [] subs) now note_rounds } } }"

definition note_status :: "(nat \<times> note_errors) note_act" where
  "note_status = do {
     now \<leftarrow> call nv_now;
     free;
     locked (status_section now) }"

text \<open>What the daemon calls on the store; \<open>Op_Flush\<close> is a tick of \<^verbatim>\<open>Run\<close>, or its end.\<close>

datatype note_op =
    Op_Publish string | Op_Pending string | Op_Ack int string | Op_Replace "recipient list"
  | Op_Observe "subscription list" snapshot | Op_Status | Op_Flush

fun run_op :: "note_op \<Rightarrow> unit note_act" where
  "run_op (Op_Publish text) = do { _ \<leftarrow> publish text; State_Monad.return () }"
| "run_op (Op_Pending cursor) = do { _ \<leftarrow> pending_page cursor; State_Monad.return () }"
| "run_op (Op_Ack chat key) = do { _ \<leftarrow> ack chat key; State_Monad.return () }"
| "run_op (Op_Replace rs) = do { _ \<leftarrow> replace_recipients rs; State_Monad.return () }"
| "run_op (Op_Observe subs snap) = do { _ \<leftarrow> observe_subscriptions subs snap; State_Monad.return () }"
| "run_op Op_Status = do { _ \<leftarrow> note_status; State_Monad.return () }"
| "run_op Op_Flush = do { _ \<leftarrow> flush; State_Monad.return () }"

fun run_ops :: "note_op list \<Rightarrow> unit note_act" where
  "run_ops [] = State_Monad.return ()"
| "run_ops (op # ops) = do { run_op op; run_ops ops }"

end
