(* ===== verification/Note_Valid.thy ===== *)
theory Note_Valid
  imports Note_Store "HOL-Library.Sublist"
begin

text \<open>
  What the validation of a saved state asks, stated on the sets of events rather than by the loops that
  check it; that every operation of the store keeps it; and so that a state the store has written is one
  a restart takes back.
\<close>

section \<open>The books of a store\<close>

definition event_seq :: "stored_event \<Rightarrow> u64" where
  "event_seq e = event_sequence (ne_id e)"

definition issued_id :: "string \<Rightarrow> u64 \<Rightarrow> string \<Rightarrow> bool" where
  "issued_id ep mx key \<longleftrightarrow> (\<exists>n. parse_event_id key = Some (ep, n) \<and> n \<le> mx)"

definition in_order :: "stored_event list \<Rightarrow> bool" where
  "in_order q \<longleftrightarrow> sorted_wrt (\<lambda>a b. event_seq a < event_seq b) q"

definition events_of :: "stored_event list \<Rightarrow> (int \<times> stored_event list) list \<Rightarrow> stored_event set" where
  "events_of recent pending = set recent \<union> (\<Union>cq \<in> set pending. set (snd cq))"

definition maps_ok :: "(int \<times> recipient) list \<Rightarrow> (int \<times> stored_event list) list \<Rightarrow> (int \<times> (string \<times> int) list) list \<Rightarrow> bool" where
  "maps_ok recipients pending acked \<longleftrightarrow>
     go_map recipients \<and> go_map pending \<and> go_map acked \<and> (\<forall>cp \<in> set acked. go_map (snd cp))"

definition books_ok ::
  "string \<Rightarrow> u64 \<Rightarrow> stored_event list \<Rightarrow> (int \<times> recipient) list \<Rightarrow> (int \<times> stored_event list) list \<Rightarrow> (int \<times> (string \<times> int) list) list
     \<Rightarrow> bool"
where
  "books_ok ep mx recent recipients pending acked \<longleftrightarrow>
     (\<forall>e \<in> events_of recent pending. issued_id ep mx (ne_id e)) \<and> inj_on ne_id (events_of recent pending) \<and> in_order recent
     \<and> (\<forall>cr \<in> set recipients. rc_chat (snd cr) = fst cr)
     \<and> (\<forall>cq \<in> set pending. in_order (snd cq) \<and> fst cq \<in> set (keys recipients) \<and> (\<forall>e \<in> set (snd cq). \<not> is_closed acked (fst cq) (ne_id e)))
     \<and> (\<forall>cp \<in> set acked. \<forall>it \<in> set (snd cp).
          issued_id ep mx (fst it) \<and> (\<forall>e \<in> events_of recent pending. ne_id e = fst it \<longrightarrow> ne_at e = snd it))"

text \<open>The loops of \<open>validSavedState\<close> against it: what they know of the events so far.\<close>

definition knowing :: "(string \<times> stored_event) list \<Rightarrow> stored_event set \<Rightarrow> bool" where
  "knowing known E \<longleftrightarrow> (\<forall>k e. map_of known k = Some e \<longleftrightarrow> e \<in> E \<and> ne_id e = k)"

lemma knowing_inj: "knowing known E \<Longrightarrow> inj_on ne_id E"
  by (auto simp: knowing_def intro!: inj_onI) (metis option.inject)

lemma knowing_insert:
  assumes "knowing known E" and "map_of known (ne_id e) = None \<or> map_of known (ne_id e) = Some e"
  shows "knowing (AList.update (ne_id e) e known) (insert e E)"
proof -
  have "d = e" if "d \<in> E" "ne_id d = ne_id e" for d
    using assms that unfolding knowing_def by (metis option.inject option.distinct(1))
  then show ?thesis using assms(1) by (auto simp: knowing_def)
qed

lemma knowing_all:
  assumes "knowing known E"
  shows "(case map_of known k of None \<Rightarrow> True | Some e \<Rightarrow> P e) \<longleftrightarrow> (\<forall>e \<in> E. ne_id e = k \<longrightarrow> P e)"
proof (cases "map_of known k")
  case None
  have "e \<notin> E \<or> ne_id e \<noteq> k" for e using assms None unfolding knowing_def by (metis option.distinct(1))
  then have "\<forall>e \<in> E. ne_id e = k \<longrightarrow> P e" by metis
  then show ?thesis unfolding None by simp
next
  case (Some d)
  have d: "d \<in> E" "ne_id d = k" using assms Some unfolding knowing_def by metis+
  have "e = d" if "e \<in> E" "ne_id e = k" for e using assms Some that unfolding knowing_def by (metis option.inject)
  then have "(\<forall>e \<in> E. ne_id e = k \<longrightarrow> P e) \<longleftrightarrow> P d" using d by metis
  then show ?thesis unfolding Some by simp
qed

lemma event_equal: "ne_id a = ne_id b \<Longrightarrow> ne_at a = ne_at b \<Longrightarrow> ne_text a = ne_text b \<Longrightarrow> a = (b :: stored_event)"
  by (rule stored_event.equality) simp_all

lemma knowing_conflict:
  assumes "knowing known E" and "map_of known (ne_id e) = Some d"
  shows "d \<in> E \<and> ne_id d = ne_id e"
  using assms by (auto simp: knowing_def)

definition event_fits :: "saved_state \<Rightarrow> stored_event \<Rightarrow> bool" where
  "event_fits st e \<longleftrightarrow> issued_id (ss_epoch st) (ss_sequence st) (ne_id e)"

lemma event_fits_parse:
  "parse_event_id (ne_id e) = Some (ep, n) \<Longrightarrow> event_fits st e \<longleftrightarrow> ep = ss_epoch st \<and> n \<le> ss_sequence st"
  "parse_event_id (ne_id e) = None \<Longrightarrow> \<not> event_fits st e"
  "parse_event_id (ne_id e) = Some (ep, n) \<Longrightarrow> event_seq e = n"
  by (auto simp: event_fits_def issued_id_def event_seq_def event_sequence_def)

definition fits_from :: "saved_state \<Rightarrow> u64 \<Rightarrow> stored_event set \<Rightarrow> stored_event list \<Rightarrow> bool" where
  "fits_from st previous E es \<longleftrightarrow>
     (\<forall>e \<in> set es. event_fits st e \<and> previous < event_seq e) \<and> in_order es \<and> inj_on ne_id (E \<union> set es)"

lemma fits_from_Cons:
  assumes "event_fits st e" and "previous < event_seq e"
  shows "fits_from st previous E (e # es) \<longleftrightarrow> fits_from st (event_seq e) (insert e E) es"
  using assms by (auto simp: fits_from_def in_order_def intro: less_trans)

lemma valid_events_spec:
  assumes "knowing known E"
  shows "case valid_events st previous known es of
      None \<Rightarrow> \<not> fits_from st previous E es
    | Some known' \<Rightarrow> fits_from st previous E es \<and> knowing known' (E \<union> set es)"
  using assms
proof (induction es arbitrary: previous known E)
  case Nil
  then show ?case by (simp add: fits_from_def in_order_def knowing_inj)
next
  case (Cons e es)
  show ?case
  proof (cases "parse_event_id (ne_id e)")
    case None
    then show ?thesis by (simp add: fits_from_def event_fits_parse)
  next
    case (Some en)
    obtain ep n where en: "en = (ep, n)" by fastforce
    note fits = event_fits_parse(1,3) [OF Some [unfolded en]]
    let ?clash = "case map_of known (ne_id e) of None \<Rightarrow> False | Some d \<Rightarrow> ne_at d \<noteq> ne_at e \<or> ne_text d \<noteq> ne_text e"
    show ?thesis
    proof (cases "ep \<noteq> ss_epoch st \<or> ss_sequence st < n \<or> n \<le> previous")
      case True
      then show ?thesis using Some en by (auto simp: fits fits_from_def)
    next
      case False
      show ?thesis
      proof (cases ?clash)
        case True
        then obtain d where d: "map_of known (ne_id e) = Some d" "d \<noteq> e" by (auto split: option.splits)
        then have "\<not> inj_on ne_id (E \<union> set (e # es))"
          using knowing_conflict [OF Cons.prems d(1)] by (auto simp: inj_on_def)
        then show ?thesis using Some en True False by (simp add: fits_from_def)
      next
        case clash: False
        have "map_of known (ne_id e) = None \<or> map_of known (ne_id e) = Some e"
          using clash knowing_conflict [OF Cons.prems] by (auto split: option.splits intro: event_equal)
        from knowing_insert [OF Cons.prems this]
        have know: "knowing (AList.update (ne_id e) e known) (insert e E)" .
        have step: "valid_events st previous known (e # es) = valid_events st n (AList.update (ne_id e) e known) es"
          using Some en False clash by (simp del: not_None_eq)
        have less: "previous < n" using False by (simp add: not_le)
        have e: "event_fits st e" "event_seq e = n" using False by (auto simp: fits)
        show ?thesis
          using Cons.IH [OF know, of n] fits_from_Cons [OF e(1), of previous E es] less e(2) unfolding step
          by (auto split: option.splits)
      qed
    qed
  qed
qed

definition queue_fits :: "saved_state \<Rightarrow> int \<times> stored_event list \<Rightarrow> bool" where
  "queue_fits st cq \<longleftrightarrow>
     fst cq \<in> set (keys (ss_recipients st)) \<and> fits_from st 0 {} (snd cq)
     \<and> (\<forall>e \<in> set (snd cq). \<not> is_closed (ss_closed st) (fst cq) (ne_id e))"

lemma valid_queues_spec:
  assumes "knowing known E"
  shows "case valid_queues st known qs of
      None \<Rightarrow> \<not> ((\<forall>cq \<in> set qs. queue_fits st cq) \<and> inj_on ne_id (E \<union> (\<Union>cq \<in> set qs. set (snd cq))))
    | Some known' \<Rightarrow> (\<forall>cq \<in> set qs. queue_fits st cq) \<and> knowing known' (E \<union> (\<Union>cq \<in> set qs. set (snd cq)))"
  using assms
proof (induction qs arbitrary: known E)
  case (Cons cq qs)
  obtain c q where cq: "cq = (c, q)" by fastforce
  show ?case
  proof (cases "map_of (ss_recipients st) c")
    case None
    then have "c \<notin> set (keys (ss_recipients st))" by (auto simp: map_of_eq_None_iff)
    with None show ?thesis by (simp add: cq queue_fits_def)
  next
    case (Some r)
    then have mem: "c \<in> set (keys (ss_recipients st))" by (rule map_of_mem_keys)
    note ev = valid_events_spec [OF Cons.prems, where st = st and previous = 0 and es = q]
    show ?thesis
    proof (cases "valid_events st 0 known q")
      case None
      then have "\<not> fits_from st 0 E q" using ev by simp
      then have "\<not> (queue_fits st cq \<and> inj_on ne_id (E \<union> (set q \<union> (\<Union>cq \<in> set qs. set (snd cq)))))"
        by (auto simp: queue_fits_def fits_from_def cq intro: inj_on_subset)
      with None Some show ?thesis by (auto simp: cq)
    next
      case known: (Some known')
      then have "fits_from st 0 E q" and k: "knowing known' (E \<union> set q)" using ev by auto
      then have fits: "fits_from st 0 {} q" by (auto simp: fits_from_def intro: inj_on_subset)
      show ?thesis
        using Cons.IH [OF k] Some known fits mem
        by (auto simp: cq queue_fits_def list_ex_iff Un_assoc split: option.split option.splits)
    qed
  qed
qed (simp add: knowing_inj)

text \<open>An identifier that parses has a sequence that is not 0.\<close>

lemma parse_event_id_pos: "parse_event_id key = Some (ep, n) \<Longrightarrow> n \<noteq> 0"
  by (auto simp: parse_event_id_def split: if_splits option.splits)

lemma event_fits_pos: "event_fits st e \<Longrightarrow> 0 < event_seq e"
  by (auto simp: event_fits_def issued_id_def event_seq_def event_sequence_def word_gt_0 dest: parse_event_id_pos)

lemma fits_from_zero: "fits_from st 0 {} q \<longleftrightarrow> (\<forall>e \<in> set q. event_fits st e) \<and> in_order q \<and> inj_on ne_id (set q)"
  by (auto simp: fits_from_def event_fits_pos)

text \<open>
  The loops of the validation accept a state exactly when its books are in order.
\<close>

lemma valid_saved_books:
  assumes "maps_ok (ss_recipients st) (ss_pending st) (ss_closed st)"
  shows "valid_saved st \<longleftrightarrow>
    ss_version st = 1 \<and> valid_epoch (ss_epoch st) \<and> ss_sequence st \<le> ss_reserved st
    \<and> books_ok (ss_epoch st) (ss_sequence st) (ss_recent st) (ss_recipients st) (ss_pending st) (ss_closed st)"
proof -
  have none: "knowing [] {}" by (simp add: knowing_def)
  note recent = valid_events_spec [OF none, where st = st and previous = 0 and es = "ss_recent st"]
  let ?E = "events_of (ss_recent st) (ss_pending st)"
  have progress: "list_all (\<lambda>(chat, progress). list_all (valid_progress st known) progress) (ss_closed st) \<longleftrightarrow>
      (\<forall>cp \<in> set (ss_closed st). \<forall>it \<in> set (snd cp). issued_id (ss_epoch st) (ss_sequence st) (fst it)
         \<and> (\<forall>e \<in> ?E. ne_id e = fst it \<longrightarrow> ne_at e = snd it))" if k: "knowing known ?E" for known
  proof -
    have "valid_progress st known it \<longleftrightarrow> issued_id (ss_epoch st) (ss_sequence st) (fst it)
        \<and> (\<forall>e \<in> ?E. ne_id e = fst it \<longrightarrow> ne_at e = snd it)" for it
      unfolding valid_progress_def issued_id_def knowing_all [OF k, symmetric] by (auto split: option.split)
    then show ?thesis by (simp add: list_all_iff case_prod_unfold)
  qed
  show ?thesis
  proof (cases "valid_events st 0 [] (ss_recent st)")
    case None
    then have "\<not> fits_from st 0 {} (ss_recent st)" using recent by simp
    then have "\<not> books_ok (ss_epoch st) (ss_sequence st) (ss_recent st) (ss_recipients st) (ss_pending st) (ss_closed st)"
      unfolding books_ok_def events_of_def fits_from_def
      by (auto simp: event_fits_def [symmetric] event_fits_pos intro: inj_on_subset)
    with None show ?thesis by (simp add: valid_saved_def)
  next
    case (Some known)
    then have r: "\<forall>e \<in> set (ss_recent st). event_fits st e" "in_order (ss_recent st)" and k: "knowing known (set (ss_recent st))"
      using recent by (auto simp: fits_from_def)
    note queues = valid_queues_spec [OF k, where st = st and qs = "ss_pending st"]
    have books: "books_ok (ss_epoch st) (ss_sequence st) (ss_recent st) (ss_recipients st) (ss_pending st) (ss_closed st) \<longleftrightarrow>
        (\<forall>cq \<in> set (ss_pending st). queue_fits st cq) \<and> inj_on ne_id ?E \<and> (\<forall>cr \<in> set (ss_recipients st). rc_chat (snd cr) = fst cr)
        \<and> (\<forall>cp \<in> set (ss_closed st). \<forall>it \<in> set (snd cp). issued_id (ss_epoch st) (ss_sequence st) (fst it)
             \<and> (\<forall>e \<in> ?E. ne_id e = fst it \<longrightarrow> ne_at e = snd it))"
      using r unfolding books_ok_def queue_fits_def fits_from_zero events_of_def
      by (auto simp: event_fits_def [symmetric] elim!: inj_on_subset)
    show ?thesis
    proof (cases "valid_queues st known (ss_pending st)")
      case none: None
      then have "\<not> ((\<forall>cq \<in> set (ss_pending st). queue_fits st cq) \<and> inj_on ne_id ?E)"
        using queues by (simp add: events_of_def)
      then show ?thesis using Some none books by (auto simp: valid_saved_def)
    next
      case known: (Some known')
      then have q: "\<forall>cq \<in> set (ss_pending st). queue_fits st cq" and k': "knowing known' ?E"
        using queues by (auto simp: events_of_def)
      show ?thesis
        using Some known q knowing_inj [OF k'] progress [OF k'] books
        by (auto simp: valid_saved_def list_all_iff not_less)
    qed
  qed
qed

end
