(* ===== verification/Note_Books.thy ===== *)
theory Note_Books
  imports Note_Valid
begin

text \<open>
  Every operation of the notification store keeps its books in order: strictly increasing queues of
  identifiers of its own epoch, one event to an identifier, nothing queued that the chat acknowledged.
\<close>

definition store_books :: "note_store \<Rightarrow> bool" where
  "store_books s \<longleftrightarrow>
     books_ok (nt_epoch s) (nt_sequence s) (nt_recent s) (nt_recipients s) (nt_pending s) (nt_closed s)
     \<and> maps_ok (nt_recipients s) (nt_pending s) (nt_closed s)"

section \<open>Maps\<close>

lemma map_of_iff: "go_map m \<Longrightarrow> map_of m k = Some v \<longleftrightarrow> (k, v) \<in> set m"
  by (rule map_of_eq_Some_iff)

lemma is_closed_iff:
  assumes "go_map acked"
  shows "is_closed acked chat key \<longleftrightarrow> (\<exists>p t. (chat, p) \<in> set acked \<and> (key, t) \<in> set p)"
proof (cases "map_of acked chat")
  case None
  then have "(chat, p) \<notin> set acked" for p by (force simp: map_of_eq_None_iff)
  with None show ?thesis by (simp add: is_closed_def)
next
  case (Some p)
  then have "(chat, p') \<in> set acked \<longleftrightarrow> p' = p" for p' using map_of_iff [OF assms] by (metis option.inject)
  moreover have "map_of p key \<noteq> None \<longleftrightarrow> (\<exists>t. (key, t) \<in> set p)" by (force simp: map_of_eq_None_iff)
  ultimately show ?thesis using Some by (simp add: is_closed_def)
qed

lemma queue_of_mem: "e \<in> set (queue_of pending chat) \<Longrightarrow> \<exists>q. (chat, q) \<in> set pending \<and> queue_of pending chat = q"
  by (auto simp: queue_of_def split: option.splits dest: map_of_SomeD)

section \<open>Smaller books\<close>

lemma in_order_subseq: "subseq xs ys \<Longrightarrow> in_order ys \<Longrightarrow> in_order xs"
proof (induction rule: list_emb.induct)
  case (list_emb_Cons2 x y xs ys)
  then have "set xs \<subseteq> set ys" by (auto dest: list_emb_set)
  with list_emb_Cons2 show ?case by (auto simp: in_order_def)
qed (auto simp: in_order_def)

lemma subseq_subset: "subseq xs ys \<Longrightarrow> set xs \<subseteq> set ys"
  by (auto dest: list_emb_set)

lemma issued_id_mono: "issued_id ep mx key \<Longrightarrow> mx \<le> mx' \<Longrightarrow> issued_id ep mx' key"
  by (auto simp: issued_id_def)

lemma books_shrink:
  assumes ok: "books_ok ep mx recent recipients pending acked" and mx: "mx \<le> mx'"
    and recent: "subseq recent' recent"
    and pending: "\<And>c q. (c, q) \<in> set pending' \<Longrightarrow> \<exists>q0. (c, q0) \<in> set pending \<and> subseq q q0"
    and acked: "\<And>c p. (c, p) \<in> set acked' \<Longrightarrow> \<exists>p0. (c, p0) \<in> set acked \<and> set p \<subseteq> set p0"
    and fewer: "\<And>c k. is_closed acked' c k \<Longrightarrow> is_closed acked c k"
  shows "books_ok ep mx' recent' recipients pending' acked'"
proof -
  have events: "events_of recent' pending' \<subseteq> events_of recent pending"
    using subseq_subset [OF recent] pending by (fastforce simp: events_of_def dest: subseq_subset)
  have queues: "in_order q \<and> c \<in> set (keys recipients) \<and> (\<forall>e \<in> set q. \<not> is_closed acked' c (ne_id e))" if m: "(c, q) \<in> set pending'" for c q
  proof -
    obtain q0 where q0: "(c, q0) \<in> set pending" "subseq q q0" using pending [OF m] by blast
    then have "in_order q0" "c \<in> set (keys recipients)" "\<forall>e \<in> set q0. \<not> is_closed acked c (ne_id e)"
      using ok unfolding books_ok_def by fastforce+
    then show ?thesis using in_order_subseq [OF q0(2)] subseq_subset [OF q0(2)] fewer by blast
  qed
  have progress: "issued_id ep mx' k \<and> (\<forall>e \<in> events_of recent' pending'. ne_id e = k \<longrightarrow> ne_at e = t)"
    if m: "(c, p) \<in> set acked'" "(k, t) \<in> set p" for c p k t
  proof -
    obtain p0 where "(c, p0) \<in> set acked" "(k, t) \<in> set p0" using acked [OF m(1)] m(2) by blast
    then have "issued_id ep mx k" "\<forall>e \<in> events_of recent pending. ne_id e = k \<longrightarrow> ne_at e = t"
      using ok unfolding books_ok_def by fastforce+
    then show ?thesis using issued_id_mono [OF _ mx] events by blast
  qed
  have "\<forall>e \<in> events_of recent' pending'. issued_id ep mx' (ne_id e)"
    using ok events issued_id_mono [OF _ mx] unfolding books_ok_def by blast
  moreover have "inj_on ne_id (events_of recent' pending')"
    using ok events unfolding books_ok_def by (metis inj_on_subset)
  moreover have "in_order recent'" using ok in_order_subseq [OF recent] unfolding books_ok_def by blast
  ultimately show ?thesis
    using ok queues progress unfolding books_ok_def by (auto simp del: list.set_map)
qed

lemma bounded_step_subseq: "subseq (bounded_step now limit keep kept e) (kept @ [e])"
  by (cases kept) (auto simp: bounded_step_def intro: subseq_append' list_emb_append2)

lemma bounded_subseq: "subseq (bounded_events events now limit keep) events"
proof -
  have "subseq (foldl (bounded_step now limit keep) kept events) (kept @ events)" for kept
  proof (induction events arbitrary: kept)
    case (Cons e es)
    have "subseq (foldl (bounded_step now limit keep) (bounded_step now limit keep kept e) es) (bounded_step now limit keep kept e @ es)"
      by (rule Cons.IH)
    also have "subseq (bounded_step now limit keep kept e @ es) ((kept @ [e]) @ es)"
      by (intro list_emb_append_mono bounded_step_subseq) simp
    finally show ?case by simp
  qed simp
  from this [of "[]"] show ?thesis by (simp add: bounded_events_def)
qed

lemma bounded_keeps:
  assumes "e \<in> set (bounded_events events now limit keep)"
  shows "keep e" "sub_time now (ne_at e) \<le> max_age"
proof -
  have "\<forall>x \<in> set (foldl (bounded_step now limit keep) kept events). keep x \<and> sub_time now (ne_at x) \<le> max_age"
    if "\<forall>x \<in> set kept. keep x \<and> sub_time now (ne_at x) \<le> max_age" for kept
    using that
  proof (induction events arbitrary: kept)
    case (Cons e es)
    have "\<forall>x \<in> set (bounded_step now limit keep kept e). keep x \<and> sub_time now (ne_at x) \<le> max_age"
      using Cons.prems by (cases kept) (auto simp: bounded_step_def)
    from Cons.IH [OF this] show ?case by simp
  qed simp
  from this [of "[]"] assms show "keep e" "sub_time now (ne_at e) \<le> max_age" by (auto simp: bounded_events_def)
qed

lemma bounded_length: "0 < limit \<Longrightarrow> length (bounded_events events now limit keep) \<le> limit"
proof -
  assume "0 < limit"
  then have "length (foldl (bounded_step now limit keep) kept events) \<le> limit" if "length kept \<le> limit" for kept
    using that
  proof (induction events arbitrary: kept)
    case (Cons e es)
    have "length (bounded_step now limit keep kept e) \<le> limit"
      using Cons.prems by (auto simp: bounded_step_def)
    from Cons.IH [OF Cons.prems(1) this] show ?case by simp
  qed simp
  from this [of "[]"] show ?thesis by (simp add: bounded_events_def)
qed

section \<open>Pruning\<close>

lemma prune_pending_mem:
  assumes "(c, q) \<in> set (prune_pending now recipients acked pending)"
  shows "\<exists>q0 r. (c, q0) \<in> set pending \<and> map_of recipients c = Some r \<and> q \<noteq> []
    \<and> q = bounded_events q0 now max_per_chat (\<lambda>e. \<not> is_closed acked c (ne_id e) \<and> rc_first r \<le> ne_at e)"
  using assms
proof (induction pending)
  case (Cons cq pending)
  then show ?case
    by (cases cq; cases "map_of recipients (fst cq)") (auto simp: Let_def split: if_splits)
qed simp

lemma prune_pending_keys: "set (keys (prune_pending now recipients acked pending)) \<subseteq> set (keys pending)"
  using prune_pending_mem by force

lemma prune_pending_map: "go_map pending \<Longrightarrow> go_map (prune_pending now recipients acked pending)"
proof (induction pending)
  case (Cons cq pending)
  then show ?case
    using prune_pending_keys [of now recipients acked pending]
    by (cases cq; cases "map_of recipients (fst cq)") (auto simp: Let_def)
qed simp

lemma go_map_filter: "go_map m \<Longrightarrow> go_map (filter P m)"
  by (induction m) auto

lemma prune_closed_mem:
  "(c, p) \<in> set (prune_closed live acked) \<longleftrightarrow>
     p \<noteq> [] \<and> (\<exists>p0. (c, p0) \<in> set acked \<and> p = filter (\<lambda>(k, t). k \<in> set live) p0)"
  by (fastforce simp: prune_closed_def)

lemma keys_map_snd: "keys (map (\<lambda>(k, v). (k, f v)) m) = keys m"
  by (induction m) auto

lemma prune_closed_map:
  assumes "go_map acked" and "\<forall>cp \<in> set acked. go_map (snd cp)"
  shows "go_map (prune_closed live acked) \<and> (\<forall>cp \<in> set (prune_closed live acked). go_map (snd cp))"
proof -
  have "go_map (map (\<lambda>(chat, p). (chat, filter (\<lambda>(k, t). k \<in> set live) p)) acked)"
    using assms(1) by (simp only: keys_map_snd)
  then have "go_map (prune_closed live acked)"
    unfolding prune_closed_def by (rule go_map_filter)
  moreover have "go_map p" if m: "(c, p) \<in> set (prune_closed live acked)" for c p
  proof -
    obtain p0 where p0: "(c, p0) \<in> set acked" "p = filter (\<lambda>(k, t). k \<in> set live) p0" using m by (auto simp: prune_closed_mem)
    then have "go_map p0" using assms(2) by force
    then show ?thesis unfolding p0(2) by (rule go_map_filter)
  qed
  ultimately show ?thesis by auto
qed

lemma prune_books:
  assumes "store_books s"
  shows "store_books (prune now s)"
proof -
  let ?recent = "bounded_events (nt_recent s) now max_recent (\<lambda>e. True)"
  let ?acked = "prune_closed (map ne_id ?recent) (nt_closed s)"
  let ?pending = "prune_pending now (nt_recipients s) ?acked (nt_pending s)"
  have maps: "go_map (nt_recipients s)" "go_map (nt_pending s)" "go_map (nt_closed s)" "\<forall>cp \<in> set (nt_closed s). go_map (snd cp)"
    using assms by (auto simp: store_books_def maps_ok_def)
  note acked = prune_closed_map [OF maps(3,4), of "map ne_id ?recent"]
  have fewer: "is_closed (nt_closed s) c k" if "is_closed ?acked c k" for c k
  proof -
    obtain p t where "(c, p) \<in> set ?acked" "(k, t) \<in> set p"
      using \<open>is_closed ?acked c k\<close> is_closed_iff [OF conjunct1 [OF acked], of c k] by blast
    then obtain p0 where "(c, p0) \<in> set (nt_closed s)" "(k, t) \<in> set p0" by (auto simp: prune_closed_mem)
    then show ?thesis unfolding is_closed_iff [OF maps(3)] by blast
  qed
  have "books_ok (nt_epoch s) (nt_sequence s) ?recent (nt_recipients s) ?pending ?acked"
  proof (rule books_shrink [OF _ order_refl bounded_subseq])
    show "books_ok (nt_epoch s) (nt_sequence s) (nt_recent s) (nt_recipients s) (nt_pending s) (nt_closed s)"
      using assms by (simp add: store_books_def)
    show "\<exists>q0. (c, q0) \<in> set (nt_pending s) \<and> subseq q q0" if "(c, q) \<in> set ?pending" for c q
      using prune_pending_mem [OF that] bounded_subseq by blast
    show "\<exists>p0. (c, p0) \<in> set (nt_closed s) \<and> set p \<subseteq> set p0" if "(c, p) \<in> set ?acked" for c p
      using that by (auto simp: prune_closed_mem)
  qed (rule fewer)
  then show ?thesis
    using maps acked prune_pending_map [OF maps(2)]
    by (auto simp: store_books_def prune_def Let_def touched_def maps_ok_def)
qed

section \<open>Identifiers that print and parse\<close>

lemma length_show_nat: "n < 10 ^ k \<Longrightarrow> 0 < k \<Longrightarrow> length (show_nat n) \<le> k"
proof (induction n arbitrary: k rule: show_nat.induct)
  case (1 n)
  show ?case
  proof (cases "n < 10")
    case False
    then obtain j where j: "k = Suc j" "0 < j" using 1(2,3) by (cases k; cases "k - 1") auto
    have "n div 10 < 10 ^ j" using 1(2) j by (simp add: less_mult_imp_div_less mult.commute)
    with 1(1) [OF False _ j(2)] j False show ?thesis by (simp add: show_nat.simps [of n])
  qed (use 1 in \<open>simp add: show_nat.simps [of n]\<close>)
qed

lemma parse_show_uint64: "parse_uint64 (show_uint64 n) = Some n"
  using unsigned_less [where 'a = nat, of n] by (simp add: parse_uint64_def show_uint64_def)

lemma parse_make_event_id:
  assumes "valid_epoch e" and "n \<noteq> 0"
  shows "parse_event_id (make_event_id e n) = Some (e, n)"
proof -
  have "unat n < 10 ^ 20" using unsigned_less [where 'a = nat, of n] by simp
  then have "length (show_uint64 n) \<le> 20" unfolding show_uint64_def by (rule length_show_nat) simp
  moreover have "0 < length (show_uint64 n)" by (simp add: show_uint64_def)
  ultimately show ?thesis
    using assms by (simp add: parse_event_id_def make_event_id_def valid_epoch_def nth_append parse_show_uint64)
qed

lemma make_parse_event_id:
  assumes "parse_event_id key = Some (e, n)"
  shows "key = make_event_id e n" and "valid_epoch e" and "n \<noteq> 0"
proof -
  have "32 < length key" "key ! 32 = CHR '':''" "e = take 32 key" "show_uint64 n = drop 33 key" "list_all epoch_char (take 32 key)" "n \<noteq> 0"
    using assms by (auto simp: parse_event_id_def split: if_splits option.splits)
  then show "key = make_event_id e n" "valid_epoch e" "n \<noteq> 0"
    using id_take_nth_drop [of 32 key] by (simp_all add: make_event_id_def valid_epoch_def)
qed

lemma issued_make: "valid_epoch e \<Longrightarrow> n \<noteq> 0 \<Longrightarrow> n \<le> mx \<Longrightarrow> issued_id e mx (make_event_id e n)"
  by (simp add: issued_id_def parse_make_event_id)

lemma sequence_make: "valid_epoch e \<Longrightarrow> n \<noteq> 0 \<Longrightarrow> event_sequence (make_event_id e n) = n"
  by (simp add: event_sequence_def parse_make_event_id)

lemma issued_sequence: "issued_id e mx key \<Longrightarrow> event_sequence key \<le> mx \<and> key = make_event_id e (event_sequence key) \<and> valid_epoch e"
  by (auto simp: issued_id_def event_sequence_def dest: make_parse_event_id)

section \<open>Appending\<close>

lemma deliver_map:
  assumes "go_map recipients"
  shows "map_of (deliver e recipients pending) c =
    (case map_of recipients c of
       Some r \<Rightarrow> if rc_first r \<le> ne_at e then Some (queue_of pending c @ [e]) else map_of pending c
     | None \<Rightarrow> map_of pending c)"
  using assms unfolding deliver_def
proof (induction recipients arbitrary: pending)
  case (Cons cr recipients)
  obtain c' r where cr: "cr = (c', r)" by fastforce
  have "map_of recipients c' = None" using Cons.prems by (auto simp: cr map_of_eq_None_iff)
  moreover have "queue_of (AList.update c' q pending) c = queue_of pending c" if "c \<noteq> c'" for q
    using that by (simp add: queue_of_def)
  ultimately show ?case using Cons by (auto simp: cr split: option.split)
qed simp

lemma deliver_go_map: "go_map pending \<Longrightarrow> go_map (deliver e recipients pending)"
  unfolding deliver_def by (induction recipients arbitrary: pending) (auto simp: case_prod_beta)

lemma deliver_mem:
  assumes "go_map recipients" and "go_map pending" and "(c, q) \<in> set (deliver e recipients pending)"
  shows "(c, q) \<in> set pending \<or> c \<in> set (keys recipients) \<and> q = queue_of pending c @ [e]"
proof -
  have "map_of (deliver e recipients pending) c = Some q"
    using assms(3) deliver_go_map [OF assms(2)] by (simp add: map_of_iff)
  then show ?thesis
    using assms(2) unfolding deliver_map [OF assms(1)]
    by (auto simp: map_of_iff split: option.splits if_splits dest: map_of_mem_keys)
qed

text \<open>An event with a new identifier.\<close>

lemma books_append:
  assumes ok: "books_ok ep mx recent recipients pending acked"
    and maps: "maps_ok recipients pending acked"
    and ep: "valid_epoch ep" and less: "mx < mx + 1" and key: "ne_id e = make_event_id ep (mx + 1)"
  shows "books_ok ep (mx + 1) (recent @ [e]) recipients (deliver e recipients pending) acked"
proof -
  have pos: "mx + 1 \<noteq> 0" using less by auto
  have new: "issued_id ep (mx + 1) (ne_id e)" "event_seq e = mx + 1"
    using issued_make [OF ep pos order_refl] sequence_make [OF ep pos] by (simp_all add: key event_seq_def)
  have old: "event_seq d < event_seq e" "ne_id d \<noteq> ne_id e" if d: "issued_id ep mx (ne_id d)" for d
  proof -
    show "event_seq d < event_seq e" using issued_sequence [OF d] less new(2) by (auto simp: event_seq_def)
    then show "ne_id d \<noteq> ne_id e" by (auto simp: event_seq_def)
  qed
  have fit: "issued_id ep mx (ne_id d)" if "d \<in> events_of recent pending" for d
    using ok that unfolding books_ok_def by blast
  have queue: "in_order (queue_of pending c)" "set (queue_of pending c) \<subseteq> events_of recent pending"
      "\<forall>d \<in> set (queue_of pending c). \<not> is_closed acked c (ne_id d)" for c
  proof -
    have "in_order q \<and> set q \<subseteq> events_of recent pending \<and> (\<forall>d \<in> set q. \<not> is_closed acked c (ne_id d))" if "map_of pending c = Some q" for q
      using ok map_of_SomeD [OF that] unfolding books_ok_def events_of_def by fastforce
    then show "in_order (queue_of pending c)" "set (queue_of pending c) \<subseteq> events_of recent pending"
        "\<forall>d \<in> set (queue_of pending c). \<not> is_closed acked c (ne_id d)"
      by (cases "map_of pending c"; auto simp: queue_of_def in_order_def)+
  qed
  have delivered: "(c, q) \<in> set pending \<or> c \<in> set (keys recipients) \<and> q = queue_of pending c @ [e]"
    if "(c, q) \<in> set (deliver e recipients pending)" for c q
    using deliver_mem [OF _ _ that] maps by (auto simp: maps_ok_def)
  have events: "events_of (recent @ [e]) (deliver e recipients pending) \<subseteq> insert e (events_of recent pending)"
  proof -
    have "set q \<subseteq> insert e (events_of recent pending)" if m: "(c, q) \<in> set (deliver e recipients pending)" for c q
      using delivered [OF m] queue(2) [of c] by (auto simp: events_of_def)
    then show ?thesis unfolding events_of_def by fastforce
  qed
  have "ne_id e \<notin> ne_id ` events_of recent pending" using old(2) fit by force
  then have "inj_on ne_id (insert e (events_of recent pending))" using ok unfolding books_ok_def by (auto simp: inj_on_insert)
  then have inj: "inj_on ne_id (events_of (recent @ [e]) (deliver e recipients pending))" by (rule inj_on_subset [OF _ events])
  have grown: "in_order (q @ [e])" if "in_order q" "set q \<subseteq> events_of recent pending" for q
    using that old(1) fit unfolding in_order_def by (auto simp: sorted_wrt_append)
  have known: "issued_id ep mx k" "\<forall>d \<in> events_of recent pending. ne_id d = k \<longrightarrow> ne_at d = t" if "(c, p) \<in> set acked" "(k, t) \<in> set p" for c p k t
    using ok that unfolding books_ok_def by fastforce+
  have open_new: "\<not> is_closed acked c (ne_id e)" for c
  proof
    assume "is_closed acked c (ne_id e)"
    then obtain p t where "(c, p) \<in> set acked" "(ne_id e, t) \<in> set p"
      using is_closed_iff [of acked] maps by (auto simp: maps_ok_def)
    then show False using known(1) old(2) by blast
  qed
  have queues: "in_order q \<and> c \<in> set (keys recipients) \<and> (\<forall>d \<in> set q. \<not> is_closed acked c (ne_id d))"
    if m: "(c, q) \<in> set (deliver e recipients pending)" for c q
    using delivered [OF m]
  proof
    assume "(c, q) \<in> set pending"
    then show ?thesis using ok unfolding books_ok_def by fastforce
  next
    assume "c \<in> set (keys recipients) \<and> q = queue_of pending c @ [e]"
    then show ?thesis using grown [OF queue(1,2)] queue(3) open_new by simp
  qed
  have "issued_id ep (mx + 1) (ne_id d)" if "d \<in> events_of (recent @ [e]) (deliver e recipients pending)" for d
    using that events new(1) issued_id_mono [OF fit, of d "mx + 1"] less by auto
  moreover have "in_order (recent @ [e])" by (rule grown) (use ok in \<open>auto simp: books_ok_def events_of_def\<close>)
  moreover have "issued_id ep (mx + 1) k \<and> (\<forall>d \<in> events_of (recent @ [e]) (deliver e recipients pending). ne_id d = k \<longrightarrow> ne_at d = t)"
    if m: "(c, p) \<in> set acked" "(k, t) \<in> set p" for c p k t
  proof -
    have "k \<noteq> ne_id e" using known(1) [OF m] old(2) by blast
    then show ?thesis
      using known [OF m] issued_id_mono [OF known(1) [OF m], of "mx + 1"] less_imp_le [OF less] events by blast
  qed
  ultimately show ?thesis
    using ok inj queues unfolding books_ok_def by (auto simp del: list.set_map)
qed

lemma append_books:
  assumes ok: "store_books s" and ep: "valid_epoch (nt_epoch s)" and less: "nt_sequence s < nt_sequence s + 1"
  shows "store_books (append_event msg now s)"
proof -
  let ?e = "\<lparr>ne_id = make_event_id (nt_epoch s) (nt_sequence s + 1), ne_at = now, ne_text = msg\<rparr>"
  have "books_ok (nt_epoch s) (nt_sequence s + 1) (nt_recent s @ [?e]) (nt_recipients s) (deliver ?e (nt_recipients s) (nt_pending s)) (nt_closed s)"
    by (rule books_append [OF _ _ ep less]) (use ok in \<open>simp_all add: store_books_def\<close>)
  moreover have "maps_ok (nt_recipients s) (deliver ?e (nt_recipients s) (nt_pending s)) (nt_closed s)"
    using ok deliver_go_map by (auto simp: store_books_def maps_ok_def)
  ultimately show ?thesis
    unfolding append_event_def Let_def by (intro prune_books) (simp add: store_books_def)
qed

section \<open>Fields the books do not look at\<close>

lemma books_fields [simp]:
  "store_books (s\<lparr>nt_health := h\<rparr>) = store_books s" "store_books (s\<lparr>nt_revision := n\<rparr>) = store_books s"
  "store_books (s\<lparr>nt_error := e\<rparr>) = store_books s" "store_books (s\<lparr>nt_open := b\<rparr>) = store_books s"
  "store_books (s\<lparr>nt_backlog := q\<rparr>) = store_books s" "store_books (s\<lparr>nt_backup := b\<rparr>) = store_books s"
  "store_books (s\<lparr>nt_path := f\<rparr>) = store_books s" "store_books (s\<lparr>nt_saved := n\<rparr>) = store_books s"
  "store_books (s\<lparr>nt_reserved := n\<rparr>) = store_books s" "store_books (s\<lparr>nt_log := l\<rparr>) = store_books s"
  by (simp_all add: store_books_def)

lemma books_touched [simp]: "store_books (touched b s) = store_books s"
  by (simp add: touched_def)

section \<open>Acknowledging\<close>

lemma is_closed_update:
  "is_closed (AList.update chat (AList.update key t (progress_of acked chat)) acked) c k
    \<longleftrightarrow> (c = chat \<and> k = key) \<or> is_closed acked c k"
  by (auto simp: is_closed_def progress_of_def update_conv' split: option.split)

lemma progress_go:
  assumes "\<forall>cp \<in> set acked. go_map (snd cp)"
  shows "go_map (progress_of acked chat)"
proof (cases "map_of acked chat")
  case (Some p)
  then have "(chat, p) \<in> set acked" by (rule map_of_SomeD)
  with assms Some show ?thesis by (force simp: progress_of_def)
qed (simp add: progress_of_def)

lemma progress_mem:
  assumes "go_map acked" and "\<forall>cp \<in> set acked. go_map (snd cp)"
    and "(c, p) \<in> set (AList.update chat (AList.update key t (progress_of acked chat)) acked)" and "(k, u) \<in> set p"
  shows "(k = key \<and> u = t) \<or> (\<exists>p0. (c, p0) \<in> set acked \<and> (k, u) \<in> set p0)"
proof -
  note progress = progress_go [OF assms(2), of chat]
  have "map_of (AList.update chat (AList.update key t (progress_of acked chat)) acked) c = Some p"
    by (rule map_of_is_SomeI [OF distinct_update [OF assms(1)] assms(3)])
  then consider "c = chat" "p = AList.update key t (progress_of acked chat)" | "map_of acked c = Some p"
    by (cases "c = chat") simp_all
  then show ?thesis
  proof cases
    case 1
    then have "map_of (AList.update key t (progress_of acked chat)) k = Some u"
      using map_of_is_SomeI [OF distinct_update [OF progress]] assms(4) by blast
    then show ?thesis
      using 1 progress
      by (auto simp: update_conv' map_of_iff progress_of_def split: if_splits option.splits dest!: map_of_SomeD)
  next
    case 2
    then show ?thesis using assms(4) by (blast dest: map_of_SomeD)
  qed
qed

lemma progress_maps:
  assumes "go_map acked" and "\<forall>cp \<in> set acked. go_map (snd cp)"
  shows "go_map (AList.update chat (AList.update key t (progress_of acked chat)) acked)
    \<and> (\<forall>cp \<in> set (AList.update chat (AList.update key t (progress_of acked chat)) acked). go_map (snd cp))"
proof -
  let ?p = "AList.update key t (progress_of acked chat)"
  have "go_map ?p" using progress_go [OF assms(2)] by (rule distinct_update)
  moreover have "go_map (AList.update chat ?p acked)" using assms(1) by (rule distinct_update)
  moreover have "go_map p" if m: "(c, p) \<in> set (AList.update chat ?p acked)" for c p
  proof -
    have "map_of (AList.update chat ?p acked) c = Some p"
      by (rule map_of_is_SomeI [OF distinct_update [OF assms(1)] m])
    then have "p = ?p \<or> (c, p) \<in> set acked" by (auto simp: update_conv' split: if_splits dest: map_of_SomeD)
    then show ?thesis using \<open>go_map ?p\<close> assms(2) by force
  qed
  ultimately show ?thesis by auto
qed

lemma books_close:
  assumes ok: "books_ok ep mx recent recipients pending acked" and maps: "go_map acked" "\<forall>cp \<in> set acked. go_map (snd cp)"
    and e: "e \<in> set recent" "ne_id e = key"
    and gone: "\<And>q d. (chat, q) \<in> set pending \<Longrightarrow> d \<in> set q \<Longrightarrow> ne_id d \<noteq> key"
  shows "books_ok ep mx recent recipients pending (AList.update chat (AList.update key (ne_at e) (progress_of acked chat)) acked)"
proof -
  let ?acked = "AList.update chat (AList.update key (ne_at e) (progress_of acked chat)) acked"
  have mem: "e \<in> events_of recent pending" using e by (simp add: events_of_def)
  have same: "d = e" if "d \<in> events_of recent pending" "ne_id d = key" for d
    using ok mem that e(2) unfolding books_ok_def by (metis inj_onD)
  have "issued_id ep mx k \<and> (\<forall>d \<in> events_of recent pending. ne_id d = k \<longrightarrow> ne_at d = u)"
    if m: "(c, p) \<in> set ?acked" "(k, u) \<in> set p" for c p k u
    using progress_mem [OF maps m]
  proof
    assume "k = key \<and> u = ne_at e"
    then show ?thesis using ok mem same e(2) unfolding books_ok_def by blast
  next
    assume "\<exists>p0. (c, p0) \<in> set acked \<and> (k, u) \<in> set p0"
    then show ?thesis using ok unfolding books_ok_def by fastforce
  qed
  moreover have "\<not> is_closed ?acked c (ne_id d)" if m: "(c, q) \<in> set pending" "d \<in> set q" for c q d
  proof -
    have "\<not> is_closed acked c (ne_id d)" using ok m unfolding books_ok_def by fastforce
    then show ?thesis using gone m unfolding is_closed_update by blast
  qed
  ultimately show ?thesis using ok unfolding books_ok_def by (auto simp del: list.set_map)
qed

lemma store_queue_map: "map_of (store_queue chat q pending) c = (if c = chat then if q = [] then None else Some q else map_of pending c)"
  by (simp add: store_queue_def delete_conv' update_conv')

lemma store_queue_go: "go_map pending \<Longrightarrow> go_map (store_queue chat q pending)"
  by (simp add: store_queue_def distinct_delete distinct_update)

lemma store_queue_mem:
  assumes "go_map pending"
  shows "(c, x) \<in> set (store_queue chat q pending) \<longleftrightarrow> (if c = chat then q \<noteq> [] \<and> x = q else (c, x) \<in> set pending)"
  using map_of_iff [OF store_queue_go [OF assms], of chat q c x, symmetric] map_of_iff [OF assms, of c x]
  by (auto simp: store_queue_map)

lemma ack_books:
  assumes "store_books s"
  shows "store_books (ack_section chat key now s)"
proof -
  define s1 where "s1 = prune now s"
  let ?q = "queue_of (nt_pending s1) chat"
  let ?held = "list_ex (\<lambda>e. ne_id e = key) ?q"
  define s2 where "s2 = (if ?held then s1\<lparr>nt_pending := store_queue chat (filter (\<lambda>e. ne_id e \<noteq> key) ?q) (nt_pending s1)\<rparr> else s1)"
  have s1: "store_books s1" unfolding s1_def by (rule prune_books) (rule assms)
  have pending: "go_map (nt_pending s1)" using s1 by (simp add: store_books_def maps_ok_def)
  have queue: "queue_of (nt_pending s1) chat = q" if "(chat, q) \<in> set (nt_pending s1)" for q
    using map_of_is_SomeI [OF pending that] by (simp add: queue_of_def)
  have s2: "store_books s2"
  proof (cases ?held)
    case True
    then obtain e where "e \<in> set ?q" by (auto simp: list_ex_iff)
    then have mem: "(chat, ?q) \<in> set (nt_pending s1)" using queue_of_mem by fastforce
    have "books_ok (nt_epoch s1) (nt_sequence s1) (nt_recent s1) (nt_recipients s1)
        (store_queue chat (filter (\<lambda>e. ne_id e \<noteq> key) ?q) (nt_pending s1)) (nt_closed s1)"
    proof (rule books_shrink [OF _ order_refl])
      show "books_ok (nt_epoch s1) (nt_sequence s1) (nt_recent s1) (nt_recipients s1) (nt_pending s1) (nt_closed s1)"
        using s1 by (simp add: store_books_def)
      show "\<exists>q0. (c, q0) \<in> set (nt_pending s1) \<and> subseq q q0"
        if "(c, q) \<in> set (store_queue chat (filter (\<lambda>e. ne_id e \<noteq> key) ?q) (nt_pending s1))" for c q
      proof (cases "c = chat")
        case True
        then have "q = filter (\<lambda>e. ne_id e \<noteq> key) ?q" using that by (simp add: store_queue_mem [OF pending])
        then show ?thesis using True mem subseq_filter_left by blast
      next
        case False
        then show ?thesis using that by (auto simp: store_queue_mem [OF pending])
      qed
    qed (rule subseq_order.order_refl, blast)
    then show ?thesis
      using s1 True store_queue_go [OF pending] by (simp add: s2_def store_books_def maps_ok_def)
  qed (use s1 in \<open>simp add: s2_def\<close>)
  have pending2: "nt_pending s2 = (if ?held then store_queue chat (filter (\<lambda>e. ne_id e \<noteq> key) ?q) (nt_pending s1) else nt_pending s1)"
    by (simp add: s2_def)
  have gone: "ne_id d \<noteq> key" if m: "(chat, q) \<in> set (nt_pending s2)" "d \<in> set q" for q d
  proof (cases ?held)
    case True
    then have "q = filter (\<lambda>e. ne_id e \<noteq> key) ?q" using m(1) by (simp add: pending2 store_queue_mem [OF pending])
    then show ?thesis using m(2) by simp
  next
    case False
    then have "q = ?q" using m queue unfolding pending2 by simp
    then show ?thesis using False m by (auto simp: list_ex_iff)
  qed
  have close: "store_books (s2\<lparr>nt_closed := AList.update chat (AList.update key (ne_at e) (progress_of (nt_closed s2) chat)) (nt_closed s2)\<rparr>)"
    if "find (\<lambda>e. ne_id e = key) (nt_recent s2) = Some e" for e
  proof -
    have e: "e \<in> set (nt_recent s2)" "ne_id e = key" using that by (auto simp: find_Some_iff)
    have maps: "go_map (nt_closed s2)" "\<forall>cp \<in> set (nt_closed s2). go_map (snd cp)" using s2 by (auto simp: store_books_def maps_ok_def)
    have "books_ok (nt_epoch s2) (nt_sequence s2) (nt_recent s2) (nt_recipients s2) (nt_pending s2)
        (AList.update chat (AList.update key (ne_at e) (progress_of (nt_closed s2) chat)) (nt_closed s2))"
      by (rule books_close [OF _ maps e gone]) (use s2 in \<open>auto simp: store_books_def\<close>)
    then show ?thesis using s2 progress_maps [OF maps] by (simp add: store_books_def maps_ok_def)
  qed
  have "ack_section chat key now s = (case find (\<lambda>e. ne_id e = key) (nt_recent s2) of
        None \<Rightarrow> touched ?held s2
      | Some e \<Rightarrow>
          if is_closed (nt_closed s2) chat key then touched ?held s2
          else touched True
            (s2\<lparr>nt_closed := AList.update chat (AList.update key (ne_at e) (progress_of (nt_closed s2) chat)) (nt_closed s2)\<rparr>))"
    unfolding ack_section_def Let_def s2_def s1_def by (rule refl)
  then show ?thesis using s2 close by (auto split: option.split)
qed

section \<open>New recipients\<close>

lemma next_recipients_go:
  assumes "go_map acc" and "\<forall>cr \<in> set acc. rc_chat (snd cr) = fst cr"
  shows "go_map (next_recipients rs acc) \<and> (\<forall>cr \<in> set (next_recipients rs acc). rc_chat (snd cr) = fst cr)"
  using assms
proof (induction rs arbitrary: acc)
  case (Cons r rs)
  have "go_map (AList.update (rc_chat r) r acc)" using Cons.prems(1) by (rule distinct_update)
  moreover have "\<forall>cr \<in> set (AList.update (rc_chat r) r acc). rc_chat (snd cr) = fst cr"
  proof
    fix cr
    assume "cr \<in> set (AList.update (rc_chat r) r acc)"
    then have "map_of (AList.update (rc_chat r) r acc) (fst cr) = Some (snd cr)"
      by (intro map_of_is_SomeI [OF calculation]) simp
    then show "rc_chat (snd cr) = fst cr"
      using Cons.prems by (auto simp: update_conv' map_of_iff split: if_splits)
  qed
  ultimately show ?case using Cons by (auto split: option.split)
qed simp

lemma merge_events_sub: "set (merge_events skip seen es) \<subseteq> set es"
  by (induction skip seen es rule: merge_events.induct) auto

lemma merge_events_distinct:
  "distinct (map ne_id (merge_events skip seen es)) \<and> ne_id ` set (merge_events skip seen es) \<inter> set seen = {}
    \<and> (\<forall>e \<in> set (merge_events skip seen es). \<not> skip e)"
proof (induction skip seen es rule: merge_events.induct)
  case (2 skip seen e es)
  show ?case
  proof (cases "ne_id e \<in> set seen \<or> skip e")
    case True
    with 2(1) show ?thesis by simp
  next
    case False
    with 2(2) show ?thesis by simp
  qed
qed simp

lemma sorted_in_order:
  assumes ids: "\<And>e. e \<in> set es \<Longrightarrow> issued_id ep mx (ne_id e)" and dist: "distinct (map ne_id es)"
  shows "in_order (sort_key event_seq es)"
proof -
  have "inj_on event_seq (set es)"
  proof (rule inj_onI)
    fix a b
    assume m: "a \<in> set es" "b \<in> set es" and "event_seq a = event_seq b"
    then have "ne_id a = ne_id b"
      using issued_sequence [OF ids [OF m(1)]] issued_sequence [OF ids [OF m(2)]] by (simp add: event_seq_def)
    then show "a = b" using m dist by (auto simp: distinct_map dest: inj_onD)
  qed
  moreover have "distinct es" using dist by (simp add: distinct_map)
  ultimately have "distinct (map event_seq (sort_key event_seq es))"
    by (simp add: distinct_map)
  then have "sorted_wrt (<) (map event_seq (sort_key event_seq es))"
    by (simp add: strict_sorted_iff)
  then show ?thesis by (simp add: in_order_def sorted_wrt_map)
qed

lemma replace_books:
  assumes "store_books s"
  shows "store_books (replace_section rs now s)"
proof -
  define s1 where "s1 = prune now s"
  let ?rec = "next_recipients rs []"
  let ?pend = "merged_pending now s1 ?rec"
  have s1: "store_books s1" unfolding s1_def by (rule prune_books) (rule assms)
  note rec = next_recipients_go [of "[]" rs, simplified]
  let ?all = "\<lambda>c. queue_of (nt_pending s1) c @ nt_recent s1"
  have all: "set (?all c) \<subseteq> events_of (nt_recent s1) (nt_pending s1)" for c
    using queue_of_mem [of _ "nt_pending s1" c] by (fastforce simp: events_of_def)
  have mem: "\<exists>r. (c, r) \<in> set ?rec \<and> q = merged_queue now s1 c r" if "(c, q) \<in> set ?pend" for c q
    using that by (auto simp: merged_pending_def)
  let ?skip = "\<lambda>c r e. is_closed (nt_closed s1) c (ne_id e) \<or> ne_at e < rc_first r"
  have queue: "in_order (merged_queue now s1 c r)" "set (merged_queue now s1 c r) \<subseteq> set (merge_events (?skip c r) [] (?all c))" for c r
  proof -
    let ?m = "merge_events (?skip c r) [] (?all c)"
    have known: "issued_id (nt_epoch s1) (nt_sequence s1) (ne_id e)" if "e \<in> set ?m" for e
      using that merge_events_sub [of "?skip c r" "[]" "?all c"] all [of c] s1 unfolding store_books_def books_ok_def by blast
    have "in_order (sort_key event_seq ?m)"
      by (rule sorted_in_order [OF known conjunct1 [OF merge_events_distinct]])
    moreover have "sort_key (\<lambda>e. event_sequence (ne_id e)) ?m = sort_key event_seq ?m" by (simp add: event_seq_def [abs_def])
    moreover have "subseq (merged_queue now s1 c r) (sort_key (\<lambda>e. event_sequence (ne_id e)) ?m)"
      unfolding merged_queue_def by (rule bounded_subseq)
    ultimately have "in_order (merged_queue now s1 c r) \<and> set (merged_queue now s1 c r) \<subseteq> set (sort_key event_seq ?m)"
      using in_order_subseq subseq_subset by metis
    then show "in_order (merged_queue now s1 c r)" "set (merged_queue now s1 c r) \<subseteq> set ?m" by simp_all
  qed
  have events: "events_of (nt_recent s1) ?pend \<subseteq> events_of (nt_recent s1) (nt_pending s1)"
  proof -
    have "set q \<subseteq> events_of (nt_recent s1) (nt_pending s1)" if m: "(c, q) \<in> set ?pend" for c q
    proof -
      obtain r where "q = merged_queue now s1 c r" using mem [OF m] by blast
      then show ?thesis using queue(2) [of c r] merge_events_sub [of "?skip c r" "[]" "?all c"] all [of c] by blast
    qed
    then show ?thesis by (fastforce simp: events_of_def)
  qed
  have good: "in_order q \<and> c \<in> set (keys ?rec) \<and> (\<forall>e \<in> set q. \<not> is_closed (nt_closed s1) c (ne_id e))" if m: "(c, q) \<in> set ?pend" for c q
  proof -
    obtain r where r: "(c, r) \<in> set ?rec" "q = merged_queue now s1 c r" using mem [OF m] by blast
    have "\<not> is_closed (nt_closed s1) c (ne_id e)" if "e \<in> set q" for e
      using that queue(2) [of c r] merge_events_distinct [of "?skip c r" "[]" "?all c"] r(2) by blast
    then show ?thesis using queue(1) r by force
  qed
  have "books_ok (nt_epoch s1) (nt_sequence s1) (nt_recent s1) ?rec ?pend (nt_closed s1)"
  proof -
    have "inj_on ne_id (events_of (nt_recent s1) ?pend)"
      using s1 events unfolding store_books_def books_ok_def by (metis inj_on_subset)
    then show ?thesis
      using s1 events good rec unfolding store_books_def books_ok_def by (fastforce simp del: list.set_map)
  qed
  moreover have "go_map ?pend"
  proof -
    have "go_map (map (\<lambda>(chat, r). (chat, merged_queue now s1 chat r)) ?rec)"
      using rec by (simp add: case_prod_beta comp_def)
    then show ?thesis unfolding merged_pending_def by (rule go_map_filter)
  qed
  ultimately have "store_books (s1\<lparr>nt_recipients := ?rec, nt_pending := ?pend\<rparr>)"
    using s1 rec by (simp add: store_books_def maps_ok_def)
  then show ?thesis unfolding replace_section_def Let_def s1_def by simp
qed

section \<open>A first epoch, and a restart\<close>

lemma epoch_char_hex: "i < 16 \<Longrightarrow> epoch_char (hex_digit i)"
proof -
  assume "i < 16"
  then have "i \<in> set [0..<16]" by simp
  moreover have "\<forall>i \<in> set [0..<16]. epoch_char (hex_digit i)" by code_simp
  ultimately show ?thesis by blast
qed

lemma valid_hex_epoch: "valid_epoch (hex_epoch r)"
  by (auto simp: valid_epoch_def hex_epoch_def list_all_iff intro: epoch_char_hex)

lemma no_epoch_issues_nothing: "\<not> issued_id [] mx key"
  by (auto simp: issued_id_def valid_epoch_def dest: make_parse_event_id(2))

lemma set_epoch_books:
  assumes "store_books s"
  shows "store_books (set_epoch r s)"
proof (cases "nt_epoch s = []")
  case True
  then have books: "books_ok [] (nt_sequence s) (nt_recent s) (nt_recipients s) (nt_pending s) (nt_closed s)"
    using assms by (simp add: store_books_def)
  have none: "events_of (nt_recent s) (nt_pending s) = {}"
    by (rule equals0I) (use books no_epoch_issues_nothing in \<open>simp add: books_ok_def\<close>)
  have idle: "snd cp = []" if "cp \<in> set (nt_closed s)" for cp
  proof (cases "snd cp")
    case (Cons it its)
    then have "it \<in> set (snd cp)" by simp
    then have "issued_id [] (nt_sequence s) (fst it)" using books that unfolding books_ok_def by blast
    then show ?thesis using no_epoch_issues_nothing by blast
  qed
  have "books_ok (hex_epoch r) (nt_sequence s) (nt_recent s) (nt_recipients s) (nt_pending s) (nt_closed s)"
    using books none idle unfolding books_ok_def by simp
  then show ?thesis using True assms by (simp add: set_epoch_def store_books_def)
qed (use assms in \<open>simp add: set_epoch_def\<close>)

definition state_maps :: "saved_state \<Rightarrow> bool" where
  "state_maps st \<longleftrightarrow> maps_ok (ss_recipients st) (ss_pending st) (ss_closed st)"

lemma books_later: "books_ok ep mx recent recipients pending acked \<Longrightarrow> mx \<le> mx' \<Longrightarrow> books_ok ep mx' recent recipients pending acked"
  by (erule books_shrink) auto

lemma restored_books:
  assumes "state_maps st" and "valid_saved st"
  shows "store_books (restored_state st private s)" "valid_epoch (nt_epoch (restored_state st private s))"
proof -
  have v: "valid_epoch (ss_epoch st)" "ss_sequence st \<le> ss_reserved st"
    "books_ok (ss_epoch st) (ss_sequence st) (ss_recent st) (ss_recipients st) (ss_pending st) (ss_closed st)"
    using assms valid_saved_books [of st] by (simp_all add: state_maps_def)
  from books_later [OF v(3,2)] show "store_books (restored_state st private s)"
    using assms(1) unfolding restored_state_def Let_def books_touched by (simp add: store_books_def state_maps_def)
  show "valid_epoch (nt_epoch (restored_state st private s))" using v(1) by (simp add: restored_state_def Let_def touched_def)
qed

lemma new_store_books: "store_books (new_store path)"
  by (simp add: store_books_def new_store_def books_ok_def maps_ok_def events_of_def in_order_def)

text \<open>What a save writes is what a restart takes back.\<close>

lemma snapshot_valid:
  assumes "store_books s" and "valid_epoch (nt_epoch s)" and "ss_reserved (snapshot_state s) \<le> reserve"
  shows "valid_saved ((snapshot_state s)\<lparr>ss_reserved := reserve\<rparr>) \<and> state_maps ((snapshot_state s)\<lparr>ss_reserved := reserve\<rparr>)"
proof -
  let ?st = "(snapshot_state s)\<lparr>ss_reserved := reserve\<rparr>"
  have maps: "maps_ok (ss_recipients ?st) (ss_pending ?st) (ss_closed ?st)"
    using assms(1) by (simp add: snapshot_state_def store_books_def)
  have room: "n \<le> n + sequence_reserve" if "n \<le> - 1 - sequence_reserve" for n :: u64
  proof -
    have "unat n \<le> 2 ^ 64 - 1 - 4294967296" using that by (simp add: sequence_reserve_def word_le_nat_alt)
    then have "unat (n + sequence_reserve) = unat n + 4294967296"
      unfolding sequence_reserve_def by (subst unat_add_lem [THEN iffD1]) simp_all
    then show ?thesis by (simp add: word_le_nat_alt)
  qed
  have "ss_sequence (snapshot_state s) \<le> ss_reserved (snapshot_state s)"
    using room by (auto simp: snapshot_state_def le_max_iff_disj)
  then have "ss_sequence ?st \<le> ss_reserved ?st" using assms(3) by simp
  then have "valid_saved ?st"
    unfolding valid_saved_books [OF maps] using assms(1,2) by (simp add: snapshot_state_def store_books_def)
  with maps show ?thesis by (simp add: state_maps_def)
qed

end
