(* ===== verification/Note_Ids.thy ===== *)
theory Note_Ids
  imports Note_Books Triples
begin

text \<open>
  No identifier of an event is handed out twice: not by two goroutines, not after a save that failed, and
  not after a crash at any moment followed by a restart, whatever of the last writes the disk then holds.
\<close>

section \<open>The history of a store\<close>

fun handed_out :: "note_deed list \<Rightarrow> (string \<times> u64) list" where
  "handed_out [] = []"
| "handed_out (d # ds) = (case d of Issued e n \<Rightarrow> (e, n) # handed_out ds | Replaced st durable \<Rightarrow> handed_out ds)"

text \<open>
  What the disk may hold after a crash: the last state whose directory entry was synced, or one that was
  renamed into place since.
\<close>

fun candidates :: "note_file list \<Rightarrow> note_deed list \<Rightarrow> note_file list" where
  "candidates D [] = D"
| "candidates D (d # ds) =
     (case d of
        Issued e n \<Rightarrow> candidates D ds
      | Replaced st durable \<Rightarrow> if durable then [Document st True True] else Document st True True # candidates D ds)"

fun file_epoch :: "note_file \<Rightarrow> string option" where
  "file_epoch (Document st r p) = Some (ss_epoch st)"
| "file_epoch _ = None"

fun file_reserve :: "note_file \<Rightarrow> u64" where
  "file_reserve (Document st r p) = (if r then ss_reserved st else ss_sequence st)"
| "file_reserve _ = 0"

definition covers :: "note_file list \<Rightarrow> (string \<times> u64) set \<Rightarrow> bool" where
  "covers D I \<longleftrightarrow> (\<forall>f \<in> set D. \<forall>(e, n) \<in> I. file_epoch f = Some e \<longrightarrow> n \<le> file_reserve f)"

text \<open>At every moment of the history the disk covers what was handed out, and nothing was handed out twice.\<close>

fun safe_log :: "note_file list \<Rightarrow> (string \<times> u64) set \<Rightarrow> note_deed list \<Rightarrow> bool" where
  "safe_log D I [] \<longleftrightarrow> covers D I"
| "safe_log D I (d # ds) \<longleftrightarrow>
     safe_log D I ds \<and> covers (candidates D (d # ds)) (I \<union> set (handed_out (d # ds)))
     \<and> (case d of Issued e n \<Rightarrow> (e, n) \<notin> I \<union> set (handed_out ds) | Replaced st durable \<Rightarrow> True)"

definition epochs :: "note_file list \<Rightarrow> string set" where
  "epochs D = {e. \<exists>f \<in> set D. file_epoch f = Some e}"

definition log_epochs :: "note_deed list \<Rightarrow> string set" where
  "log_epochs ds = (\<Union>d \<in> set ds. case d of Issued e n \<Rightarrow> {e} | Replaced st durable \<Rightarrow> {ss_epoch st})"

lemma log_epochs_Cons [simp]:
  "log_epochs [] = {}" "log_epochs (Issued e n # ds) = insert e (log_epochs ds)"
  "log_epochs (Replaced st b # ds) = insert (ss_epoch st) (log_epochs ds)"
  by (simp_all add: log_epochs_def)

lemma log_epochs_drop: "log_epochs (drop k ds) \<subseteq> log_epochs ds"
  unfolding log_epochs_def by (rule UN_mono) (auto dest: in_set_dropD)

lemma issued_epochs: "fst ` set (handed_out ds) \<subseteq> log_epochs ds"
  by (induction ds) (auto split: note_deed.split)

lemma candidates_epochs: "epochs (candidates D ds) \<subseteq> epochs D \<union> log_epochs ds"
proof (induction ds)
  case (Cons d ds)
  then show ?case by (cases d) (auto simp: epochs_def)
qed simp

definition draws :: "note_env \<Rightarrow> string set" where
  "draws env = {hex_epoch r | r n. nv_random env n = Some r \<or> Other_Epoch r \<in> set (nv_sections env n)}"

text \<open>What every state written has, and what holds of every decoded file: its maps have each key once.\<close>

definition good_log :: "note_deed list \<Rightarrow> bool" where
  "good_log ds \<longleftrightarrow> (\<forall>d \<in> set ds. case d of Issued e n \<Rightarrow> True | Replaced st durable \<Rightarrow> valid_saved st \<and> state_maps st)"

definition good_disk :: "note_file list \<Rightarrow> bool" where
  "good_disk D \<longleftrightarrow> (\<forall>f \<in> set D. case f of Document st r p \<Rightarrow> state_maps st | _ \<Rightarrow> True)"

lemma good_log_Cons [simp]:
  "good_log []" "good_log (Issued e n # ds) = good_log ds"
  "good_log (Replaced st b # ds) \<longleftrightarrow> (valid_saved st \<and> state_maps st) \<and> good_log ds"
  by (simp_all add: good_log_def)

section \<open>The invariant of a life\<close>

text \<open>
  \<open>D\<close> is what the disk could hold when the life began, \<open>I\<close> what had been handed out before, \<open>R\<close> the
  epochs the life may draw.
\<close>

definition ids_ok :: "note_file list \<Rightarrow> (string \<times> u64) set \<Rightarrow> string set \<Rightarrow> note_store \<Rightarrow> bool" where
  "ids_ok D I R s \<longleftrightarrow>
     safe_log D I (nt_log s) \<and> nt_sequence s \<le> nt_reserved s
     \<and> (nt_epoch s \<noteq> [] \<longrightarrow> (\<forall>(e, n) \<in> I \<union> set (handed_out (nt_log s)). e = nt_epoch s \<longrightarrow> n \<le> nt_sequence s))
     \<and> (nt_epoch s \<noteq> [] \<and> nt_sequence s < nt_reserved s \<longrightarrow>
          (\<forall>f \<in> set (candidates D (nt_log s)). file_epoch f = Some (nt_epoch s) \<longrightarrow> nt_reserved s \<le> file_reserve f))
     \<and> (nt_epoch s = [] \<longrightarrow> nt_log s = [])
     \<and> (nt_epoch s = [] \<or> nt_epoch s \<in> epochs D \<union> R)
     \<and> log_epochs (nt_log s) \<subseteq> epochs D \<union> R
     \<and> (good_disk D \<longrightarrow> store_books s \<and> (nt_epoch s = [] \<or> valid_epoch (nt_epoch s)) \<and> good_log (nt_log s))"

definition life_ok :: "note_file list \<Rightarrow> (string \<times> u64) set \<Rightarrow> string set \<Rightarrow> bool \<Rightarrow> note_world \<Rightarrow> bool" where
  "life_ok D I R opened w \<longleftrightarrow>
     ids_ok D I R (nw_store w) \<and> nw_file w \<in> set (candidates D (nt_log (nw_store w)))
     \<and> draws (nw_env w) \<subseteq> R \<and> R \<inter> (fst ` I \<union> epochs D) = {} \<and> nt_open (nw_store w) = opened"

subsection \<open>Sections that leave the identifiers alone\<close>

definition same_ids :: "note_store \<Rightarrow> note_store \<Rightarrow> bool" where
  "same_ids s s' \<longleftrightarrow>
     nt_log s' = nt_log s \<and> nt_epoch s' = nt_epoch s \<and> nt_sequence s' = nt_sequence s \<and> nt_reserved s' = nt_reserved s
     \<and> nt_open s' = nt_open s \<and> (store_books s \<longrightarrow> store_books s')"

lemma same_ids_refl [simp]: "same_ids s s"
  by (simp add: same_ids_def)

lemma same_ids_trans: "same_ids a b \<Longrightarrow> same_ids b c \<Longrightarrow> same_ids a c"
  by (simp add: same_ids_def)

lemma same_touched [simp]: "same_ids s (touched b s)"
  by (simp add: same_ids_def touched_def)

lemma same_prune [simp]: "same_ids s (prune now s)"
  using prune_books [of s now] by (simp add: same_ids_def prune_def Let_def touched_def)

lemma same_error: "same_ids s t \<Longrightarrow> same_ids s (t\<lparr>nt_error := e\<rparr>)"
  by (simp add: same_ids_def)

lemma same_defer [simp]: "same_ids s (defer_event text now s)"
  by (simp add: same_ids_def defer_event_def Let_def)

lemma same_drop [simp]: "same_ids s (drop_deferred e s)"
  by (simp add: same_ids_def drop_deferred_def split: list.split)

lemma same_ack [simp]: "same_ids s (ack_section chat key now s)"
proof -
  have "nt_log (ack_section chat key now s) = nt_log (prune now s) \<and> nt_epoch (ack_section chat key now s) = nt_epoch (prune now s)
      \<and> nt_sequence (ack_section chat key now s) = nt_sequence (prune now s)
      \<and> nt_reserved (ack_section chat key now s) = nt_reserved (prune now s) \<and> nt_open (ack_section chat key now s) = nt_open (prune now s)"
    by (simp add: ack_section_def Let_def touched_def split: option.split)
  then show ?thesis using same_prune [of s now] ack_books [of s chat key now] by (simp add: same_ids_def)
qed

lemma same_ack_checked [simp]: "same_ids s (snd (ack_checked chat key now s))"
  by (auto simp: ack_checked_def split: option.split)

lemma same_replace [simp]: "same_ids s (replace_section rs now s)"
proof -
  have "nt_log (replace_section rs now s) = nt_log (prune now s) \<and> nt_epoch (replace_section rs now s) = nt_epoch (prune now s)
      \<and> nt_sequence (replace_section rs now s) = nt_sequence (prune now s)
      \<and> nt_reserved (replace_section rs now s) = nt_reserved (prune now s) \<and> nt_open (replace_section rs now s) = nt_open (prune now s)"
    by (simp add: replace_section_def Let_def touched_def)
  then show ?thesis using same_prune [of s now] replace_books [of s rs now] by (simp add: same_ids_def)
qed

lemma same_forget [simp]: "same_ids s (forget_health ids s)"
  by (simp add: same_ids_def forget_health_def Let_def)

lemma same_pending_section [simp]: "same_ids s (snd (pending_section tm cursor now s))"
  by (simp add: pending_section_def Let_def)

lemma same_status [simp]: "same_ids s (snd (status_section now s))"
  by (simp add: status_section_def Let_def)

lemma same_save_begin [simp]: "same_ids s (snd (save_begin reserve now s))"
  by (simp add: save_begin_def Let_def)

lemma ids_ok_same: "same_ids s s' \<Longrightarrow> ids_ok D I R s \<Longrightarrow> ids_ok D I R s'"
  by (simp add: ids_ok_def same_ids_def)

subsection \<open>A new identifier\<close>

lemma next_word:
  fixes a b :: u64
  assumes "a < b"
  shows "a < a + 1" and "a + 1 \<le> b"
proof -
  have "a + 1 \<noteq> 0" using assms by (metis add.right_neutral add_diff_cancel_right' diff_0 word_not_simps(3) word_order.not_eq_extremum)
  then have "unat (a + 1) = Suc (unat a)" by (metis add.commute unatSuc)
  then show "a < a + 1" "a + 1 \<le> b" using assms by (simp_all add: word_less_nat_alt word_le_nat_alt)
qed

lemma append_core:
  "nt_log (append_event text now s) = Issued (nt_epoch s) (nt_sequence s + 1) # nt_log s"
  "nt_epoch (append_event text now s) = nt_epoch s" "nt_sequence (append_event text now s) = nt_sequence s + 1"
  "nt_reserved (append_event text now s) = nt_reserved s" "nt_open (append_event text now s) = nt_open s"
  by (simp_all add: append_event_def Let_def prune_def touched_def)

lemma safe_covers: "safe_log D I ds \<Longrightarrow> covers (candidates D ds) (I \<union> set (handed_out ds))"
  by (cases ds) (simp_all del: candidates.simps(2) handed_out.simps(2))

lemma ids_ok_append:
  assumes ok: "ids_ok D I R s" and room: "nt_sequence s < nt_reserved s" and epoch: "nt_epoch s \<noteq> []"
  shows "ids_ok D I R (append_event text now s)"
proof -
  let ?n = "nt_sequence s + 1" and ?e = "nt_epoch s"
  note step = next_word [OF room]
  have old: "n \<le> nt_sequence s" if "(?e, n) \<in> I \<union> set (handed_out (nt_log s))" for n
    using ok epoch that by (auto simp: ids_ok_def)
  then have new: "(?e, ?n) \<notin> I \<union> set (handed_out (nt_log s))" using step(1) by force
  have safe: "safe_log D I (nt_log s)" using ok by (simp add: ids_ok_def)
  note cov = safe_covers [OF safe]
  have "covers (candidates D (nt_log s)) (I \<union> set ((?e, ?n) # handed_out (nt_log s)))"
    unfolding covers_def
  proof (intro ballI, clarify)
    fix f e n
    assume f: "f \<in> set (candidates D (nt_log s))" "file_epoch f = Some e" and m: "(e, n) \<in> I \<union> set ((?e, ?n) # handed_out (nt_log s))"
    show "n \<le> file_reserve f"
    proof (cases "(e, n) = (?e, ?n)")
      case True
      then have "nt_reserved s \<le> file_reserve f" using ok room epoch f by (simp add: ids_ok_def)
      with True step(2) show ?thesis by simp
    next
      case False
      then show ?thesis using cov f m unfolding covers_def by fastforce
    qed
  qed
  moreover have "n \<le> ?n" if "(?e, n) \<in> I \<union> set (handed_out (nt_log s))" for n
    using old [OF that] step(1) by simp
  moreover have "good_disk D \<longrightarrow> store_books (append_event text now s)"
    using ok epoch step(1) append_books [of s] by (simp add: ids_ok_def)
  ultimately show ?thesis
    using ok new safe step epoch by (auto simp: ids_ok_def append_core)
qed

lemma ids_ok_publish:
  assumes "ids_ok D I R s" and "nt_epoch s \<noteq> []"
  shows "ids_ok D I R (snd (publish_section text now s))"
proof -
  have core: "same_ids s (prune now s)" by simp
  then have "ids_ok D I R (prune now s)" "nt_epoch (prune now s) \<noteq> []"
    using assms ids_ok_same [OF core] by (simp_all add: same_ids_def)
  then show ?thesis
    by (auto simp: publish_section_def Let_def not_le intro: ids_ok_append)
qed

lemma open_publish [simp]: "nt_open (snd (publish_section text now s)) = nt_open s"
  using same_prune [of s now] by (simp add: publish_section_def Let_def append_core same_ids_def)

lemma epoch_publish [simp]: "nt_epoch (snd (publish_section text now s)) = nt_epoch s"
  using same_prune [of s now] by (simp add: publish_section_def Let_def append_core same_ids_def)

lemma apply_update_core:
  "nt_sequence (apply_update now u s) = nt_sequence s + (if hu_text u = [] then 0 else 1)"
  "nt_reserved (apply_update now u s) = nt_reserved s" "nt_epoch (apply_update now u s) = nt_epoch s"
  "nt_open (apply_update now u s) = nt_open s"
  by (simp_all add: apply_update_def Let_def append_core)

lemma ids_ok_update:
  assumes "ids_ok D I R s" and "hu_text u \<noteq> [] \<Longrightarrow> nt_sequence s < nt_reserved s" and "nt_epoch s \<noteq> []"
  shows "ids_ok D I R (apply_update now u s)"
proof -
  let ?s = "s\<lparr>nt_health := AList.update (hu_id u) (encode_health (hu_available u)) (nt_health s), nt_revision := nt_revision s + 1\<rparr>"
  have "same_ids s ?s" by (simp add: same_ids_def)
  then have "ids_ok D I R ?s" using assms(1) by (rule ids_ok_same)
  with assms(2,3) show ?thesis
    by (auto simp: apply_update_def Let_def intro!: ids_ok_append)
qed

text \<open>A batch leaves room for all its events, or none is appended.\<close>

lemma ids_ok_updates:
  assumes "ids_ok D I R s" and "nt_epoch s \<noteq> []" and "unat (nt_sequence s) + event_count us \<le> unat (nt_reserved s)"
  shows "ids_ok D I R (foldl (\<lambda>s u. apply_update now u s) s us)"
  using assms
proof (induction us arbitrary: s)
  case (Cons u us)
  have room: "nt_sequence s < nt_reserved s" if "hu_text u \<noteq> []"
    using Cons.prems(3) that by (simp add: event_count_def word_less_nat_alt)
  have step: "unat (nt_sequence (apply_update now u s)) = unat (nt_sequence s) + (if hu_text u = [] then 0 else 1)"
  proof (cases "hu_text u = []")
    case False
    have "nt_sequence s < nt_sequence s + 1" by (rule next_word(1) [OF room [OF False]])
    then have "unat (nt_sequence s + 1) = Suc (unat (nt_sequence s))"
      by (metis add.commute unatSuc word_not_simps(1))
    with False show ?thesis by (simp add: apply_update_core)
  qed (simp add: apply_update_core)
  have "ids_ok D I R (apply_update now u s)"
    by (rule ids_ok_update [OF Cons.prems(1) room Cons.prems(2)])
  moreover have "unat (nt_sequence (apply_update now u s)) + event_count us \<le> unat (nt_reserved (apply_update now u s))"
    using Cons.prems(3) step by (simp add: event_count_def apply_update_core split: if_splits)
  ultimately show ?case using Cons.IH Cons.prems(2) by (simp add: apply_update_core)
qed simp

lemma updates_core:
  "nt_open (foldl (\<lambda>s u. apply_update now u s) s us) = nt_open s" "nt_epoch (foldl (\<lambda>s u. apply_update now u s) s us) = nt_epoch s"
  "nt_reserved (foldl (\<lambda>s u. apply_update now u s) s us) = nt_reserved s"
  by (induction us arbitrary: s) (simp_all add: apply_update_core)

lemma observed_core [simp]:
  "nt_open (snd (observe_section obs now s)) = nt_open s" "nt_epoch (snd (observe_section obs now s)) = nt_epoch s"
  using same_forget [of s "map ob_id obs"] by (simp_all add: observe_section_def Let_def updates_core same_ids_def)

lemma ids_ok_observe:
  assumes "ids_ok D I R s" and "nt_epoch s \<noteq> []"
  shows "ids_ok D I R (snd (observe_section obs now s))"
proof -
  let ?us = "health_updates (nt_health s) obs"
  let ?s = "forget_health (map ob_id obs) s"
  have same: "same_ids s ?s" by simp
  have ok: "ids_ok D I R ?s" "nt_epoch ?s \<noteq> []"
    using ids_ok_same [OF same assms(1)] assms(2) same by (simp_all add: same_ids_def)
  have "ids_ok D I R (foldl (\<lambda>s u. apply_update now u s) ?s ?us)"
    if lease: "\<not> (0 < event_count ?us \<and> (nt_reserved s \<le> nt_sequence s \<or> unat (nt_reserved s - nt_sequence s) < event_count ?us))"
  proof -
    have le: "nt_sequence s \<le> nt_reserved s" using assms(1) by (simp add: ids_ok_def)
    then have "unat (nt_reserved s - nt_sequence s) = unat (nt_reserved s) - unat (nt_sequence s)"
      "unat (nt_sequence s) \<le> unat (nt_reserved s)"
      by (simp_all add: unat_sub word_le_nat_alt)
    then have "unat (nt_sequence s) + event_count ?us \<le> unat (nt_reserved s)"
      using lease by (cases "event_count ?us = 0") auto
    then show ?thesis using ids_ok_updates [OF ok] same by (simp add: same_ids_def)
  qed
  then show ?thesis using assms(1) by (auto simp: observe_section_def Let_def)
qed

subsection \<open>An epoch\<close>

lemma ids_ok_epoch:
  assumes "ids_ok D I R s" and "hex_epoch r \<in> R" and "R \<inter> (fst ` I \<union> epochs D) = {}" and "hex_epoch r \<noteq> []"
  shows "ids_ok D I R (set_epoch r s)"
proof (cases "nt_epoch s = []")
  case True
  then have "nt_log s = []" using assms(1) by (simp add: ids_ok_def)
  moreover have "e \<noteq> hex_epoch r" if "(e, n) \<in> I" for e n
    using assms(2,3) that by (metis IntI UnI1 empty_iff fst_conv image_eqI)
  moreover have "file_epoch f \<noteq> Some (hex_epoch r)" if "f \<in> set D" for f
    using assms(2,3) that by (auto simp: epochs_def)
  moreover have "good_disk D \<longrightarrow> store_books (set_epoch r s)" "valid_epoch (nt_epoch (set_epoch r s))"
    using assms(1) set_epoch_books [of s r] valid_hex_epoch [of r] True by (simp_all add: ids_ok_def set_epoch_def)
  ultimately show ?thesis
    using True assms(1,2,4) unfolding ids_ok_def set_epoch_def by (simp add: case_prod_beta) fastforce
qed (use assms in \<open>simp add: set_epoch_def\<close>)

lemma hex_epoch_length [simp]: "length (hex_epoch r) = 32"
  by (simp add: hex_epoch_def)

lemma hex_epoch_nonempty [simp]: "hex_epoch r \<noteq> []"
  by (metis hex_epoch_length list.size(3) zero_neq_numeral)

lemma set_epoch_core [simp]: "nt_open (set_epoch r s) = nt_open s" "nt_epoch (set_epoch r s) \<noteq> []"
  by (simp_all add: set_epoch_def)

section \<open>What every step keeps\<close>

text \<open>
  What stretches of others do to the store, as far as an operation in between cares: they reserve nothing
  and write nothing, the epoch stays once there is one, and before the store is open they only defer.
\<close>

definition frame :: "note_store \<Rightarrow> note_store \<Rightarrow> bool" where
  "frame s s' \<longleftrightarrow>
     nt_reserved s' = nt_reserved s \<and> (nt_epoch s \<noteq> [] \<longrightarrow> nt_epoch s' = nt_epoch s)
     \<and> (\<forall>D. candidates D (nt_log s') = candidates D (nt_log s)) \<and> nt_open s' = nt_open s
     \<and> (\<not> nt_open s \<longrightarrow> same_ids s s')"

lemma frame_same: "same_ids s s' \<Longrightarrow> frame s s'"
  by (simp add: frame_def same_ids_def)

lemma frame_trans: "frame a b \<Longrightarrow> frame b c \<Longrightarrow> frame a c"
  by (auto simp: frame_def same_ids_def)

lemma frame_append: "nt_open s \<Longrightarrow> frame s (append_event text now s)"
  by (simp add: frame_def append_core)

lemma frame_updates: "nt_open s \<Longrightarrow> frame s (foldl (\<lambda>s u. apply_update now u s) s us)"
proof (induction us arbitrary: s)
  case (Cons u us)
  have "frame s (apply_update now u s)"
    using Cons.prems by (auto simp: frame_def apply_update_def Let_def append_core)
  with Cons.IH [of "apply_update now u s"] Cons.prems show ?case
    by (auto simp: apply_update_core intro: frame_trans)
qed (simp add: frame_same)

lemma frame_section: "frame s (run_section x s)"
proof (cases x)
  case (Other_Epoch r)
  then show ?thesis by (auto simp: frame_def set_epoch_def)
next
  case (Other_Publish msg now)
  have "frame s (snd (publish_section msg now s))" if "nt_open s"
  proof -
    have "frame s (prune now s)" by (rule frame_same) simp
    moreover have "nt_open (prune now s)" using that same_prune [of s now] by (simp add: same_ids_def)
    ultimately show ?thesis
      by (auto simp: publish_section_def Let_def intro: frame_trans frame_append)
  qed
  with Other_Publish show ?thesis by (simp add: frame_same)
next
  case (Other_Observe obs now)
  have "frame s (snd (observe_section obs now s))" if "nt_open s"
  proof -
    have "frame s (forget_health (map ob_id obs) s)" by (rule frame_same) simp
    moreover have "nt_open (forget_health (map ob_id obs) s)" using that same_forget [of s "map ob_id obs"] by (simp add: same_ids_def)
    ultimately have "frame s (foldl (\<lambda>s u. apply_update now u s) (forget_health (map ob_id obs) s) us)" for us
      by (rule frame_trans [OF _ frame_updates])
    then show ?thesis by (auto simp: observe_section_def Let_def frame_same)
  qed
  with Other_Observe show ?thesis by (simp add: frame_same)
qed (simp_all add: frame_same)

lemma ids_ok_section:
  assumes "ids_ok D I R s" and "\<And>r. x = Other_Epoch r \<Longrightarrow> hex_epoch r \<in> R" and "R \<inter> (fst ` I \<union> epochs D) = {}"
  shows "ids_ok D I R (run_section x s)"
proof (cases x)
  case (Other_Epoch r)
  then show ?thesis using assms by (simp add: ids_ok_epoch)
next
  case (Other_Publish msg now)
  then show ?thesis using assms(1) by (simp add: ids_ok_publish)
next
  case (Other_Observe obs now)
  then show ?thesis using assms(1) by (simp add: ids_ok_observe)
qed (auto intro: ids_ok_same [OF _ assms(1)])

definition stays :: "(note_store \<Rightarrow> bool) \<Rightarrow> bool" where
  "stays F \<longleftrightarrow> (\<forall>s s'. F s \<and> frame s s' \<longrightarrow> F s')"

lemma staysD: "stays F \<Longrightarrow> F s \<Longrightarrow> frame s s' \<Longrightarrow> F s'"
  by (auto simp: stays_def)

text \<open>A life in which a further fact holds of the store.\<close>

abbreviation lives :: "note_file list \<Rightarrow> (string \<times> u64) set \<Rightarrow> string set \<Rightarrow> bool \<Rightarrow> (note_store \<Rightarrow> bool) \<Rightarrow> note_world \<Rightarrow> bool" where
  "lives D I R opened F w \<equiv> life_ok D I R opened w \<and> F (nw_store w)"

lemma sections_ok:
  assumes "ids_ok D I R s" and "\<forall>r. Other_Epoch r \<in> set xs \<longrightarrow> hex_epoch r \<in> R" and "R \<inter> (fst ` I \<union> epochs D) = {}"
  shows "ids_ok D I R (foldl (\<lambda>s x. run_section x s) s xs) \<and> frame s (foldl (\<lambda>s x. run_section x s) s xs)"
  using assms(1,2)
proof (induction xs arbitrary: s)
  case (Cons x xs)
  have "ids_ok D I R (run_section x s)" using Cons.prems assms(3) by (intro ids_ok_section) auto
  with Cons.IH [of "run_section x s"] Cons.prems(2) frame_section [of s x] show ?case by (auto intro: frame_trans)
qed (simp add: frame_same)

lemma keeps_others:
  assumes "stays F"
  shows "keeping (lives D I R opened F) others"
  unfolding valid_def
proof (intro allI impI)
  fix w
  assume w: "lives D I R opened F w"
  let ?xs = "nv_sections (nw_env w) (nw_calls w)"
  let ?s = "foldl (\<lambda>s x. run_section x s) (nw_store w) ?xs"
  have "\<forall>r. Other_Epoch r \<in> set ?xs \<longrightarrow> hex_epoch r \<in> R" using w by (auto simp: life_ok_def draws_def)
  with w have ok: "ids_ok D I R ?s" "frame (nw_store w) ?s" using sections_ok [of D I R "nw_store w" ?xs] by (auto simp: life_ok_def)
  have "F ?s" using staysD [OF assms _ ok(2)] w by simp
  then show "lives D I R opened F (snd (run_state others w))"
    using w ok by (auto simp: others_def call_def locked_def life_ok_def frame_def)
qed

lemma keeps_section:
  assumes "\<And>s. F s \<Longrightarrow> ids_ok D I R s \<Longrightarrow> nt_open s = opened \<Longrightarrow> ids_ok D I R (snd (f s)) \<and> frame s (snd (f s))" and "stays F"
  shows "keeping (lives D I R opened F) (locked f)"
  unfolding valid_def
proof (intro allI impI)
  fix w
  assume w: "lives D I R opened F w"
  then have ok: "ids_ok D I R (snd (f (nw_store w)))" "frame (nw_store w) (snd (f (nw_store w)))"
    using assms(1) by (auto simp: life_ok_def)
  then have "F (snd (f (nw_store w)))" using staysD [OF assms(2) _ ok(2)] w by simp
  with w ok show "lives D I R opened F (snd (run_state (locked f) w))"
    by (auto simp: locked_def life_ok_def frame_def)
qed

lemma keeps_call: "keeping (lives D I R opened F) (call f)"
  by (simp add: valid_def call_def life_ok_def)

lemma keeps_look: "keeping P (look_at f)" "keeping P the_note_file"
  by (simp_all add: valid_def look_at_def the_note_file_def)

lemma keeps_copy: "keeping (lives D I R opened F) (keep_copy f)"
  by (simp add: valid_def keep_copy_def life_ok_def)

lemma keeps_same:
  assumes "\<And>s. same_ids s (snd (f s))" and "stays F"
  shows "keeping (lives D I R opened F) (locked f)"
  by (rule keeps_section) (use assms in \<open>auto intro: ids_ok_same frame_same\<close>)

text \<open>The facts that stay.\<close>

lemma stays_intros [intro, simp]:
  "stays (\<lambda>s. True)" "stays (\<lambda>s. nt_epoch s \<noteq> [])"
  "stays (\<lambda>s. \<not> nt_open s \<and> nt_log s = [] \<and> nt_epoch s = [])"
  by (auto simp: stays_def frame_def same_ids_def)

lemma stays_conj [intro]: "stays F \<Longrightarrow> stays G \<Longrightarrow> stays (\<lambda>s. F s \<and> G s)"
  by (auto simp: stays_def)

section \<open>Saving\<close>

text \<open>An operation in the middle of a save has an epoch; \<open>b\<close> says whether it is known to have one.\<close>

definition named :: "bool \<Rightarrow> note_store \<Rightarrow> bool" where
  "named b s \<longleftrightarrow> (b \<longrightarrow> nt_epoch s \<noteq> [])"

lemma stays_named [intro, simp]: "stays (named b)"
  by (auto simp: stays_def named_def frame_def)

definition saves :: "note_file list \<Rightarrow> saved_state \<Rightarrow> note_store \<Rightarrow> bool" where
  "saves D st s \<longleftrightarrow>
     nt_epoch s \<noteq> [] \<and> ss_epoch st = nt_epoch s \<and> nt_reserved s \<le> ss_reserved st
     \<and> (good_disk D \<longrightarrow> valid_saved st \<and> state_maps st)"

lemma stays_saves [intro, simp]: "stays (saves D st)"
  by (auto simp: stays_def saves_def frame_def)

definition wrote :: "note_file list \<Rightarrow> saved_state \<Rightarrow> note_store \<Rightarrow> bool" where
  "wrote D st s \<longleftrightarrow> saves D st s \<and> candidates D (nt_log s) = [Document st True True]"

lemma stays_wrote [intro, simp]: "stays (wrote D st)"
  by (auto simp: stays_def wrote_def saves_def frame_def)

abbreviation alive :: "note_file list \<Rightarrow> (string \<times> u64) set \<Rightarrow> string set \<Rightarrow> bool \<Rightarrow> bool \<Rightarrow> note_world \<Rightarrow> bool" where
  "alive D I R opened b \<equiv> lives D I R opened (named b)"

lemma alive_more: "alive D I R opened b w \<Longrightarrow> (c \<Longrightarrow> b) \<Longrightarrow> alive D I R opened c w"
  by (auto simp: named_def)

lemma epoch_ensured:
  assumes gap: "\<And>b. keeping (alive D I R opened b) gap"
  shows "valid (alive D I R opened b) (ensure_epoch gap) (\<lambda>e. alive D I R opened (b \<or> e = []))"
proof -
  have look: "valid (alive D I R opened b) (look_at (\<lambda>s. nt_epoch s = [])) (\<lambda>m. alive D I R opened (b \<or> \<not> m))"
    by (auto simp: valid_def look_at_def named_def)
  have random: "valid (alive D I R opened b) (call nv_random) (\<lambda>r w. alive D I R opened b w \<and> (\<forall>d. r = Some d \<longrightarrow> hex_epoch d \<in> R))"
    by (auto simp: valid_def call_def life_ok_def draws_def)
  have set: "valid (alive D I R opened b) (change_store (set_epoch d)) (\<lambda>_. alive D I R opened True)" if "hex_epoch d \<in> R" for d
    unfolding valid_def
  proof (intro allI impI)
    fix w
    assume w: "alive D I R opened b w"
    have "ids_ok D I R (set_epoch d (nw_store w))" using w that by (auto simp: life_ok_def intro: ids_ok_epoch)
    then show "alive D I R opened True (snd (run_state (change_store (set_epoch d)) w))"
      using w by (simp add: locked_def life_ok_def named_def set_epoch_def)
  qed
  have drawn: "valid (\<lambda>w. alive D I R opened b w \<and> (\<forall>d. r = Some d \<longrightarrow> hex_epoch d \<in> R))
      (case r of None \<Rightarrow> State_Monad.return [N_Identity]
       | Some d \<Rightarrow> do { gap; change_store (set_epoch d); State_Monad.return [] }) (\<lambda>e. alive D I R opened (b \<or> e = []))" for r
  proof (cases r)
    case (Some d)
    show ?thesis
    proof (rule valid_cases [of _ "hex_epoch d \<in> R"])
      assume d: "hex_epoch d \<in> R"
      have "valid (alive D I R opened b) (do { gap; change_store (set_epoch d); State_Monad.return [] }) (\<lambda>e. alive D I R opened (b \<or> e = []))"
        by (rule valid_bind [OF gap valid_bind [OF set [OF d] valid_return]]) simp
      then show "valid (\<lambda>w. alive D I R opened b w \<and> (\<forall>d. r = Some d \<longrightarrow> hex_epoch d \<in> R))
          (case r of None \<Rightarrow> State_Monad.return [N_Identity]
           | Some d \<Rightarrow> do { gap; change_store (set_epoch d); State_Monad.return [] }) (\<lambda>e. alive D I R opened (b \<or> e = []))"
        unfolding Some by (simp, rule valid_pre) simp
    qed (use Some in simp)
  qed (auto intro!: valid_return)
  have kept: "valid (alive D I R opened (b \<or> \<not> m)) (if \<not> m then State_Monad.return [] else do {
        r \<leftarrow> call nv_random;
        (case r of None \<Rightarrow> State_Monad.return [N_Identity]
         | Some d \<Rightarrow> do { gap; change_store (set_epoch d); State_Monad.return [] }) }) (\<lambda>e. alive D I R opened (b \<or> e = []))" for m
    by (cases m) (auto intro!: valid_return valid_bind [OF random drawn])
  show ?thesis unfolding ensure_epoch_def by (rule valid_bind [OF gap valid_bind [OF look kept]])
qed

named_theorems keeps_intros

lemma keeps_others_alive [keeps_intros]: "keeping (alive D I R opened b) others"
  by (rule keeps_others) simp

lemmas keeps_basic [keeps_intros] = keeps_return keeps_call keeps_look keeps_copy

lemma keeps_storage_error: "keeping (alive D I R opened b) (record_storage_error e)"
  unfolding record_storage_error_def
  by (intro keeps_bind keeps_others_alive keeps_same) (simp_all add: same_ids_def)

lemma keeps_backup: "stays F \<Longrightarrow> keeping (lives D I R opened F) preserve_original"
  unfolding preserve_original_def
  by (intro keeps_bind) (auto intro!: keeps_basic keeps_bind keeps_same simp: same_ids_def split: note_file.split)

text \<open>The state a save works on covers what the store may hand out before the save ends.\<close>

lemma snapshot_covers: "nt_reserved s \<le> ss_reserved (snapshot_state s)" "ss_epoch (snapshot_state s) = nt_epoch s"
  "nt_sequence s \<le> nt_reserved s \<Longrightarrow> ss_sequence (snapshot_state s) \<le> ss_reserved (snapshot_state s)"
  by (auto simp: snapshot_state_def le_max_iff_disj)

lemma begun:
  "valid (alive D I R opened True) (locked (save_begin reserve now))
    (\<lambda>r. case r of Save_State st n \<Rightarrow> lives D I R opened (saves D st) | _ \<Rightarrow> alive D I R opened True)"
proof -
  have st: "saves D st (snd (save_begin reserve now s))"
    if ok: "nt_epoch s \<noteq> []" "fst (save_begin reserve now s) = Save_State st n" "ids_ok D I R s" for s st n
  proof -
    let ?s = "prune now s"
    have s: "nt_epoch ?s \<noteq> []" "snd (save_begin reserve now s) = ?s"
      using same_prune [of s now] ok(1,2) by (simp_all add: same_ids_def save_begin_def Let_def split: if_splits)
    have st: "st = (snapshot_state ?s)\<lparr>ss_reserved := max (ss_reserved (snapshot_state ?s)) (ss_sequence (snapshot_state ?s) + reserve)\<rparr>"
      using ok(2) by (simp add: save_begin_def Let_def split: if_splits)
    have "ids_ok D I R ?s" by (rule ids_ok_same [OF same_prune ok(3)])
    then have "good_disk D \<longrightarrow> valid_saved st \<and> state_maps st"
      unfolding st using snapshot_valid [of ?s] s(1) by (simp add: ids_ok_def)
    then show ?thesis
      using snapshot_covers [of ?s] s by (auto simp: st saves_def le_max_iff_disj)
  qed
  show ?thesis
    unfolding valid_def
  proof (intro allI impI)
    fix w
    assume w: "alive D I R opened True w"
    have "alive D I R opened True (snd (run_state (locked (save_begin reserve now)) w))"
      using keeps_same [of "save_begin reserve now" "named True" D I R opened] w by (simp add: valid_def)
    then show "(case fst (run_state (locked (save_begin reserve now)) w) of Save_State st n \<Rightarrow> lives D I R opened (saves D st)
        | _ \<Rightarrow> alive D I R opened True) (snd (run_state (locked (save_begin reserve now)) w))"
      using w st by (auto simp: locked_def named_def life_ok_def split: save_round.split)
  qed
qed

lemma saves_named: "lives D I R opened (saves D st) w \<Longrightarrow> alive D I R opened True w"
  by (simp add: saves_def named_def)

lemma candidates_replaced:
  "candidates D (Replaced st d # ds) = (if d then [Document st True True] else Document st True True # candidates D ds)"
  by simp

text \<open>The file is replaced: what it reserves is more than was handed out, durable or not.\<close>

lemma ids_ok_replaced:
  assumes ok: "ids_ok D I R s" and st: "saves D st s"
  shows "ids_ok D I R (s\<lparr>nt_log := Replaced st d # nt_log s\<rparr>)"
proof -
  let ?new = "Document st True True"
  have le: "nt_sequence s \<le> ss_reserved st" using ok st by (auto simp: ids_ok_def saves_def)
  have mine: "n \<le> nt_sequence s" if "(nt_epoch s, n) \<in> I \<union> set (handed_out (nt_log s))" for n
    using ok st that by (auto simp: ids_ok_def saves_def)
  have safe: "safe_log D I (nt_log s)" using ok by (simp add: ids_ok_def)
  have "covers [?new] (I \<union> set (handed_out (nt_log s)))"
    using mine le st by (fastforce simp: covers_def saves_def)
  then have "covers (candidates D (Replaced st d # nt_log s)) (I \<union> set (handed_out (Replaced st d # nt_log s)))"
    using safe_covers [OF safe] by (auto simp: covers_def)
  moreover have "\<forall>f \<in> set (candidates D (Replaced st d # nt_log s)). nt_sequence s < nt_reserved s \<and> file_epoch f = Some (nt_epoch s)
      \<longrightarrow> nt_reserved s \<le> file_reserve f"
    using ok st by (auto simp: ids_ok_def saves_def)
  ultimately show ?thesis using ok safe st by (auto simp: ids_ok_def saves_def)
qed

lemma replaced:
  "valid (lives D I R opened (saves D st)) (replace_file st d) (\<lambda>_. lives D I R opened (\<lambda>s. if d then wrote D st s else saves D st s))"
  unfolding valid_def
proof (intro allI impI)
  fix w
  assume w: "lives D I R opened (saves D st) w"
  have "ids_ok D I R ((nw_store w)\<lparr>nt_log := Replaced st d # nt_log (nw_store w)\<rparr>)"
    using w by (auto simp: life_ok_def intro: ids_ok_replaced)
  then show "lives D I R opened (\<lambda>s. if d then wrote D st s else saves D st s) (snd (run_state (replace_file st d) w))"
    using w by (auto simp: replace_file_def life_ok_def wrote_def saves_def)
qed

definition ending :: "note_file list \<Rightarrow> saved_state \<Rightarrow> note_errors \<Rightarrow> note_store \<Rightarrow> bool" where
  "ending D st e s = (if e = [] then wrote D st s else saves D st s)"

lemma stays_ending [intro, simp]: "stays (ending D st e)"
  using stays_wrote [of D st] stays_saves [of D st] by (simp add: stays_def ending_def)

text \<open>A write that failed leaves what the save may rely on; one that succeeded is all the disk holds.\<close>

lemma written:
  "valid (lives D I R opened (saves D st)) (write_atomic st)
    (\<lambda>e. lives D I R opened (ending D st e))"
proof -
  have fail: "valid (lives D I R opened (saves D st)) (State_Monad.return [x])
      (\<lambda>e. lives D I R opened (ending D st e))" for x
    by (rule valid_return) (simp add: ending_def)
  have put: "valid (lives D I R opened (saves D st)) (do { replace_file st True; State_Monad.return [] })
      (\<lambda>e. lives D I R opened (ending D st e))"
    "valid (lives D I R opened (saves D st)) (do { replace_file st False; State_Monad.return [N_Sync] })
      (\<lambda>e. lives D I R opened (ending D st e))"
    by (rule valid_bind [OF replaced valid_return], simp add: ending_def)+
  have arm: "valid (lives D I R opened (saves D st))
     (case r of Not_Written \<Rightarrow> State_Monad.return [N_Write] | Not_Synced \<Rightarrow> State_Monad.return [N_Sync]
      | Not_Renamed \<Rightarrow> State_Monad.return [N_Rename] | Dir_Not_Synced \<Rightarrow> do { replace_file st False; State_Monad.return [N_Sync] }
      | Written \<Rightarrow> do { replace_file st True; State_Monad.return [] })
      (\<lambda>e. lives D I R opened (ending D st e))" for r
    by (cases r) (simp_all only: write_end.case put fail)
  show ?thesis
    unfolding write_atomic_def
    by (intro valid_bind [OF keeps_look(1)] valid_if fail valid_bind [OF keeps_call] arm)
qed

lemma ended:
  "valid (lives D I R opened (ending D st e)) (change_store (save_end st n e))
    (\<lambda>_. alive D I R opened True)"
  unfolding valid_def
proof (intro allI impI)
  fix w :: note_world
  let ?s = "nw_store w"
  assume w: "lives D I R opened (ending D st e) w"
  have "ids_ok D I R (save_end st n e ?s)"
  proof (cases "e = []")
    case True
    with w have "max (nt_reserved ?s) (ss_reserved st) = ss_reserved st" "candidates D (nt_log ?s) = [Document st True True]"
        "ids_ok D I R ?s" "saves D st ?s"
      by (auto simp: ending_def wrote_def saves_def life_ok_def)
    then show ?thesis using True by (auto simp: ids_ok_def save_end_def saves_def)
  next
    case False
    with w show ?thesis by (auto simp: life_ok_def save_end_def same_ids_def intro: ids_ok_same)
  qed
  then show "alive D I R opened True (snd (run_state (change_store (save_end st n e)) w))"
    using w by (auto simp: locked_def life_ok_def named_def save_end_def ending_def wrote_def saves_def split: if_splits)
qed

lemma state_written:
  "valid (lives D I R opened (saves D st)) (write_state st n) (\<lambda>_. alive D I R opened True)"
proof -
  let ?P = "lives D I R opened (saves D st)"
  let ?Q = "\<lambda>e. lives D I R opened (ending D st e)"
  have prepare: "keeping ?P (if \<not> enc then State_Monad.return [N_Encoding] else if b then preserve_original else State_Monad.return [])" for enc b
    by (auto intro: keeps_return keeps_backup)
  have put: "valid ?P (if e1 = [] then write_atomic st else State_Monad.return e1) ?Q" for e1
    by (rule valid_if, rule written, rule valid_return) (simp add: ending_def)
  have gap: "keeping (?Q e) others" for e
    by (rule keeps_others) simp
  have last: "valid (?Q e) (do { others; change_store (save_end st n e); State_Monad.return e }) (\<lambda>_. alive D I R opened True)" for e
    by (rule valid_bind [OF gap valid_bind [OF ended keeps_return]])
  show ?thesis
    unfolding write_state_def
    by (intro valid_bind [OF keeps_call] valid_bind [OF keeps_look(1)] valid_bind [OF prepare] valid_bind [OF keeps_others [OF stays_saves]]
        valid_bind [OF put last])
qed

lemma keeps_save [keeps_intros]: "keeping (alive D I R opened b) (save_locked reserve)"
proof -
  have down: "valid P c (\<lambda>_. alive D I R opened True) \<Longrightarrow> valid P c (\<lambda>_. alive D I R opened b)" for P and c :: "note_errors note_act"
    by (erule valid_post) (auto simp: named_def)
  have failed: "valid (alive D I R opened (b \<or> False)) (do { record_storage_error e; State_Monad.return e }) (\<lambda>_. alive D I R opened b)" for e
    by (simp, intro keeps_bind keeps_storage_error keeps_return)
  have round: "valid (case r of Save_State st n \<Rightarrow> lives D I R opened (saves D st) | _ \<Rightarrow> alive D I R opened True)
      (case r of Save_Exhausted \<Rightarrow> State_Monad.return [N_Sequence] | Save_Nothing \<Rightarrow> State_Monad.return []
       | Save_State st n \<Rightarrow> write_state st n) (\<lambda>_. alive D I R opened True)" for r
    by (cases r) (auto intro: keeps_return state_written)
  have go: "valid (alive D I R opened True) (do {
       now \<leftarrow> call nv_now;
       others;
       r \<leftarrow> locked (save_begin reserve now);
       (case r of Save_Exhausted \<Rightarrow> State_Monad.return [N_Sequence] | Save_Nothing \<Rightarrow> State_Monad.return []
        | Save_State st n \<Rightarrow> write_state st n) }) (\<lambda>_. alive D I R opened b)"
    by (rule down, intro valid_bind [OF keeps_call] valid_bind [OF keeps_others_alive] valid_bind [OF begun round])
  have tail: "valid (alive D I R opened (b \<or> e = [])) (if e \<noteq> [] then do { record_storage_error e; State_Monad.return e }
      else do {
       now \<leftarrow> call nv_now;
       others;
       r \<leftarrow> locked (save_begin reserve now);
       (case r of Save_Exhausted \<Rightarrow> State_Monad.return [N_Sequence] | Save_Nothing \<Rightarrow> State_Monad.return []
        | Save_State st n \<Rightarrow> write_state st n) }) (\<lambda>_. alive D I R opened b)" for e
    using go failed by (cases "e = []") simp_all
  show ?thesis
    unfolding save_locked_def by (rule valid_bind [OF epoch_ensured [OF keeps_others_alive] tail])
qed

section \<open>Publishing and opening\<close>

lemma candidates_publish [simp]: "candidates D (nt_log (snd (publish_section msg now s))) = candidates D (nt_log s)"
  using same_prune [of s now] by (simp add: publish_section_def Let_def append_core same_ids_def)

lemma keeps_publish_section: "keeping (alive D I R opened True) (locked (publish_section msg now))"
  by (auto simp: valid_def locked_def life_ok_def named_def intro: ids_ok_publish)

text \<open>The loops, under whatever lock: the gaps and the saves keep what they keep.\<close>

locale note_context =
  fixes D :: "note_file list" and I :: "(string \<times> u64) set" and R :: "string set" and opened :: bool
    and gap :: "unit note_act" and save :: "note_errors note_act"
  assumes keeps_gap: "keeping (alive D I R opened b) gap" and keeps_saving: "keeping (alive D I R opened b) save"
begin

lemma keeps_publish_loop: "keeping (alive D I R opened True) (publish_loop gap save msg now k)"
proof (induction k)
  case (Suc k)
  have round: "keeping (alive D I R opened True) (case r of
      Exhausted \<Rightarrow> State_Monad.return ([], [N_Sequence])
    | Lease \<Rightarrow> do { e \<leftarrow> save; if e \<noteq> [] then State_Monad.return ([], N_Reserve_Unsaved # e) else publish_loop gap save msg now k }
    | Appended key \<Rightarrow> do { e \<leftarrow> save; State_Monad.return (key, e) })" for r
    by (cases r) (auto intro!: keeps_bind keeps_saving keeps_return Suc.IH)
  show ?case unfolding publish_loop.simps by (intro keeps_bind keeps_gap keeps_publish_section round)
qed (simp add: keeps_return)

lemma keeps_publish_at: "keeping (alive D I R opened b) (publish_at gap save msg now)"
proof -
  have go: "valid (alive D I R opened (b \<or> e = []))
      (if e \<noteq> [] then State_Monad.return ([], e) else publish_loop gap save msg now note_rounds) (\<lambda>_. alive D I R opened b)" for e
  proof (cases "e = []")
    case True
    have "valid (alive D I R opened True) (publish_loop gap save msg now note_rounds) (\<lambda>_. alive D I R opened b)"
      by (rule valid_post [OF keeps_publish_loop]) (simp add: named_def)
    with True show ?thesis by simp
  qed (simp add: keeps_return)
  show ?thesis unfolding publish_at_def by (rule valid_bind [OF epoch_ensured [OF keeps_gap] go])
qed

end

interpretation held: note_context D I R opened others "save_locked 0" for D I R opened
  by unfold_locales (rule keeps_others_alive, rule keeps_save)

lemma keeps_drain [keeps_intros]: "keeping (alive D I R opened b) drain_locked"
proof -
  have "keeping (alive D I R opened b) (drain_loop k)" for k
  proof (induction k)
    case (Suc k)
    have one: "keeping (alive D I R opened b) (case bs of [] \<Rightarrow> State_Monad.return []
      | event # _ \<Rightarrow> do {
          (key, e) \<leftarrow> publish_at others (save_locked 0) (ne_text event) (ne_at event);
          (if key \<noteq> [] then do { others; change_store (drop_deferred event) } else State_Monad.return ());
          if e \<noteq> [] then State_Monad.return e else drain_loop k })" for bs
      by (cases bs) (auto intro!: keeps_bind keeps_return keeps_others_alive held.keeps_publish_at keeps_same Suc.IH)
    show ?case unfolding drain_loop.simps by (intro keeps_bind keeps_others_alive keeps_look one)
  qed (simp add: keeps_return)
  then show ?thesis unfolding drain_locked_def .
qed

text \<open>A store that is not open yet has no epoch and has done nothing.\<close>

definition blank :: "note_store \<Rightarrow> bool" where
  "blank s \<longleftrightarrow> nt_log s = [] \<and> nt_epoch s = []"

lemma ids_ok_restored:
  assumes cov: "covers D I" and f: "Document st r p \<in> set D" and log: "nt_log s = []"
    and valid: "valid_saved (if r then st else st\<lparr>ss_reserved := ss_sequence st\<rparr>)"
  shows "ids_ok D I R (restored_state (if r then st else st\<lparr>ss_reserved := ss_sequence st\<rparr>) p s)"
proof -
  let ?st = "if r then st else st\<lparr>ss_reserved := ss_sequence st\<rparr>"
  have "state_maps ?st" if "good_disk D"
    using that f by (force simp: good_disk_def state_maps_def)
  then have "good_disk D \<longrightarrow> store_books (restored_state ?st p s) \<and> valid_epoch (nt_epoch (restored_state ?st p s))"
    using restored_books [OF _ valid] by blast
  moreover
  have "n \<le> file_reserve (Document st r p)" if "(ss_epoch st, n) \<in> I" for n
    using cov f that unfolding covers_def by fastforce
  moreover have "ss_epoch st \<in> epochs D" using f by (force simp: epochs_def)
  ultimately show ?thesis
    using cov log unfolding ids_ok_def by (auto simp: restored_state_def Let_def touched_def)
qed

lemma restored_life: "valid (lives D I R opened blank) restore (\<lambda>_. alive D I R opened False)"
proof -
  have step: "alive D I R opened False (w\<lparr>nw_store := snd (restore_section f ok (nw_store w))\<rparr>)"
    if w: "lives D I R opened blank w" and f: "f = nw_file w" for w f ok
  proof -
    have log: "nt_log (nw_store w) = []" and known: "f \<in> set D" and cov: "covers D I"
      using w f by (auto simp: blank_def life_ok_def ids_ok_def)
    have same: "same_ids (nw_store w) (nw_store w\<lparr>nt_backup := True\<rparr>)" by (simp add: same_ids_def)
    have still: "ids_ok D I R (nw_store w)" "ids_ok D I R (nw_store w\<lparr>nt_backup := True\<rparr>)"
      using w ids_ok_same [OF same] by (auto simp: life_ok_def)
    have "ids_ok D I R (snd (restore_section f ok (nw_store w)))"
    proof (cases f)
      case (Document st r p)
      then have "Document st r p \<in> set D" using known by simp
      note read = ids_ok_restored [OF cov this log]
      show ?thesis using still read unfolding Document restore_section_def by (cases r) (simp_all add: Let_def)
    qed (use still in \<open>simp_all add: restore_section_def\<close>)
    moreover have "nt_log (snd (restore_section f ok (nw_store w))) = []" "nt_open (snd (restore_section f ok (nw_store w))) = nt_open (nw_store w)"
      using log by (auto simp: restore_section_def Let_def restored_state_def touched_def split: note_file.split)
    ultimately show ?thesis using w log by (simp add: life_ok_def named_def)
  qed
  show ?thesis
    unfolding valid_def
  proof (intro allI impI)
    fix w
    assume w: "lives D I R opened blank w"
    let ?w = "w\<lparr>nw_calls := nw_calls w + 1\<rparr>"
    have run: "snd (run_state restore w) = (if nt_path (nw_store w) = [] then w
        else ?w\<lparr>nw_store := snd (restore_section (nw_file w) (nv_read (nw_env w) (nw_calls w)) (nw_store ?w))\<rparr>)"
      by (simp add: restore_def look_at_def the_note_file_def call_def locked_def)
    have "lives D I R opened blank ?w" using w by (simp add: life_ok_def)
    then have "alive D I R opened False (?w\<lparr>nw_store := snd (restore_section (nw_file w) ok (nw_store ?w))\<rparr>)" for ok
      by (rule step) simp
    moreover have "alive D I R opened False w" using w by (simp add: named_def)
    ultimately show "alive D I R opened False (snd (run_state restore w))" unfolding run by simp
  qed
qed

lemma loaded: "valid (lives D I R opened blank) load (\<lambda>_. alive D I R opened False)"
proof -
  have "keeping (alive D I R opened False) (change_store (\<lambda>s. if e \<noteq> [] then (prune now s)\<lparr>nt_error := e\<rparr> else prune now s))" for e :: note_errors and now
    by (rule keeps_same) (auto intro: same_error)
  moreover have "valid (alive D I R opened False) (ensure_epoch others) (\<lambda>_. alive D I R opened False)"
    by (rule valid_post [OF epoch_ensured [OF keeps_others_alive]]) (simp add: named_def)
  ultimately show ?thesis
    unfolding load_def by (intro valid_bind [OF restored_life] keeps_bind keeps_call keeps_others_alive keeps_return)
qed

abbreviation shut :: "note_file list \<Rightarrow> (string \<times> u64) set \<Rightarrow> string set \<Rightarrow> note_world \<Rightarrow> bool" where
  "shut D I R \<equiv> lives D I R False blank"

definition between :: "note_file list \<Rightarrow> (string \<times> u64) set \<Rightarrow> string set \<Rightarrow> note_world \<Rightarrow> bool" where
  "between D I R w \<longleftrightarrow> alive D I R True False w \<or> shut D I R w"

lemma keeps_shut_others: "keeping (shut D I R) others"
  unfolding valid_def
proof (intro allI impI)
  fix w
  assume w: "shut D I R w"
  let ?P = "lives D I R False (\<lambda>s. \<not> nt_open s \<and> nt_log s = [] \<and> nt_epoch s = [])"
  have "keeping ?P others" by (rule keeps_others) simp
  moreover have "?P w" using w by (auto simp: blank_def life_ok_def)
  ultimately have "?P (snd (run_state others w))" unfolding valid_def by blast
  then show "shut D I R (snd (run_state others w))" by (simp add: blank_def)
qed

lemma opened_life: "valid (shut D I R) open_locked (\<lambda>_. between D I R)"
proof -
  have refuse: "valid (shut D I R) (do { record_storage_error [N_Path]; State_Monad.return [N_Path] }) (\<lambda>_. between D I R)"
  proof -
    have "keeping (shut D I R) (change_store (\<lambda>s. s\<lparr>nt_error := e\<rparr>))" for e
      by (auto simp: valid_def locked_def life_ok_def blank_def ids_ok_def)
    then show ?thesis
      unfolding record_storage_error_def
      by (intro valid_bind [OF keeps_bind [OF keeps_shut_others] valid_return]) (auto simp: between_def)
  qed
  have path: "keeping (shut D I R) (change_store (\<lambda>s. s\<lparr>nt_path := path\<rparr>))" for path
    by (auto simp: valid_def locked_def life_ok_def blank_def ids_ok_def)
  have switch: "valid (alive D I R False b) (change_store (\<lambda>s. s\<lparr>nt_open := True\<rparr>)) (\<lambda>_. alive D I R True b)" for b
    by (auto simp: valid_def locked_def life_ok_def named_def ids_ok_def)
  have maybe: "keeping (alive D I R opened False) (if b then drain_locked else State_Monad.return e)" for b e opened
    by (auto intro: keeps_drain keeps_return)
  have tail: "valid (alive D I R False False) (do {
      e3 \<leftarrow> save_locked 0;
      e4 \<leftarrow> (if e3 = [] then drain_locked else State_Monad.return []);
      others;
      change_store (\<lambda>s. s\<lparr>nt_open := True\<rparr>);
      e5 \<leftarrow> (if e3 = [] \<and> e4 = [] then drain_locked else State_Monad.return e4);
      State_Monad.return (e1 @ e2 @ e3 @ e5) }) (\<lambda>_. between D I R)" for e1 e2
    by (intro valid_bind [OF keeps_save] valid_bind [OF maybe] valid_bind [OF keeps_others_alive] valid_bind [OF switch] valid_return)
      (simp add: between_def)
  have choose: "valid (shut D I R) (case p of
        None \<Rightarrow> do { record_storage_error [N_Path]; State_Monad.return [N_Path] }
      | Some path \<Rightarrow> do {
          change_store (\<lambda>s. s\<lparr>nt_path := path\<rparr>);
          (e1, e2) \<leftarrow> load;
          e3 \<leftarrow> save_locked 0;
          e4 \<leftarrow> (if e3 = [] then drain_locked else State_Monad.return []);
          others;
          change_store (\<lambda>s. s\<lparr>nt_open := True\<rparr>);
          e5 \<leftarrow> (if e3 = [] \<and> e4 = [] then drain_locked else State_Monad.return e4);
          State_Monad.return (e1 @ e2 @ e3 @ e5) }) (\<lambda>_. between D I R)" for p
  proof (cases p)
    case (Some q)
    show ?thesis
      unfolding Some option.case by (rule valid_bind [OF path valid_bind [OF loaded]]) (use tail in \<open>simp add: case_prod_beta\<close>)
  qed (simp add: refuse)
  show ?thesis unfolding open_locked_def by (rule valid_bind [OF keeps_call choose])
qed

lemma flushed_open [keeps_intros]: "keeping (alive D I R True b) (flush_for_events r)"
proof -
  have "valid (alive D I R True b) (unopened others) (\<lambda>waits w. alive D I R True b w \<and> \<not> waits)"
    unfolding unopened_def by (rule valid_bind [OF keeps_others_alive]) (auto simp: valid_def look_at_def life_ok_def)
  moreover have "valid (\<lambda>w. alive D I R True b w \<and> \<not> waits) (if waits then open_locked
      else do { e \<leftarrow> save_locked r; if e \<noteq> [] then State_Monad.return e else drain_locked }) (\<lambda>_. alive D I R True b)" for waits
  proof (cases waits)
    case False
    have "keeping (alive D I R True b) (do { e \<leftarrow> save_locked r; if e \<noteq> [] then State_Monad.return e else drain_locked })"
      by (intro keeps_bind keeps_save valid_if keeps_return keeps_drain)
    with False show ?thesis by (simp add: valid_def)
  qed (simp add: valid_def)
  ultimately show ?thesis unfolding flush_for_events_def by (rule valid_bind)
qed

lemma flushed_shut: "valid (shut D I R) (flush_for_events r) (\<lambda>_. between D I R)"
proof -
  have "valid (shut D I R) (unopened others) (\<lambda>waits w. shut D I R w \<and> waits)"
    unfolding unopened_def by (rule valid_bind [OF keeps_shut_others]) (auto simp: valid_def look_at_def life_ok_def)
  moreover have "valid (\<lambda>w. shut D I R w \<and> waits) (if waits then open_locked
      else do { e \<leftarrow> save_locked r; if e \<noteq> [] then State_Monad.return e else drain_locked }) (\<lambda>_. between D I R)" for waits
    using opened_life by (cases waits) (auto simp: valid_def)
  ultimately show ?thesis unfolding flush_for_events_def by (rule valid_bind)
qed

lemma keeps_between_call: "keeping (between D I R) (call f)"
  using keeps_call [of D I R True "named False" f] keeps_call [of D I R False blank f] by (auto simp: valid_def between_def)

lemma keeps_between_others: "keeping (between D I R) others"
  using keeps_others_alive [of D I R True False] keeps_shut_others [of D I R] by (auto simp: valid_def between_def)

lemma keeps_between_flush: "keeping (between D I R) (flush_for_events r)"
  using flushed_open [of D I R False r] flushed_shut [of D I R r] by (auto simp: valid_def between_def)

lemma keeps_free: "keeping (between D I R) free" "keeping (alive D I R True b) free"
proof -
  have "keeping (between D I R) (flush_all rs)" "keeping (alive D I R True b) (flush_all rs)" for rs
    by (induction rs) (auto intro!: keeps_bind keeps_between_others keeps_between_flush keeps_others_alive flushed_open)
  then show "keeping (between D I R) free" "keeping (alive D I R True b) free"
    unfolding free_def by (auto intro!: keeps_bind keeps_between_call keeps_call)
qed

interpretation unheld: note_context D I R True free flush for D I R
  by unfold_locales (rule keeps_free, simp add: flush_def flushed_open)

section \<open>The operations\<close>

lemma deferred: "valid (between D I R) (locked (defer_if b msg now)) (\<lambda>_. between D I R)"
proof -
  have "same_ids s (snd (defer_if b msg now s))" for s by (simp add: defer_if_def)
  then have "keeping (alive D I R True False) (locked (defer_if b msg now))" by (rule keeps_same) simp
  moreover have "keeping (shut D I R) (locked (defer_if b msg now))"
    by (auto simp: valid_def locked_def life_ok_def blank_def ids_ok_def defer_if_def defer_event_def Let_def)
  ultimately show ?thesis by (auto simp: valid_def between_def)
qed

lemma between_alive: "alive D I R True b w \<Longrightarrow> between D I R w"
  by (simp add: between_def named_def)

lemma keeps_ready: "valid (between D I R) (unopened free) (\<lambda>waits w. if waits then between D I R w else alive D I R True False w)"
  unfolding unopened_def by (rule valid_bind [OF keeps_free(1)]) (auto simp: valid_def look_at_def between_def life_ok_def)

text \<open>An operation that answers at once while the store is not open.\<close>

lemma guarded:
  assumes "valid (alive D I R True False) f (\<lambda>_. between D I R)"
  shows "valid (between D I R) (do { waits \<leftarrow> unopened free; if waits then State_Monad.return x else f }) (\<lambda>_. between D I R)"
proof (rule valid_bind [OF keeps_ready])
  fix waits
  show "valid (\<lambda>w. if waits then between D I R w else alive D I R True False w)
      (if waits then State_Monad.return x else f) (\<lambda>_. between D I R)"
    using assms by (cases waits) (simp_all add: keeps_return)
qed

lemma keeps_publish: "keeping (between D I R) (publish msg)"
proof -
  have first: "valid (between D I R) (locked (defer_if (\<lambda>s. \<not> nt_open s \<or> nt_backlog s \<noteq> []) msg now))
      (\<lambda>waits w. if waits then between D I R w else alive D I R True False w)" for now
    using deferred [of D I R "\<lambda>s. \<not> nt_open s \<or> nt_backlog s \<noteq> []" msg now]
    by (auto simp: valid_def locked_def defer_if_def between_def life_ok_def split: if_splits)
  have refused: "valid (between D I R) (do { free; _ \<leftarrow> locked (defer_if (\<lambda>s. True) msg now); State_Monad.return ([], [N_Deferred]) })
      (\<lambda>_. between D I R)" for now
    by (intro keeps_bind keeps_free deferred keeps_return)
  have fin: "valid (alive D I R True False) (if N_Reserve_Unsaved \<in> set e
      then do { free; _ \<leftarrow> locked (defer_if (\<lambda>s. True) msg now); State_Monad.return ([], [N_Deferred]) }
      else State_Monad.return (key, e)) (\<lambda>_. between D I R)" for e key now
    by (rule valid_if, rule valid_pre [OF refused between_alive], assumption, rule valid_return, erule between_alive)
  have go: "valid (alive D I R True False) (do {
       (key, e) \<leftarrow> publish_at free flush msg now;
       if N_Reserve_Unsaved \<in> set e
       then do { free; _ \<leftarrow> locked (defer_if (\<lambda>s. True) msg now); State_Monad.return ([], [N_Deferred]) }
       else State_Monad.return (key, e) }) (\<lambda>_. between D I R)" for now
    by (rule valid_bind [OF unheld.keeps_publish_at]) (simp add: fin case_prod_beta)
  have tail: "valid (\<lambda>w. if waits then between D I R w else alive D I R True False w) (if waits then State_Monad.return ([], [N_Deferred]) else do {
       (key, e) \<leftarrow> publish_at free flush msg now;
       if N_Reserve_Unsaved \<in> set e
       then do { free; _ \<leftarrow> locked (defer_if (\<lambda>s. True) msg now); State_Monad.return ([], [N_Deferred]) }
       else State_Monad.return (key, e) }) (\<lambda>_. between D I R)" for waits now
    using go by (cases waits) (simp_all add: keeps_return)
  show ?thesis
    unfolding publish_def by (intro valid_bind [OF keeps_between_call] valid_bind [OF keeps_free(1)] valid_bind [OF first tail])
qed

lemma keeps_observe_section: "keeping (alive D I R True True) (locked (observe_section obs now))"
proof -
  have "candidates D (nt_log (snd (observe_section obs now s))) = candidates D (nt_log s)" if "nt_open s" "nt_epoch s \<noteq> []" for s
    using frame_section [of s "Other_Observe obs now"] that by (simp add: frame_def)
  then show ?thesis
    by (auto simp: valid_def locked_def life_ok_def named_def intro: ids_ok_observe)
qed

lemma keeps_observe_loop: "keeping (alive D I R True True) (observe_loop obs now k)"
proof (induction k)
  case (Suc k)
  have round: "keeping (alive D I R True True) (case r of
      Observe_Exhausted \<Rightarrow> State_Monad.return [N_Sequence]
    | Observe_Lease events \<Rightarrow> do { e \<leftarrow> flush_for_events events; if e \<noteq> [] then State_Monad.return e else observe_loop obs now k }
    | Observed \<Rightarrow> flush)" for r
    by (cases r) (auto simp: flush_def intro!: keeps_bind flushed_open keeps_return Suc.IH)
  show ?case unfolding observe_loop.simps by (intro keeps_bind keeps_free keeps_observe_section round)
qed (simp add: keeps_return)

lemma keeps_observe: "keeping (between D I R) (observe_subscriptions subs snap)"
proof -
  have "valid (alive D I R True (False \<or> e = [])) (if e \<noteq> [] then State_Monad.return e
      else do { now \<leftarrow> call nv_now; observe_loop (observations snap [] subs) now note_rounds }) (\<lambda>_. between D I R)" for e
  proof (cases "e = []")
    case True
    have "valid (alive D I R True True) (do { now \<leftarrow> call nv_now; observe_loop (observations snap [] subs) now note_rounds }) (\<lambda>_. between D I R)"
      by (rule valid_post [OF keeps_bind [OF keeps_call keeps_observe_loop]]) (rule between_alive)
    with True show ?thesis by simp
  qed (auto intro!: valid_return simp: between_alive)
  then show ?thesis
    unfolding observe_subscriptions_def by (intro guarded valid_bind [OF epoch_ensured [OF keeps_free(2)]])
qed

lemma keeps_simple: "keeping (between D I R) (pending_page cursor)" "keeping (between D I R) (ack chat key)"
  "keeping (between D I R) (replace_recipients rs)" "keeping (between D I R) note_status" "keeping (between D I R) flush"
proof -
  have up: "keeping (alive D I R True False) c \<Longrightarrow> valid (alive D I R True False) c (\<lambda>_. between D I R)" for c :: "'a note_act"
    by (erule valid_post) (rule between_alive)
  show "keeping (between D I R) (pending_page cursor)"
    unfolding pending_page_def by (intro guarded up keeps_bind keeps_call keeps_free keeps_same) simp_all
  have answer: "keeping (alive D I R True False) (if e \<noteq> [] then State_Monad.return e else flush)" for e
    by (auto simp: flush_def intro: keeps_return flushed_open)
  show "keeping (between D I R) (ack chat key)"
    unfolding ack_def by (intro guarded up valid_if keeps_return keeps_bind keeps_call keeps_free keeps_same answer) simp_all
  show "keeping (between D I R) (replace_recipients rs)"
    unfolding replace_recipients_def flush_def by (intro guarded up keeps_bind keeps_call keeps_free keeps_same flushed_open) simp_all
  have "keeping (shut D I R) (locked (status_section now))" for now
    by (auto simp: valid_def locked_def status_section_def life_ok_def)
  moreover have "keeping (alive D I R True False) (locked (status_section now))" for now by (rule keeps_same) simp_all
  ultimately have "keeping (between D I R) (locked (status_section now))" for now by (auto simp: valid_def between_def)
  then show "keeping (between D I R) note_status"
    unfolding note_status_def by (intro keeps_bind keeps_between_call keeps_free)
  show "keeping (between D I R) flush" unfolding flush_def by (rule keeps_between_flush)
qed

lemma keeps_ops: "keeping (between D I R) (run_ops ops)"
proof (induction ops)
  case (Cons op ops)
  have "keeping (between D I R) (run_op op)"
    by (cases op) (auto intro!: keeps_bind keeps_return keeps_publish keeps_observe keeps_simple)
  then show ?case using Cons by (auto intro: keeps_bind)
qed (simp add: keeps_return)

section \<open>A life, and lives\<close>

text \<open>Before a life: the file is one of those the disk may hold.\<close>

definition born :: "note_file list \<Rightarrow> (string \<times> u64) set \<Rightarrow> string set \<Rightarrow> note_world \<Rightarrow> bool" where
  "born D I R w \<longleftrightarrow> covers D I \<and> nw_file w \<in> set D \<and> draws (nw_env w) \<subseteq> R \<and> R \<inter> (fst ` I \<union> epochs D) = {}"

lemma new_store_core:
  "nt_log (new_store path) = []" "nt_epoch (new_store path) = []" "nt_sequence (new_store path) = 0"
  "nt_reserved (new_store path) = sequence_reserve" "nt_open (new_store path)"
  by (simp_all add: new_store_def)

lemma born_open: "valid (born D I R) open_store (\<lambda>_. between D I R)"
proof -
  have asked: "keeping (born D I R) (call f)" for f by (simp add: valid_def call_def born_def)
  have fresh: "0 \<le> sequence_reserve" by simp
  have made: "valid (born D I R) (change_store (\<lambda>s. new_store path)) (\<lambda>_. lives D I R True blank)" for path
    using new_store_books [of path] by (auto simp: valid_def locked_def born_def life_ok_def blank_def new_store_core ids_ok_def epochs_def)
  have at: "valid (born D I R) (new_store_at path) (\<lambda>_. between D I R)" for path
    unfolding new_store_at_def flush_def
    by (rule valid_bind [OF made valid_bind [OF loaded]])
      (auto simp: case_prod_beta intro!: valid_bind [OF flushed_open] valid_return between_alive)
  have unopen: "valid (born D I R) (do {
      change_store (\<lambda>s. (new_store [])\<lparr>nt_open := False, nt_error := [N_Unavailable]\<rparr>); State_Monad.return [N_Path] }) (\<lambda>_. between D I R)"
    using new_store_books [of "[]"] by (auto simp: valid_def locked_def born_def between_def life_ok_def blank_def new_store_core ids_ok_def epochs_def)
  show ?thesis
    unfolding open_store_def by (intro valid_bind [OF asked] valid_option at unopen)
qed

record life =
  lf_env :: note_env
  lf_ops :: "note_op list"
  lf_file :: nat
  lf_lost :: nat

definition life_log :: "note_file list \<Rightarrow> life \<Rightarrow> note_deed list" where
  "life_log D l =
     (let w = \<lparr>nw_env = lf_env l, nw_calls = 0, nw_store = new_store [], nw_file = D ! (lf_file l mod length D), nw_backups = []\<rparr> in
      drop (lf_lost l) (nt_log (nw_store (snd (run_state (do { _ \<leftarrow> open_store; run_ops (lf_ops l) }) w)))))"

text \<open>Run after run, the latest deed first: a run finds a disk that the one before may have left.\<close>

fun all_deeds :: "note_file list \<Rightarrow> life list \<Rightarrow> note_deed list" where
  "all_deeds D [] = []"
| "all_deeds D (l # ls) = (let ds = life_log D l in all_deeds (candidates D ds) ls @ ds)"

fun draws_fresh :: "string set \<Rightarrow> life list \<Rightarrow> bool" where
  "draws_fresh E [] \<longleftrightarrow> True"
| "draws_fresh E (l # ls) \<longleftrightarrow> draws (lf_env l) \<inter> E = {} \<and> draws_fresh (E \<union> draws (lf_env l)) ls"

lemma issued_append: "handed_out (xs @ ys) = handed_out xs @ handed_out ys"
  by (induction xs) (auto split: note_deed.split)

lemma good_log_append: "good_log (xs @ ys) \<longleftrightarrow> good_log xs \<and> good_log ys"
  by (auto simp: good_log_def)

lemma good_log_drop: "good_log ds \<Longrightarrow> good_log (drop k ds)"
  by (auto simp: good_log_def dest: in_set_dropD)

lemma good_candidates: "good_disk D \<Longrightarrow> good_log ds \<Longrightarrow> good_disk (candidates D ds)"
  by (induction ds) (auto simp: good_disk_def split: note_deed.split)

lemma safe_drop: "safe_log D I ds \<Longrightarrow> safe_log D I (drop k ds)"
proof (induction k arbitrary: ds)
  case (Suc k)
  then show ?case by (cases ds) (simp_all del: candidates.simps(2) handed_out.simps(2))
qed simp

lemma covers_mono: "covers D I \<Longrightarrow> I' \<subseteq> I \<Longrightarrow> covers D I'"
  unfolding covers_def by blast

text \<open>What a life hands out: new, all different, and covered by whatever the disk holds when it ends.\<close>

lemma life_safe:
  assumes cov: "covers D I" and D: "D \<noteq> []" and fresh: "draws (lf_env l) \<inter> (fst ` I \<union> epochs D) = {}"
  shows "safe_log D I (life_log D l) \<and> log_epochs (life_log D l) \<subseteq> epochs D \<union> draws (lf_env l)
    \<and> (good_disk D \<longrightarrow> good_log (life_log D l))"
proof -
  let ?w = "\<lparr>nw_env = lf_env l, nw_calls = 0, nw_store = new_store [], nw_file = D ! (lf_file l mod length D), nw_backups = []\<rparr>"
  let ?c = "do { _ \<leftarrow> open_store; run_ops (lf_ops l) }"
  let ?ds = "nt_log (nw_store (snd (run_state ?c ?w)))"
  have "born D I (draws (lf_env l)) ?w" using cov D fresh by (simp add: born_def)
  moreover have "valid (born D I (draws (lf_env l))) ?c (\<lambda>_. between D I (draws (lf_env l)))"
    by (rule valid_bind [OF born_open keeps_ops])
  ultimately have "between D I (draws (lf_env l)) (snd (run_state ?c ?w))" unfolding valid_def by blast
  then have "safe_log D I ?ds" "log_epochs ?ds \<subseteq> epochs D \<union> draws (lf_env l)" "good_disk D \<longrightarrow> good_log ?ds"
    by (auto simp: between_def life_ok_def ids_ok_def)
  then show ?thesis
    using safe_drop [of D I ?ds "lf_lost l"] log_epochs_drop [of "lf_lost l" ?ds] good_log_drop [of ?ds "lf_lost l"]
    unfolding life_log_def Let_def by blast
qed

lemma safe_distinct: "safe_log D I ds \<Longrightarrow> distinct (handed_out ds) \<and> set (handed_out ds) \<inter> I = {}"
  by (induction ds) (auto split: note_deed.splits)

lemma candidates_nonempty: "D \<noteq> [] \<Longrightarrow> candidates D ds \<noteq> []"
  by (induction ds) (auto split: note_deed.split)

lemma lives_safe:
  assumes "covers D I" and "D \<noteq> []" and "draws_fresh (fst ` I \<union> epochs D) ls"
  shows "distinct (handed_out (all_deeds D ls)) \<and> set (handed_out (all_deeds D ls)) \<inter> I = {} \<and> (good_disk D \<longrightarrow> good_log (all_deeds D ls))"
  using assms
proof (induction ls arbitrary: D I)
  case (Cons l ls)
  let ?ds = "life_log D l"
  let ?I = "I \<union> set (handed_out ?ds)" and ?D = "candidates D ?ds"
  have safe: "safe_log D I ?ds" "log_epochs ?ds \<subseteq> epochs D \<union> draws (lf_env l)" "good_disk D \<longrightarrow> good_log ?ds"
    using life_safe [of D I l] Cons.prems by auto
  have seen: "fst ` ?I \<union> epochs ?D \<subseteq> (fst ` I \<union> epochs D) \<union> draws (lf_env l)"
    using issued_epochs [of ?ds] candidates_epochs [of D ?ds] safe(2) by blast
  have mono: "draws_fresh E ls' \<Longrightarrow> E' \<subseteq> E \<Longrightarrow> draws_fresh E' ls'" for E E' ls'
    by (induction ls' arbitrary: E E') (auto, meson Un_mono subset_refl)
  have "draws_fresh (fst ` ?I \<union> epochs ?D) ls" by (rule mono [OF _ seen]) (use Cons.prems(3) in simp)
  then have "distinct (handed_out (all_deeds ?D ls)) \<and> set (handed_out (all_deeds ?D ls)) \<inter> ?I = {} \<and> (good_disk ?D \<longrightarrow> good_log (all_deeds ?D ls))"
    by (rule Cons.IH [OF safe_covers [OF safe(1)] candidates_nonempty [OF Cons.prems(2)]])
  then show ?case
    using safe_distinct [OF safe(1)] safe(3) good_candidates [of D ?ds] by (auto simp: Let_def issued_append good_log_append)
qed simp

lemma make_event_id_inject:
  assumes "length e = length e'"
  shows "make_event_id e n = make_event_id e' n' \<longleftrightarrow> e = e' \<and> n = n'"
  using assms by (auto simp: make_event_id_def show_uint64_def word_unat_eq_iff)

text \<open>
  C4: no identifier of a notification is handed out twice, over any number of runs of the daemon: whatever
  the goroutines do between each other's critical sections, whichever saves fail at whichever step, wherever
  each run is cut off, and whichever of the last files the disk then holds. What it takes is that a new
  store draws an epoch that was not used before.
\<close>

theorem event_ids_never_reused:
  assumes "draws_fresh (epochs [file]) ls"
  shows "distinct (handed_out (all_deeds [file] ls))"
  using lives_safe [of "[file]" "{}" ls] assms by (simp add: covers_def)

lemma restored_core:
  "nt_recent (restored_state st private s) = ss_recent st" "nt_recipients (restored_state st private s) = ss_recipients st"
  "nt_pending (restored_state st private s) = ss_pending st" "nt_closed (restored_state st private s) = ss_closed st"
  "nt_sequence (restored_state st private s) = ss_reserved st"
  by (simp_all add: restored_state_def Let_def touched_def)

definition example_env :: "128 word \<Rightarrow> (nat \<Rightarrow> write_end) \<Rightarrow> note_env" where
  "example_env r ends =
     \<lparr>nv_now = (\<lambda>n. 0), nv_random = (\<lambda>n. Some r), nv_sections = (\<lambda>n. []), nv_flushes = (\<lambda>n. []), nv_encodes = (\<lambda>n. True),
      nv_backup = (\<lambda>n. True), nv_write = ends, nv_read = (\<lambda>n. True), nv_resolve = (\<lambda>n. Some ''data''), nv_time = (\<lambda>t. None)\<rparr>"

definition example_lives :: "life list" where
  "example_lives =
     [\<lparr>lf_env = example_env 1 (\<lambda>n. Written), lf_ops = [Op_Publish ''up'', Op_Publish ''down''], lf_file = 0, lf_lost = 1\<rparr>,
      \<lparr>lf_env = example_env 2 (\<lambda>n. Written), lf_ops = [Op_Publish ''up''], lf_file = 0, lf_lost = 0\<rparr>]"

theorem event_ids_never_reused_witness:
  "draws_fresh (epochs [No_File]) example_lives \<and> distinct (handed_out (all_deeds [No_File] example_lives))"
proof -
  have "hex_epoch 1 \<noteq> hex_epoch 2" by code_simp
  then have "draws_fresh (epochs [No_File]) example_lives"
    by (simp add: example_lives_def example_env_def draws_def epochs_def)
  with event_ids_never_reused [of No_File example_lives] show ?thesis by simp
qed

text \<open>
  C5: whatever a run saves, a restart takes back: of every state that ever replaces the file, however the
  goroutines interleave and whichever earlier saves failed, the validation of a later start accepts the
  identifiers, the order of the queues, the recipients and the acknowledgements, and the store continues with
  the saved events, recipients and queues, at a sequence no lower than the saved one.
\<close>

theorem saved_states_are_taken_back:
  assumes "draws_fresh (epochs [file]) ls" and "good_disk [file]" and "Replaced st durable \<in> set (all_deeds [file] ls)"
  shows "fst (restore_section (Document st True True) True s) = []
    \<and> nt_recent (snd (restore_section (Document st True True) True s)) = ss_recent st
    \<and> nt_recipients (snd (restore_section (Document st True True) True s)) = ss_recipients st
    \<and> nt_pending (snd (restore_section (Document st True True) True s)) = ss_pending st
    \<and> nt_closed (snd (restore_section (Document st True True) True s)) = ss_closed st
    \<and> ss_sequence st \<le> nt_sequence (snd (restore_section (Document st True True) True s))
    \<and> store_books (snd (restore_section (Document st True True) True s))"
proof -
  have "good_log (all_deeds [file] ls)" using lives_safe [of "[file]" "{}" ls] assms(1,2) by (simp add: covers_def)
  then have good: "valid_saved st" "state_maps st" using assms(3) by (auto simp: good_log_def)
  then have "ss_sequence st \<le> ss_reserved st" by (simp add: valid_saved_def not_less split: if_splits)
  moreover have "snd (restore_section (Document st True True) True s) = restored_state st True s" "fst (restore_section (Document st True True) True s) = []"
    using good(1) by (simp_all add: restore_section_def)
  ultimately show ?thesis
    using restored_books(1) [OF good(2,1)] by (simp add: restored_core)
qed

definition example_start :: life where
  "example_start = \<lparr>lf_env = example_env 1 (\<lambda>n. Written), lf_ops = [], lf_file = 0, lf_lost = 0\<rparr>"

definition example_saved :: saved_state where
  "example_saved =
     \<lparr>ss_version = 1, ss_epoch = hex_epoch 1, ss_sequence = 0, ss_reserved = sequence_reserve, ss_recent = [], ss_recipients = [],
      ss_pending = [], ss_closed = [], ss_health = []\<rparr>"

lemma example_start_deeds: "all_deeds [No_File] [example_start] = [Replaced example_saved True]"
  by (simp add: example_start_def example_saved_def example_env_def life_log_def open_store_def new_store_at_def call_def locked_def
      new_store_def load_def restore_def look_at_def the_note_file_def restore_section_def ensure_epoch_def others_def
      set_epoch_def prune_def bounded_events_def prune_closed_def touched_def flush_def flush_for_events_def
      unopened_def save_locked_def save_begin_def snapshot_state_def write_state_def write_atomic_def replace_file_def save_end_def
      drain_locked_def sequence_reserve_def Let_def)

theorem saved_states_are_taken_back_witness:
  "fst (restore_section (Document example_saved True True) True (new_store ''data'')) = []"
proof -
  have "draws_fresh (epochs [No_File]) [example_start]"
    by (simp add: example_start_def example_env_def draws_def epochs_def)
  moreover have "Replaced example_saved True \<in> set (all_deeds [No_File] [example_start])"
    by (simp only: example_start_deeds) simp
  ultimately show ?thesis
    using saved_states_are_taken_back [of No_File "[example_start]"] by (simp add: good_disk_def)
qed

end
