(* ===== verification/Note_Pages.thy ===== *)
theory Note_Pages
  imports Note_Books
begin

text \<open>
  The pages of the pending events: a client that follows the cursors gets every event of every queue once,
  chat by chat and in the order of the queue, however the bytes and the messages divide into pages. And
  the bounds of the queues.
\<close>

section \<open>Pruning again\<close>

lemma bounded_id:
  assumes "\<forall>e \<in> set es. sub_time now (ne_at e) \<le> max_age \<and> keep e" and "length es \<le> limit"
  shows "bounded_events es now limit keep = es"
proof -
  have "foldl (bounded_step now limit keep) kept es = kept @ es"
    if "length kept + length es \<le> limit" "\<forall>e \<in> set es. sub_time now (ne_at e) \<le> max_age \<and> keep e" for kept
    using that
  proof (induction es arbitrary: kept)
    case (Cons e es)
    have "bounded_step now limit keep kept e = kept @ [e]"
      using Cons.prems by (auto simp: bounded_step_def not_less)
    then show ?case using Cons.IH [of "kept @ [e]"] Cons.prems by simp
  qed simp
  from this [of "[]"] assms show ?thesis by (simp add: bounded_events_def)
qed

lemma bounded_again:
  assumes "0 < limit"
  shows "bounded_events (bounded_events es now limit keep) now limit keep = bounded_events es now limit keep"
  by (rule bounded_id) (use bounded_keeps bounded_length [OF assms] in blast)+

lemma prune_closed_again: "prune_closed live (prune_closed live acked) = prune_closed live acked"
  by (induction acked) (auto simp: prune_closed_def)

lemma prune_pending_again:
  "prune_pending now recipients acked (prune_pending now recipients acked pending) = prune_pending now recipients acked pending"
proof (induction pending)
  case (Cons cq pending)
  then show ?case
    by (cases cq; cases "map_of recipients (fst cq)") (auto simp: Let_def bounded_again max_per_chat_def)
qed simp

lemma prune_again: "prune now (prune now s) = prune now s"
proof -
  define recent where "recent = bounded_events (nt_recent s) now max_recent (\<lambda>e. True)"
  define acked where "acked = prune_closed (map ne_id recent) (nt_closed s)"
  define pending where "pending = prune_pending now (nt_recipients s) acked (nt_pending s)"
  let ?s = "prune now s"
  have s: "nt_recent ?s = recent" "nt_closed ?s = acked" "nt_pending ?s = pending" "nt_recipients ?s = nt_recipients s"
    by (simp_all add: prune_def Let_def touched_def recent_def acked_def pending_def)
  have "bounded_events recent now max_recent (\<lambda>e. True) = recent"
    unfolding recent_def by (rule bounded_again) (simp add: max_recent_def)
  moreover have "prune_closed (map ne_id recent) acked = acked" unfolding acked_def by (rule prune_closed_again)
  moreover have "prune_pending now (nt_recipients s) acked pending = pending" unfolding pending_def by (rule prune_pending_again)
  ultimately show ?thesis
    using s by (simp add: prune_def [of now ?s] Let_def touched_def)
qed

section \<open>Cursors\<close>

lemma canonical_show_int:
  assumes "- (2 ^ 63) \<le> c" and "c < 2 ^ 63"
  shows "canonical_int (show_int c) = Some c"
proof (cases "c < 0")
  case True
  then show ?thesis using assms by (simp add: canonical_int_def show_int_def)
next
  case False
  then have shown: "show_int c = show_nat (nat c)" by (simp add: show_int_def)
  obtain d ds where d: "show_nat (nat c) = d # ds" using show_nat_nonempty [of "nat c"] by (cases "show_nat (nat c)") auto
  have "\<not> is_digit CHR ''-''" by code_simp
  from not_in_show_nat [OF this, of "nat c"] have "d \<noteq> CHR ''-''" using d by auto
  then show ?thesis
    using assms False parse_show_nat [of "nat c"] unfolding canonical_int_def shown d
    by (simp add: shown d)
qed

lemma no_colon:
  "CHR '':'' \<notin> set (show_int c)" "CHR '':'' \<notin> set (show_uint64 n)" "valid_epoch ep \<Longrightarrow> CHR '':'' \<notin> set ep"
proof -
  have digits: "CHR '':'' \<notin> set (show_nat k)" for k by (rule not_in_show_nat) code_simp
  then show "CHR '':'' \<notin> set (show_int c)" "CHR '':'' \<notin> set (show_uint64 n)"
    by (simp_all add: show_int_def show_uint64_def)
  have "\<not> epoch_char CHR '':''" by code_simp
  then show "valid_epoch ep \<Longrightarrow> CHR '':'' \<notin> set ep" unfolding valid_epoch_def list_all_iff by metis
qed

definition chat_ok :: "int \<Rightarrow> bool" where
  "chat_ok c \<longleftrightarrow> c \<noteq> 0 \<and> - (2 ^ 63) \<le> c \<and> c < 2 ^ 63"

lemma parse_page_cursor:
  assumes "valid_epoch (nt_epoch s)" and "chat_ok c" and "n \<noteq> 0" and "n \<le> nt_sequence s"
  shows "parse_cursor s (page_cursor (nt_epoch s) c n) = Some (c, n)"
proof -
  have "split_on CHR '':'' (page_cursor (nt_epoch s) c n) = [nt_epoch s, show_int c, show_uint64 n]"
    unfolding page_cursor_def
    by (simp add: split_on_append split_on_no_sep no_colon(1,2) no_colon(3) [OF assms(1)])
  then show ?thesis
    using assms(2-4) canonical_show_int [of c] by (simp add: parse_cursor_def chat_ok_def parse_show_uint64 not_less)
qed

lemma page_cursor_length:
  assumes "valid_epoch ep" and "chat_ok c"
  shows "length (page_cursor ep c n) \<le> max_cursor_length" "page_cursor ep c n \<noteq> []"
proof -
  have nat: "length (show_nat k) \<le> 20" if "k < 10 ^ 20" for k using length_show_nat [of k 20] that by simp
  have "unat n < 10 ^ 20" using unsigned_less [where 'a = nat, of n] by simp
  from nat [OF this] have "length (show_uint64 n) \<le> 20" by (simp add: show_uint64_def)
  moreover have "length (show_int c) \<le> 21"
  proof -
    have "nat c < 10 ^ 20" "nat (- c) < 10 ^ 20"
      using assms(2) by (cases "0 \<le> c"; simp add: chat_ok_def nat_less_iff)+
    then show ?thesis using nat [of "nat c"] nat [of "nat (- c)"] by (simp add: show_int_def)
  qed
  ultimately show "length (page_cursor ep c n) \<le> max_cursor_length"
    using assms(1) by (simp add: page_cursor_def valid_epoch_def max_cursor_length_def)
qed (simp add: page_cursor_def)

section \<open>Entries\<close>

type_synonym page_message = "int \<times> stored_event \<times> bool"

definition entry_message :: "page_message \<Rightarrow> notification" where
  "entry_message x = (case x of (c, e, f) \<Rightarrow> message_of c e)"

definition entry_less :: "page_message \<Rightarrow> page_message \<Rightarrow> bool" where
  "entry_less x y = (case x of (c, e, f) \<Rightarrow> case y of (c', e', f') \<Rightarrow> c < c' \<or> c = c' \<and> event_seq e < event_seq e')"

definition all_messages :: "(int \<times> stored_event list) list \<Rightarrow> notification list" where
  "all_messages pending = concat (map (\<lambda>(c, q). map (message_of c) q) (sort_key fst pending))"

lemma queue_entries_mem: "(c, e, f) \<in> set (queue_entries chat q later) \<Longrightarrow> c = chat \<and> e \<in> set q"
  by (induction chat q later rule: queue_entries.induct) auto

lemma queue_entries_messages: "map entry_message (queue_entries chat q later) = map (message_of chat) q"
  by (induction chat q later rule: queue_entries.induct) (auto simp: entry_message_def)

lemma page_entries_messages: "map entry_message (page_entries ps) = concat (map (\<lambda>(c, q). map (message_of c) q) ps)"
  by (induction ps rule: page_entries.induct) (auto simp: queue_entries_messages)

lemma page_entries_mem: "(c, e, f) \<in> set (page_entries ps) \<Longrightarrow> \<exists>q. (c, q) \<in> set ps \<and> e \<in> set q"
proof (induction ps rule: page_entries.induct)
  case (2 chat q rest)
  then show ?case using queue_entries_mem [of c e f chat q] by auto
qed simp

lemma queue_entries_sorted: "in_order q \<Longrightarrow> sorted_wrt entry_less (queue_entries chat q later)"
proof (induction chat q later rule: queue_entries.induct)
  case (2 chat e es later)
  then have "entry_less (chat, e, f) x" if "x \<in> set (queue_entries chat es later)" for x f
    using that queue_entries_mem [of _ _ _ chat es later] by (cases x) (fastforce simp: entry_less_def in_order_def)
  with 2 show ?case by (simp add: in_order_def)
qed simp

lemma page_entries_sorted:
  assumes "sorted_wrt (<) (map fst ps)" and "\<forall>cq \<in> set ps. in_order (snd cq)"
  shows "sorted_wrt entry_less (page_entries ps)"
  using assms
proof (induction ps rule: page_entries.induct)
  case (2 chat q rest)
  have "entry_less x y" if x: "x \<in> set (queue_entries chat q (rest \<noteq> []))" and y: "y \<in> set (page_entries rest)" for x y
  proof -
    obtain c e f where y': "y = (c, e, f)" by (metis surj_pair)
    then obtain q' where "(c, q') \<in> set rest" using page_entries_mem y by blast
    then have "chat < c" using 2(2) by force
    then show ?thesis using x y' queue_entries_mem by (cases x) (fastforce simp: entry_less_def)
  qed
  with 2 show ?case by (auto simp: sorted_wrt_append queue_entries_sorted)
qed simp

section \<open>One page\<close>

definition passed :: "(int \<times> u64) option \<Rightarrow> page_message \<Rightarrow> bool" where
  "passed after x =
     (case x of (c, e, f) \<Rightarrow> case after of None \<Rightarrow> False | Some (c0, n0) \<Rightarrow> c < c0 \<or> c = c0 \<and> event_seq e \<le> n0)"

text \<open>A message that fits into a page of its own, with the longest cursor it may need.\<close>

definition fits_alone :: "(int \<Rightarrow> string option) \<Rightarrow> string \<Rightarrow> int \<Rightarrow> stored_event \<Rightarrow> bool" where
  "fits_alone tm ep c e =
     (case message_size tm (message_of c e) of
        None \<Rightarrow> False
      | Some b \<Rightarrow> empty_page_size + 1 + b + length (page_cursor ep c (event_seq e)) < max_page_bytes)"

lemma page_loop_passed:
  "\<forall>x \<in> set xs. passed after x \<Longrightarrow> page_loop tm ep after ms used (xs @ ys) = page_loop tm ep after ms used ys"
  by (induction xs) (auto simp: passed_def event_seq_def Let_def split: option.splits)

definition cursor_after :: "string \<Rightarrow> notification list \<Rightarrow> string" where
  "cursor_after ep ms = page_cursor ep (nn_chat (last ms)) (event_sequence (nn_id (last ms)))"

lemma stop_page_next: "ms \<noteq> [] \<Longrightarrow> stop_page ep ms = \<lparr>pg_messages = ms, pg_next = cursor_after ep ms\<rparr>"
  by (cases ms) (simp_all add: stop_page_def cursor_after_def)

lemma page_loop_takes:
  assumes "\<forall>x \<in> set xs. \<not> passed after x" and "\<forall>(c, e, f) \<in> set xs. fits_alone tm ep c e"
    and "ms = [] \<Longrightarrow> used = empty_page_size + 1"
  shows "\<exists>taken rest. xs = taken @ rest
    \<and> page_loop tm ep after ms used xs =
        (\<lparr>pg_messages = ms @ map entry_message taken,
          pg_next = (if rest = [] then [] else cursor_after ep (ms @ map entry_message taken))\<rparr>, [])
    \<and> (rest \<noteq> [] \<longrightarrow> ms @ map entry_message taken \<noteq> [])"
  using assms
proof (induction xs arbitrary: ms used)
  case Nil
  then show ?case by simp
next
  case (Cons x xs)
  obtain c e f where x: "x = (c, e, f)" by (metis surj_pair)
  have go: "\<not> (case after of None \<Rightarrow> False | Some (c0, q) \<Rightarrow> c < c0 \<or> c = c0 \<and> event_sequence (ne_id e) \<le> q)"
    using Cons.prems(1) by (auto simp: x passed_def event_seq_def split: option.splits)
  obtain b where b: "message_size tm (message_of c e) = Some b"
      "empty_page_size + 1 + b + length (page_cursor ep c (event_seq e)) < max_page_bytes"
    using Cons.prems(2) by (auto simp: x fits_alone_def split: option.splits)
  let ?used = "used + (b + (if ms = [] then 0 else 1))"
  let ?cursor = "if f then page_cursor ep c (event_sequence (ne_id e)) else []"
  have stop: ?case if full: "page_loop tm ep after ms used (x # xs) = (stop_page ep ms, [])" "ms \<noteq> []"
    using full by (intro exI [of _ "[]"] exI [of _ "x # xs"]) (simp add: stop_page_next)
  show ?case
  proof (cases "length ms = page_size")
    case True
    then have "ms \<noteq> []" by (auto simp: page_size_def)
    moreover have "page_loop tm ep after ms used (x # xs) = (stop_page ep ms, [])"
      using go True by (simp add: x Let_def)
    ultimately show ?thesis by (rule stop [rotated])
  next
    case room: False
    show ?thesis
    proof (cases "max_page_bytes \<le> ?used + length ?cursor")
      case True
      then have ne: "ms \<noteq> []" using b(2) Cons.prems(3) by (auto simp: event_seq_def split: if_splits)
      moreover have "page_loop tm ep after ms used (x # xs) = (stop_page ep ms, [])"
        using go room True ne b(1) by (simp add: x Let_def)
      ultimately show ?thesis by (rule stop [rotated])
    next
      case False
      have step: "page_loop tm ep after ms used (x # xs) = page_loop tm ep after (ms @ [entry_message x]) ?used xs"
        using go room False b(1) by (simp add: x Let_def entry_message_def)
      obtain taken rest where "xs = taken @ rest"
        "page_loop tm ep after (ms @ [entry_message x]) ?used xs =
          (\<lparr>pg_messages = (ms @ [entry_message x]) @ map entry_message taken,
            pg_next = (if rest = [] then [] else cursor_after ep ((ms @ [entry_message x]) @ map entry_message taken))\<rparr>, [])"
        using Cons.IH [of "ms @ [entry_message x]" ?used] Cons.prems(1,2) by auto
      then show ?thesis unfolding step by (intro exI [of _ "x # taken"] exI [of _ rest]) simp
    qed
  qed
qed

section \<open>Following the cursors\<close>

fun turn_pages :: "(int \<Rightarrow> string option) \<Rightarrow> int \<Rightarrow> note_store \<Rightarrow> string \<Rightarrow> nat \<Rightarrow> notification list \<times> note_errors" where
  "turn_pages tm now s cursor 0 = ([], [N_Stuck])"
| "turn_pages tm now s cursor (Suc k) =
     (case pending_section tm cursor now s of
        ((pg, e), s') \<Rightarrow>
          if e \<noteq> [] \<or> pg_next pg = [] then (pg_messages pg, e)
          else (case turn_pages tm now s' (pg_next pg) k of (ms, e') \<Rightarrow> (pg_messages pg @ ms, e')))"

definition readable :: "(int \<Rightarrow> string option) \<Rightarrow> note_store \<Rightarrow> bool" where
  "readable tm s \<longleftrightarrow> (\<forall>(c, q) \<in> set (nt_pending s). chat_ok c \<and> (\<forall>e \<in> set q. fits_alone tm (nt_epoch s) c e))"

lemma pending_pruned:
  assumes "prune now s = s" and "cursor = [] \<or> length cursor \<le> max_cursor_length \<and> parse_cursor s cursor \<noteq> None"
  shows "pending_section tm cursor now s =
    (page_loop tm (nt_epoch s) (if cursor = [] then None else parse_cursor s cursor) [] (empty_page_size + 1)
       (page_entries (sort_key fst (nt_pending s))), s)"
  using assms by (auto simp: pending_section_def Let_def not_less)

lemma follow_pruned:
  assumes pruned: "prune now s = s" and books: "store_books s" and ep: "valid_epoch (nt_epoch s)" and fits: "readable tm s"
    and split: "page_entries (sort_key fst (nt_pending s)) = old @ xs"
    and cursor: "cursor = (if old = [] then [] else cursor_after (nt_epoch s) (map entry_message old))"
    and k: "length xs < k"
  shows "turn_pages tm now s cursor k = (map entry_message xs, [])"
  using split cursor k
proof (induction k arbitrary: old xs cursor)
  case (Suc k)
  let ?es = "page_entries (sort_key fst (nt_pending s))"
  have distinct: "distinct (map fst (nt_pending s))" using books by (simp add: store_books_def maps_ok_def)
  have books': "books_ok (nt_epoch s) (nt_sequence s) (nt_recent s) (nt_recipients s) (nt_pending s) (nt_closed s)"
    using books by (simp add: store_books_def)
  have "sorted_wrt (<) (map fst (sort_key fst (nt_pending s)))"
    using distinct by (simp add: strict_sorted_iff distinct_map)
  moreover have "\<forall>cq \<in> set (sort_key fst (nt_pending s)). in_order (snd cq)"
    using books' unfolding books_ok_def by auto
  ultimately have sorted: "sorted_wrt entry_less (old @ xs)" unfolding Suc.prems(1) [symmetric] by (rule page_entries_sorted)
  have entry: "chat_ok c \<and> fits_alone tm (nt_epoch s) c e \<and> event_seq e \<noteq> 0 \<and> event_seq e \<le> nt_sequence s" if m: "(c, e, f) \<in> set (old @ xs)" for c e f
  proof -
    obtain q where q: "(c, q) \<in> set (nt_pending s)" "e \<in> set q"
      using page_entries_mem [of c e f "sort_key fst (nt_pending s)"] m Suc.prems(1) by auto
    then have "e \<in> events_of (nt_recent s) (nt_pending s)" by (force simp: events_of_def)
    then have "issued_id (nt_epoch s) (nt_sequence s) (ne_id e)" using books' unfolding books_ok_def by blast
    then have "event_seq e \<noteq> 0 \<and> event_seq e \<le> nt_sequence s"
      by (auto simp: issued_id_def event_seq_def event_sequence_def dest: parse_event_id_pos)
    with q fits show ?thesis by (auto simp: readable_def)
  qed
  have after: "cursor = [] \<or> length cursor \<le> max_cursor_length \<and> parse_cursor s cursor \<noteq> None"
      "x \<in> set old \<Longrightarrow> passed (if cursor = [] then None else parse_cursor s cursor) x"
      "x \<in> set xs \<Longrightarrow> \<not> passed (if cursor = [] then None else parse_cursor s cursor) x" for x
  proof -
    have "(cursor = [] \<or> length cursor \<le> max_cursor_length \<and> parse_cursor s cursor \<noteq> None)
      \<and> (x \<in> set old \<longrightarrow> passed (if cursor = [] then None else parse_cursor s cursor) x)
      \<and> (x \<in> set xs \<longrightarrow> \<not> passed (if cursor = [] then None else parse_cursor s cursor) x)"
    proof (cases old rule: rev_cases)
      case Nil
      then show ?thesis using Suc.prems(2) by (auto simp: passed_def)
    next
      case (snoc front y)
      obtain c e f where y: "y = (c, e, f)" by (metis surj_pair)
      have cur: "cursor = page_cursor (nt_epoch s) c (event_seq e)"
        using Suc.prems(2) snoc by (simp add: cursor_after_def y entry_message_def message_of_def event_seq_def)
      have ok: "chat_ok c" "event_seq e \<noteq> 0" "event_seq e \<le> nt_sequence s" using entry [of c e f] snoc y by auto
      note len = page_cursor_length [OF ep ok(1), of "event_seq e"]
      note parse = parse_page_cursor [OF ep ok]
      have "passed (Some (c, event_seq e)) x" if "x \<in> set old"
      proof -
        have "x = y \<or> entry_less x y" using that sorted snoc by (auto simp: sorted_wrt_append)
        then show ?thesis by (cases x) (auto simp: y passed_def entry_less_def)
      qed
      moreover have "\<not> passed (Some (c, event_seq e)) x" if "x \<in> set xs"
      proof -
        have "entry_less y x" using that sorted snoc by (auto simp: sorted_wrt_append)
        then show ?thesis by (cases x) (auto simp: y passed_def entry_less_def)
      qed
      ultimately show ?thesis using len parse by (simp add: cur)
    qed
    then show "cursor = [] \<or> length cursor \<le> max_cursor_length \<and> parse_cursor s cursor \<noteq> None"
      "x \<in> set old \<Longrightarrow> passed (if cursor = [] then None else parse_cursor s cursor) x"
      "x \<in> set xs \<Longrightarrow> \<not> passed (if cursor = [] then None else parse_cursor s cursor) x"
      by blast+
  qed
  let ?after = "if cursor = [] then None else parse_cursor s cursor"
  have alone: "\<forall>(c, e, f) \<in> set xs. fits_alone tm (nt_epoch s) c e" using entry by auto
  obtain taken rest where page: "xs = taken @ rest"
    "page_loop tm (nt_epoch s) ?after [] (empty_page_size + 1) xs =
      (\<lparr>pg_messages = map entry_message taken, pg_next = (if rest = [] then [] else cursor_after (nt_epoch s) (map entry_message taken))\<rparr>, [])"
    "rest \<noteq> [] \<longrightarrow> taken \<noteq> []"
    using page_loop_takes [OF ballI [OF after(3)] alone, of "[]" "empty_page_size + 1", unfolded append_Nil] by blast
  have loop: "page_loop tm (nt_epoch s) ?after [] (empty_page_size + 1) ?es = page_loop tm (nt_epoch s) ?after [] (empty_page_size + 1) xs"
    unfolding Suc.prems(1) by (rule page_loop_passed) (use after(2) in blast)
  note answer = pending_pruned [OF pruned after(1), of tm, unfolded loop page(2)]
  show ?case
  proof (cases "rest = []")
    case True
    then show ?thesis using answer page(1) by simp
  next
    case False
    then have "taken \<noteq> []" using page(3) by simp
    have next_cursor: "cursor_after (nt_epoch s) (map entry_message taken) = cursor_after (nt_epoch s) (map entry_message (old @ taken))"
      using \<open>taken \<noteq> []\<close> by (simp add: cursor_after_def)
    have less: "length rest < k" using Suc.prems(3) page(1) \<open>taken \<noteq> []\<close> by (cases taken) simp_all
    have "turn_pages tm now s (cursor_after (nt_epoch s) (map entry_message taken)) k = (map entry_message rest, [])"
      using Suc.prems(1) page(1) less \<open>taken \<noteq> []\<close> next_cursor by (intro Suc.IH [of "old @ taken"]) simp_all
    moreover have "cursor_after (nt_epoch s) (map entry_message taken) \<noteq> []"
      by (simp add: cursor_after_def page_cursor_def)
    ultimately show ?thesis using answer page(1) False by simp
  qed
qed simp

text \<open>
  C7: a client that asks for the pending notifications and follows the cursors until a page has none gets
  every pending event once and in order, however many messages or bytes a page may hold: the answers, put
  together, are the queues of all chats one after the other, and no call of the sequence fails.
\<close>

theorem pages_list_all_pending:
  assumes "store_books s" and "valid_epoch (nt_epoch s)" and "readable tm (prune now s)"
    and "length (all_messages (nt_pending (prune now s))) < k"
  shows "turn_pages tm now s [] k = (all_messages (nt_pending (prune now s)), [])"
proof -
  let ?s = "prune now s"
  have ep: "nt_epoch ?s = nt_epoch s" by (simp add: prune_def Let_def touched_def)
  let ?es = "page_entries (sort_key fst (nt_pending ?s))"
  have all: "map entry_message ?es = all_messages (nt_pending ?s)" by (simp add: page_entries_messages all_messages_def)
  have "turn_pages tm now ?s [] k = (map entry_message ?es, [])"
  proof (rule follow_pruned [of now ?s, where old = "[]"])
    have "length ?es = length (all_messages (nt_pending ?s))" unfolding all [symmetric] by simp
    then show "length ?es < k" using assms(4) by simp
  qed (use assms(1-3) prune_books prune_again ep in \<open>simp_all\<close>)
  moreover have "pending_section tm [] now ?s = pending_section tm [] now s"
    by (simp add: pending_section_def Let_def prune_again)
  then have "turn_pages tm now ?s [] k = turn_pages tm now s [] k" by (cases k) simp_all
  ultimately show ?thesis unfolding all by simp
qed

definition example_event :: stored_event where
  "example_event = \<lparr>ne_id = make_event_id (replicate 32 (CHR ''a'')) 1, ne_at = 0, ne_text = ''up''\<rparr>"

definition example_store :: note_store where
  "example_store = (new_store ''data'')\<lparr>nt_epoch := replicate 32 (CHR ''a''), nt_sequence := 1, nt_recent := [example_event],
     nt_recipients := [(5, \<lparr>rc_chat = 5, rc_first = 0\<rparr>)], nt_pending := [(5, [example_event])]\<rparr>"

theorem pages_list_all_pending_witness:
  "turn_pages (\<lambda>t. Some ''now'') 0 example_store [] 2 = ([message_of 5 example_event], [])"
proof -
  let ?ep = "replicate 32 (CHR ''a'')" and ?tm = "\<lambda>t :: int. Some ''now''"
  have ep: "valid_epoch ?ep" by code_simp
  have key: "parse_event_id (ne_id example_event) = Some (?ep, 1)"
    unfolding example_event_def by (simp add: parse_make_event_id [OF ep])
  have pruned: "nt_pending (prune 0 example_store) = [(5, [example_event])]"
    by (simp add: prune_def Let_def touched_def example_store_def bounded_events_def bounded_step_def prune_closed_def is_closed_def
        new_store_def example_event_def sub_time_def max_age_def max_per_chat_def minute_def second_def min_duration_def max_duration_def)
  have books: "store_books example_store"
    using key by (simp add: store_books_def books_ok_def maps_ok_def events_of_def in_order_def issued_id_def is_closed_def
        example_store_def new_store_def)
  have sizes: "length (show_int 5) = 1" "length (quote_string (ne_id example_event)) = 36" "length (quote_string ''up'') = 4"
      "length (page_cursor ?ep 5 1) = 36"
    by code_simp+
  have "event_seq example_event = 1" using key by (simp add: event_seq_def event_sequence_def)
  then have "fits_alone ?tm ?ep 5 example_event"
    using sizes by (simp add: fits_alone_def message_size_def message_of_def empty_page_size_def max_page_bytes_def example_event_def)
  then have "readable ?tm (prune 0 example_store)"
    using pruned by (simp add: readable_def chat_ok_def prune_def Let_def touched_def example_store_def)
  moreover have "all_messages (nt_pending (prune 0 example_store)) = [message_of 5 example_event]"
    by (simp add: pruned all_messages_def)
  ultimately show ?thesis
    using pages_list_all_pending [OF books _ , of ?tm 0 2] ep by (simp add: example_store_def)
qed

section \<open>Bounds\<close>

definition small :: "note_store \<Rightarrow> bool" where
  "small s \<longleftrightarrow>
     length (nt_recent s) \<le> max_recent \<and> length (nt_backlog s) \<le> max_recent \<and> (\<forall>(c, q) \<in> set (nt_pending s). length q \<le> max_per_chat)"

lemma small_touched [simp]: "small (touched b s) = small s"
  by (simp add: touched_def small_def)

lemma small_prune: "length (nt_backlog s) \<le> max_recent \<Longrightarrow> small (prune now s)"
proof -
  have "length q \<le> max_per_chat" if "(c, q) \<in> set (prune_pending now recipients acked pending)" for c q recipients acked pending
    using prune_pending_mem [OF that] bounded_length [of max_per_chat] by (auto simp: max_per_chat_def)
  then show "length (nt_backlog s) \<le> max_recent \<Longrightarrow> small (prune now s)"
    using bounded_length [of max_recent "nt_recent s" now]
    unfolding prune_def Let_def small_touched by (auto simp: small_def max_recent_def)
qed

lemma small_append: "length (nt_backlog s) \<le> max_recent \<Longrightarrow> small (append_event msg now s)"
  unfolding append_event_def Let_def by (rule small_prune) simp

lemma small_backlog: "small s \<Longrightarrow> length (nt_backlog s) \<le> max_recent"
  by (simp add: small_def)

lemma small_publish: "small s \<Longrightarrow> small (snd (publish_section msg now s))"
  using small_append [OF small_backlog [OF small_prune [of s now]]] small_prune [of s now]
  by (simp add: publish_section_def Let_def small_backlog)

lemma update_mem: "(c, q) \<in> set (AList.update k v m) \<Longrightarrow> (c = k \<and> q = v) \<or> (c, q) \<in> set m"
  by (induction m) (auto split: if_splits)

lemma small_ack: "small s \<Longrightarrow> small (ack_section chat key now s)"
proof -
  assume "small s"
  then have s: "small (prune now s)" by (intro small_prune small_backlog)
  let ?q = "queue_of (nt_pending (prune now s)) chat"
  have "length (filter P ?q) \<le> max_per_chat" for P
  proof -
    have "length ?q \<le> max_per_chat" using s by (auto simp: queue_of_def small_def split: option.split dest!: map_of_SomeD)
    then show ?thesis using length_filter_le [of P ?q] by linarith
  qed
  moreover have "(c, q) \<in> set (store_queue chat q' pending) \<Longrightarrow> q = q' \<or> (c, q) \<in> set pending" for c q q' pending
    by (auto simp: store_queue_def AList.delete_eq split: if_splits dest: update_mem)
  ultimately have "small (prune now s\<lparr>nt_pending := store_queue chat (filter P ?q) (nt_pending (prune now s))\<rparr>)" for P
    using s by (fastforce simp: small_def)
  moreover have "small (t\<lparr>nt_closed := p\<rparr>) = small t" for t p by (simp add: small_def)
  ultimately show "small (ack_section chat key now s)"
    using s by (auto simp: ack_section_def Let_def split: option.split)
qed

lemma small_replace: "small s \<Longrightarrow> small (replace_section rs now s)"
proof -
  assume "small s"
  then have s: "small (prune now s)" by (intro small_prune small_backlog)
  have "length (merged_queue now s' c r) \<le> max_per_chat" for s' c r
    unfolding merged_queue_def by (rule bounded_length) (simp add: max_per_chat_def)
  then have "small (prune now s\<lparr>nt_recipients := rec, nt_pending := merged_pending now s' rec\<rparr>)" for rec s'
    using s by (auto simp: small_def merged_pending_def)
  then show "small (replace_section rs now s)" by (simp add: replace_section_def Let_def)
qed

lemma small_observe: "small s \<Longrightarrow> small (snd (observe_section obs now s))"
proof -
  have "small (foldl (\<lambda>s u. apply_update now u s) s us)" if "small s" for s us
    using that
  proof (induction us arbitrary: s)
    case (Cons u us)
    have "small (apply_update now u s)"
    proof -
      let ?s = "s\<lparr>nt_health := AList.update (hu_id u) (encode_health (hu_available u)) (nt_health s), nt_revision := nt_revision s + 1\<rparr>"
      have "small ?s" using Cons.prems by (simp add: small_def)
      then show ?thesis using small_append [OF small_backlog [of ?s]] by (simp add: apply_update_def Let_def)
    qed
    with Cons.IH show ?case by simp
  qed simp
  moreover have "small (forget_health ids s) = small s" for ids s by (simp add: forget_health_def Let_def small_def)
  ultimately show "small s \<Longrightarrow> small (snd (observe_section obs now s))"
    by (simp add: observe_section_def Let_def)
qed

lemma small_section: "small s \<Longrightarrow> small (run_section x s)"
proof (cases x)
  case (Other_Ack chat key now)
  then show "small s \<Longrightarrow> ?thesis" by (auto simp: ack_checked_def small_ack split: option.split)
next
  case (Other_Defer msg now)
  then show "small s \<Longrightarrow> ?thesis" by (auto simp: defer_event_def Let_def small_def max_recent_def)
next
  case (Other_Epoch r)
  then show "small s \<Longrightarrow> ?thesis" by (simp add: set_epoch_def small_def)
qed (simp_all add: small_publish small_replace small_observe small_prune small_backlog)


end
