(* ===== verification/Chat_Store.thy ===== *)
theory Chat_Store
  imports Go_Text Go_Json
begin

text \<open>
  The users of the bot (\<^verbatim>\<open>chatstore/store.go\<close>) and the list of those allowed
  (\<^verbatim>\<open>bot/auth.go\<close>): who talked to the bot from which chat since when, whether the chat is still
  open, and which versions the user was told of. Every operation runs under one mutex; whether the file
  could be written is an argument, and a save that fails leaves the change in memory.
\<close>

record user_record =
  ur_chat :: int
  ur_first :: int
  ur_last :: int
  ur_active :: bool
  ur_notified :: "string list"

type_synonym users = "(string \<times> user_record) list"

record user_chat =
  uc_name :: string
  uc_chat :: int
  uc_first :: int

text \<open>The users in memory, and those in the file.\<close>

record chat_store =
  cs_users :: users
  cs_file :: users

text \<open>
  \<open>decoded\<close> is the map \<^verbatim>\<open>json.Unmarshal\<close> leaves, \<^const>\<open>None\<close> for a missing file or a JSON null; a
  null record is removed.
\<close>

definition load_users :: "(string \<times> user_record option) list option \<Rightarrow> users" where
  "load_users decoded =
     (case decoded of
        None \<Rightarrow> []
      | Some m \<Rightarrow> map (\<lambda>(n, r). (n, the r)) (filter (\<lambda>(n, r). r \<noteq> None) m))"

definition save_users :: "bool \<Rightarrow> chat_store \<Rightarrow> bool \<times> chat_store" where
  "save_users ok s = (ok, if ok then s\<lparr>cs_file := cs_users s\<rparr> else s)"

definition put_user :: "string \<Rightarrow> user_record \<Rightarrow> chat_store \<Rightarrow> chat_store" where
  "put_user name r s = s\<lparr>cs_users := AList.update name r (cs_users s)\<rparr>"

definition record_interaction :: "string \<Rightarrow> int \<Rightarrow> int \<Rightarrow> bool \<Rightarrow> chat_store \<Rightarrow> bool \<times> chat_store" where
  "record_interaction username chat now ok s =
     (let name = to_lower username in
      save_users ok
        (case map_of (cs_users s) name of
           Some r \<Rightarrow>
             put_user name
               (r\<lparr>ur_first := (if ur_chat r \<noteq> chat then now else ur_first r), ur_chat := chat, ur_last := now, ur_active := True\<rparr>) s
         | None \<Rightarrow> put_user name \<lparr>ur_chat = chat, ur_first = now, ur_last = now, ur_active = True, ur_notified = []\<rparr> s))"

text \<open>The loop over the map comes in any order; this is the one of the list.\<close>

definition get_active_users :: "chat_store \<Rightarrow> user_chat list" where
  "get_active_users s =
     map (\<lambda>(n, r). \<lparr>uc_name = n, uc_chat = ur_chat r, uc_first = ur_first r\<rparr>) (filter (\<lambda>(n, r). ur_active r) (cs_users s))"

definition mark_notified :: "string \<Rightarrow> string \<Rightarrow> bool \<Rightarrow> chat_store \<Rightarrow> bool \<times> chat_store" where
  "mark_notified username ver ok s =
     (let name = to_lower username in
      case map_of (cs_users s) name of
        None \<Rightarrow> (True, s)
      | Some r \<Rightarrow>
          if ver \<in> set (ur_notified r) then (True, s)
          else
            let vs = ur_notified r @ [ver] in
            save_users ok (put_user name (r\<lparr>ur_notified := drop (length vs - 10) vs\<rparr>) s))"

definition is_notified :: "string \<Rightarrow> string \<Rightarrow> chat_store \<Rightarrow> bool" where
  "is_notified username ver s =
     (case map_of (cs_users s) (to_lower username) of None \<Rightarrow> False | Some r \<Rightarrow> ver \<in> set (ur_notified r))"

definition set_inactive_chat :: "int \<Rightarrow> bool \<Rightarrow> chat_store \<Rightarrow> bool \<times> chat_store" where
  "set_inactive_chat chat ok s =
     (if list_ex (\<lambda>(n, r). ur_chat r = chat) (cs_users s)
      then save_users ok
             (s\<lparr>cs_users := map (\<lambda>(n, r). (n, if ur_chat r = chat then r\<lparr>ur_active := False\<rparr> else r)) (cs_users s)\<rparr>)
      else (True, s))"

definition set_inactive :: "string \<Rightarrow> bool \<Rightarrow> chat_store \<Rightarrow> bool \<times> chat_store" where
  "set_inactive username ok s =
     (let name = to_lower username in
      case map_of (cs_users s) name of
        None \<Rightarrow> (True, s)
      | Some r \<Rightarrow> save_users ok (put_user name (r\<lparr>ur_active := False\<rparr>) s))"

section \<open>Who is allowed\<close>

definition new_auth :: "string list \<Rightarrow> string set" where
  "new_auth allowed = set (map to_lower allowed)"

definition is_authorized :: "string set \<Rightarrow> string \<Rightarrow> bool" where
  "is_authorized auth username \<longleftrightarrow> username \<noteq> [] \<and> to_lower username \<in> auth"

section \<open>Invariants\<close>

text \<open>One record to a name, and every name in lower case, as every lookup asks for it.\<close>

definition users_ok :: "users \<Rightarrow> bool" where
  "users_ok us \<longleftrightarrow> go_map us \<and> (\<forall>n \<in> set (keys us). to_lower n = n)"

lemma users_ok_put:
  assumes "users_ok (cs_users s)"
  shows "users_ok (cs_users (put_user (to_lower n) r s))"
proof -
  have "set (keys (AList.update (to_lower n) r (cs_users s))) = insert (to_lower n) (set (keys (cs_users s)))"
    using dom_update [of "to_lower n" r "cs_users s"] by simp
  then show ?thesis
    using assms distinct_update [of "cs_users s" "to_lower n" r] unfolding users_ok_def put_user_def by (simp del: list.set_map)
qed

lemma save_users_users [simp]: "cs_users (snd (save_users ok s)) = cs_users s"
  by (simp add: save_users_def)

lemma keys_mapped: "keys (map (\<lambda>(n, r). (n, f r)) m) = keys m"
  by (induction m) auto

lemma users_ok_operations:
  assumes "users_ok (cs_users s)"
  shows "users_ok (cs_users (snd (record_interaction n chat now ok s)))" "users_ok (cs_users (snd (mark_notified n ver ok s)))"
    "users_ok (cs_users (snd (set_inactive n ok s)))" "users_ok (cs_users (snd (set_inactive_chat chat ok s)))"
proof -
  have "cs_users (snd (set_inactive_chat chat ok s)) =
      (if list_ex (\<lambda>(n, r). ur_chat r = chat) (cs_users s)
       then map (\<lambda>(n, r). (n, if ur_chat r = chat then r\<lparr>ur_active := False\<rparr> else r)) (cs_users s) else cs_users s)"
    by (simp add: set_inactive_chat_def)
  moreover have "users_ok (map (\<lambda>(n, r). (n, f r)) us) = users_ok us" for f us
    unfolding users_ok_def keys_mapped by (rule refl)
  ultimately show "users_ok (cs_users (snd (set_inactive_chat chat ok s)))" using assms by simp
qed (use assms users_ok_put in \<open>simp_all add: record_interaction_def mark_notified_def set_inactive_def Let_def split: option.split\<close>)

end
