(* ===== verification/Delivery.thy ===== *)
theory Delivery
  imports Note_Events Chat_Store Triples
begin

text \<open>
  The delivery of the notifications by the bot (\<^verbatim>\<open>bot/notifications.go\<close>,
  \<^verbatim>\<open>notification_text.go\<close>): who receives them, the polls that read the pages and make a job of
  each chat, and the delivery of a job: acknowledge what was closed before, send the rest block by block,
  remember what is closed and acknowledge it.

  Jobs of different chats run side by side and touch nothing of each other; here they run one after the
  other. Between any two steps of a job others may change the users and prune the receipts (\<open>mail_gap\<close>).
  What Telegram, the daemon and the clock answer is \<open>mail_env\<close>, asked call by call.
\<close>

section \<open>Text\<close>

definition max_message_length :: nat where "max_message_length = 4000"

text \<open>The runes of a block: as many as fit, cut after the last line break in its second half if there is more.\<close>

definition last_newline :: "rune list \<Rightarrow> nat" where
  "last_newline rs = (case rev (filter (\<lambda>i. fst (rs ! i) = 10) [0..<length rs]) of [] \<Rightarrow> 0 | i # _ \<Rightarrow> i)"

definition block_runes :: "rune list \<Rightarrow> nat" where
  "block_runes rs =
     (if length rs \<le> max_message_length then length rs
      else let n = last_newline (take max_message_length rs) in
        if max_message_length div 2 < n then n + 1 else max_message_length)"

definition notification_block :: "string \<Rightarrow> string \<times> string" where
  "notification_block text =
     (let rs = runes text; n = block_runes rs in (unrunes (take n rs), unrunes (drop n rs)))"

text \<open>\<open>late\<close> is what \<^verbatim>\<open>time.Format\<close> writes of the event's time, and the two texts around it.\<close>

definition late_after :: int where "late_after = minute"

definition notification_text :: "(int \<Rightarrow> int \<Rightarrow> string) \<Rightarrow> notification \<Rightarrow> int \<Rightarrow> string" where
  "notification_text late n now =
     (if sub_time now (nn_at n) < late_after then nn_text n
      else CHR ''('' # late (nn_at n) now @ '', delayed) '' @ nn_text n)"

section \<open>Recipients\<close>

definition mail_max_per_chat :: nat where "mail_max_per_chat = 20"
definition mail_max_age :: int where "mail_max_age = 12 * 60 * minute"

fun earliest :: "string set \<Rightarrow> int \<Rightarrow> user_chat list \<Rightarrow> (int \<times> int) list \<Rightarrow> (int \<times> int) list" where
  "earliest auth now [] acc = acc"
| "earliest auth now (u # us) acc =
     (if \<not> is_authorized auth (uc_name u) \<or> uc_chat u = 0 \<or> uc_first u = 0 \<or> now < uc_first u then earliest auth now us acc
      else case map_of acc (uc_chat u) of
        Some moment \<Rightarrow>
          earliest auth now us (if uc_first u < moment then AList.update (uc_chat u) (uc_first u) acc else acc)
      | None \<Rightarrow> earliest auth now us (AList.update (uc_chat u) (uc_first u) acc))"

definition active_recipients :: "chat_store \<Rightarrow> string set \<Rightarrow> int \<Rightarrow> recipient list" where
  "active_recipients store auth now =
     map (\<lambda>(c, f). \<lparr>rc_chat = c, rc_first = f\<rparr>) (sort_key fst (earliest auth now (get_active_users store) []))"

text \<open>Receipts: of each chat the events that are closed and not yet acknowledged.\<close>

type_synonym receipts = "(int \<times> (string \<times> int) list) list"

definition first_of :: "recipient list \<Rightarrow> int \<Rightarrow> int option" where
  "first_of recipients chat = map_option rc_first (find (\<lambda>r. rc_chat r = chat) (rev recipients))"

definition prune_receipts :: "recipient list \<Rightarrow> int \<Rightarrow> receipts \<Rightarrow> receipts" where
  "prune_receipts recipients now sent =
     filter (\<lambda>cr. snd cr \<noteq> [])
       (map (\<lambda>(c, rs). (c, filter (\<lambda>(e, moment). case first_of recipients c of
                None \<Rightarrow> False | Some f \<Rightarrow> f \<le> moment \<and> sub_time now moment \<le> mail_max_age) rs)) sent)"

definition receipts_of :: "receipts \<Rightarrow> int \<Rightarrow> (string \<times> int) list" where
  "receipts_of sent chat = (case map_of sent chat of None \<Rightarrow> [] | Some rs \<Rightarrow> rs)"

definition remember :: "notification \<Rightarrow> receipts \<Rightarrow> receipts" where
  "remember n sent =
     (let rs = receipts_of sent (nn_chat n) in
      if nn_id n \<in> fst ` set rs then sent
      else let rs' = rs @ [(nn_id n, nn_at n)] in
        AList.update (nn_chat n) (drop (length rs' - mail_max_per_chat) rs') sent)"

fun drop_first :: "string \<Rightarrow> (string \<times> int) list \<Rightarrow> (string \<times> int) list" where
  "drop_first e [] = []"
| "drop_first e (r # rs) = (if fst r = e then rs else r # drop_first e rs)"

definition forget :: "int \<Rightarrow> string \<Rightarrow> receipts \<Rightarrow> receipts" where
  "forget chat e sent =
     (let rs = drop_first e (receipts_of sent chat) in
      if rs = [] then AList.delete chat sent else AList.update chat rs sent)"

definition synced_unchanged :: "recipient list option \<Rightarrow> recipient list \<Rightarrow> bool" where
  "synced_unchanged synced recipients \<longleftrightarrow> synced = Some recipients"

section \<open>The world of the bot\<close>

datatype send_answer = Send_Ok | Api_Error int | Transport_Error

datatype mail_error =
    Mail_Ended | Mail_Revoked | Mail_No_Path | Mail_Refused send_answer | Mail_Ack | Mail_Sync | Mail_Store | Mail_Page | Mail_Cursor

text \<open>\<open>Delivered\<close>: every block of the event was taken. \<open>Declined\<close>: Telegram refused it for good.\<close>

datatype mail_deed = Delivered int string | Declined int string | Acked int string

record mail_job =
  mj_chat :: int
  mj_receipts :: "(string \<times> int) list"
  mj_messages :: "notification list"

record mail_env =
  me_now :: "nat \<Rightarrow> int"
  me_auth :: "string set"
  me_ended :: "nat \<Rightarrow> bool"
  me_api :: "nat \<Rightarrow> bool"
  me_others :: "nat \<Rightarrow> chat_store \<Rightarrow> chat_store"
  me_prunes :: "nat \<Rightarrow> (recipient list \<times> int) list"
  me_page :: "nat \<Rightarrow> page option"
  me_accept :: "nat \<Rightarrow> bool"
  me_ack :: "nat \<Rightarrow> bool"
  me_path :: "nat \<Rightarrow> bool"
  me_send :: "nat \<Rightarrow> send_answer"
  me_save :: "nat \<Rightarrow> bool"
  me_slot :: "nat \<Rightarrow> bool"
  me_late :: "int \<Rightarrow> int \<Rightarrow> string"

record mail_world =
  mw_env :: mail_env
  mw_calls :: nat
  mw_store :: chat_store
  mw_sent :: receipts
  mw_flight :: "int list"
  mw_synced :: "recipient list option"
  mw_queue :: "mail_job list"
  mw_log :: "mail_deed list"

type_synonym 'a mail_act = "(mail_world, 'a) state"

definition ask_bot :: "(mail_env \<Rightarrow> nat \<Rightarrow> 'a) \<Rightarrow> 'a mail_act" where
  "ask_bot f = State (\<lambda>w. (f (mw_env w) (mw_calls w), w\<lparr>mw_calls := mw_calls w + 1\<rparr>))"

definition read_mail :: "(mail_world \<Rightarrow> 'a) \<Rightarrow> 'a mail_act" where
  "read_mail f = State (\<lambda>w. (f w, w))"

definition change_sent :: "(receipts \<Rightarrow> receipts) \<Rightarrow> unit mail_act" where
  "change_sent f = State (\<lambda>w. ((), w\<lparr>mw_sent := f (mw_sent w)\<rparr>))"

definition change_synced :: "recipient list option \<Rightarrow> unit mail_act" where
  "change_synced r = State (\<lambda>w. ((), w\<lparr>mw_synced := r\<rparr>))"

definition add_deed :: "mail_deed \<Rightarrow> unit mail_act" where
  "add_deed d = State (\<lambda>w. ((), w\<lparr>mw_log := d # mw_log w\<rparr>))"

definition change_users :: "(chat_store \<Rightarrow> 'a \<times> chat_store) \<Rightarrow> 'a mail_act" where
  "change_users f = State (\<lambda>w. (fst (f (mw_store w)), w\<lparr>mw_store := snd (f (mw_store w))\<rparr>))"

definition mail_gap :: "unit mail_act" where
  "mail_gap = do {
     f \<leftarrow> ask_bot me_others;
     change_users (\<lambda>s. ((), f s));
     ps \<leftarrow> ask_bot me_prunes;
     change_sent (\<lambda>sent. foldl (\<lambda>sent (rs, now). prune_receipts rs now sent) sent ps) }"

definition notification_recipients :: "recipient list mail_act" where
  "notification_recipients = do {
     mail_gap;
     now \<leftarrow> ask_bot me_now;
     auth \<leftarrow> ask_bot (\<lambda>env n. me_auth env);
     store \<leftarrow> read_mail mw_store;
     State_Monad.return (active_recipients store auth now) }"

definition notification_allowed :: "int \<Rightarrow> int \<Rightarrow> bool mail_act" where
  "notification_allowed chat moment = do {
     now \<leftarrow> ask_bot me_now;
     if mail_max_age < sub_time now moment then State_Monad.return False
     else do {
       rs \<leftarrow> notification_recipients;
       State_Monad.return (list_ex (\<lambda>r. rc_chat r = chat \<and> rc_first r \<le> moment) rs) } }"

section \<open>Synchronizing\<close>

definition sync_recipients :: "mail_error list mail_act" where
  "sync_recipients = do {
     ended \<leftarrow> ask_bot me_ended;
     if ended then State_Monad.return [Mail_Ended]
     else do {
       recipients \<leftarrow> notification_recipients;
       now \<leftarrow> ask_bot me_now;
       change_sent (prune_receipts recipients now);
       api \<leftarrow> ask_bot me_api;
       if \<not> api then do { change_synced None; State_Monad.return [] }
       else do {
         ok \<leftarrow> ask_bot me_accept;
         change_synced (if ok then Some recipients else None);
         State_Monad.return (if ok then [] else [Mail_Sync]) } } }"

definition sync_recipients_if_changed :: "mail_error list mail_act" where
  "sync_recipients_if_changed = do {
     recipients \<leftarrow> notification_recipients;
     synced \<leftarrow> read_mail mw_synced;
     if synced_unchanged synced recipients then State_Monad.return [] else sync_recipients }"

section \<open>Sending\<close>

definition retryable :: "mail_error \<Rightarrow> bool" where
  "retryable e = (case e of Mail_Refused (Api_Error code) \<Rightarrow> code = 429 \<or> 500 \<le> code | _ \<Rightarrow> True)"

lemma block_runes_pos: "rs \<noteq> [] \<Longrightarrow> 0 < block_runes rs"
  by (auto simp: block_runes_def max_message_length_def Let_def)

lemma block_shorter: "\<not> length rs \<le> block_runes rs \<Longrightarrow> length rs - block_runes rs < length rs"
  using block_runes_pos [of rs] by (cases rs) simp_all

text \<open>The loop of \<^verbatim>\<open>sendNotification\<close>, on the runes still to send: it always sends at least one block.\<close>

function send_loop :: "notification \<Rightarrow> rune list \<Rightarrow> mail_error option mail_act" where
  "send_loop n rs = do {
     ended \<leftarrow> ask_bot me_ended;
     if ended then State_Monad.return (Some Mail_Ended)
     else do {
       ok \<leftarrow> notification_allowed (nn_chat n) (nn_at n);
       if \<not> ok then State_Monad.return (Some Mail_Revoked)
       else do {
         live \<leftarrow> ask_bot me_path;
         if \<not> live then State_Monad.return (Some Mail_No_Path)
         else do {
           r \<leftarrow> ask_bot me_send;
           if r \<noteq> Send_Ok then State_Monad.return (Some (Mail_Refused r))
           else if drop (block_runes rs) rs = [] then State_Monad.return None
           else send_loop n (drop (block_runes rs) rs) } } } }"
  by pat_completeness auto
termination
  by (relation "measure (length \<circ> snd)") (auto simp: block_shorter)

declare send_loop.simps [simp del]

definition send_notification :: "notification \<Rightarrow> mail_error option mail_act" where
  "send_notification n = do {
     now \<leftarrow> ask_bot me_now;
     late \<leftarrow> ask_bot (\<lambda>env i. me_late env);
     e \<leftarrow> send_loop n (runes (notification_text late n now));
     (case e of
        None \<Rightarrow> add_deed (Delivered (nn_chat n) (nn_id n))
      | Some x \<Rightarrow> if \<not> retryable x then add_deed (Declined (nn_chat n) (nn_id n)) else State_Monad.return ());
     State_Monad.return e }"

definition ack_notification :: "int \<Rightarrow> string \<Rightarrow> mail_error list mail_act" where
  "ack_notification chat e = do {
     ok \<leftarrow> ask_bot me_ack;
     if \<not> ok then State_Monad.return [Mail_Ack]
     else do { add_deed (Acked chat e); mail_gap; change_sent (forget chat e); State_Monad.return [] } }"

definition first_error :: "mail_error list \<Rightarrow> mail_error list \<Rightarrow> mail_error list" where
  "first_error result e = (if result = [] then e else result)"

fun ack_receipts :: "int \<Rightarrow> (string \<times> int) list \<Rightarrow> string list \<Rightarrow> mail_error list \<Rightarrow> (string list \<times> mail_error list) mail_act" where
  "ack_receipts chat [] acked result = State_Monad.return (acked, result)"
| "ack_receipts chat ((e, moment) # rs) acked result = do {
     ok \<leftarrow> notification_allowed chat moment;
     if \<not> ok then do { mail_gap; change_sent (forget chat e); ack_receipts chat rs acked result }
     else do {
       x \<leftarrow> ack_notification chat e;
       ack_receipts chat rs (e # acked) (first_error result x) } }"

definition set_inactive_of :: "int \<Rightarrow> mail_error list mail_act" where
  "set_inactive_of chat = do {
     save \<leftarrow> ask_bot me_save;
     ok \<leftarrow> change_users (set_inactive_chat chat save);
     State_Monad.return (if ok then [] else [Mail_Store]) }"

fun deliver_messages :: "notification list \<Rightarrow> string list \<Rightarrow> mail_error list \<Rightarrow> mail_error list mail_act" where
  "deliver_messages [] acked result = State_Monad.return result"
| "deliver_messages (n # ns) acked result = do {
     ended \<leftarrow> ask_bot me_ended;
     if ended then State_Monad.return [Mail_Ended]
     else if nn_id n \<in> set acked then deliver_messages ns acked result
     else do {
       ok \<leftarrow> notification_allowed (nn_chat n) (nn_at n);
       if \<not> ok then deliver_messages ns acked result
       else do {
         e \<leftarrow> send_notification n;
         if e = Some Mail_Revoked then do { x \<leftarrow> sync_recipients; State_Monad.return (result @ x) }
         else if e \<noteq> None \<and> retryable (the e) then State_Monad.return (result @ [the e])
         else if e = Some (Mail_Refused (Api_Error 403)) then do {
           x \<leftarrow> set_inactive_of (nn_chat n);
           y \<leftarrow> sync_recipients;
           z \<leftarrow> ack_notification (nn_chat n) (nn_id n);
           State_Monad.return (result @ x @ y @ z) }
         else do {
           still \<leftarrow> notification_allowed (nn_chat n) (nn_at n);
           mail_gap;
           change_sent (if still then remember n else (\<lambda>s. s));
           x \<leftarrow> ack_notification (nn_chat n) (nn_id n);
           deliver_messages ns acked (first_error result x) } } } }"

definition finish_job :: "int \<Rightarrow> unit mail_act" where
  "finish_job chat = State (\<lambda>w. ((), w\<lparr>mw_flight := removeAll chat (mw_flight w)\<rparr>))"

definition deliver_notification_chat :: "mail_job \<Rightarrow> mail_error list mail_act" where
  "deliver_notification_chat job = do {
     slot \<leftarrow> ask_bot me_slot;
     result \<leftarrow> (if \<not> slot then State_Monad.return [Mail_Ended]
       else do {
         (acked, e) \<leftarrow> ack_receipts (mj_chat job) (mj_receipts job) [] [];
         deliver_messages (mj_messages job) acked e });
     finish_job (mj_chat job);
     State_Monad.return result }"

section \<open>Polling\<close>

text \<open>The jobs so far, and the events seen, as the loops over the pages collect them.\<close>

record reading =
  rd_jobs :: "(int \<times> mail_job) list"
  rd_seen :: "(int \<times> string) list"

definition take_message :: "int list \<Rightarrow> recipient list \<Rightarrow> int \<Rightarrow> notification \<Rightarrow> reading \<Rightarrow> reading" where
  "take_message busy recipients now n rd =
     (case first_of recipients (nn_chat n) of
        None \<Rightarrow> rd
      | Some f \<Rightarrow>
          if nn_chat n \<in> set busy \<or> nn_at n < f \<or> mail_max_age < sub_time now (nn_at n)
             \<or> (nn_chat n, nn_id n) \<in> set (rd_seen rd) then rd
          else
            let job = (case map_of (rd_jobs rd) (nn_chat n) of
                         None \<Rightarrow> \<lparr>mj_chat = nn_chat n, mj_receipts = [], mj_messages = []\<rparr> | Some j \<Rightarrow> j) in
            if length (mj_messages job) < mail_max_per_chat
            then rd\<lparr>rd_jobs := AList.update (nn_chat n) (job\<lparr>mj_messages := mj_messages job @ [n]\<rparr>) (rd_jobs rd),
                    rd_seen := (nn_chat n, nn_id n) # rd_seen rd\<rparr>
            else rd\<lparr>rd_jobs := AList.update (nn_chat n) job (rd_jobs rd)\<rparr>)"

fun take_messages :: "int list \<Rightarrow> recipient list \<Rightarrow> notification list \<Rightarrow> reading \<Rightarrow> reading mail_act" where
  "take_messages busy recipients [] rd = State_Monad.return rd"
| "take_messages busy recipients (n # ns) rd = do {
     now \<leftarrow> ask_bot me_now;
     take_messages busy recipients ns (take_message busy recipients now n rd) }"

text \<open>The loop over the pages, with the pages still allowed.\<close>

fun read_pages ::
  "int list \<Rightarrow> recipient list \<Rightarrow> string \<Rightarrow> string list \<Rightarrow> nat \<Rightarrow> reading \<Rightarrow> (reading \<times> mail_error list) mail_act"
where
  "read_pages busy recipients cursor seen 0 rd = State_Monad.return (rd, [])"
| "read_pages busy recipients cursor seen (Suc k) rd = do {
     p \<leftarrow> ask_bot me_page;
     (case p of
        None \<Rightarrow> State_Monad.return (rd, [Mail_Page])
      | Some pg \<Rightarrow> do {
          rd' \<leftarrow> take_messages busy recipients (pg_messages pg) rd;
          if pg_next pg = [] then State_Monad.return (rd', [])
          else if pg_next pg = cursor \<or> pg_next pg \<in> set seen then State_Monad.return (rd', [Mail_Cursor])
          else read_pages busy recipients (pg_next pg) (pg_next pg # seen) k rd' }) }"

definition receipt_jobs :: "int list \<Rightarrow> receipts \<Rightarrow> (int \<times> mail_job) list" where
  "receipt_jobs busy sent =
     map (\<lambda>(c, rs). (c, \<lparr>mj_chat = c, mj_receipts = rs, mj_messages = []\<rparr>)) (filter (\<lambda>(c, rs). c \<notin> set busy) sent)"

definition queue_jobs :: "(int \<times> mail_job) list \<Rightarrow> unit mail_act" where
  "queue_jobs jobs =
     State (\<lambda>w. ((), w\<lparr>mw_flight := map fst jobs @ mw_flight w, mw_queue := mw_queue w @ map snd (sort_key fst jobs)\<rparr>))"

definition read_notification_jobs :: "mail_error list mail_act" where
  "read_notification_jobs = do {
     e \<leftarrow> sync_recipients;
     api \<leftarrow> ask_bot me_api;
     ended \<leftarrow> ask_bot me_ended;
     if \<not> api \<or> ended then State_Monad.return (e @ (if ended then [Mail_Ended] else []))
     else do {
       recipients \<leftarrow> notification_recipients;
       mail_gap;
       busy \<leftarrow> read_mail mw_flight;
       sent \<leftarrow> read_mail mw_sent;
       (rd, x) \<leftarrow> read_pages busy recipients [] [] (length recipients * mail_max_per_chat + 1)
         \<lparr>rd_jobs = receipt_jobs busy sent, rd_seen = []\<rparr>;
       mail_gap;
       queue_jobs (rd_jobs rd);
       State_Monad.return (e @ x) } }"

section \<open>Runs\<close>

text \<open>What the loop of \<^verbatim>\<open>receiveNotifications\<close> does: it polls, hands out a job, or an update asks to synchronize.\<close>

datatype mail_step = Poll | Hand_Out nat | Update

definition take_job :: "nat \<Rightarrow> mail_job option mail_act" where
  "take_job i =
     State (\<lambda>w. if i < length (mw_queue w)
       then (Some (mw_queue w ! i), w\<lparr>mw_queue := take i (mw_queue w) @ drop (i + 1) (mw_queue w)\<rparr>) else (None, w))"

fun mail_do :: "mail_step \<Rightarrow> mail_error list mail_act" where
  "mail_do Poll = read_notification_jobs"
| "mail_do (Hand_Out i) = do {
     j \<leftarrow> take_job i;
     (case j of None \<Rightarrow> State_Monad.return [] | Some job \<Rightarrow> deliver_notification_chat job) }"
| "mail_do Update = sync_recipients_if_changed"

fun mail_run :: "mail_step list \<Rightarrow> unit mail_act" where
  "mail_run [] = State_Monad.return ()"
| "mail_run (x # xs) = do { _ \<leftarrow> mail_do x; mail_run xs }"

text \<open>\<open>notificationPollStreak\<close>: one message when the polls begin to fail, one when they work again.\<close>

definition observe_poll :: "bool \<Rightarrow> bool \<Rightarrow> bool option \<times> bool" where
  "observe_poll failing failed = (if failed = failing then (None, failing) else (Some failed, failed))"

section \<open>Nothing is acknowledged before it is closed\<close>

definition closed_in :: "mail_deed list \<Rightarrow> int \<times> string \<Rightarrow> bool" where
  "closed_in ds k \<longleftrightarrow> (case k of (c, e) \<Rightarrow> Delivered c e \<in> set ds \<or> Declined c e \<in> set ds)"

fun acks_after_closing :: "mail_deed list \<Rightarrow> bool" where
  "acks_after_closing [] \<longleftrightarrow> True"
| "acks_after_closing (d # ds) \<longleftrightarrow>
     acks_after_closing ds \<and> (case d of Acked c e \<Rightarrow> closed_in ds (c, e) | _ \<Rightarrow> True)"

definition receipts_closed :: "mail_deed list \<Rightarrow> int \<Rightarrow> (string \<times> int) list \<Rightarrow> bool" where
  "receipts_closed ds c rs \<longleftrightarrow> (\<forall>(e, t) \<in> set rs. closed_in ds (c, e))"

text \<open>What every step keeps, and of \<open>S\<close> that it is closed.\<close>

definition mail_ok :: "(int \<times> string) set \<Rightarrow> mail_world \<Rightarrow> bool" where
  "mail_ok S w \<longleftrightarrow>
     acks_after_closing (mw_log w) \<and> (\<forall>(c, rs) \<in> set (mw_sent w). receipts_closed (mw_log w) c rs)
     \<and> (\<forall>j \<in> set (mw_queue w). receipts_closed (mw_log w) (mj_chat j) (mj_receipts j)) \<and> (\<forall>k \<in> S. closed_in (mw_log w) k)"

lemma closed_in_Cons: "closed_in ds k \<Longrightarrow> closed_in (d # ds) k"
  by (auto simp: closed_in_def split: prod.splits)

lemma receipts_closed_Cons: "receipts_closed ds c rs \<Longrightarrow> receipts_closed (d # ds) c rs"
  by (auto simp: receipts_closed_def intro: closed_in_Cons)

lemma mail_ok_mono: "mail_ok S w \<Longrightarrow> S' \<subseteq> S \<Longrightarrow> mail_ok S' w"
  by (auto simp: mail_ok_def)

subsection \<open>The maps of receipts\<close>

definition all_closed :: "mail_deed list \<Rightarrow> receipts \<Rightarrow> bool" where
  "all_closed ds sent \<longleftrightarrow> (\<forall>(c, rs) \<in> set sent. receipts_closed ds c rs)"

lemma receipts_of_closed: "all_closed ds sent \<Longrightarrow> receipts_closed ds c (receipts_of sent c)"
  by (cases "map_of sent c") (auto simp: receipts_of_def receipts_closed_def all_closed_def dest!: map_of_SomeD)

lemma update_closed: "all_closed ds sent \<Longrightarrow> receipts_closed ds c rs \<Longrightarrow> all_closed ds (AList.update c rs sent)"
  by (induction sent) (auto simp: all_closed_def)

lemma prune_receipts_closed: "all_closed ds sent \<Longrightarrow> all_closed ds (prune_receipts recipients now sent)"
  by (fastforce simp: all_closed_def prune_receipts_def receipts_closed_def)

lemma drop_first_sub: "set (drop_first e rs) \<subseteq> set rs"
  by (induction rs) auto

lemma forget_closed: "all_closed ds sent \<Longrightarrow> all_closed ds (forget chat e sent)"
proof -
  assume ok: "all_closed ds sent"
  have "receipts_closed ds chat (drop_first e (receipts_of sent chat))"
    using receipts_of_closed [OF ok, of chat] drop_first_sub [of e] unfolding receipts_closed_def by blast
  moreover have "all_closed ds (AList.delete chat sent)" using ok by (auto simp: all_closed_def AList.delete_eq)
  ultimately show ?thesis using update_closed [OF ok] by (simp add: forget_def Let_def)
qed

lemma remember_closed: "all_closed ds sent \<Longrightarrow> closed_in ds (nn_chat n, nn_id n) \<Longrightarrow> all_closed ds (remember n sent)"
proof -
  assume ok: "all_closed ds sent" and n: "closed_in ds (nn_chat n, nn_id n)"
  let ?rs = "receipts_of sent (nn_chat n) @ [(nn_id n, nn_at n)]"
  have "receipts_closed ds (nn_chat n) ?rs"
    using receipts_of_closed [OF ok, of "nn_chat n"] n by (auto simp: receipts_closed_def)
  then have kept: "receipts_closed ds (nn_chat n) (drop k ?rs)" for k
    unfolding receipts_closed_def by (meson in_set_dropD)
  show ?thesis
    unfolding remember_def Let_def
    by (cases "nn_id n \<in> fst ` set (receipts_of sent (nn_chat n))") (simp_all only: if_True if_False ok update_closed [OF ok kept] simp_thms)
qed

subsection \<open>The steps\<close>

lemma mail_ok_alt:
  "mail_ok S w \<longleftrightarrow> acks_after_closing (mw_log w) \<and> all_closed (mw_log w) (mw_sent w)
     \<and> (\<forall>j \<in> set (mw_queue w). receipts_closed (mw_log w) (mj_chat j) (mj_receipts j)) \<and> (\<forall>k \<in> S. closed_in (mw_log w) k)"
  by (simp add: mail_ok_def all_closed_def)

named_theorems mail_intros

lemma mail_looks [mail_intros]:
  "keeping (mail_ok S) (ask_bot f)" "keeping (mail_ok S) (read_mail g)" "keeping (mail_ok S) (change_users h)"
  "keeping (mail_ok S) (change_synced r)" "keeping (mail_ok S) (finish_job c)"
  by (simp_all add: valid_def ask_bot_def read_mail_def change_users_def change_synced_def finish_job_def mail_ok_def)

lemma mail_change: "(\<And>ds sent. all_closed ds sent \<Longrightarrow> all_closed ds (f sent)) \<Longrightarrow> keeping (mail_ok S) (change_sent f)"
  by (simp add: valid_def change_sent_def mail_ok_alt)

lemma mail_prunes: "all_closed ds sent \<Longrightarrow> all_closed ds (foldl (\<lambda>sent (rs, now). prune_receipts rs now sent) sent ps)"
  by (induction ps arbitrary: sent) (auto simp: prune_receipts_closed)

lemma mail_changes [mail_intros]:
  "keeping (mail_ok S) (change_sent (prune_receipts rs now))" "keeping (mail_ok S) (change_sent (forget c e))"
  "keeping (mail_ok S) (change_sent (\<lambda>sent. foldl (\<lambda>sent (rs, now). prune_receipts rs now sent) sent ps))"
  by (intro mail_change prune_receipts_closed forget_closed mail_prunes; assumption)+

lemmas mail_struct [mail_intros] = keeps_return keeps_bind

lemma mail_ifs [mail_intros]: "(b \<Longrightarrow> keeping P c) \<Longrightarrow> (\<not> b \<Longrightarrow> keeping P d) \<Longrightarrow> keeping P (if b then c else d)"
  by simp

lemma mail_gaps [mail_intros]: "keeping (mail_ok S) mail_gap"
  unfolding mail_gap_def by (intro mail_intros)

lemma mail_asks [mail_intros]:
  "keeping (mail_ok S) notification_recipients" "keeping (mail_ok S) (notification_allowed c t)"
  "keeping (mail_ok S) sync_recipients" "keeping (mail_ok S) sync_recipients_if_changed" "keeping (mail_ok S) (set_inactive_of c)"
proof -
  show recipients: "keeping (mail_ok S) notification_recipients" for S
    unfolding notification_recipients_def by (intro mail_intros)
  show "keeping (mail_ok S) (notification_allowed c t)"
    unfolding notification_allowed_def by (intro mail_intros recipients)
  show sync: "keeping (mail_ok S) sync_recipients"
    unfolding sync_recipients_def by (intro mail_intros recipients)
  show "keeping (mail_ok S) sync_recipients_if_changed"
    unfolding sync_recipients_if_changed_def by (intro mail_intros recipients sync)
  show "keeping (mail_ok S) (set_inactive_of c)"
    unfolding set_inactive_of_def by (intro mail_intros)
qed

lemma send_loop_keeps: "keeping (mail_ok S) (send_loop n rs)"
proof (induction n rs rule: send_loop.induct)
  case (1 n rs)
  show ?case by (subst send_loop.simps) (intro mail_intros 1)
qed

lemma closing:
  "valid (mail_ok S) (add_deed (Delivered c e)) (\<lambda>_. mail_ok (insert (c, e) S))"
  "valid (mail_ok S) (add_deed (Declined c e)) (\<lambda>_. mail_ok (insert (c, e) S))"
  by (auto simp: valid_def add_deed_def mail_ok_def closed_in_def intro: receipts_closed_Cons split: prod.splits)

text \<open>What was sent or declined for good is closed.\<close>

lemma sent_closes:
  "valid (mail_ok S) (send_notification n)
     (\<lambda>e. mail_ok (if e = None \<or> \<not> retryable (the e) then insert (nn_chat n, nn_id n) S else S))"
proof -
  have fin: "valid (mail_ok S) (do {
       (case e of None \<Rightarrow> add_deed (Delivered (nn_chat n) (nn_id n))
        | Some x \<Rightarrow> if \<not> retryable x then add_deed (Declined (nn_chat n) (nn_id n)) else State_Monad.return ());
       State_Monad.return e })
     (\<lambda>e. mail_ok (if e = None \<or> \<not> retryable (the e) then insert (nn_chat n, nn_id n) S else S))" for e
    by (cases e) (auto intro!: valid_bind [OF closing(1)] valid_bind [OF closing(2)] valid_return)
  show ?thesis
    unfolding send_notification_def
    by (intro valid_bind [OF mail_looks(1)] valid_bind [OF send_loop_keeps fin])
qed

lemma acked_closed: "(c, e) \<in> S \<Longrightarrow> keeping (mail_ok S) (ack_notification c e)"
proof -
  assume S: "(c, e) \<in> S"
  have "keeping (mail_ok S) (add_deed (Acked c e))"
    using S by (auto simp: valid_def add_deed_def mail_ok_def intro: receipts_closed_Cons closed_in_Cons split: prod.splits)
  then show ?thesis unfolding ack_notification_def by (intro mail_intros)
qed

lemma receipts_acked:
  "\<forall>(e, t) \<in> set rs. (c, e) \<in> S \<Longrightarrow> keeping (mail_ok S) (ack_receipts c rs acked result)"
proof (induction rs arbitrary: acked result)
  case (Cons r rs)
  obtain e t where r: "r = (e, t)" by fastforce
  have "(c, e) \<in> S" using Cons.prems by (simp add: r)
  then show ?case
    unfolding r ack_receipts.simps using Cons.prems by (intro mail_intros acked_closed Cons.IH) simp_all
qed (simp add: keeps_return)

lemma mail_weaken: "valid (mail_ok S') c Q \<Longrightarrow> S' \<subseteq> S \<Longrightarrow> valid (mail_ok S) c Q"
  by (erule valid_pre) (rule mail_ok_mono)

lemma messages_delivered: "keeping (mail_ok S) (deliver_messages ns acked result)"
proof (induction ns arbitrary: acked result)
  case (Cons n ns)
  let ?k = "(nn_chat n, nn_id n)"
  have drop: "keeping (mail_ok (insert ?k S)) c \<Longrightarrow> valid (mail_ok (insert ?k S)) c (\<lambda>_. mail_ok S)" for c :: "'a mail_act"
    by (erule valid_post) (erule mail_ok_mono, blast)
  have later: "valid (mail_ok (insert ?k S)) (deliver_messages ns acked x) (\<lambda>_. mail_ok S)" for x
    by (rule valid_pre [OF Cons.IH]) (erule mail_ok_mono, blast)
  have again: "valid (mail_ok S) (do { x \<leftarrow> sync_recipients; State_Monad.return (result @ x) }) (\<lambda>_. mail_ok S)"
    by (intro mail_intros)
  have refused: "valid (mail_ok (insert ?k S)) (do {
       x \<leftarrow> set_inactive_of (nn_chat n); y \<leftarrow> sync_recipients; z \<leftarrow> ack_notification (nn_chat n) (nn_id n);
       State_Monad.return (result @ x @ y @ z) }) (\<lambda>_. mail_ok S)"
    by (rule drop) (intro mail_intros acked_closed insertI1)
  have kept: "keeping (mail_ok (insert ?k S)) (change_sent (if still then remember n else (\<lambda>s. s)))" for still
    by (auto simp: valid_def change_sent_def mail_ok_alt remember_closed)
  have closed: "valid (mail_ok (insert ?k S)) (do {
       still \<leftarrow> notification_allowed (nn_chat n) (nn_at n);
       mail_gap;
       change_sent (if still then remember n else (\<lambda>s. s));
       x \<leftarrow> ack_notification (nn_chat n) (nn_id n);
       deliver_messages ns acked (first_error result x) }) (\<lambda>_. mail_ok S)"
    by (intro valid_bind [OF mail_asks(2)] valid_bind [OF mail_gaps] valid_bind [OF kept]
        valid_bind [OF acked_closed [OF insertI1]] later)
  have after: "valid (mail_ok (if e = None \<or> \<not> retryable (the e) then insert ?k S else S))
      (if e = Some Mail_Revoked then do { x \<leftarrow> sync_recipients; State_Monad.return (result @ x) }
       else if e \<noteq> None \<and> retryable (the e) then State_Monad.return (result @ [the e])
       else if e = Some (Mail_Refused (Api_Error 403)) then do {
         x \<leftarrow> set_inactive_of (nn_chat n); y \<leftarrow> sync_recipients; z \<leftarrow> ack_notification (nn_chat n) (nn_id n);
         State_Monad.return (result @ x @ y @ z) }
       else do {
         still \<leftarrow> notification_allowed (nn_chat n) (nn_at n);
         mail_gap;
         change_sent (if still then remember n else (\<lambda>s. s));
         x \<leftarrow> ack_notification (nn_chat n) (nn_id n);
         deliver_messages ns acked (first_error result x) }) (\<lambda>_. mail_ok S)" for e
  proof (cases "e = Some Mail_Revoked")
    case True
    then show ?thesis using again by (simp add: retryable_def)
  next
    case False
    then show ?thesis using refused closed keeps_return [of "mail_ok S"] by (cases "e \<noteq> None \<and> retryable (the e)") auto
  qed
  show ?case
    unfolding deliver_messages.simps
    by (intro valid_bind [OF mail_looks(1)] valid_if keeps_return Cons.IH valid_bind [OF mail_asks(2)] valid_bind [OF sent_closes after])
qed (simp add: keeps_return)

lemma job_delivered:
  "valid (\<lambda>w. mail_ok {} w \<and> receipts_closed (mw_log w) (mj_chat j) (mj_receipts j)) (deliver_notification_chat j) (\<lambda>_. mail_ok {})"
proof -
  let ?S = "{(mj_chat j, e) | e t. (e, t) \<in> set (mj_receipts j)}"
  have "keeping (mail_ok ?S) (deliver_notification_chat j)"
    unfolding deliver_notification_chat_def
    by (intro mail_intros keeps_case_prod receipts_acked messages_delivered) auto
  then show ?thesis
    by (rule valid_pre [OF valid_post]) (auto simp: mail_ok_def receipts_closed_def)
qed

subsection \<open>Polls and runs\<close>

definition jobs_closed :: "mail_deed list \<Rightarrow> (int \<times> mail_job) list \<Rightarrow> bool" where
  "jobs_closed ds jobs \<longleftrightarrow> (\<forall>(c, j) \<in> set jobs. receipts_closed ds (mj_chat j) (mj_receipts j))"

lemma take_message_closed:
  assumes "jobs_closed ds (rd_jobs rd)"
  shows "jobs_closed ds (rd_jobs (take_message busy recipients now n rd))"
proof -
  have update: "jobs_closed ds (AList.update c j m)" if "jobs_closed ds m" "receipts_closed ds (mj_chat j) (mj_receipts j)" for c j m
    using that by (induction m) (auto simp: jobs_closed_def)
  have old: "receipts_closed ds (mj_chat j) (mj_receipts j)" if "map_of (rd_jobs rd) c = Some j" for c j
    using assms map_of_SomeD [OF that] by (auto simp: jobs_closed_def)
  have "receipts_closed ds c []" for c by (simp add: receipts_closed_def)
  then show ?thesis
    using assms by (auto simp: take_message_def Let_def split: option.split intro!: update dest: old)
qed

definition reading_ok :: "reading \<Rightarrow> mail_world \<Rightarrow> bool" where
  "reading_ok rd w \<longleftrightarrow> mail_ok {} w \<and> jobs_closed (mw_log w) (rd_jobs rd)"

lemma reading_asks: "keeping (reading_ok rd) (ask_bot f)"
  by (simp add: valid_def ask_bot_def reading_ok_def mail_ok_def)

lemma messages_taken: "valid (reading_ok rd) (take_messages busy recipients ns rd) reading_ok"
proof (induction ns arbitrary: rd)
  case (Cons n ns)
  have "valid (reading_ok rd) (take_messages busy recipients ns (take_message busy recipients now n rd)) reading_ok" for now
    by (rule valid_pre [OF Cons.IH]) (auto simp: reading_ok_def take_message_closed)
  then show ?case unfolding take_messages.simps by (rule valid_bind [OF reading_asks])
qed (simp add: valid_return)

lemma pages_read: "valid (reading_ok rd) (read_pages busy recipients cursor seen k rd) (\<lambda>x. reading_ok (fst x))"
proof (induction k arbitrary: rd cursor seen)
  case (Suc k)
  have body: "valid (reading_ok rd') (if pg_next pg = [] then State_Monad.return (rd', [])
      else if pg_next pg = cursor \<or> pg_next pg \<in> set seen then State_Monad.return (rd', [Mail_Cursor])
      else read_pages busy recipients (pg_next pg) (pg_next pg # seen) k rd') (\<lambda>x. reading_ok (fst x))" for rd' pg
    by (intro valid_if valid_return Suc.IH) simp_all
  have "valid (reading_ok rd) (case p of
        None \<Rightarrow> State_Monad.return (rd, [Mail_Page])
      | Some pg \<Rightarrow> do {
          rd' \<leftarrow> take_messages busy recipients (pg_messages pg) rd;
          if pg_next pg = [] then State_Monad.return (rd', [])
          else if pg_next pg = cursor \<or> pg_next pg \<in> set seen then State_Monad.return (rd', [Mail_Cursor])
          else read_pages busy recipients (pg_next pg) (pg_next pg # seen) k rd' }) (\<lambda>x. reading_ok (fst x))" for p
    by (cases p) (auto intro!: valid_return valid_bind [OF messages_taken body])
  then show ?case unfolding read_pages.simps by (rule valid_bind [OF reading_asks])
qed (simp add: valid_return)

lemma poll_keeps: "keeping (mail_ok {}) read_notification_jobs"
proof -
  have start: "valid (mail_ok {}) (read_mail mw_sent) (\<lambda>sent. reading_ok \<lparr>rd_jobs = receipt_jobs busy sent, rd_seen = []\<rparr>)" for busy
    by (auto simp: valid_def read_mail_def reading_ok_def mail_ok_def jobs_closed_def receipt_jobs_def)
  have gap: "keeping (reading_ok rd) mail_gap" for rd
  proof -
    have "mw_log (snd (run_state mail_gap w)) = mw_log w" for w
      by (simp add: mail_gap_def ask_bot_def change_users_def change_sent_def)
    then show ?thesis using mail_gaps [of "{}"] by (simp add: valid_def reading_ok_def)
  qed
  have queue: "valid (reading_ok rd) (do { queue_jobs (rd_jobs rd); State_Monad.return x }) (\<lambda>_. mail_ok {})" for rd x
    by (rule valid_bind [OF _ valid_return, where R = "\<lambda>_. mail_ok {}"])
      (auto simp: valid_def queue_jobs_def reading_ok_def mail_ok_def jobs_closed_def)
  have tail: "valid (reading_ok (fst q)) (case q of (rd, x) \<Rightarrow> do { mail_gap; queue_jobs (rd_jobs rd); State_Monad.return (e @ x) }) (\<lambda>_. mail_ok {})"
    for q e by (cases q) (auto intro!: valid_bind [OF gap queue])
  note reading = valid_bind [OF start valid_bind [OF pages_read tail]]
  show ?thesis
    unfolding read_notification_jobs_def
    by (intro valid_bind [OF mail_asks(3)] valid_bind [OF mail_looks(1)] valid_if keeps_return valid_bind [OF mail_asks(1)]
        valid_bind [OF mail_gaps] valid_bind [OF mail_looks(2), where f = "\<lambda>busy. State_Monad.bind _ (_ busy)"] reading)
qed

lemma step_keeps: "keeping (mail_ok {}) (mail_do x)"
proof (cases x)
  case (Hand_Out i)
  have taken: "valid (mail_ok {}) (take_job i) (\<lambda>j w. mail_ok {} w \<and> (\<forall>job. j = Some job \<longrightarrow> receipts_closed (mw_log w) (mj_chat job) (mj_receipts job)))"
    by (auto simp: valid_def take_job_def mail_ok_def dest: in_set_takeD in_set_dropD)
  have "valid (\<lambda>w. mail_ok {} w \<and> (\<forall>job. j = Some job \<longrightarrow> receipts_closed (mw_log w) (mj_chat job) (mj_receipts job)))
      (case j of None \<Rightarrow> State_Monad.return [] | Some job \<Rightarrow> deliver_notification_chat job) (\<lambda>_. mail_ok {})" for j
    by (cases j) (auto intro: valid_return job_delivered)
  then show ?thesis unfolding Hand_Out mail_do.simps by (rule valid_bind [OF taken])
qed (auto intro: poll_keeps mail_intros)

definition mail_start :: "mail_env \<Rightarrow> chat_store \<Rightarrow> mail_world" where
  "mail_start env store =
     \<lparr>mw_env = env, mw_calls = 0, mw_store = store, mw_sent = [], mw_flight = [], mw_synced = None, mw_queue = [], mw_log = []\<rparr>"


end
