(* ===== verification/Version.thy ===== *)
theory Version
  imports Go_Text "HOL-Library.Product_Lexorder"
begin

text \<open>
  The versions of a release (\<^verbatim>\<open>updater/version.go\<close>) and the question whether one is due
  (\<^verbatim>\<open>ShouldUpdate\<close>). \<^verbatim>\<open>strconv.Atoi\<close> refuses a number above the largest
  \<^verbatim>\<open>int\<close>, which depends on the machine: it is an argument.
\<close>

record version =
  ve_major :: nat
  ve_minor :: nat
  ve_patch :: nat
  ve_raw :: string

datatype version_error = No_Version | Version_Space | Pre_Release | Bad_Format | Bad_Number

definition atoi :: "nat \<Rightarrow> string \<Rightarrow> nat option" where
  "atoi limit s = (case parse_nat s of None \<Rightarrow> None | Some n \<Rightarrow> if n \<le> limit then Some n else None)"

text \<open>The pattern: an optional v, then three runs of digits between dots.\<close>

definition semver_match :: "string \<Rightarrow> (string \<times> string \<times> string) option" where
  "semver_match s =
     (case split_on CHR ''.'' (case s of c # r \<Rightarrow> if c = CHR ''v'' then r else s | [] \<Rightarrow> []) of
        [a, b, c] \<Rightarrow>
          if list_all (\<lambda>p. p \<noteq> [] \<and> list_all is_digit p) [a, b, c] then Some (a, b, c) else None
      | _ \<Rightarrow> None)"

definition parse_version :: "nat \<Rightarrow> string \<Rightarrow> version_error + version" where
  "parse_version limit s =
     (if s = [] then Inl No_Version
      else if trim_space s \<noteq> s then Inl Version_Space
      else if CHR ''-'' \<in> set s then Inl Pre_Release
      else case semver_match s of
        None \<Rightarrow> Inl Bad_Format
      | Some (a, b, c) \<Rightarrow>
          (case (atoi limit a, atoi limit b, atoi limit c) of
             (Some x, Some y, Some z) \<Rightarrow> Inr \<lparr>ve_major = x, ve_minor = y, ve_patch = z, ve_raw = s\<rparr>
           | _ \<Rightarrow> Inl Bad_Number))"

definition compare_version :: "version \<Rightarrow> version \<Rightarrow> int" where
  "compare_version v w =
     (if ve_major v \<noteq> ve_major w then (if ve_major v < ve_major w then - 1 else 1)
      else if ve_minor v \<noteq> ve_minor w then (if ve_minor v < ve_minor w then - 1 else 1)
      else if ve_patch v \<noteq> ve_patch w then (if ve_patch v < ve_patch w then - 1 else 1)
      else 0)"

definition is_older_than :: "version \<Rightarrow> version \<Rightarrow> bool" where
  "is_older_than v w \<longleftrightarrow> compare_version v w < 0"

definition version_char :: "char \<Rightarrow> bool" where
  "version_char c \<longleftrightarrow>
     is_digit c \<or> (97 \<le> byte c \<and> byte c \<le> 122) \<or> (65 \<le> byte c \<and> byte c \<le> 90) \<or> c = CHR ''.'' \<or> c = CHR ''-''"

definition is_valid_version :: "string \<Rightarrow> bool" where
  "is_valid_version s \<longleftrightarrow> s \<noteq> [] \<and> length s \<le> 50 \<and> list_all version_char s"

definition should_update :: "nat \<Rightarrow> string \<Rightarrow> string \<Rightarrow> version_error + bool" where
  "should_update limit current latest =
     (case parse_version limit current of
        Inl e \<Rightarrow> Inl e
      | Inr v \<Rightarrow> (case parse_version limit latest of Inl e \<Rightarrow> Inl e | Inr w \<Rightarrow> Inr (is_older_than v w)))"

section \<open>The order\<close>

definition version_key :: "version \<Rightarrow> nat \<times> nat \<times> nat" where
  "version_key v = (ve_major v, ve_minor v, ve_patch v)"

lemma compare_version_key:
  "compare_version v w = (if version_key v < version_key w then - 1 else if version_key w < version_key v then 1 else 0)"
  by (auto simp: compare_version_def version_key_def less_prod_def')

lemma is_older_key: "is_older_than v w \<longleftrightarrow> version_key v < version_key w"
  by (simp add: is_older_than_def compare_version_key)

text \<open>What an update is due for: numbers that are smaller, read from left to right.\<close>

lemma split_three:
  assumes "list_all is_digit a" and "list_all is_digit b" and "list_all is_digit c"
  shows "split_on CHR ''.'' (a @ CHR ''.'' # b @ CHR ''.'' # c) = [a, b, c]"
proof -
  have "\<not> is_digit CHR ''.''" by code_simp
  then have "CHR ''.'' \<notin> set a" "CHR ''.'' \<notin> set b" "CHR ''.'' \<notin> set c" using assms by (auto simp: list_all_iff)
  then show ?thesis by (simp add: split_on_append split_on_no_sep)
qed

definition show_version :: "nat \<Rightarrow> nat \<Rightarrow> nat \<Rightarrow> string" where
  "show_version x y z = CHR ''v'' # show_nat x @ CHR ''.'' # show_nat y @ CHR ''.'' # show_nat z"

lemma semver_show: "semver_match (show_version x y z) = Some (show_nat x, show_nat y, show_nat z)"
  using split_three [OF show_nat_digits show_nat_digits show_nat_digits, of x y z]
  by (simp add: semver_match_def show_version_def show_nat_digits)

end
