(* ===== verification/Update_Check.thy ===== *)
theory Update_Check
  imports Version Chat_Store "HOL-Library.Sublist" "HOL-Library.Multiset"
begin

text \<open>
  The check for a new release (\<^verbatim>\<open>updatechecker/checker.go\<close>): one round of \<^verbatim>\<open>checkOnce\<close> with
  the notices it sends. What GitHub, Telegram, the disk and the shutdown answer, and the order in which a
  loop over the users comes, are arguments; the text of the notice is left out.
\<close>

record check_env =
  ce_limit :: nat
  ce_release :: "string option"
  ce_order :: "user_chat list \<Rightarrow> user_chat list"
  ce_auth :: "string set"
  ce_stop :: "nat \<Rightarrow> bool"
  ce_send :: "nat \<Rightarrow> string option"
  ce_save :: "nat \<Rightarrow> bool"

text \<open>The store, and the notices Telegram took, the latest first.\<close>

record check_state =
  ck_store :: chat_store
  ck_sent :: "(int \<times> string) list"

definition is_blocked_error :: "string \<Rightarrow> bool" where
  "is_blocked_error e \<longleftrightarrow>
     sublist ''bot was blocked'' e \<or> sublist ''chat not found'' e \<or> sublist ''user is deactivated'' e"

definition mark_told :: "check_env \<Rightarrow> nat \<Rightarrow> string \<Rightarrow> string \<Rightarrow> check_state \<Rightarrow> check_state" where
  "mark_told env i tag name s = s\<lparr>ck_store := snd (mark_notified name tag (ce_save env i) (ck_store s))\<rparr>"

fun notify_loop :: "check_env \<Rightarrow> string \<Rightarrow> nat \<Rightarrow> int list \<Rightarrow> user_chat list \<Rightarrow> check_state \<Rightarrow> check_state" where
  "notify_loop env tag i told [] s = s"
| "notify_loop env tag i told (u # us) s =
     (if ce_stop env i then s
      else if \<not> is_authorized (ce_auth env) (uc_name u) then notify_loop env tag (i + 1) told us s
      else if is_notified (uc_name u) tag (ck_store s) then notify_loop env tag (i + 1) told us s
      else if uc_chat u \<in> set told then notify_loop env tag (i + 1) told us (mark_told env i tag (uc_name u) s)
      else case ce_send env i of
        Some e \<Rightarrow>
          notify_loop env tag (i + 1) told us
            (if is_blocked_error e then s\<lparr>ck_store := snd (set_inactive (uc_name u) (ce_save env i) (ck_store s))\<rparr> else s)
      | None \<Rightarrow>
          notify_loop env tag (i + 1) (uc_chat u # told) us
            (mark_told env i tag (uc_name u) (s\<lparr>ck_sent := (uc_chat u, tag) # ck_sent s\<rparr>)))"

definition notify_users :: "check_env \<Rightarrow> string \<Rightarrow> check_state \<Rightarrow> check_state" where
  "notify_users env tag s =
     (let users = ce_order env (get_active_users (ck_store s));
          told = map uc_chat (filter (\<lambda>u. is_notified (uc_name u) tag (ck_store s)) users) in
      notify_loop env tag 0 told users s)"

definition check_once :: "string \<Rightarrow> check_env \<Rightarrow> check_state \<Rightarrow> check_state" where
  "check_once current env s =
     (if current = ''dev'' then s
      else case ce_release env of
        None \<Rightarrow> s
      | Some tag \<Rightarrow> (case should_update (ce_limit env) current tag of Inr True \<Rightarrow> notify_users env tag s | _ \<Rightarrow> s))"

definition run_checks :: "string \<Rightarrow> check_env list \<Rightarrow> check_state \<Rightarrow> check_state" where
  "run_checks current envs s = foldl (\<lambda>s env. check_once current env s) s envs"

section \<open>Who was told\<close>

definition told_record :: "string \<Rightarrow> int \<Rightarrow> users \<Rightarrow> bool" where
  "told_record tag c us \<longleftrightarrow> (\<exists>n r. map_of us n = Some r \<and> ur_active r \<and> ur_chat r = c \<and> tag \<in> set (ur_notified r))"

definition told_ok :: "string \<Rightarrow> check_state \<Rightarrow> bool" where
  "told_ok tag s \<longleftrightarrow>
     users_ok (cs_users (ck_store s)) \<and> distinct (map fst (ck_sent s))
     \<and> (\<forall>(c, t) \<in> set (ck_sent s). t = tag \<and> told_record tag c (cs_users (ck_store s)))"

definition still_there :: "user_chat list \<Rightarrow> users \<Rightarrow> bool" where
  "still_there us users \<longleftrightarrow>
     distinct (map uc_name us)
     \<and> (\<forall>u \<in> set us. \<exists>r. map_of users (uc_name u) = Some r \<and> ur_active r \<and> ur_chat r = uc_chat u)"

lemma lower_key: "users_ok us \<Longrightarrow> map_of us n = Some r \<Longrightarrow> to_lower n = n"
  by (auto simp: users_ok_def dest: map_of_mem_keys)

lemma mark_users:
  assumes "users_ok (cs_users s)" and "map_of (cs_users s) n = Some r"
  shows "\<exists>vs. tag \<in> set vs \<and> map_of (cs_users (snd (mark_notified n tag ok s))) = (map_of (cs_users s))(n \<mapsto> r\<lparr>ur_notified := vs\<rparr>)
    \<and> (tag \<in> set (ur_notified r) \<longrightarrow> vs = ur_notified r)"
proof (cases "tag \<in> set (ur_notified r)")
  case True
  then show ?thesis
    using assms lower_key [OF assms] by (intro exI [of _ "ur_notified r"]) (auto simp: mark_notified_def)
next
  case False
  let ?vs = "drop (length (ur_notified r @ [tag]) - 10) (ur_notified r @ [tag])"
  have "tag \<in> set ?vs"
  proof -
    have "length (ur_notified r @ [tag]) - 10 \<le> length (ur_notified r)" by simp
    then show ?thesis by simp
  qed
  then show ?thesis
    using False assms lower_key [OF assms]
    by (intro exI [of _ ?vs]) (simp add: mark_notified_def put_user_def Let_def)
qed

lemma still_there_tail:
  assumes "still_there (u # us) users" and "map_of users' = (map_of users)(uc_name u \<mapsto> x)"
  shows "still_there us users'"
proof -
  have "uc_name u \<notin> uc_name ` set us" using assms(1) by (simp add: still_there_def)
  then have "uc_name v \<noteq> uc_name u" if "v \<in> set us" for v using that by (metis image_eqI)
  then show ?thesis using assms by (simp add: still_there_def)
qed

lemma still_mark:
  assumes ok: "told_ok tag s" and there: "still_there (u # us) (cs_users (ck_store s))"
  shows "users_ok (cs_users (ck_store (mark_told env i tag (uc_name u) s)))"
    "still_there us (cs_users (ck_store (mark_told env i tag (uc_name u) s)))"
    "told_record tag (uc_chat u) (cs_users (ck_store (mark_told env i tag (uc_name u) s)))"
    "told_record tag c (cs_users (ck_store s)) \<Longrightarrow> told_record tag c (cs_users (ck_store (mark_told env i tag (uc_name u) s)))"
    "ck_sent (mark_told env i tag (uc_name u) s) = ck_sent s"
proof -
  have users: "users_ok (cs_users (ck_store s))" using ok by (simp add: told_ok_def)
  obtain r where r: "map_of (cs_users (ck_store s)) (uc_name u) = Some r" "ur_active r" "ur_chat r = uc_chat u"
    using there by (auto simp: still_there_def)
  obtain vs where vs: "tag \<in> set vs"
      "map_of (cs_users (ck_store (mark_told env i tag (uc_name u) s))) = (map_of (cs_users (ck_store s)))(uc_name u \<mapsto> r\<lparr>ur_notified := vs\<rparr>)"
    using mark_users [OF users r(1), of tag "ce_save env i"] by (auto simp: mark_told_def)
  show "users_ok (cs_users (ck_store (mark_told env i tag (uc_name u) s)))"
    using users by (simp add: mark_told_def users_ok_operations)
  show "still_there us (cs_users (ck_store (mark_told env i tag (uc_name u) s)))"
    by (rule still_there_tail [OF there vs(2)])
  show "told_record tag (uc_chat u) (cs_users (ck_store (mark_told env i tag (uc_name u) s)))"
    using r vs by (auto simp: told_record_def)
  show "told_record tag c (cs_users (ck_store (mark_told env i tag (uc_name u) s)))" if "told_record tag c (cs_users (ck_store s))"
  proof -
    obtain n r' where n: "map_of (cs_users (ck_store s)) n = Some r'" "ur_active r'" "ur_chat r' = c" "tag \<in> set (ur_notified r')"
      using \<open>told_record tag c (cs_users (ck_store s))\<close> by (auto simp: told_record_def)
    show ?thesis
    proof (cases "n = uc_name u")
      case True
      then show ?thesis using n r vs by (auto simp: told_record_def intro!: exI [of _ n])
    next
      case False
      then show ?thesis using n vs(2) by (auto simp: told_record_def intro!: exI [of _ n])
    qed
  qed
  show "ck_sent (mark_told env i tag (uc_name u) s) = ck_sent s" by (simp add: mark_told_def)
qed

lemma still_inactive:
  assumes ok: "told_ok tag s" and there: "still_there (u # us) (cs_users (ck_store s))"
    and new: "\<not> is_notified (uc_name u) tag (ck_store s)"
  shows "told_ok tag (s\<lparr>ck_store := snd (set_inactive (uc_name u) b (ck_store s))\<rparr>)"
    "still_there us (cs_users (snd (set_inactive (uc_name u) b (ck_store s))))"
proof -
  have users: "users_ok (cs_users (ck_store s))" using ok by (simp add: told_ok_def)
  obtain r where r: "map_of (cs_users (ck_store s)) (uc_name u) = Some r"
    using there by (auto simp: still_there_def)
  note low = lower_key [OF users r]
  have map: "map_of (cs_users (snd (set_inactive (uc_name u) b (ck_store s)))) = (map_of (cs_users (ck_store s)))(uc_name u \<mapsto> r\<lparr>ur_active := False\<rparr>)"
    using r by (simp add: set_inactive_def low put_user_def)
  have "tag \<notin> set (ur_notified r)" using new r by (simp add: is_notified_def low)
  then have "told_record tag c (cs_users (snd (set_inactive (uc_name u) b (ck_store s))))" if "told_record tag c (cs_users (ck_store s))" for c
    using that r unfolding told_record_def map by (metis fun_upd_other option.inject)
  then show "told_ok tag (s\<lparr>ck_store := snd (set_inactive (uc_name u) b (ck_store s))\<rparr>)"
    using ok users_ok_operations(3) [OF users] by (auto simp: told_ok_def)
  show "still_there us (cs_users (snd (set_inactive (uc_name u) b (ck_store s))))"
    by (rule still_there_tail [OF there map])
qed

lemma notify_loop_ok:
  assumes "told_ok tag s" and "still_there us (cs_users (ck_store s))" and "fst ` set (ck_sent s) \<subseteq> set told"
  shows "told_ok tag (notify_loop env tag i told us s)"
  using assms
proof (induction us arbitrary: i told s)
  case (Cons u us)
  have rest: "still_there us (cs_users (ck_store s))" using Cons.prems(2) by (simp add: still_there_def)
  let ?m = "mark_told env i tag (uc_name u) s"
  note mark = still_mark [OF Cons.prems(1,2), where env = env and i = i]
  have dup: "told_ok tag ?m"
    using Cons.prems(1) mark(1,4,5) by (auto simp: told_ok_def)
  show ?case
  proof (cases "ce_stop env i \<or> \<not> is_authorized (ce_auth env) (uc_name u) \<or> is_notified (uc_name u) tag (ck_store s)")
    case True
    then show ?thesis using Cons.prems(1,3) Cons.IH [OF Cons.prems(1) rest] by auto
  next
    case go: False
    show ?thesis
    proof (cases "uc_chat u \<in> set told")
      case True
      have "told_ok tag (notify_loop env tag (i + 1) told us ?m)"
        by (rule Cons.IH [OF dup mark(2)]) (use Cons.prems(3) mark(5) in simp)
      then show ?thesis using go True by simp
    next
      case new: False
      show ?thesis
      proof (cases "ce_send env i")
        case (Some e)
        note quit = still_inactive [OF Cons.prems(1,2), where b = "ce_save env i"]
        show ?thesis
        proof (cases "is_blocked_error e")
          case True
          then show ?thesis using go new Some Cons.IH [OF quit(1)] quit(2) Cons.prems(3) by simp
        next
          case False
          then show ?thesis using go new Some Cons.IH [OF Cons.prems(1) rest Cons.prems(3)] by simp
        qed
      next
        case None
        let ?s = "s\<lparr>ck_sent := (uc_chat u, tag) # ck_sent s\<rparr>"
        let ?t = "mark_told env i tag (uc_name u) ?s"
        have t: "ck_store ?t = ck_store ?m" "ck_sent ?t = (uc_chat u, tag) # ck_sent s" by (simp_all add: mark_told_def)
        have "uc_chat u \<notin> fst ` set (ck_sent s)" using new Cons.prems(3) by blast
        then have "told_ok tag ?t"
          using Cons.prems(1) mark(1,3,4) unfolding told_ok_def t by auto
        then have "told_ok tag (notify_loop env tag (i + 1) (uc_chat u # told) us ?t)"
          by (rule Cons.IH) (use mark(2) t Cons.prems(3) in auto)
        then show ?thesis using go new None by simp
      qed
    qed
  qed
qed simp

lemma active_still_there:
  assumes "users_ok (cs_users s)" and "mset us = mset (get_active_users s)"
  shows "still_there us (cs_users s)"
proof -
  have names: "distinct (map uc_name (get_active_users s))"
  proof -
    have "map uc_name (get_active_users s) = keys (filter (\<lambda>(n, r). ur_active r) (cs_users s))"
      by (induction "cs_users s") (auto simp: get_active_users_def)
    then show ?thesis
      using assms(1) distinct_map_filter [of fst "cs_users s"] by (simp add: users_ok_def)
  qed
  have "mset (map uc_name us) = mset (map uc_name (get_active_users s))" using assms(2) by simp
  then have "distinct (map uc_name us)" using names by (metis mset_eq_imp_distinct_iff)
  moreover have "\<exists>r. map_of (cs_users s) (uc_name u) = Some r \<and> ur_active r \<and> ur_chat r = uc_chat u" if "u \<in> set us" for u
  proof -
    have "u \<in> set (get_active_users s)" using that assms(2) by (metis set_mset_mset)
    then obtain n r where "(n, r) \<in> set (cs_users s)" "ur_active r" "u = \<lparr>uc_name = n, uc_chat = ur_chat r, uc_first = ur_first r\<rparr>"
      by (auto simp: get_active_users_def)
    then show ?thesis using assms(1) by (auto simp: users_ok_def)
  qed
  ultimately show ?thesis by (simp add: still_there_def)
qed

definition any_order :: "check_env \<Rightarrow> bool" where
  "any_order env \<longleftrightarrow> (\<forall>us. mset (ce_order env us) = mset us)"

lemma notify_users_ok:
  assumes ok: "told_ok tag s" and order: "any_order env"
  shows "told_ok tag (notify_users env tag s)"
proof -
  let ?us = "ce_order env (get_active_users (ck_store s))"
  let ?told = "map uc_chat (filter (\<lambda>u. is_notified (uc_name u) tag (ck_store s)) ?us)"
  have users: "users_ok (cs_users (ck_store s))" using ok by (simp add: told_ok_def)
  have us: "mset ?us = mset (get_active_users (ck_store s))" using order by (simp add: any_order_def)
  have "c \<in> set ?told" if c: "(c, t) \<in> set (ck_sent s)" for c t
  proof -
    obtain n r where r: "map_of (cs_users (ck_store s)) n = Some r" "ur_active r" "ur_chat r = c" "tag \<in> set (ur_notified r)"
      using ok c by (fastforce simp: told_ok_def told_record_def)
    let ?u = "\<lparr>uc_name = n, uc_chat = ur_chat r, uc_first = ur_first r\<rparr>"
    have "?u \<in> set (get_active_users (ck_store s))"
      using r map_of_SomeD [OF r(1)] by (force simp: get_active_users_def)
    then have "?u \<in> set ?us" using us by (metis set_mset_mset)
    moreover have "is_notified n tag (ck_store s)" using r lower_key [OF users r(1)] by (simp add: is_notified_def)
    ultimately show ?thesis using r(3) by force
  qed
  then show ?thesis
    unfolding notify_users_def Let_def
    by (intro notify_loop_ok ok active_still_there [OF users us]) auto
qed


definition example_users :: users where
  "example_users =
     [(''ann'', \<lparr>ur_chat = 7, ur_first = 0, ur_last = 0, ur_active = True, ur_notified = []\<rparr>),
      (''bob'', \<lparr>ur_chat = 7, ur_first = 0, ur_last = 0, ur_active = True, ur_notified = []\<rparr>)]"

definition example_check :: check_env where
  "example_check =
     \<lparr>ce_limit = 1000, ce_release = Some ''v1.1.0'', ce_order = rev, ce_auth = {''ann'', ''bob''}, ce_stop = (\<lambda>n. False),
      ce_send = (\<lambda>n. None), ce_save = (\<lambda>n. False)\<rparr>"


end
