(* ===== verification/Ssrf.thy ===== *)
theory Ssrf
  imports Go_Ip6
begin

unbundle bit_operations_syntax

text \<open>
  The guard of requests to addresses a user supplies (\<^verbatim>\<open>ssrf/ssrf.go\<close>): which IP addresses it
  refuses, and the IPv4 address inside an IPv6 transition address. The lemmas show that no address it
  passes reaches a reserved network in any of its encodings.

  The HTTP client it is installed in and the resolver of names are left out; what a name resolves to is an
  argument.
\<close>

section \<open>The predicates of net.IP\<close>

definition ip_is :: "(go_ip \<Rightarrow> bool) \<Rightarrow> (go_ip \<Rightarrow> bool) \<Rightarrow> go_ip \<Rightarrow> bool" where
  "ip_is p4 p6 ip = (case to4 ip of Some v4 \<Rightarrow> p4 v4 | None \<Rightarrow> length ip = 16 \<and> p6 ip)"

definition is_loopback :: "go_ip \<Rightarrow> bool" where
  "is_loopback = ip_is (\<lambda>ip. ip ! 0 = 127) (\<lambda>ip. ip = replicate 15 0 @ [1])"

definition is_private :: "go_ip \<Rightarrow> bool" where
  "is_private =
     ip_is (\<lambda>ip. ip ! 0 = 10 \<or> ip ! 0 = 172 \<and> ip ! 1 AND 0xf0 = 16 \<or> ip ! 0 = 192 \<and> ip ! 1 = 168)
       (\<lambda>ip. ip ! 0 AND 0xfe = 0xfc)"

definition is_link_local_unicast :: "go_ip \<Rightarrow> bool" where
  "is_link_local_unicast =
     ip_is (\<lambda>ip. ip ! 0 = 169 \<and> ip ! 1 = 254) (\<lambda>ip. ip ! 0 = 0xfe \<and> ip ! 1 AND 0xc0 = 0x80)"

definition is_link_local_multicast :: "go_ip \<Rightarrow> bool" where
  "is_link_local_multicast =
     ip_is (\<lambda>ip. ip ! 0 = 224 \<and> ip ! 1 = 0 \<and> ip ! 2 = 0) (\<lambda>ip. ip ! 0 = 0xff \<and> ip ! 1 AND 0x0f = 2)"

definition is_multicast :: "go_ip \<Rightarrow> bool" where
  "is_multicast = ip_is (\<lambda>ip. ip ! 0 AND 0xf0 = 0xe0) (\<lambda>ip. ip ! 0 = 0xff)"

definition is_unspecified :: "go_ip \<Rightarrow> bool" where
  "is_unspecified = ip_is (\<lambda>ip. ip = replicate 4 0) (\<lambda>ip. ip = replicate 16 0)"

text \<open>\<^verbatim>\<open>IPNet.Contains\<close>: the network with its prefix length, an IPv4-mapped address as IPv4.\<close>

definition net_contains :: "go_ip \<times> nat \<Rightarrow> go_ip \<Rightarrow> bool" where
  "net_contains n ip =
     (let x = (case to4 ip of Some v4 \<Rightarrow> v4 | None \<Rightarrow> ip); m = cidr_mask (snd n) (length (fst n)) in
      length x = length (fst n) \<and> mask_ip m x = mask_ip m (fst n))"

section \<open>The guard\<close>

definition extra_blocked_cidrs :: "(go_ip \<times> nat) list" where
  "extra_blocked_cidrs = [([100, 64, 0, 0], 10), ([0, 0, 0, 0], 8)]"

definition nat64_well_known :: "go_ip \<times> nat" where
  "nat64_well_known = ([0, 0x64, 0xff, 0x9b] @ replicate 12 0, 96)"

definition six_to_four :: "go_ip \<times> nat" where
  "six_to_four = ([0x20, 2] @ replicate 14 0, 16)"

definition is_zeros :: "8 word list \<Rightarrow> bool" where
  "is_zeros b \<longleftrightarrow> list_all (\<lambda>x. x = 0) b"

text \<open>\<^verbatim>\<open>net.IPv4\<close> gives the IPv4-mapped form.\<close>

definition mapped_ip :: "go_ip \<Rightarrow> go_ip" where
  "mapped_ip v4 = replicate 10 0 @ [255, 255] @ v4"

definition embedded_ipv4 :: "go_ip \<Rightarrow> go_ip option" where
  "embedded_ipv4 ip =
     (if length ip \<noteq> 16 \<or> to4 ip \<noteq> None then None
      else if net_contains nat64_well_known ip then Some (mapped_ip [ip ! 12, ip ! 13, ip ! 14, ip ! 15])
      else if net_contains six_to_four ip then Some (mapped_ip [ip ! 2, ip ! 3, ip ! 4, ip ! 5])
      else if is_zeros (take 12 ip) then Some (mapped_ip [ip ! 12, ip ! 13, ip ! 14, ip ! 15])
      else None)"

lemma to4_mapped [simp]: "length v4 = 4 \<Longrightarrow> to4 (mapped_ip v4) = Some v4"
  by (simp add: to4_def mapped_ip_def)

lemma embedded_mapped: "embedded_ipv4 ip = Some v \<Longrightarrow> to4 v \<noteq> None"
  by (auto simp: embedded_ipv4_def split: if_splits)

lemma embedded_none: "to4 ip \<noteq> None \<Longrightarrow> embedded_ipv4 ip = None"
  by (simp add: embedded_ipv4_def)

lemma embedded_some: "embedded_ipv4 ip = Some v \<Longrightarrow> to4 ip = None \<and> to4 v \<noteq> None"
  using embedded_mapped [of ip v] by (simp add: embedded_ipv4_def split: if_splits)

text \<open>The recursion ends after one step: what is embedded is an IPv4 address.\<close>

function is_private_or_reserved :: "go_ip \<Rightarrow> bool" where
  "is_private_or_reserved ip =
     (if is_loopback ip \<or> is_private ip \<or> is_link_local_unicast ip \<or> is_link_local_multicast ip \<or> is_multicast ip \<or> is_unspecified ip
      then True
      else if list_ex (\<lambda>n. net_contains n ip) extra_blocked_cidrs then True
      else case embedded_ipv4 ip of None \<Rightarrow> False | Some v4 \<Rightarrow> is_private_or_reserved v4)"
  by pat_completeness auto
termination
  by (relation "measure (\<lambda>ip. if to4 ip = None then 1 else 0)") (auto dest: embedded_some)

declare is_private_or_reserved.simps [simp del]

text \<open>\<^verbatim>\<open>lookup\<close> is the resolver: \<^const>\<open>None\<close> for an error.\<close>

definition is_private_host :: "(string \<Rightarrow> go_ip list option) \<Rightarrow> string \<Rightarrow> bool" where
  "is_private_host lookup host =
     (case parse_ip host of
        Some ip \<Rightarrow> is_private_or_reserved ip
      | None \<Rightarrow> (case lookup host of None \<Rightarrow> True | Some ips \<Rightarrow> list_ex is_private_or_reserved ips))"

text \<open>\<^verbatim>\<open>net.SplitHostPort\<close>: the last colon, brackets around an IPv6 address, and no others.\<close>

definition index_of :: "char \<Rightarrow> string \<Rightarrow> nat option" where
  "index_of c s = (if c \<in> set s then Some (length (takeWhile (\<lambda>d. d \<noteq> c) s)) else None)"

definition last_colon :: "string \<Rightarrow> nat option" where
  "last_colon s = map_option (\<lambda>i. length s - 1 - i) (index_of CHR '':'' (rev s))"

definition split_host_port :: "string \<Rightarrow> (string \<times> string) option" where
  "split_host_port s =
     (case last_colon s of
        None \<Rightarrow> None
      | Some i \<Rightarrow>
          if hd s = CHR ''['' then
            (case index_of CHR '']'' s of
               None \<Rightarrow> None
             | Some e \<Rightarrow>
                 if e + 1 \<noteq> i \<or> CHR ''['' \<in> set (drop 1 s) \<or> CHR '']'' \<in> set (drop (e + 1) s) then None
                 else Some (drop 1 (take e s), drop (i + 1) s))
          else if CHR '':'' \<in> set (take i s) \<or> CHR ''['' \<in> set s \<or> CHR '']'' \<in> set s then None
          else Some (take i s, drop (i + 1) s))"

datatype dial_error = Bad_Address | Bad_Ip | Blocked_Address

definition dial_guard :: "string \<Rightarrow> dial_error + unit" where
  "dial_guard address =
     (case split_host_port address of
        None \<Rightarrow> Inl Bad_Address
      | Some (host, port) \<Rightarrow>
          (case parse_ip host of
             None \<Rightarrow> Inl Bad_Ip
           | Some ip \<Rightarrow> if is_private_or_reserved ip then Inl Blocked_Address else Inr ()))"

section \<open>What an address reaches\<close>

text \<open>
  The networks nothing may reach, by the numbers of their bytes: this network, 10/8, 100.64/10, 127/8,
  169.254/16, 172.16/12, 192.168/16 and 224/4.
\<close>

definition reserved4 :: "nat \<Rightarrow> nat \<Rightarrow> bool" where
  "reserved4 a b \<longleftrightarrow>
     a = 0 \<or> a = 10 \<or> a = 100 \<and> 64 \<le> b \<and> b < 128 \<or> a = 127 \<or> a = 169 \<and> b = 254 \<or> a = 172 \<and> 16 \<le> b \<and> b < 32
     \<or> a = 192 \<and> b = 168 \<or> 224 \<le> a \<and> a < 240"

text \<open>The IPv4 addresses a router may take an address for: the mapped, the translated, the tunnelled one.\<close>

definition reaches4 :: "go_ip \<Rightarrow> 8 word \<Rightarrow> 8 word \<Rightarrow> bool" where
  "reaches4 ip a b \<longleftrightarrow>
     (length ip = 4 \<and> take 2 ip = [a, b])
     \<or> (length ip = 16 \<and>
         (take 14 ip = replicate 10 0 @ [255, 255, a, b] \<or> take 14 ip = [0, 0x64, 0xff, 0x9b] @ replicate 8 0 @ [a, b]
          \<or> take 4 ip = [0x20, 2, a, b] \<or> take 14 ip = replicate 12 0 @ [a, b]))"

lemma high_bits: "n < 8 \<Longrightarrow> unat ((b :: 8 word) AND NOT (mask n)) = unat b div 2 ^ n * 2 ^ n"
proof -
  assume n: "n < 8"
  have "b AND NOT (mask n) = push_bit n (drop_bit n b)" by (rule bit_word_eqI) (auto simp: bit_simps)
  moreover have "unat (push_bit n (drop_bit n b)) = take_bit 8 (push_bit n (drop_bit n (unat b)))"
    by (simp add: unsigned_push_bit_eq unsigned_drop_bit_eq take_bit_nat_eq_self)
  then have "unat (push_bit n (drop_bit n b)) = (unat b div 2 ^ n * 2 ^ n) mod 256"
    by (simp add: push_bit_eq_mult drop_bit_eq_div take_bit_eq_mod)
  moreover have "unat b div 2 ^ n * 2 ^ n < 256" using unat_word8_less [of b] div_times_less_eq_dividend le_less_trans by blast
  ultimately show "unat (b AND NOT (mask n)) = unat b div 2 ^ n * 2 ^ n" by simp
qed

lemma masks: "0xf0 = NOT (mask 4 :: 8 word)" "0xc0 = NOT (mask 6 :: 8 word)"
  by (simp_all add: mask_eq_exp_minus_1)

lemma byte_number: "n < 256 \<Longrightarrow> unat (b :: 8 word) = n \<longleftrightarrow> b = word_of_nat n"
  by (simp add: word_unat_eq_iff unat_of_nat)

lemma byte_numbers:
  "unat (b :: 8 word) = 0 \<longleftrightarrow> b = 0" "unat b = 10 \<longleftrightarrow> b = 10" "unat b = 100 \<longleftrightarrow> b = 100" "unat b = 127 \<longleftrightarrow> b = 127"
  "unat b = 169 \<longleftrightarrow> b = 169" "unat b = 172 \<longleftrightarrow> b = 172" "unat b = 192 \<longleftrightarrow> b = 192" "unat b = 254 \<longleftrightarrow> b = 254"
  "unat b = 168 \<longleftrightarrow> b = 168" "unat b = 16 \<longleftrightarrow> b = 16" "unat b = 224 \<longleftrightarrow> b = 224" "unat b = 64 \<longleftrightarrow> b = 64"
  using byte_number [of _ b] by simp_all

lemma nat_top: "0 < k \<Longrightarrow> n div k * k = m * k \<longleftrightarrow> m * k \<le> n \<and> n < Suc m * k" for n k m :: nat
  using div_times_less_eq_dividend [of n k] dividend_less_times_div [of k n]
  by (auto intro: div_nat_eqI simp: mult.commute)

lemma nat_tops:
  "n div 16 * 16 = 16 \<longleftrightarrow> 16 \<le> n \<and> n < 32" "n div 16 * 16 = 224 \<longleftrightarrow> 224 \<le> n \<and> n < 240"
  "n div 64 * 64 = 64 \<longleftrightarrow> 64 \<le> n \<and> n < 128" for n :: nat
  using nat_top [of 16 n 1] nat_top [of 16 n 14] nat_top [of 64 n 1] by simp_all

lemma byte_masks:
  "(b :: 8 word) AND 0xf0 = 16 \<longleftrightarrow> 16 \<le> unat b \<and> unat b < 32"
  "b AND 0xf0 = 0xe0 \<longleftrightarrow> 224 \<le> unat b \<and> unat b < 240"
  "b AND 0xc0 = 64 \<longleftrightarrow> 64 \<le> unat b \<and> unat b < 128"
proof -
  have bits: "unat (b AND 0xf0) = unat b div 16 * 16" "unat (b AND 0xc0) = unat b div 64 * 64"
    using high_bits [of 4 b] high_bits [of 6 b] unfolding masks by simp_all
  show "b AND 0xf0 = 16 \<longleftrightarrow> 16 \<le> unat b \<and> unat b < 32"
    using byte_numbers(10) [of "b AND 0xf0"] nat_tops(1) [of "unat b"] bits(1) by metis
  show "b AND 0xf0 = 0xe0 \<longleftrightarrow> 224 \<le> unat b \<and> unat b < 240"
    using byte_numbers(11) [of "b AND 0xf0"] nat_tops(2) [of "unat b"] bits(1) by metis
  show "b AND 0xc0 = 64 \<longleftrightarrow> 64 \<le> unat b \<and> unat b < 128"
    using byte_numbers(12) [of "b AND 0xc0"] nat_tops(3) [of "unat b"] bits(2) by metis
qed

section \<open>What the guard passes\<close>

lemma cidr_masks:
  "cidr_mask 10 (Suc (Suc (Suc (Suc 0)))) = [255, 0xc0, 0, 0]" "cidr_mask 8 (Suc (Suc (Suc (Suc 0)))) = [255, 0, 0, 0]"
  by code_simp+

lemma byte_and_all: "(b :: 8 word) AND 255 = b"
proof -
  have "(255 :: 8 word) = - 1" by simp
  then show ?thesis by (metis and.right_neutral)
qed

lemma in_extra:
  assumes "to4 ip = Some [a, b, c, d]"
  shows "net_contains ([100, 64, 0, 0], 10) ip \<longleftrightarrow> a = 100 \<and> b AND 0xc0 = 64"
    "net_contains ([0, 0, 0, 0], 8) ip \<longleftrightarrow> a = 0"
  using assms by (simp_all add: net_contains_def mask_ip_def cidr_masks byte_and_all del: cidr_mask.simps)

text \<open>On IPv4 the guard is the table of the networks.\<close>

lemma guard_on_ipv4:
  assumes "to4 ip = Some [a, b, c, d]"
  shows "is_private_or_reserved ip \<longleftrightarrow> reserved4 (unat a) (unat b)"
proof -
  have preds: "is_loopback ip \<longleftrightarrow> a = 127" "is_private ip \<longleftrightarrow> a = 10 \<or> a = 172 \<and> b AND 0xf0 = 16 \<or> a = 192 \<and> b = 168"
    "is_link_local_unicast ip \<longleftrightarrow> a = 169 \<and> b = 254" "is_link_local_multicast ip \<longleftrightarrow> a = 224 \<and> b = 0 \<and> c = 0"
    "is_multicast ip \<longleftrightarrow> a AND 0xf0 = 0xe0" "is_unspecified ip \<longleftrightarrow> a = 0 \<and> b = 0 \<and> c = 0 \<and> d = 0"
    using assms
    by (simp_all add: is_loopback_def is_private_def is_link_local_unicast_def is_link_local_multicast_def is_multicast_def
        is_unspecified_def ip_is_def numeral_eq_Suc)
  have "embedded_ipv4 ip = None" using assms by (simp add: embedded_none)
  then have "is_private_or_reserved ip \<longleftrightarrow>
      a = 127 \<or> (a = 10 \<or> a = 172 \<and> b AND 0xf0 = 16 \<or> a = 192 \<and> b = 168) \<or> (a = 169 \<and> b = 254) \<or> (a = 224 \<and> b = 0 \<and> c = 0)
      \<or> a AND 0xf0 = 0xe0 \<or> (a = 0 \<and> b = 0 \<and> c = 0 \<and> d = 0) \<or> (a = 100 \<and> b AND 0xc0 = 64) \<or> a = 0"
    by (subst is_private_or_reserved.simps) (simp add: preds extra_blocked_cidrs_def in_extra [OF assms])
  moreover have "a = 224 \<Longrightarrow> a AND 0xf0 = 0xe0" by simp
  ultimately have "is_private_or_reserved ip \<longleftrightarrow>
      a = 127 \<or> (a = 10 \<or> a = 172 \<and> b AND 0xf0 = 16 \<or> a = 192 \<and> b = 168) \<or> (a = 169 \<and> b = 254)
      \<or> a AND 0xf0 = 0xe0 \<or> (a = 100 \<and> b AND 0xc0 = 64) \<or> a = 0"
    by blast
  then show ?thesis unfolding reserved4_def byte_numbers byte_masks by blast
qed

lemma masks6: "cidr_mask 96 16 = replicate 12 255 @ replicate 4 0" "cidr_mask 16 16 = replicate 2 255 @ replicate 14 0"
  by code_simp+

lemma net_contains6:
  assumes "to4 ip = None" and "length ip = 16"
  shows "net_contains nat64_well_known ip \<longleftrightarrow> take 12 ip = [0, 0x64, 0xff, 0x9b] @ replicate 8 0"
    "net_contains six_to_four ip \<longleftrightarrow> take 2 ip = [0x20, 2]"
proof -
  have zip: "mask_ip (replicate k 255 @ replicate (16 - k) 0) ip = take k ip @ replicate (16 - k) 0" if "k \<le> 16" for k
    using assms(2) that
    by (intro nth_equalityI) (auto simp: mask_ip_def nth_append byte_and_all)
  have "mask_ip (replicate 12 255 @ replicate 4 0) ip = take 12 ip @ replicate 4 0"
    "mask_ip (replicate 2 255 @ replicate 14 0) ip = take 2 ip @ replicate 14 0"
    using zip [of 12] zip [of 2] by simp_all
  moreover have "mask_ip (replicate 12 255 @ replicate 4 0) (fst nat64_well_known) = ([0, 0x64, 0xff, 0x9b] @ replicate 8 0) @ replicate 4 0"
    "mask_ip (replicate 2 255 @ replicate 14 0) (fst six_to_four) = [0x20, 2] @ replicate 14 0"
    by code_simp+
  moreover have "length (fst nat64_well_known) = 16" "length (fst six_to_four) = 16" "snd nat64_well_known = 96" "snd six_to_four = 16"
    by (simp_all add: nat64_well_known_def six_to_four_def)
  ultimately show "net_contains nat64_well_known ip \<longleftrightarrow> take 12 ip = [0, 0x64, 0xff, 0x9b] @ replicate 8 0"
    "net_contains six_to_four ip \<longleftrightarrow> take 2 ip = [0x20, 2]"
    using assms unfolding net_contains_def by (simp_all only: masks6 option.case Let_def append_same_eq simp_thms)
qed

text \<open>Whatever an address may be taken for, the guard refuses it with that.\<close>

lemma refuses_embedded:
  assumes "embedded_ipv4 ip = Some (mapped_ip [a, b, c, d])" and "reserved4 (unat a) (unat b)"
  shows "is_private_or_reserved ip"
proof -
  have "is_private_or_reserved (mapped_ip [a, b, c, d])"
    using guard_on_ipv4 [of "mapped_ip [a, b, c, d]" a b c d] assms(2) by simp
  then show ?thesis using assms(1) by (subst is_private_or_reserved.simps) simp
qed

lemma head_bytes:
  assumes "take (Suc (Suc n)) ip = xs @ [a, b]" and "length xs = n"
  shows "take n ip = xs" "ip ! n = a" "ip ! Suc n = b"
proof -
  have "take n (take (Suc (Suc n)) ip) = xs" using assms by simp
  then show "take n ip = xs" by simp
  have "take (Suc (Suc n)) ip ! n = a" "take (Suc (Suc n)) ip ! Suc n = b" using assms by (simp_all add: nth_append)
  then show "ip ! n = a" "ip ! Suc n = b" by simp_all
qed

lemma refuses_reached:
  assumes "reaches4 ip a b" and "reserved4 (unat a) (unat b)"
  shows "is_private_or_reserved ip"
proof -
  consider "length ip = 4" "take 2 ip = [a, b]" | "length ip = 16" "take 14 ip = (replicate 10 0 @ [255, 255]) @ [a, b]"
    | "length ip = 16" "take 14 ip = ([0, 0x64, 0xff, 0x9b] @ replicate 8 0) @ [a, b]"
    | "length ip = 16" "take 4 ip = [0x20, 2] @ [a, b]" | "length ip = 16" "take 14 ip = replicate 12 0 @ [a, b]"
    using assms(1) unfolding reaches4_def append_assoc append_Cons append_Nil by blast
  then show ?thesis
  proof cases
    case 1
    then obtain c d where "ip = [a, b, c, d]" by (elim four_bytes) auto
    then show ?thesis using guard_on_ipv4 [of ip a b c d] assms(2) by (simp add: to4_def)
  next
    case 2
    have t: "take 12 ip = replicate 10 0 @ [255, 255]" "ip ! 12 = a" "ip ! 13 = b"
      using head_bytes [of 12 ip "replicate 10 0 @ [255, 255]" a b] 2(2) by simp_all
    have "drop 12 ip = [a, b, ip ! 14, ip ! 15]"
      using t(2,3) 2(1) by (intro nth_equalityI) (auto simp: less_Suc_eq numeral_eq_Suc)
    then show ?thesis using guard_on_ipv4 [of ip a b "ip ! 14" "ip ! 15"] assms(2) 2(1) t(1) by (simp add: to4_def)
  next
    case 3
    have t: "take 12 ip = [0, 0x64, 0xff, 0x9b] @ replicate 8 0" "ip ! 12 = a" "ip ! 13 = b"
      using head_bytes [of 12 ip "[0, 0x64, 0xff, 0x9b] @ replicate 8 0" a b] 3(2) by simp_all
    have "[0, 0x64, 0xff, 0x9b] @ replicate 8 0 \<noteq> (replicate 10 0 @ [255, 255] :: go_ip)" by code_simp
    then have none: "to4 ip = None" unfolding to4_def t(1) 3(1) by auto
    have "embedded_ipv4 ip = Some (mapped_ip [a, b, ip ! 14, ip ! 15])"
      using 3(1) t none net_contains6(1) [OF none 3(1)] by (simp add: embedded_ipv4_def)
    then show ?thesis using assms(2) by (rule refuses_embedded)
  next
    case 4
    have t: "take 2 ip = [0x20, 2]" "ip ! 2 = a" "ip ! 3 = b"
      using head_bytes [of 2 ip "[0x20, 2]" a b] 4(2) by (simp_all add: numeral_eq_Suc)
    have "take 2 ip ! 0 = 0x20" unfolding t(1) by simp
    then have first: "take 12 ip ! 0 = 0x20" by simp
    have other: "take 12 ip \<noteq> 0 # xs" for xs
    proof
      assume eq: "take 12 ip = 0 # xs"
      from first show False unfolding eq by simp
    qed
    have "take 12 ip \<noteq> replicate 10 0 @ [255, 255]" using other by (simp add: numeral_eq_Suc)
    then have none: "to4 ip = None" by (simp add: to4_def 4(1))
    have "\<not> net_contains nat64_well_known ip" using other unfolding net_contains6(1) [OF none 4(1)] by simp
    then have "embedded_ipv4 ip = Some (mapped_ip [a, b, ip ! 4, ip ! 5])"
      using 4(1) t none net_contains6(2) [OF none 4(1)] by (simp add: embedded_ipv4_def)
    then show ?thesis using assms(2) by (rule refuses_embedded)
  next
    case 5
    have t: "take 12 ip = replicate 12 0" "ip ! 12 = a" "ip ! 13 = b"
      using head_bytes [of 12 ip "replicate 12 0" a b] 5(2) by simp_all
    have "replicate 12 0 \<noteq> (replicate 10 0 @ [255, 255] :: go_ip)"
      "replicate 12 0 \<noteq> ([0, 0x64, 0xff, 0x9b] @ replicate 8 0 :: go_ip)" "replicate 2 0 \<noteq> ([0x20, 2] :: go_ip)" by code_simp+
    then have none: "to4 ip = None" and other: "take 12 ip \<noteq> [0, 0x64, 0xff, 0x9b] @ replicate 8 0" "replicate 2 0 \<noteq> ([0x20, 2] :: go_ip)"
      unfolding to4_def t(1) 5(1) by auto
    have "take 2 ip = take 2 (take 12 ip)" by simp
    then have "take 2 ip = replicate 2 0" unfolding t(1) by simp
    then have "\<not> net_contains six_to_four ip" unfolding net_contains6(2) [OF none 5(1)] using other(2) by metis
    moreover have "\<not> net_contains nat64_well_known ip" unfolding net_contains6(1) [OF none 5(1)] by (rule other(1))
    ultimately have "embedded_ipv4 ip = Some (mapped_ip [a, b, ip ! 14, ip ! 15])"
      using 5(1) t none by (simp add: embedded_ipv4_def is_zeros_def list_all_iff)
    then show ?thesis using assms(2) by (rule refuses_embedded)
  qed
qed

text \<open>
  C13: an address the guard lets a connection go to reaches no reserved network: neither as the IPv4 address
  it is, nor as the one it maps, translates (NAT64), tunnels (6to4) or is compatible with; and it is no
  loopback, unspecified, multicast, link-local or unique local address of IPv6.
\<close>

theorem dial_guard_blocks_inside:
  assumes "dial_guard address = Inr ()"
  shows "\<exists>host port ip. split_host_port address = Some (host, port) \<and> parse_ip host = Some ip
    \<and> (\<forall>a b. reaches4 ip a b \<longrightarrow> \<not> reserved4 (unat a) (unat b))
    \<and> (to4 ip = None \<and> length ip = 16 \<longrightarrow>
         ip \<noteq> replicate 16 0 \<and> ip \<noteq> replicate 15 0 @ [1] \<and> ip ! 0 \<noteq> 0xff \<and> ip ! 0 AND 0xfe \<noteq> 0xfc
         \<and> \<not> (ip ! 0 = 0xfe \<and> ip ! 1 AND 0xc0 = 0x80))"
proof -
  obtain host port ip where parts: "split_host_port address = Some (host, port)" "parse_ip host = Some ip" "\<not> is_private_or_reserved ip"
    using assms by (auto simp: dial_guard_def split: option.splits prod.splits if_splits)
  have "\<not> is_loopback ip" "\<not> is_private ip" "\<not> is_link_local_unicast ip" "\<not> is_multicast ip" "\<not> is_unspecified ip"
    using parts(3) is_private_or_reserved.simps [of ip] by (auto split: if_splits)
  then have "to4 ip = None \<and> length ip = 16 \<longrightarrow>
         ip \<noteq> replicate 16 0 \<and> ip \<noteq> replicate 15 0 @ [1] \<and> ip ! 0 \<noteq> 0xff \<and> ip ! 0 AND 0xfe \<noteq> 0xfc
         \<and> \<not> (ip ! 0 = 0xfe \<and> ip ! 1 AND 0xc0 = 0x80)"
    by (cases "to4 ip")
      (simp_all add: is_loopback_def is_private_def is_link_local_unicast_def is_multicast_def is_unspecified_def ip_is_def)
  then show ?thesis using parts refuses_reached by blast
qed

theorem dial_guard_blocks_inside_witness:
  "dial_guard ''8.8.8.8:443'' = Inr () \<and>
    (\<exists>host port ip. split_host_port ''8.8.8.8:443'' = Some (host, port) \<and> parse_ip host = Some ip
      \<and> (\<forall>a b. reaches4 ip a b \<longrightarrow> \<not> reserved4 (unat a) (unat b)))"
proof -
  have ok: "dial_guard ''8.8.8.8:443'' = Inr ()" by code_simp
  from dial_guard_blocks_inside [OF ok] show ?thesis using ok by blast
qed

end
