(* ===== verification/Spec2Isabelle.thy ===== *)
theory Spec2Isabelle
  imports Web_Clients Selection Pairing Subops Refresh Substore Pending_Restore Endpoint Walk_Order Monitor_Checks Watch_Own
    Note_Ids Note_Pages Delivery Update_Check Ssrf
begin

text \<open>
  VPN Director routes the clients of a home router either through Xray (a proxy, reached over TPROXY) or
  through a tunnel (WireGuard or OpenVPN) and keeps Xray on a server that works. This development models
  its Go server, \<^verbatim>\<open>src/server/internal\<close>: file names below are relative to it.

  \<^bold>\<open>The program.\<close> One JSON file, \<^verbatim>\<open>vpn-director.json\<close>, holds every client's route,
  the tunnels, the selected server (\<^verbatim>\<open>active_server\<close>, and the user's choice
  \<^verbatim>\<open>preferred_server\<close> while a walk is away from it), the record of a failover and the intent of a
  restore; a directory holds one file per subscription with its servers. Three processes change them under
  one lock: the Web UI and the bot on the user's request, and the daemon \<^verbatim>\<open>watchd\<close> on its own. In
  the daemon the monitor checks every server's endpoint, and the subscription watch probes Xray, moves its
  clients into a tunnel when the outbound is dead, downloads the lists, walks the servers for a live one,
  and brings the clients back. What it did it tells the user through the notification store, a queue per chat
  that survives restarts; the bot fetches it, sends it and acknowledges what it sent, and tells its users of a new
  release.

  \<^bold>\<open>What Go gives.\<close> \<open>Prelude\<close> (collections of rules, lists, association lists),
  \<open>Go_Text\<close> (strings as bytes, UTF-8, printing and parsing of numbers), \<open>Go_Net\<close> and \<open>Go_Ip6\<close>
  (\<^verbatim>\<open>net.ParseIP\<close>), \<open>Go_Json\<close> and \<open>Go_Float\<close> (\<^verbatim>\<open>encoding/json\<close>,
  numbers decoded to \<^verbatim>\<open>float64\<close>), \<open>Go_Time\<close> (times and durations), \<open>Sha256\<close>.

  \<^bold>\<open>The configuration and its operations\<close> (\<^verbatim>\<open>vpnconfig\<close>, \<^verbatim>\<open>webapi\<close>,
  \<^verbatim>\<open>service\<close>).
  \<open>Config_Model\<close>: the records of \<^verbatim>\<open>vpnconfig.go\<close>, an object of JSON as an association list with
  distinct keys. \<open>Client_Addr\<close>: the address validator and the key two spellings of an address share.
  \<open>Outbound\<close>: decoding of a stored outbound, labels, groups, identities. \<open>Failover\<close>
  (\<^verbatim>\<open>failover.go\<close>): staging, committing, extending, restoring a failover; the locale
  \<open>failover_op\<close> states what each of them promises to a client (it stays on a route, the record stays
  one that can be undone) and is interpreted on every one of them. \<open>Clients\<close> (\<^verbatim>\<open>clients.go\<close>):
  the routes of a client and its moves; the locale \<open>spelling_key\<close> is the interface of the address key.
  \<open>Selection\<close>: \<^verbatim>\<open>active_server\<close>, \<^verbatim>\<open>preferred_server\<close> and the counter of their
  writes. \<open>Pending_Restore\<close>: the intent of a restore and its finish. \<open>Pairing\<close>, \<open>Refresh\<close>
  (\<^verbatim>\<open>identity.go\<close>, \<^verbatim>\<open>refresh.go\<close>): which stored server each downloaded one is, the
  merge, and the records that follow a rename. \<open>Substore\<close>, \<open>Subops\<close> (\<^verbatim>\<open>substore.go\<close>,
  \<^verbatim>\<open>subops.go\<close>, \<^verbatim>\<open>publish.go\<close>): the files and the operations on them; the locale
  \<open>config_update\<close> is the locked update of the configuration, interpreted on the service's update and on
  the watch's guarded one. \<open>Web_Clients\<close> (\<^verbatim>\<open>webapi/handler_clients.go\<close>,
  \<^verbatim>\<open>handler_excludes.go\<close>): the handlers of the Web UI, and the theorem that no sequence of
  requests and failover operations loses a client.

  \<open>Xray_Config\<close> (\<^verbatim>\<open>service/xray.go\<close>): the outbound of a server and the document that
  replaces \<^verbatim>\<open>config.json\<close>.

  \<^bold>\<open>The monitor\<close> (\<^verbatim>\<open>monitor\<close>). \<open>Monitor_Entry\<close>: the settings and the record of an
  endpoint. \<open>Monitor\<close>: the set, the session of the prober, the tick, the results, the guard that counts
  no failure while the WAN may be down, and the state file. \<open>Monitor_Run\<close>: the events of its loop as a
  step relation and the invariant every step keeps. \<open>Monitor_Safety\<close>, \<open>Monitor_Checks\<close>: the
  properties of its runs.

  \<^bold>\<open>The subscription watch\<close> (\<^verbatim>\<open>subwatch\<close>, \<^verbatim>\<open>endpoint\<close>). \<open>Endpoint\<close>:
  what is dialed and its keys. \<open>Walk_Order\<close>: the order of a walk, the entry of a choice, the record of a
  newer selection. \<open>Watch_Base\<close>: the record of the watch, what it asks of the rest of the daemon (the
  record \<open>outside\<close>, asked call by call) and the bookkeeping of failures and messages. \<open>Watch_Calls\<close>:
  the permission to act, the locked update, the apply, the restart and the messages.
  \<open>Watch_Failover\<close>: a handler for each of \<^verbatim>\<open>failOutbound\<close>, \<^verbatim>\<open>applyFailover\<close>,
  \<^verbatim>\<open>watchFallback\<close>, \<^verbatim>\<open>retryOrSwitchFallback\<close>, \<^verbatim>\<open>commitRestore\<close>,
  \<^verbatim>\<open>finalizeRestore\<close>, \<^verbatim>\<open>reconcileRestore\<close>, as a computation of \<open>State_Monad\<close> on
  the world: the file, the watch, the deeds done so far. \<open>Triples\<close>, \<open>Watch_Logic\<close>: triples over such
  computations, and assertions that the writes of others do not break. \<open>Watch_Order\<close>: every handler keeps
  the state between two calls. \<open>Watch_Switch\<close> (\<^verbatim>\<open>best.go\<close>, \<^verbatim>\<open>reach.go\<close>,
  \<^verbatim>\<open>service/activeserver.go\<close>): the best copy, the write of \<^verbatim>\<open>config.json\<close> with its record
  under a guard, one switch. \<open>Watch_Walk\<close>: the wave of downloads and the walk. \<open>Watch_Return\<close>
  (\<^verbatim>\<open>return.go\<close>), \<open>Watch_Fast\<close> (\<^verbatim>\<open>fast.go\<close>), \<open>Watch_Keeper\<close>
  (\<^verbatim>\<open>keeper.go\<close>): the other parts of a tick that switch Xray. \<open>Watch_Gentle\<close>, \<open>Watch_Steady\<close>:
  a switch leaves the routes alone, and a walk keeps the state between two handlers. \<open>Watch_Tick\<close>: the whole
  tick. \<open>Watch_Safety\<close>: what every run of ticks keeps. \<open>Watch_Moves\<close>: what the handlers achieve where no
  call fails. \<open>Watch_Own\<close>: whose selection a switch may overwrite, and how often a walk restarts Xray.

  \<^bold>\<open>The notifications\<close> (\<^verbatim>\<open>notifications\<close>, \<^verbatim>\<open>watchdapi/health.go\<close>,
  \<^verbatim>\<open>notifications_server.go\<close>). \<open>Note_Events\<close>: the record of the store and its critical sections as
  functions on it - publishing, pruning, acknowledging, the pages, new recipients, the health of the
  subscriptions - with the state that is saved and its validation. \<open>Note_Store\<close>: the operations composed of
  them, as computations on the store and its file: the saves with the reserve of identifiers, the restart, the
  retries. Between any two critical sections other goroutines may run sections of their own (\<open>others\<close>), and
  where the lock of the saves is free whole flushes too (\<open>free\<close>); what they run and what disk, clock and
  random source answer is the record \<open>note_env\<close>. \<open>Note_Valid\<close>: the validation stated on sets of events.
  \<open>Note_Books\<close>: every section keeps it. \<open>Note_Pages\<close>: what a client that follows the cursors of the
  pages is given, and how long the queues get. \<open>Note_Ids\<close>: the history of a store over its runs; the locale
  \<open>note_context\<close> is what the publishing loop asks of the lock it runs under, interpreted for both locks.

  \<^bold>\<open>The bot.\<close> \<open>Chat_Store\<close> (\<^verbatim>\<open>chatstore\<close>, \<^verbatim>\<open>bot/auth.go\<close>): who has talked to it and what
  each was told. \<open>Delivery\<close> (\<^verbatim>\<open>bot/notifications.go\<close>, \<^verbatim>\<open>notification_text.go\<close>): the
  receiver as a computation on its receipts, the store of chats and the answers of \<^verbatim>\<open>watchd\<close> and Telegram: a
  poll reads pages into one job per chat, a job delivers, acknowledges, and leaves what may be tried again; the
  chats, which the code serves at once, are served one after the other, and between any two calls the users, the
  permission to write to them and the clock may change. \<open>Version\<close>, \<open>Update_Check\<close>
  (\<^verbatim>\<open>updater/version.go\<close>, \<^verbatim>\<open>updatechecker\<close>): the order of releases and who is told of one.

  \<^bold>\<open>The guard of downloads\<close> (\<^verbatim>\<open>ssrf\<close>). \<open>Ssrf\<close>: the addresses a link of a user may not
  lead to, and the check of the address a connection is made to.

  \<^bold>\<open>What the theorems show.\<close> A client is on a route after any mix of requests, failovers and
  restores, finished or not; the watch takes a client off one way only when the other is applied and
  reported ready, owes no apply it forgets, and a failover and its restore undo each other; the list
  operations keep \<^verbatim>\<open>xray.servers\<close> in step with the files or change nothing, and say which; the walk
  goes through every server once, starts with the choice, never mistakes its own write for the user's and
  never overwrites a selection made meanwhile; no document is published that Xray would die of;
  the monitor calls nothing dead without evidence that the WAN works, resolves every failure within its
  window and never runs more checks than its limit; no identifier of a notification is handed out twice,
  whatever fails and wherever the daemon is cut off, and whatever was saved a restart takes back;
  the pages give every pending notification once, the bot acknowledges none it has not closed and tells no chat of a
  release twice; no download reaches a private network, however its address is written.

  \<^bold>\<open>Loops.\<close> Every recursion is structural or has a measure, with these exceptions: \<open>name_loop\<close>
  (default names) has the number of subscriptions as its bound and is proved to find a name within it;
  \<open>duration_terms\<close> has the length of its text, and more changes nothing; the loops of the notification
  store that retry after a lease (\<open>note_rounds\<close>) have a round for each of the 2^64 sequence numbers, since a
  lease that was saved leaves the next round a number to hand out unless another goroutine used it up.

  \<^bold>\<open>What the model fixes.\<close> A nil slice and an empty one are the same list, except
  \<open>fo_added\<close>, where they mean different things. A pointer to the configuration is not nil and the hooks
  of the watch are set. \<^verbatim>\<open>strings.ToLower\<close> is that of ASCII. A time is an int of nanoseconds with zero
  as the zero time, the jitter of a check a rational. The host of a subscription link, random draws, the
  reading of the whole configuration file and the answers of scripts, sockets and clocks are arguments.
  Cancellation is an answer of the calls that see it. A session of the prober is a number.

  The state file of the notifications is the state it decodes to: its JSON text is \<^verbatim>\<open>encoding/json\<close>'s, and
  how a time prints with its zone is an argument. So are the order in which Go walks the map of users, and what the
  file of the chats decodes to.

  \<^bold>\<open>Not modelled.\<close> Pure input and output and what only forwards it: the bot's menus, the HTTP
  router and authentication, the daemons' main functions, the services that run scripts, the updater's
  download, the sockets of the probes. Not yet modelled: the decoding of subscriptions, the setup wizard, the
  schedule of the periodic refresh and the status for the Web UI.
\<close>

end
